(* ===== verification/Omocha_Prelude.thy ===== *)
theory Omocha_Prelude
  imports Main "HOL-Library.Word"
begin

text \<open>
  Shared vocabulary of the development: the C integer types of
  \<^verbatim>\<open>header/generic/typedefs.h\<close> as words, the faults a kernel operation can run into, the
  theorem collections that the component theories fill, and the generic lemmas on words and
  lists that several components need.

  The build of \<^verbatim>\<open>CMakeLists.txt\<close> does not define \<^verbatim>\<open>__DEBUG__\<close>, so the macros \<^verbatim>\<open>panic\<close> and
  \<^verbatim>\<open>assert\<close> of \<^verbatim>\<open>header/lib/stdlib.h\<close> expand to nothing: throughout the development a failed
  \<^verbatim>\<open>assert\<close> and a \<^verbatim>\<open>panic\<close> fall through to the statement that follows them.
\<close>

unbundle bit_operations_syntax

section \<open>Types of the C code\<close>

type_synonym u8 = "8 word"
type_synonym u16 = "16 word"
type_synonym u32 = "32 word"
type_synonym u64 = "64 word"

text \<open>What a model reports where the C code leaves the defined part of the language.\<close>

datatype fault =
    NullDeref
  | OutOfBounds
  | DivideFault
  | Uninitialised
  | Hang

type_synonym 'a res = "fault + 'a"

section \<open>Theorem collections\<close>

named_theorems bit_facts \<open>bit-level characterisations of word operations\<close>
named_theorems frame_facts \<open>what an operation leaves unchanged\<close>

section \<open>Words\<close>

lemma unat_of_nat32: "n < 2 ^ 32 \<Longrightarrow> unat (of_nat n :: u32) = n"
  by (simp add: unat_of_nat take_bit_nat_eq_self)

lemma of_nat_inj32:
  "a < 2 ^ 32 \<Longrightarrow> b < 2 ^ 32 \<Longrightarrow> (of_nat a :: u32) = of_nat b \<longleftrightarrow> a = b"
  by (metis unat_of_nat32)

lemma unat_lt32: "unat (w :: u32) < 2 ^ 32"
  using unsigned_less [of w] by simp

lemma u8_bit_bound: "8 \<le> n \<Longrightarrow> \<not> bit (x :: u8) n"
  using bit_imp_le_length [of x n] by auto

lemma unat_le_iff_add:
  "unat (a :: u32) + n < 2 ^ 32 \<Longrightarrow> unat (a + of_nat n) = unat a + n"
proof -
  assume "unat a + n < 2 ^ 32"
  then have "unat a + unat (of_nat n :: u32) < 2 ^ 32"
    by (simp add: unat_of_nat32)
  then show ?thesis
    using \<open>unat a + n < 2 ^ 32\<close>
    by (subst unat_add_lem [THEN iffD1]) (simp_all add: unat_of_nat32)
qed

lemma word_add_of_nat_inj:
  "unat (a :: u32) + i < 2 ^ 32 \<Longrightarrow> unat a + j < 2 ^ 32 \<Longrightarrow>
   a + of_nat i = a + of_nat j \<longleftrightarrow> i = j"
  by (metis add_left_cancel unat_le_iff_add)

lemma bit_word_ge: "32 \<le> n \<Longrightarrow> \<not> bit (w :: u32) n"
  using bit_imp_le_length [of w n] by auto

lemma word_eqI32: "(\<And>n. n < 32 \<Longrightarrow> bit (a :: u32) n = bit b n) \<Longrightarrow> a = b"
  by (rule bit_word_eqI) simp

lemma bit_single [bit_facts]: "i < 32 \<Longrightarrow> bit ((2 :: u32) ^ i) n \<longleftrightarrow> n = i"
  by (auto simp: bit_exp_iff)

lemma and_single_eq_0 [bit_facts]: "(w AND (2 :: u32) ^ i = 0) \<longleftrightarrow> \<not> bit w i"
  by (simp add: and_exp_eq_0_iff_not_bit)

lemma least_such:
  assumes "P (k :: nat)"
  obtains l where "l \<le> k" "P l" "\<forall>j < l. \<not> P j"
  using that [of "LEAST l. P l"] assms Least_le [of P k] LeastI [of P k] not_less_Least
  by blast

section \<open>Lists\<close>

lemma distinct_append_middle:
  "distinct (xs @ a # ys) \<longleftrightarrow> a \<notin> set xs \<and> a \<notin> set ys \<and> distinct (xs @ ys)"
  by auto

lemma find_upt_Some:
  "find P [a..<b] = Some i \<longleftrightarrow> a \<le> i \<and> i < b \<and> P i \<and> (\<forall>j. a \<le> j \<longrightarrow> j < i \<longrightarrow> \<not> P j)"
proof (induction "b - a" arbitrary: a)
  case 0
  then show ?case by auto
next
  case (Suc n)
  then have split: "[a..<b] = a # [Suc a..<b]"
    by (simp add: upt_conv_Cons)
  have IH: "find P [Suc a..<b] = Some i \<longleftrightarrow>
    Suc a \<le> i \<and> i < b \<and> P i \<and> (\<forall>j. Suc a \<le> j \<longrightarrow> j < i \<longrightarrow> \<not> P j)"
    using Suc by auto
  show ?case
  proof (cases "P a")
    case True
    then show ?thesis
      using Suc.hyps(2) by (auto simp: split intro: antisym_conv2 [THEN iffD1])
  next
    case False
    then have "find P [a..<b] = Some i \<longleftrightarrow> find P [Suc a..<b] = Some i"
      by (simp add: split)
    also note IH
    also have "Suc a \<le> i \<and> i < b \<and> P i \<and> (\<forall>j. Suc a \<le> j \<longrightarrow> j < i \<longrightarrow> \<not> P j) \<longleftrightarrow>
      a \<le> i \<and> i < b \<and> P i \<and> (\<forall>j. a \<le> j \<longrightarrow> j < i \<longrightarrow> \<not> P j)"
      using False by (metis Suc_leD Suc_leI le_neq_implies_less)
    finally show ?thesis .
  qed
qed

lemma find_upt_None: "find P [a..<b] = None \<longleftrightarrow> (\<forall>j. a \<le> j \<longrightarrow> j < b \<longrightarrow> \<not> P j)"
  by (auto simp: find_None_iff)

end
