(* ===== verification/Bitset.thy ===== *)
theory Bitset
  imports Omocha_Prelude
begin

text \<open>
  \<^verbatim>\<open>header/lib/bitset.h\<close> and the bit tricks of \<^verbatim>\<open>modules/memory/buddy.h\<close>.

  A \<^verbatim>\<open>bitset *\<close> is the array of 32-bit words it points to, a function from the word index.
  The array carries no length in the C code and none here; \<open>bit_at\<close> reads it as the flat
  sequence of bits the callers have in mind.
\<close>

section \<open>Bit arrays\<close>

type_synonym bitset = "nat \<Rightarrow> u32"

abbreviation (input) BITS_PER_BITSET :: nat where "BITS_PER_BITSET \<equiv> 32"

definition set_bit :: "bitset \<Rightarrow> nat \<Rightarrow> bitset" where
  "set_bit bitarray i =
     bitarray(i div BITS_PER_BITSET :=
       bitarray (i div BITS_PER_BITSET) OR push_bit (i mod BITS_PER_BITSET) 1)"

definition clear_bit :: "bitset \<Rightarrow> nat \<Rightarrow> bitset" where
  "clear_bit bitarray i =
     bitarray(i div BITS_PER_BITSET :=
       bitarray (i div BITS_PER_BITSET) AND NOT (push_bit (i mod BITS_PER_BITSET) 1))"

definition check_bit :: "bitset \<Rightarrow> nat \<Rightarrow> nat" where
  "check_bit bitarray i =
     (if bitarray (i div BITS_PER_BITSET) AND push_bit (i mod BITS_PER_BITSET) 1 \<noteq> 0
      then 1 else 0)"

text \<open>The third argument of \<open>xor_bit\<close> is unused in the C code as well.\<close>

definition xor_bit :: "bitset \<Rightarrow> nat \<Rightarrow> nat \<Rightarrow> bitset" where
  "xor_bit bitarray i x =
     bitarray(i div BITS_PER_BITSET :=
       bitarray (i div BITS_PER_BITSET) XOR push_bit (i mod BITS_PER_BITSET) 1)"

text \<open>
  The x86 instruction \<open>bsf\<close>: the index of the lowest set bit; for a zero operand the
  destination is undefined, \<open>None\<close> here.
\<close>

definition bsf :: "u32 \<Rightarrow> nat option" where
  "bsf w = find (bit w) [0..<32]"

text \<open>
  \<open>find_first_unset_bit\<close> walks the words and, at the first one that is not full, returns the
  position of the lowest clear bit \<^emph>\<open>inside that word\<close>: the C code does not add \<open>32 * i\<close>.
\<close>

fun find_first_unset_from :: "bitset \<Rightarrow> nat \<Rightarrow> nat \<Rightarrow> u32" where
  "find_first_unset_from bitarray i 0 = 0xFFFFFFFF"
| "find_first_unset_from bitarray i (Suc left) =
     (if bitarray i = 0xFFFFFFFF then find_first_unset_from bitarray (Suc i) left
      else (let c = NOT (bitarray i)
            in case bsf c of Some r \<Rightarrow> of_nat r | None \<Rightarrow> 0))"

definition find_first_unset_bit :: "bitset \<Rightarrow> nat \<Rightarrow> u32" where
  "find_first_unset_bit bitarray array_size = find_first_unset_from bitarray 0 array_size"

subsection \<open>The flat view\<close>

definition bit_at :: "bitset \<Rightarrow> nat \<Rightarrow> bool" where
  "bit_at b i = bit (b (i div 32)) (i mod 32)"

lemma bit_at_set_bit [bit_facts]: "bit_at (set_bit b i) j \<longleftrightarrow> j = i \<or> bit_at b j"
proof -
  have eq: "j = i \<longleftrightarrow> j div 32 = i div 32 \<and> j mod 32 = i mod 32"
    by (metis mod_mult_div_eq)
  show ?thesis
    by (auto simp: bit_at_def set_bit_def bit_or_iff bit_single eq)
qed

lemma bit_at_clear_bit [bit_facts]: "bit_at (clear_bit b i) j \<longleftrightarrow> j \<noteq> i \<and> bit_at b j"
proof -
  have eq: "j = i \<longleftrightarrow> j div 32 = i div 32 \<and> j mod 32 = i mod 32"
    by (metis mod_mult_div_eq)
  show ?thesis
    by (auto simp: bit_at_def clear_bit_def bit_and_iff bit_not_iff bit_single eq)
qed

lemma bit_at_xor_bit [bit_facts]: "bit_at (xor_bit b i x) j \<longleftrightarrow> (j = i) \<noteq> bit_at b j"
proof -
  have eq: "j = i \<longleftrightarrow> j div 32 = i div 32 \<and> j mod 32 = i mod 32"
    by (metis mod_mult_div_eq)
  show ?thesis
    by (auto simp: bit_at_def xor_bit_def bit_xor_iff bit_single eq)
qed

lemma check_bit_eq [bit_facts]: "check_bit b i = of_bool (bit_at b i)"
  by (simp add: check_bit_def bit_at_def and_single_eq_0)

subsection \<open>The interface the kernel's allocators use\<close>

text \<open>
  The process table and the buddy maps use a bitset through set, clear and check only. The
  laws: a bit reads as the last operation on it left it, and no operation touches another
  bit. A free slot is a clear bit below a bound.
\<close>

locale bitmap =
  fixes mark :: "'m \<Rightarrow> nat \<Rightarrow> 'm"
    and unmark :: "'m \<Rightarrow> nat \<Rightarrow> 'm"
    and taken :: "'m \<Rightarrow> nat \<Rightarrow> bool"
  assumes taken_mark: "taken (mark m i) j \<longleftrightarrow> j = i \<or> taken m j"
    and taken_unmark: "taken (unmark m i) j \<longleftrightarrow> j \<noteq> i \<and> taken m j"
begin

lemma mark_unmark: "\<not> taken m i \<Longrightarrow> taken (unmark (mark m i) i) j = taken m j"
  by (auto simp: taken_mark taken_unmark)

lemma unmark_mark: "taken m i \<Longrightarrow> taken (mark (unmark m i) i) j = taken m j"
  by (auto simp: taken_mark taken_unmark)

lemma card_mark:
  assumes "\<not> taken m i" "i < n"
  shows "card {j. j < n \<and> taken (mark m i) j} = Suc (card {j. j < n \<and> taken m j})"
proof -
  have "{j. j < n \<and> taken (mark m i) j} = insert i {j. j < n \<and> taken m j}"
    using assms(2) by (auto simp: taken_mark)
  then show ?thesis using assms(1) by simp
qed

lemma card_unmark:
  assumes "taken m i" "i < n"
  shows "Suc (card {j. j < n \<and> taken (unmark m i) j}) = card {j. j < n \<and> taken m j}"
proof -
  have "{j. j < n \<and> taken m j} = insert i {j. j < n \<and> taken (unmark m i) j}"
    using assms by (auto simp: taken_unmark)
  then show ?thesis by (simp add: taken_unmark)
qed

end

interpretation bs: bitmap set_bit clear_bit bit_at
  by unfold_locales (simp_all add: bit_facts)

subsection \<open>find_first_unset_bit\<close>

lemma bsf_Some: "bsf w = Some r \<longleftrightarrow> r < 32 \<and> bit w r \<and> (\<forall>j < r. \<not> bit w j)"
  by (auto simp: bsf_def find_upt_Some)

lemma bsf_None: "bsf w = None \<longleftrightarrow> w = 0"
proof
  assume "bsf w = None"
  then have "\<forall>j < 32. \<not> bit w j" by (simp add: bsf_def find_upt_None)
  then show "w = 0" by (intro word_eqI32) simp
qed (simp add: bsf_def find_upt_None)

lemma full_word_bit: "bit (0xFFFFFFFF :: u32) n \<longleftrightarrow> n < 32"
proof -
  have "bit (0xFFFFFFFF :: u32) n \<longleftrightarrow> bit (mask 32 :: u32) n" by (simp add: mask_eq_exp_minus_1)
  also have "\<dots> \<longleftrightarrow> n < 32" by (simp only: bit_mask_iff) (auto simp: possible_bit_word)
  finally show ?thesis .
qed

lemma not_full_word: "w \<noteq> 0xFFFFFFFF \<longleftrightarrow> NOT w \<noteq> (0 :: u32)"
proof -
  have "(0xFFFFFFFF :: u32) = NOT 0" by simp
  then show ?thesis by (metis bit.double_compl)
qed

text \<open>The word the scan stops at: the first of the \<open>n\<close> words from \<open>i\<close> that is not full.\<close>

lemma find_first_unset_from_stop:
  assumes "b k \<noteq> 0xFFFFFFFF" "i \<le> k" "k < i + n" "\<forall>j. i \<le> j \<longrightarrow> j < k \<longrightarrow> b j = 0xFFFFFFFF"
  shows "\<exists>r < 32. find_first_unset_from b i n = of_nat r \<and> \<not> bit (b k) r \<and> (\<forall>j < r. bit (b k) j)"
  using assms
proof (induction b i n rule: find_first_unset_from.induct)
  case (1 b i)
  then show ?case by simp
next
  case (2 b i left)
  show ?case
  proof (cases "b i = 0xFFFFFFFF")
    case True
    moreover from this have "i \<noteq> k" using "2.prems"(1) by auto
    ultimately show ?thesis using 2 by simp
  next
    case False
    then have [simp]: "k = i" using "2.prems" by (metis le_neq_implies_less le_refl)
    from False have "NOT (b i) \<noteq> 0" by (simp add: not_full_word)
    then obtain r where r: "bsf (NOT (b i)) = Some r" by (metis bsf_None not_None_eq)
    then have "r < 32" "\<not> bit (b i) r" "\<forall>j < r. bit (b i) j"
      by (auto simp: bsf_Some bit_not_iff)
    with r False show ?thesis by auto
  qed
qed

lemma find_first_unset_from_full:
  "\<forall>j. i \<le> j \<longrightarrow> j < i + n \<longrightarrow> b j = 0xFFFFFFFF \<Longrightarrow> find_first_unset_from b i n = 0xFFFFFFFF"
  by (induction b i n rule: find_first_unset_from.induct) auto

text \<open>\<open>0xFFFFFFFF\<close> is returned exactly when every word of the array is full.\<close>

lemma find_first_unset_bit_full_iff:
  "find_first_unset_bit b n = 0xFFFFFFFF \<longleftrightarrow> (\<forall>i < n. b i = 0xFFFFFFFF)"
proof
  assume full: "find_first_unset_bit b n = 0xFFFFFFFF"
  show "\<forall>i < n. b i = 0xFFFFFFFF"
  proof (rule ccontr)
    assume "\<not> (\<forall>i < n. b i = 0xFFFFFFFF)"
    then obtain i where "i < n" "b i \<noteq> 0xFFFFFFFF" by auto
    from least_such [of "\<lambda>i. b i \<noteq> 0xFFFFFFFF", OF this(2)] this(1)
    obtain k where "k < n" "b k \<noteq> 0xFFFFFFFF" "\<forall>j < k. b j = 0xFFFFFFFF"
      by (metis order.strict_trans1)
    then obtain r where "r < 32" "find_first_unset_bit b n = of_nat r"
      using find_first_unset_from_stop [of b k 0 n] by (auto simp: find_first_unset_bit_def)
    with full have "unat (0xFFFFFFFF :: u32) = unat (of_nat r :: u32)" by simp
    with \<open>r < 32\<close> show False by (simp add: unat_of_nat32)
  qed
qed (simp add: find_first_unset_bit_def find_first_unset_from_full)

text \<open>Where the first word has room, the result is the least clear bit of the array.\<close>

lemma find_first_unset_bit_first_word:
  assumes "b 0 \<noteq> 0xFFFFFFFF" "0 < n"
  shows "\<not> bit_at b (unat (find_first_unset_bit b n))"
    and "\<forall>j < unat (find_first_unset_bit b n). bit_at b j"
    and "unat (find_first_unset_bit b n) < 32"
proof -
  obtain r where r: "r < 32" "find_first_unset_bit b n = of_nat r" "\<not> bit (b 0) r"
    "\<forall>j < r. bit (b 0) j"
    using find_first_unset_from_stop [of b 0 0 n] assms by (auto simp: find_first_unset_bit_def)
  then have u: "unat (find_first_unset_bit b n) = r" by (simp add: unat_of_nat32)
  show "\<not> bit_at b (unat (find_first_unset_bit b n))" using r u by (simp add: bit_at_def)
  show "\<forall>j < unat (find_first_unset_bit b n). bit_at b j" using r u by (simp add: bit_at_def)
  show "unat (find_first_unset_bit b n) < 32" using r u by simp
qed

text \<open>
  Once the first word is full and a later word has room, the index returned lies in the
  first word, that is, on a bit that is already set.
\<close>

lemma find_first_unset_bit_taken:
  assumes "b 0 = 0xFFFFFFFF" "k < n" "b k \<noteq> 0xFFFFFFFF"
  shows "unat (find_first_unset_bit b n) < 32"
    and "bit_at b (unat (find_first_unset_bit b n))"
proof -
  obtain l where "l < n" "b l \<noteq> 0xFFFFFFFF" "\<forall>j < l. b j = 0xFFFFFFFF"
    using least_such [of "\<lambda>i. b i \<noteq> 0xFFFFFFFF", OF assms(3)] assms(2)
    by (metis order.strict_trans1)
  then obtain r where r: "r < 32" "find_first_unset_bit b n = of_nat r"
    using find_first_unset_from_stop [of b l 0 n] by (auto simp: find_first_unset_bit_def)
  then have u: "unat (find_first_unset_bit b n) = r" by (simp add: unat_of_nat32)
  show "unat (find_first_unset_bit b n) < 32" using r u by simp
  show "bit_at b (unat (find_first_unset_bit b n))"
    using r(1) unfolding bit_at_def u by (simp only: div_less mod_less assms(1) full_word_bit)
qed

section \<open>Powers of two (buddy.h)\<close>

definition smear :: "u32 \<Rightarrow> u32" where
  "smear x =
     (let x = x OR drop_bit 1 x;
          x = x OR drop_bit 2 x;
          x = x OR drop_bit 4 x;
          x = x OR drop_bit 8 x
      in x OR drop_bit 16 x)"

definition round_down_power_2 :: "u32 \<Rightarrow> u32" where
  "round_down_power_2 x = (if x = 0 then 0 else let x = smear x in x - drop_bit 1 x)"

definition round_up_power_2 :: "u32 \<Rightarrow> u32" where
  "round_up_power_2 x = smear (x - 1) + 1"

definition trailing_zero :: "u32 \<Rightarrow> nat option" where
  "trailing_zero x = bsf x"

lemma smear_step:
  assumes "\<And>n. bit y n \<longleftrightarrow> (\<exists>k < a. bit (x :: u32) (n + k))"
  shows "bit (y OR drop_bit a y) n \<longleftrightarrow> (\<exists>k < a + a. bit x (n + k))"
proof
  assume "bit (y OR drop_bit a y) n"
  then consider "bit y n" | "bit y (n + a)"
    by (auto simp: bit_or_iff bit_drop_bit_eq add.commute)
  then show "\<exists>k < a + a. bit x (n + k)"
  proof cases
    case 1
    then show ?thesis using assms by (meson trans_less_add1)
  next
    case 2
    then obtain k where "k < a" "bit x (n + a + k)" using assms by auto
    then show ?thesis by (intro exI [of _ "a + k"]) (simp add: add.assoc)
  qed
next
  assume "\<exists>k < a + a. bit x (n + k)"
  then obtain k where k: "k < a + a" "bit x (n + k)" by blast
  show "bit (y OR drop_bit a y) n"
  proof (cases "k < a")
    case True
    then show ?thesis using k assms by (auto simp: bit_or_iff)
  next
    case False
    then have "bit y (n + a)"
      using k assms by (auto intro!: exI [of _ "k - a"])
    then show ?thesis by (simp add: bit_or_iff bit_drop_bit_eq add.commute)
  qed
qed

lemma bit_smear [bit_facts]: "bit (smear x) n \<longleftrightarrow> (\<exists>m \<ge> n. bit x m)"
proof -
  have 1: "bit (x OR drop_bit 1 x) n \<longleftrightarrow> (\<exists>k < 2. bit x (n + k))" for n
    using smear_step [of x 1 x n] by (simp add: numeral_2_eq_2)
  note 2 = smear_step [OF 1, of n for n, simplified]
  note 3 = smear_step [OF 2, of n for n, simplified]
  note 4 = smear_step [OF 3, of n for n, simplified]
  note 5 = smear_step [OF 4, of n, simplified]
  have "bit (smear x) n \<longleftrightarrow> (\<exists>k < 32. bit x (n + k))"
    using 5 by (simp add: smear_def Let_def)
  also have "\<dots> \<longleftrightarrow> (\<exists>m \<ge> n. bit x m)"
  proof
    assume "\<exists>m \<ge> n. bit x m"
    then obtain m where m: "n \<le> m" "bit x m" by blast
    then have "m < 32" using bit_word_ge leI by blast
    then show "\<exists>k < 32. bit x (n + k)" using m by (intro exI [of _ "m - n"]) auto
  qed (metis le_add1)
  finally show ?thesis .
qed

text \<open>Smearing a word whose highest set bit is \<open>h\<close> sets exactly the bits \<open>0..h\<close>.\<close>

lemma smear_eq_mask:
  assumes "2 ^ h \<le> unat x" "unat x < 2 ^ Suc h" "h < 32"
  shows "smear x = mask (Suc h)"
proof (rule word_eqI32)
  fix n :: nat
  assume "n < 32"
  have hi: "\<not> bit x m" if "h < m" for m
  proof
    assume "bit x m"
    then have "m < 32" using bit_word_ge leI by blast
    have "bit (unat x) m" using \<open>bit x m\<close> by (simp add: bit_unsigned_iff)
    moreover have "unat x < 2 ^ m"
      using assms(2) that by (meson less_le_trans one_le_numeral power_increasing Suc_leI)
    ultimately show False by (simp add: bit_iff_odd)
  qed
  have "bit (unat x) h"
  proof -
    have "unat x div 2 ^ h = 1"
      using assms(1,2) by (intro div_nat_eqI) simp_all
    then show ?thesis by (simp add: bit_iff_odd)
  qed
  then have lo: "bit x h" by (simp add: bit_unsigned_iff)
  show "bit (smear x) n \<longleftrightarrow> bit (mask (Suc h) :: u32) n"
  proof -
    have "bit (smear x) n \<longleftrightarrow> n \<le> h"
      unfolding bit_smear using hi lo by (meson le_trans not_le)
    also have "\<dots> \<longleftrightarrow> bit (mask (Suc h) :: u32) n"
      using \<open>n < 32\<close> by (simp add: bit_mask_iff less_Suc_eq_le)
    finally show ?thesis .
  qed
qed

lemma trailing_zero_exp: "k < 32 \<Longrightarrow> trailing_zero (2 ^ k) = Some k"
  by (auto simp: trailing_zero_def bsf_Some bit_single)

lemma round_up_power_2_eq:
  assumes "0 < unat x" "unat x \<le> 2 ^ 31"
  obtains k where "k \<le> 31" "round_up_power_2 x = 2 ^ k" "unat x \<le> 2 ^ k"
    "\<forall>j. unat x \<le> 2 ^ j \<longrightarrow> k \<le> j"
proof (cases "unat x = 1")
  case True
  then have "x = 1" by (metis unat_1 word_unat_eq_iff)
  then have "round_up_power_2 x = 2 ^ 0" by (simp add: round_up_power_2_def smear_def)
  then show ?thesis using that [of 0] True by simp
next
  case False
  define y where "y = unat x - 1"
  have "x \<noteq> 0" using assms(1) by auto
  then have y: "unat (x - 1) = y" by (simp add: y_def unat_minus_one)
  have "1 \<le> y" using False assms(1) by (simp add: y_def)
  then obtain h where h: "2 ^ h \<le> y" "y < 2 ^ (h + 1)" using ex_power_ivl1 [of 2 y] by auto
  have "(2::nat) ^ h < 2 ^ 31" using h(1) assms(2) by (simp add: y_def)
  then have "h < 31" by (rule power_less_imp_less_exp [rotated]) simp
  have "round_up_power_2 x = mask (Suc h) + 1"
    using smear_eq_mask [of h "x - 1"] h y \<open>h < 31\<close> by (simp add: round_up_power_2_def)
  also have "\<dots> = 2 ^ Suc h" by (simp add: mask_eq_exp_minus_1)
  finally have "round_up_power_2 x = 2 ^ Suc h" .
  moreover have "unat x \<le> 2 ^ Suc h" using h(2) by (simp add: y_def)
  moreover have "Suc h \<le> j" if "unat x \<le> 2 ^ j" for j
  proof -
    have "(2::nat) ^ h < 2 ^ j" using h(1) that assms(1) unfolding y_def by linarith
    then show ?thesis by simp
  qed
  ultimately show ?thesis using that [of "Suc h"] \<open>h < 31\<close> by auto
qed

lemma trailing_zero_round_up:
  assumes "0 < unat x" "unat x \<le> 2 ^ 31"
  obtains k where "trailing_zero (round_up_power_2 x) = Some k" "k \<le> 31" "unat x \<le> 2 ^ k"
    "\<forall>j. unat x \<le> 2 ^ j \<longrightarrow> k \<le> j"
proof -
  from assms obtain k where "k \<le> 31" "round_up_power_2 x = 2 ^ k" "unat x \<le> 2 ^ k"
    "\<forall>j. unat x \<le> 2 ^ j \<longrightarrow> k \<le> j"
    by (rule round_up_power_2_eq)
  then show thesis using that [of k] by (simp add: trailing_zero_exp)
qed

lemma round_down_power_2_eq:
  assumes "0 < unat x"
  obtains k where "k < 32" "round_down_power_2 x = 2 ^ k" "2 ^ k \<le> unat x" "unat x < 2 ^ Suc k"
proof -
  obtain h where h: "2 ^ h \<le> unat x" "unat x < 2 ^ (h + 1)"
    using ex_power_ivl1 [of 2 "unat x"] assms by auto
  have "(2::nat) ^ h < 2 ^ 32" using h(1) unat_lt32 by (rule le_less_trans)
  then have "h < 32" by (rule power_less_imp_less_exp [rotated]) simp
  have x0: "x \<noteq> 0" using assms by auto
  have m: "smear x = mask (Suc h)" using smear_eq_mask [of h x] h \<open>h < 32\<close> by simp
  have d: "drop_bit 1 (mask (Suc h) :: u32) = mask h"
    by (rule word_eqI32) (use \<open>h < 32\<close> in \<open>auto simp: bit_drop_bit_eq bit_mask_iff\<close>)
  have "round_down_power_2 x = mask (Suc h) - mask h"
    using m d x0 by (simp add: round_down_power_2_def Let_def)
  also have "\<dots> = 2 ^ h" by (simp add: mask_eq_exp_minus_1)
  finally show thesis using that [of h] h \<open>h < 32\<close> by simp
qed

end
