(* ===== verification/Dlist_Heap.thy ===== *)
theory Dlist_Heap
  imports Omocha_Prelude
begin

text \<open>
  Doubly linked lists in memory, as the \<^verbatim>\<open>block_list\<close> of \<^verbatim>\<open>modules/memory/memory.h\<close> and the
  \<^verbatim>\<open>dc_dlist\<close> of \<^verbatim>\<open>core/driver.c\<close> lay them out: two fields per node, each a function from the
  node's address, and NULL is address 0. Address 0 is an ordinary memory cell for the code
  (the kernel maps page 0), so a write through a NULL \<^verbatim>\<open>next\<close> lands in cell 0 of the
  field and disturbs no node.
\<close>

fun dll :: "(u32 \<Rightarrow> u32) \<Rightarrow> (u32 \<Rightarrow> u32) \<Rightarrow> u32 \<Rightarrow> u32 \<Rightarrow> u32 list \<Rightarrow> bool" where
  "dll nx pv b h [] \<longleftrightarrow> h = 0"
| "dll nx pv b h (a # as) \<longleftrightarrow> h = a \<and> a \<noteq> 0 \<and> pv a = b \<and> dll nx pv a (nx a) as"

lemma dll_frame [frame_facts]:
  "\<forall>a \<in> set as. nx' a = nx a \<and> pv' a = pv a \<Longrightarrow> dll nx' pv' b h as = dll nx pv b h as"
  by (induction as arbitrary: b h) auto

lemma dll_frame_upd [frame_facts]:
  "x \<notin> set as \<Longrightarrow> dll (nx(x := v)) pv b h as = dll nx pv b h as"
  "x \<notin> set as \<Longrightarrow> dll nx (pv(x := v)) b h as = dll nx pv b h as"
  by (auto intro!: dll_frame)

lemma dll_no_null: "dll nx pv b h as \<Longrightarrow> 0 \<notin> set as"
  by (induction as arbitrary: b h) auto

lemma dll_head: "dll nx pv b h as \<Longrightarrow> h = (case as of [] \<Rightarrow> 0 | a # _ \<Rightarrow> a)"
  by (cases as) auto

lemma dll_empty_iff: "dll nx pv b h as \<Longrightarrow> h = 0 \<longleftrightarrow> as = []"
  by (cases as) auto

lemma dll_set_prev_head:
  "dll nx pv b h as \<Longrightarrow> distinct as \<Longrightarrow> dll nx (pv(h := c)) c h as"
  by (cases as) (auto simp: frame_facts)

lemma dll_after: "dll nx pv b h (xs @ p # ys) \<Longrightarrow> dll nx pv p (nx p) ys"
  by (induction xs arbitrary: b h) auto

text \<open>Pushing at the front, in the code's order of writes.\<close>

lemma dll_push:
  assumes "dll nx pv 0 h as" "distinct as" "a \<notin> set as" "a \<noteq> 0"
  shows "dll (nx(a := h)) (pv(h := a, a := 0)) 0 a (a # as)"
proof -
  have "dll nx (pv(h := a)) a h as" using assms(1,2) by (rule dll_set_prev_head)
  then show ?thesis using assms(3,4) by (simp add: frame_facts)
qed

text \<open>Unlinking a node that has a predecessor.\<close>

lemma dll_unlink_inner:
  assumes "dll nx pv b h (xs @ p # ys)" "distinct (xs @ p # ys)" "xs \<noteq> []"
  shows "pv p = last xs"
    and "dll (nx(pv p := nx p, p := 0)) (pv(nx p := pv p, p := 0)) b h (xs @ ys)"
proof -
  have *: "pv p = last xs \<and>
    dll (nx(pv p := nx p, p := 0)) (pv(nx p := pv p, p := 0)) b h (xs @ ys)"
    using assms
  proof (induction xs arbitrary: b h)
    case Nil
    then show ?case by simp
  next
    case (Cons x xs)
    show ?case
    proof (cases xs)
      case Nil
      with Cons.prems have n: "h = x" "x \<noteq> 0" "pv x = b" "nx x = p" "p \<noteq> 0" "pv p = x"
        "dll nx pv p (nx p) ys" "x \<noteq> p" "x \<notin> set ys" "p \<notin> set ys" "distinct ys"
        by auto
      have hd: "nx p \<noteq> x" "nx p \<noteq> p"
        using dll_head [OF n(7)] n by (auto split: list.splits)
      have "dll nx (pv(nx p := x)) x (nx p) ys"
        using n(7,11) by (rule dll_set_prev_head)
      define nx' where "nx' = nx(x := nx p, p := 0)"
      define pv' where "pv' = pv(nx p := x, p := 0)"
      have "dll nx' pv' x (nx p) ys"
        using \<open>dll nx (pv(nx p := x)) x (nx p) ys\<close> n(9,10)
        by (subst dll_frame [where nx = nx and pv = "pv(nx p := x)"])
          (auto simp: nx'_def pv'_def)
      moreover have "nx' x = nx p" "pv' x = b"
        using n hd by (simp_all add: nx'_def pv'_def)
      ultimately have "dll nx' pv' b x (x # ys)" using n(2) by simp
      moreover have "x = h" "pv p = x" "xs = []" using n Nil by auto
      ultimately show ?thesis unfolding nx'_def pv'_def by (simp del: fun_upd_apply dll.simps)
    next
      case (Cons z zs)
      define nx' where "nx' = nx(pv p := nx p, p := 0)"
      define pv' where "pv' = pv(nx p := pv p, p := 0)"
      have prem: "dll nx pv x (nx x) (xs @ p # ys)" "distinct (xs @ p # ys)" "xs \<noteq> []"
        using Cons.prems(1,2) Cons by (auto simp del: append.simps simp: append_Cons)
      have IH: "pv p = last xs" "dll nx' pv' x (nx x) (xs @ ys)"
        using Cons.IH [OF prem] unfolding nx'_def pv'_def by blast+
      have x: "x \<noteq> p" "x \<noteq> pv p" "pv x = b" "h = x" "x \<noteq> 0"
        using Cons.prems IH(1) Cons by auto
      have "dll nx pv p (nx p) ys"
        using Cons.prems(1) dll_after [of nx pv b h "x # xs"] by simp
      then have "nx p \<noteq> x"
        using dll_head [of nx pv p "nx p" ys] x Cons.prems(2) by (auto split: list.splits)
      then have "nx' x = nx x" "pv' x = b" using x by (simp_all add: nx'_def pv'_def)
      then have "dll nx' pv' b h (x # xs @ ys)" using IH(2) x(4,5) by simp
      then show ?thesis using IH(1) Cons unfolding nx'_def pv'_def
        by (simp del: fun_upd_apply dll.simps)
    qed
  qed
  then show "pv p = last xs"
    and "dll (nx(pv p := nx p, p := 0)) (pv(nx p := pv p, p := 0)) b h (xs @ ys)"
    by auto
qed

text \<open>Unlinking the head of a list.\<close>

lemma dll_unlink_head:
  assumes "dll nx pv b p (p # ys)" "distinct (p # ys)"
  shows "dll (nx(p := 0)) (pv(nx p := b, p := 0)) b (nx p) ys"
proof -
  have "dll nx pv p (nx p) ys" using assms(1) by simp
  then have "dll nx (pv(nx p := b)) b (nx p) ys"
    using assms(2) by (intro dll_set_prev_head) auto
  then show ?thesis using assms(2) by (simp add: frame_facts)
qed

lemma dll_prev_zero_iff_head:
  assumes "dll nx pv 0 h (xs @ p # ys)" "distinct (xs @ p # ys)"
  shows "pv p = 0 \<longleftrightarrow> xs = []"
proof (cases "xs = []")
  case True
  then show ?thesis using assms by simp
next
  case False
  then have "pv p = last xs" using assms by (intro dll_unlink_inner(1)) auto
  moreover have "last xs \<in> set (xs @ p # ys)" using False by simp
  moreover have "0 \<notin> set (xs @ p # ys)" using assms(1) by (rule dll_no_null)
  ultimately show ?thesis using False by metis
qed

end
