(* ===== verification/Buddy_Spec.thy ===== *)
theory Buddy_Spec
  imports Omocha_Prelude
begin

text \<open>
  The contract of the page allocator, independent of its memory layout: a state is, for each
  order, the list of the page numbers at which a free block of that order starts. The
  invariant says that blocks are aligned, lie inside the managed range, do not overlap, and
  that no two buddies below the top order are both free (the lists are \<^emph>\<open>coalesced\<close>).
  From it follow what a client relies on: what an allocation takes away, what a release gives
  back, that an allocation fails only when no aligned run is free, and that the free lists
  are determined by the set of free pages.
\<close>

abbreviation (input) MAX_ORDER :: nat where "MAX_ORDER \<equiv> 11"

type_synonym blocks = "nat \<Rightarrow> nat list"

definition buddy_of :: "nat \<Rightarrow> nat \<Rightarrow> nat" where
  "buddy_of ord i = (if 2 ^ (ord + 1) dvd i then i + 2 ^ ord else i - 2 ^ ord)"

function aalloc :: "blocks \<Rightarrow> nat \<Rightarrow> (nat \<times> blocks) option" where
  "aalloc fs ord =
     (if MAX_ORDER \<le> ord then None
      else case fs ord of
        i # rest \<Rightarrow> Some (i, fs(ord := rest))
      | [] \<Rightarrow> (case aalloc fs (ord + 1) of
                None \<Rightarrow> None
              | Some (i, fs') \<Rightarrow> Some (i + 2 ^ ord, fs'(ord := i # fs' ord))))"
  by pat_completeness auto
termination by (relation "measure (\<lambda>(fs, ord). MAX_ORDER - ord)") auto

function afree :: "blocks \<Rightarrow> nat \<Rightarrow> nat \<Rightarrow> blocks" where
  "afree fs i ord =
     (if ord + 1 < MAX_ORDER \<and> buddy_of ord i \<in> set (fs ord)
      then afree (fs(ord := remove1 (buddy_of ord i) (fs ord)))
             (min i (buddy_of ord i)) (ord + 1)
      else fs(ord := i # fs ord))"
  by pat_completeness auto
termination by (relation "measure (\<lambda>(fs, i, ord). MAX_ORDER - ord)") auto

declare aalloc.simps [simp del] afree.simps [simp del]

definition blk :: "nat \<Rightarrow> nat \<Rightarrow> nat set" where
  "blk ord i = {i..<i + 2 ^ ord}"

definition fpages :: "blocks \<Rightarrow> nat set" where
  "fpages fs = (\<Union>ord < MAX_ORDER. \<Union>i \<in> set (fs ord). blk ord i)"

definition well_placed :: "nat \<Rightarrow> nat \<Rightarrow> nat \<Rightarrow> bool" where
  "well_placed n ord i \<longleftrightarrow> ord < MAX_ORDER \<and> 2 ^ ord dvd i \<and> i + 2 ^ ord \<le> n"

definition ainv :: "nat \<Rightarrow> blocks \<Rightarrow> bool" where
  "ainv n fs \<longleftrightarrow>
     (\<forall>ord. distinct (fs ord)) \<and>
     (\<forall>ord. \<forall>i \<in> set (fs ord). well_placed n ord i) \<and>
     (\<forall>o1 o2. \<forall>i \<in> set (fs o1). \<forall>j \<in> set (fs o2).
        (o1, i) \<noteq> (o2, j) \<longrightarrow> blk o1 i \<inter> blk o2 j = {}) \<and>
     (\<forall>ord < MAX_ORDER - 1. \<forall>i \<in> set (fs ord). buddy_of ord i \<notin> set (fs ord))"

lemma ainvD:
  assumes "ainv n fs"
  shows "distinct (fs ord)"
    and "i \<in> set (fs ord) \<Longrightarrow> well_placed n ord i"
    and "i \<in> set (fs o1) \<Longrightarrow> j \<in> set (fs o2) \<Longrightarrow> blk o1 i \<inter> blk o2 j \<noteq> {} \<Longrightarrow> o1 = o2 \<and> i = j"
    and "ord + 1 < MAX_ORDER \<Longrightarrow> i \<in> set (fs ord) \<Longrightarrow> buddy_of ord i \<notin> set (fs ord)"
  using assms unfolding ainv_def by (simp, blast, blast, simp)

section \<open>Aligned blocks\<close>

lemma block_mem [simp]: "x \<in> blk ord i \<longleftrightarrow> i \<le> x \<and> x < i + 2 ^ ord"
  by (simp add: blk_def)

lemma block_nonempty: "i \<in> blk ord i"
  by simp

lemma card_block [simp]: "card (blk ord i) = 2 ^ ord"
  by (simp add: blk_def)

lemma finite_block [simp]: "finite (blk ord i)"
  by (simp add: blk_def)

lemma block_split: "blk (ord + 1) i = blk ord i \<union> blk ord (i + 2 ^ ord)"
  by auto

lemma block_halves_disjoint: "blk ord i \<inter> blk ord (i + 2 ^ ord) = {}"
  by auto

text \<open>Two aligned blocks are nested or disjoint.\<close>

lemma aligned_cases:
  assumes "2 ^ o1 dvd i" "2 ^ o2 dvd j" "o1 \<le> o2" "x \<in> blk o1 i" "x \<in> blk o2 j"
  shows "blk o1 i \<subseteq> blk o2 j"
proof -
  have "(2::nat) ^ o1 dvd 2 ^ o2" using assms(3) by (rule le_imp_power_dvd)
  then have dj: "2 ^ o1 dvd j" "2 ^ o1 dvd j + 2 ^ o2"
    using assms(2) by (auto intro: dvd_trans dvd_add)
  obtain a where a: "i = 2 ^ o1 * a" using assms(1) by (elim dvdE)
  obtain b where b: "j = 2 ^ o1 * b" using dj(1) by (elim dvdE)
  obtain c where c: "j + 2 ^ o2 = 2 ^ o1 * c" using dj(2) by (elim dvdE)
  have x: "j \<le> x" "x < i + 2 ^ o1" "i \<le> x" "x < j + 2 ^ o2" using assms(4,5) by auto
  have "2 ^ o1 * b < 2 ^ o1 * (a + 1)" using x(1,2) a b by (simp add: algebra_simps)
  then have "b \<le> a" by (simp only: mult_less_cancel1) simp
  moreover have "2 ^ o1 * a < 2 ^ o1 * c" using x(3,4) unfolding a c by (rule le_less_trans)
  then have "a + 1 \<le> c" by (simp only: mult_less_cancel1) simp
  ultimately have "2 ^ o1 * b \<le> 2 ^ o1 * a" "2 ^ o1 * (a + 1) \<le> 2 ^ o1 * c"
    by (simp_all only: mult_le_mono2)
  then have "j \<le> i" "i + 2 ^ o1 \<le> j + 2 ^ o2"
    using a b c by simp_all
  then show ?thesis by auto
qed

lemma buddy_of_cases:
  assumes "2 ^ ord dvd i"
  obtains "2 ^ (ord + 1) dvd i" "buddy_of ord i = i + 2 ^ ord"
  | "2 ^ (ord + 1) dvd i - 2 ^ ord" "2 ^ ord \<le> i" "buddy_of ord i = i - 2 ^ ord"
proof (cases "2 ^ (ord + 1) dvd i")
  case True
  then show ?thesis using that(1) by (simp add: buddy_of_def)
next
  case False
  obtain k where k: "i = 2 ^ ord * k" using assms by (elim dvdE)
  have "odd k" using False k by (auto simp: mult.commute)
  then obtain l where "k = 2 * l + 1" by (elim oddE)
  then have "i = 2 ^ (ord + 1) * l + 2 ^ ord" using k by (simp add: algebra_simps)
  then show ?thesis using that(2) False by (simp add: buddy_of_def)
qed

lemma buddy_of_dvd: "2 ^ ord dvd i \<Longrightarrow> 2 ^ ord dvd buddy_of ord i"
  by (auto simp: buddy_of_def)

lemma buddy_of_merge:
  assumes "2 ^ ord dvd i"
  shows "2 ^ (ord + 1) dvd min i (buddy_of ord i)"
    and "blk (ord + 1) (min i (buddy_of ord i)) = blk ord i \<union> blk ord (buddy_of ord i)"
    and "blk ord i \<inter> blk ord (buddy_of ord i) = {}"
  using assms by (cases rule: buddy_of_cases; auto)+

lemma buddy_of_inj:
  assumes "2 ^ ord dvd i" "2 ^ ord dvd j"
  shows "buddy_of ord i = j \<longleftrightarrow> buddy_of ord j = i"
proof -
  have *: "buddy_of ord (buddy_of ord i) = i" if d: "2 ^ ord dvd i" for i :: nat
    using d
  proof (cases rule: buddy_of_cases)
    case 1
    have "\<not> 2 ^ (ord + 1) dvd i + 2 ^ ord"
    proof
      assume "2 ^ (ord + 1) dvd i + 2 ^ ord"
      then have "(2::nat) ^ (ord + 1) dvd 2 ^ ord" using 1(1) dvd_add_right_iff by blast
      then show False by (simp add: power_dvd_imp_le)
    qed
    then show ?thesis using 1 by (simp add: buddy_of_def)
  next
    case 2
    then show ?thesis by (simp add: buddy_of_def)
  qed
  show ?thesis using * assms by metis
qed

section \<open>Allocation\<close>

lemma fpages_mem: "x \<in> fpages fs \<longleftrightarrow> (\<exists>ord < MAX_ORDER. \<exists>i \<in> set (fs ord). x \<in> blk ord i)"
  by (auto simp: fpages_def)

lemma ainv_top: "ainv n fs \<Longrightarrow> MAX_ORDER \<le> ord \<Longrightarrow> fs ord = []"
  using ainvD(2) [of n fs _ ord] by (cases "fs ord") (auto simp: well_placed_def)

lemma fpages_block: "ainv n fs \<Longrightarrow> i \<in> set (fs ord) \<Longrightarrow> blk ord i \<subseteq> fpages fs"
  using ainvD(2) [of n fs i ord] unfolding fpages_def well_placed_def by blast

text \<open>Taking a block out of a list removes exactly its pages.\<close>

lemma take_block:
  assumes "ainv n fs" "fs ord = xs @ i # ys"
  shows "ainv n (fs(ord := xs @ ys))"
    and "fpages (fs(ord := xs @ ys)) = fpages fs - blk ord i"
proof -
  let ?fs = "fs(ord := xs @ ys)"
  have sub: "set (?fs o') \<subseteq> set (fs o')" for o' using assms(2) by auto
  have i: "i \<in> set (fs ord)" using assms(2) by simp
  have d: "distinct (xs @ i # ys)" using ainvD(1) [OF assms(1), of ord] assms(2) by simp
  show "ainv n ?fs"
    unfolding ainv_def
  proof (intro conjI allI ballI impI)
    fix o' show "distinct (?fs o')" using ainvD(1) [OF assms(1)] d by simp
  next
    fix o' j assume "j \<in> set (?fs o')"
    then show "well_placed n o' j" using ainvD(2) [OF assms(1)] sub by blast
  next
    fix o1 o2 j1 j2
    assume "j1 \<in> set (?fs o1)" "j2 \<in> set (?fs o2)" "(o1, j1) \<noteq> (o2, j2)"
    then show "blk o1 j1 \<inter> blk o2 j2 = {}" using ainvD(3) [OF assms(1)] sub by blast
  next
    fix o' j assume "o' < MAX_ORDER - 1" "j \<in> set (?fs o')"
    then have "buddy_of o' j \<notin> set (fs o')"
      using ainvD(4) [OF assms(1), of o' j] sub [of o'] by (simp add: subset_iff del: fun_upd_apply)
    then show "buddy_of o' j \<notin> set (?fs o')" using sub by blast
  qed
  have ne: "blk o' j \<inter> blk ord i = {}" if "j \<in> set (?fs o')" for o' j
  proof (rule ccontr)
    assume "blk o' j \<inter> blk ord i \<noteq> {}"
    then have "o' = ord \<and> j = i" using ainvD(3) [OF assms(1)] i sub that by blast
    then show False using that d by auto
  qed
  show "fpages ?fs = fpages fs - blk ord i"
  proof (intro equalityI subsetI)
    fix x assume "x \<in> fpages ?fs"
    then obtain o' j where j: "o' < MAX_ORDER" "j \<in> set (?fs o')" "x \<in> blk o' j"
      unfolding fpages_mem by blast
    then have "x \<in> fpages fs" using sub unfolding fpages_mem by blast
    then show "x \<in> fpages fs - blk ord i" using ne [OF j(2)] j(3) by blast
  next
    fix x assume x: "x \<in> fpages fs - blk ord i"
    then have "x \<in> fpages fs" by simp
    then obtain o' j where j: "o' < MAX_ORDER" "j \<in> set (fs o')" "x \<in> blk o' j"
      unfolding fpages_mem by blast
    then have "o' = ord \<longrightarrow> j \<noteq> i" using x by blast
    then have "j \<in> set (?fs o')" using j(2) assms(2) by auto
    then show "x \<in> fpages ?fs" using j unfolding fpages_mem by blast
  qed
qed

text \<open>Putting a block back adds exactly its pages, when its buddy is not free as well.\<close>

lemma put_block:
  assumes "ainv n fs" "well_placed n ord i" "blk ord i \<inter> fpages fs = {}"
    and "ord + 1 < MAX_ORDER \<Longrightarrow> buddy_of ord i \<notin> set (fs ord)"
  shows "ainv n (fs(ord := i # fs ord))"
    and "fpages (fs(ord := i # fs ord)) = fpages fs \<union> blk ord i"
proof -
  let ?fs = "fs(ord := i # fs ord)"
  have mem: "j \<in> set (?fs o') \<longleftrightarrow> (o' = ord \<and> j = i) \<or> j \<in> set (fs o')" for o' j by auto
  have dis: "blk o' j \<inter> blk ord i = {}" if "j \<in> set (fs o')" for o' j
    using fpages_block [OF assms(1) that] assms(3) by blast
  have fresh: "i \<notin> set (fs ord)" using dis [of i ord] block_nonempty [of i ord] by blast
  have al: "2 ^ ord dvd i" using assms(2) by (simp add: well_placed_def)
  show "ainv n ?fs"
    unfolding ainv_def
  proof (intro conjI allI ballI impI)
    fix o' show "distinct (?fs o')" using ainvD(1) [OF assms(1)] fresh by simp
  next
    fix o' j assume "j \<in> set (?fs o')"
    then show "well_placed n o' j" using ainvD(2) [OF assms(1)] assms(2) unfolding mem by blast
  next
    fix o1 o2 j1 j2
    assume "j1 \<in> set (?fs o1)" "j2 \<in> set (?fs o2)" "(o1, j1) \<noteq> (o2, j2)"
    then show "blk o1 j1 \<inter> blk o2 j2 = {}"
      using ainvD(3) [OF assms(1)] dis unfolding mem by (metis inf_commute)
  next
    fix o' j assume o': "o' < MAX_ORDER - 1" and j: "j \<in> set (?fs o')"
    show "buddy_of o' j \<notin> set (?fs o')"
    proof
      assume b: "buddy_of o' j \<in> set (?fs o')"
      have dvd: "2 ^ o' dvd j"
        using j al ainvD(2) [OF assms(1)] unfolding mem by (auto simp: well_placed_def)
      have nb: "buddy_of o' j \<noteq> j"
        using buddy_of_merge(3) [OF dvd] block_nonempty [of j o'] by force
      consider "j \<in> set (fs o')" "buddy_of o' j \<in> set (fs o')"
        | "o' = ord" "j = i" "buddy_of o' j \<in> set (fs o')"
        | "o' = ord" "buddy_of o' j = i" "j \<in> set (fs o')"
        using j b nb unfolding mem by auto
      then show False
      proof cases
        case 1
        then show False using ainvD(4) [OF assms(1), of o' j] o' by simp
      next
        case 2
        then show False using assms(4) o' by simp
      next
        case 3
        then have "buddy_of ord i = j" using buddy_of_inj [OF dvd, of i] al by simp
        then show False using 3 assms(4) o' by simp
      qed
    qed
  qed
  have "ord < MAX_ORDER" using assms(2) by (simp add: well_placed_def)
  show "fpages ?fs = fpages fs \<union> blk ord i"
  proof (intro equalityI subsetI)
    fix x assume "x \<in> fpages ?fs"
    then obtain o' j where j: "o' < MAX_ORDER" "j \<in> set (?fs o')" "x \<in> blk o' j"
      unfolding fpages_mem by blast
    from j(2) consider "o' = ord" "j = i" | "j \<in> set (fs o')" unfolding mem by blast
    then show "x \<in> fpages fs \<union> blk ord i"
      using j(1,3) by cases (simp, blast intro: fpages_mem [THEN iffD2])
  next
    fix x assume "x \<in> fpages fs \<union> blk ord i"
    moreover have "fpages fs \<subseteq> fpages ?fs"
    proof
      fix y assume "y \<in> fpages fs"
      then obtain o' j where "o' < MAX_ORDER" "j \<in> set (fs o')" "y \<in> blk o' j"
        unfolding fpages_mem by blast
      moreover from this(2) have "j \<in> set (?fs o')" unfolding mem ..
      ultimately show "y \<in> fpages ?fs" unfolding fpages_mem by blast
    qed
    moreover have "blk ord i \<subseteq> fpages ?fs"
    proof
      fix y assume "y \<in> blk ord i"
      moreover have "i \<in> set (?fs ord)" by simp
      ultimately show "y \<in> fpages ?fs" using \<open>ord < MAX_ORDER\<close> unfolding fpages_mem by blast
    qed
    ultimately show "x \<in> fpages ?fs" by blast
  qed
qed

lemma buddy_of_low: "2 ^ (ord + 1) dvd i \<Longrightarrow> buddy_of ord i = i + 2 ^ ord"
  by (simp add: buddy_of_def)

theorem aalloc_correct:
  assumes "ainv n fs" "aalloc fs ord = Some (i, fs')"
  shows "well_placed n ord i \<and> blk ord i \<subseteq> fpages fs \<and> ainv n fs' \<and>
    fpages fs' = fpages fs - blk ord i"
  using assms
proof (induction fs ord arbitrary: i fs' rule: aalloc.induct)
  case (1 fs ord)
  have ord: "ord < MAX_ORDER" using "1.prems"(2) by (subst (asm) aalloc.simps) (simp split: if_splits)
  show ?case
  proof (cases "fs ord")
    case (Cons a rest)
    then have eq: "i = a" "fs' = fs(ord := rest)"
      using "1.prems"(2) ord by (subst (asm) aalloc.simps, simp)+
    have a: "a \<in> set (fs ord)" using Cons by simp
    show ?thesis
      using ainvD(2) [OF "1.prems"(1) a] fpages_block [OF "1.prems"(1) a]
        take_block [OF "1.prems"(1), of ord "[]" a rest] Cons
      unfolding eq by (simp del: fun_upd_apply)
  next
    case Nil
    then obtain j fs1 where up: "aalloc fs (ord + 1) = Some (j, fs1)" and
      eq: "i = j + 2 ^ ord" "fs' = fs1(ord := j # fs1 ord)"
      using "1.prems"(2) ord by (subst (asm) aalloc.simps) (auto split: option.splits)
    note IH = "1.IH" [OF _ Nil "1.prems"(1) up]
    have up_ok: "well_placed n (ord + 1) j" "blk (ord + 1) j \<subseteq> fpages fs" "ainv n fs1"
      "fpages fs1 = fpages fs - blk (ord + 1) j"
      using IH ord by simp_all
    have j: "2 ^ (ord + 1) dvd j" "j + 2 ^ (ord + 1) \<le> n" "ord + 1 < MAX_ORDER"
      using up_ok(1) by (simp_all add: well_placed_def)
    have low: "well_placed n ord j" "well_placed n ord (j + 2 ^ ord)"
      using j by (auto simp: well_placed_def elim: dvd_trans [rotated] intro!: dvd_add)
    have hi_out: "j + 2 ^ ord \<notin> fpages fs1" unfolding up_ok(4) by simp
    have "buddy_of ord j \<notin> set (fs1 ord)"
      using fpages_block [OF up_ok(3), of "j + 2 ^ ord" ord] block_nonempty hi_out
      unfolding buddy_of_low [OF j(1)] by blast
    moreover have "blk ord j \<inter> fpages fs1 = {}" unfolding up_ok(4) block_split by blast
    ultimately have put: "ainv n fs'" "fpages fs' = fpages fs1 \<union> blk ord j"
      using put_block [OF up_ok(3) low(1)] eq(2) by blast+
    have "fpages fs' = fpages fs - blk ord i"
      using put(2) up_ok(2,4) block_split [of ord j] block_halves_disjoint [of ord j] eq(1) by blast
    moreover have "blk ord i \<subseteq> fpages fs" using up_ok(2) eq(1) block_split [of ord j] by blast
    ultimately show ?thesis using put(1) low(2) eq(1) by simp
  qed
qed

section \<open>Release\<close>

theorem afree_correct:
  assumes "ainv n fs" "well_placed n ord i" "blk ord i \<inter> fpages fs = {}" "1024 dvd n"
  shows "ainv n (afree fs i ord) \<and> fpages (afree fs i ord) = fpages fs \<union> blk ord i"
  using assms
proof (induction fs i ord rule: afree.induct)
  case (1 fs i ord)
  let ?b = "buddy_of ord i"
  have al: "2 ^ ord dvd i" and ord: "ord < MAX_ORDER" and top: "i + 2 ^ ord \<le> n"
    using "1.prems"(2) by (simp_all add: well_placed_def)
  show ?case
  proof (cases "ord + 1 < MAX_ORDER \<and> ?b \<in> set (fs ord)")
    case False
    then have "afree fs i ord = fs(ord := i # fs ord)" by (subst afree.simps) (simp only: False if_False)
    then show ?thesis using put_block [OF "1.prems"(1-3)] False by presburger
  next
    case True
    then obtain xs ys where split: "fs ord = xs @ ?b # ys" by (meson split_list)
    then have "?b \<notin> set xs" using ainvD(1) [OF "1.prems"(1), of ord] by simp
    then have rem: "remove1 ?b (fs ord) = xs @ ys" using split by (simp add: remove1_append)
    let ?fs = "fs(ord := xs @ ys)"
    note take = take_block [OF "1.prems"(1) split]
    have bw: "well_placed n ord ?b" using ainvD(2) [OF "1.prems"(1)] True by blast
    have bsub: "blk ord ?b \<subseteq> fpages fs" using fpages_block [OF "1.prems"(1)] True by blast
    note merge = buddy_of_merge [OF al]
    have "min i ?b + 2 ^ (ord + 1) \<le> n"
      using al bw top by (cases rule: buddy_of_cases) (auto simp: well_placed_def)
    then have wm: "well_placed n (ord + 1) (min i ?b)"
      using merge(1) True by (simp add: well_placed_def)
    have "blk (ord + 1) (min i ?b) \<inter> fpages ?fs = {}"
      unfolding merge(2) take(2) using "1.prems"(3) by blast
    then have "ainv n (afree ?fs (min i ?b) (ord + 1))"
      "fpages (afree ?fs (min i ?b) (ord + 1)) = fpages ?fs \<union> blk (ord + 1) (min i ?b)"
      using "1.IH" [OF True] "1.prems"(4) take(1) wm unfolding rem by blast+
    moreover have "afree fs i ord = afree ?fs (min i ?b) (ord + 1)"
      using True rem by (subst afree.simps) simp
    moreover have "fpages ?fs \<union> blk (ord + 1) (min i ?b) = fpages fs \<union> blk ord i"
      unfolding merge(2) take(2) using bsub by blast
    ultimately show ?thesis by simp
  qed
qed

section \<open>Completeness and uniqueness\<close>

text \<open>
  In a coalesced state every aligned run of \<open>2 ^ ord\<close> free pages lies in a single free block
  of order at least \<open>ord\<close>.
\<close>

lemma run_in_block:
  assumes "ainv n fs" "2 ^ ord dvd i" "ord < MAX_ORDER" "blk ord i \<subseteq> fpages fs"
  shows "\<exists>o' j. ord \<le> o' \<and> j \<in> set (fs o') \<and> blk ord i \<subseteq> blk o' j"
  using assms(2-4)
proof (induction ord arbitrary: i)
  case 0
  then have "i \<in> fpages fs" by auto
  then show ?case unfolding fpages_mem by fastforce
next
  case (Suc ord)
  have al: "2 ^ ord dvd i" "2 ^ ord dvd i + 2 ^ ord"
    using Suc.prems(1) by (auto elim: dvd_trans [rotated] intro!: dvd_add)
  have sub: "blk ord i \<subseteq> fpages fs" "blk ord (i + 2 ^ ord) \<subseteq> fpages fs"
    using Suc.prems(3) block_split [of ord i] by auto
  obtain o1 j1 where 1: "ord \<le> o1" "j1 \<in> set (fs o1)" "blk ord i \<subseteq> blk o1 j1"
    using Suc.IH [OF al(1) _ sub(1)] Suc.prems(2) by auto
  obtain o2 j2 where 2: "ord \<le> o2" "j2 \<in> set (fs o2)" "blk ord (i + 2 ^ ord) \<subseteq> blk o2 j2"
    using Suc.IH [OF al(2) _ sub(2)] Suc.prems(2) by auto
  have dj: "2 ^ o1 dvd j1" "2 ^ o2 dvd j2"
    using ainvD(2) [OF assms(1)] 1(2) 2(2) by (auto simp: well_placed_def)
  show ?case
  proof (cases "Suc ord \<le> o1 \<or> Suc ord \<le> o2")
    case True
    have in1: "i \<in> blk o1 j1" "i + 2 ^ ord \<in> blk o2 j2"
      using 1(3) 2(3) block_nonempty by blast+
    have in2: "i \<in> blk (Suc ord) i" "i + 2 ^ ord \<in> blk (Suc ord) i" by auto
    from True show ?thesis
    proof
      assume "Suc ord \<le> o1"
      then show ?thesis
        using aligned_cases [OF Suc.prems(1) dj(1) _ in2(1) in1(1)] 1(2) by blast
    next
      assume "Suc ord \<le> o2"
      then show ?thesis
        using aligned_cases [OF Suc.prems(1) dj(2) _ in2(2) in1(2)] 2(2) by blast
    qed
  next
    case False
    then have o: "o1 = ord" "o2 = ord" using 1(1) 2(1) by simp_all
    have eq: "j = k" if "blk ord j \<subseteq> blk ord k" for j k
    proof -
      have "blk ord j = blk ord k" using that by (intro card_subset_eq) simp_all
      then have "j \<in> blk ord k" "k \<in> blk ord j" using block_nonempty by blast+
      then show ?thesis by simp
    qed
    have "j1 = i" "j2 = i + 2 ^ ord" using 1(3) 2(3) eq unfolding o by blast+
    moreover have "buddy_of ord i = i + 2 ^ ord"
      using Suc.prems(1) by (simp add: buddy_of_def)
    ultimately have False
      using ainvD(4) [OF assms(1), of ord i] 1(2) 2(2) Suc.prems(2) unfolding o by simp
    then show ?thesis ..
  qed
qed

lemma aalloc_None: "aalloc fs ord = None \<longleftrightarrow> (\<forall>o'. ord \<le> o' \<longrightarrow> o' < MAX_ORDER \<longrightarrow> fs o' = [])"
proof (induction fs ord rule: aalloc.induct)
  case (1 fs ord)
  show ?case
  proof (cases "MAX_ORDER \<le> ord")
    case True
    then show ?thesis by (subst aalloc.simps) auto
  next
    case ord: False
    show ?thesis
    proof (cases "fs ord")
      case (Cons a rest)
      then show ?thesis using ord by (subst aalloc.simps) (auto intro!: exI [of _ ord])
    next
      case Nil
      then have "aalloc fs ord = None \<longleftrightarrow> aalloc fs (ord + 1) = None"
        using ord by (subst aalloc.simps) (auto split: option.splits)
      also have "\<dots> \<longleftrightarrow> (\<forall>o'. ord + 1 \<le> o' \<longrightarrow> o' < MAX_ORDER \<longrightarrow> fs o' = [])"
        using "1.IH" [OF ord Nil] .
      also have "\<dots> \<longleftrightarrow> (\<forall>o'. ord \<le> o' \<longrightarrow> o' < MAX_ORDER \<longrightarrow> fs o' = [])"
        using Nil by (metis Suc_eq_plus1 Suc_leD Suc_leI le_neq_implies_less)
      finally show ?thesis .
    qed
  qed
qed

text \<open>An allocation fails exactly when no aligned run of the size is free.\<close>

theorem aalloc_None_iff:
  assumes "ainv n fs" "ord < MAX_ORDER"
  shows "aalloc fs ord = None \<longleftrightarrow> (\<nexists>i. 2 ^ ord dvd i \<and> blk ord i \<subseteq> fpages fs)"
proof
  assume none: "aalloc fs ord = None"
  show "\<nexists>i. 2 ^ ord dvd i \<and> blk ord i \<subseteq> fpages fs"
  proof
    assume "\<exists>i. 2 ^ ord dvd i \<and> blk ord i \<subseteq> fpages fs"
    then obtain o' j where "ord \<le> o'" "j \<in> set (fs o')"
      using run_in_block [OF assms(1) _ assms(2)] by blast
    moreover from this(2) have "o' < MAX_ORDER" using ainvD(2) [OF assms(1)] by (auto simp: well_placed_def)
    ultimately show False using none unfolding aalloc_None by auto
  qed
next
  assume no_run: "\<nexists>i. 2 ^ ord dvd i \<and> blk ord i \<subseteq> fpages fs"
  show "aalloc fs ord = None"
  proof (cases "aalloc fs ord")
    case (Some r)
    obtain i fs' where "r = (i, fs')" by (cases r)
    then have "well_placed n ord i" "blk ord i \<subseteq> fpages fs"
      using aalloc_correct [OF assms(1)] Some by blast+
    then show ?thesis using no_run by (auto simp: well_placed_def)
  qed
qed

text \<open>The free lists are determined, up to their order, by the set of free pages.\<close>

theorem coalesced_unique:
  assumes "ainv n fs" "ainv n gs" "fpages fs = fpages gs"
  shows "set (fs ord) = set (gs ord)"
proof -
  have sub: "set (fs ord) \<subseteq> set (gs ord)"
    if fs: "ainv n fs" and gs: "ainv n gs" and eq: "fpages fs = fpages gs" for fs gs
  proof
    fix i assume i: "i \<in> set (fs ord)"
    have w: "2 ^ ord dvd i" "ord < MAX_ORDER" using ainvD(2) [OF fs i] by (simp_all add: well_placed_def)
    obtain o1 j where j: "ord \<le> o1" "j \<in> set (gs o1)" "blk ord i \<subseteq> blk o1 j"
      using run_in_block [OF gs w] fpages_block [OF fs i] eq by blast
    have wj: "2 ^ o1 dvd j" "o1 < MAX_ORDER"
      using ainvD(2) [OF gs j(2)] by (simp_all add: well_placed_def)
    obtain o2 k where k: "o1 \<le> o2" "k \<in> set (fs o2)" "blk o1 j \<subseteq> blk o2 k"
      using run_in_block [OF fs wj] fpages_block [OF gs j(2)] eq by blast
    have "blk ord i \<inter> blk o2 k \<noteq> {}" using j(3) k(3) block_nonempty by blast
    then have "ord = o2 \<and> i = k" using ainvD(3) [OF fs i k(2)] by blast
    then have o: "o2 = ord" "k = i" "o1 = ord" using j(1) k(1) by simp_all
    have "blk ord i \<subseteq> blk ord j" using j(3) unfolding o .
    moreover have "blk ord j \<subseteq> blk ord i" using k(3) unfolding o .
    ultimately have "i \<in> blk ord j" "j \<in> blk ord i" using block_nonempty by blast+
    then have "i = j" by simp
    then show "i \<in> set (gs ord)" using j(2) o by simp
  qed
  show ?thesis using sub [OF assms] sub [OF assms(2,1) assms(3) [symmetric]] by blast
qed

end
