(* ===== verification/Buddy.thy ===== *)
theory Buddy
  imports Bitset Dlist_Heap Buddy_Spec
begin

text \<open>
  The page allocator, \<^verbatim>\<open>modules/memory/buddy.c\<close> with the page records of
  \<^verbatim>\<open>modules/memory/paging.h\<close> and the structures of \<^verbatim>\<open>modules/memory/memory.h\<close>.

  A free block holds its own list node in its first bytes, so the \<open>prev\<close> and \<open>next\<close> fields
  are functions from addresses. The eleven buddy maps are kept as separate bit arrays.
  Pointers are 32-bit addresses and NULL is 0.
\<close>

section \<open>Data\<close>

abbreviation (input) PG_SIZE :: u32 where "PG_SIZE \<equiv> 0x1000"
abbreviation (input) PAGE_TYPE_USABLE :: u32 where "PAGE_TYPE_USABLE \<equiv> 0x001"
abbreviation (input) PAGE_TYPE_SYSTEM :: u32 where "PAGE_TYPE_SYSTEM \<equiv> 0x004"
abbreviation (input) PAGE_TYPE_FREE :: u32 where "PAGE_TYPE_FREE \<equiv> 0x010"
abbreviation (input) PAGE_TYPE_INUSE :: u32 where "PAGE_TYPE_INUSE \<equiv> 0x020"
abbreviation (input) PAGE_TYPE_PGTBL :: u32 where "PAGE_TYPE_PGTBL \<equiv> 0x040"
abbreviation (input) PAGE_TYPE_USER :: u32 where "PAGE_TYPE_USER \<equiv> 0x080"

record page =
  page_type :: u32
  reference :: int

record memory_info =
  free_list :: "nat \<Rightarrow> u32"
  free_count :: "nat \<Rightarrow> u32"
  buddy_map :: "nat \<Rightarrow> bitset"
  memory_start :: u32
  memory_end :: u32
  usable_end :: u32
  page_count :: u32
  pages_info :: "nat \<Rightarrow> page"
  bl_prev :: "u32 \<Rightarrow> u32"
  bl_next :: "u32 \<Rightarrow> u32"

definition GET_PAGE_BY_ID :: "memory_info \<Rightarrow> nat \<Rightarrow> u32" where
  "GET_PAGE_BY_ID mem i = memory_start mem + of_nat i * PG_SIZE"

definition GET_ID_BY_PAGE :: "memory_info \<Rightarrow> u32 \<Rightarrow> nat" where
  "GET_ID_BY_PAGE mem pg = unat ((pg - memory_start mem) div PG_SIZE)"

section \<open>Operations\<close>

definition remove_from_free_list :: "memory_info \<Rightarrow> u32 \<Rightarrow> nat \<Rightarrow> memory_info" where
  "remove_from_free_list mem p ord =
     (let mem =
        (if bl_prev mem p \<noteq> 0
         then let mem = mem\<lparr>bl_next := (bl_next mem)(bl_prev mem p := bl_next mem p)\<rparr>
              in mem\<lparr>bl_prev := (bl_prev mem)(bl_next mem p := bl_prev mem p)\<rparr>
         else let mem = mem\<lparr>free_list := (free_list mem)(ord := bl_next mem p)\<rparr>
              in mem\<lparr>bl_prev := (bl_prev mem)(bl_next mem p := 0)\<rparr>)
      in mem\<lparr>bl_next := (bl_next mem)(p := 0), bl_prev := (bl_prev mem)(p := 0)\<rparr>)"

definition attach_to_free_list :: "memory_info \<Rightarrow> u32 \<Rightarrow> nat \<Rightarrow> memory_info" where
  "attach_to_free_list mem p ord =
     (let mem = mem\<lparr>bl_next := (bl_next mem)(p := free_list mem ord)\<rparr>;
          mem = mem\<lparr>bl_prev := (bl_prev mem)(bl_next mem p := p)\<rparr>;
          mem = mem\<lparr>bl_prev := (bl_prev mem)(p := 0)\<rparr>
      in mem\<lparr>free_list := (free_list mem)(ord := p)\<rparr>)"

definition xor_buddy_map :: "memory_info \<Rightarrow> u32 \<Rightarrow> nat \<Rightarrow> memory_info \<times> nat" where
  "xor_buddy_map mem p ord =
     (let page_idx = (p - memory_start mem) div PG_SIZE;
          bit_idx = unat (drop_bit (ord + 1) page_idx);
          bits = xor_bit (buddy_map mem ord) bit_idx 1
      in (mem\<lparr>buddy_map := (buddy_map mem)(ord := bits)\<rparr>, check_bit bits bit_idx))"

text \<open>The loops that set the type and the reference count of a run of pages.\<close>

definition set_pages :: "memory_info \<Rightarrow> u32 \<Rightarrow> nat \<Rightarrow> page \<Rightarrow> memory_info" where
  "set_pages mem block count pg =
     mem\<lparr>pages_info :=
       fold (\<lambda>i info. info(GET_ID_BY_PAGE mem (block + of_nat i * PG_SIZE) := pg))
         [0..<count] (pages_info mem)\<rparr>"

definition clear_page_info :: "memory_info \<Rightarrow> u32 \<Rightarrow> nat \<Rightarrow> u32 \<Rightarrow> memory_info" where
  "clear_page_info mem pg pg_count attr =
     set_pages mem pg pg_count \<lparr>page_type = attr, reference = 0\<rparr>"

definition inc_count :: "memory_info \<Rightarrow> nat \<Rightarrow> memory_info" where
  "inc_count mem ord = mem\<lparr>free_count := (free_count mem)(ord := free_count mem ord + 1)\<rparr>"

definition dec_count :: "memory_info \<Rightarrow> nat \<Rightarrow> memory_info" where
  "dec_count mem ord = mem\<lparr>free_count := (free_count mem)(ord := free_count mem ord - 1)\<rparr>"

function allocate_pages_of_power_2 :: "memory_info \<Rightarrow> nat \<Rightarrow> u32 \<Rightarrow> memory_info \<times> u32" where
  "allocate_pages_of_power_2 mem ord attr =
     (if MAX_ORDER \<le> ord then (mem, 0)
      else
        let (mem, block) =
          (if free_count mem ord = 0
           then
             (case allocate_pages_of_power_2 mem (ord + 1) 0 of
                (mem, block) \<Rightarrow>
                  if block = 0 then (mem, 0)
                  else
                    let mem = attach_to_free_list mem block ord;
                        mem = inc_count mem ord;
                        block = block + 2 ^ ord * PG_SIZE;
                        (mem, _) = xor_buddy_map mem block ord
                    in (mem, block))
           else
             let block = free_list mem ord;
                 mem = remove_from_free_list mem block ord;
                 mem = dec_count mem ord;
                 (mem, _) = xor_buddy_map mem block ord
             in (mem, block))
        in if block \<noteq> 0
           then (set_pages mem block (2 ^ ord) \<lparr>page_type = attr, reference = 1\<rparr>, block)
           else (mem, 0))"
  by pat_completeness auto
termination
  by (relation "measure (\<lambda>(mem, ord, attr). MAX_ORDER - ord)") auto

text \<open>
  \<open>free_pages_of_power_2\<close> has no guard on its order, as in the code: from \<open>MAX_ORDER\<close> on it
  indexes past the arrays of the structure.
\<close>

function free_pages_of_power_2 :: "memory_info \<Rightarrow> u32 \<Rightarrow> nat \<Rightarrow> (memory_info \<times> nat) res" where
  "free_pages_of_power_2 mem p ord =
     (if p = 0 then Inr (mem, 1)
      else if \<not> (memory_start mem \<le> p \<and> p \<le> usable_end mem) then Inr (mem, 2)
      else if MAX_ORDER \<le> ord then Inl OutOfBounds
      else
        let (mem, buddy_bit) = xor_buddy_map mem p ord
        in if buddy_bit = 0 \<and> ord + 1 < MAX_ORDER
           then
             let page_idx = (p - memory_start mem) div PG_SIZE;
                 buddy_even_page_idx = push_bit (ord + 1) (drop_bit (ord + 1) page_idx);
                 buddy = (if page_idx = buddy_even_page_idx then p + 2 ^ ord * PG_SIZE
                          else p - 2 ^ ord * PG_SIZE);
                 mem = remove_from_free_list mem buddy ord;
                 mem = dec_count mem ord
             in (case free_pages_of_power_2 mem (if buddy < p then buddy else p) (ord + 1) of
                   Inl e \<Rightarrow> Inl e
                 | Inr (mem, _) \<Rightarrow> Inr (mem, 0))
           else
             let mem = attach_to_free_list mem p ord;
                 mem = clear_page_info mem p (2 ^ ord) (PAGE_TYPE_USABLE OR PAGE_TYPE_FREE)
             in Inr (inc_count mem ord, 0))"
  by pat_completeness auto
termination
  by (relation "measure (\<lambda>(mem, p, ord). MAX_ORDER - ord)") auto

declare allocate_pages_of_power_2.simps [simp del] free_pages_of_power_2.simps [simp del]

text \<open>
  \<open>page_alloc\<close> and \<open>page_free\<close> compute the order with \<open>bsf\<close>; on a zero operand (\<open>pages = 0\<close>,
  or more than \<open>2 ^ 31\<close> pages) that instruction leaves its destination unchanged on the
  processors this kernel runs on, and the destination is the operand itself, 0.
\<close>

definition order_of_pages :: "u32 \<Rightarrow> nat" where
  "order_of_pages pages =
     (case trailing_zero (round_up_power_2 pages) of Some ord \<Rightarrow> ord | None \<Rightarrow> 0)"

definition page_alloc :: "memory_info \<Rightarrow> u32 \<Rightarrow> u32 \<Rightarrow> memory_info \<times> u32" where
  "page_alloc mem_info pages attr = allocate_pages_of_power_2 mem_info (order_of_pages pages) attr"

definition page_free :: "memory_info \<Rightarrow> u32 \<Rightarrow> u32 \<Rightarrow> (memory_info \<times> nat) res" where
  "page_free mem_info p pages = free_pages_of_power_2 mem_info p (order_of_pages pages)"

section \<open>Abstraction\<close>

definition addr :: "memory_info \<Rightarrow> nat \<Rightarrow> u32" where
  "addr mem i = memory_start mem + of_nat i * PG_SIZE"

definition geometry :: "nat \<Rightarrow> memory_info \<Rightarrow> bool" where
  "geometry n mem \<longleftrightarrow> 0 < unat (memory_start mem) \<and>
     unat (memory_start mem) + 4096 * n = unat (usable_end mem) \<and> 1024 dvd n"

definition links :: "memory_info \<Rightarrow> blocks \<Rightarrow> bool" where
  "links mem fs \<longleftrightarrow> (\<forall>ord < MAX_ORDER.
     dll (bl_next mem) (bl_prev mem) 0 (free_list mem ord) (map (addr mem) (fs ord)))"

definition counts :: "memory_info \<Rightarrow> blocks \<Rightarrow> bool" where
  "counts mem fs \<longleftrightarrow> (\<forall>ord < MAX_ORDER. free_count mem ord = of_nat (length (fs ord)))"

text \<open>A bit of a buddy map is the parity of its pair: set when exactly one of the two is free.\<close>

definition bits :: "nat \<Rightarrow> memory_info \<Rightarrow> blocks \<Rightarrow> bool" where
  "bits n mem fs \<longleftrightarrow> (\<forall>ord < MAX_ORDER - 1. \<forall>i < n. 2 ^ ord dvd i \<longrightarrow>
     bit_at (buddy_map mem ord) (i div 2 ^ (ord + 1)) =
       ((i \<in> set (fs ord)) \<noteq> (buddy_of ord i \<in> set (fs ord))))"

definition rel :: "nat \<Rightarrow> memory_info \<Rightarrow> blocks \<Rightarrow> bool" where
  "rel n mem fs \<longleftrightarrow> geometry n mem \<and> ainv n fs \<and> links mem fs \<and> counts mem fs \<and> bits n mem fs"

subsection \<open>Addresses\<close>

lemma geometry_bound: "geometry n mem \<Longrightarrow> unat (memory_start mem) + 4096 * n < 2 ^ 32"
  using unat_lt32 [of "usable_end mem"] by (simp add: geometry_def)

lemma addr_alt: "addr mem i = memory_start mem + of_nat (4096 * i)"
  by (simp add: addr_def mult.commute)

lemma unat_addr:
  assumes "geometry n mem" "i \<le> n"
  shows "unat (addr mem i) = unat (memory_start mem) + 4096 * i"
proof -
  have "4096 * i \<le> 4096 * n" using assms(2) by simp
  then have "unat (memory_start mem) + 4096 * i < 2 ^ 32"
    using geometry_bound [OF assms(1)] by linarith
  then show ?thesis unfolding addr_alt by (rule unat_le_iff_add)
qed

lemma addr_inj:
  assumes "geometry n mem" "i \<le> n" "j \<le> n"
  shows "addr mem i = addr mem j \<longleftrightarrow> i = j"
proof
  assume "addr mem i = addr mem j"
  then have "unat (addr mem i) = unat (addr mem j)" by simp
  then show "i = j" unfolding unat_addr [OF assms(1,2)] unat_addr [OF assms(1,3)] by simp
qed simp

lemma addr_nonzero: "geometry n mem \<Longrightarrow> i \<le> n \<Longrightarrow> addr mem i \<noteq> 0"
  using unat_addr [of n mem i] by (auto simp: geometry_def)

lemma addr_managed:
  assumes "geometry n mem" "i \<le> n"
  shows "memory_start mem \<le> addr mem i \<and> addr mem i \<le> usable_end mem"
  using unat_addr [OF assms] assms by (simp add: word_le_nat_alt geometry_def)

lemma addr_plus: "addr mem i + 2 ^ ord * PG_SIZE = addr mem (i + 2 ^ ord)"
  by (simp add: addr_def algebra_simps)

lemma addr_minus: "2 ^ ord \<le> i \<Longrightarrow> addr mem i - 2 ^ ord * PG_SIZE = addr mem (i - 2 ^ ord)"
  by (simp add: addr_def of_nat_diff algebra_simps)

lemma page_index:
  assumes "geometry n mem" "i \<le> n"
  shows "(addr mem i - memory_start mem) div PG_SIZE = of_nat i" and "i < 2 ^ 20"
proof -
  have le: "4096 * i < 2 ^ 32"
    using geometry_bound [OF assms(1)] assms(2) by linarith
  then show "i < 2 ^ 20" by simp
  have "addr mem i - memory_start mem = of_nat (4096 * i)" by (simp add: addr_alt)
  moreover have "unat (of_nat (4096 * i) div PG_SIZE) = i"
    using le unat_of_nat32 [OF le] by (simp add: unat_div)
  ultimately have "unat ((addr mem i - memory_start mem) div PG_SIZE) = i" by simp
  moreover have "unat (of_nat i :: u32) = i" using le by (intro unat_of_nat32) simp
  ultimately show "(addr mem i - memory_start mem) div PG_SIZE = of_nat i"
    by (simp only: word_unat_eq_iff)
qed

lemma id_addr: "geometry n mem \<Longrightarrow> i \<le> n \<Longrightarrow> GET_ID_BY_PAGE mem (addr mem i) = i"
  using page_index [of n mem i] by (simp add: GET_ID_BY_PAGE_def unat_of_nat32)

end
