(* ===== verification/Buddy_Refine.thy ===== *)
theory Buddy_Refine
  imports Buddy
begin

text \<open>
  The page allocator of \<^verbatim>\<open>buddy.c\<close> refines the contract of \<^verbatim>\<open>Buddy_Spec\<close>: lemmas on the links,
  the counters and the buddy maps for each primitive, and the simulation of
  \<open>allocate_pages_of_power_2\<close> and \<open>free_pages_of_power_2\<close>.
\<close>

section \<open>What the primitives leave alone\<close>

lemma frame_remove [frame_facts]:
  "memory_start (remove_from_free_list m p ord) = memory_start m"
  "usable_end (remove_from_free_list m p ord) = usable_end m"
  "memory_end (remove_from_free_list m p ord) = memory_end m"
  "page_count (remove_from_free_list m p ord) = page_count m"
  "pages_info (remove_from_free_list m p ord) = pages_info m"
  "buddy_map (remove_from_free_list m p ord) = buddy_map m"
  "free_count (remove_from_free_list m p ord) = free_count m"
  by (simp_all add: remove_from_free_list_def Let_def)

lemma frame_attach [frame_facts]:
  "memory_start (attach_to_free_list m p ord) = memory_start m"
  "usable_end (attach_to_free_list m p ord) = usable_end m"
  "memory_end (attach_to_free_list m p ord) = memory_end m"
  "page_count (attach_to_free_list m p ord) = page_count m"
  "pages_info (attach_to_free_list m p ord) = pages_info m"
  "buddy_map (attach_to_free_list m p ord) = buddy_map m"
  "free_count (attach_to_free_list m p ord) = free_count m"
  by (simp_all add: attach_to_free_list_def Let_def)

lemma frame_xor [frame_facts]:
  "memory_start (fst (xor_buddy_map m p ord)) = memory_start m"
  "usable_end (fst (xor_buddy_map m p ord)) = usable_end m"
  "memory_end (fst (xor_buddy_map m p ord)) = memory_end m"
  "page_count (fst (xor_buddy_map m p ord)) = page_count m"
  "pages_info (fst (xor_buddy_map m p ord)) = pages_info m"
  "free_list (fst (xor_buddy_map m p ord)) = free_list m"
  "free_count (fst (xor_buddy_map m p ord)) = free_count m"
  "bl_prev (fst (xor_buddy_map m p ord)) = bl_prev m"
  "bl_next (fst (xor_buddy_map m p ord)) = bl_next m"
  by (simp_all add: xor_buddy_map_def Let_def)

lemma frame_set_pages [frame_facts]:
  "memory_start (set_pages m b c pg) = memory_start m"
  "usable_end (set_pages m b c pg) = usable_end m"
  "memory_end (set_pages m b c pg) = memory_end m"
  "page_count (set_pages m b c pg) = page_count m"
  "buddy_map (set_pages m b c pg) = buddy_map m"
  "free_list (set_pages m b c pg) = free_list m"
  "free_count (set_pages m b c pg) = free_count m"
  "bl_prev (set_pages m b c pg) = bl_prev m"
  "bl_next (set_pages m b c pg) = bl_next m"
  by (simp_all add: set_pages_def)

lemma frame_inc_count [frame_facts]:
  "memory_start (inc_count m ord) = memory_start m"
  "usable_end (inc_count m ord) = usable_end m"
  "memory_end (inc_count m ord) = memory_end m"
  "page_count (inc_count m ord) = page_count m"
  "pages_info (inc_count m ord) = pages_info m"
  "buddy_map (inc_count m ord) = buddy_map m"
  "free_list (inc_count m ord) = free_list m"
  "bl_prev (inc_count m ord) = bl_prev m"
  "bl_next (inc_count m ord) = bl_next m"
  by (simp_all add: inc_count_def)

lemma frame_dec_count [frame_facts]:
  "memory_start (dec_count m ord) = memory_start m"
  "usable_end (dec_count m ord) = usable_end m"
  "memory_end (dec_count m ord) = memory_end m"
  "page_count (dec_count m ord) = page_count m"
  "pages_info (dec_count m ord) = pages_info m"
  "buddy_map (dec_count m ord) = buddy_map m"
  "free_list (dec_count m ord) = free_list m"
  "bl_prev (dec_count m ord) = bl_prev m"
  "bl_next (dec_count m ord) = bl_next m"
  by (simp_all add: dec_count_def)

text \<open>The components of the relation depend on their own fields only.\<close>

lemma geometry_cong:
  "memory_start m' = memory_start m \<Longrightarrow> usable_end m' = usable_end m \<Longrightarrow> geometry n m' = geometry n m"
  by (simp add: geometry_def)

lemma addr_cong: "memory_start m' = memory_start m \<Longrightarrow> addr m' = addr m"
  by (simp add: addr_def fun_eq_iff)

lemma links_cong:
  "memory_start m' = memory_start m \<Longrightarrow> free_list m' = free_list m \<Longrightarrow> bl_prev m' = bl_prev m \<Longrightarrow>
   bl_next m' = bl_next m \<Longrightarrow> links m' fs = links m fs"
  by (simp add: links_def addr_cong [of m' m])

lemma counts_cong: "free_count m' = free_count m \<Longrightarrow> counts m' fs = counts m fs"
  by (simp add: counts_def)

lemma bits_cong: "buddy_map m' = buddy_map m \<Longrightarrow> bits n m' fs = bits n m fs"
  by (simp add: bits_def)

section \<open>Free lists\<close>

lemma distinct_blocks:
  assumes "ainv n fs" "i \<in> set (fs o1)" "j \<in> set (fs o2)" "o1 \<noteq> o2"
  shows "i \<noteq> j"
proof
  assume "i = j"
  then have "i \<in> blk o1 i \<inter> blk o2 j" by simp
  then have "blk o1 i \<inter> blk o2 j \<noteq> {}" by (metis empty_iff)
  then show False using ainvD(3) [OF assms(1-3)] assms(4) by blast
qed

lemma block_le: "ainv n fs \<Longrightarrow> i \<in> set (fs ord) \<Longrightarrow> i \<le> n"
  using ainvD(2) [of n fs i ord] by (simp add: well_placed_def)

lemma distinct_addrs:
  assumes "geometry n m" "ainv n fs"
  shows "distinct (map (addr m) (fs ord))"
  using ainvD(1) [OF assms(2)] block_le [OF assms(2)] addr_inj [OF assms(1)]
  by (auto simp: distinct_map inj_on_def)

lemma addr_not_in_other:
  assumes "geometry n m" "ainv n fs" "i \<le> n" "i \<notin> set (fs ord)"
  shows "addr m i \<notin> set (map (addr m) (fs ord))"
  using assms addr_inj [OF assms(1,3)] block_le [OF assms(2)] by auto

lemma links_upd:
  assumes "dll nx pv 0 h (map f as)"
    and "\<And>o'. o' < MAX_ORDER \<Longrightarrow> o' \<noteq> ord \<Longrightarrow> dll nx pv 0 (fl o') (map f (fs o'))"
  shows "\<forall>o' < MAX_ORDER. dll nx pv 0 ((fl(ord := h)) o') (map f ((fs(ord := as)) o'))"
  using assms by auto

lemma links_attach:
  assumes g: "geometry n m" and a: "ainv n fs" and l: "links m fs"
    and i: "i \<le> n" "\<forall>ord. i \<notin> set (fs ord)" and ord: "ord < MAX_ORDER"
  shows "links (attach_to_free_list m (addr m i) ord) (fs(ord := i # fs ord))"
proof -
  let ?p = "addr m i"
  let ?h = "free_list m ord"
  let ?nx = "(bl_next m)(?p := ?h)"
  let ?pv = "(bl_prev m)(?h := ?p, ?p := 0)"
  have eff: "bl_next (attach_to_free_list m ?p ord) = ?nx"
    "bl_prev (attach_to_free_list m ?p ord) = ?pv"
    "free_list (attach_to_free_list m ?p ord) = (free_list m)(ord := ?p)"
    by (simp_all add: attach_to_free_list_def Let_def)
  have ls: "dll (bl_next m) (bl_prev m) 0 (free_list m o') (map (addr m) (fs o'))"
    if "o' < MAX_ORDER" for o' using l that by (simp add: links_def)
  have own: "dll ?nx ?pv 0 ?p (map (addr m) (i # fs ord))"
    using dll_push [OF ls [OF ord] distinct_addrs [OF g a] _ addr_nonzero [OF g i(1)]]
      addr_not_in_other [OF g a i(1)] i(2) by simp
  have other: "dll ?nx ?pv 0 (free_list m o') (map (addr m) (fs o'))"
    if o': "o' < MAX_ORDER" "o' \<noteq> ord" for o'
  proof -
    have "?p \<notin> set (map (addr m) (fs o'))" using addr_not_in_other [OF g a i(1)] i(2) by blast
    moreover have "?h \<notin> set (map (addr m) (fs o'))"
    proof (cases "fs ord")
      case Nil
      then have "?h = 0" using ls [OF ord] by simp
      then show ?thesis using dll_no_null [OF ls [OF o'(1)]] by metis
    next
      case (Cons a as)
      then have "?h = addr m a" using ls [OF ord] by simp
      moreover have "a \<notin> set (fs o')" using distinct_blocks [OF a] Cons o'(2) by (metis list.set_intros(1))
      moreover have "a \<le> n" using block_le [OF a] Cons by (metis list.set_intros(1))
      ultimately show ?thesis using addr_not_in_other [OF g a] by metis
    qed
    ultimately have "\<forall>a \<in> set (map (addr m) (fs o')). ?nx a = bl_next m a \<and> ?pv a = bl_prev m a"
      by (metis fun_upd_other)
    from dll_frame [OF this] show ?thesis using ls [OF o'(1)] by blast
  qed
  show ?thesis
    unfolding links_def eff addr_cong [OF frame_attach(1)]
    by (rule links_upd [OF own other])
qed

lemma links_remove:
  assumes g: "geometry n m" and a: "ainv n fs" and l: "links m fs"
    and sp: "fs ord = xs @ i # ys" and ord: "ord < MAX_ORDER"
  shows "links (remove_from_free_list m (addr m i) ord) (fs(ord := xs @ ys))"
proof -
  let ?p = "addr m i"
  let ?m = "remove_from_free_list m ?p ord"
  have ls: "dll (bl_next m) (bl_prev m) 0 (free_list m o') (map (addr m) (fs o'))"
    if "o' < MAX_ORDER" for o' using l that by (simp add: links_def)
  have L: "dll (bl_next m) (bl_prev m) 0 (free_list m ord) (map (addr m) xs @ ?p # map (addr m) ys)"
    using ls [OF ord] sp by simp
  have D: "distinct (map (addr m) xs @ ?p # map (addr m) ys)"
    using distinct_addrs [OF g a, of ord] sp by simp
  have null: "0 \<notin> set (map (addr m) (fs o'))" if "o' < MAX_ORDER" for o'
    using dll_no_null [OF ls [OF that]] .
  have foreign: "addr m j \<notin> set (map (addr m) (fs o'))" if "j \<in> set (fs ord)" "o' \<noteq> ord" for j o'
    using addr_not_in_other [OF g a block_le [OF a that(1)]] distinct_blocks [OF a that(1)] that(2)
    by metis
  have nxt: "bl_next m ?p = 0 \<or> (\<exists>j \<in> set (fs ord). bl_next m ?p = addr m j)"
    using dll_head [OF dll_after [OF L]] sp by (cases ys) auto
  have nxt_out: "bl_next m ?p \<notin> set (map (addr m) (fs o'))" if "o' < MAX_ORDER" "o' \<noteq> ord" for o'
    using nxt null [OF that(1)] foreign that(2) by metis
  have p_out: "?p \<notin> set (map (addr m) (fs o'))" if "o' \<noteq> ord" for o'
    using foreign [OF _ that, of i] sp by simp
  show ?thesis
  proof (cases "xs = []")
    case True
    then have pv: "bl_prev m ?p = 0" using dll_prev_zero_iff_head [OF L D] by simp
    have h: "free_list m ord = ?p" using L True by simp
    have eff: "bl_next ?m = (bl_next m)(?p := 0)"
      "bl_prev ?m = (bl_prev m)(bl_next m ?p := 0, ?p := 0)"
      "free_list ?m = (free_list m)(ord := bl_next m ?p)"
      using pv by (simp_all add: remove_from_free_list_def Let_def)
    have own: "dll (bl_next ?m) (bl_prev ?m) 0 (bl_next m ?p) (map (addr m) (xs @ ys))"
      using dll_unlink_head [of "bl_next m" "bl_prev m" 0 ?p "map (addr m) ys"] L D True h
      unfolding eff by (simp del: fun_upd_apply dll.simps)
    have other: "dll (bl_next ?m) (bl_prev ?m) 0 (free_list m o') (map (addr m) (fs o'))"
      if o': "o' < MAX_ORDER" "o' \<noteq> ord" for o'
    proof -
      have "\<forall>a \<in> set (map (addr m) (fs o')). bl_next ?m a = bl_next m a \<and> bl_prev ?m a = bl_prev m a"
        unfolding eff using nxt_out [OF o'] p_out [OF o'(2)] by (metis fun_upd_other)
      from dll_frame [OF this] show ?thesis using ls [OF o'(1)] by blast
    qed
    show ?thesis
      unfolding links_def addr_cong [OF frame_remove(1)] eff(3)
      by (rule links_upd [OF own other])
  next
    case False
    have pv: "bl_prev m ?p = last (map (addr m) xs)"
      using dll_unlink_inner(1) [OF L D] False by simp
    have prev: "bl_prev m ?p = addr m (last xs)" "last xs \<in> set (fs ord)"
      using pv False sp by (simp_all add: last_map)
    have pv0: "bl_prev m ?p \<noteq> 0" using dll_prev_zero_iff_head [OF L D] False by simp
    have ne: "bl_prev m ?p \<noteq> ?p" 
    proof
      assume "bl_prev m ?p = ?p"
      then have "?p \<in> addr m ` set xs" using prev(1) False by (metis imageI last_in_set)
      then show False using D by simp
    qed
    have eff: "bl_next ?m = (bl_next m)(bl_prev m ?p := bl_next m ?p, ?p := 0)"
      "bl_prev ?m = (bl_prev m)(bl_next m ?p := bl_prev m ?p, ?p := 0)"
      "free_list ?m = free_list m"
      using pv0 ne by (simp_all add: remove_from_free_list_def Let_def)
    have own: "dll (bl_next ?m) (bl_prev ?m) 0 (free_list m ord) (map (addr m) (xs @ ys))"
      using dll_unlink_inner(2) [OF L D] False unfolding eff map_append by blast
    have other: "dll (bl_next ?m) (bl_prev ?m) 0 (free_list m o') (map (addr m) (fs o'))"
      if o': "o' < MAX_ORDER" "o' \<noteq> ord" for o'
    proof -
      have "bl_prev m ?p \<notin> set (map (addr m) (fs o'))"
        unfolding prev(1) using foreign [OF prev(2) o'(2)] .
      then have "\<forall>a \<in> set (map (addr m) (fs o')). bl_next ?m a = bl_next m a \<and> bl_prev ?m a = bl_prev m a"
        unfolding eff using nxt_out [OF o'] p_out [OF o'(2)] by (metis fun_upd_other)
      from dll_frame [OF this] show ?thesis using ls [OF o'(1)] by blast
    qed
    show ?thesis
      unfolding links_def addr_cong [OF frame_remove(1)]
      using links_upd [where fl = "free_list m" and fs = fs and ord = ord, OF own other] eff(3)
      by (simp del: dll.simps)
  qed
qed

section \<open>Counters and maps\<close>

lemma length_blocks:
  assumes "geometry n m" "ainv n fs"
  shows "length (fs ord) < 2 ^ 32"
proof -
  have "set (fs ord) \<subseteq> {..n}" using block_le [OF assms(2)] by auto
  then have "card (set (fs ord)) \<le> n + 1" using card_mono [of "{..n}" "set (fs ord)"] by simp
  then have "length (fs ord) \<le> n + 1" using distinct_card [OF ainvD(1) [OF assms(2)]] by metis
  moreover have "n < 2 ^ 20" using page_index(2) [OF assms(1), of n] by simp
  ultimately show ?thesis by simp
qed

lemma count_zero_iff:
  assumes "geometry n m" "ainv n fs" "counts m fs" "ord < MAX_ORDER"
  shows "free_count m ord = 0 \<longleftrightarrow> fs ord = []"
proof -
  have "unat (free_count m ord) = length (fs ord)"
    using assms(3,4) unat_of_nat32 [OF length_blocks [OF assms(1,2)]] by (simp add: counts_def)
  then show ?thesis by (metis length_0_conv unat_eq_zero)
qed

lemma counts_inc: "counts m fs \<Longrightarrow> counts (inc_count m ord) (fs(ord := i # fs ord))"
  by (simp add: counts_def inc_count_def)

lemma counts_dec: "counts m fs \<Longrightarrow> fs ord = xs @ i # ys \<Longrightarrow> counts (dec_count m ord) (fs(ord := xs @ ys))"
  by (simp add: counts_def dec_count_def)

text \<open>Two aligned pages share a bit exactly when they are buddies.\<close>

lemma pair_index:
  assumes "2 ^ ord dvd i" "2 ^ ord dvd j"
  shows "i div 2 ^ (ord + 1) = j div 2 ^ (ord + 1) \<longleftrightarrow> j = i \<or> j = buddy_of ord i"
proof -
  obtain a where a: "i = 2 ^ ord * a" using assms(1) by (elim dvdE)
  obtain b where b: "j = 2 ^ ord * b" using assms(2) by (elim dvdE)
  have d: "(2 ^ ord * c) div 2 ^ (ord + 1) = c div 2" for c :: nat
    by (simp add: div_mult2_eq [symmetric] flip: power_Suc2)
  have e: "2 ^ (ord + 1) dvd i \<longleftrightarrow> even a" by (simp add: a)
  have bd: "buddy_of ord i = 2 ^ ord * (if even a then a + 1 else a - 1)"
    by (simp add: buddy_of_def e) (simp add: a algebra_simps)
  have "j = buddy_of ord i \<longleftrightarrow> b = (if even a then a + 1 else a - 1)"
    unfolding bd b by (simp only: mult_cancel1) simp
  moreover have "j = i \<longleftrightarrow> b = a" unfolding a b by simp
  moreover have "a div 2 = b div 2 \<longleftrightarrow> b = a \<or> b = (if even a then a + 1 else a - 1)"
    by (cases "even a") (auto elim!: evenE oddE)
  ultimately show ?thesis unfolding a b d by simp
qed

lemma xor_buddy_map_bits:
  assumes g: "geometry n m" and i: "i < n" "2 ^ ord dvd i"
  shows "buddy_map (fst (xor_buddy_map m (addr m i) ord)) =
    (buddy_map m)(ord := xor_bit (buddy_map m ord) (i div 2 ^ (ord + 1)) 1)"
    and "snd (xor_buddy_map m (addr m i) ord) =
      of_bool (\<not> bit_at (buddy_map m ord) (i div 2 ^ (ord + 1)))"
proof -
  have u: "unat (of_nat i :: u32) = i"
    using page_index(2) [OF g, of i] i(1) by (intro unat_of_nat32) simp
  have "unat (drop_bit (ord + 1) ((addr m i - memory_start m) div PG_SIZE)) = i div 2 ^ (ord + 1)"
    using page_index(1) [OF g, of i] i(1) u
    by (simp only: unat_drop_bit_eq less_imp_le) (simp only: drop_bit_eq_div)
  then show "buddy_map (fst (xor_buddy_map m (addr m i) ord)) =
    (buddy_map m)(ord := xor_bit (buddy_map m ord) (i div 2 ^ (ord + 1)) 1)"
    "snd (xor_buddy_map m (addr m i) ord) =
      of_bool (\<not> bit_at (buddy_map m ord) (i div 2 ^ (ord + 1)))"
    by (simp_all add: xor_buddy_map_def Let_def check_bit_eq bit_at_xor_bit del: drop_bit_Suc)
qed

text \<open>
  Flipping the bit of a block matches a change of the membership of that block, or of its
  buddy, in the free list of the order.
\<close>

lemma bits_toggle:
  assumes g: "geometry n m" and b: "bits n m fs" and i: "i < n" "2 ^ ord dvd i"
    and tog: "\<And>j. 2 ^ ord dvd j \<Longrightarrow>
      ((j \<in> set (fs' ord)) \<noteq> (buddy_of ord j \<in> set (fs' ord))) =
      (((j \<in> set (fs ord)) \<noteq> (buddy_of ord j \<in> set (fs ord))) \<noteq> (j = i \<or> j = buddy_of ord i))"
    and same: "\<And>o'. o' \<noteq> ord \<Longrightarrow> set (fs' o') = set (fs o')"
  shows "bits n (fst (xor_buddy_map m (addr m i) ord)) fs'"
  unfolding bits_def
proof (intro allI impI)
  fix o' j
  assume o': "o' < MAX_ORDER - 1" and j: "j < n" "2 ^ o' dvd j"
  have old: "bit_at (buddy_map m o') (j div 2 ^ (o' + 1)) =
    ((j \<in> set (fs o')) \<noteq> (buddy_of o' j \<in> set (fs o')))"
    using b o' j unfolding bits_def by blast
  show "bit_at (buddy_map (fst (xor_buddy_map m (addr m i) ord)) o') (j div 2 ^ (o' + 1)) =
    ((j \<in> set (fs' o')) \<noteq> (buddy_of o' j \<in> set (fs' o')))"
  proof (cases "o' = ord")
    case False
    then show ?thesis using old same xor_buddy_map_bits(1) [OF g i] by simp
  next
    case True
    have "i div 2 ^ (ord + 1) = j div 2 ^ (ord + 1) \<longleftrightarrow> j = i \<or> j = buddy_of ord i"
      using pair_index [OF i(2)] j(2) True by simp
    then have "bit_at (buddy_map (fst (xor_buddy_map m (addr m i) ord)) ord) (j div 2 ^ (ord + 1)) =
      ((j = i \<or> j = buddy_of ord i) \<noteq> bit_at (buddy_map m ord) (j div 2 ^ (ord + 1)))"
      unfolding xor_buddy_map_bits(1) [OF g i] by (simp only: fun_upd_same bit_at_xor_bit) metis
    then show ?thesis using old tog [of j] j(2) unfolding True by blast
  qed
qed

lemma toggle_member:
  assumes "2 ^ ord dvd i" "2 ^ ord dvd j" "\<And>k. k \<in> A' \<longleftrightarrow> (k \<in> A) \<noteq> (k = i)"
  shows "((j \<in> A') \<noteq> (buddy_of ord j \<in> A')) =
    (((j \<in> A) \<noteq> (buddy_of ord j \<in> A)) \<noteq> (j = i \<or> j = buddy_of ord i))"
proof -
  have "buddy_of ord i \<noteq> i" using buddy_of_merge(3) [OF assms(1)] by force
  moreover have "buddy_of ord j = i \<longleftrightarrow> j = buddy_of ord i" using buddy_of_inj [OF assms(2,1)] by auto
  ultimately show ?thesis unfolding assms(3) by blast
qed

lemma toggle_buddy:
  assumes "2 ^ ord dvd i" "2 ^ ord dvd j" "\<And>k. k \<in> A' \<longleftrightarrow> (k \<in> A) \<noteq> (k = buddy_of ord i)"
  shows "((j \<in> A') \<noteq> (buddy_of ord j \<in> A')) =
    (((j \<in> A) \<noteq> (buddy_of ord j \<in> A)) \<noteq> (j = i \<or> j = buddy_of ord i))"
proof -
  have "buddy_of ord (buddy_of ord i) = i"
    using buddy_of_inj [OF assms(1) buddy_of_dvd [OF assms(1)]] by simp
  then show ?thesis
    using toggle_member [OF buddy_of_dvd [OF assms(1)] assms(2,3)] by auto
qed

section \<open>Page records\<close>

lemma pages_info_set_pages:
  assumes g: "geometry n m" and "i + c \<le> n"
  shows "pages_info (set_pages m (addr m i) c pg) k =
    (if i \<le> k \<and> k < i + c then pg else pages_info m k)"
  using assms(2)
proof (induction c)
  case 0
  then show ?case by (auto simp: set_pages_def)
next
  case (Suc c)
  have "addr m i + of_nat c * PG_SIZE = addr m (i + c)"
    by (simp add: addr_def algebra_simps)
  then have id: "GET_ID_BY_PAGE m (addr m i + of_nat c * PG_SIZE) = i + c"
    using id_addr [OF g, of "i + c"] Suc.prems by simp
  have "pages_info (set_pages m (addr m i) (Suc c) pg) k =
    (if k = i + c then pg else pages_info (set_pages m (addr m i) c pg) k)"
    by (simp add: set_pages_def id)
  then show ?case using Suc by auto
qed

section \<open>Simulation\<close>

definition same_frame :: "memory_info \<Rightarrow> memory_info \<Rightarrow> bool" where
  "same_frame m m' \<longleftrightarrow> memory_start m' = memory_start m \<and> usable_end m' = usable_end m \<and>
     memory_end m' = memory_end m \<and> page_count m' = page_count m"

lemma rel_set_pages: "rel n (set_pages m b c pg) fs = rel n m fs"
  unfolding rel_def
  by (simp add: frame_facts geometry_cong [of "set_pages m b c pg" m] links_cong [of "set_pages m b c pg" m]
      counts_cong [of "set_pages m b c pg" m] bits_cong [of "set_pages m b c pg" m])

lemma rel_take:
  assumes r: "rel n m fs" and sp: "fs ord = xs @ i # ys" and ord: "ord < MAX_ORDER"
  defines "m' \<equiv> fst (xor_buddy_map (dec_count (remove_from_free_list m (addr m i) ord) ord) (addr m i) ord)"
  shows "rel n m' (fs(ord := xs @ ys))" and "same_frame m m'" and "pages_info m' = pages_info m"
proof -
  let ?m1 = "remove_from_free_list m (addr m i) ord"
  let ?m2 = "dec_count ?m1 ord"
  let ?fs = "fs(ord := xs @ ys)"
  have g: "geometry n m" and a: "ainv n fs" and l: "links m fs" and c: "counts m fs" and b: "bits n m fs"
    using r by (simp_all add: rel_def)
  have w: "well_placed n ord i" using ainvD(2) [OF a, of i ord] sp by simp
  then have i: "i < n" "2 ^ ord dvd i"
    by (auto simp: well_placed_def intro: less_le_trans [of i "i + 2 ^ ord" n])
  have g2: "geometry n ?m2" using g by (simp add: geometry_def frame_facts)
  have "links m' ?fs"
    using links_remove [OF g a l sp ord] links_cong [of m' ?m1 ?fs] by (simp add: m'_def frame_facts)
  moreover have "counts m' ?fs"
    using counts_dec [of ?m1 fs ord xs i ys] c sp counts_cong [of ?m1 m fs] counts_cong [of m' ?m2 ?fs]
    by (simp add: m'_def frame_facts)
  moreover have "bits n m' ?fs"
  proof -
    have "distinct (xs @ i # ys)" using ainvD(1) [OF a, of ord] sp by simp
    then have tog: "k \<in> set (?fs ord) \<longleftrightarrow> (k \<in> set (fs ord)) \<noteq> (k = i)" for k using sp by auto
    have b2: "bits n ?m2 fs" using b bits_cong [of ?m2 m] by (simp add: frame_facts)
    have "addr ?m2 i = addr m i" by (simp add: addr_def frame_facts)
    then show ?thesis
      using bits_toggle [OF g2 b2 i, of ?fs] toggle_member [OF i(2) _ tog] unfolding m'_def by simp
  qed
  moreover have "geometry n m'" using g2 by (simp add: m'_def geometry_def frame_facts)
  ultimately show "rel n m' ?fs" using take_block(1) [OF a sp] by (simp add: rel_def)
  show "same_frame m m'" "pages_info m' = pages_info m" by (simp_all add: m'_def same_frame_def frame_facts)
qed

lemma rel_split:
  assumes r: "rel n m fs" and w: "well_placed n (ord + 1) j" and out: "blk (ord + 1) j \<inter> fpages fs = {}"
  defines "m' \<equiv> fst (xor_buddy_map (inc_count (attach_to_free_list m (addr m j) ord) ord)
                    (addr m j + 2 ^ ord * PG_SIZE) ord)"
  shows "rel n m' (fs(ord := j # fs ord))" and "same_frame m m'" and "pages_info m' = pages_info m"
proof -
  let ?m1 = "attach_to_free_list m (addr m j) ord"
  let ?m2 = "inc_count ?m1 ord"
  let ?fs = "fs(ord := j # fs ord)"
  let ?i = "j + 2 ^ ord"
  have g: "geometry n m" and a: "ainv n fs" and l: "links m fs" and c: "counts m fs" and b: "bits n m fs"
    using r by (simp_all add: rel_def)
  have j: "2 ^ (ord + 1) dvd j" "j + 2 ^ (ord + 1) \<le> n" "ord < MAX_ORDER" "ord + 1 < MAX_ORDER"
    using w by (simp_all add: well_placed_def)
  have dj: "2 ^ ord dvd j" using j(1) by (simp add: dvd_mult_right)
  have di: "2 ^ ord dvd ?i" using dj by simp
  have i: "?i < n" using j(2) by (simp add: less_le_trans [of "j + 2 ^ ord" "j + 2 * 2 ^ ord" n])
  have wj: "well_placed n ord j" using j dj by (simp add: well_placed_def)
  have fresh: "\<forall>o'. j \<notin> set (fs o')" "\<forall>o'. ?i \<notin> set (fs o')"
    using fpages_block [OF a] out block_nonempty by (force simp: disjoint_iff)+
  have bj: "buddy_of ord j = ?i" using buddy_of_low [OF j(1)] .
  then have bi: "buddy_of ord ?i = j" using buddy_of_inj [OF dj di] by simp
  have "blk ord j \<inter> fpages fs = {}" using out block_split [of ord j] by blast
  then have "ainv n ?fs" using put_block(1) [OF a wj] fresh(2) bj by metis
  moreover have g2: "geometry n ?m2" using g by (simp add: geometry_def frame_facts)
  moreover have "geometry n m'" using g2 by (simp add: m'_def geometry_def frame_facts)
  moreover have "links m' ?fs"
    using links_attach [OF g a l _ fresh(1) j(3)] j(2) links_cong [of m' ?m1 ?fs]
    by (simp add: m'_def frame_facts)
  moreover have "counts m' ?fs"
    using counts_inc [of ?m1 fs ord j] c counts_cong [of ?m1 m fs] counts_cong [of m' ?m2 ?fs]
    by (simp add: m'_def frame_facts)
  moreover have "bits n m' ?fs"
  proof -
    have tog: "k \<in> set (?fs ord) \<longleftrightarrow> (k \<in> set (fs ord)) \<noteq> (k = buddy_of ord ?i)" for k
      using fresh(1) bi by auto
    have b2: "bits n ?m2 fs" using b bits_cong [of ?m2 m] by (simp add: frame_facts)
    have "addr ?m2 ?i = addr m j + 2 ^ ord * PG_SIZE" by (simp add: addr_plus) (simp add: addr_def frame_facts)
    then show ?thesis
      using bits_toggle [OF g2 b2 i di, of ?fs] toggle_buddy [OF di _ tog] unfolding m'_def by simp
  qed
  ultimately show "rel n m' ?fs" by (simp add: rel_def)
  show "same_frame m m'" "pages_info m' = pages_info m" by (simp_all add: m'_def same_frame_def frame_facts)
qed

lemma allocate_top: "MAX_ORDER \<le> ord \<Longrightarrow> allocate_pages_of_power_2 m ord attr = (m, 0)"
  by (subst allocate_pages_of_power_2.simps) simp

lemma allocate_take:
  assumes "ord < MAX_ORDER" "free_count m ord \<noteq> 0" "free_list m ord = b" "b \<noteq> 0"
  shows "allocate_pages_of_power_2 m ord attr =
    (set_pages (fst (xor_buddy_map (dec_count (remove_from_free_list m b ord) ord) b ord)) b (2 ^ ord)
       \<lparr>page_type = attr, reference = 1\<rparr>, b)"
  using assms by (subst allocate_pages_of_power_2.simps) (simp add: Let_def split_beta)

lemma allocate_fail:
  assumes "ord < MAX_ORDER" "free_count m ord = 0" "allocate_pages_of_power_2 m (ord + 1) 0 = (m, 0)"
  shows "allocate_pages_of_power_2 m ord attr = (m, 0)"
  using assms by (subst allocate_pages_of_power_2.simps) (simp add: Let_def)

lemma allocate_split:
  assumes "ord < MAX_ORDER" "free_count m ord = 0" "allocate_pages_of_power_2 m (ord + 1) 0 = (m1, b)"
    and "b \<noteq> 0" "b + 2 ^ ord * PG_SIZE \<noteq> 0"
  shows "allocate_pages_of_power_2 m ord attr =
    (set_pages (fst (xor_buddy_map (inc_count (attach_to_free_list m1 b ord) ord)
       (b + 2 ^ ord * PG_SIZE) ord)) (b + 2 ^ ord * PG_SIZE) (2 ^ ord)
       \<lparr>page_type = attr, reference = 1\<rparr>, b + 2 ^ ord * PG_SIZE)"
  using assms by (subst allocate_pages_of_power_2.simps) (simp add: Let_def split_beta)

lemma same_frame_addr: "same_frame m m' \<Longrightarrow> addr m' = addr m"
  by (simp add: same_frame_def addr_cong [of m' m])

lemma same_frame_set_pages: "same_frame m (set_pages m' b c pg) = same_frame m m'"
  by (simp add: same_frame_def frame_facts)

text \<open>The result of an allocation that the contract grants, page records included.\<close>

definition alloc_post :: "nat \<Rightarrow> memory_info \<Rightarrow> nat \<Rightarrow> u32 \<Rightarrow> nat \<Rightarrow> blocks \<Rightarrow> blocks \<Rightarrow> memory_info \<Rightarrow> bool" where
  "alloc_post n m ord attr i fs fs' m' \<longleftrightarrow> rel n m' fs' \<and> same_frame m m' \<and>
     (\<forall>k \<in> blk ord i. pages_info m' k = \<lparr>page_type = attr, reference = 1\<rparr>) \<and>
     (\<forall>k. k \<notin> fpages fs \<longrightarrow> pages_info m' k = pages_info m k)"

lemma alloc_post_set_pages:
  assumes "rel n m2 fs'" "same_frame m m2" "i + 2 ^ ord \<le> n" "blk ord i \<subseteq> fpages fs"
    and "\<forall>k. k \<notin> fpages fs \<longrightarrow> pages_info m2 k = pages_info m k"
  shows "alloc_post n m ord attr i fs fs'
    (set_pages m2 (addr m i) (2 ^ ord) \<lparr>page_type = attr, reference = 1\<rparr>)"
proof -
  have g: "geometry n m2" using assms(1) by (simp add: rel_def)
  have e: "addr m i = addr m2 i" using same_frame_addr [OF assms(2)] by simp
  have info: "pages_info (set_pages m2 (addr m i) (2 ^ ord) \<lparr>page_type = attr, reference = 1\<rparr>) k =
    (if k \<in> blk ord i then \<lparr>page_type = attr, reference = 1\<rparr> else pages_info m2 k)" for k
    unfolding e using pages_info_set_pages [OF g assms(3)] by simp
  show ?thesis
    unfolding alloc_post_def rel_set_pages same_frame_set_pages info
    using assms(1,2,4,5) by (auto simp del: block_mem)
qed

theorem allocate_simulates:
  assumes "rel n m fs"
  shows "case aalloc fs ord of
      None \<Rightarrow> allocate_pages_of_power_2 m ord attr = (m, 0)
    | Some (i, fs') \<Rightarrow> \<exists>m'. allocate_pages_of_power_2 m ord attr = (m', addr m i) \<and>
        alloc_post n m ord attr i fs fs' m'"
  using assms
proof (induction fs ord arbitrary: attr rule: aalloc.induct)
  case (1 fs ord)
  have g: "geometry n m" and a: "ainv n fs" and l: "links m fs" and c: "counts m fs"
    using "1.prems" by (simp_all add: rel_def)
  show ?case
  proof (cases "MAX_ORDER \<le> ord")
    case True
    then show ?thesis by (subst aalloc.simps) (simp add: allocate_top)
  next
    case ord: False
    show ?thesis
    proof (cases "fs ord")
      case (Cons i rest)
      have i: "i \<in> set (fs ord)" using Cons by simp
      have w: "i + 2 ^ ord \<le> n" using ainvD(2) [OF a i] by (simp add: well_placed_def)
      have "dll (bl_next m) (bl_prev m) 0 (free_list m ord) (map (addr m) (fs ord))"
        using l ord by (simp add: links_def)
      then have "free_list m ord = addr m i" using Cons by simp
      moreover have "free_count m ord \<noteq> 0" using count_zero_iff [OF g a c] ord Cons by simp
      moreover have "addr m i \<noteq> 0" using addr_nonzero [OF g block_le [OF a i]] .
      moreover have "fs ord = [] @ i # rest" using Cons by simp
      note take = rel_take [OF "1.prems" this, unfolded append_Nil]
      have "aalloc fs ord = Some (i, fs(ord := rest))"
        using ord Cons by (subst aalloc.simps) simp
      ultimately show ?thesis
        using allocate_take [of ord m "addr m i" attr] ord
          alloc_post_set_pages [OF take(1,2) w fpages_block [OF a i]] take(3) by simp
    next
      case Nil
      have z: "free_count m ord = 0" using count_zero_iff [OF g a c] ord Nil by simp
      show ?thesis
      proof (cases "aalloc fs (ord + 1)")
        case None
        then have "allocate_pages_of_power_2 m (ord + 1) 0 = (m, 0)"
          using "1.IH" [OF ord Nil "1.prems", of 0] by simp
        moreover have "aalloc fs ord = None" using ord Nil None by (subst aalloc.simps) simp
        ultimately show ?thesis using allocate_fail [OF _ z] ord by simp
      next
        case (Some r)
        obtain j fs1 where up: "aalloc fs (ord + 1) = Some (j, fs1)" using Some by (cases r) auto
        then obtain m1 where m1: "allocate_pages_of_power_2 m (ord + 1) 0 = (m1, addr m j)"
          "alloc_post n m (ord + 1) 0 j fs fs1 m1"
          using "1.IH" [OF ord Nil "1.prems", of 0] by auto
        have ok: "well_placed n (ord + 1) j" "blk (ord + 1) j \<subseteq> fpages fs"
          "fpages fs1 = fpages fs - blk (ord + 1) j"
          using aalloc_correct [OF a up] by blast+
        have out: "blk (ord + 1) j \<inter> fpages fs1 = {}" unfolding ok(3) by blast
        have p1: "rel n m1 fs1" "same_frame m m1"
          "\<forall>k. k \<notin> fpages fs \<longrightarrow> pages_info m1 k = pages_info m k"
          using m1(2) unfolding alloc_post_def by blast+
        note split = rel_split [OF p1(1) ok(1) out]
        let ?m2 = "fst (xor_buddy_map (inc_count (attach_to_free_list m1 (addr m1 j) ord) ord)
          (addr m1 j + 2 ^ ord * PG_SIZE) ord)"
        have e: "addr m1 = addr m" using same_frame_addr [OF p1(2)] .
        have w: "j \<le> n" "j + 2 ^ ord + 2 ^ ord \<le> n" "j + 2 ^ ord \<le> n"
          using ok(1) by (simp_all add: well_placed_def)
        have "addr m j \<noteq> 0" "addr m j + 2 ^ ord * PG_SIZE \<noteq> 0"
          using addr_nonzero [OF g] w unfolding addr_plus by simp_all
        from allocate_split [OF _ z m1(1) this, of attr]
        have al: "allocate_pages_of_power_2 m ord attr =
          (set_pages ?m2 (addr m (j + 2 ^ ord)) (2 ^ ord) \<lparr>page_type = attr, reference = 1\<rparr>,
           addr m (j + 2 ^ ord))"
          using ord unfolding e addr_plus by simp
        have sf: "same_frame m ?m2" using p1(2) split(2) by (simp add: same_frame_def)
        have sub: "blk ord (j + 2 ^ ord) \<subseteq> fpages fs" using ok(2) block_split [of ord j] by blast
        have "alloc_post n m ord attr (j + 2 ^ ord) fs (fs1(ord := j # fs1 ord))
          (set_pages ?m2 (addr m (j + 2 ^ ord)) (2 ^ ord) \<lparr>page_type = attr, reference = 1\<rparr>)"
          using alloc_post_set_pages [OF split(1) sf w(2) sub] p1(3) split(3) by simp
        moreover have "aalloc fs ord = Some (j + 2 ^ ord, fs1(ord := j # fs1 ord))"
          using ord Nil up by (subst aalloc.simps) simp
        ultimately show ?thesis using al by simp
      qed
    qed
  qed
qed

lemma rel_detach_buddy:
  assumes r: "rel n m fs" and i: "2 ^ ord dvd i" "i < n" and ord: "ord + 1 < MAX_ORDER"
    and sp: "fs ord = xs @ buddy_of ord i # ys"
  defines "m1 \<equiv> fst (xor_buddy_map m (addr m i) ord)"
  defines "m' \<equiv> dec_count (remove_from_free_list m1 (addr m (buddy_of ord i)) ord) ord"
  shows "rel n m' (fs(ord := xs @ ys))" and "same_frame m m'" and "pages_info m' = pages_info m"
proof -
  let ?b = "buddy_of ord i"
  let ?m2 = "remove_from_free_list m1 (addr m ?b) ord"
  let ?fs = "fs(ord := xs @ ys)"
  have g: "geometry n m" and a: "ainv n fs" and l: "links m fs" and c: "counts m fs" and b: "bits n m fs"
    using r by (simp_all add: rel_def)
  have f1: "memory_start m1 = memory_start m" "free_list m1 = free_list m" "bl_prev m1 = bl_prev m"
    "bl_next m1 = bl_next m" "free_count m1 = free_count m" "usable_end m1 = usable_end m"
    by (simp_all add: m1_def frame_facts)
  have g1: "geometry n m1" using g by (simp add: geometry_def f1)
  have e: "addr m1 = addr m" using f1(1) by (rule addr_cong)
  have "links m1 fs" using l links_cong [OF f1(1-4)] by simp
  from links_remove [OF g1 a this sp] have "links ?m2 ?fs" using ord e by simp
  then have "links m' ?fs" using links_cong [of m' ?m2 ?fs] by (simp add: m'_def frame_facts)
  moreover have "counts m' ?fs"
    using counts_dec [of ?m2 fs ord xs ?b ys] c sp counts_cong [of ?m2 m fs]
    by (simp add: m'_def frame_facts f1)
  moreover have "bits n m' ?fs"
  proof -
    have "distinct (xs @ ?b # ys)" using ainvD(1) [OF a, of ord] sp by simp
    then have tog: "k \<in> set (?fs ord) \<longleftrightarrow> (k \<in> set (fs ord)) \<noteq> (k = ?b)" for k using sp by auto
    have "bits n m1 ?fs"
      using bits_toggle [OF g b i(2,1), of ?fs] toggle_buddy [OF i(1) _ tog] unfolding m1_def by simp
    then show ?thesis using bits_cong [of m' m1] by (simp add: m'_def frame_facts)
  qed
  moreover have "geometry n m'" using g1 by (simp add: m'_def geometry_def frame_facts)
  ultimately show "rel n m' ?fs" using take_block(1) [OF a sp] by (simp add: rel_def)
  show "same_frame m m'" "pages_info m' = pages_info m"
    by (simp_all add: m'_def m1_def same_frame_def frame_facts)
qed

lemma rel_put:
  fixes c :: nat and pg :: page
  assumes r: "rel n m fs" and w: "well_placed n ord i" and out: "blk ord i \<inter> fpages fs = {}"
    and nb: "ord + 1 < MAX_ORDER \<Longrightarrow> buddy_of ord i \<notin> set (fs ord)"
  defines "m1 \<equiv> fst (xor_buddy_map m (addr m i) ord)"
  defines "m' \<equiv> inc_count (set_pages (attach_to_free_list m1 (addr m i) ord) (addr m i) c pg) ord"
  shows "rel n m' (fs(ord := i # fs ord))" and "same_frame m m'"
proof -
  let ?m2 = "attach_to_free_list m1 (addr m i) ord"
  let ?m3 = "set_pages ?m2 (addr m i) c pg"
  let ?fs = "fs(ord := i # fs ord)"
  have g: "geometry n m" and a: "ainv n fs" and l: "links m fs" and c: "counts m fs" and b: "bits n m fs"
    using r by (simp_all add: rel_def)
  have i: "2 ^ ord dvd i" "ord < MAX_ORDER" "i \<le> n" using w by (simp_all add: well_placed_def)
  have "i < n" using w by (auto simp: well_placed_def intro: less_le_trans [of i "i + 2 ^ ord" n])
  have fresh: "\<forall>o'. i \<notin> set (fs o')"
    using fpages_block [OF a] out block_nonempty by (force simp: disjoint_iff)
  have f1: "memory_start m1 = memory_start m" "free_list m1 = free_list m" "bl_prev m1 = bl_prev m"
    "bl_next m1 = bl_next m" "free_count m1 = free_count m" "usable_end m1 = usable_end m"
    by (simp_all add: m1_def frame_facts)
  have g1: "geometry n m1" using g by (simp add: geometry_def f1)
  have e: "addr m1 = addr m" using f1(1) by (rule addr_cong)
  have "links m1 fs" using l links_cong [OF f1(1-4)] by simp
  from links_attach [OF g1 a this i(3) fresh i(2)] have "links ?m2 ?fs" unfolding e .
  then have "links m' ?fs" using links_cong [of m' ?m2 ?fs] by (simp add: m'_def frame_facts)
  moreover have "counts m' ?fs"
    using counts_inc [of ?m3 fs ord i] c counts_cong [of ?m3 m fs] by (simp add: m'_def frame_facts f1)
  moreover have "bits n m' ?fs"
  proof -
    have tog: "k \<in> set (?fs ord) \<longleftrightarrow> (k \<in> set (fs ord)) \<noteq> (k = i)" for k using fresh by auto
    have "bits n m1 ?fs"
      using bits_toggle [OF g b \<open>i < n\<close> i(1), of ?fs] toggle_member [OF i(1) _ tog]
      unfolding m1_def by simp
    then show ?thesis using bits_cong [of m' m1] by (simp add: m'_def frame_facts)
  qed
  moreover have "geometry n m'" using g1 by (simp add: m'_def geometry_def frame_facts)
  moreover have "ainv n ?fs" using put_block(1) [OF a w out nb] .
  ultimately show "rel n m' ?fs" by (simp add: rel_def)
  show "same_frame m m'" by (simp add: m'_def m1_def same_frame_def frame_facts)
qed

lemma free_put:
  assumes "p \<noteq> 0" "memory_start m \<le> p \<and> p \<le> usable_end m" "ord < MAX_ORDER"
    and "\<not> (snd (xor_buddy_map m p ord) = 0 \<and> ord + 1 < MAX_ORDER)"
  shows "free_pages_of_power_2 m p ord =
    Inr (inc_count (set_pages (attach_to_free_list (fst (xor_buddy_map m p ord)) p ord) p (2 ^ ord)
      \<lparr>page_type = PAGE_TYPE_USABLE OR PAGE_TYPE_FREE, reference = 0\<rparr>) ord, 0)"
  using assms
  by (subst free_pages_of_power_2.simps) (auto simp: Let_def split_beta clear_page_info_def)

lemma even_index:
  fixes w :: u32
  shows "w = push_bit k (drop_bit k w) \<longleftrightarrow> 2 ^ k dvd unat w"
proof -
  have "w = push_bit k (drop_bit k w) \<longleftrightarrow> take_bit k w = 0"
    by (metis add.right_neutral add_left_cancel bits_ident)
  also have "\<dots> \<longleftrightarrow> take_bit k (unat w) = 0"
    by (simp flip: unsigned_take_bit_eq add: unat_eq_zero)
  also have "\<dots> \<longleftrightarrow> 2 ^ k dvd unat w" by (simp add: take_bit_eq_mod dvd_eq_mod_eq_0)
  finally show ?thesis .
qed

lemma free_merge:
  assumes g: "geometry n m" and i: "i < n" "2 ^ ord dvd i" and b: "buddy_of ord i \<le> n"
    and ord: "ord + 1 < MAX_ORDER" and z: "snd (xor_buddy_map m (addr m i) ord) = 0"
  shows "free_pages_of_power_2 m (addr m i) ord =
    (case free_pages_of_power_2
            (dec_count (remove_from_free_list (fst (xor_buddy_map m (addr m i) ord))
               (addr m (buddy_of ord i)) ord) ord)
            (addr m (min i (buddy_of ord i))) (ord + 1) of
       Inl e \<Rightarrow> Inl e | Inr (mem, _) \<Rightarrow> Inr (mem, 0))"
proof -
  have idx: "(addr m i - memory_start m) div PG_SIZE = of_nat i" "unat (of_nat i :: u32) = i"
    using page_index [OF g, of i] i(1) by (simp_all add: unat_of_nat32)
  have even: "(of_nat i :: u32) = push_bit (ord + 1) (drop_bit (ord + 1) (of_nat i)) \<longleftrightarrow>
    2 ^ (ord + 1) dvd i"
    unfolding even_index idx(2) ..
  have buddy: "(if (of_nat i :: u32) = push_bit (ord + 1) (drop_bit (ord + 1) (of_nat i))
      then addr m i + 2 ^ ord * PG_SIZE else addr m i - 2 ^ ord * PG_SIZE) = addr m (buddy_of ord i)"
    unfolding even using i(2)
    by (cases rule: buddy_of_cases) (auto simp: buddy_of_def addr_plus addr_minus)
  have less: "addr m (buddy_of ord i) < addr m i \<longleftrightarrow> buddy_of ord i < i"
    using unat_addr [OF g, of i] unat_addr [OF g b] i(1) by (simp add: word_less_nat_alt)
  have mn: "(if buddy_of ord i < i then addr m (buddy_of ord i) else addr m i) =
    addr m (min i (buddy_of ord i))"
    by (simp add: min_def)
  have "memory_start (fst (xor_buddy_map m (addr m i) ord)) = memory_start m" by (simp add: frame_facts)
  moreover have nle: "\<not> MAX_ORDER \<le> ord" using ord by simp
  ultimately show ?thesis
    using addr_nonzero [OF g, of i] addr_managed [OF g, of i] i(1) ord z
    by (subst free_pages_of_power_2.simps)
      (simp only: Let_def split_beta buddy less mn idx(1) if_True if_False less_imp_le simp_thms not_le
        nle fst_conv snd_conv cong: if_cong)
qed

theorem free_simulates:
  assumes "rel n m fs" "well_placed n ord i" "blk ord i \<inter> fpages fs = {}"
  shows "\<exists>m'. free_pages_of_power_2 m (addr m i) ord = Inr (m', 0) \<and> rel n m' (afree fs i ord) \<and>
    same_frame m m' \<and>
    (\<forall>k \<in> blk ord i. pages_info m' k = \<lparr>page_type = PAGE_TYPE_USABLE OR PAGE_TYPE_FREE, reference = 0\<rparr>) \<and>
    (\<forall>k. k \<notin> fpages fs \<longrightarrow> k \<notin> blk ord i \<longrightarrow> pages_info m' k = pages_info m k)"
  using assms
proof (induction fs i ord arbitrary: m rule: afree.induct)
  case (1 fs i ord)
  let ?b = "buddy_of ord i"
  let ?pg = "\<lparr>page_type = PAGE_TYPE_USABLE OR PAGE_TYPE_FREE, reference = 0\<rparr>"
  have g: "geometry n m" and a: "ainv n fs" and l: "links m fs" and c: "counts m fs" and b: "bits n m fs"
    using "1.prems"(1) by (simp_all add: rel_def)
  have w: "ord < MAX_ORDER" "2 ^ ord dvd i" "i + 2 ^ ord \<le> n" "i \<le> n"
    using "1.prems"(2) by (simp_all add: well_placed_def)
  have i: "i < n" using w(3) by (rule less_le_trans [rotated]) simp
  have fresh: "i \<notin> set (fs ord)"
    using fpages_block [OF a] "1.prems"(3) block_nonempty by (force simp: disjoint_iff)
  have bit: "snd (xor_buddy_map m (addr m i) ord) = 0 \<longleftrightarrow> ?b \<in> set (fs ord)" if "ord + 1 < MAX_ORDER"
    using b that i w(2) fresh xor_buddy_map_bits(2) [OF g i w(2)] unfolding bits_def by simp
  show ?case
  proof (cases "ord + 1 < MAX_ORDER \<and> ?b \<in> set (fs ord)")
    case False
    let ?m' = "inc_count (set_pages (attach_to_free_list (fst (xor_buddy_map m (addr m i) ord))
      (addr m i) ord) (addr m i) (2 ^ ord) ?pg) ord"
    have "free_pages_of_power_2 m (addr m i) ord = Inr (?m', 0)"
      using free_put [OF addr_nonzero [OF g w(4)] addr_managed [OF g w(4)] w(1)] bit False by blast
    moreover have "afree fs i ord = fs(ord := i # fs ord)"
      by (subst afree.simps) (simp only: False if_False)
    moreover have "rel n ?m' (fs(ord := i # fs ord))" "same_frame m ?m'"
      using rel_put [OF "1.prems"] False by blast+
    moreover have "pages_info ?m' k = (if k \<in> blk ord i then ?pg else pages_info m k)" for k
    proof -
      let ?m2 = "attach_to_free_list (fst (xor_buddy_map m (addr m i) ord)) (addr m i) ord"
      have f: "memory_start ?m2 = memory_start m" "usable_end ?m2 = usable_end m"
        by (simp_all add: frame_facts)
      have "geometry n ?m2" "addr m i = addr ?m2 i" using g f by (simp_all add: geometry_def addr_def)
      then show ?thesis
        using pages_info_set_pages [of n ?m2 i "2 ^ ord" ?pg k] w(3) by (simp add: frame_facts)
    qed
    ultimately show ?thesis
      by (intro exI [of _ ?m']) (simp del: fun_upd_apply block_mem)
  next
    case True
    then obtain xs ys where sp: "fs ord = xs @ ?b # ys" by (meson split_list)
    then have "?b \<notin> set xs" using ainvD(1) [OF a, of ord] by simp
    then have rem: "remove1 ?b (fs ord) = xs @ ys" using sp by (simp add: remove1_append)
    let ?fs = "fs(ord := xs @ ys)"
    let ?mn = "min i ?b"
    have ord: "ord + 1 < MAX_ORDER" using True by blast
    have bw: "well_placed n ord ?b" using ainvD(2) [OF a] True by blast
    then have bn: "?b \<le> n" by (simp add: well_placed_def)
    note detach = rel_detach_buddy [OF "1.prems"(1) w(2) i ord sp]
    let ?m1 = "dec_count (remove_from_free_list (fst (xor_buddy_map m (addr m i) ord)) (addr m ?b) ord) ord"
    note merge = buddy_of_merge [OF w(2)]
    have "?mn + 2 ^ (ord + 1) \<le> n"
      using w(2,3) bw by (cases rule: buddy_of_cases) (auto simp: well_placed_def)
    then have wm: "well_placed n (ord + 1) ?mn" using merge(1) ord by (simp add: well_placed_def)
    have bsub: "blk ord ?b \<subseteq> fpages fs" using fpages_block [OF a] True by blast
    have fp: "fpages ?fs = fpages fs - blk ord ?b" using take_block(2) [OF a sp] .
    have "blk (ord + 1) ?mn \<inter> fpages ?fs = {}"
      unfolding merge(2) fp using "1.prems"(3) by blast
    with "1.IH" [OF True, of ?m1] detach(1) wm obtain m' where m':
      "free_pages_of_power_2 ?m1 (addr ?m1 ?mn) (ord + 1) = Inr (m', 0)"
      "rel n m' (afree ?fs ?mn (ord + 1))" "same_frame ?m1 m'"
      "\<forall>k \<in> blk (ord + 1) ?mn. pages_info m' k = ?pg"
      "\<forall>k. k \<notin> fpages ?fs \<longrightarrow> k \<notin> blk (ord + 1) ?mn \<longrightarrow> pages_info m' k = pages_info ?m1 k"
      unfolding rem by blast
    have "addr ?m1 = addr m" using same_frame_addr [OF detach(2)] .
    then have "free_pages_of_power_2 m (addr m i) ord = Inr (m', 0)"
      using free_merge [OF g i w(2) bn ord] bit [OF ord] True m'(1) by simp
    moreover have "afree fs i ord = afree ?fs ?mn (ord + 1)"
      using True rem by (subst afree.simps) (simp only: if_True simp_thms)
    moreover have "same_frame m m'" using detach(2) m'(3) by (simp add: same_frame_def)
    moreover have "\<forall>k \<in> blk ord i. pages_info m' k = ?pg" using m'(4) unfolding merge(2) by blast
    moreover have "pages_info m' k = pages_info m k" if "k \<notin> fpages fs" "k \<notin> blk ord i" for k
      using m'(5) that bsub unfolding merge(2) fp detach(3) by blast
    ultimately show ?thesis using m'(2) by auto
  qed
qed

section \<open>The abstraction function\<close>

fun walk :: "(u32 \<Rightarrow> u32) \<Rightarrow> u32 \<Rightarrow> nat \<Rightarrow> u32 list" where
  "walk nx h 0 = []"
| "walk nx h (Suc k) = h # walk nx (nx h) k"

text \<open>The free blocks of a memory state: follow the list of each order as long as its counter says.\<close>

definition free_blocks :: "memory_info \<Rightarrow> blocks" where
  "free_blocks mem ord =
     (if ord < MAX_ORDER
      then map (GET_ID_BY_PAGE mem) (walk (bl_next mem) (free_list mem ord) (unat (free_count mem ord)))
      else [])"

definition buddy_inv :: "nat \<Rightarrow> memory_info \<Rightarrow> bool" where
  "buddy_inv n mem \<longleftrightarrow> rel n mem (free_blocks mem)"

definition free_pages :: "memory_info \<Rightarrow> nat set" where
  "free_pages mem = fpages (free_blocks mem)"

lemma walk_dll: "dll nx pv b h as \<Longrightarrow> walk nx h (length as) = as"
  by (induction as arbitrary: b h) auto

lemma free_blocks_eq:
  assumes "rel n m fs"
  shows "free_blocks m = fs"
proof
  fix ord
  have g: "geometry n m" and a: "ainv n fs" and l: "links m fs" and c: "counts m fs"
    using assms by (simp_all add: rel_def)
  show "free_blocks m ord = fs ord"
  proof (cases "ord < MAX_ORDER")
    case True
    then have "unat (free_count m ord) = length (map (addr m) (fs ord))"
      using c unat_of_nat32 [OF length_blocks [OF g a]] by (simp add: counts_def)
    moreover have "dll (bl_next m) (bl_prev m) 0 (free_list m ord) (map (addr m) (fs ord))"
      using l True by (simp add: links_def)
    ultimately have "walk (bl_next m) (free_list m ord) (unat (free_count m ord)) = map (addr m) (fs ord)"
      using walk_dll by metis
    then have "free_blocks m ord = map (\<lambda>i. GET_ID_BY_PAGE m (addr m i)) (fs ord)"
      using True by (simp add: free_blocks_def comp_def)
    also have "\<dots> = map id (fs ord)"
      using id_addr [OF g] block_le [OF a] by (intro map_cong) auto
    finally show ?thesis by simp
  next
    case False
    then show ?thesis using ainv_top [OF a, of ord] by (simp add: free_blocks_def)
  qed
qed

lemma rel_buddy_inv: "rel n m fs \<Longrightarrow> buddy_inv n m \<and> free_pages m = fpages fs"
  using free_blocks_eq [of n m fs] by (simp add: buddy_inv_def free_pages_def)

end
