(* ===== verification/Memory_Init.thy ===== *)
theory Memory_Init
  imports Buddy_Refine
begin

text \<open>
  \<open>init_memory\<close> of \<^verbatim>\<open>modules/memory/memory_init.c\<close>: the layout of the page records and of the
  buddy maps at the end of memory, and the initial free list of 4 MB blocks.

  The arrays are separate fields of the model; \<open>buddy_map_addr\<close> is where the code puts them,
  and \<open>layout_fits\<close> shows that those places do not overlap each other's start and stay inside
  the region that the code clears.
\<close>

abbreviation (input) MAX_BLOCK_SIZE :: u32 where "MAX_BLOCK_SIZE \<equiv> 0x400000"

definition ROUNDDOWN_WITH :: "u32 \<Rightarrow> u32 \<Rightarrow> u32" where
  "ROUNDDOWN_WITH s a = a AND NOT (s - 1)"

definition ROUNDUP_WITH :: "u32 \<Rightarrow> u32 \<Rightarrow> u32" where
  "ROUNDUP_WITH s a = (a + s - 1) AND NOT (s - 1)"

definition managed_pages :: "memory_info \<Rightarrow> u32" where
  "managed_pages mem = (memory_end mem - memory_start mem) div PG_SIZE"

definition buddy_bytes :: "u32 \<Rightarrow> u32" where
  "buddy_bytes pg_count = ((push_bit 11 1 - 1) * pg_count div push_bit 11 1) div 8"

fun buddy_map_addr :: "memory_info \<Rightarrow> nat \<Rightarrow> u32" where
  "buddy_map_addr mem 0 = memory_end mem - buddy_bytes (managed_pages mem)"
| "buddy_map_addr mem (Suc i) =
     buddy_map_addr mem i + drop_bit (Suc i) (managed_pages mem) div 8"

text \<open>The loop over the 4 MB blocks; the fuel bounds the number of blocks below 4 GB.\<close>

fun init_blocks :: "nat \<Rightarrow> memory_info \<Rightarrow> u32 \<Rightarrow> memory_info option" where
  "init_blocks 0 mem pg = None"
| "init_blocks (Suc fuel) mem pg =
     (if pg < usable_end mem
      then let mem = attach_to_free_list mem pg (MAX_ORDER - 1);
               mem = inc_count mem (MAX_ORDER - 1)
           in init_blocks fuel mem (pg + MAX_BLOCK_SIZE)
      else Some mem)"

definition init_page_type :: "memory_info \<Rightarrow> nat \<Rightarrow> u32" where
  "init_page_type mem i =
     (if GET_PAGE_BY_ID mem i < usable_end mem then PAGE_TYPE_FREE OR PAGE_TYPE_USABLE
      else PAGE_TYPE_INUSE OR PAGE_TYPE_SYSTEM)"

definition init_memory :: "memory_info \<Rightarrow> memory_info option" where
  "init_memory mem =
     (let pg_count = managed_pages mem;
          pg_info_size = pg_count * 8;
          mem = mem\<lparr>page_count := pg_count\<rparr>;
          mem = mem\<lparr>usable_end := ROUNDDOWN_WITH MAX_BLOCK_SIZE
                                   (memory_end mem - buddy_bytes pg_count - pg_info_size)\<rparr>;
          mem = mem\<lparr>pages_info := (\<lambda>_. \<lparr>page_type = 0, reference = 0\<rparr>), buddy_map := (\<lambda>_ _. 0)\<rparr>;
          mem = mem\<lparr>free_list := (\<lambda>ord. if ord < MAX_ORDER then 0 else free_list mem ord),
                    free_count := (\<lambda>ord. if ord < MAX_ORDER then 0 else free_count mem ord)\<rparr>
      in case init_blocks 1024 mem (memory_start mem) of
           None \<Rightarrow> None
         | Some mem \<Rightarrow>
             Some (mem\<lparr>pages_info := fold (\<lambda>i info. info(i := (info i)\<lparr>page_type := init_page_type mem i\<rparr>))
                                      [0..<unat pg_count] (pages_info mem)\<rparr>))"

section \<open>The layout at the end of memory\<close>

lemma ROUNDDOWN_block:
  "unat (ROUNDDOWN_WITH MAX_BLOCK_SIZE a) = unat a - unat a mod 0x400000"
  "unat (ROUNDDOWN_WITH MAX_BLOCK_SIZE a) mod 0x400000 = 0"
proof -
  have "a AND NOT (mask 22) = push_bit 22 (drop_bit 22 a)"
    by (rule bit_word_eqI) (auto simp: bit_simps)
  then have "ROUNDDOWN_WITH MAX_BLOCK_SIZE a = push_bit 22 (drop_bit 22 a)"
    by (simp add: ROUNDDOWN_WITH_def mask_eq_exp_minus_1)
  moreover have "push_bit 22 (drop_bit 22 a) + take_bit 22 a = a" by (rule bits_ident)
  moreover have tb: "unat (take_bit 22 a) = unat a mod 0x400000"
    by (simp add: take_bit_eq_mod unat_mod)
  ultimately have "ROUNDDOWN_WITH MAX_BLOCK_SIZE a = a - take_bit 22 a"
    by (simp add: eq_diff_eq)
  moreover from tb have "take_bit 22 a \<le> a" by (simp add: word_le_nat_alt del: take_bit_word_eq_self)
  ultimately have "unat (ROUNDDOWN_WITH MAX_BLOCK_SIZE a) = unat a - unat (take_bit 22 a)"
    by (simp only: unat_sub)
  then show "unat (ROUNDDOWN_WITH MAX_BLOCK_SIZE a) = unat a - unat a mod 0x400000"
    unfolding tb .
  then show "unat (ROUNDDOWN_WITH MAX_BLOCK_SIZE a) mod 0x400000 = 0"
    by (simp add: minus_mod_eq_mult_div)
qed

lemma unat_buddy_bytes:
  assumes "unat pg_count \<le> 2 ^ 20"
  shows "unat (buddy_bytes pg_count) = 2047 * unat pg_count div 2048 div 8"
proof -
  have "unat (2047 * pg_count) = 2047 * unat pg_count"
    using assms by (simp add: unat_word_ariths(2))
  then show ?thesis by (simp add: buddy_bytes_def unat_div)
qed

lemma unat_managed: "unat (managed_pages mem) \<le> 2 ^ 20"
proof -
  have "unat (memory_end mem - memory_start mem) div 4096 \<le> 2 ^ 20"
    using unat_lt32 [of "memory_end mem - memory_start mem"] by simp
  then show ?thesis by (simp add: managed_pages_def unat_div)
qed

text \<open>The maps of all orders fit in the bytes set aside for them.\<close>

lemma maps_fit:
  "(\<Sum>i < k. P div 2 ^ Suc i div 8) \<le> (2 ^ k - 1) * P div 2 ^ k div (8 :: nat)"
proof -
  have "(\<Sum>i < k. P div 2 ^ Suc i div 8) * (8 * 2 ^ k) \<le> (2 ^ k - 1) * P"
  proof (induction k)
    case 0
    then show ?case by simp
  next
    case (Suc k)
    let ?s = "\<Sum>i < k. P div 2 ^ Suc i div 8"
    have "P div 2 ^ Suc k div 8 * (8 * 2 ^ Suc k) \<le> P"
      by (simp add: div_mult2_eq [symmetric] del: power_Suc) (metis mult.commute times_div_less_eq_dividend)
    moreover have "?s * (8 * 2 ^ Suc k) \<le> 2 * ((2 ^ k - 1) * P)"
      using mult_le_mono2 [OF Suc, of 2] by (simp only: power_Suc ac_simps)
    ultimately have "(\<Sum>i < Suc k. P div 2 ^ Suc i div 8) * (8 * 2 ^ Suc k) \<le> 2 * ((2 ^ k - 1) * P) + P"
      unfolding sum.lessThan_Suc add_mult_distrib by (rule add_mono [rotated])
    also have "\<dots> = (2 * (2 ^ k - 1) + 1) * P" by (simp add: add_mult_distrib)
    also have "2 * (2 ^ k - 1) + 1 = (2 :: nat) ^ Suc k - 1"
      by (cases "(2 :: nat) ^ k") simp_all
    finally show ?case .
  qed
  then have "(\<Sum>i < k. P div 2 ^ Suc i div 8) * (8 * 2 ^ k) div (8 * 2 ^ k) \<le>
      (2 ^ k - 1) * P div (8 * 2 ^ k)"
    by (rule div_le_mono)
  then have "(\<Sum>i < k. P div 2 ^ Suc i div 8) \<le> (2 ^ k - 1) * P div (8 * 2 ^ k)"
    by (subst (asm) nonzero_mult_div_cancel_right) simp_all
  also have "\<dots> = (2 ^ k - 1) * P div 2 ^ k div 8" by (simp add: div_mult2_eq [symmetric] mult.commute)
  finally show ?thesis .
qed

lemma buddy_map_addr_eq:
  "buddy_map_addr mem k = memory_end mem - buddy_bytes (managed_pages mem) +
     of_nat (\<Sum>i < k. unat (managed_pages mem) div 2 ^ Suc i div 8)"
proof (induction k)
  case (Suc k)
  have "unat (drop_bit (Suc k) (managed_pages mem) div 8) =
    unat (managed_pages mem) div 2 ^ Suc k div 8"
    by (simp only: unat_div unat_drop_bit_eq) (simp only: drop_bit_eq_div unat_numeral, simp)
  then have "drop_bit (Suc k) (managed_pages mem) div 8 =
    of_nat (unat (managed_pages mem) div 2 ^ Suc k div 8)"
    by (metis of_nat_unat ucast_id)
  then show ?case using Suc by (simp only: buddy_map_addr.simps sum.lessThan_Suc of_nat_add add.assoc)
qed simp

text \<open>
  With the managed range inside the address space and room for its own tables, the page
  records end where the first map starts, the maps lie in increasing order below
  \<open>memory_end\<close>, and the usable range ends at or below the page records.
\<close>

lemma layout_fits:
  assumes "memory_start mem \<le> memory_end mem"
    and "P = unat (managed_pages mem)" and "M = unat (memory_end mem)"
    and "2047 * P div 2048 div 8 + 8 * P \<le> M" "k \<le> MAX_ORDER"
  shows "unat (buddy_map_addr mem k) = M - 2047 * P div 2048 div 8 +
      (\<Sum>i < k. P div 2 ^ Suc i div 8)"
    and "unat (buddy_map_addr mem k) \<le> M"
    and "unat (memory_end mem - buddy_bytes (managed_pages mem) - managed_pages mem * 8) + 8 * P =
      unat (buddy_map_addr mem 0)"
proof -
  let ?B = "2047 * P div 2048 div 8"
  let ?S = "\<Sum>i < k. P div 2 ^ Suc i div 8"
  have P: "P \<le> 2 ^ 20" using unat_managed assms(2) by simp
  have bb: "unat (buddy_bytes (managed_pages mem)) = ?B"
    using unat_buddy_bytes [OF unat_managed] assms(2) by simp
  have base: "unat (memory_end mem - buddy_bytes (managed_pages mem)) = M - ?B"
    using bb assms(3,4) by (subst unat_sub) (simp_all add: word_le_nat_alt)
  have "?S \<le> (\<Sum>i < MAX_ORDER. P div 2 ^ Suc i div 8)"
    using assms(5) by (intro sum_mono2) auto
  also have "\<dots> \<le> ?B" using maps_fit [of P MAX_ORDER] by simp
  finally have S: "?S \<le> ?B" .
  have "unat (memory_end mem - buddy_bytes (managed_pages mem)) + ?S < 2 ^ 32"
    using base S assms(3,4) unat_lt32 [of "memory_end mem"] by linarith
  then show e: "unat (buddy_map_addr mem k) = M - ?B + ?S"
    unfolding buddy_map_addr_eq assms(2) [symmetric] using base by (simp only: unat_le_iff_add)
  show "unat (buddy_map_addr mem k) \<le> M" unfolding e using S assms(4) by linarith
  have "unat (managed_pages mem * 8) = 8 * P" using P assms(2) by (simp add: unat_word_ariths(2))
  then show "unat (memory_end mem - buddy_bytes (managed_pages mem) - managed_pages mem * 8) + 8 * P =
      unat (buddy_map_addr mem 0)"
    using base assms(4) by (subst unat_sub) (simp_all add: word_le_nat_alt)
qed

section \<open>The initial free list\<close>

definition init_fs :: "nat \<Rightarrow> blocks" where
  "init_fs k = (\<lambda>_. [])(10 := rev (map (\<lambda>x. 1024 * x) [0..<k]))"

lemma init_fs_0: "init_fs 0 = (\<lambda>_. [])"
  by (simp add: init_fs_def fun_eq_iff)

lemma init_fs_Suc: "init_fs (Suc k) = (init_fs k)(10 := (1024 * k) # init_fs k 10)"
  by (simp add: init_fs_def)

lemma init_fs_other: "ord \<noteq> 10 \<Longrightarrow> init_fs k ord = []"
  by (simp add: init_fs_def)

lemma fpages_init_fs: "fpages (init_fs k) = {0..<1024 * k}"
proof (induction k)
  case 0
  then show ?case by (simp add: fpages_def init_fs_0)
next
  case (Suc k)
  have "x \<in> fpages (init_fs j) \<longleftrightarrow> (\<exists>i \<in> set (init_fs j 10). x \<in> blk 10 i)" for x j
  proof
    assume "x \<in> fpages (init_fs j)"
    then obtain ord i where i: "i \<in> set (init_fs j ord)" "x \<in> blk ord i"
      unfolding fpages_mem by blast
    then have "ord = 10" using init_fs_other [of ord j] by (cases "ord = 10") auto
    with i show "\<exists>i \<in> set (init_fs j 10). x \<in> blk 10 i" by blast
  next
    assume "\<exists>i \<in> set (init_fs j 10). x \<in> blk 10 i"
    then show "x \<in> fpages (init_fs j)"
      unfolding fpages_mem by (intro exI [of _ 10]) (simp del: block_mem)
  qed
  note mem = this
  have "set (init_fs (Suc k) 10) = insert (1024 * k) (set (init_fs k 10))"
    by (simp add: init_fs_Suc)
  then have "x \<in> fpages (init_fs (Suc k)) \<longleftrightarrow> x \<in> fpages (init_fs k) \<union> blk 10 (1024 * k)" for x
    unfolding Un_iff mem by (simp del: block_mem) blast
  then have "fpages (init_fs (Suc k)) = fpages (init_fs k) \<union> blk 10 (1024 * k)"
    by blast
  then show ?case using Suc by auto
qed

lemma init_blocks_step:
  assumes r: "rel n m (init_fs k)" and k: "1024 * Suc k \<le> n"
  defines "m' \<equiv> inc_count (attach_to_free_list m (addr m (1024 * k)) 10) 10"
  shows "rel n m' (init_fs (Suc k))" and "same_frame m m'"
    and "pages_info m' = pages_info m"
proof -
  let ?m1 = "attach_to_free_list m (addr m (1024 * k)) 10"
  have g: "geometry n m" and a: "ainv n (init_fs k)" and l: "links m (init_fs k)"
    and c: "counts m (init_fs k)" and b: "bits n m (init_fs k)"
    using r by (simp_all add: rel_def)
  have w: "well_placed n 10 (1024 * k)" using k by (simp add: well_placed_def)
  have "blk 10 (1024 * k) \<inter> fpages (init_fs k) = {}"
    unfolding fpages_init_fs by auto
  then have "ainv n (init_fs (Suc k))"
    unfolding init_fs_Suc using put_block(1) [OF a w] by simp
  moreover have fresh: "\<forall>ord. 1024 * k \<notin> set (init_fs k ord)"
    by (auto simp: init_fs_def)
  have "links ?m1 (init_fs (Suc k))"
    unfolding init_fs_Suc using links_attach [OF g a l _ fresh] k by simp
  then have "links m' (init_fs (Suc k))"
    using links_cong [of m' ?m1] by (simp add: m'_def frame_facts)
  moreover have "counts m' (init_fs (Suc k))"
    unfolding init_fs_Suc m'_def using counts_inc c counts_cong [of ?m1 m] by (simp add: frame_facts)
  moreover have "bits n m' (init_fs (Suc k))"
    using b by (simp add: bits_def m'_def frame_facts init_fs_other)
  moreover have "geometry n m'" using g by (simp add: m'_def geometry_def frame_facts)
  ultimately show "rel n m' (init_fs (Suc k))" by (simp add: rel_def)
  show "same_frame m m'" "pages_info m' = pages_info m"
    by (simp_all add: m'_def same_frame_def frame_facts)
qed

lemma init_blocks_ok:
  assumes "rel n m (init_fs k)" "n = 1024 * K" "k \<le> K" "K < k + fuel"
  shows "\<exists>m'. init_blocks fuel m (addr m (1024 * k)) = Some m' \<and> rel n m' (init_fs K) \<and>
    same_frame m m' \<and> pages_info m' = pages_info m"
  using assms
proof (induction fuel arbitrary: m k)
  case 0
  then show ?case by simp
next
  case (Suc fuel)
  have g: "geometry n m" using Suc.prems(1) by (simp add: rel_def)
  have less: "addr m (1024 * k) < usable_end m \<longleftrightarrow> k < K"
    using unat_addr [OF g, of "1024 * k"] g Suc.prems(2,3)
    by (simp add: word_less_nat_alt geometry_def) arith
  show ?case
  proof (cases "k < K")
    case True
    let ?m' = "inc_count (attach_to_free_list m (addr m (1024 * k)) 10) 10"
    have le: "1024 * Suc k \<le> n" using True Suc.prems(2) by simp
    note step = init_blocks_step [OF Suc.prems(1) le]
    have e: "addr ?m' = addr m" using same_frame_addr [OF step(2)] .
    have "addr m (1024 * k) + MAX_BLOCK_SIZE = addr ?m' (1024 * Suc k)"
      unfolding e by (simp add: addr_def algebra_simps)
    then have "init_blocks (Suc fuel) m (addr m (1024 * k)) =
      init_blocks fuel ?m' (addr ?m' (1024 * Suc k))"
      using True less by (simp add: Let_def)
    moreover obtain m2 where "init_blocks fuel ?m' (addr ?m' (1024 * Suc k)) = Some m2"
      "rel n m2 (init_fs K)" "same_frame ?m' m2" "pages_info m2 = pages_info ?m'"
      using Suc.IH [OF step(1) Suc.prems(2)] True Suc.prems(4) by auto
    ultimately show ?thesis using step(2,3) by (auto simp: same_frame_def)
  next
    case False
    then have "k = K" using Suc.prems(3) by simp
    then show ?thesis using Suc.prems(1) less by (simp add: same_frame_def)
  qed
qed

lemma fold_page_types:
  "fold (\<lambda>i info. info(i := (info i)\<lparr>page_type := t i\<rparr>)) [0..<N] f k =
    (if k < N then (f k)\<lparr>page_type := t k\<rparr> else f k)"
  by (induction N) (auto simp: less_Suc_eq)

text \<open>The tables never take more than the managed range, so \<open>usable_end\<close> does not wrap.\<close>

lemma usable_end_bound:
  assumes "memory_start mem \<le> memory_end mem"
  defines "P \<equiv> managed_pages mem"
  defines "U \<equiv> ROUNDDOWN_WITH MAX_BLOCK_SIZE (memory_end mem - buddy_bytes P - P * 8)"
  shows "unat U \<le> unat (memory_end mem) - 8 * unat P"
    and "unat (memory_start mem) + 4096 * unat P \<le> unat (memory_end mem)"
    and "unat (memory_end mem) < unat (memory_start mem) + 4096 * unat P + 4096"
proof -
  have P: "unat P \<le> 2 ^ 20" unfolding P_def by (rule unat_managed)
  have d: "unat P = (unat (memory_end mem) - unat (memory_start mem)) div 4096"
    using assms(1) by (simp add: P_def managed_pages_def unat_div unat_sub)
  have le: "unat (memory_start mem) \<le> unat (memory_end mem)"
    using assms(1) by (simp add: word_le_nat_alt)
  show "unat (memory_start mem) + 4096 * unat P \<le> unat (memory_end mem)"
    using le unfolding d by (simp add: mult.commute)
  then have room: "4096 * unat P \<le> unat (memory_end mem)" by simp
  show "unat (memory_end mem) < unat (memory_start mem) + 4096 * unat P + 4096"
    using le d by simp
  have bb: "unat (buddy_bytes P) = 2047 * unat P div 2048 div 8" using P by (rule unat_buddy_bytes)
  then have b: "unat (buddy_bytes P) \<le> unat P" by simp
  have p8: "unat (P * 8) = 8 * unat P" using P by (simp add: unat_word_ariths(2))
  have 1: "unat (memory_end mem - buddy_bytes P) = unat (memory_end mem) - unat (buddy_bytes P)"
    using b room by (intro unat_sub) (simp add: word_le_nat_alt)
  then have "unat (memory_end mem - buddy_bytes P - P * 8) =
    unat (memory_end mem) - unat (buddy_bytes P) - 8 * unat P"
    using b room p8 by (subst unat_sub) (simp_all add: word_le_nat_alt)
  then show "unat U \<le> unat (memory_end mem) - 8 * unat P"
    unfolding U_def ROUNDDOWN_block(1) by linarith
qed

theorem init_memory_ok:
  assumes start: "0 < unat (memory_start mem)" "unat (memory_start mem) mod 0x400000 = 0"
    and le: "memory_start mem \<le> memory_end mem"
    and usable: "U = unat (ROUNDDOWN_WITH MAX_BLOCK_SIZE
                    (memory_end mem - buddy_bytes (managed_pages mem) - managed_pages mem * 8))"
      "unat (memory_start mem) \<le> U"
    and n: "n = (U - unat (memory_start mem)) div 4096"
  shows "\<exists>m. init_memory mem = Some m \<and> buddy_inv n m \<and> free_pages m = {0..<n} \<and>
    same_frame (mem\<lparr>page_count := managed_pages mem, usable_end := of_nat U\<rparr>) m \<and>
    (\<forall>k < n. pages_info m k = \<lparr>page_type = PAGE_TYPE_FREE OR PAGE_TYPE_USABLE, reference = 0\<rparr>)"
proof -
  let ?P = "managed_pages mem"
  define uw where "uw = ROUNDDOWN_WITH MAX_BLOCK_SIZE (memory_end mem - buddy_bytes ?P - ?P * 8)"
  define m0 where "m0 = mem\<lparr>page_count := ?P, usable_end := uw,
    pages_info := (\<lambda>_. \<lparr>page_type = 0, reference = 0\<rparr>), buddy_map := (\<lambda>_ _. 0),
    free_list := (\<lambda>ord. if ord < MAX_ORDER then 0 else free_list mem ord),
    free_count := (\<lambda>ord. if ord < MAX_ORDER then 0 else free_count mem ord)\<rparr>"
  have U: "unat uw = U" using usable(1) by (simp add: uw_def)
  have Umod: "U mod 0x400000 = 0" using ROUNDDOWN_block(2) U unfolding uw_def by metis
  obtain K where K: "U - unat (memory_start mem) = 0x400000 * K"
    using start(2) Umod usable(2) by (metis dvd_diff_nat dvd_eq_mod_eq_0 dvd_def)
  then have nK: "n = 1024 * K" using n by simp
  have Kb: "K < 0 + 1024" using K U unat_lt32 [of uw] by simp
  have geo: "geometry n m0"
    using start(1) usable(2) K nK U by (simp add: geometry_def m0_def)
  have "rel n m0 (init_fs 0)"
    unfolding rel_def
  proof (intro conjI)
    show "ainv n (init_fs 0)" by (simp add: ainv_def init_fs_0)
    show "links m0 (init_fs 0)" by (simp add: links_def init_fs_0 m0_def)
    show "counts m0 (init_fs 0)" by (simp add: counts_def init_fs_0 m0_def)
    show "bits n m0 (init_fs 0)" by (simp add: bits_def init_fs_0 m0_def bit_at_def)
  qed (rule geo)
  from init_blocks_ok [OF this nK _ Kb] obtain m1 where m1:
    "init_blocks 1024 m0 (memory_start m0) = Some m1" "rel n m1 (init_fs K)" "same_frame m0 m1"
    "pages_info m1 = pages_info m0"
    by (auto simp: addr_def)
  define m where "m = m1\<lparr>pages_info := fold (\<lambda>i info. info(i := (info i)\<lparr>page_type := init_page_type m1 i\<rparr>))
    [0..<unat ?P] (pages_info m1)\<rparr>"
  have "init_memory mem = (case init_blocks 1024 m0 (memory_start m0) of None \<Rightarrow> None
    | Some m1 \<Rightarrow> Some (m1\<lparr>pages_info :=
        fold (\<lambda>i info. info(i := (info i)\<lparr>page_type := init_page_type m1 i\<rparr>))
          [0..<unat ?P] (pages_info m1)\<rparr>))"
    by (simp add: init_memory_def Let_def m0_def uw_def cong: if_cong)
  then have init: "init_memory mem = Some m" using m1(1) by (simp add: m_def)
  have "rel n m (init_fs K)"
    using m1(2) links_cong [of m m1] counts_cong [of m m1] bits_cong [of m m1]
    by (simp add: rel_def geometry_def m_def)
  then have inv: "buddy_inv n m" "free_pages m = {0..<n}"
    using rel_buddy_inv [of n m] by (simp_all add: fpages_init_fs nK)
  have "unat uw \<le> unat (memory_end mem) - 8 * unat ?P"
    "unat (memory_start mem) + 4096 * unat ?P \<le> unat (memory_end mem)"
    "unat (memory_end mem) < unat (memory_start mem) + 4096 * unat ?P + 4096"
    using usable_end_bound [OF le] unfolding uw_def by blast+
  then have nP: "n \<le> unat ?P" using n U usable(2) by linarith
  have frame: "same_frame (mem\<lparr>page_count := ?P, usable_end := of_nat U\<rparr>) m"
    using m1(3) U by (auto simp: same_frame_def m_def m0_def)
  have "pages_info m k = \<lparr>page_type = PAGE_TYPE_FREE OR PAGE_TYPE_USABLE, reference = 0\<rparr>" if "k < n" for k
  proof -
    have g1: "geometry n m1" using m1(2) by (simp add: rel_def)
    have "unat (addr m1 k) < unat (usable_end m1)"
      using unat_addr [OF g1, of k] that g1 by (simp add: geometry_def)
    then have "init_page_type m1 k = PAGE_TYPE_FREE OR PAGE_TYPE_USABLE"
      by (simp add: init_page_type_def GET_PAGE_BY_ID_def addr_def word_less_nat_alt)
    then show ?thesis using that nP m1(4) by (simp add: m_def fold_page_types m0_def)
  qed
  then show ?thesis using init inv frame by blast
qed

end
