(* ===== verification/Page_Allocator.thy ===== *)
theory Page_Allocator
  imports Memory_Init
begin

text \<open>
  What \<open>page_alloc\<close> and \<open>page_free\<close> promise to the memory server: the total correctness of
  both on every well-formed state, the interface \<open>page_source\<close> that the paging code uses, and
  what follows for a client that allocates and releases in any order.
\<close>

section \<open>Orders\<close>

lemma order_of_pages_least:
  assumes "0 < unat pages" "unat pages \<le> 2 ^ 31"
  shows "unat pages \<le> 2 ^ order_of_pages pages" and "unat pages \<le> 2 ^ j \<Longrightarrow> order_of_pages pages \<le> j"
proof -
  obtain k where k: "trailing_zero (round_up_power_2 pages) = Some k" "unat pages \<le> 2 ^ k"
    "\<forall>j. unat pages \<le> 2 ^ j \<longrightarrow> k \<le> j"
    using assms by (rule trailing_zero_round_up)
  then have "order_of_pages pages = k" by (simp add: order_of_pages_def)
  then show "unat pages \<le> 2 ^ order_of_pages pages"
    "unat pages \<le> 2 ^ j \<Longrightarrow> order_of_pages pages \<le> j"
    using k(2,3) by simp_all
qed

lemma order_of_pages_one: "order_of_pages 1 = 0"
  using order_of_pages_least(2) [of 1 0] by simp

section \<open>Allocation and release\<close>

text \<open>An aligned run of \<open>2 ^ ord\<close> free pages exists.\<close>

definition has_run :: "memory_info \<Rightarrow> nat \<Rightarrow> bool" where
  "has_run mem ord \<longleftrightarrow> ord < MAX_ORDER \<and> (\<exists>i. 2 ^ ord dvd i \<and> blk ord i \<subseteq> free_pages mem)"

definition takes :: "nat \<Rightarrow> memory_info \<Rightarrow> nat \<Rightarrow> u32 \<Rightarrow> nat \<Rightarrow> memory_info \<Rightarrow> bool" where
  "takes n m ord attr i m' \<longleftrightarrow>
     well_placed n ord i \<and> blk ord i \<subseteq> free_pages m \<and> buddy_inv n m' \<and>
     free_pages m' = free_pages m - blk ord i \<and> same_frame m m' \<and>
     (\<forall>k \<in> blk ord i. pages_info m' k = \<lparr>page_type = attr, reference = 1\<rparr>) \<and>
     (\<forall>k. k \<notin> free_pages m \<longrightarrow> pages_info m' k = pages_info m k)"

definition gives_back :: "nat \<Rightarrow> memory_info \<Rightarrow> nat \<Rightarrow> nat \<Rightarrow> memory_info \<Rightarrow> bool" where
  "gives_back n m ord i m' \<longleftrightarrow>
     buddy_inv n m' \<and> free_pages m' = free_pages m \<union> blk ord i \<and> same_frame m m' \<and>
     (\<forall>k \<in> blk ord i. pages_info m' k =
        \<lparr>page_type = PAGE_TYPE_USABLE OR PAGE_TYPE_FREE, reference = 0\<rparr>) \<and>
     (\<forall>k. k \<notin> free_pages m \<longrightarrow> k \<notin> blk ord i \<longrightarrow> pages_info m' k = pages_info m k)"

lemma inv_rel: "buddy_inv n m \<Longrightarrow> rel n m (free_blocks m)"
  by (simp add: buddy_inv_def)

lemma inv_geometry: "buddy_inv n m \<Longrightarrow> geometry n m"
  by (simp add: buddy_inv_def rel_def)

lemma inv_ainv: "buddy_inv n m \<Longrightarrow> ainv n (free_blocks m)"
  by (simp add: buddy_inv_def rel_def)

lemma free_pages_bound: "buddy_inv n m \<Longrightarrow> free_pages m \<subseteq> {..<n}"
  using ainvD(2) [OF inv_ainv] unfolding free_pages_def fpages_def well_placed_def by fastforce

lemma allocate_cases:
  assumes "buddy_inv n m"
  shows "if has_run m ord
    then \<exists>i m'. allocate_pages_of_power_2 m ord attr = (m', addr m i) \<and> takes n m ord attr i m'
    else allocate_pages_of_power_2 m ord attr = (m, 0)"
proof -
  have a: "ainv n (free_blocks m)" using inv_ainv [OF assms] .
  have sim: "case aalloc (free_blocks m) ord of
      None \<Rightarrow> allocate_pages_of_power_2 m ord attr = (m, 0)
    | Some (i, fs') \<Rightarrow> \<exists>m'. allocate_pages_of_power_2 m ord attr = (m', addr m i) \<and>
        alloc_post n m ord attr i (free_blocks m) fs' m'"
    using allocate_simulates [OF inv_rel [OF assms]] .
  have top: "aalloc (free_blocks m) ord = None" if "MAX_ORDER \<le> ord"
    using that by (subst aalloc.simps) simp
  show ?thesis
  proof (cases "aalloc (free_blocks m) ord")
    case None
    then have "\<not> has_run m ord"
      using aalloc_None_iff [OF a, of ord] by (auto simp: has_run_def free_pages_def)
    then show ?thesis using sim None by simp
  next
    case (Some r)
    obtain i fs' where r: "aalloc (free_blocks m) ord = Some (i, fs')" using Some by (cases r) auto
    have ok: "well_placed n ord i" "blk ord i \<subseteq> fpages (free_blocks m)"
      "fpages fs' = fpages (free_blocks m) - blk ord i"
      using aalloc_correct [OF a r] by blast+
    obtain m' where m': "allocate_pages_of_power_2 m ord attr = (m', addr m i)"
      "alloc_post n m ord attr i (free_blocks m) fs' m'"
      using sim r by auto
    have "ord < MAX_ORDER" using top r not_le by fastforce
    then have "has_run m ord"
      using ok(1,2) unfolding has_run_def free_pages_def well_placed_def by blast
    moreover have "takes n m ord attr i m'"
      using m'(2) ok rel_buddy_inv [of n m' fs'] unfolding takes_def alloc_post_def free_pages_def [of m]
      by blast
    ultimately show ?thesis using m'(1) by auto
  qed
qed

lemma free_cases:
  assumes "buddy_inv n m" "well_placed n ord i" "blk ord i \<inter> free_pages m = {}"
  shows "\<exists>m'. free_pages_of_power_2 m (addr m i) ord = Inr (m', 0) \<and> gives_back n m ord i m'"
proof -
  have n: "1024 dvd n" using inv_geometry [OF assms(1)] by (simp add: geometry_def)
  have af: "fpages (afree (free_blocks m) i ord) = free_pages m \<union> blk ord i"
    using afree_correct [OF inv_ainv [OF assms(1)] assms(2) _ n] assms(3) by (simp add: free_pages_def)
  from free_simulates [OF inv_rel [OF assms(1)] assms(2)] assms(3)
  obtain m' where m': "free_pages_of_power_2 m (addr m i) ord = Inr (m', 0)"
    "rel n m' (afree (free_blocks m) i ord)" "same_frame m m'"
    "\<forall>k \<in> blk ord i. pages_info m' k =
      \<lparr>page_type = PAGE_TYPE_USABLE OR PAGE_TYPE_FREE, reference = 0\<rparr>"
    "\<forall>k. k \<notin> free_pages m \<longrightarrow> k \<notin> blk ord i \<longrightarrow> pages_info m' k = pages_info m k"
    unfolding free_pages_def by blast
  then have "buddy_inv n m'" "free_pages m' = free_pages m \<union> blk ord i"
    using rel_buddy_inv [OF m'(2)] af by simp_all
  then show ?thesis using m' unfolding gives_back_def by blast
qed

section \<open>The interface of the paging code\<close>

text \<open>
  The paging code takes and returns single pages. A provider keeps an invariant, has a set of
  free page addresses, either refuses without a change or hands out a free page, and takes a
  page back that is in use.
\<close>

locale page_source =
  fixes take_page :: "'s \<Rightarrow> u32 \<Rightarrow> 's \<times> u32"
    and put_page :: "'s \<Rightarrow> u32 \<Rightarrow> ('s \<times> nat) res"
    and good :: "'s \<Rightarrow> bool"
    and managed :: "'s \<Rightarrow> u32 set"
    and avail :: "'s \<Rightarrow> u32 set"
  assumes take_page_cases: "good s \<Longrightarrow>
      if avail s = {} then take_page s attr = (s, 0)
      else \<exists>s' p. take_page s attr = (s', p) \<and> p \<in> avail s \<and> good s' \<and>
        avail s' = avail s - {p} \<and> managed s' = managed s"
    and put_page_ok: "good s \<Longrightarrow> p \<in> managed s \<Longrightarrow> p \<notin> avail s \<Longrightarrow>
      \<exists>s'. put_page s p = Inr (s', 0) \<and> good s' \<and> avail s' = insert p (avail s) \<and> managed s' = managed s"
    and avail_managed: "good s \<Longrightarrow> avail s \<subseteq> managed s"
    and managed_nonzero: "good s \<Longrightarrow> 0 \<notin> managed s"
begin

lemma take_page_fresh:
  "good s \<Longrightarrow> take_page s attr = (s', p) \<Longrightarrow> p \<noteq> 0 \<Longrightarrow>
   p \<in> avail s \<and> good s' \<and> avail s' = avail s - {p} \<and> managed s' = managed s"
  using take_page_cases [of s attr] by (auto split: if_splits)

lemma take_page_null:
  "good s \<Longrightarrow> take_page s attr = (s', p) \<Longrightarrow> p = 0 \<longleftrightarrow> avail s = {}"
  using take_page_cases [of s attr] avail_managed [of s] managed_nonzero [of s]
  by (auto split: if_splits)

lemma take_page_good:
  "good s \<Longrightarrow> take_page s attr = (s', p) \<Longrightarrow> good s' \<and> avail s' \<subseteq> avail s \<and> managed s' = managed s"
  using take_page_cases [of s attr] by (auto split: if_splits)

text \<open>Taking several pages one after the other.\<close>

fun take_many :: "'s \<Rightarrow> u32 list \<Rightarrow> 's \<times> u32 list" where
  "take_many s [] = (s, [])"
| "take_many s (attr # attrs) =
     (let (s, p) = take_page s attr; (s, ps) = take_many s attrs in (s, p # ps))"

lemma take_many_distinct:
  "good s \<Longrightarrow> take_many s attrs = (s', ps) \<Longrightarrow> 0 \<notin> set ps \<Longrightarrow>
   good s' \<and> distinct ps \<and> set ps \<subseteq> avail s \<and> avail s' = avail s - set ps"
proof (induction attrs arbitrary: s s' ps)
  case Nil
  then show ?case by auto
next
  case (Cons attr attrs)
  obtain s1 p where t: "take_page s attr = (s1, p)" by (cases "take_page s attr")
  obtain s2 qs where q: "take_many s1 attrs = (s2, qs)" by (cases "take_many s1 attrs")
  have eq: "s' = s2" "ps = p # qs" using Cons.prems(2) t q by simp_all
  have "p \<noteq> 0" "0 \<notin> set qs" using Cons.prems(3) eq by auto
  then show ?case
    using take_page_fresh [OF Cons.prems(1) t] Cons.IH [OF _ q] eq by auto
qed

lemma take_put:
  assumes "good s" "take_page s attr = (s', p)" "p \<noteq> 0"
  shows "\<exists>s''. put_page s' p = Inr (s'', 0) \<and> good s'' \<and> avail s'' = avail s"
proof -
  have t: "p \<in> avail s" "good s'" "avail s' = avail s - {p}" "managed s' = managed s"
    using take_page_fresh [OF assms] by blast+
  then have "p \<in> managed s'" "p \<notin> avail s'" using avail_managed [OF assms(1)] by auto
  then show ?thesis using put_page_ok [OF t(2)] t(1,3) by (metis insert_Diff)
qed

end

definition page_addrs :: "nat \<Rightarrow> memory_info \<Rightarrow> u32 set" where
  "page_addrs n mem = addr mem ` {..<n}"

definition free_page_addrs :: "memory_info \<Rightarrow> u32 set" where
  "free_page_addrs mem = addr mem ` free_pages mem"

lemma blk_0 [simp]: "blk 0 i = {i}"
  by auto

lemma page_alloc_1_cases:
  assumes "buddy_inv n m"
  shows "if free_page_addrs m = {} then page_alloc m 1 attr = (m, 0)
    else \<exists>m' p. page_alloc m 1 attr = (m', p) \<and> p \<in> free_page_addrs m \<and> buddy_inv n m' \<and>
      free_page_addrs m' = free_page_addrs m - {p} \<and> page_addrs n m' = page_addrs n m"
proof -
  have run: "has_run m 0 \<longleftrightarrow> free_page_addrs m \<noteq> {}"
    by (auto simp: has_run_def free_page_addrs_def)
  show ?thesis
  proof (cases "has_run m 0")
    case False
    then show ?thesis
      using allocate_cases [OF assms, of 0 attr] run by (simp add: page_alloc_def order_of_pages_one)
  next
    case True
    then obtain i m' where al: "page_alloc m 1 attr = (m', addr m i)" and t: "takes n m 0 attr i m'"
      using allocate_cases [OF assms, of 0 attr] by (auto simp: page_alloc_def order_of_pages_one)
    have t: "well_placed n 0 i" "i \<in> free_pages m" "buddy_inv n m'" "free_pages m' = free_pages m - {i}"
      "same_frame m m'"
      using t unfolding takes_def blk_0 by simp_all
    have e: "addr m' = addr m" using same_frame_addr [OF t(5)] .
    have inj: "inj_on (addr m) {..<n}"
      using addr_inj [OF inv_geometry [OF assms]] by (intro inj_onI) auto
    have "addr m ` (free_pages m - {i}) = addr m ` free_pages m - {addr m i}"
      using inj_on_image_set_diff [OF inj, of "free_pages m" "{i}"] free_pages_bound [OF assms] t(2)
      by auto
    then have "free_page_addrs m' = free_page_addrs m - {addr m i}"
      unfolding free_page_addrs_def e t(4) .
    then show ?thesis
      using al t(2,3) run True e by (auto simp: free_page_addrs_def page_addrs_def)
  qed
qed

lemma page_free_1_ok:
  assumes "buddy_inv n m" "p \<in> page_addrs n m" "p \<notin> free_page_addrs m"
  shows "\<exists>m'. page_free m p 1 = Inr (m', 0) \<and> buddy_inv n m' \<and>
    free_page_addrs m' = insert p (free_page_addrs m) \<and> page_addrs n m' = page_addrs n m"
proof -
  obtain i where i: "i < n" "p = addr m i" using assms(2) by (auto simp: page_addrs_def)
  have "i \<notin> free_pages m" using assms(3) i by (auto simp: free_page_addrs_def)
  then obtain m' where m': "page_free m p 1 = Inr (m', 0)" "gives_back n m 0 i m'"
    using free_cases [OF assms(1), of 0 i] i
    by (auto simp: page_free_def order_of_pages_one well_placed_def)
  then have g: "buddy_inv n m'" "free_pages m' = insert i (free_pages m)" "same_frame m m'"
    by (auto simp: gives_back_def)
  have "addr m' = addr m" using same_frame_addr [OF g(3)] .
  then show ?thesis using m'(1) g i by (auto simp: free_page_addrs_def page_addrs_def)
qed

text \<open>The buddy allocator provides the interface, for each size of the managed range.\<close>

interpretation buddy: page_source
  "\<lambda>(n, m) attr. let (m, p) = page_alloc m 1 attr in ((n, m), p)"
  "\<lambda>(n, m) p. case page_free m p 1 of Inl e \<Rightarrow> Inl e | Inr (m, r) \<Rightarrow> Inr ((n, m), r)"
  "\<lambda>(n, m). buddy_inv n m" "\<lambda>(n, m). page_addrs n m" "\<lambda>(n, m). free_page_addrs m"
proof (unfold_locales, goal_cases)
  case (1 s attr)
  then show ?case
    using page_alloc_1_cases [of "fst s" "snd s" attr] by (cases s) (auto split: if_splits)
next
  case (2 s p)
  then show ?case using page_free_1_ok [of "fst s" "snd s" p] by (cases s) auto
next
  case (3 s)
  then show ?case
    using free_pages_bound [of "fst s" "snd s"]
    by (cases s) (auto simp: free_page_addrs_def page_addrs_def)
next
  case (4 s)
  then show ?case
    using addr_nonzero [OF inv_geometry, of "fst s" "snd s"]
    by (cases s) (auto simp: page_addrs_def)
qed

section \<open>Clients\<close>






lemma page_alloc_cases:
  assumes "buddy_inv n m"
  shows "if has_run m (order_of_pages pages)
    then \<exists>i m'. page_alloc m pages attr = (m', addr m i) \<and> takes n m (order_of_pages pages) attr i m'
    else page_alloc m pages attr = (m, 0)"
  unfolding page_alloc_def by (rule allocate_cases [OF assms])

lemma page_alloc_nonnull:
  assumes "buddy_inv n m" "page_alloc m pages attr = (m', p)" "p \<noteq> 0"
  obtains i where "p = addr m i" "takes n m (order_of_pages pages) attr i m'"
proof -
  have "has_run m (order_of_pages pages)"
    using page_alloc_cases [OF assms(1), of pages attr] assms(2,3) by (auto split: if_splits)
  then show thesis
    using page_alloc_cases [OF assms(1), of pages attr] assms(2) that by auto
qed





lemma same_free_same_lists:
  assumes "buddy_inv n m" "buddy_inv n m'" "free_pages m = free_pages m'" "ord < MAX_ORDER"
  shows "set (free_blocks m ord) = set (free_blocks m' ord)" and "free_count m ord = free_count m' ord"
proof -
  show s: "set (free_blocks m ord) = set (free_blocks m' ord)"
    using coalesced_unique [OF inv_ainv [OF assms(1)] inv_ainv [OF assms(2)]] assms(3)
    by (simp add: free_pages_def)
  have "length (free_blocks m ord) = length (free_blocks m' ord)"
    using s ainvD(1) [OF inv_ainv [OF assms(1)]] ainvD(1) [OF inv_ainv [OF assms(2)]]
    by (metis distinct_card)
  then show "free_count m ord = free_count m' ord"
    using inv_rel [OF assms(1)] inv_rel [OF assms(2)] assms(4) by (simp add: rel_def counts_def)
qed

section \<open>A concrete machine\<close>

text \<open>32 MB of memory with the kernel's own 16 MB below the managed range, as \<^verbatim>\<open>core.c\<close> sets it up.\<close>

definition boot_info :: memory_info where
  "boot_info = \<lparr>free_list = (\<lambda>_. 0), free_count = (\<lambda>_. 0), buddy_map = (\<lambda>_ _. 0),
     memory_start = 0x1000000, memory_end = 0x2000000, usable_end = 0, page_count = 0,
     pages_info = (\<lambda>_. \<lparr>page_type = 0, reference = 0\<rparr>), bl_prev = (\<lambda>_. 0), bl_next = (\<lambda>_. 0)\<rparr>"

definition boot_mem :: memory_info where
  "boot_mem = (case init_memory boot_info of Some m \<Rightarrow> m | None \<Rightarrow> boot_info)"

lemma boot_mem_ok:
  "init_memory boot_info = Some boot_mem" "buddy_inv 3072 boot_mem" "free_pages boot_mem = {0..<3072}"
  "memory_start boot_mem = 0x1000000" "page_count boot_mem = 4096"
proof -
  have U: "unat (ROUNDDOWN_WITH MAX_BLOCK_SIZE (memory_end boot_info -
      buddy_bytes (managed_pages boot_info) - managed_pages boot_info * 8)) = 0x1C00000"
    by (simp add: boot_info_def managed_pages_def buddy_bytes_def ROUNDDOWN_WITH_def)
  obtain m where m: "init_memory boot_info = Some m" "buddy_inv 3072 m" "free_pages m = {0..<3072}"
    "same_frame (boot_info\<lparr>page_count := managed_pages boot_info, usable_end := of_nat 0x1C00000\<rparr>) m"
    using init_memory_ok [of boot_info "0x1C00000" 3072] U by (auto simp: boot_info_def)
  moreover have "boot_mem = m" using m(1) by (simp add: boot_mem_def)
  ultimately show "init_memory boot_info = Some boot_mem" "buddy_inv 3072 boot_mem"
    "free_pages boot_mem = {0..<3072}" "memory_start boot_mem = 0x1000000" "page_count boot_mem = 4096"
    by (simp_all add: same_frame_def boot_info_def managed_pages_def)
qed

lemma boot_has_run: "has_run boot_mem 0"
  by (simp add: has_run_def boot_mem_ok(3) exI [of _ 0])

lemma boot_alloc:
  obtains m i where "page_alloc boot_mem 1 attr = (m, addr boot_mem i)" "addr boot_mem i \<noteq> 0"
    "takes 3072 boot_mem 0 attr i m" "buddy_inv 3072 m" "well_placed 3072 0 i"
proof -
  obtain m i where m: "page_alloc boot_mem 1 attr = (m, addr boot_mem i)" "takes 3072 boot_mem 0 attr i m"
    using page_alloc_cases [OF boot_mem_ok(2), of 1 attr] boot_has_run by (auto simp: order_of_pages_one)
  then have w: "buddy_inv 3072 m" "well_placed 3072 0 i" by (simp_all add: takes_def)
  then have "addr boot_mem i \<noteq> 0"
    using addr_nonzero [OF inv_geometry [OF boot_mem_ok(2)]] by (simp add: well_placed_def)
  then show thesis using that m w by blast
qed

section \<open>Properties\<close>





text \<open>
  Releasing a block right after its allocation puts the free lists back: at every order
  the same set of free blocks and the same counter as before.
\<close>

theorem page_alloc_free_roundtrip:
  assumes "buddy_inv n m" "page_alloc m pages attr = (m', p)" "p \<noteq> 0"
  shows "\<exists>m''. page_free m' p pages = Inr (m'', 0) \<and>
    (\<forall>ord < MAX_ORDER. set (free_blocks m'' ord) = set (free_blocks m ord) \<and>
       free_count m'' ord = free_count m ord)"
proof -
  obtain i where i: "p = addr m i" "takes n m (order_of_pages pages) attr i m'"
    using page_alloc_nonnull [OF assms] .
  then have t: "well_placed n (order_of_pages pages) i" "buddy_inv n m'"
    "blk (order_of_pages pages) i \<subseteq> free_pages m" "same_frame m m'"
    "free_pages m' = free_pages m - blk (order_of_pages pages) i"
    by (simp_all add: takes_def)
  have p: "p = addr m' i" using i(1) same_frame_addr [OF t(4)] by simp
  have "blk (order_of_pages pages) i \<inter> free_pages m' = {}" unfolding t(5) by blast
  from free_cases [OF t(2,1) this] obtain m'' where m'': "page_free m' p pages = Inr (m'', 0)"
    "gives_back n m' (order_of_pages pages) i m''" unfolding page_free_def p by blast
  have "free_pages m'' = free_pages m" "buddy_inv n m''"
    using m''(2) t(3,5) unfolding gives_back_def by blast+
  then show ?thesis using same_free_same_lists [OF _ assms(1)] m''(1) by blast
qed

theorem page_alloc_free_roundtrip_witness:
  "\<exists>m p m''. page_alloc boot_mem 1 0 = (m, p) \<and> p \<noteq> 0 \<and> page_free m p 1 = Inr (m'', 0) \<and>
     free_count m'' 10 = free_count boot_mem 10"
proof -
  obtain m i where "page_alloc boot_mem 1 0 = (m, addr boot_mem i)" "addr boot_mem i \<noteq> 0"
    by (rule boot_alloc)
  then show ?thesis using page_alloc_free_roundtrip [OF boot_mem_ok(2)] by force
qed



text \<open>
  \<open>init_memory\<close>, on a range that starts at a 4 MB boundary and has room for its tables,
  ends with every page below \<open>usable_end\<close> free in blocks of the top order, the records of
  these pages marked free, and the allocator's invariant established. The fuel of the model's
  loop always suffices.
\<close>

theorem init_memory_establishes:
  assumes "0 < unat (memory_start mem)" "unat (memory_start mem) mod 0x400000 = 0"
    and "memory_start mem \<le> memory_end mem"
    and "U = unat (ROUNDDOWN_WITH MAX_BLOCK_SIZE
               (memory_end mem - buddy_bytes (managed_pages mem) - managed_pages mem * 8))"
    and "unat (memory_start mem) \<le> U"
  shows "\<exists>m. init_memory mem = Some m \<and> buddy_inv ((U - unat (memory_start mem)) div 4096) m \<and>
    free_pages m = {0..<(U - unat (memory_start mem)) div 4096} \<and>
    (\<forall>k < (U - unat (memory_start mem)) div 4096.
       pages_info m k = \<lparr>page_type = PAGE_TYPE_FREE OR PAGE_TYPE_USABLE, reference = 0\<rparr>)"
  using init_memory_ok [OF assms(1-5) refl] by blast

theorem init_memory_establishes_witness:
  "\<exists>m. init_memory boot_info = Some m \<and> buddy_inv 3072 m \<and> free_pages m = {0..<3072}"
proof -
  have "unat (ROUNDDOWN_WITH MAX_BLOCK_SIZE (memory_end boot_info -
      buddy_bytes (managed_pages boot_info) - managed_pages boot_info * 8)) = 0x1C00000"
    by (simp add: boot_info_def managed_pages_def buddy_bytes_def ROUNDDOWN_WITH_def)
  then show ?thesis
    using init_memory_establishes [of boot_info "0x1C00000"] by (auto simp: boot_info_def)
qed

end
