(* ===== verification/Kernel_State.thy ===== *)
theory Kernel_State
  imports Bitset
begin

text \<open>
  The kernel's shared data: the structures of \<^verbatim>\<open>header/generic/typedefs.h\<close> and
  \<^verbatim>\<open>header/core/interrupt.h\<close>, the status bits of \<^verbatim>\<open>header/core/process.h\<close>, the address
  translation of \<^verbatim>\<open>header/core/paging.h\<close>, and the globals of \<^verbatim>\<open>core/process.c\<close> and
  \<^verbatim>\<open>core/interrupt.c\<close> as one record.

  A \<open>process *\<close> points into \<open>proc_table\<close>, so it is the index of the slot, and NULL is \<open>None\<close>.
  Page directories and tables are words by address. Messages are kept as whole objects by
  physical address: the model does not let two messages overlap partially.
\<close>

section \<open>Messages\<close>

text \<open>\<open>m_ready\<close> is the one-bit and \<open>m_type\<close> the 31-bit part of the bit field.\<close>

record message =
  m_sender :: u32
  m_receiver :: u32
  m_ready :: bool
  m_type :: u32
  m_major :: u32
  m_d1 :: u32
  m_d2 :: u32
  m_d3 :: u32
  m_d4 :: u32

abbreviation (input) MSG_INTERRUPT :: u32 where "MSG_INTERRUPT \<equiv> 0x7FFFFFFF"
abbreviation (input) MSG_EXCEPTION :: u32 where "MSG_EXCEPTION \<equiv> 0x7EEEEEEE"
abbreviation (input) PROC_ANY :: u32 where "PROC_ANY \<equiv> 0xFFFFFFFE"
abbreviation (input) PROC_INTERRUPT :: u32 where "PROC_INTERRUPT \<equiv> 0xFFFFFFFF"

section \<open>Processes\<close>

record stack_frame =
  sf_gs :: u16
  sf_fs :: u16
  sf_es :: u16
  sf_ds :: u16
  sf_edi :: u32
  sf_esi :: u32
  sf_ebp :: u32
  sf_oesp :: u32
  sf_ebx :: u32
  sf_edx :: u32
  sf_ecx :: u32
  sf_eax :: u32
  sf_trap_no :: u32
  sf_err_code :: u32
  sf_eip :: u32
  sf_cs :: u16
  sf_eflags :: u32
  sf_esp :: u32
  sf_ss :: u16

record prog_info =
  program_size :: u32
  program_break :: u32
  image_start :: u32
  break_page_end :: u32

record process =
  stack :: stack_frame
  page_dir :: u32
  status :: u32
  pid :: u32
  parent_pid :: u32
  proc_name :: "u8 list"
  pstack :: u32
  pstack_size :: u32
  exit_status :: u32
  p_msg :: u32
  queue_head :: "nat option"
  queue_body :: "nat option"
  next_proc :: "nat option"
  proc_prog :: "prog_info option"

abbreviation (input) PROC_STATUS_RUNNING :: u32 where "PROC_STATUS_RUNNING \<equiv> 0x001"
abbreviation (input) PROC_STATUS_GOTINT :: u32 where "PROC_STATUS_GOTINT \<equiv> 0x004"
abbreviation (input) PROC_STATUS_GOTEXC :: u32 where "PROC_STATUS_GOTEXC \<equiv> 0x008"
abbreviation (input) PROC_STATUS_NORMAL :: u32 where "PROC_STATUS_NORMAL \<equiv> 0x000"
abbreviation (input) PROC_STATUS_SUSPEND :: u32 where "PROC_STATUS_SUSPEND \<equiv> 0x000"
abbreviation (input) PROC_STATUS_STOP :: u32 where "PROC_STATUS_STOP \<equiv> 0x010"
abbreviation (input) PROC_STATUS_ERROR :: u32 where "PROC_STATUS_ERROR \<equiv> 0x020"
abbreviation (input) PROC_STATUS_SENDING :: u32 where "PROC_STATUS_SENDING \<equiv> 0x040"
abbreviation (input) PROC_STATUS_RECEVING :: u32 where "PROC_STATUS_RECEVING \<equiv> 0x080"
abbreviation (input) PROC_STATUS_WATING :: u32 where "PROC_STATUS_WATING \<equiv> 0x100"
abbreviation (input) PROC_STATUS_HANGING :: u32 where "PROC_STATUS_HANGING \<equiv> 0x200"

definition has :: "u32 \<Rightarrow> u32 \<Rightarrow> bool" where
  "has st flag \<longleftrightarrow> st AND flag \<noteq> 0"

definition set_flag :: "u32 \<Rightarrow> u32 \<Rightarrow> u32" where
  "set_flag flag st = st OR flag"

definition clear_flag :: "u32 \<Rightarrow> u32 \<Rightarrow> u32" where
  "clear_flag flag st = st AND NOT flag"

lemma has_set_flag [simp]: "has (set_flag g st) f \<longleftrightarrow> has st f \<or> has g f"
  by (simp add: has_def set_flag_def bit.conj_disj_distrib2 or_eq_0_iff)

lemma has_clear_flag [simp]: "has (clear_flag g st) f \<longleftrightarrow> has st (f AND NOT g)"
  by (simp add: has_def clear_flag_def and.assoc and.commute and.left_commute)

lemma has_0 [simp]: "\<not> has st 0" "\<not> has 0 f"
  by (simp_all add: has_def)

lemma has_numeral [simp]:
  "has (numeral a) (numeral b) \<longleftrightarrow> numeral a AND (numeral b :: u32) \<noteq> 0"
  "has 1 (numeral b) \<longleftrightarrow> 1 AND (numeral b :: u32) \<noteq> 0"
  "has (numeral a) 1 \<longleftrightarrow> numeral a AND (1 :: u32) \<noteq> 0"
  "has 1 1"
  by (simp_all add: has_def)

lemma has_flag [bit_facts]:
  "has st PROC_STATUS_RUNNING = bit st 0"
  "has st PROC_STATUS_GOTINT = bit st 2"
  "has st PROC_STATUS_GOTEXC = bit st 3"
  "has st PROC_STATUS_STOP = bit st 4"
  "has st PROC_STATUS_ERROR = bit st 5"
  "has st PROC_STATUS_SENDING = bit st 6"
  "has st PROC_STATUS_RECEVING = bit st 7"
  "has st PROC_STATUS_WATING = bit st 8"
  "has st PROC_STATUS_HANGING = bit st 9"
  using and_single_eq_0 [of st 0] and_single_eq_0 [of st 2] and_single_eq_0 [of st 3]
    and_single_eq_0 [of st 4] and_single_eq_0 [of st 5] and_single_eq_0 [of st 6]
    and_single_eq_0 [of st 7] and_single_eq_0 [of st 8] and_single_eq_0 [of st 9]
  by (simp_all add: has_def)

section \<open>Interrupts\<close>

record interrupt_method =
  im_pid :: u32
  im_func :: u32
  im_data :: u32
  im_avail :: u32

record interrupt_data =
  avail :: u32
  idata :: u32

section \<open>Address translation\<close>

abbreviation (input) PG_Present :: u32 where "PG_Present \<equiv> 0x0001"
abbreviation (input) PG_Writable :: u32 where "PG_Writable \<equiv> 0x0002"
abbreviation (input) PG_User :: u32 where "PG_User \<equiv> 0x0004"
abbreviation (input) PG_PS :: u32 where "PG_PS \<equiv> 0x0080"
abbreviation (input) PG_OS_SYS :: u32 where "PG_OS_SYS \<equiv> 0x0200"

type_synonym ptmem = "u32 \<Rightarrow> u32"

definition vir2phy :: "ptmem \<Rightarrow> u32 \<Rightarrow> u32 \<Rightarrow> u32" where
  "vir2phy mem pg_dir va =
     (let pde = mem (pg_dir + 4 * drop_bit 22 va)
      in if pde AND PG_Present = 0 then 0
         else if pde AND PG_PS \<noteq> 0 then (pde AND NOT 0xFFF) + (va AND 0x3FFFFF)
         else let pte = mem ((pde AND NOT 0xFFF) + 4 * (drop_bit 12 va AND 0x3FF))
              in (pte AND NOT 0xFFF) + (va AND 0xFFF))"

section \<open>The kernel state\<close>

record kernel =
  proc_table :: "nat \<Rightarrow> process"
  proc_max :: nat
  proc_running :: "nat option"
  proc_list :: "nat option"
  proc_count :: u32
  proc_bitmap :: bitset
  proc_bitmap_size :: nat
  page_tables :: ptmem
  msgs :: "u32 \<Rightarrow> message"
  beats :: u32
  interrupt_methods :: "nat \<Rightarrow> interrupt_method"
  interrupt_suscribed :: "nat \<Rightarrow> u32"
  interrupt_suscribed_data :: "nat \<Rightarrow> interrupt_data"
  exception_suscribed :: "nat \<Rightarrow> u32"
  exception_suscribed_data :: "nat \<Rightarrow> interrupt_data"

definition upd_proc :: "nat \<Rightarrow> (process \<Rightarrow> process) \<Rightarrow> kernel \<Rightarrow> kernel" where
  "upd_proc i f k = k\<lparr>proc_table := (proc_table k)(i := f (proc_table k i))\<rparr>"

definition upd_msg :: "u32 \<Rightarrow> (message \<Rightarrow> message) \<Rightarrow> kernel \<Rightarrow> kernel" where
  "upd_msg a f k = k\<lparr>msgs := (msgs k)(a := f (msgs k a))\<rparr>"

definition upd_status :: "nat \<Rightarrow> (u32 \<Rightarrow> u32) \<Rightarrow> kernel \<Rightarrow> kernel" where
  "upd_status i f = upd_proc i (\<lambda>p. p\<lparr>status := f (status p)\<rparr>)"

text \<open>The physical address of the message a process has announced in \<open>p_msg\<close>.\<close>

definition msg_pa :: "kernel \<Rightarrow> nat \<Rightarrow> u32" where
  "msg_pa k i = vir2phy (page_tables k) (page_dir (proc_table k i)) (p_msg (proc_table k i))"

lemma upd_proc_simps [simp]:
  "proc_table (upd_proc i f k) = (proc_table k)(i := f (proc_table k i))"
  "proc_max (upd_proc i f k) = proc_max k"
  "proc_running (upd_proc i f k) = proc_running k"
  "proc_list (upd_proc i f k) = proc_list k"
  "proc_count (upd_proc i f k) = proc_count k"
  "proc_bitmap (upd_proc i f k) = proc_bitmap k"
  "page_tables (upd_proc i f k) = page_tables k"
  "msgs (upd_proc i f k) = msgs k"
  "interrupt_suscribed (upd_proc i f k) = interrupt_suscribed k"
  "interrupt_suscribed_data (upd_proc i f k) = interrupt_suscribed_data k"
  "exception_suscribed (upd_proc i f k) = exception_suscribed k"
  "exception_suscribed_data (upd_proc i f k) = exception_suscribed_data k"
  by (simp_all add: upd_proc_def)

lemma upd_msg_simps [simp]:
  "proc_table (upd_msg a g k) = proc_table k"
  "proc_max (upd_msg a g k) = proc_max k"
  "proc_running (upd_msg a g k) = proc_running k"
  "proc_list (upd_msg a g k) = proc_list k"
  "proc_count (upd_msg a g k) = proc_count k"
  "proc_bitmap (upd_msg a g k) = proc_bitmap k"
  "page_tables (upd_msg a g k) = page_tables k"
  "msgs (upd_msg a g k) = (msgs k)(a := g (msgs k a))"
  "interrupt_suscribed (upd_msg a g k) = interrupt_suscribed k"
  "interrupt_suscribed_data (upd_msg a g k) = interrupt_suscribed_data k"
  "exception_suscribed (upd_msg a g k) = exception_suscribed k"
  "exception_suscribed_data (upd_msg a g k) = exception_suscribed_data k"
  by (simp_all add: upd_msg_def)

lemma upd_status_simps [simp]:
  "proc_table (upd_status i h k) = (proc_table k)(i := (proc_table k i)\<lparr>status := h (status (proc_table k i))\<rparr>)"
  "proc_max (upd_status i h k) = proc_max k"
  "proc_running (upd_status i h k) = proc_running k"
  "proc_list (upd_status i h k) = proc_list k"
  "page_tables (upd_status i h k) = page_tables k"
  "msgs (upd_status i h k) = msgs k"
  "interrupt_suscribed_data (upd_status i h k) = interrupt_suscribed_data k"
  "exception_suscribed_data (upd_status i h k) = exception_suscribed_data k"
  by (simp_all add: upd_status_def)

end
