(* ===== verification/Ipc.thy ===== *)
theory Ipc
  imports Kernel_State
begin

text \<open>
  Message passing, \<^verbatim>\<open>core/syscall_impl.c\<close>, and the delivery of interrupts and exceptions as
  messages from \<^verbatim>\<open>core/interrupt.c\<close>.

  A system call that blocks its caller ends with a call of \<open>scheduler\<close>; the functions here
  return that as a flag next to the new state. A loop that does not end makes the call
  \<open>Inl Hang\<close>, an index outside the process table \<open>Inl OutOfBounds\<close>.
\<close>

section \<open>Queues of senders\<close>

text \<open>The walk \<open>while (p->quene_body) p = p->quene_body\<close>; it does not end on a cyclic queue.\<close>

partial_function (option) queue_tail :: "(nat \<Rightarrow> nat option) \<Rightarrow> nat \<Rightarrow> nat option" where
  "queue_tail body p = (case body p of None \<Rightarrow> Some p | Some p' \<Rightarrow> queue_tail body p')"

text \<open>
  The loop that takes a sender out of the middle of a queue. It walks with two pointers and
  yields the predecessor of the sender, or \<open>None\<close> inside when the sender is not in the queue.
\<close>

partial_function (option) find_prev :: "(nat \<Rightarrow> nat option) \<Rightarrow> nat \<Rightarrow> nat option \<Rightarrow> nat \<Rightarrow> nat option option" where
  "find_prev body prev_p p sender =
     (case p of
        None \<Rightarrow> Some None
      | Some p \<Rightarrow>
          if p = sender then Some (Some prev_p)
          else case body prev_p of
            None \<Rightarrow> Some None
          | Some prev_p' \<Rightarrow> find_prev body prev_p' (body p) sender)"

definition bodies :: "kernel \<Rightarrow> nat \<Rightarrow> nat option" where
  "bodies k i = queue_body (proc_table k i)"

section \<open>Deadlock detection\<close>

text \<open>
  The walk along the chain of senders. On a cycle that does not pass through the source it
  never ends, which is \<open>None\<close>.
\<close>

partial_function (option) dead_lock_from :: "kernel \<Rightarrow> u32 \<Rightarrow> nat \<Rightarrow> bool option" where
  "dead_lock_from k src p =
     (if has (status (proc_table k p)) PROC_STATUS_SENDING
      then let to_pid = m_receiver (msgs k (msg_pa k p))
           in if to_pid = src then Some True else dead_lock_from k src (unat to_pid)
      else Some False)"

definition is_dead_lock :: "kernel \<Rightarrow> u32 \<Rightarrow> u32 \<Rightarrow> bool option" where
  "is_dead_lock k src dest = dead_lock_from k src (unat dest)"

section \<open>Sending\<close>

text \<open>Copying to a receiver that is waiting for this sender.\<close>

definition wakes :: "kernel \<Rightarrow> nat \<Rightarrow> u32 \<Rightarrow> bool" where
  "wakes k receiver sender_pid \<longleftrightarrow>
     has (status (proc_table k receiver)) PROC_STATUS_RECEVING \<and>
     m_ready (msgs k (msg_pa k receiver)) \<and>
     (m_sender (msgs k (msg_pa k receiver)) = PROC_ANY \<or>
      m_sender (msgs k (msg_pa k receiver)) = sender_pid)"

definition deliver :: "kernel \<Rightarrow> nat \<Rightarrow> u32 \<Rightarrow> kernel" where
  "deliver k receiver msg =
     (let recv_msg_pa = msg_pa k receiver;
          k = upd_msg recv_msg_pa (\<lambda>_. msgs k msg) k;
          k = upd_status receiver (clear_flag PROC_STATUS_RECEVING) k;
          k = upd_status receiver (set_flag PROC_STATUS_NORMAL) k;
          k = upd_status receiver (set_flag PROC_STATUS_RUNNING) k
      in upd_msg recv_msg_pa (\<lambda>m. m\<lparr>m_ready := False\<rparr>) k)"

definition enqueue :: "kernel \<Rightarrow> nat \<Rightarrow> nat \<Rightarrow> u32 \<Rightarrow> kernel option" where
  "enqueue k sender receiver msg_va =
     (let k = upd_proc sender (\<lambda>p. p\<lparr>p_msg := msg_va\<rparr>) k;
          k = upd_status sender (clear_flag PROC_STATUS_NORMAL) k;
          k = upd_status sender (set_flag PROC_STATUS_SENDING) k
      in case (case queue_head (proc_table k receiver) of
                 Some p \<Rightarrow>
                   (case queue_tail (bodies k) p of
                      None \<Rightarrow> None
                    | Some t \<Rightarrow> Some (upd_proc t (\<lambda>p. p\<lparr>queue_body := Some sender\<rparr>) k))
               | None \<Rightarrow> Some (upd_proc receiver (\<lambda>p. p\<lparr>queue_head := Some sender\<rparr>) k)) of
           None \<Rightarrow> None
         | Some k \<Rightarrow> Some (upd_proc sender (\<lambda>p. p\<lparr>queue_body := None\<rparr>) k))"

definition send_msg :: "kernel \<Rightarrow> nat \<Rightarrow> u32 \<Rightarrow> (kernel \<times> bool) res" where
  "send_msg k sender msg_va =
     (let msg = vir2phy (page_tables k) (page_dir (proc_table k sender)) msg_va;
          k = upd_msg msg (\<lambda>m. m\<lparr>m_sender := pid (proc_table k sender)\<rparr>) k;
          dest = m_receiver (msgs k msg);
          receiver = unat dest
      in if proc_max k \<le> receiver then Inl OutOfBounds
         else case is_dead_lock k (pid (proc_table k sender)) dest of
           None \<Rightarrow> Inl Hang
         | Some _ \<Rightarrow>
             if wakes k receiver (pid (proc_table k sender))
             then Inr (deliver k receiver msg, False)
             else (case enqueue k sender receiver msg_va of
                     None \<Rightarrow> Inl Hang
                   | Some k \<Rightarrow> Inr (k, True)))"

section \<open>Receiving\<close>

text \<open>The scan for a pending interrupt or exception: its number and whether there is a second one.\<close>

fun scan_avail :: "(nat \<Rightarrow> interrupt_data) \<Rightarrow> nat list \<Rightarrow> nat \<Rightarrow> nat \<times> bool" where
  "scan_avail dat [] irq = (irq, False)"
| "scan_avail dat (i # is) irq =
     (if avail (dat i) = 1
      then if irq \<noteq> 0 then (irq, True) else scan_avail dat is i
      else scan_avail dat is irq)"

definition take_interrupt :: "kernel \<Rightarrow> nat \<Rightarrow> u32 \<Rightarrow> kernel" where
  "take_interrupt k receiver msg =
     (let (irq, has_second) = scan_avail (interrupt_suscribed_data k) [0..<16] 0;
          k = upd_msg msg (\<lambda>m. m\<lparr>m_type := MSG_INTERRUPT, m_major := of_nat irq, m_sender := PROC_INTERRUPT\<rparr>) k;
          k = (if has_second then k
               else upd_status receiver (clear_flag PROC_STATUS_GOTINT) k)
      in k\<lparr>interrupt_suscribed_data := (interrupt_suscribed_data k)
             (irq := (interrupt_suscribed_data k irq)\<lparr>avail := 0\<rparr>)\<rparr>)"

text \<open>The word \<open>data\<close> of the C code keeps its initial 0 when the scan finds exception 0 only by default.\<close>

definition take_exception :: "kernel \<Rightarrow> nat \<Rightarrow> u32 \<Rightarrow> kernel" where
  "take_exception k receiver msg =
     (let dat = exception_suscribed_data k;
          (exc, has_second) = scan_avail dat [0..<32] 0;
          d = (if avail (dat exc) = 1 then idata (dat exc) else 0);
          k = upd_msg msg (\<lambda>m. m\<lparr>m_type := MSG_EXCEPTION, m_major := of_nat exc, m_d1 := d,
                                 m_sender := PROC_INTERRUPT\<rparr>) k;
          k = (if has_second then k
               else upd_status receiver (clear_flag PROC_STATUS_GOTEXC) k)
      in k\<lparr>exception_suscribed_data := (exception_suscribed_data k)
             (exc := (exception_suscribed_data k exc)\<lparr>avail := 0\<rparr>)\<rparr>)"

definition block_receiver :: "kernel \<Rightarrow> nat \<Rightarrow> u32 \<Rightarrow> u32 \<Rightarrow> u32 \<Rightarrow> kernel" where
  "block_receiver k receiver msg msg_va recv_from =
     (let k = upd_msg msg (\<lambda>m. m\<lparr>m_ready := True, m_sender := recv_from\<rparr>) k;
          k = upd_proc receiver (\<lambda>p. p\<lparr>p_msg := msg_va\<rparr>) k;
          k = upd_status receiver (clear_flag PROC_STATUS_RUNNING) k
      in upd_status receiver (set_flag PROC_STATUS_RECEVING) k)"

text \<open>Choosing the sender: the head of the queue, or the given process when it is sending to us.\<close>

definition pop_sender :: "kernel \<Rightarrow> nat \<Rightarrow> kernel \<times> nat option" where
  "pop_sender k receiver =
     (case queue_head (proc_table k receiver) of
        None \<Rightarrow> (k, None)
      | Some s \<Rightarrow> (upd_proc receiver (\<lambda>p. p\<lparr>queue_head := queue_body (proc_table k s)\<rparr>) k, Some s))"

definition unqueue :: "kernel \<Rightarrow> nat \<Rightarrow> nat \<Rightarrow> kernel res" where
  "unqueue k receiver sender =
     (case queue_head (proc_table k receiver) of
        None \<Rightarrow> Inl NullDeref
      | Some h \<Rightarrow>
          if h = sender
          then let k = upd_proc receiver (\<lambda>p. p\<lparr>queue_head := queue_body (proc_table k sender)\<rparr>) k
               in Inr (upd_proc sender (\<lambda>p. p\<lparr>queue_body := None\<rparr>) k)
          else (case find_prev (bodies k) h (bodies k h) sender of
                  None \<Rightarrow> Inl Hang
                | Some None \<Rightarrow> Inr (upd_proc sender (\<lambda>p. p\<lparr>queue_body := None\<rparr>) k)
                | Some (Some prev_p) \<Rightarrow>
                    let k = upd_proc prev_p (\<lambda>p. p\<lparr>queue_body := queue_body (proc_table k sender)\<rparr>) k
                    in Inr (upd_proc sender (\<lambda>p. p\<lparr>queue_body := None\<rparr>) k)))"

definition sends_to :: "kernel \<Rightarrow> nat \<Rightarrow> u32 \<Rightarrow> bool" where
  "sends_to k sender receiver_pid \<longleftrightarrow>
     msg_pa k sender \<noteq> 0 \<and> has (status (proc_table k sender)) PROC_STATUS_SENDING \<and>
     m_receiver (msgs k (msg_pa k sender)) = receiver_pid"

definition pick_sender :: "kernel \<Rightarrow> nat \<Rightarrow> u32 \<Rightarrow> (kernel \<times> nat option) res" where
  "pick_sender k receiver recv_from =
     (if recv_from = PROC_ANY then Inr (pop_sender k receiver)
      else if proc_max k \<le> unat recv_from then Inl OutOfBounds
      else if sends_to k (unat recv_from) (pid (proc_table k receiver))
      then (case unqueue k receiver (unat recv_from) of
              Inl e \<Rightarrow> Inl e
            | Inr k \<Rightarrow> Inr (k, Some (unat recv_from)))
      else Inr (k, None))"

definition accept_msg :: "kernel \<Rightarrow> nat \<Rightarrow> u32 \<Rightarrow> kernel" where
  "accept_msg k sender msg =
     (let send_msg_pa = msg_pa k sender;
          k = upd_msg msg (\<lambda>_. msgs k send_msg_pa) k;
          k = upd_proc sender (\<lambda>p. p\<lparr>p_msg := 0\<rparr>) k;
          k = upd_status sender (clear_flag PROC_STATUS_SENDING) k;
          k = upd_status sender (set_flag PROC_STATUS_NORMAL) k
      in upd_status sender (set_flag PROC_STATUS_RUNNING) k)"

definition recv_msg :: "kernel \<Rightarrow> nat \<Rightarrow> u32 \<Rightarrow> u32 \<Rightarrow> (kernel \<times> bool) res" where
  "recv_msg k receiver msg_va recv_from =
     (let msg = vir2phy (page_tables k) (page_dir (proc_table k receiver)) msg_va;
          k = upd_msg msg (\<lambda>m. m\<lparr>m_receiver := pid (proc_table k receiver)\<rparr>) k;
          st = status (proc_table k receiver)
      in if recv_from = 0 then Inr (k, False)
         else if has st PROC_STATUS_GOTINT \<and> (recv_from = PROC_INTERRUPT \<or> recv_from = PROC_ANY)
         then Inr (take_interrupt k receiver msg, False)
         else if has st PROC_STATUS_GOTEXC \<and> (recv_from = PROC_INTERRUPT \<or> recv_from = PROC_ANY)
         then Inr (take_exception k receiver msg, False)
         else if recv_from = PROC_INTERRUPT
         then Inr (block_receiver k receiver msg msg_va recv_from, True)
         else (case pick_sender k receiver recv_from of
                 Inl e \<Rightarrow> Inl e
               | Inr (k, Some sender) \<Rightarrow> Inr (accept_msg k sender msg, False)
               | Inr (k, None) \<Rightarrow> Inr (block_receiver k receiver msg msg_va recv_from, True)))"

section \<open>Interrupts and exceptions as messages\<close>

definition awaits_interrupt :: "kernel \<Rightarrow> nat \<Rightarrow> bool" where
  "awaits_interrupt k p \<longleftrightarrow>
     has (status (proc_table k p)) PROC_STATUS_RECEVING \<and>
     (m_sender (msgs k (msg_pa k p)) = PROC_ANY \<or> m_sender (msgs k (msg_pa k p)) = PROC_INTERRUPT)"

definition send_interrupt_msg :: "kernel \<Rightarrow> nat \<Rightarrow> nat \<Rightarrow> kernel" where
  "send_interrupt_msg k irq p =
     (if awaits_interrupt k p
      then let k = upd_msg (msg_pa k p) (\<lambda>m. m\<lparr>m_sender := PROC_INTERRUPT, m_type := MSG_INTERRUPT,
                                              m_major := of_nat irq\<rparr>) k
           in upd_status p (clear_flag PROC_STATUS_RECEVING) k
      else let k = upd_status p (set_flag PROC_STATUS_GOTINT) k
           in k\<lparr>interrupt_suscribed_data := (interrupt_suscribed_data k)
                  (irq := \<lparr>avail = 1, idata = of_nat irq\<rparr>)\<rparr>)"

definition send_exception_msg :: "kernel \<Rightarrow> nat \<Rightarrow> u32 \<Rightarrow> nat \<Rightarrow> kernel" where
  "send_exception_msg k exception d p =
     (if awaits_interrupt k p
      then let k = upd_msg (msg_pa k p) (\<lambda>m. m\<lparr>m_sender := PROC_INTERRUPT, m_type := MSG_EXCEPTION,
                                              m_major := of_nat exception, m_d1 := d\<rparr>) k
           in upd_status p (clear_flag PROC_STATUS_RECEVING) k
      else let k = upd_status p (set_flag PROC_STATUS_GOTEXC) k
           in k\<lparr>exception_suscribed_data := (exception_suscribed_data k)
                  (exception := \<lparr>avail = 1, idata = d\<rparr>)\<rparr>)"

end
