(* ===== verification/Ipc_Spec.thy ===== *)
theory Ipc_Spec
  imports Ipc
begin

text \<open>
  The contract of message passing: a view of the kernel (who is sending, who is receiving,
  where the messages are, the links of the sender queues) with the queues as lists, the
  invariant that ties them together, and its preservation by the four ways in which the
  system calls change the view.
\<close>

section \<open>Linked queues\<close>

fun chain :: "(nat \<Rightarrow> nat option) \<Rightarrow> nat option \<Rightarrow> nat list \<Rightarrow> bool" where
  "chain nb h [] \<longleftrightarrow> h = None"
| "chain nb h (a # as) \<longleftrightarrow> h = Some a \<and> chain nb (nb a) as"

lemma chain_frame: "\<forall>a \<in> set as. nb' a = nb a \<Longrightarrow> chain nb' h as = chain nb h as"
  by (induction as arbitrary: h) auto

lemma chain_upd [frame_facts]: "a \<notin> set as \<Longrightarrow> chain (nb(a := v)) h as = chain nb h as"
  by (rule chain_frame) auto

lemma chain_head: "chain nb h as \<Longrightarrow> h = (case as of [] \<Rightarrow> None | a # _ \<Rightarrow> Some a)"
  by (cases as) auto

lemma queue_tail_chain: "chain nb (Some p) as \<Longrightarrow> queue_tail nb p = Some (last as)"
proof (induction as arbitrary: p)
  case (Cons a as)
  then have a: "a = p" "chain nb (nb p) as" by auto
  show ?case
  proof (cases as)
    case Nil
    then show ?thesis using a by (subst queue_tail.simps) simp
  next
    case (Cons b bs)
    then have "nb p = Some b" using a by simp
    moreover have "queue_tail nb b = Some (last as)" using Cons.IH a \<open>nb p = Some b\<close> by simp
    ultimately show ?thesis using Cons by (subst queue_tail.simps) simp
  qed
qed simp

lemma chain_snoc:
  assumes "chain nb h as" "distinct as" "as \<noteq> []" "s \<notin> set as"
  shows "chain (nb(last as := Some s, s := None)) h (as @ [s])"
  using assms
proof (induction as arbitrary: h)
  case (Cons a as)
  show ?case
  proof (cases "as = []")
    case True
    then show ?thesis using Cons.prems by auto
  next
    case False
    let ?nb = "nb(last as := Some s, s := None)"
    have "last as \<in> set as" using False by simp
    then have "?nb a = nb a" using Cons.prems by auto
    moreover have "chain ?nb (nb a) (as @ [s])"
      by (rule Cons.IH) (use Cons.prems False in auto)
    ultimately have "chain ?nb (Some a) (a # as @ [s])" by (simp only: chain.simps)
    then show ?thesis using Cons.prems(1) False by (simp del: fun_upd_apply)
  qed
qed simp

lemma chain_after: "chain nb h (xs @ s # ys) \<Longrightarrow> chain nb (nb s) ys"
  by (induction xs arbitrary: h) auto

lemma chain_cut:
  assumes "chain nb h (xs @ s # ys)" "distinct (xs @ s # ys)" "xs \<noteq> []"
  shows "chain (nb(last xs := nb s, s := None)) h (xs @ ys)"
  using assms
proof (induction xs arbitrary: h)
  case (Cons x xs)
  let ?nb = "\<lambda>l. nb(l := nb s, s := None)"
  show ?case
  proof (cases "xs = []")
    case True
    have "chain nb (nb s) ys" using Cons.prems(1) True by simp
    then have "chain (?nb x) (nb s) ys"
      using Cons.prems(2) True by (subst chain_frame [where nb = nb]) auto
    moreover have "?nb x x = nb s" using Cons.prems(2) by simp
    ultimately have "chain (?nb x) (Some x) (x # ys)" by (simp only: chain.simps)
    then show ?thesis using Cons.prems(1) True by (simp del: fun_upd_apply)
  next
    case False
    have "last xs \<in> set xs" using False by simp
    then have "?nb (last xs) x = nb x" using Cons.prems(2) by auto
    moreover have "chain (?nb (last xs)) (nb x) (xs @ ys)"
      by (rule Cons.IH) (use Cons.prems False in auto)
    ultimately have "chain (?nb (last xs)) (Some x) (x # xs @ ys)" by (simp only: chain.simps)
    then show ?thesis using Cons.prems(1) False by (simp del: fun_upd_apply)
  qed
qed simp

lemma find_prev_chain:
  assumes "chain nb (nb x) (xs @ s # ys)" "distinct (x # xs @ s # ys)"
  shows "find_prev nb x (nb x) s = Some (Some (last (x # xs)))"
  using assms
proof (induction xs arbitrary: x)
  case Nil
  then show ?case by (subst find_prev.simps) simp
next
  case (Cons y xs)
  then have y: "nb x = Some y" "y \<noteq> s" by auto
  moreover have "find_prev nb y (nb y) s = Some (Some (last (y # xs)))"
    using Cons.IH [of y] Cons.prems by simp
  ultimately show ?case by (subst find_prev.simps) simp
qed

section \<open>The view and its invariant\<close>

text \<open>
  \<open>vinv N S R pm ms nb qh q\<close>: among the first \<open>N\<close> slots, \<open>S\<close> are the processes that are
  sending and \<open>R\<close> those that are receiving, \<open>pm\<close> is the address of a process's message, \<open>ms\<close>
  the messages, and \<open>q r\<close> the queue of receiver \<open>r\<close>, oldest sender first. The last conjunct
  is the absence of lost rendezvous: nobody waits for a sender that is queued for it.
\<close>

definition vinv ::
  "nat \<Rightarrow> (nat \<Rightarrow> bool) \<Rightarrow> (nat \<Rightarrow> bool) \<Rightarrow> (nat \<Rightarrow> u32) \<Rightarrow> (u32 \<Rightarrow> message) \<Rightarrow> (nat \<Rightarrow> nat option) \<Rightarrow>
   (nat \<Rightarrow> nat option) \<Rightarrow> (nat \<Rightarrow> nat list) \<Rightarrow> bool" where
  "vinv N S R pm ms nb qh q \<longleftrightarrow>
     (\<forall>r < N. chain nb (qh r) (q r) \<and> distinct (q r)) \<and>
     (\<forall>r < N. \<forall>s. s \<in> set (q r) \<longleftrightarrow> s < N \<and> S s \<and> unat (m_receiver (ms (pm s))) = r) \<and>
     (\<forall>s < N. S s \<longrightarrow> unat (m_receiver (ms (pm s))) < N \<and> m_sender (ms (pm s)) = of_nat s \<and> pm s \<noteq> 0) \<and>
     (\<forall>i < N. \<forall>j < N. S i \<or> R i \<longrightarrow> S j \<or> R j \<longrightarrow> i \<noteq> j \<longrightarrow> pm i \<noteq> pm j) \<and>
     (\<forall>r < N. R r \<longrightarrow> m_ready (ms (pm r)) \<and> \<not> S r) \<and>
     (\<forall>r < N. R r \<longrightarrow> (m_sender (ms (pm r)) = PROC_ANY \<longrightarrow> q r = []) \<and>
        (\<forall>s < N. m_sender (ms (pm r)) = of_nat s \<longrightarrow> s \<notin> set (q r)))"

lemma vinvD:
  assumes "vinv N S R pm ms nb qh q"
  shows "r < N \<Longrightarrow> chain nb (qh r) (q r)" and "r < N \<Longrightarrow> distinct (q r)"
    and "r < N \<Longrightarrow> s \<in> set (q r) \<longleftrightarrow> s < N \<and> S s \<and> unat (m_receiver (ms (pm s))) = r"
    and "s < N \<Longrightarrow> S s \<Longrightarrow> unat (m_receiver (ms (pm s))) < N \<and> m_sender (ms (pm s)) = of_nat s \<and> pm s \<noteq> 0"
    and "i < N \<Longrightarrow> j < N \<Longrightarrow> S i \<or> R i \<Longrightarrow> S j \<or> R j \<Longrightarrow> i \<noteq> j \<Longrightarrow> pm i \<noteq> pm j"
    and "r < N \<Longrightarrow> R r \<Longrightarrow> m_ready (ms (pm r)) \<and> \<not> S r"
    and "r < N \<Longrightarrow> R r \<Longrightarrow> m_sender (ms (pm r)) = PROC_ANY \<Longrightarrow> q r = []"
    and "r < N \<Longrightarrow> s < N \<Longrightarrow> R r \<Longrightarrow> m_sender (ms (pm r)) = of_nat s \<Longrightarrow> s \<notin> set (q r)"
proof -
  note c1 = assms [unfolded vinv_def, THEN conjunct1]
  note t1 = assms [unfolded vinv_def, THEN conjunct2]
  note t2 = t1 [THEN conjunct2] note t3 = t2 [THEN conjunct2] note t4 = t3 [THEN conjunct2]
  show "r < N \<Longrightarrow> chain nb (qh r) (q r)" "r < N \<Longrightarrow> distinct (q r)" using c1 by simp_all
  show "r < N \<Longrightarrow> s \<in> set (q r) \<longleftrightarrow> s < N \<and> S s \<and> unat (m_receiver (ms (pm s))) = r"
    using t1 [THEN conjunct1] by blast
  show "s < N \<Longrightarrow> S s \<Longrightarrow> unat (m_receiver (ms (pm s))) < N \<and> m_sender (ms (pm s)) = of_nat s \<and> pm s \<noteq> 0"
    using t2 [THEN conjunct1] by blast
  show "i < N \<Longrightarrow> j < N \<Longrightarrow> S i \<or> R i \<Longrightarrow> S j \<or> R j \<Longrightarrow> i \<noteq> j \<Longrightarrow> pm i \<noteq> pm j"
    using t3 [THEN conjunct1] by blast
  show "r < N \<Longrightarrow> R r \<Longrightarrow> m_ready (ms (pm r)) \<and> \<not> S r" using t4 [THEN conjunct1] by blast
  show "r < N \<Longrightarrow> R r \<Longrightarrow> m_sender (ms (pm r)) = PROC_ANY \<Longrightarrow> q r = []"
    and "r < N \<Longrightarrow> s < N \<Longrightarrow> R r \<Longrightarrow> m_sender (ms (pm r)) = of_nat s \<Longrightarrow> s \<notin> set (q r)"
    using t4 [THEN conjunct2] by blast+
qed

lemma vinvI:
  assumes "\<And>r. r < N \<Longrightarrow> chain nb (qh r) (q r)" and "\<And>r. r < N \<Longrightarrow> distinct (q r)"
    and "\<And>r s. r < N \<Longrightarrow> s \<in> set (q r) \<longleftrightarrow> s < N \<and> S s \<and> unat (m_receiver (ms (pm s))) = r"
    and "\<And>s. s < N \<Longrightarrow> S s \<Longrightarrow>
      unat (m_receiver (ms (pm s))) < N \<and> m_sender (ms (pm s)) = of_nat s \<and> pm s \<noteq> 0"
    and "\<And>i j. i < N \<Longrightarrow> j < N \<Longrightarrow> S i \<or> R i \<Longrightarrow> S j \<or> R j \<Longrightarrow> i \<noteq> j \<Longrightarrow> pm i \<noteq> pm j"
    and "\<And>r. r < N \<Longrightarrow> R r \<Longrightarrow> m_ready (ms (pm r)) \<and> \<not> S r"
    and "\<And>r. r < N \<Longrightarrow> R r \<Longrightarrow> m_sender (ms (pm r)) = PROC_ANY \<Longrightarrow> q r = []"
    and "\<And>r s. r < N \<Longrightarrow> s < N \<Longrightarrow> R r \<Longrightarrow> m_sender (ms (pm r)) = of_nat s \<Longrightarrow> s \<notin> set (q r)"
  shows "vinv N S R pm ms nb qh q"
  unfolding vinv_def
proof (intro conjI allI impI)
  fix r s
  show "r < N \<Longrightarrow> chain nb (qh r) (q r)" "r < N \<Longrightarrow> distinct (q r)" using assms(1,2) by blast+
  show "r < N \<Longrightarrow> s \<in> set (q r) \<longleftrightarrow> s < N \<and> S s \<and> unat (m_receiver (ms (pm s))) = r" by (rule assms(3))
  show "r < N \<Longrightarrow> R r \<Longrightarrow> m_sender (ms (pm r)) = PROC_ANY \<Longrightarrow> q r = []" by (rule assms(7))
  show "r < N \<Longrightarrow> R r \<Longrightarrow> s < N \<Longrightarrow> m_sender (ms (pm r)) = of_nat s \<Longrightarrow> s \<notin> set (q r)"
    using assms(8) by blast
next
  fix i j
  show "i < N \<Longrightarrow> j < N \<Longrightarrow> S i \<or> R i \<Longrightarrow> S j \<or> R j \<Longrightarrow> i \<noteq> j \<Longrightarrow> pm i \<noteq> pm j" by (rule assms(5))
  show "i < N \<Longrightarrow> S i \<Longrightarrow> unat (m_receiver (ms (pm i))) < N" "i < N \<Longrightarrow> S i \<Longrightarrow> m_sender (ms (pm i)) = of_nat i"
    "i < N \<Longrightarrow> S i \<Longrightarrow> pm i \<noteq> 0" "i < N \<Longrightarrow> R i \<Longrightarrow> m_ready (ms (pm i))" "i < N \<Longrightarrow> R i \<Longrightarrow> \<not> S i"
    using assms(4,6) by blast+
qed

text \<open>A message buffer that no blocked process uses.\<close>

definition unused_buf :: "nat \<Rightarrow> (nat \<Rightarrow> bool) \<Rightarrow> (nat \<Rightarrow> bool) \<Rightarrow> (nat \<Rightarrow> u32) \<Rightarrow> u32 \<Rightarrow> bool" where
  "unused_buf N S R pm pa \<longleftrightarrow> (\<forall>j < N. S j \<or> R j \<longrightarrow> pm j \<noteq> pa)"

lemma vinv_ms_cong:
  assumes eq: "\<And>i. i < N \<Longrightarrow> S i \<or> R i \<Longrightarrow> ms' (pm i) = ms (pm i)" and v: "vinv N S R pm ms nb qh q"
  shows "vinv N S R pm ms' nb qh q"
proof (rule vinvI)
  note d = vinvD [OF v]
  fix r s assume r: "r < N"
  show "s \<in> set (q r) \<longleftrightarrow> s < N \<and> S s \<and> unat (m_receiver (ms' (pm s))) = r"
    using d(3) [OF r, of s] eq [of s] by auto
  show "S r \<Longrightarrow> unat (m_receiver (ms' (pm r))) < N \<and> m_sender (ms' (pm r)) = of_nat r \<and> pm r \<noteq> 0"
    using d(4) [OF r] eq [OF r] by simp
  show "R r \<Longrightarrow> m_ready (ms' (pm r)) \<and> \<not> S r" using d(6) [OF r] eq [OF r] by simp
  show "R r \<Longrightarrow> m_sender (ms' (pm r)) = PROC_ANY \<Longrightarrow> q r = []" using d(7) [OF r] eq [OF r] by simp
  show "s < N \<Longrightarrow> R r \<Longrightarrow> m_sender (ms' (pm r)) = of_nat s \<Longrightarrow> s \<notin> set (q r)"
    using d(8) [OF r, of s] eq [OF r] by simp
  show "s < N \<Longrightarrow> S r \<or> R r \<Longrightarrow> S s \<or> R s \<Longrightarrow> r \<noteq> s \<Longrightarrow> pm r \<noteq> pm s" using d(5) r by blast
  show "chain nb (qh r) (q r)" "distinct (q r)" using d(1,2) r by blast+
qed

lemma vinv_wake:
  assumes v: "vinv N S R pm ms nb qh q" and r: "r < N" "R r" and ms': "ms' = ms(pm r := M')"
  shows "vinv N S (R(r := False)) pm ms' nb qh q"
proof -
  note d = vinvD [OF v]
  have keep: "ms' (pm i) = ms (pm i)" if "i < N" "S i \<or> (R i \<and> i \<noteq> r)" for i
  proof -
    have "i \<noteq> r" using that d(6) [OF r] by blast
    then have "pm i \<noteq> pm r" using d(5) [OF that(1) r(1)] that(2) r(2) by blast
    then show ?thesis by (simp add: ms')
  qed
  show ?thesis
  proof (rule vinvI)
    fix x s assume "x < N"
    show "s \<in> set (q x) \<longleftrightarrow> s < N \<and> S s \<and> unat (m_receiver (ms' (pm s))) = x"
      using d(3) [OF \<open>x < N\<close>, of s] keep [of s] by auto
  next
    fix x assume "x < N" "(R(r := False)) x"
    then show "m_ready (ms' (pm x)) \<and> \<not> S x" "m_sender (ms' (pm x)) = PROC_ANY \<Longrightarrow> q x = []"
      using d(6,7) keep [of x] by (auto split: if_splits)
  next
    fix x s assume "x < N" "s < N" "(R(r := False)) x" "m_sender (ms' (pm x)) = of_nat s"
    then show "s \<notin> set (q x)" using d(8) keep [of x] by (auto split: if_splits)
  next
    fix s assume "s < N" "S s"
    then show "unat (m_receiver (ms' (pm s))) < N \<and> m_sender (ms' (pm s)) = of_nat s \<and> pm s \<noteq> 0"
      using d(4) keep [of s] by simp
  next
    fix i j assume "i < N" "j < N" "S i \<or> (R(r := False)) i" "S j \<or> (R(r := False)) j" "i \<noteq> j"
    then show "pm i \<noteq> pm j" using d(5) [of i j] by (auto split: if_splits)
  qed (use d(1,2) in auto)
qed

lemma vinv_deliver:
  assumes v: "vinv N S R pm ms nb qh q" and u: "unused_buf N S R pm pa" and r: "r < N" "R r"
    and ms': "ms' = ms(pa := M, pm r := M')"
  shows "vinv N S (R(r := False)) pm ms' nb qh q"
proof -
  have "(ms(pa := M)) (pm i) = ms (pm i)" if "i < N" "S i \<or> R i" for i
    using u that unfolding unused_buf_def by auto
  from vinv_wake [OF vinv_ms_cong [OF this v] r ms'] show ?thesis .
qed

lemma vinv_enqueue:
  assumes v: "vinv N S R pm ms nb qh q" and u: "unused_buf N S R pm pa" and pa: "pa \<noteq> 0"
    and s: "s < N" "\<not> S s" "\<not> R s" and r: "r < N"
    and M: "unat (m_receiver M) = r" "m_sender M = of_nat s"
    and N: "N \<le> 2 ^ 31"
    and no_rdv: "\<not> (R r \<and> (m_sender (ms (pm r)) = PROC_ANY \<or> m_sender (ms (pm r)) = of_nat s))"
    and S': "S' = S(s := True)" and pm': "pm' = pm(s := pa)" and ms': "ms' = ms(pa := M)"
    and nb': "nb' = (if q r = [] then nb(s := None) else nb(last (q r) := Some s, s := None))"
    and qh': "qh' = (if q r = [] then qh(r := Some s) else qh)"
    and q': "q' = q(r := q r @ [s])"
  shows "vinv N S' R pm' ms' nb' qh' q'"
proof -
  note d = vinvD [OF v]
  have keep: "ms' (pm' i) = ms (pm i)" "pm' i = pm i" "i \<noteq> s" if "i < N" "S i \<or> R i" for i
  proof -
    show "i \<noteq> s" using that(2) s(2,3) by blast
    moreover have "pm i \<noteq> pa" using u that unfolding unused_buf_def by blast
    ultimately show "ms' (pm' i) = ms (pm i)" "pm' i = pm i" by (simp_all add: ms' pm')
  qed
  have own: "ms' (pm' s) = M" "pm' s = pa" by (simp_all add: ms' pm')
  have out: "s \<notin> set (q x)" if "x < N" for x using d(3) [OF that] s(2) by blast
  have disj: "last (q r) \<notin> set (q x)" if "x < N" "x \<noteq> r" "q r \<noteq> []" for x
  proof -
    have "last (q r) \<in> set (q r)" using that(3) by simp
    then show ?thesis
      using d(3) [OF r, of "last (q r)"] d(3) [OF that(1), of "last (q r)"] that(2) by simp
  qed
  show ?thesis
  proof (rule vinvI)
    fix x assume x: "x < N"
    show "chain nb' (qh' x) (q' x)"
    proof (cases "x = r")
      case True
      show ?thesis
      proof (cases "q r = []")
        case True
        then show ?thesis using \<open>x = r\<close> by (simp add: nb' qh' q')
      next
        case False
        then have "chain (nb(last (q r) := Some s, s := None)) (qh r) (q r @ [s])"
          using chain_snoc [OF d(1) [OF r] d(2) [OF r] _ out [OF r]] by blast
        then show ?thesis using \<open>x = r\<close> False by (simp only: nb' qh' q' if_False fun_upd_same)
      qed
    next
      case False
      have "chain nb' (qh x) (q x) = chain nb (qh x) (q x)"
        using out [OF x] disj [OF x False] by (intro chain_frame) (auto simp: nb')
      moreover have "qh' x = qh x" "q' x = q x" using False by (simp_all add: qh' q')
      ultimately show ?thesis using d(1) [OF x] by simp
    qed
    show "distinct (q' x)" using d(2) [OF x] out [OF r] by (cases "x = r") (simp_all add: q')
    fix t
    have "t \<in> set (q' x) \<longleftrightarrow> t \<in> set (q x) \<or> (x = r \<and> t = s)" by (auto simp: q')
    then show "t \<in> set (q' x) \<longleftrightarrow> t < N \<and> S' t \<and> unat (m_receiver (ms' (pm' t))) = x"
      using d(3) [OF x, of t] keep [of t] own M(1) s(1,2) by (cases "t = s") (auto simp: S')
  next
    fix t assume "t < N" "S' t"
    then show "unat (m_receiver (ms' (pm' t))) < N \<and> m_sender (ms' (pm' t)) = of_nat t \<and> pm' t \<noteq> 0"
      using d(4) [of t] keep [of t] own M r pa by (cases "t = s") (auto simp: S')
  next
    fix i j assume ij: "i < N" "j < N" "S' i \<or> R i" "S' j \<or> R j" "i \<noteq> j"
    have "pm x \<noteq> pa" if "x < N" "S x \<or> R x" for x using u that unfolding unused_buf_def by blast
    then show "pm' i \<noteq> pm' j"
      using ij d(5) [of i j] by (cases "i = s"; cases "j = s") (auto simp: pm' S')
  next
    fix x assume x: "x < N" "R x"
    then show "m_ready (ms' (pm' x)) \<and> \<not> S' x" using d(6) [OF x] keep [of x] by (simp add: S')
    have eq: "ms' (pm' x) = ms (pm x)" using keep [of x] x by blast
    show "q' x = []" if "m_sender (ms' (pm' x)) = PROC_ANY"
      using d(7) [OF x] no_rdv that x(2) unfolding eq q' by auto
    show "t \<notin> set (q' x)" if t: "t < N" "m_sender (ms' (pm' x)) = of_nat t" for t
      using d(8) [OF x(1) t(1) x(2)] no_rdv t x(2) unfolding eq q' by auto
  qed
qed

lemma vinv_block:
  assumes v: "vinv N S R pm ms nb qh q" and u: "unused_buf N S R pm pa" and r: "r < N" "\<not> S r" "\<not> R r"
    and M: "m_ready M" "m_sender M = PROC_ANY \<Longrightarrow> q r = []"
      "\<And>s. s < N \<Longrightarrow> m_sender M = of_nat s \<Longrightarrow> s \<notin> set (q r)"
    and R': "R' = R(r := True)" and pm': "pm' = pm(r := pa)" and ms': "ms' = ms(pa := M)"
  shows "vinv N S R' pm' ms' nb qh q"
proof -
  note d = vinvD [OF v]
  have keep: "ms' (pm' i) = ms (pm i)" "pm' i = pm i" "i \<noteq> r" if "i < N" "S i \<or> R i" for i
  proof -
    show "i \<noteq> r" using that(2) r(2,3) by blast
    moreover have "pm i \<noteq> pa" using u that unfolding unused_buf_def by blast
    ultimately show "ms' (pm' i) = ms (pm i)" "pm' i = pm i" by (simp_all add: ms' pm')
  qed
  have own: "ms' (pm' r) = M" by (simp add: ms' pm')
  show ?thesis
  proof (rule vinvI)
    fix x t assume x: "x < N"
    show "t \<in> set (q x) \<longleftrightarrow> t < N \<and> S t \<and> unat (m_receiver (ms' (pm' t))) = x"
      using d(3) [OF x, of t] keep [of t] by auto
  next
    fix t assume "t < N" "S t"
    then show "unat (m_receiver (ms' (pm' t))) < N \<and> m_sender (ms' (pm' t)) = of_nat t \<and> pm' t \<noteq> 0"
      using d(4) [of t] keep [of t] by simp
  next
    fix i j assume ij: "i < N" "j < N" "S i \<or> R' i" "S j \<or> R' j" "i \<noteq> j"
    have "pm x \<noteq> pa" if "x < N" "S x \<or> R x" for x using u that unfolding unused_buf_def by blast
    then show "pm' i \<noteq> pm' j"
      using ij d(5) [of i j] by (cases "i = r"; cases "j = r") (auto simp: pm' R')
  next
    fix x assume x: "x < N" "R' x"
    show "m_ready (ms' (pm' x)) \<and> \<not> S x"
      using x d(6) [of x] keep [of x] own M(1) r(2) by (cases "x = r") (auto simp: R')
    show "q x = []" if "m_sender (ms' (pm' x)) = PROC_ANY"
      using x that d(7) [of x] keep [of x] own M(2) by (cases "x = r") (auto simp: R')
    show "t \<notin> set (q x)" if "t < N" "m_sender (ms' (pm' x)) = of_nat t" for t
      using x that d(8) [of x t] keep [of x] own M(3) by (cases "x = r") (auto simp: R')
  qed (use d(1,2) in auto)
qed

lemma vinv_take:
  assumes v: "vinv N S R pm ms nb qh q" and u: "unused_buf N S R pm pa" and r: "r < N"
    and sp: "q r = xs @ s # ys"
    and S': "S' = S(s := False)" and pm': "pm' = pm(s := z)" and ms': "ms' = ms(pa := M)"
    and own: "chain nb' (qh' r) (xs @ ys)"
    and frame: "\<And>x. x < N \<Longrightarrow> x \<noteq> r \<Longrightarrow> qh' x = qh x \<and> (\<forall>a \<in> set (q x). nb' a = nb a)"
    and q': "q' = q(r := xs @ ys)"
  shows "vinv N S' R pm' ms' nb' qh' q'"
proof -
  note d = vinvD [OF v]
  have s: "s < N" "S s" using d(3) [OF r, of s] sp by auto
  have nr: "\<not> R s" using d(6) s by blast
  have keep: "ms' (pm' i) = ms (pm i)" "pm' i = pm i" if "i < N" "S i \<or> R i" "i \<noteq> s" for i
  proof -
    have "pm i \<noteq> pa" using u that unfolding unused_buf_def by blast
    then show "ms' (pm' i) = ms (pm i)" "pm' i = pm i" using that(3) by (simp_all add: ms' pm')
  qed
  have ns: "s \<notin> set (q x)" if "x < N" "x \<noteq> r" for x
    using d(3) [OF that(1), of s] d(3) [OF r, of s] sp that(2) by auto
  have dr: "distinct (xs @ s # ys)" using d(2) [OF r] sp by simp
  have sub: "t \<in> set (q' x) \<longleftrightarrow> t \<in> set (q x) \<and> t \<noteq> s" if "x < N" for x t
    using ns [OF that] dr sp by (cases "x = r") (auto simp: q')
  show ?thesis
  proof (rule vinvI)
    fix x assume x: "x < N"
    show "chain nb' (qh' x) (q' x)"
    proof (cases "x = r")
      case False
      then show ?thesis using d(1) [OF x] frame [OF x] chain_frame [of "q x" nb' nb] by (simp add: q')
    qed (simp add: own q')
    show "distinct (q' x)" using d(2) [OF x] dr by (simp add: q')
    fix t
    show "t \<in> set (q' x) \<longleftrightarrow> t < N \<and> S' t \<and> unat (m_receiver (ms' (pm' t))) = x"
    proof (cases "t = s")
      case True
      then show ?thesis using sub [OF x, of t] by (simp add: S')
    next
      case False
      then have "t \<in> set (q' x) \<longleftrightarrow> t < N \<and> S t \<and> unat (m_receiver (ms (pm t))) = x"
        using sub [OF x, of t] d(3) [OF x, of t] by blast
      moreover have "t < N \<Longrightarrow> S t \<Longrightarrow> ms' (pm' t) = ms (pm t)" using keep [of t] False by blast
      moreover have "S' t = S t" using False by (simp add: S')
      ultimately show ?thesis by metis
    qed
  next
    fix t assume "t < N" "S' t"
    then show "unat (m_receiver (ms' (pm' t))) < N \<and> m_sender (ms' (pm' t)) = of_nat t \<and> pm' t \<noteq> 0"
      using d(4) [of t] keep [of t] by (auto simp: S' split: if_splits)
  next
    fix i j assume ij: "i < N" "j < N" "S' i \<or> R i" "S' j \<or> R j" "i \<noteq> j"
    have ns': "x \<noteq> s \<and> (S x \<or> R x)" if "S' x \<or> R x" for x
      using that nr by (cases "x = s") (simp_all add: S')
    show "pm' i \<noteq> pm' j"
      using ns' [OF ij(3)] ns' [OF ij(4)] d(5) [OF ij(1,2) _ _ ij(5)] keep(2) ij(1,2) by metis
  next
    fix x assume x: "x < N" "R x"
    then have eq: "ms' (pm' x) = ms (pm x)" using keep [of x] nr by blast
    show "m_ready (ms' (pm' x)) \<and> \<not> S' x" using d(6) [OF x] eq by (simp add: S')
    show "q' x = []" if "m_sender (ms' (pm' x)) = PROC_ANY"
      using d(7) [OF x] that sub [OF x(1)] unfolding eq by (cases "q' x") auto
    show "t \<notin> set (q' x)" if "t < N" "m_sender (ms' (pm' x)) = of_nat t" for t
      using d(8) [OF x(1) that(1) x(2)] that(2) sub [OF x(1)] unfolding eq by auto
  qed
qed

end
