(* ===== verification/Ipc_Refine.thy ===== *)
theory Ipc_Refine
  imports Ipc_Spec
begin

text \<open>
  The system calls \<open>__send_msg\<close> and \<open>__recv_msg\<close> implement the contract of \<^verbatim>\<open>Ipc_Spec\<close>: the
  queues are read off the kernel state by following the links, and each branch of the two
  calls is one of the four changes of the view.
\<close>

section \<open>The view of a kernel state\<close>

fun follow :: "(nat \<Rightarrow> nat option) \<Rightarrow> nat option \<Rightarrow> nat \<Rightarrow> nat list" where
  "follow nb None n = []"
| "follow nb (Some a) 0 = []"
| "follow nb (Some a) (Suc n) = a # follow nb (nb a) n"

definition heads :: "kernel \<Rightarrow> nat \<Rightarrow> nat option" where
  "heads k r = queue_head (proc_table k r)"

definition queue_of :: "kernel \<Rightarrow> nat \<Rightarrow> nat list" where
  "queue_of k r = follow (bodies k) (heads k r) (proc_max k)"

definition sending :: "kernel \<Rightarrow> nat \<Rightarrow> bool" where
  "sending k i \<longleftrightarrow> has (status (proc_table k i)) PROC_STATUS_SENDING"

definition recving :: "kernel \<Rightarrow> nat \<Rightarrow> bool" where
  "recving k i \<longleftrightarrow> has (status (proc_table k i)) PROC_STATUS_RECEVING"

definition kview :: "kernel \<Rightarrow> (nat \<Rightarrow> nat list) \<Rightarrow> bool" where
  "kview k q \<longleftrightarrow> proc_max k \<le> 2 ^ 31 \<and>
     vinv (proc_max k) (sending k) (recving k) (msg_pa k) (msgs k) (bodies k) (heads k) q"

definition ipc_inv :: "kernel \<Rightarrow> bool" where
  "ipc_inv k \<longleftrightarrow> kview k (queue_of k)"

text \<open>A running process in its own slot, with a mapped message buffer that no blocked process uses.\<close>

definition buffer_pa :: "kernel \<Rightarrow> nat \<Rightarrow> u32 \<Rightarrow> u32" where
  "buffer_pa k i va = vir2phy (page_tables k) (page_dir (proc_table k i)) va"

definition caller :: "kernel \<Rightarrow> nat \<Rightarrow> u32 \<Rightarrow> bool" where
  "caller k i va \<longleftrightarrow> i < proc_max k \<and> pid (proc_table k i) = of_nat i \<and>
     \<not> sending k i \<and> \<not> recving k i \<and> buffer_pa k i va \<noteq> 0 \<and>
     unused_buf (proc_max k) (sending k) (recving k) (msg_pa k) (buffer_pa k i va)"

lemma follow_chain: "chain nb h as \<Longrightarrow> length as \<le> n \<Longrightarrow> follow nb h n = as"
proof (induction as arbitrary: h n)
  case (Cons a as)
  then show ?case by (cases n) auto
qed simp

lemma vinv_length:
  assumes "vinv N S R pm ms nb qh q" "r < N"
  shows "length (q r) \<le> N"
proof -
  have "set (q r) \<subseteq> {..<N}" using vinvD(3) [OF assms] by auto
  then have "card (set (q r)) \<le> N" using card_mono [of "{..<N}" "set (q r)"] by simp
  then show ?thesis using distinct_card [OF vinvD(2) [OF assms]] by simp
qed

lemma vinv_cong:
  assumes "\<And>r. r < N \<Longrightarrow> q' r = q r" "vinv N S R pm ms nb qh q"
  shows "vinv N S R pm ms nb qh q'"
proof (rule vinvI)
  note d = vinvD [OF assms(2)]
  fix r s assume "r < N"
  then show "chain nb (qh r) (q' r)" "distinct (q' r)"
    "s \<in> set (q' r) \<longleftrightarrow> s < N \<and> S s \<and> unat (m_receiver (ms (pm s))) = r"
    "R r \<Longrightarrow> m_sender (ms (pm r)) = PROC_ANY \<Longrightarrow> q' r = []"
    "s < N \<Longrightarrow> R r \<Longrightarrow> m_sender (ms (pm r)) = of_nat s \<Longrightarrow> s \<notin> set (q' r)"
    using d(1,2,3,7,8) assms(1) by metis+
  show "R r \<Longrightarrow> m_ready (ms (pm r)) \<and> \<not> S r" using d(6) \<open>r < N\<close> by blast
  show "S r \<Longrightarrow> unat (m_receiver (ms (pm r))) < N \<and> m_sender (ms (pm r)) = of_nat r \<and> pm r \<noteq> 0"
    using d(4) \<open>r < N\<close> by blast
  show "s < N \<Longrightarrow> S r \<or> R r \<Longrightarrow> S s \<or> R s \<Longrightarrow> r \<noteq> s \<Longrightarrow> pm r \<noteq> pm s"
    using d(5) \<open>r < N\<close> by blast
qed

lemma kview_queue_of:
  assumes "kview k q"
  shows "ipc_inv k" and "r < proc_max k \<Longrightarrow> queue_of k r = q r"
proof -
  have v: "vinv (proc_max k) (sending k) (recving k) (msg_pa k) (msgs k) (bodies k) (heads k) q"
    using assms by (simp add: kview_def)
  show e: "queue_of k r = q r" if "r < proc_max k" for r
    unfolding queue_of_def using follow_chain [OF vinvD(1) [OF v that] vinv_length [OF v that]] .
  show "ipc_inv k"
    using assms vinv_cong [OF e v] by (simp add: ipc_inv_def kview_def)
qed

section \<open>The steps of the calls on the view\<close>

lemma upd_msg_view [frame_facts]:
  "sending (upd_msg a f k) = sending k" "recving (upd_msg a f k) = recving k"
  "bodies (upd_msg a f k) = bodies k" "heads (upd_msg a f k) = heads k"
  "msg_pa (upd_msg a f k) = msg_pa k" "buffer_pa (upd_msg a f k) = buffer_pa k"
  by (simp_all add: sending_def recving_def bodies_def heads_def msg_pa_def buffer_pa_def fun_eq_iff)

lemma kview_upd_msg:
  assumes v: "kview k q" and u: "unused_buf (proc_max k) (sending k) (recving k) (msg_pa k) pa"
  shows "kview (upd_msg pa f k) q"
proof -
  have v': "vinv (proc_max k) (sending k) (recving k) (msg_pa k) (msgs k) (bodies k) (heads k) q"
    using v by (simp add: kview_def)
  have "msgs (upd_msg pa f k) (msg_pa k i) = msgs k (msg_pa k i)"
    if "i < proc_max k" "sending k i \<or> recving k i" for i
    using u that unfolding unused_buf_def by auto
  from vinv_ms_cong [OF this v'] show ?thesis
    using v by (simp add: kview_def frame_facts del: fun_upd_apply)
qed

lemma deliver_view:
  assumes v: "kview k q" and r: "r < proc_max k" "recving k r"
    and u: "unused_buf (proc_max k) (sending k) (recving k) (msg_pa k) pa"
  shows "kview (deliver k r pa) q"
    and "msgs (deliver k r pa) (msg_pa k r) = (msgs k pa)\<lparr>m_ready := False\<rparr>"
    and "\<not> recving (deliver k r pa) r" and "has (status (proc_table (deliver k r pa) r)) PROC_STATUS_RUNNING"
    and "\<And>i. i \<noteq> r \<Longrightarrow> proc_table (deliver k r pa) i = proc_table k i"
    and "proc_max (deliver k r pa) = proc_max k"
proof -
  let ?k = "deliver k r pa"
  have tab: "proc_table ?k = (proc_table k)(r := (proc_table k r)
      \<lparr>status := set_flag 1 (set_flag 0 (clear_flag 0x80 (status (proc_table k r))))\<rparr>)"
    by (simp add: deliver_def Let_def fun_eq_iff)
  have pm: "msg_pa ?k = msg_pa k"
    by (simp add: fun_eq_iff msg_pa_def tab) (simp add: deliver_def Let_def)
  have ms: "msgs ?k = (msgs k)(pa := msgs k pa, msg_pa k r := (msgs k pa)\<lparr>m_ready := False\<rparr>)"
    by (simp add: deliver_def Let_def fun_eq_iff)
  have S: "sending ?k = sending k"
    by (simp add: fun_eq_iff sending_def tab)
  have R: "recving ?k = (recving k)(r := False)"
    by (simp add: fun_eq_iff recving_def tab)
  have B: "bodies ?k = bodies k" "heads ?k = heads k"
    by (simp_all add: fun_eq_iff bodies_def heads_def tab)
  show N: "proc_max ?k = proc_max k" by (simp add: deliver_def Let_def)
  have v': "vinv (proc_max k) (sending k) (recving k) (msg_pa k) (msgs k) (bodies k) (heads k) q"
    using v by (simp add: kview_def)
  show "kview ?k q"
    unfolding kview_def N S R B pm
    using vinv_deliver [OF v' u r(1) r(2) ms] v by (simp add: kview_def)
  show "msgs ?k (msg_pa k r) = (msgs k pa)\<lparr>m_ready := False\<rparr>" by (simp add: ms)
  show "\<not> recving ?k r" by (simp add: R)
  show "has (status (proc_table ?k r)) PROC_STATUS_RUNNING" by (simp add: tab)
  show "proc_table ?k i = proc_table k i" if "i \<noteq> r" for i using that by (simp add: tab)
qed

lemma enqueue_cases:
  assumes "k1 = upd_status s (set_flag PROC_STATUS_SENDING) (upd_status s (clear_flag PROC_STATUS_NORMAL)
      (upd_proc s (\<lambda>p. p\<lparr>p_msg := va\<rparr>) k))"
    and "chain (bodies k) (heads k r) qr"
  shows "enqueue k s r va = Some (upd_proc s (\<lambda>p. p\<lparr>queue_body := None\<rparr>)
    (if qr = [] then upd_proc r (\<lambda>p. p\<lparr>queue_head := Some s\<rparr>) k1
     else upd_proc (last qr) (\<lambda>p. p\<lparr>queue_body := Some s\<rparr>) k1))"
proof -
  have b: "bodies k1 = bodies k" "heads k1 = heads k"
    by (simp_all add: assms(1) bodies_def heads_def fun_eq_iff)
  show ?thesis
  proof (cases qr)
    case Nil
    then have "queue_head (proc_table k1 r) = None" using assms(2) b by (simp add: heads_def fun_eq_iff)
    then show ?thesis unfolding enqueue_def Let_def assms(1) [symmetric] using Nil by simp
  next
    case (Cons a as)
    then have h: "queue_head (proc_table k1 r) = Some a" "chain (bodies k) (Some a) qr"
      using assms(2) b by (simp_all add: heads_def fun_eq_iff)
    have "queue_tail (bodies k1) a = Some (last qr)" using queue_tail_chain [OF h(2)] b by simp
    then show ?thesis unfolding enqueue_def Let_def assms(1) [symmetric] using h(1) Cons by simp
  qed
qed

lemma enqueue_view:
  assumes v: "kview k q" and c: "caller k s va"
    and M: "unat (m_receiver M) = r" "m_sender M = of_nat s" and r: "r < proc_max k"
    and nw: "\<not> wakes k r (of_nat s)"
  shows "\<exists>k'. enqueue (upd_msg (buffer_pa k s va) (\<lambda>_. M) k) s r va = Some k' \<and>
    kview k' (q(r := q r @ [s])) \<and> sending k' s \<and> msgs k' (msg_pa k' s) = M \<and>
    proc_max k' = proc_max k \<and> (\<forall>i. i \<noteq> s \<longrightarrow> status (proc_table k' i) = status (proc_table k i))"
proof -
  let ?pa = "buffer_pa k s va"
  let ?k0 = "upd_msg ?pa (\<lambda>_. M) k"
  define k1 where "k1 = upd_status s (set_flag PROC_STATUS_SENDING)
    (upd_status s (clear_flag PROC_STATUS_NORMAL) (upd_proc s (\<lambda>p. p\<lparr>p_msg := va\<rparr>) ?k0))"
  define k' where "k' = upd_proc s (\<lambda>p. p\<lparr>queue_body := None\<rparr>)
    (if q r = [] then upd_proc r (\<lambda>p. p\<lparr>queue_head := Some s\<rparr>) k1
     else upd_proc (last (q r)) (\<lambda>p. p\<lparr>queue_body := Some s\<rparr>) k1)"
  have v': "vinv (proc_max k) (sending k) (recving k) (msg_pa k) (msgs k) (bodies k) (heads k) q"
    and N: "proc_max k \<le> 2 ^ 31" using v by (simp_all add: kview_def)
  note d = vinvD [OF v']
  have cs: "s < proc_max k" "\<not> sending k s" "\<not> recving k s" "?pa \<noteq> 0"
    "unused_buf (proc_max k) (sending k) (recving k) (msg_pa k) ?pa"
    using c by (simp_all add: caller_def)
  have "chain (bodies ?k0) (heads ?k0 r) (q r)"
    using d(1) [OF r] by (simp add: bodies_def heads_def fun_eq_iff cong: if_cong)
      (simp add: bodies_def [abs_def] heads_def)
  from enqueue_cases [OF k1_def this] have enq: "enqueue ?k0 s r va = Some k'"
    by (simp only: k'_def)
  have S: "sending k' = (sending k)(s := True)"
    by (cases "q r = []") (simp_all add: k'_def k1_def sending_def fun_eq_iff)
  have R: "recving k' = recving k"
    by (cases "q r = []") (simp_all add: k'_def k1_def recving_def fun_eq_iff)
  have pm: "msg_pa k' = (msg_pa k)(s := ?pa)"
    by (cases "q r = []") (simp_all add: k'_def k1_def msg_pa_def buffer_pa_def fun_eq_iff)
  have ms: "msgs k' = (msgs k)(?pa := M)" by (simp add: k'_def k1_def)
  have N': "proc_max k' = proc_max k" by (simp add: k'_def k1_def)
  have nb: "bodies k' = (if q r = [] then (bodies k)(s := None)
      else (bodies k)(last (q r) := Some s, s := None))"
    by (cases "q r = []") (simp_all add: k'_def k1_def bodies_def fun_eq_iff)
  have hd: "heads k' = (if q r = [] then (heads k)(r := Some s) else heads k)"
    by (cases "q r = []") (simp_all add: k'_def k1_def heads_def fun_eq_iff)
  have "\<not> (recving k r \<and> (m_sender (msgs k (msg_pa k r)) = PROC_ANY \<or> m_sender (msgs k (msg_pa k r)) = of_nat s))"
    using nw d(6) [OF r] unfolding wakes_def recving_def by blast
  from vinv_enqueue [OF v' cs(5,4,1-3) r M N this S pm ms nb hd refl]
  have "kview k' (q(r := q r @ [s]))" unfolding kview_def N' R using N by simp
  moreover have "msgs k' (msg_pa k' s) = M" by (simp add: ms pm)
  moreover have "status (proc_table k' i) = status (proc_table k i)" if "i \<noteq> s" for i
    using that by (cases "q r = []") (simp_all add: k'_def k1_def)
  ultimately show ?thesis using enq N' S by auto
qed

section \<open>Sending\<close>

lemma send_msg_refines:
  assumes v: "kview k q" and c: "caller k s va" and r: "r = unat (m_receiver (msgs k (buffer_pa k s va)))"
    and rb: "r < proc_max k" and M: "M = (msgs k (buffer_pa k s va))\<lparr>m_sender := of_nat s\<rparr>"
    and ends: "is_dead_lock (upd_msg (buffer_pa k s va) (\<lambda>_. M) k) (of_nat s) (m_receiver M) \<noteq> None"
  shows "if wakes k r (of_nat s)
    then \<exists>k'. send_msg k s va = Inr (k', False) \<and> kview k' q \<and>
      msgs k' (msg_pa k r) = M\<lparr>m_ready := False\<rparr> \<and> \<not> recving k' r \<and>
      has (status (proc_table k' r)) PROC_STATUS_RUNNING \<and> proc_max k' = proc_max k \<and>
      (\<forall>i. i \<noteq> r \<longrightarrow> proc_table k' i = proc_table k i)
    else \<exists>k'. send_msg k s va = Inr (k', True) \<and> kview k' (q(r := q r @ [s])) \<and> sending k' s \<and>
      msgs k' (msg_pa k' s) = M \<and> proc_max k' = proc_max k \<and>
      (\<forall>i. i \<noteq> s \<longrightarrow> status (proc_table k' i) = status (proc_table k i))"
proof -
  let ?pa = "buffer_pa k s va"
  let ?k0 = "upd_msg ?pa (\<lambda>_. M) k"
  have k0: "upd_msg ?pa (\<lambda>m. m\<lparr>m_sender := pid (proc_table k s)\<rparr>) k = ?k0"
    using c M by (simp add: caller_def upd_msg_def)
  have cs: "pid (proc_table k s) = of_nat s"
    "unused_buf (proc_max k) (sending k) (recving k) (msg_pa k) ?pa"
    using c by (simp_all add: caller_def)
  have Mr: "m_receiver M = m_receiver (msgs k ?pa)" "unat (m_receiver M) = r" by (simp_all add: M r)
  have pm0: "msg_pa ?k0 = msg_pa k" by (simp add: msg_pa_def fun_eq_iff)
  have w0: "wakes ?k0 r (of_nat s) = wakes k r (of_nat s)"
  proof (cases "recving k r")
    case True
    then have "msg_pa k r \<noteq> ?pa" using cs(2) rb unfolding unused_buf_def by blast
    then show ?thesis by (simp add: wakes_def pm0)
  next
    case False
    then show ?thesis by (simp add: wakes_def recving_def)
  qed
  have send: "send_msg k s va = (if wakes k r (of_nat s) then Inr (deliver ?k0 r ?pa, False)
    else case enqueue ?k0 s r va of None \<Rightarrow> Inl Hang | Some k \<Rightarrow> Inr (k, True))"
    using rb cs(1) Mr ends
    unfolding send_msg_def Let_def buffer_pa_def [symmetric] k0
    by (auto simp: w0 split: option.splits)
  show ?thesis
  proof (cases "wakes k r (of_nat s)")
    case True
    then have rr: "recving k r" by (simp add: wakes_def recving_def)
    have "kview ?k0 q" using kview_upd_msg [OF v cs(2)] .
    from deliver_view [OF this, of r ?pa] rb rr cs(2)
    show ?thesis using True send by (auto simp: frame_facts)
  next
    case False
    then show ?thesis using enqueue_view [OF v c Mr(2) _ rb False] send by (auto simp: M)
  qed
qed

section \<open>Receiving\<close>

lemma block_view:
  assumes v: "kview k q" and r: "r < proc_max k" "\<not> sending k r" "\<not> recving k r"
    and u: "unused_buf (proc_max k) (sending k) (recving k) (msg_pa k) (buffer_pa k r va)"
    and f: "f = PROC_ANY \<Longrightarrow> q r = []" "\<And>s. s < proc_max k \<Longrightarrow> f = of_nat s \<Longrightarrow> s \<notin> set (q r)"
  defines "k' \<equiv> block_receiver k r (buffer_pa k r va) va f"
  shows "kview k' q" and "recving k' r" and "\<not> has (status (proc_table k' r)) PROC_STATUS_RUNNING"
    and "m_ready (msgs k' (msg_pa k' r))" and "m_sender (msgs k' (msg_pa k' r)) = f"
    and "proc_max k' = proc_max k" and "\<And>i. i \<noteq> r \<Longrightarrow> proc_table k' i = proc_table k i"
proof -
  let ?M = "(msgs k (buffer_pa k r va))\<lparr>m_ready := True, m_sender := f\<rparr>"
  have S: "sending k' = sending k" "bodies k' = bodies k" "heads k' = heads k"
    by (simp_all add: k'_def block_receiver_def Let_def sending_def bodies_def heads_def fun_eq_iff)
  have R: "recving k' = (recving k)(r := True)"
    by (simp add: k'_def block_receiver_def Let_def recving_def fun_eq_iff)
  have pm: "msg_pa k' = (msg_pa k)(r := buffer_pa k r va)"
    by (simp add: k'_def block_receiver_def Let_def msg_pa_def buffer_pa_def fun_eq_iff)
  have ms: "msgs k' = (msgs k)(buffer_pa k r va := ?M)"
    by (simp add: k'_def block_receiver_def Let_def)
  show N: "proc_max k' = proc_max k" by (simp add: k'_def block_receiver_def Let_def)
  have v': "vinv (proc_max k) (sending k) (recving k) (msg_pa k) (msgs k) (bodies k) (heads k) q"
    using v by (simp add: kview_def)
  have "vinv (proc_max k) (sending k) (recving k') (msg_pa k') (msgs k') (bodies k) (heads k) q"
    by (rule vinv_block [OF v' u r _ _ _ R pm ms]) (simp_all add: f)
  then show "kview k' q" using v by (simp add: kview_def N S)
  show "recving k' r" by (simp add: R)
  show "\<not> has (status (proc_table k' r)) PROC_STATUS_RUNNING"
    by (simp add: k'_def block_receiver_def Let_def)
  show "m_ready (msgs k' (msg_pa k' r))" "m_sender (msgs k' (msg_pa k' r)) = f" by (simp_all add: ms pm)
  show "proc_table k' i = proc_table k i" if "i \<noteq> r" for i
    using that by (simp add: k'_def block_receiver_def Let_def)
qed

text \<open>Two states that differ in the links of one queue only.\<close>

definition relinked :: "kernel \<Rightarrow> kernel \<Rightarrow> nat \<Rightarrow> nat list \<Rightarrow> (nat \<Rightarrow> nat list) \<Rightarrow> bool" where
  "relinked k k1 r qr q \<longleftrightarrow> sending k1 = sending k \<and> recving k1 = recving k \<and> msg_pa k1 = msg_pa k \<and>
     buffer_pa k1 = buffer_pa k \<and> msgs k1 = msgs k \<and> proc_max k1 = proc_max k \<and>
     chain (bodies k1) (heads k1 r) qr \<and>
     (\<forall>x < proc_max k. x \<noteq> r \<longrightarrow> heads k1 x = heads k x \<and> (\<forall>a \<in> set (q x). bodies k1 a = bodies k a))"

lemma accept_view:
  assumes v: "kview k q" and r: "r < proc_max k" and sp: "q r = xs @ s # ys"
    and u: "unused_buf (proc_max k) (sending k) (recving k) (msg_pa k) pa"
    and rl: "relinked k k1 r (xs @ ys) q"
  defines "k' \<equiv> accept_msg k1 s pa"
  shows "kview k' (q(r := xs @ ys))" and "msgs k' pa = msgs k (msg_pa k s)" and "\<not> sending k' s"
    and "has (status (proc_table k' s)) PROC_STATUS_RUNNING" and "proc_max k' = proc_max k"
proof -
  note rl = rl [unfolded relinked_def]
  have S: "sending k' = (sending k)(s := False)"
    using rl by (auto simp: k'_def accept_msg_def Let_def sending_def fun_eq_iff)
  have R: "recving k' = recving k"
    using rl by (auto simp: k'_def accept_msg_def Let_def recving_def fun_eq_iff)
  have pm: "msg_pa k' = (msg_pa k)(s := buffer_pa k s 0)"
    using rl by (auto simp: k'_def accept_msg_def Let_def msg_pa_def buffer_pa_def fun_eq_iff)
  have ms: "msgs k' = (msgs k)(pa := msgs k (msg_pa k s))"
    using rl by (simp add: k'_def accept_msg_def Let_def)
  have links: "bodies k' = bodies k1" "heads k' = heads k1"
    by (simp_all add: k'_def accept_msg_def Let_def bodies_def heads_def fun_eq_iff)
  show N: "proc_max k' = proc_max k" using rl by (simp add: k'_def accept_msg_def Let_def)
  have v': "vinv (proc_max k) (sending k) (recving k) (msg_pa k) (msgs k) (bodies k) (heads k) q"
    using v by (simp add: kview_def)
  have "vinv (proc_max k) (sending k') (recving k) (msg_pa k') (msgs k') (bodies k') (heads k') (q(r := xs @ ys))"
    by (rule vinv_take [OF v' u r sp S pm ms _ _ refl]) (use rl links in auto)
  then show "kview k' (q(r := xs @ ys))" using v by (simp add: kview_def N R)
  show "msgs k' pa = msgs k (msg_pa k s)" "\<not> sending k' s" by (simp_all add: ms S)
  show "has (status (proc_table k' s)) PROC_STATUS_RUNNING" by (simp add: k'_def accept_msg_def Let_def)
qed

lemma kview_vinv:
  "kview k q \<Longrightarrow> vinv (proc_max k) (sending k) (recving k) (msg_pa k) (msgs k) (bodies k) (heads k) q"
  by (simp add: kview_def)

text \<open>Processes of different queues are different.\<close>

lemma queues_disjoint:
  assumes "kview k q" "r < proc_max k" "x < proc_max k" "x \<noteq> r" "a \<in> set (q r)"
  shows "a \<notin> set (q x)"
  using vinvD(3) [OF kview_vinv [OF assms(1)] assms(2), of a]
    vinvD(3) [OF kview_vinv [OF assms(1)] assms(3), of a] assms(4,5) by simp

lemma pop_relinked:
  assumes v: "kview k q" and r: "r < proc_max k" and sp: "q r = s # ys"
  shows "pop_sender k r = (upd_proc r (\<lambda>p. p\<lparr>queue_head := bodies k s\<rparr>) k, Some s)"
    and "relinked k (upd_proc r (\<lambda>p. p\<lparr>queue_head := bodies k s\<rparr>) k) r ys q"
proof -
  let ?k = "upd_proc r (\<lambda>p. p\<lparr>queue_head := bodies k s\<rparr>) k"
  have c: "chain (bodies k) (heads k r) (s # ys)" using vinvD(1) [OF kview_vinv [OF v] r] sp by simp
  then show "pop_sender k r = (?k, Some s)" by (simp add: pop_sender_def heads_def bodies_def)
  have "bodies ?k = bodies k" "heads ?k = (heads k)(r := bodies k s)"
    by (simp_all add: bodies_def heads_def fun_eq_iff)
  moreover have "sending ?k = sending k" "recving ?k = recving k" "msg_pa ?k = msg_pa k"
    "buffer_pa ?k = buffer_pa k" "msgs ?k = msgs k" "proc_max ?k = proc_max k"
    by (simp_all add: sending_def recving_def msg_pa_def buffer_pa_def fun_eq_iff)
  ultimately show "relinked k ?k r ys q"
    using c unfolding relinked_def by (simp del: upd_proc_simps)
qed

lemma unqueue_relinked:
  assumes v: "kview k q" and r: "r < proc_max k" and sp: "q r = xs @ s # ys"
  shows "\<exists>k1. unqueue k r s = Inr k1 \<and> relinked k k1 r (xs @ ys) q"
proof -
  note d = vinvD [OF kview_vinv [OF v]]
  have c: "chain (bodies k) (heads k r) (xs @ s # ys)" using d(1) [OF r] sp by simp
  have dist: "distinct (xs @ s # ys)" using d(2) [OF r] sp by simp
  have other: "s \<notin> set (q x)" "xs \<noteq> [] \<Longrightarrow> last xs \<notin> set (q x)" if "x < proc_max k" "x \<noteq> r" for x
    using queues_disjoint [OF v r that] sp last_in_set [of xs] by auto
  show ?thesis
  proof (cases xs)
    case Nil
    let ?k1 = "upd_proc r (\<lambda>p. p\<lparr>queue_head := bodies k s\<rparr>) k"
    let ?k2 = "upd_proc s (\<lambda>p. p\<lparr>queue_body := None\<rparr>) ?k1"
    have "unqueue k r s = Inr ?k2" using c Nil by (simp add: unqueue_def heads_def bodies_def)
    moreover have "bodies ?k2 = (bodies k)(s := None)" "heads ?k2 = (heads k)(r := bodies k s)"
      by (simp_all add: bodies_def heads_def fun_eq_iff)
    moreover have "chain ((bodies k)(s := None)) (bodies k s) ys"
      using c Nil dist by (subst chain_upd) simp_all
    moreover have "sending ?k2 = sending k" "recving ?k2 = recving k" "msg_pa ?k2 = msg_pa k"
      "buffer_pa ?k2 = buffer_pa k" "msgs ?k2 = msgs k" "proc_max ?k2 = proc_max k"
      by (simp_all add: sending_def recving_def msg_pa_def buffer_pa_def fun_eq_iff)
    ultimately have "relinked k ?k2 r ys q"
      using other(1) unfolding relinked_def by (auto simp del: upd_proc_simps)
    then show ?thesis using \<open>unqueue k r s = Inr ?k2\<close> Nil by simp
  next
    case (Cons x xs')
    let ?l = "last xs"
    let ?k1 = "upd_proc ?l (\<lambda>p. p\<lparr>queue_body := bodies k s\<rparr>) k"
    let ?k2 = "upd_proc s (\<lambda>p. p\<lparr>queue_body := None\<rparr>) ?k1"
    have h: "queue_head (proc_table k r) = Some x" "x \<noteq> s" "chain (bodies k) (bodies k x) (xs' @ s # ys)"
      using c dist Cons by (auto simp: heads_def)
    have "find_prev (bodies k) x (bodies k x) s = Some (Some ?l)"
      using find_prev_chain [OF h(3)] dist Cons by simp
    then have un: "unqueue k r s = Inr ?k2"
      using h(1,2) by (simp add: unqueue_def) (simp add: bodies_def)
    have "?l \<noteq> s" using dist Cons last_in_set [of xs] by auto
    then have "bodies ?k2 = (bodies k)(?l := bodies k s, s := None)" "heads ?k2 = heads k"
      by (simp_all add: bodies_def heads_def fun_eq_iff)
    moreover have "chain ((bodies k)(?l := bodies k s, s := None)) (heads k r) (xs @ ys)"
      using chain_cut [OF c dist] Cons by simp
    moreover have "sending ?k2 = sending k" "recving ?k2 = recving k" "msg_pa ?k2 = msg_pa k"
      "buffer_pa ?k2 = buffer_pa k" "msgs ?k2 = msgs k" "proc_max ?k2 = proc_max k"
      by (simp_all add: sending_def recving_def msg_pa_def buffer_pa_def fun_eq_iff)
    ultimately have "relinked k ?k2 r (xs @ ys) q"
      using other Cons unfolding relinked_def by (auto simp del: upd_proc_simps)
    then show ?thesis using un by blast
  qed
qed

lemma sends_to_queue:
  assumes v: "kview k q" and r: "r < proc_max k" and s: "s < proc_max k"
  shows "sends_to k s (of_nat r) \<longleftrightarrow> s \<in> set (q r)"
proof -
  note d = vinvD [OF kview_vinv [OF v]]
  have N: "proc_max k \<le> 2 ^ 31" using v by (simp add: kview_def)
  have "m_receiver m = of_nat r \<longleftrightarrow> unat (m_receiver m) = r" for m
    using r N by (simp add: word_unat_eq_iff unat_of_nat32)
  then show ?thesis
    using d(3) [OF r, of s] d(4) [OF s] s by (auto simp: sends_to_def sending_def)
qed

text \<open>The sender a receive call takes: the oldest for \<open>PROC_ANY\<close>, the named one when it is queued.\<close>

definition chosen :: "u32 \<Rightarrow> nat list \<Rightarrow> nat option" where
  "chosen f qs =
     (if f = PROC_ANY then (case qs of [] \<Rightarrow> None | s # _ \<Rightarrow> Some s)
      else if f = PROC_INTERRUPT then None
      else if unat f \<in> set qs then Some (unat f) else None)"

definition pending :: "kernel \<Rightarrow> nat \<Rightarrow> u32 \<Rightarrow> bool" where
  "pending k r f \<longleftrightarrow> (has (status (proc_table k r)) PROC_STATUS_GOTINT \<or>
     has (status (proc_table k r)) PROC_STATUS_GOTEXC) \<and> (f = PROC_INTERRUPT \<or> f = PROC_ANY)"

lemma pick_sender_chosen:
  assumes v: "kview k q" and r: "r < proc_max k" and pid: "pid (proc_table k r) = of_nat r"
    and f: "f \<noteq> PROC_INTERRUPT" "f = PROC_ANY \<or> unat f < proc_max k"
  shows "case chosen f (q r) of
      None \<Rightarrow> pick_sender k r f = Inr (k, None)
    | Some s \<Rightarrow> \<exists>k1. pick_sender k r f = Inr (k1, Some s) \<and> relinked k k1 r (remove1 s (q r)) q"
proof (cases "f = PROC_ANY")
  case True
  show ?thesis
  proof (cases "q r")
    case Nil
    then have "heads k r = None" using vinvD(1) [OF kview_vinv [OF v] r] by simp
    then show ?thesis using True Nil by (simp add: chosen_def pick_sender_def pop_sender_def heads_def)
  next
    case (Cons s ys)
    then show ?thesis using True pop_relinked [OF v r Cons] by (simp add: chosen_def pick_sender_def)
  qed
next
  case False
  then have fb: "unat f < proc_max k" using f(2) by blast
  have st: "sends_to k (unat f) (pid (proc_table k r)) \<longleftrightarrow> unat f \<in> set (q r)"
    unfolding pid by (rule sends_to_queue [OF v r fb])
  show ?thesis
  proof (cases "unat f \<in> set (q r)")
    case True
    then obtain xs ys where sp: "q r = xs @ unat f # ys" by (meson split_list)
    then have "unat f \<notin> set xs" using vinvD(2) [OF kview_vinv [OF v] r] by simp
    then have rm: "remove1 (unat f) (q r) = xs @ ys" using sp by (simp add: remove1_append)
    from unqueue_relinked [OF v r sp] obtain k1 where "unqueue k r (unat f) = Inr k1"
      "relinked k k1 r (xs @ ys) q" by blast
    then show ?thesis
      using True False f(1) fb st rm by (simp add: chosen_def pick_sender_def)
  next
    case no: False
    then show ?thesis using False f(1) fb st by (simp add: chosen_def pick_sender_def)
  qed
qed

lemma chosen_split:
  assumes "chosen f qs = Some s" "distinct qs"
  obtains xs ys where "qs = xs @ s # ys" "remove1 s qs = xs @ ys"
proof -
  have "s \<in> set qs" using assms(1) by (auto simp: chosen_def split: if_splits list.splits)
  then obtain xs ys where sp: "qs = xs @ s # ys" by (meson split_list)
  then have "remove1 s qs = xs @ ys" using assms(2) by (simp add: remove1_append)
  then show thesis using that sp by blast
qed

lemma recv_msg_refines:
  assumes v: "kview k q" and c: "caller k r va" and f: "f \<noteq> 0" "\<not> pending k r f"
    and fb: "f = PROC_ANY \<or> f = PROC_INTERRUPT \<or> unat f < proc_max k"
  shows "case chosen f (q r) of
      Some s \<Rightarrow> \<exists>k'. recv_msg k r va f = Inr (k', False) \<and> kview k' (q(r := remove1 s (q r))) \<and>
        msgs k' (buffer_pa k r va) = msgs k (msg_pa k s) \<and> \<not> sending k' s \<and>
        has (status (proc_table k' s)) PROC_STATUS_RUNNING \<and> proc_max k' = proc_max k
    | None \<Rightarrow> \<exists>k'. recv_msg k r va f = Inr (k', True) \<and> kview k' q \<and> recving k' r \<and>
        m_sender (msgs k' (msg_pa k' r)) = f \<and> m_ready (msgs k' (msg_pa k' r)) \<and>
        proc_max k' = proc_max k"
proof -
  let ?pa = "buffer_pa k r va"
  define k0 where "k0 = upd_msg ?pa (\<lambda>m. m\<lparr>m_receiver := pid (proc_table k r)\<rparr>) k"
  have cs: "r < proc_max k" "pid (proc_table k r) = of_nat r" "\<not> sending k r" "\<not> recving k r"
    "unused_buf (proc_max k) (sending k) (recving k) (msg_pa k) ?pa"
    using c by (simp_all add: caller_def)
  note fr = upd_msg_view [of ?pa "\<lambda>m. m\<lparr>m_receiver := pid (proc_table k r)\<rparr>" k, folded k0_def]
  have tab: "proc_table k0 = proc_table k" "proc_max k0 = proc_max k" by (simp_all add: k0_def)
  have v0: "kview k0 q" unfolding k0_def by (rule kview_upd_msg [OF v cs(5)])
  have u0: "unused_buf (proc_max k0) (sending k0) (recving k0) (msg_pa k0) ?pa"
    using cs(5) by (simp add: fr tab)
  have pa0: "buffer_pa k0 r va = ?pa" by (simp add: fr)
  have recv: "recv_msg k r va f = (if f = PROC_INTERRUPT then Inr (block_receiver k0 r ?pa va f, True)
    else case pick_sender k0 r f of Inl e \<Rightarrow> Inl e
      | Inr (k, Some sender) \<Rightarrow> Inr (accept_msg k sender ?pa, False)
      | Inr (k, None) \<Rightarrow> Inr (block_receiver k r ?pa va f, True))"
    using f unfolding recv_msg_def Let_def buffer_pa_def [symmetric] k0_def [symmetric] pending_def
    by (auto simp: tab)
  note d = vinvD [OF kview_vinv [OF v]]
  show ?thesis
  proof (cases "chosen f (q r)")
    case (Some s)
    then have fi: "f \<noteq> PROC_INTERRUPT" by (auto simp: chosen_def)
    obtain xs ys where sp: "q r = xs @ s # ys" "remove1 s (q r) = xs @ ys"
      using chosen_split [OF Some d(2) [OF cs(1)]] .
    have "case chosen f (q r) of None \<Rightarrow> pick_sender k0 r f = Inr (k0, None)
      | Some s \<Rightarrow> \<exists>k1. pick_sender k0 r f = Inr (k1, Some s) \<and> relinked k0 k1 r (remove1 s (q r)) q"
      using pick_sender_chosen [OF v0 _ _ fi] fb fi cs(1,2) by (simp only: tab) blast
    then obtain k1 where k1: "pick_sender k0 r f = Inr (k1, Some s)" "relinked k0 k1 r (xs @ ys) q"
      using Some sp(2) by auto
    have "s \<in> set (q r)" using sp by simp
    then have "sending k s" "s < proc_max k" using d(3) [OF cs(1), of s] by simp_all
    then have "msg_pa k s \<noteq> ?pa" using cs(5) unfolding unused_buf_def by blast
    then have "msgs k0 (msg_pa k0 s) = msgs k (msg_pa k s)" by (simp add: fr) (simp add: k0_def)
    then show ?thesis
      using accept_view [OF v0 _ sp(1) u0 k1(2)] cs(1) recv fi k1(1) Some sp(2) by (simp add: tab)
  next
    case None
    have nf: "f = PROC_ANY \<Longrightarrow> q r = []" "\<And>s. s < proc_max k0 \<Longrightarrow> f = of_nat s \<Longrightarrow> s \<notin> set (q r)"
    proof -
      show "f = PROC_ANY \<Longrightarrow> q r = []" using None by (auto simp: chosen_def split: list.splits)
      fix s assume s: "s < proc_max k0" "f = of_nat s"
      have N: "s < 2 ^ 31" using s(1) v by (simp add: kview_def tab)
      then have "unat f = s" using s(2) by (simp add: unat_of_nat32)
      moreover have "unat (0xFFFFFFFE :: u32) = 0xFFFFFFFE" "unat (0xFFFFFFFF :: u32) = 0xFFFFFFFF" by simp_all
      ultimately have "f \<noteq> PROC_ANY" "f \<noteq> PROC_INTERRUPT" using N by auto
      then show "s \<notin> set (q r)" using None \<open>unat f = s\<close> by (auto simp: chosen_def split: if_splits)
    qed
    have "r < proc_max k0" "\<not> sending k0 r" "\<not> recving k0 r" using cs by (simp_all add: fr tab)
    note blk = block_view [OF v0 this, of va f, unfolded pa0, OF u0 nf]
    have "recv_msg k r va f = Inr (block_receiver k0 r ?pa va f, True)"
    proof (cases "f = PROC_INTERRUPT")
      case True
      then show ?thesis using recv by simp
    next
      case False
      have "case chosen f (q r) of None \<Rightarrow> pick_sender k0 r f = Inr (k0, None)
        | Some s \<Rightarrow> \<exists>k1. pick_sender k0 r f = Inr (k1, Some s) \<and> relinked k0 k1 r (remove1 s (q r)) q"
        using pick_sender_chosen [OF v0 _ _ False] fb False cs(1,2) by (simp only: tab) blast
      then show ?thesis using recv False None by simp
    qed
    moreover note blk(1,2,4,5) blk(6) [unfolded tab(2)]
    ultimately show ?thesis unfolding None option.case by blast
  qed
qed

end
