(* ===== verification/Ipc_Props.thy ===== *)
theory Ipc_Props
  imports Ipc_Refine
begin

text \<open>
  What message passing guarantees: the behaviour of the two system calls, the invariant over
  every run that mixes sends, receives, interrupts and exceptions, and what the deadlock check
  decides.
\<close>

section \<open>Interrupts and exceptions keep the invariant\<close>

lemma wake_view:
  assumes v: "kview k q" and p: "p < proc_max k" "recving k p"
  shows "kview (upd_status p (clear_flag PROC_STATUS_RECEVING) (upd_msg (msg_pa k p) g k)) q"
proof -
  let ?k = "upd_status p (clear_flag PROC_STATUS_RECEVING) (upd_msg (msg_pa k p) g k)"
  have S: "sending ?k = sending k" "bodies ?k = bodies k" "heads ?k = heads k" "msg_pa ?k = msg_pa k"
    "proc_max ?k = proc_max k" "msgs ?k = (msgs k)(msg_pa k p := g (msgs k (msg_pa k p)))"
    by (simp_all add: sending_def bodies_def heads_def msg_pa_def fun_eq_iff)
  have R: "recving ?k = (recving k)(p := False)" by (simp add: recving_def fun_eq_iff)
  show ?thesis
    using vinv_wake [OF kview_vinv [OF v] p refl] v unfolding kview_def S R by blast
qed

lemma kview_flags:
  assumes v: "kview k q"
    and same: "sending k' = sending k" "recving k' = recving k" "msg_pa k' = msg_pa k" "msgs k' = msgs k"
      "bodies k' = bodies k" "heads k' = heads k" "proc_max k' = proc_max k"
  shows "kview k' q"
  using v unfolding kview_def same .

lemma send_interrupt_view:
  assumes v: "kview k q" and p: "p < proc_max k"
  shows "kview (send_interrupt_msg k irq p) q"
proof (cases "awaits_interrupt k p")
  case True
  then have "recving k p" by (simp add: awaits_interrupt_def recving_def)
  then show ?thesis using True wake_view [OF v p] by (simp add: send_interrupt_msg_def Let_def)
next
  case False
  show ?thesis
    by (rule kview_flags [OF v]) (use False in \<open>simp_all add: send_interrupt_msg_def Let_def sending_def
      recving_def msg_pa_def bodies_def heads_def fun_eq_iff\<close>)
qed

lemma send_exception_view:
  assumes v: "kview k q" and p: "p < proc_max k"
  shows "kview (send_exception_msg k e d p) q"
proof (cases "awaits_interrupt k p")
  case True
  then have "recving k p" by (simp add: awaits_interrupt_def recving_def)
  then show ?thesis using True wake_view [OF v p] by (simp add: send_exception_msg_def Let_def)
next
  case False
  show ?thesis
    by (rule kview_flags [OF v]) (use False in \<open>simp_all add: send_exception_msg_def Let_def sending_def
      recving_def msg_pa_def bodies_def heads_def fun_eq_iff\<close>)
qed

lemma take_interrupt_view:
  assumes v: "kview k q" and u: "unused_buf (proc_max k) (sending k) (recving k) (msg_pa k) pa"
  shows "kview (take_interrupt k r pa) q"
  by (rule kview_flags [OF kview_upd_msg [OF v u, of "\<lambda>m. m\<lparr>m_type := MSG_INTERRUPT,
      m_major := of_nat (fst (scan_avail (interrupt_suscribed_data k) [0..<16] 0)), m_sender := PROC_INTERRUPT\<rparr>"]])
    (simp_all add: take_interrupt_def Let_def split_beta sending_def recving_def msg_pa_def bodies_def
      heads_def fun_eq_iff)

lemma take_exception_view:
  assumes v: "kview k q" and u: "unused_buf (proc_max k) (sending k) (recving k) (msg_pa k) pa"
  shows "kview (take_exception k r pa) q"
proof -
  let ?e = "fst (scan_avail (exception_suscribed_data k) [0..<32] 0)"
  let ?d = "exception_suscribed_data k ?e"
  show ?thesis
    by (rule kview_flags [OF kview_upd_msg [OF v u, of "\<lambda>m. m\<lparr>m_type := MSG_EXCEPTION, m_major := of_nat ?e,
        m_d1 := (if avail ?d = 1 then idata ?d else 0), m_sender := PROC_INTERRUPT\<rparr>"]])
      (simp_all add: take_exception_def Let_def split_beta sending_def recving_def msg_pa_def bodies_def
        heads_def fun_eq_iff)
qed

section \<open>The deadlock check\<close>

definition hop :: "kernel \<Rightarrow> nat \<Rightarrow> nat" where
  "hop k p = unat (m_receiver (msgs k (msg_pa k p)))"

text \<open>The senders met on the way from \<open>p\<close>, until a process that is not sending.\<close>

lemma dead_lock_from_path:
  assumes "\<forall>i < n. sending k ((hop k ^^ i) p)" "\<not> sending k ((hop k ^^ n) p)"
  shows "dead_lock_from k src p =
    Some (\<exists>i < n. m_receiver (msgs k (msg_pa k ((hop k ^^ i) p))) = src)"
  using assms
proof (induction n arbitrary: p)
  case 0
  then show ?case by (subst dead_lock_from.simps) (simp add: sending_def)
next
  case (Suc n)
  have s: "sending k p" using Suc.prems(1) by auto
  have step: "(hop k ^^ i) (hop k p) = (hop k ^^ Suc i) p" for i by (simp only: funpow_Suc_right o_apply)
  have IH: "dead_lock_from k src (hop k p) =
    Some (\<exists>i < n. m_receiver (msgs k (msg_pa k ((hop k ^^ i) (hop k p)))) = src)"
    by (rule Suc.IH) (use Suc.prems in \<open>simp_all only: step, auto\<close>)
  have ex: "(\<exists>i < Suc n. P i) \<longleftrightarrow> P 0 \<or> (\<exists>i < n. P (Suc i))" for P
    by (metis less_Suc_eq_0_disj)
  show ?case
  proof (cases "m_receiver (msgs k (msg_pa k p)) = src")
    case True
    then show ?thesis using s by (subst dead_lock_from.simps) (auto simp: sending_def intro: exI [of _ 0])
  next
    case False
    then have "dead_lock_from k src p = dead_lock_from k src (hop k p)"
      using s by (subst dead_lock_from.simps) (simp add: sending_def hop_def)
    then show ?thesis using False unfolding IH ex step by simp
  qed
qed

definition sender_cycle :: "kernel \<Rightarrow> u32 \<Rightarrow> nat set \<Rightarrow> bool" where
  "sender_cycle k src C \<longleftrightarrow>
     (\<forall>p \<in> C. sending k p \<and> m_receiver (msgs k (msg_pa k p)) \<noteq> src \<and> hop k p \<in> C)"

lemma dead_lock_cycle_raw:
  assumes "dead_lock_from k src p = Some b"
  shows "sender_cycle k src C \<longrightarrow> p \<notin> C"
proof (rule dead_lock_from.raw_induct [where P = "\<lambda>k src p b. sender_cycle k src C \<longrightarrow> p \<notin> C", OF _ assms],
    intro impI notI)
  fix f k src p b
  assume IH: "\<And>k src p b. f k src p = Some b \<Longrightarrow> sender_cycle k src C \<longrightarrow> p \<notin> C"
    and body: "(if has (status (proc_table k p)) PROC_STATUS_SENDING
      then let to_pid = m_receiver (msgs k (msg_pa k p))
           in if to_pid = src then Some True else f k src (unat to_pid)
      else Some False) = Some b"
    and cyc: "sender_cycle k src C" and p: "p \<in> C"
  have "f k src (hop k p) = Some b"
    using body cyc p by (auto simp: sender_cycle_def sending_def hop_def Let_def)
  then have "hop k p \<notin> C" using IH cyc by blast
  then show False using cyc p by (auto simp: sender_cycle_def)
qed

lemma dead_lock_cycle:
  assumes "sender_cycle k src C" "unat dest \<in> C"
  shows "is_dead_lock k src dest = None"
proof (cases "is_dead_lock k src dest")
  case (Some b)
  then have "unat dest \<notin> C" using dead_lock_cycle_raw assms(1) unfolding is_dead_lock_def by blast
  then show ?thesis using assms(2) by blast
qed

section \<open>Runs of the system\<close>

lemma ipc_inv_kview: "ipc_inv k \<Longrightarrow> kview k (queue_of k)"
  by (simp add: ipc_inv_def)

lemma send_msg_Inr:
  assumes "send_msg k s va = Inr (k', b)" "caller k s va"
  shows "unat (m_receiver (msgs k (buffer_pa k s va))) < proc_max k"
    and "is_dead_lock (upd_msg (buffer_pa k s va) (\<lambda>m. m\<lparr>m_sender := of_nat s\<rparr>) k) (of_nat s)
      (m_receiver (msgs k (buffer_pa k s va))) \<noteq> None"
  using assms unfolding send_msg_def Let_def buffer_pa_def [symmetric]
  by (auto simp: caller_def split: if_splits option.splits)

lemma send_msg_inv:
  assumes "ipc_inv k" "caller k s va" "send_msg k s va = Inr (k', b)"
  shows "ipc_inv k'"
proof -
  let ?M = "(msgs k (buffer_pa k s va))\<lparr>m_sender := of_nat s\<rparr>"
  have e: "upd_msg (buffer_pa k s va) (\<lambda>_. ?M) k = upd_msg (buffer_pa k s va) (\<lambda>m. m\<lparr>m_sender := of_nat s\<rparr>) k"
    by (simp add: upd_msg_def)
  have "\<exists>q'. kview k' q'"
    using send_msg_refines [OF ipc_inv_kview [OF assms(1)] assms(2) refl send_msg_Inr(1) [OF assms(3,2)] refl]
      send_msg_Inr(2) [OF assms(3,2)] assms(3) unfolding e by (auto split: if_splits)
  then show ?thesis using kview_queue_of(1) by blast
qed

lemma recv_msg_Inr:
  assumes "recv_msg k r va f = Inr (k', b)" "f \<noteq> 0" "\<not> pending k r f"
  shows "f = PROC_ANY \<or> f = PROC_INTERRUPT \<or> unat f < proc_max k"
proof (rule ccontr)
  assume n: "\<not> (f = PROC_ANY \<or> f = PROC_INTERRUPT \<or> unat f < proc_max k)"
  then have "pick_sender (upd_msg a g k) r f = Inl OutOfBounds" for a g
    by (simp add: pick_sender_def)
  then show False using assms n unfolding recv_msg_def Let_def by (auto simp: pending_def)
qed

lemma recv_msg_inv:
  assumes inv: "ipc_inv k" and c: "caller k r va" and run: "recv_msg k r va f = Inr (k', b)"
  shows "ipc_inv k'"
proof -
  let ?pa = "buffer_pa k r va"
  let ?g = "\<lambda>m. m\<lparr>m_receiver := pid (proc_table k r)\<rparr>"
  have v: "kview k (queue_of k)" using ipc_inv_kview [OF inv] .
  have u: "unused_buf (proc_max k) (sending k) (recving k) (msg_pa k) ?pa" using c by (simp add: caller_def)
  have v0: "kview (upd_msg ?pa ?g k) (queue_of k)" using kview_upd_msg [OF v u] .
  have u0: "unused_buf (proc_max (upd_msg ?pa ?g k)) (sending (upd_msg ?pa ?g k))
      (recving (upd_msg ?pa ?g k)) (msg_pa (upd_msg ?pa ?g k)) ?pa"
    using u by (simp add: frame_facts)
  have "\<exists>q'. kview k' q'"
  proof (cases "f = 0")
    case True
    then show ?thesis using run v0 unfolding recv_msg_def Let_def buffer_pa_def [symmetric] by auto
  next
    case f0: False
    show ?thesis
    proof (cases "pending k r f")
      case True
      then have "k' = take_interrupt (upd_msg ?pa ?g k) r ?pa \<or> k' = take_exception (upd_msg ?pa ?g k) r ?pa"
        using run f0 unfolding recv_msg_def Let_def buffer_pa_def [symmetric] pending_def
        by (auto split: if_splits)
      then show ?thesis using take_interrupt_view [OF v0 u0] take_exception_view [OF v0 u0] by blast
    next
      case False
      from recv_msg_refines [OF v c f0 False recv_msg_Inr [OF run f0 False]]
      show ?thesis using run by (auto split: option.splits)
    qed
  qed
  then show ?thesis using kview_queue_of(1) by blast
qed

text \<open>
  A run: callers that are not blocked issue system calls with buffers of their own, and
  interrupts and exceptions are posted to processes at any moment.
\<close>

inductive ipc_step :: "kernel \<Rightarrow> kernel \<Rightarrow> bool" where
  send: "caller k s va \<Longrightarrow> send_msg k s va = Inr (k', b) \<Longrightarrow> ipc_step k k'"
| recv: "caller k r va \<Longrightarrow> recv_msg k r va f = Inr (k', b) \<Longrightarrow> ipc_step k k'"
| irq: "p < proc_max k \<Longrightarrow> ipc_step k (send_interrupt_msg k irq_no p)"
| exc: "p < proc_max k \<Longrightarrow> ipc_step k (send_exception_msg k exc_no d p)"

inductive_cases ipc_stepE: "ipc_step k k'"

lemma ipc_step_inv: "ipc_step k k' \<Longrightarrow> ipc_inv k \<Longrightarrow> ipc_inv k'"
proof (elim ipc_stepE)
  fix s va b assume "ipc_inv k" "caller k s va" "send_msg k s va = Inr (k', b)"
  then show "ipc_inv k'" by (rule send_msg_inv)
next
  fix r va f b assume "ipc_inv k" "caller k r va" "recv_msg k r va f = Inr (k', b)"
  then show "ipc_inv k'" by (rule recv_msg_inv)
next
  fix p irq_no assume "ipc_inv k" "k' = send_interrupt_msg k irq_no p" "p < proc_max k"
  then show "ipc_inv k'" using kview_queue_of(1) [OF send_interrupt_view [OF ipc_inv_kview]] by simp
next
  fix p exc_no d assume "ipc_inv k" "k' = send_exception_msg k exc_no d p" "p < proc_max k"
  then show "ipc_inv k'" using kview_queue_of(1) [OF send_exception_view [OF ipc_inv_kview]] by simp
qed

section \<open>A concrete system\<close>

text \<open>Three processes whose page directories map the first 4 MB one to one, all of them running.\<close>

definition demo_proc :: "nat \<Rightarrow> process" where
  "demo_proc i = \<lparr>stack = \<lparr>sf_gs = 0, sf_fs = 0, sf_es = 0, sf_ds = 0, sf_edi = 0, sf_esi = 0, sf_ebp = 0,
       sf_oesp = 0, sf_ebx = 0, sf_edx = 0, sf_ecx = 0, sf_eax = 0, sf_trap_no = 0, sf_err_code = 0,
       sf_eip = 0, sf_cs = 0, sf_eflags = 0, sf_esp = 0, sf_ss = 0\<rparr>,
     page_dir = 0x1000, status = PROC_STATUS_RUNNING, pid = of_nat i, parent_pid = 0, proc_name = [],
     pstack = 0, pstack_size = 0, exit_status = 0, p_msg = 0, queue_head = None, queue_body = None,
     next_proc = None, proc_prog = None\<rparr>"

definition demo_msg :: "u32 \<Rightarrow> message" where
  "demo_msg a = \<lparr>m_sender = 0, m_receiver = (if a = 0x100 then 2 else if a = 0x200 then 1 else 0),
     m_ready = False, m_type = 7, m_major = a, m_d1 = 0, m_d2 = 0, m_d3 = 0, m_d4 = 0\<rparr>"

definition demo :: kernel where
  "demo = \<lparr>proc_table = demo_proc, proc_max = 3, proc_running = Some 1, proc_list = Some 1, proc_count = 3,
     proc_bitmap = (\<lambda>_. 7), proc_bitmap_size = 1, page_tables = (\<lambda>_. 0x81), msgs = demo_msg, beats = 0,
     interrupt_methods = (\<lambda>_. \<lparr>im_pid = 0, im_func = 0, im_data = 0, im_avail = 0\<rparr>),
     interrupt_suscribed = (\<lambda>_. 0), interrupt_suscribed_data = (\<lambda>_. \<lparr>avail = 0, idata = 0\<rparr>),
     exception_suscribed = (\<lambda>_. 0), exception_suscribed_data = (\<lambda>_. \<lparr>avail = 0, idata = 0\<rparr>)\<rparr>"

lemma vinv_idle:
  assumes "\<And>i. i < N \<Longrightarrow> \<not> S i \<and> \<not> R i \<and> qh i = None"
  shows "vinv N S R pm ms nb qh (\<lambda>_. [])"
  using assms by (intro vinvI) auto

lemma demo_inv: "ipc_inv demo"
proof -
  have "kview demo (\<lambda>_. [])"
    unfolding kview_def
    by (intro conjI vinv_idle) (simp_all add: demo_def demo_proc_def sending_def recving_def heads_def)
  then show ?thesis by (rule kview_queue_of(1))
qed

lemma demo_buffer: "buffer_pa demo i 0x100 = 0x100" "buffer_pa demo i 0x200 = 0x200"
  by (simp_all add: buffer_pa_def vir2phy_def demo_def)

lemma demo_simps:
  "proc_max demo = 3" "msgs demo = demo_msg" "proc_table demo = demo_proc" "\<not> sending demo i" "\<not> recving demo i"
  by (simp_all add: demo_def demo_proc_def sending_def recving_def)

lemma demo_caller: "i < 3 \<Longrightarrow> va = 0x100 \<or> va = 0x200 \<Longrightarrow> caller demo i va"
  using demo_buffer by (auto simp: caller_def unused_buf_def demo_simps) (simp_all add: demo_proc_def)

lemma demo_queues: "i < 3 \<Longrightarrow> queue_of demo i = []"
  by (simp add: queue_of_def heads_def demo_simps) (simp add: demo_proc_def)

section \<open>Properties\<close>

text \<open>
  C1. A send by a running process to a process of the table, with the deadlock check
  terminating: a receiver that waits for this sender or for anyone gets the message, with the
  sender's pid filled in, in its own buffer and is made runnable, and no queue changes;
  otherwise the sender blocks, its message stays as sent and the sender is put at the end of
  the receiver's queue. The queue invariant holds again in both cases.
\<close>

theorem send_msg_correct:
  assumes "ipc_inv k" "caller k s va" "r = unat (m_receiver (msgs k (buffer_pa k s va)))" "r < proc_max k"
    and "M = (msgs k (buffer_pa k s va))\<lparr>m_sender := of_nat s\<rparr>"
    and "is_dead_lock (upd_msg (buffer_pa k s va) (\<lambda>_. M) k) (of_nat s) (m_receiver M) \<noteq> None"
  shows "if wakes k r (of_nat s)
    then \<exists>k'. send_msg k s va = Inr (k', False) \<and> ipc_inv k' \<and>
      (\<forall>x < proc_max k. queue_of k' x = queue_of k x) \<and>
      msgs k' (msg_pa k r) = M\<lparr>m_ready := False\<rparr> \<and> \<not> recving k' r \<and>
      has (status (proc_table k' r)) PROC_STATUS_RUNNING
    else \<exists>k'. send_msg k s va = Inr (k', True) \<and> ipc_inv k' \<and>
      (\<forall>x < proc_max k. queue_of k' x = (if x = r then queue_of k r @ [s] else queue_of k x)) \<and>
      sending k' s \<and> msgs k' (msg_pa k' s) = M"
proof -
  note ref = send_msg_refines [OF ipc_inv_kview [OF assms(1)] assms(2-6)]
  show ?thesis
  proof (cases "wakes k r (of_nat s)")
    case True
    then obtain k' where k': "send_msg k s va = Inr (k', False)" "kview k' (queue_of k)"
      "msgs k' (msg_pa k r) = M\<lparr>m_ready := False\<rparr>" "\<not> recving k' r"
      "has (status (proc_table k' r)) PROC_STATUS_RUNNING" "proc_max k' = proc_max k"
      using ref by auto
    then show ?thesis using True kview_queue_of [OF k'(2)] by auto
  next
    case False
    then obtain k' where k': "send_msg k s va = Inr (k', True)"
      "kview k' ((queue_of k)(r := queue_of k r @ [s]))" "sending k' s" "msgs k' (msg_pa k' s) = M"
      "proc_max k' = proc_max k"
      using ref by auto
    then show ?thesis using False kview_queue_of [OF k'(2)] by auto
  qed
qed

theorem send_msg_correct_witness:
  "\<exists>k'. send_msg demo 1 0x100 = Inr (k', True) \<and> ipc_inv k' \<and> queue_of k' 2 = [1] \<and> sending k' 1"
proof -
  let ?M = "(msgs demo (buffer_pa demo 1 0x100))\<lparr>m_sender := of_nat 1\<rparr>"
  have m: "m_receiver (msgs demo 0x100) = 2" by (simp add: demo_simps demo_msg_def)
  have "is_dead_lock (upd_msg (buffer_pa demo 1 0x100) (\<lambda>_. ?M) demo) (of_nat 1) (m_receiver ?M) = Some False"
    using demo_simps(4) [of 2] unfolding is_dead_lock_def demo_buffer
    by (subst dead_lock_from.simps) (simp add: m sending_def)
  then have dl: "is_dead_lock (upd_msg (buffer_pa demo 1 0x100) (\<lambda>_. ?M) demo) (of_nat 1) (m_receiver ?M) \<noteq> None"
    by simp
  have nw: "\<not> wakes demo 2 (of_nat 1)" using demo_simps(5) [of 2] by (simp add: wakes_def recving_def)
  have "2 = unat (m_receiver (msgs demo (buffer_pa demo 1 0x100)))" "2 < proc_max demo" "caller demo 1 0x100"
    by (simp_all add: demo_buffer m demo_simps(1) demo_caller)
  from send_msg_correct [OF demo_inv this(3,1,2) refl dl, unfolded if_not_P [OF nw]]
  have "\<exists>k'. send_msg demo 1 0x100 = Inr (k', True) \<and> ipc_inv k' \<and>
      (\<forall>x < proc_max demo. queue_of k' x = (if x = 2 then queue_of demo 2 @ [1] else queue_of demo x)) \<and>
      sending k' 1 \<and> msgs k' (msg_pa k' 1) = ?M" .
  then show ?thesis
  proof (elim exE conjE, intro exI conjI)
    fix k' assume "\<forall>x < proc_max demo. queue_of k' x = (if x = 2 then queue_of demo 2 @ [1] else queue_of demo x)"
    then show "queue_of k' 2 = [1]" using demo_queues [of 2] demo_simps(1) by simp
  qed
qed

text \<open>
  C2. A receive by a running process with no interrupt pending takes the oldest queued sender
  when it asks for anyone, and the named sender, wherever it stands in the queue, when it asks
  for one: the message arrives unchanged in the receiver's buffer, the sender is removed from
  the queue and made runnable. When there is no such sender the receiver blocks with its
  filter recorded. The queue invariant holds again in both cases.
\<close>

theorem recv_msg_correct:
  assumes "ipc_inv k" "caller k r va" "f \<noteq> 0" "\<not> pending k r f"
    and "f = PROC_ANY \<or> f = PROC_INTERRUPT \<or> unat f < proc_max k"
  shows "case chosen f (queue_of k r) of
      Some s \<Rightarrow> \<exists>k'. recv_msg k r va f = Inr (k', False) \<and> ipc_inv k' \<and>
        (\<forall>x < proc_max k. queue_of k' x = (if x = r then remove1 s (queue_of k r) else queue_of k x)) \<and>
        msgs k' (buffer_pa k r va) = msgs k (msg_pa k s) \<and> \<not> sending k' s \<and>
        has (status (proc_table k' s)) PROC_STATUS_RUNNING
    | None \<Rightarrow> \<exists>k'. recv_msg k r va f = Inr (k', True) \<and> ipc_inv k' \<and>
        (\<forall>x < proc_max k. queue_of k' x = queue_of k x) \<and> recving k' r \<and>
        m_sender (msgs k' (msg_pa k' r)) = f \<and> m_ready (msgs k' (msg_pa k' r))"
proof -
  note ref = recv_msg_refines [OF ipc_inv_kview [OF assms(1)] assms(2-5)]
  show ?thesis
  proof (cases "chosen f (queue_of k r)")
    case (Some s)
    then obtain k' where k': "recv_msg k r va f = Inr (k', False)"
      "kview k' ((queue_of k)(r := remove1 s (queue_of k r)))"
      "msgs k' (buffer_pa k r va) = msgs k (msg_pa k s)" "\<not> sending k' s"
      "has (status (proc_table k' s)) PROC_STATUS_RUNNING" "proc_max k' = proc_max k"
      using ref by auto
    then show ?thesis using Some kview_queue_of [OF k'(2)] by auto
  next
    case None
    then obtain k' where k': "recv_msg k r va f = Inr (k', True)" "kview k' (queue_of k)" "recving k' r"
      "m_sender (msgs k' (msg_pa k' r)) = f" "m_ready (msgs k' (msg_pa k' r))" "proc_max k' = proc_max k"
      using ref by auto
    then show ?thesis using None kview_queue_of [OF k'(2)] by auto
  qed
qed

theorem recv_msg_correct_witness:
  "\<exists>k'. recv_msg demo 2 0x200 PROC_ANY = Inr (k', True) \<and> ipc_inv k' \<and> recving k' 2"
proof -
  have "\<not> pending demo 2 PROC_ANY" by (simp add: pending_def demo_simps demo_proc_def)
  moreover have "chosen PROC_ANY (queue_of demo 2) = None" by (simp add: demo_queues chosen_def)
  ultimately show ?thesis
    using recv_msg_correct [OF demo_inv demo_caller [of 2 "0x200"], of PROC_ANY] by auto
qed

text \<open>
  C3. In every run of sends, receives, interrupts and exceptions, no rendezvous is lost: a
  process that waits for anyone has an empty queue, a process that waits for a particular
  sender does not have it in its queue, the queues hold exactly the processes that are
  sending, each in the queue of the receiver its message names and in no other, and no process
  is sending and receiving at once.
\<close>

theorem no_lost_rendezvous:
  assumes "ipc_step\<^sup>*\<^sup>* k0 k" "ipc_inv k0" "r < proc_max k"
  shows "distinct (queue_of k r) \<and>
    (\<forall>s. s \<in> set (queue_of k r) \<longleftrightarrow>
       s < proc_max k \<and> sending k s \<and> unat (m_receiver (msgs k (msg_pa k s))) = r) \<and>
    (recving k r \<longrightarrow> \<not> sending k r \<and>
       (m_sender (msgs k (msg_pa k r)) = PROC_ANY \<longrightarrow> queue_of k r = []) \<and>
       (\<forall>s < proc_max k. m_sender (msgs k (msg_pa k r)) = of_nat s \<longrightarrow> s \<notin> set (queue_of k r)))"
proof -
  have "ipc_inv k"
    using assms(1,2) by (induction rule: rtranclp_induct) (auto intro: ipc_step_inv)
  note d = vinvD [OF kview_vinv [OF ipc_inv_kview [OF this]]]
  show ?thesis using d(2,3,6-8) assms(3) by blast
qed

theorem no_lost_rendezvous_witness:
  "\<exists>k. ipc_step demo k \<and> recving k 2 \<and> queue_of k 2 = []"
proof -
  obtain k where k: "recv_msg demo 2 0x200 PROC_ANY = Inr (k, True)" "recving k 2"
    "m_sender (msgs k (msg_pa k 2)) = PROC_ANY" "proc_max k = 3"
  proof -
    have "\<not> pending demo 2 PROC_ANY" by (simp add: pending_def demo_simps demo_proc_def)
    moreover have "chosen PROC_ANY (queue_of demo 2) = None" by (simp add: demo_queues chosen_def)
    ultimately show thesis
      using that recv_msg_refines [OF ipc_inv_kview [OF demo_inv] demo_caller [of 2 "0x200"], of PROC_ANY]
      by (auto simp: demo_simps)
  qed
  then have step: "ipc_step demo k" by (intro ipc_step.recv [OF demo_caller k(1)]) simp_all
  then have "queue_of k 2 = []"
    using no_lost_rendezvous [OF r_into_rtranclp demo_inv, of k 2] step k by simp
  then show ?thesis using step k(2) by blast
qed

text \<open>
  C5. The deadlock check follows the chain of blocked senders from the destination. When the
  chain ends, after \<open>n\<close> senders, at a process that is not sending, the check returns, and it
  answers TRUE exactly when one of those senders is sending to the source.
\<close>

theorem is_dead_lock_correct:
  assumes "\<forall>i < n. sending k ((hop k ^^ i) (unat dest))" "\<not> sending k ((hop k ^^ n) (unat dest))"
  shows "is_dead_lock k src dest =
    Some (\<exists>i < n. m_receiver (msgs k (msg_pa k ((hop k ^^ i) (unat dest)))) = src)"
  unfolding is_dead_lock_def by (rule dead_lock_from_path [OF assms])

theorem is_dead_lock_correct_witness: "is_dead_lock demo 1 2 = Some False"
  using is_dead_lock_correct [of 0 demo 2 1] demo_simps(4) by simp

text \<open>
  The check does not end when the destination is on a cycle of blocked senders that does
  not contain the source: a send to either of two processes that are sending to each other
  hangs the kernel.
\<close>

theorem send_hangs_on_foreign_cycle:
  assumes "caller k s va" "M = (msgs k (buffer_pa k s va))\<lparr>m_sender := of_nat s\<rparr>"
    and "a < proc_max k" "b < proc_max k" "unat (m_receiver M) = a" "s \<noteq> a" "s \<noteq> b" "proc_max k \<le> 2 ^ 31"
    and "sending k a" "hop k a = b" "sending k b" "hop k b = a"
  shows "send_msg k s va = Inl Hang"
proof -
  let ?k = "upd_msg (buffer_pa k s va) (\<lambda>_. M) k"
  have k0: "upd_msg (buffer_pa k s va) (\<lambda>m. m\<lparr>m_sender := pid (proc_table k s)\<rparr>) k = ?k"
    using assms(1,2) by (simp add: caller_def upd_msg_def)
  have cs: "pid (proc_table k s) = of_nat s" "s < proc_max k"
    "unused_buf (proc_max k) (sending k) (recving k) (msg_pa k) (buffer_pa k s va)"
    using assms(1) by (simp_all add: caller_def)
  have ne: "msg_pa k a \<noteq> buffer_pa k s va" "msg_pa k b \<noteq> buffer_pa k s va"
    using cs(3) assms(3,4,9,11) unfolding unused_buf_def by blast+
  have h: "hop ?k a = b" "hop ?k b = a" using assms(10,12) ne by (simp_all add: hop_def frame_facts)
  have src: "m_receiver (msgs ?k (msg_pa ?k x)) \<noteq> of_nat s" if "hop ?k x = y" "y \<noteq> s" for x y
  proof
    assume "m_receiver (msgs ?k (msg_pa ?k x)) = of_nat s"
    then have "hop ?k x = unat (of_nat s :: u32)" by (simp add: hop_def)
    also have "\<dots> = s" using cs(2) assms(8) by (intro unat_of_nat32) simp
    finally show False using that by simp
  qed
  have "sender_cycle ?k (of_nat s) {a, b}"
    using assms(9,11) h src [OF h(1)] src [OF h(2)] assms(6,7)
    unfolding sender_cycle_def by (simp add: upd_msg_view)
  then have "is_dead_lock ?k (of_nat s) (m_receiver M) = None"
    by (rule dead_lock_cycle) (simp add: assms(5))
  then show ?thesis
    using assms(3,5) cs(1) unfolding send_msg_def Let_def buffer_pa_def [symmetric] k0 by simp
qed

definition demo_cycle :: kernel where
  "demo_cycle = demo\<lparr>
     proc_table := (\<lambda>i. if i = 0 then demo_proc 0
       else (demo_proc i)\<lparr>status := PROC_STATUS_SENDING, p_msg := (if i = 1 then 0x100 else 0x200)\<rparr>),
     msgs := (\<lambda>a. (demo_msg a)\<lparr>m_receiver := (if a = 0x100 then 2 else 1)\<rparr>)\<rparr>"

theorem send_hangs_on_foreign_cycle_witness: "send_msg demo_cycle 0 0x300 = Inl Hang"
proof -
  have tab: "page_tables demo_cycle = (\<lambda>_. 0x81)" "p_msg (proc_table demo_cycle 1) = 0x100"
    "p_msg (proc_table demo_cycle 2) = 0x200"
    by (simp_all add: demo_cycle_def demo_def)
  have pa: "msg_pa demo_cycle 1 = 0x100" "msg_pa demo_cycle 2 = 0x200" "buffer_pa demo_cycle 0 0x300 = 0x300"
    using tab unfolding msg_pa_def buffer_pa_def vir2phy_def Let_def by simp_all
  have st: "sending demo_cycle 1" "sending demo_cycle 2" "\<not> sending demo_cycle 0" "\<not> recving demo_cycle i" for i
    by (simp_all add: sending_def recving_def demo_cycle_def demo_proc_def)
  have hops: "hop demo_cycle 1 = 2" "hop demo_cycle 2 = 1"
    unfolding hop_def pa by (simp_all add: demo_cycle_def)
  have N: "proc_max demo_cycle = 3" by (simp add: demo_cycle_def demo_simps)
  have u: "unused_buf 3 (sending demo_cycle) (recving demo_cycle) (msg_pa demo_cycle) 0x300"
    unfolding unused_buf_def
  proof (intro allI impI)
    fix j :: nat
    assume "j < 3" "sending demo_cycle j \<or> recving demo_cycle j"
    then have "j = 1 \<or> j = 2" using st(3,4) by (cases "j = 0") auto
    then show "msg_pa demo_cycle j \<noteq> 0x300" using pa(1,2) by (elim disjE) simp_all
  qed
  have c: "caller demo_cycle 0 0x300"
    unfolding caller_def N pa using st u by (simp add: demo_cycle_def demo_proc_def)
  have m: "unat (m_receiver ((msgs demo_cycle (buffer_pa demo_cycle 0 0x300))\<lparr>m_sender := of_nat 0\<rparr>)) = 1"
    unfolding pa by (simp add: demo_cycle_def)
  show ?thesis
    by (rule send_hangs_on_foreign_cycle [OF c refl _ _ m _ _ _ st(1) hops(1) st(2) hops(2)])
      (simp_all add: N)
qed

end
