(* ===== verification/Core_Memory.thy ===== *)
theory Core_Memory
  imports Kernel_State
begin

text \<open>
  The kernel's own memory during boot: \<^verbatim>\<open>core/memory.c\<close> and the part of \<open>core_main\<close>
  (\<^verbatim>\<open>core/core.c\<close>) that lays out the core space and the process table.

  Memory is a map from kernel virtual addresses to 32-bit words; the code under consideration
  accesses it at word-aligned addresses. A \<open>list\<close> cell has its \<open>next\<close> pointer 4 bytes in.
  \<open>KERN_VEND\<close>, the end of the kernel image, is a symbol of the linker script and so a
  parameter. The loops that fill page directories have a trip count fixed on entry and are
  folds; the loop that frees pages advances an address that can wrap, so it is a partial
  function and \<open>None\<close> is a loop that does not end.
\<close>

section \<open>The free list of core pages\<close>

record core_mem =
  words :: "u32 \<Rightarrow> u32"
  freemem :: u32

abbreviation (input) PG_SIZE :: u32 where "PG_SIZE \<equiv> 0x1000"
abbreviation (input) KERN_BASE :: u32 where "KERN_BASE \<equiv> 0x80000000"
abbreviation (input) PDE_SPAN :: u32 where "PDE_SPAN \<equiv> 0x400000"

definition KP2V :: "u32 \<Rightarrow> u32" where
  "KP2V a = a + KERN_BASE"

definition KV2P :: "u32 \<Rightarrow> u32" where
  "KV2P a = a - KERN_BASE"

definition memset0 :: "u32 \<Rightarrow> u32 \<Rightarrow> (u32 \<Rightarrow> u32) \<Rightarrow> u32 \<Rightarrow> u32" where
  "memset0 p n w = (\<lambda>a. if a - p < n then 0 else w a)"

definition kfree_pages :: "u32 \<Rightarrow> core_mem \<Rightarrow> u32 \<Rightarrow> core_mem res" where
  "kfree_pages vend m p =
     (if p mod PG_SIZE \<noteq> 0 \<or> p < vend \<or> 0xE00000 \<le> KV2P p then Inl Hang
      else (let w = memset0 p PG_SIZE (words m);
                w = w(p + 4 := freemem m)
            in Inr (m\<lparr>words := w, freemem := p\<rparr>)))"

text \<open>The number of pages is ignored: one page is taken whatever the argument.\<close>

definition kalloc_pages :: "core_mem \<Rightarrow> u32 \<Rightarrow> core_mem \<times> u32" where
  "kalloc_pages m pages =
     (let current = freemem m
      in if current \<noteq> 0 then (m\<lparr>freemem := words m (current + 4)\<rparr>, current)
         else (m, current))"

text \<open>The address stored is that of the start of the range in every entry, as in the C code.\<close>

definition core_map_memory :: "(u32 \<Rightarrow> u32) \<Rightarrow> u32 \<Rightarrow> u32 \<Rightarrow> nat \<Rightarrow> (u32 \<Rightarrow> u32) \<times> u32" where
  "core_map_memory w page_table paddr pages =
     (fold (\<lambda>i w. w(page_table + 4 * of_nat i :=
              (paddr AND 0xFFFFF000) OR PG_Present OR PG_User OR PG_Writable)) [0..<pages] w,
      page_table)"

section \<open>The environment\<close>

record memory_zone =
  z_addr :: u32
  z_length :: u32
  z_type :: u32

record core_env =
  mmap_addr :: u32
  mmap_length :: u32
  core_vend :: u32
  core_space_start :: u32
  core_space_free_start :: u32
  core_space_free_end :: u32
  core_space_end :: u32
  memory_end :: u32
  env_page_dir :: u32
  memory_zones :: "nat \<Rightarrow> memory_zone"
  memory_zone_count :: nat
  env_proc_table :: u32
  env_proc_max :: u32
  env_proc_bitmap :: u32
  env_proc_bitmap_size :: u32

abbreviation (input) MEMORY_ZONE_MAX :: nat where "MEMORY_ZONE_MAX \<equiv> 16"
abbreviation (input) MEMORY_AVAILABLE :: u32 where "MEMORY_AVAILABLE \<equiv> 1"

section \<open>Boot\<close>

text \<open>
  The walk over the memory map of the boot loader. Each entry starts with its size, which does
  not count the size field itself. A seventeenth entry is written past \<open>memory_zone\<close>.
\<close>

function parse_mmap :: "(u32 \<Rightarrow> u32) \<Rightarrow> u32 \<Rightarrow> u32 \<Rightarrow> nat \<Rightarrow> u32 \<Rightarrow> (nat \<Rightarrow> memory_zone) \<Rightarrow>
    ((nat \<Rightarrow> memory_zone) \<times> nat \<times> u32) res" where
  "parse_mmap w mmap_end mmap i upper zones =
     (if mmap < mmap_end
      then if MEMORY_ZONE_MAX \<le> i then Inl OutOfBounds
           else (let addr_low = w (mmap + 4); len_low = w (mmap + 12); typ = w (mmap + 20);
                     zones = zones(i := \<lparr>z_addr = addr_low, z_length = len_low, z_type = typ\<rparr>);
                     upper = (if addr_low = 0x100000 \<and> typ = MEMORY_AVAILABLE then len_low else upper)
                 in parse_mmap w mmap_end (mmap + w mmap + 4) (i + 1) upper zones)
      else Inr (zones, i, upper))"
  by pat_completeness auto
termination by (relation "measure (\<lambda>(_, _, _, i, _, _). MEMORY_ZONE_MAX - i)") auto

declare parse_mmap.simps [simp del]

definition fill_pdes :: "u32 \<Rightarrow> nat \<Rightarrow> nat \<Rightarrow> u32 \<Rightarrow> u32 \<Rightarrow> (u32 \<Rightarrow> u32) \<Rightarrow> u32 \<Rightarrow> u32" where
  "fill_pdes dir first n pa flags w =
     fold (\<lambda>i w. w(dir + 4 * of_nat (first + i) := (pa + of_nat i * PDE_SPAN) OR flags)) [0..<n] w"

partial_function (option) free_range :: "u32 \<Rightarrow> u32 \<Rightarrow> core_mem \<Rightarrow> u32 \<Rightarrow> core_mem res option" where
  "free_range vend to m p =
     (if p + PG_SIZE \<le> to
      then (case kfree_pages vend m p of
              Inl f \<Rightarrow> Some (Inl f)
            | Inr m \<Rightarrow> free_range vend to m (p + PG_SIZE))
      else Some (Inr m))"

definition core_init_memory :: "u32 \<Rightarrow> core_env \<Rightarrow> core_mem \<Rightarrow> (core_env \<times> core_mem) res option" where
  "core_init_memory vend env m =
     (case parse_mmap (words m) (KP2V (mmap_addr env) + mmap_length env) (KP2V (mmap_addr env))
             0 0 (memory_zones env) of
        Inl f \<Rightarrow> Some (Inl f)
      | Inr (zones, i, upper_mem_length) \<Rightarrow>
          (let top_memory = 0x100000 + upper_mem_length;
               env = env\<lparr>memory_zones := zones, memory_zone_count := i, memory_end := top_memory\<rparr>;
               pg_count = unat (top_memory div PDE_SPAN);
               w = fill_pdes (env_page_dir env) 0 (pg_count + 1) 0
                     (PG_PS OR PG_Present OR PG_Writable) (words m);
               extpg_start = (core_space_end env + PG_SIZE - 1) AND NOT (PG_SIZE - 1);
               ext_pg_count = unat ((0xFFFFFFFF - extpg_start + PDE_SPAN - 1) div PDE_SPAN);
               w = fill_pdes (env_page_dir env) (unat (drop_bit 22 extpg_start)) ext_pg_count
                     extpg_start (PG_Present OR PG_Writable OR PG_PS OR PG_OS_SYS) w;
               p = (core_space_free_start env + PG_SIZE - 1) AND NOT (PG_SIZE - 1)
           in case free_range vend (core_space_free_end env) (m\<lparr>words := w\<rparr>) p of
                None \<Rightarrow> None
              | Some (Inl f) \<Rightarrow> Some (Inl f)
              | Some (Inr m) \<Rightarrow> Some (Inr (env, m))))"

text \<open>The page directory the kernel image contains, by index.\<close>

definition core_page_dir :: "nat \<Rightarrow> u32" where
  "core_page_dir k =
     (if k = 0 then 0 OR PG_Present OR PG_Writable OR PG_PS
      else if k = 1 then 0x00400000 OR PG_Present OR PG_Writable OR PG_PS
      else if k = 2 then 0x00800000 OR PG_Present OR PG_Writable OR PG_PS OR 0x0010
      else if k = 3 then 0x00C00000 OR PG_Present OR PG_Writable OR PG_PS
      else if k = 512 then 0 OR PG_Present OR PG_Writable OR PG_PS OR PG_User
      else if k = 513 then 0x00400000 OR PG_Present OR PG_Writable OR PG_PS
      else if k = 514 then 0x00800000 OR PG_Present OR PG_Writable OR PG_PS OR 0x0010
      else if k = 515 then 0x00C00000 OR PG_Present OR PG_Writable OR PG_PS
      else 0)"

text \<open>\<open>core_main\<close> up to the loading of the drivers.\<close>

definition core_layout :: "u32 \<Rightarrow> core_env \<Rightarrow> core_env" where
  "core_layout vend env =
     (let env = env\<lparr>core_vend := vend\<rparr>;
          env = env\<lparr>core_space_start := (vend AND 0xFFF00000) + 0x100000\<rparr>;
          env = env\<lparr>core_space_free_start := core_space_start env\<rparr>;
          env = env\<lparr>core_space_free_end := core_space_free_start env + 0x100000\<rparr>
      in env\<lparr>core_space_end := KP2V (16 * 1024 * 1024)\<rparr>)"

definition core_main_memory :: "u32 \<Rightarrow> core_env \<Rightarrow> core_mem \<Rightarrow> (core_env \<times> core_mem) res option" where
  "core_main_memory vend env m =
     (case core_init_memory vend (core_layout vend env) m of
        None \<Rightarrow> None
      | Some (Inl f) \<Rightarrow> Some (Inl f)
      | Some (Inr (env, m)) \<Rightarrow>
          Some (Inr (env, m\<lparr>words := memset0 (core_space_start env)
                               (core_space_end env - core_space_start env) (words m)\<rparr>)))"

abbreviation (input) SIZEOF_PROCESS :: u32 where "SIZEOF_PROCESS \<equiv> 160"

definition core_proc_layout :: "core_env \<Rightarrow> core_env" where
  "core_proc_layout env =
     (let env = env\<lparr>env_proc_table := core_space_free_end env\<rparr>;
          ideal_proc_max = (core_space_end env - core_space_free_end env) div SIZEOF_PROCESS;
          bitmap_size = ideal_proc_max div 8;
          env = env\<lparr>env_proc_max := ideal_proc_max -
                      (bitmap_size div SIZEOF_PROCESS +
                       (if bitmap_size mod SIZEOF_PROCESS = 0 then 0 else 1))\<rparr>;
          env = env\<lparr>env_proc_bitmap := core_space_end env - bitmap_size\<rparr>
      in env\<lparr>env_proc_bitmap_size := env_proc_max env div 8 div 4\<rparr>)"

section \<open>Rounding\<close>

lemma and_not_mask: "(a :: u32) AND NOT (mask n) = push_bit n (drop_bit n a)"
  by (rule bit_word_eqI) (auto simp: bit_simps)

lemma unat_push_drop: "unat (push_bit n (drop_bit n (a :: u32))) = unat a - unat a mod 2 ^ n"
proof -
  have tb: "unat (take_bit n a) = unat a mod 2 ^ n"
    by (simp only: unsigned_take_bit_eq take_bit_nat_def)
  have "push_bit n (drop_bit n a) = a - take_bit n a"
    using bits_ident [of n a] by (simp add: eq_diff_eq)
  moreover have "take_bit n a \<le> a"
    unfolding word_le_nat_alt tb by simp
  ultimately show ?thesis by (simp only: unat_sub tb)
qed

lemma unat_round_down: "unat ((a :: u32) AND NOT (mask n)) = unat a - unat a mod 2 ^ n"
  by (simp only: and_not_mask unat_push_drop)

lemma page_round_up:
  assumes "unat (a :: u32) mod 0x1000 = 0" "unat a + 0xFFF < 2 ^ 32"
  shows "(a + 0x1000 - 1) AND NOT (0x1000 - 1) = a"
proof -
  have e: "a + 0x1000 - 1 = a + 0xFFF" by simp
  have "unat (a + 0xFFF) = unat a + 0xFFF"
    using unat_le_iff_add [of a "0xFFF"] assms(2) by simp
  moreover have "(unat a + 0xFFF) mod 0x1000 = 0xFFF"
    using mod_add_left_eq [of "unat a" "0x1000" "0xFFF"] assms(1) by simp
  ultimately have "unat ((a + 0xFFF) AND NOT (mask 12)) = unat a"
    unfolding unat_round_down by simp
  then have "(a + 0xFFF) AND NOT (mask 12) = a" by (simp only: word_unat_eq_iff)
  then show ?thesis by (simp add: e mask_eq_exp_minus_1)
qed

section \<open>Page directories\<close>

lemma entry_inj:
  assumes "j < 1024" "k < 1024"
  shows "(dir :: u32) + 4 * of_nat j = dir + 4 * of_nat k \<longleftrightarrow> j = k"
proof
  assume "dir + 4 * of_nat j = dir + 4 * of_nat k"
  then have "(of_nat (4 * j) :: u32) = of_nat (4 * k)" by simp
  then have "4 * j = 4 * k" using assms by (subst (asm) of_nat_inj32) simp_all
  then show "j = k" by simp
qed simp

lemma fill_pdes_Suc:
  "fill_pdes dir first (Suc n) pa flags w =
   (fill_pdes dir first n pa flags w)
     (dir + 4 * of_nat (first + n) := (pa + of_nat n * PDE_SPAN) OR flags)"
  by (simp add: fill_pdes_def)

lemma fill_pdes_entry:
  assumes "first + n \<le> 1024" "k < 1024"
  shows "fill_pdes dir first n pa flags w (dir + 4 * of_nat k) =
    (if first \<le> k \<and> k < first + n then (pa + of_nat (k - first) * PDE_SPAN) OR flags
     else w (dir + 4 * of_nat k))"
  using assms(1)
proof (induction n)
  case 0
  show ?case by (auto simp: fill_pdes_def)
next
  case (Suc n)
  then have "dir + 4 * of_nat k = dir + 4 * of_nat (first + n) \<longleftrightarrow> k = first + n"
    using entry_inj [of k "first + n" dir] assms(2) by simp
  then show ?case using Suc unfolding fill_pdes_Suc fun_upd_apply by auto
qed

lemma fill_pdes_frame [frame_facts]:
  assumes "\<forall>k < 1024. a \<noteq> dir + 4 * of_nat k" "first + n \<le> 1024"
  shows "fill_pdes dir first n pa flags w a = w a"
  using assms(2)
proof (induction n)
  case 0
  then show ?case by (simp add: fill_pdes_def)
next
  case (Suc n)
  then have "first + n < 1024" by simp
  then have "a \<noteq> dir + 4 * of_nat (first + n)" using assms(1) by blast
  then show ?case using Suc unfolding fill_pdes_Suc fun_upd_apply by simp
qed

lemma span_entry: "of_nat (unat (drop_bit 22 (va :: u32))) * PDE_SPAN = push_bit 22 (drop_bit 22 va)"
  by (simp add: push_bit_eq_mult)

lemma vir2phy_large:
  assumes "mem (dir + 4 * drop_bit 22 va) = push_bit 22 b OR flags"
    and "flags < 0x1000" "flags AND PG_Present \<noteq> 0" "flags AND PG_PS \<noteq> 0"
  shows "vir2phy mem dir va = push_bit 22 b + take_bit 22 va"
proof -
  let ?e = "push_bit 22 b OR flags"
  have f: "\<not> bit flags n" if "12 \<le> n" for n
  proof -
    have "flags = take_bit 12 flags"
      using assms(2)
      by (simp only: word_unat_eq_iff word_less_nat_alt unsigned_take_bit_eq take_bit_nat_def) simp
    then show ?thesis using that by (metis bit_take_bit_iff not_less)
  qed
  have low: "?e AND take_bit 22 c = flags AND take_bit 22 c" for c
    by (rule bit_word_eqI) (auto simp: bit_simps)
  have "?e AND PG_Present = flags AND PG_Present" using low [of 1] by simp
  moreover have "?e AND PG_PS = flags AND PG_PS" using low [of "0x80"] by simp
  moreover have "?e AND NOT 0xFFF = push_bit 22 b"
  proof -
    have "(push_bit 22 b OR flags) AND NOT (mask 12) = push_bit 22 b"
      by (rule bit_word_eqI) (use f in \<open>auto simp: bit_simps not_less\<close>)
    then show ?thesis by (simp add: mask_eq_exp_minus_1)
  qed
  moreover have "va AND 0x3FFFFF = take_bit 22 va"
    by (simp add: take_bit_eq_mask mask_eq_exp_minus_1)
  ultimately show ?thesis using assms by (simp add: vir2phy_def Let_def)
qed

end
