(* ===== verification/Core_Props.thy ===== *)
theory Core_Props
  imports Core_Memory
begin

text \<open>
  What \<^verbatim>\<open>core/memory.c\<close> establishes at boot: the memory zones are those of the boot loader, the
  page directory maps the address ranges it should, and the free list holds the pages of the
  core free region; and that \<open>core_main\<close> then clears the memory in which this list is kept.
\<close>

section \<open>The free list as a list of pages\<close>

fun page_list :: "(u32 \<Rightarrow> u32) \<Rightarrow> u32 \<Rightarrow> u32 list \<Rightarrow> bool" where
  "page_list w h [] \<longleftrightarrow> h = 0"
| "page_list w h (p # ps) \<longleftrightarrow> h = p \<and> p \<noteq> 0 \<and> page_list w (w (p + 4)) ps"

lemma page_list_frame: "\<forall>p \<in> set ps. w' (p + 4) = w (p + 4) \<Longrightarrow> page_list w' h ps = page_list w h ps"
  by (induction ps arbitrary: h) auto

lemma kalloc_pages_Nil: "page_list (words m) (freemem m) [] \<Longrightarrow> kalloc_pages m n = (m, 0)"
  by (simp add: kalloc_pages_def)

lemma kalloc_pages_Cons:
  assumes "page_list (words m) (freemem m) (p # ps)"
  obtains m' where "kalloc_pages m n = (m', p)" "words m' = words m"
    "page_list (words m') (freemem m') ps"
  using assms by (simp add: kalloc_pages_def Let_def)

definition page_run :: "u32 \<Rightarrow> nat \<Rightarrow> u32 list" where
  "page_run p n = map (\<lambda>i. p + of_nat i * PG_SIZE) [0..<n]"

lemma page_run_Suc: "page_run p (Suc n) = p # page_run (p + PG_SIZE) n"
  by (simp add: page_run_def upt_rec [of 0] map_Suc_upt [symmetric] comp_def algebra_simps
      del: upt_Suc)

lemma unat_page_run:
  assumes "unat p + 0x1000 * n \<le> 2 ^ 32" "i < n"
  shows "unat (p + of_nat i * PG_SIZE) = unat p + 0x1000 * i"
proof -
  have "unat p + i * 0x1000 < 2 ^ 32" using assms by simp
  then show ?thesis using unat_le_iff_add [of p "i * 0x1000"] by simp
qed

lemma memset0_eq:
  assumes "unat p + unat n \<le> 2 ^ 32"
  shows "memset0 p n w a = (if unat p \<le> unat a \<and> unat a < unat p + unat n then 0 else w a)"
proof (cases "p \<le> a")
  case True
  then have "unat (a - p) = unat a - unat p" by (rule unat_sub)
  then show ?thesis using True by (auto simp: memset0_def word_less_nat_alt word_le_nat_alt)
next
  case False
  then have "unat (a - p) = 2 ^ 32 + unat a - unat p"
    by (simp add: unat_sub_if_size word_size word_le_nat_alt)
  then show ?thesis using False assms
    by (auto simp: memset0_def word_less_nat_alt word_le_nat_alt)
qed

lemma unat_p4: "unat (p :: u32) + 4 < 2 ^ 32 \<Longrightarrow> unat (p + 4) = unat p + 4"
  using unat_le_iff_add [of p 4] by simp

lemma kfree_pages_ok:
  assumes "unat p mod 0x1000 = 0" "vend \<le> p" "unat p < 0x80E00000" "unat p \<ge> 0x80000000"
  obtains m' where "kfree_pages vend m p = Inr m'" "freemem m' = p" "words m' (p + 4) = freemem m"
    "\<forall>a. unat a < unat p \<or> unat p + 0x1000 \<le> unat a \<longrightarrow> words m' a = words m a"
proof -
  let ?w = "(memset0 p PG_SIZE (words m))(p + 4 := freemem m)"
  define m1 where "m1 = m\<lparr>words := ?w, freemem := p\<rparr>"
  have "unat (KV2P p) = unat p - 0x80000000"
    unfolding KV2P_def using assms(4) by (subst unat_sub) (simp_all add: word_le_nat_alt)
  then have "\<not> 0xE00000 \<le> KV2P p" using assms(3) by (simp add: word_le_nat_alt)
  moreover have "p mod PG_SIZE = 0"
    using assms(1) by (simp add: word_unat_eq_iff unat_mod)
  moreover have "\<not> p < vend" using assms(2) by simp
  ultimately have k: "kfree_pages vend m p = Inr m1"
    by (simp add: kfree_pages_def Let_def m1_def)
  have f: "words m1 a = words m a" if "unat a < unat p \<or> unat p + 0x1000 \<le> unat a" for a
  proof -
    have "unat (p + 4) = unat p + 4" using assms(3) by (intro unat_p4) simp
    then have "a \<noteq> p + 4" using that by auto
    moreover have "memset0 p PG_SIZE (words m) a = words m a"
      using that assms(3) by (subst memset0_eq) auto
    ultimately show ?thesis by (simp add: m1_def)
  qed
  show ?thesis
    by (rule that [OF k]) (use f in \<open>auto simp: m1_def\<close>)
qed

lemma free_range_list:
  assumes "unat p mod 0x1000 = 0" "vend \<le> p" "unat to = unat p + 0x1000 * n"
    and "unat to \<le> 0x80E00000" "unat p \<ge> 0x80000000"
    and "page_list (words m) (freemem m) ps" "\<forall>q \<in> set ps. unat q + 0x1000 \<le> unat p"
  shows "\<exists>m'. free_range vend to m p = Some (Inr m') \<and>
    page_list (words m') (freemem m') (rev (page_run p n) @ ps) \<and>
    (\<forall>a. unat a < unat p \<or> unat to \<le> unat a \<longrightarrow> words m' a = words m a)"
  using assms
proof (induction n arbitrary: m p ps)
  case 0
  then have "p = to" by (simp add: word_unat_eq_iff)
  moreover have "unat (to + PG_SIZE) = unat to + 0x1000"
    using 0 unat_le_iff_add [of to "0x1000"] by simp
  ultimately have "free_range vend to m p = Some (Inr m)"
    by (subst free_range.simps) (simp add: word_le_nat_alt)
  then show ?case using 0 by (simp add: page_run_def)
next
  case (Suc n)
  obtain m1 where m1: "kfree_pages vend m p = Inr m1" "freemem m1 = p" "words m1 (p + 4) = freemem m"
    "\<forall>a. unat a < unat p \<or> unat p + 0x1000 \<le> unat a \<longrightarrow> words m1 a = words m a"
    by (rule kfree_pages_ok [of p vend m]) (use Suc.prems in auto)
  have nx: "unat (p + PG_SIZE) = unat p + 0x1000"
    using Suc.prems unat_le_iff_add [of p "0x1000"] by simp
  have "page_list (words m1) (freemem m) ps"
  proof (subst page_list_frame [where w = "words m"])
    show "\<forall>q \<in> set ps. words m1 (q + 4) = words m (q + 4)"
    proof
      fix q assume "q \<in> set ps"
      then have q: "unat q + 0x1000 \<le> unat p" using Suc.prems by auto
      then have "unat (q + 4) = unat q + 4" using unat_lt32 [of p] by (intro unat_p4) simp
      then show "words m1 (q + 4) = words m (q + 4)" using m1(4) q by simp
    qed
  qed (use Suc.prems in simp)
  then have pl: "page_list (words m1) (freemem m1) (p # ps)"
    using m1 Suc.prems by auto
  have "\<exists>m'. free_range vend to m1 (p + PG_SIZE) = Some (Inr m') \<and>
    page_list (words m') (freemem m') (rev (page_run (p + PG_SIZE) n) @ (p # ps)) \<and>
    (\<forall>a. unat a < unat (p + PG_SIZE) \<or> unat to \<le> unat a \<longrightarrow> words m' a = words m1 a)"
  proof (rule Suc.IH [OF _ _ _ _ _ pl])
    show "unat (p + PG_SIZE) mod 0x1000 = 0" "vend \<le> p + PG_SIZE"
      using Suc.prems nx by (auto simp: word_le_nat_alt)
  qed (use Suc.prems nx in auto)
  then obtain m' where m': "free_range vend to m1 (p + PG_SIZE) = Some (Inr m')"
    "page_list (words m') (freemem m') (rev (page_run p (Suc n)) @ ps)"
    "\<forall>a. unat a < unat (p + PG_SIZE) \<or> unat to \<le> unat a \<longrightarrow> words m' a = words m1 a"
    by (auto simp: page_run_Suc)
  have "p + PG_SIZE \<le> to" using nx Suc.prems by (simp add: word_le_nat_alt)
  then have "free_range vend to m p = Some (Inr m')"
    using m1(1) m'(1) by (subst free_range.simps) simp
  moreover have "\<forall>a. unat a < unat p \<or> unat to \<le> unat a \<longrightarrow> words m' a = words m a"
    using m1(4) m'(3) nx Suc.prems(3) by auto
  ultimately show ?case using m'(2) by blast
qed

section \<open>The memory map\<close>

fun mmap_at :: "(u32 \<Rightarrow> u32) \<Rightarrow> u32 \<Rightarrow> (u32 \<times> memory_zone) list \<Rightarrow> bool" where
  "mmap_at w a [] \<longleftrightarrow> True"
| "mmap_at w a ((sz, z) # es) \<longleftrightarrow>
     w a = sz \<and> w (a + 4) = z_addr z \<and> w (a + 12) = z_length z \<and> w (a + 20) = z_type z \<and>
     mmap_at w (a + sz + 4) es"

definition mmap_bytes :: "(u32 \<times> memory_zone) list \<Rightarrow> nat" where
  "mmap_bytes es = (\<Sum>(sz, z) \<leftarrow> es. unat sz + 4)"

definition upper_zone :: "memory_zone \<Rightarrow> bool" where
  "upper_zone z \<longleftrightarrow> z_addr z = 0x100000 \<and> z_type z = MEMORY_AVAILABLE"

definition upper_of :: "u32 \<Rightarrow> memory_zone list \<Rightarrow> u32" where
  "upper_of u zs = fold (\<lambda>z u. if upper_zone z then z_length z else u) zs u"

lemma parse_mmap_ok:
  assumes "mmap_at w a es" "i + length es \<le> MEMORY_ZONE_MAX"
    and "unat a + mmap_bytes es < 2 ^ 32" "unat b = unat a + mmap_bytes es"
  shows "\<exists>zones'. parse_mmap w b a i u zones = Inr (zones', i + length es, upper_of u (map snd es)) \<and>
    (\<forall>j. zones' j = (if i \<le> j \<and> j < i + length es then snd (es ! (j - i)) else zones j))"
  using assms
proof (induction es arbitrary: a i u zones)
  case Nil
  then have "a = b" by (simp add: mmap_bytes_def word_unat_eq_iff)
  then show ?case by (subst parse_mmap.simps) (auto simp: upper_of_def)
next
  case (Cons e es)
  obtain sz z where e: "e = (sz, z)" by fastforce
  have m: "mmap_bytes (e # es) = unat sz + 4 + mmap_bytes es" by (simp add: mmap_bytes_def e)
  have "unat (a + of_nat (unat sz + 4)) = unat a + (unat sz + 4)"
    using Cons.prems m by (intro unat_le_iff_add) simp
  then have nx: "unat (a + w a + 4) = unat a + (unat sz + 4)"
    using Cons.prems e by (simp add: add.assoc)
  let ?u = "if upper_zone z then z_length z else u"
  have "\<exists>zones'. parse_mmap w b (a + w a + 4) (i + 1) ?u (zones(i := z)) =
      Inr (zones', i + 1 + length es, upper_of ?u (map snd es)) \<and>
    (\<forall>j. zones' j = (if i + 1 \<le> j \<and> j < i + 1 + length es then snd (es ! (j - (i + 1)))
      else (zones(i := z)) j))"
    by (rule Cons.IH) (use Cons.prems e m nx in auto)
  then obtain zones' where z: "parse_mmap w b (a + w a + 4) (i + 1) ?u (zones(i := z)) =
      Inr (zones', i + 1 + length es, upper_of ?u (map snd es))"
    "\<And>j. zones' j = (if i + 1 \<le> j \<and> j < i + 1 + length es then snd (es ! (j - (i + 1)))
      else (zones(i := z)) j)" by blast
  have zeq: "\<lparr>z_addr = w (a + 4), z_length = w (a + 12), z_type = w (a + 20)\<rparr> = z"
    using Cons.prems(1) e by simp
  have "unat sz + 4 > 0" by simp
  then have "a < b" using Cons.prems(4) m by (simp add: word_less_nat_alt)
  then have "parse_mmap w b a i u zones = Inr (zones', i + length (e # es), upper_of u (map snd (e # es)))"
  proof -
    have "(if w (a + 4) = 0x100000 \<and> w (a + 20) = MEMORY_AVAILABLE then w (a + 12) else u) = ?u"
      using Cons.prems(1) e by (simp add: upper_zone_def)
    then have "parse_mmap w b a i u zones = parse_mmap w b (a + w a + 4) (i + 1) ?u (zones(i := z))"
      using \<open>a < b\<close> Cons.prems(2)
      by (subst parse_mmap.simps) (simp only: zeq Let_def if_True, simp)
    then show ?thesis using z(1) e by (simp add: upper_of_def)
  qed
  moreover have "zones' j = (if i \<le> j \<and> j < i + length (e # es) then snd ((e # es) ! (j - i))
      else zones j)" for j
    using z(2) [of j] e by (auto simp: nth_Cons')
  ultimately show ?case by blast
qed

section \<open>The machine at entry to \<open>core_main\<close>\<close>

text \<open>
  The kernel image ends between 1 MB and 13 MB above \<open>KERN_BASE\<close> and contains the page
  directory; the boot loader has put a memory map of at most 16 entries into low memory.
\<close>

definition boot_ok :: "u32 \<Rightarrow> core_env \<Rightarrow> core_mem \<Rightarrow> (u32 \<times> memory_zone) list \<Rightarrow> bool" where
  "boot_ok vend env m es \<longleftrightarrow>
     KERN_BASE + 0x100000 \<le> vend \<and> vend < KERN_BASE + 0xD00000 \<and> freemem m = 0 \<and>
     KERN_BASE \<le> env_page_dir env \<and> env_page_dir env \<le> vend - 0x1000 \<and>
     (\<forall>k < 1024. words m (env_page_dir env + 4 * of_nat k) = core_page_dir k) \<and>
     mmap_at (words m) (KP2V (mmap_addr env)) es \<and> length es \<le> MEMORY_ZONE_MAX \<and>
     unat (KP2V (mmap_addr env)) + mmap_bytes es < 2 ^ 32 \<and>
     unat (mmap_length env) = mmap_bytes es"

lemma core_layout_bounds:
  assumes "KERN_BASE + 0x100000 \<le> vend" "vend < KERN_BASE + 0xD00000"
  shows "vend \<le> core_space_start (core_layout vend env)"
    "unat (core_space_start (core_layout vend env)) mod 0x1000 = 0"
    "core_space_free_start (core_layout vend env) = core_space_start (core_layout vend env)"
    "unat (core_space_free_end (core_layout vend env)) =
     unat (core_space_start (core_layout vend env)) + 0x100000"
    "unat (core_space_free_end (core_layout vend env)) \<le> 0x80E00000"
    "core_space_end (core_layout vend env) = 0x81000000"
proof -
  have "(0xFFF00000 :: u32) = NOT (mask 20)" by (simp add: mask_eq_exp_minus_1)
  then have r: "unat (vend AND 0xFFF00000) = unat vend - unat vend mod 0x100000"
    by (simp only: unat_round_down) simp
  have v: "0x80100000 \<le> unat vend" "unat vend < 0x80D00000"
    using assms by (simp_all add: word_le_nat_alt word_less_nat_alt)
  have "unat vend - unat vend mod 0x100000 = unat vend div 0x100000 * 0x100000"
    by (simp add: minus_mod_eq_div_mult)
  moreover have "unat vend div 0x100000 < 0x80D" using v by auto
  ultimately have b: "unat (vend AND 0xFFF00000) \<le> 0x80C00000"
    "unat (vend AND 0xFFF00000) mod 0x1000 = 0" unfolding r by auto
  have s: "unat ((vend AND 0xFFF00000) + 0x100000) = unat (vend AND 0xFFF00000) + 0x100000"
    using b unat_le_iff_add [of "vend AND 0xFFF00000" "0x100000"] by simp
  have e: "unat ((vend AND 0xFFF00000) + 0x200000) = unat (vend AND 0xFFF00000) + 0x200000"
    using b unat_le_iff_add [of "vend AND 0xFFF00000" "0x200000"] by simp
  have "unat vend mod 0x100000 < 0x100000" by simp
  then show "vend \<le> core_space_start (core_layout vend env)"
    using s r v by (simp add: core_layout_def word_le_nat_alt)
  show "unat (core_space_start (core_layout vend env)) mod 0x1000 = 0"
    using s b by (auto simp: core_layout_def mod_add_eq [symmetric] simp del: mod_add_eq)
  show "core_space_free_start (core_layout vend env) = core_space_start (core_layout vend env)"
    by (simp add: core_layout_def)
  show "unat (core_space_free_end (core_layout vend env)) =
     unat (core_space_start (core_layout vend env)) + 0x100000"
    "unat (core_space_free_end (core_layout vend env)) \<le> 0x80E00000"
    "core_space_end (core_layout vend env) = 0x81000000"
    using s e b by (simp_all add: core_layout_def KP2V_def add.commute)
qed

section \<open>Properties\<close>

definition booted :: "u32 \<Rightarrow> core_env \<Rightarrow> core_mem \<Rightarrow> (u32 \<times> memory_zone) list \<Rightarrow>
    core_env \<Rightarrow> core_mem \<Rightarrow> bool" where
  "booted vend env m es env' m' \<longleftrightarrow>
     memory_zone_count env' = length es \<and>
     (\<forall>i < length es. memory_zones env' i = snd (es ! i)) \<and>
     memory_end env' = 0x100000 + upper_of 0 (map snd es) \<and>
     (\<forall>va. va < memory_end env' \<or> 0x81000000 \<le> va \<longrightarrow> vir2phy (words m') (env_page_dir env) va = va) \<and>
     (\<forall>va. KERN_BASE \<le> va \<and> va < 0x81000000 \<longrightarrow>
        vir2phy (words m') (env_page_dir env) va =
          (if memory_end env' < KERN_BASE then KV2P va
           else if drop_bit 22 va \<le> drop_bit 22 (memory_end env') then va else KV2P va)) \<and>
     page_list (words m') (freemem m') (rev (page_run (core_space_start (core_layout vend env)) 256))"

lemma core_page_dir_kernel:
  assumes "512 \<le> k" "k < 516"
  shows "\<exists>f. core_page_dir k = push_bit 22 (of_nat k - 512) OR f \<and> f < 0x1000 \<and>
    f AND PG_Present \<noteq> 0 \<and> f AND PG_PS \<noteq> 0"
proof -
  from assms have "k = 512 \<or> k = 513 \<or> k = 514 \<or> k = 515" by auto
  then show ?thesis
  proof (elim disjE)
    assume "k = 512" then show ?thesis by (intro exI [of _ "0x87"]) (simp add: core_page_dir_def)
  next
    assume "k = 513" then show ?thesis by (intro exI [of _ "0x83"]) (simp add: core_page_dir_def)
  next
    assume "k = 514" then show ?thesis by (intro exI [of _ "0x93"]) (simp add: core_page_dir_def)
  next
    assume "k = 515" then show ?thesis by (intro exI [of _ "0x83"]) (simp add: core_page_dir_def)
  qed
qed

lemma dir_index: "(va :: u32) = push_bit 22 (drop_bit 22 va) + take_bit 22 va"
  using bits_ident [of 22 va] by simp

lemma boot_maps:
  assumes dir: "\<forall>k < 1024. w (dir + 4 * of_nat k) = core_page_dir k"
    and w': "\<And>k. k < 1024 \<Longrightarrow> w' (dir + 4 * of_nat k) =
      fill_pdes dir 516 508 0x81000000 0x283 (fill_pdes dir 0 (unat (drop_bit 22 tm) + 1) 0 0x83 w)
        (dir + 4 * of_nat k)"
  shows "va < tm \<or> 0x81000000 \<le> va \<Longrightarrow> vir2phy w' dir va = va"
    and "KERN_BASE \<le> va \<and> va < 0x81000000 \<Longrightarrow> vir2phy w' dir va =
      (if drop_bit 22 va \<le> drop_bit 22 tm then va else KV2P va)"
proof -
  let ?k = "unat (drop_bit 22 va)" and ?t = "unat (drop_bit 22 tm)"
  have uk: "unat (drop_bit 22 v) = unat v div 0x400000" for v :: u32
    by (simp add: drop_bit_eq_div unat_div)
  have kb: "?k < 1024" "?t < 1024" unfolding uk using unat_lt32 [of va] unat_lt32 [of tm] by auto
  have "w' (dir + 4 * of_nat k) = (if 516 \<le> k then (0x81000000 + of_nat (k - 516) * PDE_SPAN) OR 0x283
      else if k \<le> ?t then (of_nat k * PDE_SPAN) OR 0x83 else core_page_dir k)" if "k < 1024" for k
    unfolding w' [OF that] using that kb(2) dir by (simp add: fill_pdes_entry del: of_nat_diff)
  from this [OF kb(1)] have e: "w' (dir + 4 * drop_bit 22 va) =
      (if 516 \<le> ?k then (0x81000000 + of_nat (?k - 516) * PDE_SPAN) OR 0x283
       else if ?k \<le> ?t then (of_nat ?k * PDE_SPAN) OR 0x83 else core_page_dir ?k)" by simp
  have hi: "0x81000000 + of_nat (?k - 516) * PDE_SPAN = push_bit 22 (drop_bit 22 va)" if "516 \<le> ?k"
  proof -
    obtain x :: u32 where x: "of_nat (?k - 516) = x" by simp
    moreover have "(of_nat (?k - 516) :: u32) = drop_bit 22 va - 516" using that by (simp add: of_nat_diff)
    ultimately have "drop_bit 22 va = 516 + x" by (metis add.commute diff_add_cancel)
    then show ?thesis unfolding x by (simp add: push_bit_eq_mult distrib_right)
  qed
  have id: "vir2phy w' dir va = va" if "516 \<le> ?k \<or> ?k \<le> ?t"
  proof (cases "516 \<le> ?k")
    case True
    then have "w' (dir + 4 * drop_bit 22 va) = push_bit 22 (drop_bit 22 va) OR 0x283"
      using e hi by simp
    then have "vir2phy w' dir va = push_bit 22 (drop_bit 22 va) + take_bit 22 va"
      by (rule vir2phy_large) simp_all
    then show ?thesis using dir_index by metis
  next
    case False
    then have "w' (dir + 4 * drop_bit 22 va) = push_bit 22 (drop_bit 22 va) OR 0x83"
      using e that span_entry [of va] by simp
    then have "vir2phy w' dir va = push_bit 22 (drop_bit 22 va) + take_bit 22 va"
      by (rule vir2phy_large) simp_all
    then show ?thesis using dir_index by metis
  qed
  have ge: "516 \<le> ?k \<longleftrightarrow> 0x81000000 \<le> va"
    unfolding uk word_le_nat_alt by auto
  show "vir2phy w' dir va = va" if "va < tm \<or> 0x81000000 \<le> va"
  proof (rule id)
    have "?k \<le> ?t" if "va < tm"
      unfolding uk using that by (intro div_le_mono) (simp add: word_less_nat_alt)
    then show "516 \<le> ?k \<or> ?k \<le> ?t" using that ge by blast
  qed
  assume va: "KERN_BASE \<le> va \<and> va < 0x81000000"
  show "vir2phy w' dir va = (if drop_bit 22 va \<le> drop_bit 22 tm then va else KV2P va)"
  proof (cases "?k \<le> ?t")
    case True
    then show ?thesis using id by (simp add: word_le_nat_alt)
  next
    case False
    have k: "512 \<le> ?k" "?k < 516"
      unfolding uk using va by (auto simp: word_le_nat_alt word_less_nat_alt)
    then obtain f where f: "core_page_dir ?k = push_bit 22 (drop_bit 22 va - 512) OR f" "f < 0x1000"
      "f AND PG_Present \<noteq> 0" "f AND PG_PS \<noteq> 0"
      using core_page_dir_kernel [of ?k] by auto
    have "w' (dir + 4 * drop_bit 22 va) = push_bit 22 (drop_bit 22 va - 512) OR f"
      using e False k f(1) by simp
    then have "vir2phy w' dir va = push_bit 22 (drop_bit 22 va - 512) + take_bit 22 va"
      using f by (intro vir2phy_large)
    also have "\<dots> = KV2P va"
      unfolding KV2P_def by (subst (3) dir_index) (simp add: push_bit_eq_mult algebra_simps)
    finally show ?thesis using False by (simp add: word_le_nat_alt)
  qed
qed

lemma core_init_memory_boot:
  assumes b: "boot_ok vend env m es"
  obtains env' m' where "core_init_memory vend (core_layout vend env) m = Some (Inr (env', m'))"
    "booted vend env m es env' m'"
    "core_space_start env' = core_space_start (core_layout vend env)" "core_space_end env' = 0x81000000"
proof -
  let ?e = "core_layout vend env"
  let ?d = "env_page_dir env"
  note ok = b [unfolded boot_ok_def]
  have v: "KERN_BASE + 0x100000 \<le> vend" "vend < KERN_BASE + 0xD00000" using ok by simp_all
  note L = core_layout_bounds [OF v, of env]
  have f: "mmap_addr ?e = mmap_addr env" "mmap_length ?e = mmap_length env"
    "env_page_dir ?e = ?d" by (simp_all add: core_layout_def)
  have end_ok: "unat (KP2V (mmap_addr env) + mmap_length env) = unat (KP2V (mmap_addr env)) + mmap_bytes es"
    using ok by (metis unat_le_iff_add of_nat_unat ucast_id)
  obtain zones where z: "parse_mmap (words m) (KP2V (mmap_addr env) + mmap_length env)
      (KP2V (mmap_addr env)) 0 0 (memory_zones ?e) = Inr (zones, length es, upper_of 0 (map snd es))"
    "\<And>j. j < length es \<Longrightarrow> zones j = snd (es ! j)"
    using parse_mmap_ok [of "words m" "KP2V (mmap_addr env)" es 0 "KP2V (mmap_addr env) + mmap_length env"
        0 "memory_zones ?e"] ok end_ok by auto
  define tm where "tm = 0x100000 + upper_of 0 (map snd es)"
  define w where "w = fill_pdes ?d 516 508 0x81000000 0x283
      (fill_pdes ?d 0 (unat (drop_bit 22 tm) + 1) 0 0x83 (words m))"
  let ?p = "core_space_start ?e"
  have wm: "\<exists>m'. free_range vend (core_space_free_end ?e) (m\<lparr>words := w\<rparr>) ?p = Some (Inr m') \<and>
    page_list (words m') (freemem m') (rev (page_run ?p 256) @ []) \<and>
    (\<forall>a. unat a < unat ?p \<or> unat (core_space_free_end ?e) \<le> unat a \<longrightarrow> words m' a = words (m\<lparr>words := w\<rparr>) a)"
    by (rule free_range_list) (use L v ok in \<open>auto simp: word_le_nat_alt\<close>)
  then obtain m' where m': "free_range vend (core_space_free_end ?e) (m\<lparr>words := w\<rparr>) ?p = Some (Inr m')"
    "page_list (words m') (freemem m') (rev (page_run ?p 256))"
    "\<And>a. unat a < unat ?p \<Longrightarrow> words m' a = w a" by auto
  define env' where "env' = ?e\<lparr>memory_zones := zones, memory_zone_count := length es, memory_end := tm\<rparr>"
  have up: "(0x81000000 + PG_SIZE - 1) AND NOT (PG_SIZE - 1) = (0x81000000 :: u32)"
    by (rule page_round_up) simp_all
  have pp: "(?p + PG_SIZE - 1) AND NOT (PG_SIZE - 1) = ?p"
    by (rule page_round_up) (use L in auto)
  have tq: "unat (tm div PDE_SPAN) = unat (drop_bit 22 tm)" by (simp add: drop_bit_eq_div)
  have "core_init_memory vend ?e m = Some (Inr (env', m'))"
    using m'(1) L(3,6) pp up tq
    by (simp add: core_init_memory_def f z(1) w_def tm_def env'_def Let_def)
  moreover have "booted vend env m es env' m'"
    unfolding booted_def
  proof (intro conjI)
    have dm: "words m' (?d + 4 * of_nat k) = w (?d + 4 * of_nat k)" if "k < 1024" for k
    proof (rule m'(3))
      have "unat (vend - 0x1000) = unat vend - 0x1000"
        using v by (subst unat_sub) (simp_all add: word_le_nat_alt)
      moreover have "unat ?d \<le> unat (vend - 0x1000)" using ok by (simp add: word_le_nat_alt)
      moreover have "0x1000 \<le> unat vend" using v by (simp add: word_le_nat_alt)
      ultimately have d: "unat ?d + 0x1000 \<le> unat vend" by linarith
      then have "unat ?d + 4 * k < 2 ^ 32" using that unat_lt32 [of vend] by linarith
      then have "unat (?d + of_nat (4 * k)) = unat ?d + 4 * k" by (rule unat_le_iff_add)
      then have "unat (?d + 4 * of_nat k) = unat ?d + 4 * k" by simp
      then show "unat (?d + 4 * of_nat k) < unat ?p" using d that L(1) by (simp add: word_le_nat_alt)
    qed
    note maps = boot_maps [of "words m" ?d "words m'" tm, folded w_def, OF _ dm]
    have te: "memory_end env' = tm" by (simp add: env'_def)
    show "\<forall>va. va < memory_end env' \<or> 0x81000000 \<le> va \<longrightarrow> vir2phy (words m') ?d va = va"
      using maps(1) ok te by simp
    have low: "\<not> drop_bit 22 va \<le> drop_bit 22 tm" if "tm < KERN_BASE" "KERN_BASE \<le> va" for va
    proof -
      have "unat tm div 0x400000 < 512" "512 \<le> unat va div 0x400000"
        using that by (auto simp: word_less_nat_alt word_le_nat_alt)
      then show ?thesis by (simp add: word_le_nat_alt drop_bit_eq_div unat_div)
    qed
    show "\<forall>va. KERN_BASE \<le> va \<and> va < 0x81000000 \<longrightarrow> vir2phy (words m') ?d va =
        (if memory_end env' < KERN_BASE then KV2P va
         else if drop_bit 22 va \<le> drop_bit 22 (memory_end env') then va else KV2P va)"
    proof (intro allI impI)
      fix va :: u32 assume va: "KERN_BASE \<le> va \<and> va < 0x81000000"
      have "vir2phy (words m') ?d va = (if drop_bit 22 va \<le> drop_bit 22 tm then va else KV2P va)"
        by (rule maps(2)) (use ok va in simp_all)
      then show "vir2phy (words m') ?d va =
        (if memory_end env' < KERN_BASE then KV2P va
         else if drop_bit 22 va \<le> drop_bit 22 (memory_end env') then va else KV2P va)"
        unfolding te using low [of va] va by simp
    qed
  qed (use z(2) m'(2) in \<open>simp_all add: env'_def tm_def\<close>)
  ultimately show ?thesis
    by (rule that) (use L(6) in \<open>simp_all add: env'_def\<close>)
qed

text \<open>A machine with 256 MB of memory and two zones in its map.\<close>

definition demo_words :: "u32 \<Rightarrow> u32" where
  "demo_words a =
     (if a - 0x80100000 < 0x1000 then core_page_dir (unat (a - 0x80100000) div 4)
      else if a = 0x80009000 then 20 else if a = 0x8000900C then 0x9F000
      else if a = 0x80009014 then 1
      else if a = 0x80009018 then 20 else if a = 0x8000901C then 0x100000
      else if a = 0x80009024 then 0xFF00000 else if a = 0x8000902C then 1 else 0)"

definition demo_core :: core_mem where
  "demo_core = \<lparr>words = demo_words, freemem = 0\<rparr>"

definition demo_env :: core_env where
  "demo_env = \<lparr>mmap_addr = 0x9000, mmap_length = 48, core_vend = 0, core_space_start = 0,
     core_space_free_start = 0, core_space_free_end = 0, core_space_end = 0, memory_end = 0,
     env_page_dir = 0x80100000, memory_zones = (\<lambda>_. \<lparr>z_addr = 0, z_length = 0, z_type = 0\<rparr>),
     memory_zone_count = 0, env_proc_table = 0, env_proc_max = 0, env_proc_bitmap = 0,
     env_proc_bitmap_size = 0\<rparr>"

definition demo_zones :: "(u32 \<times> memory_zone) list" where
  "demo_zones = [(20, \<lparr>z_addr = 0, z_length = 0x9F000, z_type = 1\<rparr>),
     (20, \<lparr>z_addr = 0x100000, z_length = 0xFF00000, z_type = 1\<rparr>)]"

lemma demo_boot_ok: "boot_ok 0x80150000 demo_env demo_core demo_zones"
proof -
  have "demo_words (0x80100000 + 4 * of_nat k) = core_page_dir k" if "k < 1024" for k
  proof -
    have u: "unat (4 * of_nat k :: u32) = 4 * k"
      using that unat_of_nat32 [of "4 * k"] by simp
    then have "(4 * of_nat k :: u32) < 0x1000" using that by (simp add: word_less_nat_alt)
    then show ?thesis using u by (simp add: demo_words_def)
  qed
  moreover have "mmap_at demo_words 0x80009000 demo_zones"
    by (simp add: demo_zones_def demo_words_def)
  ultimately show ?thesis
    by (simp add: boot_ok_def demo_core_def demo_env_def demo_zones_def KP2V_def mmap_bytes_def)
qed

text \<open>C20. The environment after \<open>core_init_memory\<close>: the memory zones are those of the boot loader's
  map, \<open>memory_end\<close> is the end of the zone that starts at 1 MB; the page directory maps memory
  below \<open>memory_end\<close> and everything from 0x81000000 up to itself, and the kernel's range
  above \<open>KERN_BASE\<close> to the memory it was loaded into, except where \<open>memory_end\<close> reaches
  2 GB: there the loop over the installed memory overwrites the kernel's own entries. The
  free list is the 256 pages of the core free region.\<close>

theorem core_init_memory_correct:
  assumes "boot_ok vend env m es"
  shows "\<exists>env' m'. core_init_memory vend (core_layout vend env) m = Some (Inr (env', m')) \<and>
    booted vend env m es env' m'"
  using core_init_memory_boot [OF assms] by metis

theorem core_init_memory_correct_witness:
  "\<exists>env' m'. core_init_memory 0x80150000 (core_layout 0x80150000 demo_env) demo_core = Some (Inr (env', m')) \<and>
    booted 0x80150000 demo_env demo_core demo_zones env' m'"
  by (rule core_init_memory_correct [OF demo_boot_ok])

lemma page_run_snoc: "page_run p (Suc n) = page_run p n @ [p + of_nat n * PG_SIZE]"
  by (simp add: page_run_def)

lemma core_main_one_page:
  assumes "boot_ok vend env m es"
  shows "\<exists>env' m' m1. core_main_memory vend env m = Some (Inr (env', m')) \<and>
    kalloc_pages m' n = (m1, core_space_start env' + 0xFF000) \<and> kalloc_pages m1 k = (m1, 0)"
proof -
  obtain env' m' where b: "core_init_memory vend (core_layout vend env) m = Some (Inr (env', m'))"
    "booted vend env m es env' m'"
    "core_space_start env' = core_space_start (core_layout vend env)" "core_space_end env' = 0x81000000"
    by (rule core_init_memory_boot [OF assms])
  let ?s = "core_space_start env'"
  let ?m = "m'\<lparr>words := memset0 ?s (0x81000000 - ?s) (words m')\<rparr>"
  have v: "KERN_BASE + 0x100000 \<le> vend" "vend < KERN_BASE + 0xD00000"
    using assms by (simp_all add: boot_ok_def)
  note L = core_layout_bounds [OF v, of env, folded b(3)]
  have h: "freemem m' = ?s + 0xFF000" "?s + 0xFF000 \<noteq> 0"
  proof -
    have "rev (page_run ?s 256) = (?s + 0xFF000) # rev (page_run ?s 255)"
      using page_run_snoc [of ?s 255] by simp
    then show "freemem m' = ?s + 0xFF000" "?s + 0xFF000 \<noteq> 0"
      using b(2) unfolding booted_def b(3) by (metis page_list.simps(2))+
  qed
  have sb: "unat ?s \<le> 0x80D00000" using L(4,5) by simp
  have "unat (?s + 0xFF004) = unat ?s + 0xFF004"
    using sb unat_le_iff_add [of ?s "0xFF004"] by simp
  moreover have "unat (0x81000000 - ?s) = 0x81000000 - unat ?s"
    using sb by (subst unat_sub) (simp_all add: word_le_nat_alt)
  ultimately have "words ?m (?s + 0xFF000 + 4) = 0"
    using sb by (simp add: memset0_eq add.commute)
  then have "kalloc_pages ?m n = (?m\<lparr>freemem := 0\<rparr>, ?s + 0xFF000)"
    using h by (simp add: kalloc_pages_def Let_def)
  moreover have "kalloc_pages (?m\<lparr>freemem := 0\<rparr>) k = (?m\<lparr>freemem := 0\<rparr>, 0)"
    by (simp add: kalloc_pages_def)
  moreover have "core_main_memory vend env m = Some (Inr (env', ?m))"
    using b(1,4) by (simp add: core_main_memory_def)
  ultimately show ?thesis by metis
qed

text \<open>After the memory part of \<open>core_main\<close> the free list has one page, although
  \<open>core_init_memory\<close> put 256 there: \<open>core_main\<close> clears the core space that holds the links. The
  first call of \<open>kalloc_pages\<close> returns the highest page of the free region, every later one
  NULL.\<close>

theorem core_main_loses_free_list:
  assumes "boot_ok vend env m es"
  shows "\<exists>env' m' m1. core_main_memory vend env m = Some (Inr (env', m')) \<and>
    kalloc_pages m' n = (m1, core_space_start env' + 0xFF000) \<and> kalloc_pages m1 k = (m1, 0)"
  by (rule core_main_one_page [OF assms])

theorem core_main_loses_free_list_witness:
  "\<exists>env' m' m1. core_main_memory 0x80150000 demo_env demo_core = Some (Inr (env', m')) \<and>
    kalloc_pages m' 0 = (m1, core_space_start env' + 0xFF000) \<and> kalloc_pages m1 0 = (m1, 0)"
  by (rule core_main_loses_free_list [OF demo_boot_ok])

end
