(* ===== verification/Process_Table.thy ===== *)
theory Process_Table
  imports Core_Memory Ipc_Spec
begin

text \<open>
  \<^verbatim>\<open>core/process.c\<close>: creating a process and choosing the one to run next.

  The list of processes is threaded through the slots of the table. The walk to its end is a
  partial function, which does not return on a cyclic list, and so is the loop of the
  scheduler, which runs until some process is runnable. Inside that loop the processor may
  halt with interrupts enabled; what interrupts do to the kernel in that time is the argument
  \<open>idle\<close>.
\<close>

section \<open>Operations\<close>

abbreviation (input) SEL_CODE_DPL1 :: u16 where "SEL_CODE_DPL1 \<equiv> 0x21"
abbreviation (input) SEL_DATA_DPL1 :: u16 where "SEL_DATA_DPL1 \<equiv> 0x29"

definition nexts :: "kernel \<Rightarrow> nat \<Rightarrow> nat option" where
  "nexts k i = next_proc (proc_table k i)"

text \<open>The walk \<open>while (p) { f = p; p = p->next; }\<close>, from a process on: its result is \<open>f\<close>.\<close>

partial_function (option) last_proc :: "(nat \<Rightarrow> nat option) \<Rightarrow> nat \<Rightarrow> nat option" where
  "last_proc nx p = (case nx p of None \<Rightarrow> Some p | Some p' \<Rightarrow> last_proc nx p')"

definition append_proc :: "kernel \<Rightarrow> nat \<Rightarrow> kernel option" where
  "append_proc k proc =
     (case (case proc_list k of
              Some p \<Rightarrow>
                (case last_proc (nexts k) p of
                   None \<Rightarrow> None
                 | Some f \<Rightarrow> Some (upd_proc f (\<lambda>q. q\<lparr>next_proc := Some proc\<rparr>) k))
            | None \<Rightarrow> Some (k\<lparr>proc_list := Some proc\<rparr>)) of
        None \<Rightarrow> None
      | Some k \<Rightarrow> Some (upd_proc proc (\<lambda>q. q\<lparr>next_proc := None\<rparr>) k))"

definition init_stack :: "u32 \<Rightarrow> u32 \<Rightarrow> stack_frame \<Rightarrow> stack_frame" where
  "init_stack entry esp s =
     s\<lparr>sf_cs := SEL_CODE_DPL1, sf_ds := SEL_DATA_DPL1, sf_gs := SEL_DATA_DPL1,
       sf_es := SEL_DATA_DPL1, sf_fs := SEL_DATA_DPL1, sf_ss := SEL_DATA_DPL1,
       sf_eip := entry, sf_esp := esp, sf_eflags := 0x1202\<rparr>"

definition init_proc :: "kernel \<Rightarrow> core_mem \<Rightarrow> u32 \<Rightarrow> u32 \<Rightarrow> u32 \<Rightarrow> (kernel \<times> core_mem \<times> u32) res" where
  "init_proc k cm pid0 entry pd =
     (let newpid = (if pid0 = PROC_INTERRUPT \<or> pid0 = PROC_ANY \<or> check_bit (proc_bitmap k) (unat pid0) \<noteq> 0
                    then find_first_unset_bit (proc_bitmap k) (proc_bitmap_size k) else pid0);
          proc = unat newpid
      in if proc_max k \<le> proc then Inl OutOfBounds
         else
           (let k = k\<lparr>proc_bitmap := set_bit (proc_bitmap k) proc\<rparr>;
                k = k\<lparr>proc_count := proc_count k + 1\<rparr>;
                (cm, page) = kalloc_pages cm 0;
                k = upd_proc proc (\<lambda>p. p\<lparr>
                      pstack := page, pstack_size := PG_SIZE,
                      stack := init_stack entry (page + PG_SIZE) (stack p),
                      page_dir := KV2P pd,
                      status := PROC_STATUS_RUNNING OR PROC_STATUS_NORMAL,
                      pid := newpid,
                      parent_pid := (if newpid = 1 \<or> newpid = 0 then 0 else 1)\<rparr>) k
            in case append_proc k proc of
                 None \<Rightarrow> Inl Hang
               | Some k \<Rightarrow> Inr (k, cm, newpid)))"

abbreviation (input) UNRUNABLE :: u32 where
  "UNRUNABLE \<equiv> PROC_STATUS_RECEVING OR PROC_STATUS_SENDING OR PROC_STATUS_SUSPEND OR
     PROC_STATUS_STOP OR PROC_STATUS_ERROR OR PROC_STATUS_WATING OR PROC_STATUS_HANGING"

definition unrunable :: "u32 \<Rightarrow> bool" where
  "unrunable st \<longleftrightarrow> (st AND 0xFF) AND UNRUNABLE \<noteq> 0"

definition advance :: "kernel \<Rightarrow> nat \<Rightarrow> nat option" where
  "advance k r = (case nexts k r of None \<Rightarrow> proc_list k | Some n \<Rightarrow> Some n)"

partial_function (option) sched_loop :: "(kernel \<Rightarrow> kernel) \<Rightarrow> nat \<Rightarrow> kernel \<Rightarrow> kernel res option" where
  "sched_loop idle cur k =
     (case proc_running k of
        None \<Rightarrow> Some (Inl NullDeref)
      | Some r \<Rightarrow>
          (let k = k\<lparr>proc_running := advance k r\<rparr>;
               k = (if proc_running k = Some cur then idle k else k)
           in case proc_running k of
                None \<Rightarrow> Some (Inl NullDeref)
              | Some r \<Rightarrow>
                  if unrunable (status (proc_table k r)) then sched_loop idle cur k
                  else Some (Inr k)))"

definition scheduler :: "(kernel \<Rightarrow> kernel) \<Rightarrow> kernel \<Rightarrow> kernel res option" where
  "scheduler idle k =
     (case proc_running k of None \<Rightarrow> Some (Inr k) | Some cur \<Rightarrow> sched_loop idle cur k)"

section \<open>The list of processes\<close>

definition procs :: "kernel \<Rightarrow> nat list \<Rightarrow> bool" where
  "procs k ps \<longleftrightarrow> chain (nexts k) (proc_list k) ps \<and> distinct ps \<and> (\<forall>p \<in> set ps. p < proc_max k)"

lemma last_proc_chain: "chain nx (Some p) as \<Longrightarrow> last_proc nx p = Some (last as)"
proof (induction as arbitrary: p)
  case (Cons a as)
  then have a: "a = p" "chain nx (nx p) as" by auto
  show ?case
  proof (cases as)
    case Nil
    then show ?thesis using a by (subst last_proc.simps) simp
  next
    case (Cons b bs)
    then have "nx p = Some b" using a by simp
    moreover have "last_proc nx b = Some (last as)" using Cons.IH a \<open>nx p = Some b\<close> by simp
    ultimately show ?thesis using Cons by (subst last_proc.simps) simp
  qed
qed simp

lemma nexts_upd_next:
  "nexts (upd_proc i (\<lambda>q. q\<lparr>next_proc := v\<rparr>) k) = (nexts k)(i := v)"
  by (simp add: nexts_def fun_eq_iff)

text \<open>Appending a process that is not in the list puts it at the end.\<close>

lemma append_proc_ok:
  assumes "procs k ps" "i \<notin> set ps" "i < proc_max k"
  obtains k' where "append_proc k i = Some k'" "procs k' (ps @ [i])"
    "\<And>j. proc_table k' j = (proc_table k j)\<lparr>next_proc := nexts k' j\<rparr>"
    "proc_running k' = proc_running k" "proc_max k' = proc_max k" "proc_bitmap k' = proc_bitmap k"
    "proc_count k' = proc_count k" "msgs k' = msgs k" "page_tables k' = page_tables k"
proof (cases ps)
  case Nil
  define k' where "k' = upd_proc i (\<lambda>q. q\<lparr>next_proc := None\<rparr>) (k\<lparr>proc_list := Some i\<rparr>)"
  have "proc_list k = None" using assms(1) Nil by (simp add: procs_def)
  then have "append_proc k i = Some k'" by (simp add: append_proc_def k'_def)
  moreover have "procs k' (ps @ [i])"
    using Nil assms(3) by (simp add: procs_def k'_def nexts_upd_next)
  ultimately show ?thesis by (rule that) (auto simp: k'_def nexts_def)
next
  case (Cons a as)
  have c: "chain (nexts k) (proc_list k) ps" "distinct ps" using assms(1) by (simp_all add: procs_def)
  then have p: "proc_list k = Some a" using Cons by simp
  then have l: "last_proc (nexts k) a = Some (last ps)" using c(1) last_proc_chain by simp
  define k' where "k' = upd_proc i (\<lambda>q. q\<lparr>next_proc := None\<rparr>)
      (upd_proc (last ps) (\<lambda>q. q\<lparr>next_proc := Some i\<rparr>) k)"
  have nx: "nexts k' = (nexts k)(last ps := Some i, i := None)"
    by (simp only: k'_def nexts_upd_next)
  have "append_proc k i = Some k'" using p l by (simp add: append_proc_def k'_def)
  moreover have "procs k' (ps @ [i])"
  proof -
    have "chain (nexts k') (proc_list k) (ps @ [i])"
      unfolding nx by (rule chain_snoc) (use c Cons assms in auto)
    moreover have "proc_list k' = proc_list k" "proc_max k' = proc_max k" by (simp_all add: k'_def)
    ultimately show ?thesis using assms by (auto simp: procs_def)
  qed
  ultimately show ?thesis
    by (rule that) (auto simp: nx k'_def nexts_def)
qed

section \<open>The ring\<close>

text \<open>The processes the scheduler looks at after \<open>cur\<close>, in order, before it comes back to it.\<close>

definition others :: "nat list \<Rightarrow> nat \<Rightarrow> nat list" where
  "others ps cur = tl (dropWhile (\<lambda>p. p \<noteq> cur) ps) @ takeWhile (\<lambda>p. p \<noteq> cur) ps"

lemma others_split: "distinct (xs @ cur # ys) \<Longrightarrow> others (xs @ cur # ys) cur = ys @ xs"
proof -
  assume "distinct (xs @ cur # ys)"
  then have "\<forall>x \<in> set xs. x \<noteq> cur" by auto
  then show ?thesis by (simp add: others_def dropWhile_append2 takeWhile_append2)
qed

definition runnable :: "kernel \<Rightarrow> nat \<Rightarrow> bool" where
  "runnable k p \<longleftrightarrow> \<not> unrunable (status (proc_table k p))"

text \<open>The loop on a segment of the ring that does not contain \<open>cur\<close>.\<close>

lemma sched_segment:
  assumes "proc_running k = Some r" "cur \<notin> set qs"
    and "\<And>i. i < length qs \<Longrightarrow> advance k ((r # qs) ! i) = Some (qs ! i)"
  shows "sched_loop idle cur k =
    (case find (runnable k) qs of
       Some q \<Rightarrow> Some (Inr (k\<lparr>proc_running := Some q\<rparr>))
     | None \<Rightarrow> sched_loop idle cur (k\<lparr>proc_running := Some (last (r # qs))\<rparr>))"
  using assms
proof (induction qs arbitrary: k r)
  case Nil
  then have "k\<lparr>proc_running := Some r\<rparr> = k" by simp
  then show ?case by simp
next
  case (Cons q qs)
  have q: "advance k r = Some q" using Cons.prems(3) [of 0] by simp
  let ?k = "k\<lparr>proc_running := Some q\<rparr>"
  have nc: "q \<noteq> cur" using Cons.prems(2) by auto
  have step: "sched_loop idle cur k = (if runnable k q then Some (Inr ?k) else sched_loop idle cur ?k)"
    using Cons.prems(1) q nc by (subst sched_loop.simps) (simp add: runnable_def)
  have rn: "runnable ?k = runnable k" by (simp add: runnable_def fun_eq_iff)
  have adv: "advance ?k = advance k"
    by (simp add: advance_def nexts_def fun_eq_iff split: option.splits)
  have IH: "sched_loop idle cur ?k = (case find (runnable ?k) qs of
       Some q \<Rightarrow> Some (Inr (?k\<lparr>proc_running := Some q\<rparr>))
     | None \<Rightarrow> sched_loop idle cur (?k\<lparr>proc_running := Some (last (q # qs))\<rparr>))"
  proof (rule Cons.IH)
    show "advance ?k ((q # qs) ! i) = Some (qs ! i)" if "i < length qs" for i
      unfolding adv using Cons.prems(3) [of "Suc i"] that by simp
  qed (use Cons.prems in auto)
  then show ?case using step by (simp add: rn split: option.splits)
qed

lemma chain_nth:
  "chain nx h as \<Longrightarrow> i < length as \<Longrightarrow>
   nx (as ! i) = (if Suc i < length as then Some (as ! Suc i) else None)"
proof (induction as arbitrary: h i)
  case (Cons a as)
  then show ?case by (cases i; cases as) auto
qed simp

lemma advance_nth:
  assumes "procs k ps" "i < length ps"
  shows "advance k (ps ! i) = Some (ps ! (Suc i mod length ps))"
proof -
  have c: "chain (nexts k) (proc_list k) ps" using assms(1) by (simp add: procs_def)
  show ?thesis
  proof (cases "Suc i < length ps")
    case True
    then show ?thesis using chain_nth [OF c assms(2)] by (simp add: advance_def)
  next
    case False
    then have "Suc i = length ps" using assms(2) by simp
    moreover have "proc_list k = Some (ps ! 0)"
      using chain_head [OF c] assms(2) by (cases ps) auto
    ultimately show ?thesis using chain_nth [OF c assms(2)] by (simp add: advance_def)
  qed
qed

lemma rotate_split_nth:
  assumes "i < length (ys @ xs)"
  shows "(cur # ys @ xs) ! i = (xs @ cur # ys) ! ((length xs + i) mod length (xs @ cur # ys))"
proof (cases "i \<le> length ys")
  case True
  then have "(cur # ys @ xs) ! i = (cur # ys) ! i" by (cases i) (simp_all add: nth_append)
  then show ?thesis using True by (simp add: nth_append)
next
  case False
  then have "Suc (length ys) \<le> i" by simp
  then obtain j where ji: "i = Suc (length ys) + j" using le_Suc_ex by blast
  then have j: "i = Suc (length ys) + j" "j < length xs" using assms by simp_all
  then have "length xs + i = j + length (xs @ cur # ys)" by simp
  then have "(length xs + i) mod length (xs @ cur # ys) = j"
    using j(2) by (simp only: mod_add_self2) simp
  then show ?thesis using j by (simp add: nth_append)
qed

lemma advance_others:
  assumes "procs k (xs @ cur # ys)" "i < length (ys @ xs)"
  shows "advance k ((cur # ys @ xs) ! i) = Some ((ys @ xs) ! i)"
proof -
  let ?ps = "xs @ cur # ys" and ?n = "length (xs @ cur # ys)"
  have "advance k (?ps ! ((length xs + i) mod ?n)) = Some (?ps ! (Suc ((length xs + i) mod ?n) mod ?n))"
    using assms(1) by (rule advance_nth) simp
  then have a: "advance k ((cur # ys @ xs) ! i) = Some (?ps ! (Suc (length xs + i) mod ?n))"
    unfolding rotate_split_nth [OF assms(2)] by (simp only: mod_Suc_eq)
  show ?thesis
  proof (cases "Suc i < length (ys @ xs)")
    case True
    then show ?thesis using a rotate_split_nth [OF True, of cur] by simp
  next
    case False
    then have i: "Suc i = length (ys @ xs)" using assms(2) by simp
    show ?thesis
    proof (cases xs rule: rev_cases)
      case Nil
      then have "Suc (length xs + i) mod ?n = length ys" using i by simp
      then show ?thesis using a i Nil by (cases ys rule: rev_cases) (auto simp: nth_append)
    next
      case (snoc xs' x)
      then have "Suc (length xs + i) = length xs' + ?n" using i by simp
      then have "Suc (length xs + i) mod ?n = length xs'" using snoc by (simp only: mod_add_self2) simp
      then show ?thesis using a i snoc by (simp add: nth_append)
    qed
  qed
qed

end
