(* ===== verification/Process_Props.thy ===== *)
theory Process_Props
  imports Process_Table Core_Props Ipc_Props
begin

text \<open>
  Properties of the process table: a new process is a runnable last element of the list; the
  scheduler is round robin over that list, starves nobody, and overlooks two of the status
  bits it means to skip.
\<close>

section \<open>The table at boot\<close>

text \<open>The layout that \<open>core_main\<close> computes: the table of \<open>proc_max\<close> slots of 160 bytes
  ends at or below the bitmap, the bitmap ends at the end of the core space, and every bit of
  the words that are searched for a free pid stands for a slot of the table.\<close>

theorem core_proc_layout_fits:
  assumes "core_space_free_end env \<le> core_space_end env"
  shows "unat (env_proc_table (core_proc_layout env)) + 160 * unat (env_proc_max (core_proc_layout env))
      \<le> unat (env_proc_bitmap (core_proc_layout env)) \<and>
    unat (env_proc_bitmap (core_proc_layout env)) + 4 * unat (env_proc_bitmap_size (core_proc_layout env))
      \<le> unat (core_space_end env) \<and>
    32 * unat (env_proc_bitmap_size (core_proc_layout env)) \<le> unat (env_proc_max (core_proc_layout env))"
proof -
  define S where "S = unat (core_space_end env) - unat (core_space_free_end env)"
  define i where "i = S div 160"
  define b where "b = i div 8"
  define c where "c = b div 160 + (if b mod 160 = 0 then 0 else 1)"
  let ?i = "(core_space_end env - core_space_free_end env) div SIZEOF_PROCESS"
  let ?b = "?i div 8"
  let ?c = "?b div SIZEOF_PROCESS + (if ?b mod SIZEOF_PROCESS = 0 then 0 else 1)"
  have le: "unat (core_space_free_end env) \<le> unat (core_space_end env)"
    using assms by (simp add: word_le_nat_alt)
  have "unat (core_space_end env - core_space_free_end env) = S"
    using assms by (simp add: S_def unat_sub)
  then have ui: "unat ?i = i" by (simp add: i_def unat_div)
  then have ub: "unat ?b = b" by (simp add: b_def unat_div)
  have b32: "b < 2 ^ 32" using unat_lt32 [of ?b] ub by simp
  have "unat (?b div SIZEOF_PROCESS) = b div 160" using ub by (simp add: unat_div)
  moreover have "?b mod SIZEOF_PROCESS = 0 \<longleftrightarrow> b mod 160 = 0"
    using ub by (simp add: word_unat_eq_iff unat_mod)
  moreover have "unat (?b div SIZEOF_PROCESS + 1) = b div 160 + 1"
    using b32 calculation(1) unat_le_iff_add [of "?b div SIZEOF_PROCESS" 1] by simp
  ultimately have uc: "unat ?c = c" by (simp add: c_def)
  have cb: "b \<le> c * 160"
  proof -
    obtain q r where q: "q = b div 160" "r = b mod 160" by simp
    then have "b = q * 160 + r" "r < 160" by simp_all
    then show ?thesis unfolding c_def q [symmetric] by (cases "r = 0") simp_all
  qed
  have ci: "c \<le> i" unfolding c_def b_def by auto
  then have um: "unat (env_proc_max (core_proc_layout env)) = i - c"
    using ui uc by (simp add: core_proc_layout_def Let_def unat_sub word_le_nat_alt)
  have ut: "unat (env_proc_table (core_proc_layout env)) = unat (core_space_free_end env)"
    by (simp add: core_proc_layout_def Let_def)
  have iS: "i * 160 \<le> S" by (simp add: i_def)
  then have "b \<le> unat (core_space_end env)" unfolding S_def b_def by simp
  then have ubm: "unat (env_proc_bitmap (core_proc_layout env)) = unat (core_space_end env) - b"
    using ub by (simp add: core_proc_layout_def Let_def unat_sub word_le_nat_alt)
  have us: "unat (env_proc_bitmap_size (core_proc_layout env)) = (i - c) div 8 div 4"
    using um by (simp add: core_proc_layout_def Let_def unat_div)
  have "160 * (i - c) + b \<le> S" using cb iS ci by (simp add: diff_mult_distrib2)
  then have "unat (core_space_free_end env) + 160 * (i - c) \<le> unat (core_space_end env) - b"
    using le unfolding S_def by linarith
  moreover have "unat (core_space_end env) - b + 4 * ((i - c) div 8 div 4) \<le> unat (core_space_end env)"
  proof -
    have "4 * ((i - c) div 8 div 4) \<le> (i - c) div 8" by simp
    also have "\<dots> \<le> b" unfolding b_def by (simp add: div_le_mono)
    finally show ?thesis using \<open>b \<le> unat (core_space_end env)\<close> by linarith
  qed
  moreover have "32 * ((i - c) div 8 div 4) \<le> i - c"
    by (simp add: div_mult2_eq [symmetric])
  ultimately show ?thesis unfolding um ut ubm us by blast
qed

theorem core_proc_layout_fits_witness:
  "let env = core_proc_layout (core_layout 0x80150000 (undefined :: core_env)) in
   unat (env_proc_table env) + 160 * unat (env_proc_max env) \<le> unat (env_proc_bitmap env)"
  unfolding Let_def
  by (rule core_proc_layout_fits [THEN conjunct1]) (simp add: core_layout_def KP2V_def)

section \<open>A new process\<close>

text \<open>
  The slot a new process is to get, in terms of the bits alone: the one asked for, if its bit is
  clear, and otherwise the one of the lowest clear bit, which has to be in the first word.
\<close>

definition fresh_slot :: "kernel \<Rightarrow> u32 \<Rightarrow> u32 \<Rightarrow> bool" where
  "fresh_slot k pid0 i \<longleftrightarrow>
     (if pid0 = PROC_INTERRUPT \<or> pid0 = PROC_ANY \<or> bit_at (proc_bitmap k) (unat pid0)
      then 0 < proc_bitmap_size k \<and> unat i < 32 \<and>
        \<not> bit_at (proc_bitmap k) (unat i) \<and> (\<forall>j < unat i. bit_at (proc_bitmap k) j)
      else i = pid0)"

lemma find_first_unset_bit_least:
  assumes "0 < n" "unat i < 32" "\<not> bit_at b (unat i)" "\<forall>j < unat i. bit_at b j"
  shows "find_first_unset_bit b n = i"
proof -
  have ones: "(0xFFFFFFFF :: u32) = -1" by simp
  have "b 0 \<noteq> 0xFFFFFFFF" using assms(2,3) by (auto simp: bit_at_def ones)
  note f = find_first_unset_bit_first_word [of b n, OF this assms(1)]
  have "unat (find_first_unset_bit b n) = unat i"
    using f(1,2) assms(3,4) by (metis linorder_neqE_nat)
  then show ?thesis by (simp only: word_unat_eq_iff)
qed

definition created :: "kernel \<Rightarrow> u32 \<Rightarrow> u32 \<Rightarrow> u32 \<Rightarrow> u32 \<Rightarrow> kernel \<Rightarrow> bool" where
  "created k i page entry pd k' \<longleftrightarrow>
     (let p = proc_table k' (unat i) in
      pid p = i \<and> runnable k' (unat i) \<and> pstack p = page \<and> sf_esp (stack p) = page + PG_SIZE \<and>
      sf_eip (stack p) = entry \<and> page_dir p = KV2P pd \<and> parent_pid p = (if unat i \<le> 1 then 0 else 1) \<and>
      sf_cs (stack p) AND 3 = 1) \<and>
     (\<forall>j. bit_at (proc_bitmap k') j \<longleftrightarrow> j = unat i \<or> bit_at (proc_bitmap k) j) \<and>
     proc_count k' = proc_count k + 1 \<and> proc_running k' = proc_running k \<and>
     (\<forall>j. j \<noteq> unat i \<longrightarrow> proc_table k' j = (proc_table k j)\<lparr>next_proc := nexts k' j\<rparr>)"

lemma init_proc_ok:
  assumes "procs k ps" "fresh_slot k pid0 i" "unat i < proc_max k" "unat i \<notin> set ps"
    and "kalloc_pages cm 0 = (cm', page)"
  shows "\<exists>k'. init_proc k cm pid0 entry pd = Inr (k', cm', i) \<and> procs k' (ps @ [unat i]) \<and>
    created k i page entry pd k'"
proof -
  let ?n = "unat i"
  define k1 where "k1 = upd_proc ?n (\<lambda>p. p\<lparr>pstack := page, pstack_size := PG_SIZE,
      stack := init_stack entry (page + PG_SIZE) (stack p), page_dir := KV2P pd,
      status := PROC_STATUS_RUNNING OR PROC_STATUS_NORMAL, pid := i,
      parent_pid := (if i = 1 \<or> i = 0 then 0 else 1)\<rparr>)
    (k\<lparr>proc_bitmap := set_bit (proc_bitmap k) ?n, proc_count := proc_count k + 1\<rparr>)"
  have nx: "nexts k1 = nexts k" by (auto simp: k1_def nexts_def fun_eq_iff)
  have k1: "proc_list k1 = proc_list k" "proc_max k1 = proc_max k" by (simp_all add: k1_def)
  have "procs k1 ps" using assms(1) unfolding procs_def nx k1 .
  moreover have "?n < proc_max k1" using assms(3) k1 by simp
  ultimately obtain k' where k': "append_proc k1 ?n = Some k'" "procs k' (ps @ [?n])"
    "\<And>j. proc_table k' j = (proc_table k1 j)\<lparr>next_proc := nexts k' j\<rparr>"
    "proc_running k' = proc_running k1" "proc_bitmap k' = proc_bitmap k1"
    "proc_count k' = proc_count k1"
    using append_proc_ok [of k1 ps ?n] assms(4) by metis
  have sel: "(if pid0 = PROC_INTERRUPT \<or> pid0 = PROC_ANY \<or> check_bit (proc_bitmap k) (unat pid0) \<noteq> 0
      then find_first_unset_bit (proc_bitmap k) (proc_bitmap_size k) else pid0) = i"
  proof (cases "pid0 = PROC_INTERRUPT \<or> pid0 = PROC_ANY \<or> bit_at (proc_bitmap k) (unat pid0)")
    case True
    then have "find_first_unset_bit (proc_bitmap k) (proc_bitmap_size k) = i"
      using assms(2) unfolding fresh_slot_def if_P [OF True] by (intro find_first_unset_bit_least) blast+
    then show ?thesis using True by (simp add: check_bit_eq)
  next
    case False
    then show ?thesis using assms(2) by (simp add: fresh_slot_def check_bit_eq)
  qed
  have "init_proc k cm pid0 entry pd = Inr (k', cm', i)"
    using assms(3,5) k'(1) unfolding init_proc_def sel by (simp add: k1_def)
  moreover have "created k i page entry pd k'"
  proof -
    have "i = 1 \<or> i = 0 \<longleftrightarrow> unat i \<le> 1"
      by (auto simp: word_unat_eq_iff le_Suc_eq)
    then show ?thesis
      unfolding created_def Let_def runnable_def k'(3,4,5,6)
      by (simp add: k1_def init_stack_def unrunable_def bit_at_set_bit nx)
  qed
  ultimately show ?thesis using k'(2) by blast
qed

text \<open>C14. \<open>init_proc\<close> uses the pid asked for, or, when that pid is taken or is a wildcard, the least pid
  whose bit is clear, which is below 32 here; when the slot exists and is not in the list, the new
  process becomes the last element of the list, is runnable in ring 1 on a stack page from
  \<open>kalloc_pages\<close>, has its bit set, and no other process changes but for the link to it.\<close>

theorem init_proc_correct:
  assumes "procs k ps" "fresh_slot k pid0 i" "unat i < proc_max k" "unat i \<notin> set ps"
    and "kalloc_pages cm 0 = (cm', page)"
  shows "\<exists>k'. init_proc k cm pid0 entry pd = Inr (k', cm', i) \<and> procs k' (ps @ [unat i]) \<and>
    created k i page entry pd k'"
  by (rule init_proc_ok [OF assms])

section \<open>Round robin\<close>

lemma procs_split:
  assumes "procs k ps" "cur \<in> set ps"
  obtains xs ys where "ps = xs @ cur # ys" "others ps cur = ys @ xs" "cur \<notin> set (ys @ xs)"
proof -
  obtain xs ys where s: "ps = xs @ cur # ys" using assms(2) by (metis split_list)
  moreover have d: "distinct ps" using assms(1) by (simp add: procs_def)
  ultimately show ?thesis using others_split [of xs cur ys] by (intro that) auto
qed

lemma last_of_ring: "advance k (last (cur # qs)) = Some cur \<Longrightarrow> qs = [] \<Longrightarrow> advance k cur = Some cur"
  by simp

text \<open>C6. One call of the scheduler, on a well-formed process list: it looks at the other
  processes in list order, starting behind the current one and wrapping around, and the first
  runnable one runs next, with nothing else changed. When there is none it comes back to the
  current process, lets the processor halt until an interrupt, and goes on with what the
  interrupt handlers left.\<close>

theorem scheduler_round_robin:
  assumes "procs k ps" "proc_running k = Some cur" "cur \<in> set ps"
  shows "scheduler idle k =
    (case find (runnable k) (others ps cur) of
       Some q \<Rightarrow> Some (Inr (k\<lparr>proc_running := Some q\<rparr>))
     | None \<Rightarrow> (let k' = idle k in
         case proc_running k' of
           None \<Rightarrow> Some (Inl NullDeref)
         | Some r \<Rightarrow> if runnable k' r then Some (Inr k') else sched_loop idle cur k'))"
proof -
  obtain xs ys where s: "ps = xs @ cur # ys" "others ps cur = ys @ xs" "cur \<notin> set (ys @ xs)"
    by (rule procs_split [OF assms(1,3)])
  let ?qs = "ys @ xs" and ?l = "last (cur # ys @ xs)"
  have adv: "advance k ((cur # ?qs) ! i) = Some (?qs ! i)" if "i < length ?qs" for i
    using advance_others [of k xs cur ys] assms(1) s(1) that by simp
  have seg: "scheduler idle k = (case find (runnable k) ?qs of
       Some q \<Rightarrow> Some (Inr (k\<lparr>proc_running := Some q\<rparr>))
     | None \<Rightarrow> sched_loop idle cur (k\<lparr>proc_running := Some ?l\<rparr>))"
    unfolding scheduler_def assms(2) option.case
    using sched_segment [OF assms(2) s(3) adv] by simp
  have "advance k ?l = Some cur"
  proof -
    have c: "chain (nexts k) (proc_list k) ps" using assms(1) by (simp add: procs_def)
    show ?thesis
    proof (cases xs rule: rev_cases)
      case Nil
      then have "?l = last ps" using s(1) by simp
      moreover have "proc_list k = Some cur" using c s(1) Nil by simp
      moreover have "nexts k (last ps) = None"
        using chain_nth [OF c, of "length ps - 1"] s(1) by (simp add: last_conv_nth)
      ultimately show ?thesis by (simp add: advance_def)
    next
      case (snoc xs' x)
      then have "nexts k x = Some cur"
        using chain_nth [OF c, of "length xs'"] s(1) by (simp add: nth_append)
      then show ?thesis using snoc by (simp add: advance_def)
    qed
  qed
  moreover have "advance (k\<lparr>proc_running := Some ?l\<rparr>) = advance k"
    by (simp add: advance_def nexts_def fun_eq_iff split: option.splits)
  ultimately have "sched_loop idle cur (k\<lparr>proc_running := Some ?l\<rparr>) =
      (let k' = idle (k\<lparr>proc_running := Some cur\<rparr>) in case proc_running k' of
           None \<Rightarrow> Some (Inl NullDeref)
         | Some r \<Rightarrow> if unrunable (status (proc_table k' r)) then sched_loop idle cur k' else Some (Inr k'))"
    by (subst sched_loop.simps) (simp add: Let_def)
  moreover have "k\<lparr>proc_running := Some cur\<rparr> = k" using assms(2) by simp
  ultimately have "sched_loop idle cur (k\<lparr>proc_running := Some ?l\<rparr>) =
      (let k' = idle k in case proc_running k' of
           None \<Rightarrow> Some (Inl NullDeref)
         | Some r \<Rightarrow> if runnable k' r then Some (Inr k') else sched_loop idle cur k')"
    by (simp only: runnable_def if_not_P if_P Let_def) (simp split: option.splits)
  then show ?thesis unfolding seg s(2) by (simp split: option.splits)
qed

section \<open>Examples\<close>

definition demo_ring :: kernel where
  "demo_ring = demo\<lparr>proc_table := (\<lambda>i. (demo_proc i)\<lparr>
       next_proc := (if i = 0 then Some 1 else if i = 1 then Some 2 else None),
       status := (if i = 1 then PROC_STATUS_WATING else PROC_STATUS_RUNNING)\<rparr>),
     proc_list := Some 0, proc_running := Some 0, proc_max := 4\<rparr>"

lemma demo_ring_procs: "procs demo_ring [0, 1, 2]"
  by (simp add: procs_def nexts_def demo_ring_def demo_proc_def)

lemma demo_ring_simps:
  "proc_running demo_ring = Some 0" "proc_max demo_ring = 4" "proc_bitmap demo_ring = (\<lambda>_. 7)"
  by (simp_all add: demo_ring_def demo_def)

theorem init_proc_correct_witness:
  "\<exists>k'. init_proc demo_ring demo_core PROC_ANY 0x80100100 0x80100000 = Inr (k', demo_core, 3) \<and>
    procs k' ([0, 1, 2] @ [3]) \<and> created demo_ring 3 0 0x80100100 0x80100000 k'"
proof -
  have bits: "bit_at (\<lambda>_. 7) 0" "bit_at (\<lambda>_. 7) 1" "bit_at (\<lambda>_. 7) 2" "\<not> bit_at (\<lambda>_. 7) 3"
    by (simp_all add: bit_at_def bit_iff_odd)
  have "j = 0 \<or> j = 1 \<or> j = 2" if "j < 3" for j :: nat using that by arith
  then have "\<forall>j < 3. bit_at (\<lambda>_. 7) j" using bits(1-3) by metis
  with bits(4) have "fresh_slot demo_ring PROC_ANY 3"
    by (simp add: fresh_slot_def demo_ring_def demo_def)
  then show ?thesis
    using init_proc_correct [OF demo_ring_procs, of PROC_ANY 3 demo_core demo_core 0]
    by (simp add: demo_ring_simps kalloc_pages_def demo_core_def)
qed

theorem scheduler_round_robin_witness:
  "scheduler id demo_ring = Some (Inr (demo_ring\<lparr>proc_running := Some 1\<rparr>))"
proof -
  have "others [0, 1, 2] 0 = [1, 2]" "runnable demo_ring 1"
    by (simp_all add: others_def runnable_def unrunable_def demo_ring_def)
  then show ?thesis
    using scheduler_round_robin [OF demo_ring_procs demo_ring_simps(1), of id] by simp
qed

section \<open>No starvation\<close>

text \<open>Calls of the scheduler, between which the rest of the kernel changes the state.\<close>

fun sched_run :: "(kernel \<Rightarrow> kernel) \<Rightarrow> (nat \<Rightarrow> kernel \<Rightarrow> kernel) \<Rightarrow> kernel \<Rightarrow> nat \<Rightarrow> kernel option" where
  "sched_run idle env k 0 = Some k"
| "sched_run idle env k (Suc n) =
     (case sched_run idle env k n of
        None \<Rightarrow> None
      | Some k' \<Rightarrow> (case scheduler idle (env n k') of Some (Inr k'') \<Rightarrow> Some k'' | _ \<Rightarrow> None))"

definition keeps_ring :: "nat \<Rightarrow> (kernel \<Rightarrow> kernel) \<Rightarrow> bool" where
  "keeps_ring p f \<longleftrightarrow> (\<forall>k. nexts (f k) = nexts k \<and> proc_list (f k) = proc_list k \<and>
     proc_max (f k) = proc_max k \<and> proc_running (f k) = proc_running k \<and>
     (runnable k p \<longrightarrow> runnable (f k) p))"

lemma others_rotate:
  assumes "distinct ps" "cur \<in> set ps" "others ps cur = A @ q # B"
  shows "others ps q = B @ cur # A"
proof -
  obtain xs ys where ps: "ps = xs @ cur # ys" using assms(2) by (metis split_list)
  then have "ys @ xs = A @ q # B" using assms others_split by metis
  then consider B' where "ys = A @ q # B'" "B = B' @ xs" | A' where "A = ys @ A'" "xs = A' @ q # B"
    by (auto simp: append_eq_append_conv2 append_eq_Cons_conv)
  then show ?thesis
  proof cases
    case 1
    then have "ps = (xs @ cur # A) @ q # B'" using ps by simp
    then show ?thesis using others_split [of "xs @ cur # A" q B'] assms(1) 1 by simp
  next
    case 2
    then have "ps = A' @ q # (B @ cur # ys)" using ps by simp
    then show ?thesis using others_split [of A' q "B @ cur # ys"] assms(1) 2 by simp
  qed
qed

definition ring_dist :: "nat list \<Rightarrow> nat \<Rightarrow> nat \<Rightarrow> nat" where
  "ring_dist ps cur p = (if cur = p then 0 else Suc (length (takeWhile (\<lambda>x. x \<noteq> p) (others ps cur))))"

lemma set_others:
  assumes "distinct ps" "cur \<in> set ps"
  shows "set (others ps cur) = set ps - {cur}" "length (others ps cur) = length ps - 1"
proof -
  obtain xs ys where "ps = xs @ cur # ys" using assms(2) by (metis split_list)
  then show "set (others ps cur) = set ps - {cur}" "length (others ps cur) = length ps - 1"
    using others_split [of xs cur ys] assms(1) by auto
qed

lemma ring_dist_le: "distinct ps \<Longrightarrow> cur \<in> set ps \<Longrightarrow> ring_dist ps cur p \<le> length ps"
  using length_takeWhile_le [of "\<lambda>x. x \<noteq> p" "others ps cur"] set_others(2) [of ps cur]
    by (cases ps) (auto simp: ring_dist_def)

lemma find_split:
  "find P xs = Some q \<Longrightarrow> \<exists>A B. xs = A @ q # B \<and> P q \<and> (\<forall>a \<in> set A. \<not> P a)"
proof (induction xs)
  case (Cons x xs)
  show ?case
  proof (cases "P x")
    case True
    then show ?thesis using Cons.prems by (intro exI [of _ "[]"] exI [of _ xs]) simp
  next
    case False
    then obtain A B where "xs = A @ q # B" "P q" "\<forall>a \<in> set A. \<not> P a" using Cons by auto
    then show ?thesis using False by (intro exI [of _ "x # A"] exI [of _ B]) simp
  qed
qed simp

lemma scheduler_closer:
  assumes "procs k ps" "proc_running k = Some cur" "cur \<in> set ps" "p \<in> set ps" "p \<noteq> cur" "runnable k p"
  shows "\<exists>q \<in> set ps. scheduler idle k = Some (Inr (k\<lparr>proc_running := Some q\<rparr>)) \<and>
    ring_dist ps q p < ring_dist ps cur p"
proof -
  have d: "distinct ps" using assms(1) by (simp add: procs_def)
  have po: "p \<in> set (others ps cur)" using set_others(1) [OF d assms(3)] assms(4,5) by simp
  then obtain q where q: "find (runnable k) (others ps cur) = Some q"
    using assms(6) by (metis find_None_iff not_None_eq)
  then obtain A B where AB: "others ps cur = A @ q # B" "\<forall>a \<in> set A. \<not> runnable k a"
    using find_split [OF q] by metis
  have pA: "p \<notin> set A" using AB(2) assms(6) by blast
  have dd: "ring_dist ps q p < ring_dist ps cur p"
  proof (cases "q = p")
    case True
    then show ?thesis using assms(5) by (simp add: ring_dist_def)
  next
    case False
    then have pB: "p \<in> set B" using po pA AB(1) by auto
    have "others ps q = B @ cur # A" by (rule others_rotate [OF d assms(3) AB(1)])
    then have "ring_dist ps q p = Suc (length (takeWhile (\<lambda>x. x \<noteq> p) B))"
      using False takeWhile_append1 [OF pB, of "\<lambda>x. x \<noteq> p"] by (simp add: ring_dist_def)
    moreover have "takeWhile (\<lambda>x. x \<noteq> p) (A @ q # B) = A @ q # takeWhile (\<lambda>x. x \<noteq> p) B"
    proof -
      have "takeWhile (\<lambda>x. x \<noteq> p) (A @ q # B) = A @ takeWhile (\<lambda>x. x \<noteq> p) (q # B)"
        by (rule takeWhile_append2) (use pA in auto)
      then show ?thesis using False by simp
    qed
    ultimately show ?thesis using assms(5) AB(1) by (simp add: ring_dist_def)
  qed
  have "q \<in> set ps" using AB(1) set_others(1) [OF d assms(3)] by auto
  then show ?thesis using scheduler_round_robin [OF assms(1-3), of idle] q dd by auto
qed

text \<open>C7. No starvation: as long as the rest of the kernel leaves the ring and the current process
  alone between two calls of the scheduler, a process of the list that stays runnable is given
  the processor within as many calls as there are processes.\<close>

theorem scheduler_no_starvation:
  assumes "procs k ps" "proc_running k = Some cur" "cur \<in> set ps" "p \<in> set ps" "runnable k p"
    and "\<forall>n. keeps_ring p (env n)"
  shows "\<exists>n \<le> length ps. \<exists>k'. sched_run idle env k n = Some k' \<and> proc_running k' = Some p"
proof -
  let ?good = "\<lambda>n k' c. sched_run idle env k n = Some k' \<and> procs k' ps \<and> proc_running k' = Some c \<and>
      c \<in> set ps \<and> runnable k' p \<and> ring_dist ps c p + n \<le> length ps"
  have "\<exists>n' k'. n' \<le> length ps \<and> sched_run idle env k n' = Some k' \<and> proc_running k' = Some p"
    if "?good n k' c" for n k' c
    using that
  proof (induction "ring_dist ps c p" arbitrary: n k' c rule: less_induct)
    case less
    show ?case
    proof (cases "c = p")
      case True
      then show ?thesis using less.prems by (intro exI [of _ n] exI [of _ k']) auto
    next
      case False
      let ?k = "env n k'"
      have keep: "nexts ?k = nexts k'" "proc_list ?k = proc_list k'" "proc_max ?k = proc_max k'"
        "proc_running ?k = proc_running k'" "runnable ?k p"
        using assms(6) less.prems unfolding keeps_ring_def by auto
      have pk: "procs ?k ps" using less.prems keep by (simp add: procs_def)
      then obtain q where q: "q \<in> set ps" "scheduler idle ?k = Some (Inr (?k\<lparr>proc_running := Some q\<rparr>))"
        "ring_dist ps q p < ring_dist ps c p"
        using scheduler_closer [of ?k ps c p idle] less.prems keep False assms(4) by auto
      let ?k2 = "?k\<lparr>proc_running := Some q\<rparr>"
      have "nexts ?k2 = nexts ?k" "runnable ?k2 p = runnable ?k p"
        by (simp_all add: nexts_def runnable_def fun_eq_iff)
      then have "?good (Suc n) ?k2 q"
        using less.prems q pk keep by (simp add: procs_def)
      then show ?thesis using less.hyps q(3) by blast
    qed
  qed
  moreover have "?good 0 k cur"
    using assms ring_dist_le by (simp add: procs_def)
  ultimately show ?thesis by blast
qed

theorem scheduler_no_starvation_witness:
  "\<exists>n \<le> length [0, 1, 2 :: nat]. \<exists>k'. sched_run id (\<lambda>_ k. k) demo_ring n = Some k' \<and> proc_running k' = Some 2"
  by (rule scheduler_no_starvation [OF demo_ring_procs demo_ring_simps(1)])
    (simp_all add: keeps_ring_def runnable_def unrunable_def demo_ring_def)

text \<open>The mask 0xFF of the scheduler cuts off the two status bits above it: a process next in
  line whose status is WATING or HANGING (a process waiting for a child, or dead and waiting
  for its parent) is run, although both bits are in UNRUNABLE.\<close>

theorem scheduler_runs_waiting:
  assumes "procs k ps" "proc_running k = Some cur" "cur \<in> set ps" "others ps cur = q # qs"
    and "status (proc_table k q) = PROC_STATUS_WATING \<or> status (proc_table k q) = PROC_STATUS_HANGING"
  shows "scheduler idle k = Some (Inr (k\<lparr>proc_running := Some q\<rparr>)) \<and>
    status (proc_table k q) AND UNRUNABLE \<noteq> 0"
proof -
  have "runnable k q" using assms(5) by (auto simp: runnable_def unrunable_def)
  then show ?thesis
    using scheduler_round_robin [OF assms(1-3), of idle] assms(4,5) by auto
qed

theorem scheduler_runs_waiting_witness:
  "scheduler id demo_ring = Some (Inr (demo_ring\<lparr>proc_running := Some 1\<rparr>)) \<and>
   status (proc_table demo_ring 1) AND UNRUNABLE \<noteq> 0"
  by (rule scheduler_runs_waiting [OF demo_ring_procs demo_ring_simps(1)])
    (simp_all add: others_def demo_ring_def)

end
