(* ===== verification/Keymap.thy ===== *)
theory Keymap
  imports Omocha_Prelude
begin

text \<open>
  The key codes of \<^verbatim>\<open>modules/tty/keycode.h\<close> and the table from scan codes to keys of
  \<^verbatim>\<open>modules/tty/keymap.h\<close>. The table of the C code is one array with \<open>MAP_COLS\<close> entries per scan
  code; here it is the list of its rows.
\<close>

abbreviation (input) FLAG_BREAK :: u32 where "FLAG_BREAK \<equiv> 0x0080"
abbreviation (input) FLAG_EXT :: u32 where "FLAG_EXT \<equiv> 0x0100"
abbreviation (input) FLAG_SHIFT_L :: u32 where "FLAG_SHIFT_L \<equiv> 0x0200"
abbreviation (input) FLAG_SHIFT_R :: u32 where "FLAG_SHIFT_R \<equiv> 0x0400"
abbreviation (input) FLAG_CTRL_L :: u32 where "FLAG_CTRL_L \<equiv> 0x0800"
abbreviation (input) FLAG_CTRL_R :: u32 where "FLAG_CTRL_R \<equiv> 0x1000"
abbreviation (input) FLAG_ALT_L :: u32 where "FLAG_ALT_L \<equiv> 0x2000"
abbreviation (input) FLAG_ALT_R :: u32 where "FLAG_ALT_R \<equiv> 0x4000"
abbreviation (input) MASK_RAW :: u32 where "MASK_RAW \<equiv> 0x01FF"

datatype (plugins only: code) special_key =
    ESC | TAB | ENTER | BACKSPACE | GUI_L | GUI_R | APPS | SHIFT_L | SHIFT_R | CTRL_L
  | CTRL_R | ALT_L | ALT_R | CAPS_LOCK | NUM_LOCK | SCROLL_LOCK | F1 | F2 | F3 | F4
  | F5 | F6 | F7 | F8 | F9 | F10 | F11 | F12 | PRINTSCREEN | PAUSEBREAK
  | INSERT | DELETE | HOME | END | PAGEUP | PAGEDOWN | UP | DOWN | LEFT | RIGHT
  | POWER | SLEEP | WAKE | PAD_SLASH | PAD_STAR | PAD_MINUS | PAD_PLUS | PAD_ENTER | PAD_DOT | PAD_0
  | PAD_1 | PAD_2 | PAD_3 | PAD_4 | PAD_5 | PAD_6 | PAD_7 | PAD_8 | PAD_9

primrec kc :: "special_key \<Rightarrow> u32" where
  "kc ESC = 0x01 + FLAG_EXT"
| "kc TAB = 0x02 + FLAG_EXT"
| "kc ENTER = 0x03 + FLAG_EXT"
| "kc BACKSPACE = 0x04 + FLAG_EXT"
| "kc GUI_L = 0x05 + FLAG_EXT"
| "kc GUI_R = 0x06 + FLAG_EXT"
| "kc APPS = 0x07 + FLAG_EXT"
| "kc SHIFT_L = 0x08 + FLAG_EXT"
| "kc SHIFT_R = 0x09 + FLAG_EXT"
| "kc CTRL_L = 0x0A + FLAG_EXT"
| "kc CTRL_R = 0x0B + FLAG_EXT"
| "kc ALT_L = 0x0C + FLAG_EXT"
| "kc ALT_R = 0x0D + FLAG_EXT"
| "kc CAPS_LOCK = 0x0E + FLAG_EXT"
| "kc NUM_LOCK = 0x0F + FLAG_EXT"
| "kc SCROLL_LOCK = 0x10 + FLAG_EXT"
| "kc F1 = 0x11 + FLAG_EXT"
| "kc F2 = 0x12 + FLAG_EXT"
| "kc F3 = 0x13 + FLAG_EXT"
| "kc F4 = 0x14 + FLAG_EXT"
| "kc F5 = 0x15 + FLAG_EXT"
| "kc F6 = 0x16 + FLAG_EXT"
| "kc F7 = 0x17 + FLAG_EXT"
| "kc F8 = 0x18 + FLAG_EXT"
| "kc F9 = 0x19 + FLAG_EXT"
| "kc F10 = 0x1A + FLAG_EXT"
| "kc F11 = 0x1B + FLAG_EXT"
| "kc F12 = 0x1C + FLAG_EXT"
| "kc PRINTSCREEN = 0x1D + FLAG_EXT"
| "kc PAUSEBREAK = 0x1E + FLAG_EXT"
| "kc INSERT = 0x1F + FLAG_EXT"
| "kc DELETE = 0x20 + FLAG_EXT"
| "kc HOME = 0x21 + FLAG_EXT"
| "kc END = 0x22 + FLAG_EXT"
| "kc PAGEUP = 0x23 + FLAG_EXT"
| "kc PAGEDOWN = 0x24 + FLAG_EXT"
| "kc UP = 0x25 + FLAG_EXT"
| "kc DOWN = 0x26 + FLAG_EXT"
| "kc LEFT = 0x27 + FLAG_EXT"
| "kc RIGHT = 0x28 + FLAG_EXT"
| "kc POWER = 0x29 + FLAG_EXT"
| "kc SLEEP = 0x2A + FLAG_EXT"
| "kc WAKE = 0x2B + FLAG_EXT"
| "kc PAD_SLASH = 0x2C + FLAG_EXT"
| "kc PAD_STAR = 0x2D + FLAG_EXT"
| "kc PAD_MINUS = 0x2E + FLAG_EXT"
| "kc PAD_PLUS = 0x2F + FLAG_EXT"
| "kc PAD_ENTER = 0x30 + FLAG_EXT"
| "kc PAD_DOT = 0x31 + FLAG_EXT"
| "kc PAD_0 = 0x32 + FLAG_EXT"
| "kc PAD_1 = 0x33 + FLAG_EXT"
| "kc PAD_2 = 0x34 + FLAG_EXT"
| "kc PAD_3 = 0x35 + FLAG_EXT"
| "kc PAD_4 = 0x36 + FLAG_EXT"
| "kc PAD_5 = 0x37 + FLAG_EXT"
| "kc PAD_6 = 0x38 + FLAG_EXT"
| "kc PAD_7 = 0x39 + FLAG_EXT"
| "kc PAD_8 = 0x3A + FLAG_EXT"
| "kc PAD_9 = 0x3B + FLAG_EXT"

abbreviation (input) PAD_UP :: special_key where "PAD_UP \<equiv> PAD_8"
abbreviation (input) PAD_DOWN :: special_key where "PAD_DOWN \<equiv> PAD_2"
abbreviation (input) PAD_LEFT :: special_key where "PAD_LEFT \<equiv> PAD_4"
abbreviation (input) PAD_RIGHT :: special_key where "PAD_RIGHT \<equiv> PAD_6"
abbreviation (input) PAD_HOME :: special_key where "PAD_HOME \<equiv> PAD_7"
abbreviation (input) PAD_END :: special_key where "PAD_END \<equiv> PAD_1"
abbreviation (input) PAD_PAGEUP :: special_key where "PAD_PAGEUP \<equiv> PAD_9"
abbreviation (input) PAD_PAGEDOWN :: special_key where "PAD_PAGEDOWN \<equiv> PAD_3"
abbreviation (input) PAD_INS :: special_key where "PAD_INS \<equiv> PAD_0"
abbreviation (input) PAD_MID :: special_key where "PAD_MID \<equiv> PAD_5"
abbreviation (input) PAD_DEL :: special_key where "PAD_DEL \<equiv> PAD_DOT"

definition ch :: "char \<Rightarrow> u32" where
  "ch c = of_char c"

text \<open>One row per scan code: plain, with shift, behind the prefix E0.\<close>

definition keymap :: "(u32 \<times> u32 \<times> u32) list" where
  "keymap =
    [(0, 0, 0), (kc ESC, kc ESC, 0), (ch (CHR ''1''), ch (CHR ''!''), 0),
     (ch (CHR ''2''), ch (CHR ''@''), 0), (ch (CHR ''3''), ch (CHR ''#''), 0),
     (ch (CHR ''4''), ch (CHR ''$''), 0), (ch (CHR ''5''), ch (CHR ''%''), 0),
     (ch (CHR ''6''), ch (CHR ''^''), 0), (ch (CHR ''7''), ch (CHR ''&''), 0),
     (ch (CHR ''8''), ch (CHR ''*''), 0), (ch (CHR ''9''), ch (CHR ''(''), 0),
     (ch (CHR ''0''), ch (CHR '')''), 0), (ch (CHR ''-''), ch (CHR ''_''), 0),
     (ch (CHR ''=''), ch (CHR ''+''), 0), (kc BACKSPACE, kc BACKSPACE, 0), (kc TAB, kc TAB, 0),
     (ch (CHR ''q''), ch (CHR ''Q''), 0), (ch (CHR ''w''), ch (CHR ''W''), 0),
     (ch (CHR ''e''), ch (CHR ''E''), 0), (ch (CHR ''r''), ch (CHR ''R''), 0),
     (ch (CHR ''t''), ch (CHR ''T''), 0), (ch (CHR ''y''), ch (CHR ''Y''), 0),
     (ch (CHR ''u''), ch (CHR ''U''), 0), (ch (CHR ''i''), ch (CHR ''I''), 0),
     (ch (CHR ''o''), ch (CHR ''O''), 0), (ch (CHR ''p''), ch (CHR ''P''), 0),
     (ch (CHR ''[''), ch (CHR ''{''), 0), (ch (CHR '']''), ch (CHR ''}''), 0),
     (kc ENTER, kc ENTER, kc PAD_ENTER), (kc CTRL_L, kc CTRL_L, kc CTRL_R),
     (ch (CHR ''a''), ch (CHR ''A''), 0), (ch (CHR ''s''), ch (CHR ''S''), 0),
     (ch (CHR ''d''), ch (CHR ''D''), 0), (ch (CHR ''f''), ch (CHR ''F''), 0),
     (ch (CHR ''g''), ch (CHR ''G''), 0), (ch (CHR ''h''), ch (CHR ''H''), 0),
     (ch (CHR ''j''), ch (CHR ''J''), 0), (ch (CHR ''k''), ch (CHR ''K''), 0),
     (ch (CHR ''l''), ch (CHR ''L''), 0), (ch (CHR '';''), ch (CHR '':''), 0),
     (ch (CHR 0x27), ch (CHR 0x22), 0), (ch (CHR 0x60), ch (CHR ''~''), 0),
     (kc SHIFT_L, kc SHIFT_L, 0), (ch (CHR 0x5C), ch (CHR ''|''), 0),
     (ch (CHR ''z''), ch (CHR ''Z''), 0), (ch (CHR ''x''), ch (CHR ''X''), 0),
     (ch (CHR ''c''), ch (CHR ''C''), 0), (ch (CHR ''v''), ch (CHR ''V''), 0),
     (ch (CHR ''b''), ch (CHR ''B''), 0), (ch (CHR ''n''), ch (CHR ''N''), 0),
     (ch (CHR ''m''), ch (CHR ''M''), 0), (ch (CHR '',''), ch (CHR ''<''), 0),
     (ch (CHR ''.''), ch (CHR ''>''), 0), (ch (CHR ''/''), ch (CHR ''?''), kc PAD_SLASH),
     (kc SHIFT_R, kc SHIFT_R, 0), (ch (CHR ''*''), ch (CHR ''*''), 0),
     (kc ALT_L, kc ALT_L, kc ALT_R), (ch (CHR '' ''), ch (CHR '' ''), 0),
     (kc CAPS_LOCK, kc CAPS_LOCK, 0), (kc F1, kc F1, 0), (kc F2, kc F2, 0), (kc F3, kc F3, 0),
     (kc F4, kc F4, 0), (kc F5, kc F5, 0), (kc F6, kc F6, 0), (kc F7, kc F7, 0), (kc F8, kc F8, 0),
     (kc F9, kc F9, 0), (kc F10, kc F10, 0), (kc NUM_LOCK, kc NUM_LOCK, 0),
     (kc SCROLL_LOCK, kc SCROLL_LOCK, 0), (kc PAD_HOME, ch (CHR ''7''), kc HOME),
     (kc PAD_UP, ch (CHR ''8''), kc UP), (kc PAD_PAGEUP, ch (CHR ''9''), kc PAGEUP),
     (kc PAD_MINUS, ch (CHR ''-''), 0), (kc PAD_LEFT, ch (CHR ''4''), kc LEFT),
     (kc PAD_MID, ch (CHR ''5''), 0), (kc PAD_RIGHT, ch (CHR ''6''), kc RIGHT),
     (kc PAD_PLUS, ch (CHR ''+''), 0), (kc PAD_END, ch (CHR ''1''), kc END),
     (kc PAD_DOWN, ch (CHR ''2''), kc DOWN), (kc PAD_PAGEDOWN, ch (CHR ''3''), kc PAGEDOWN),
     (kc PAD_INS, ch (CHR ''0''), kc INSERT), (kc PAD_DOT, ch (CHR ''.''), kc DELETE), (0, 0, 0),
     (0, 0, 0), (0, 0, 0), (kc F11, kc F11, 0), (kc F12, kc F12, 0), (0, 0, 0), (0, 0, 0),
     (0, 0, kc GUI_L), (0, 0, kc GUI_R), (0, 0, kc APPS), (0, 0, 0), (0, 0, 0), (0, 0, 0),
     (0, 0, 0), (0, 0, 0), (0, 0, 0), (0, 0, 0), (0, 0, 0), (0, 0, 0), (0, 0, 0), (0, 0, 0),
     (0, 0, 0), (0, 0, 0), (0, 0, 0), (0, 0, 0), (0, 0, 0), (0, 0, 0), (0, 0, 0), (0, 0, 0),
     (0, 0, 0), (0, 0, 0), (0, 0, 0), (0, 0, 0), (0, 0, 0), (0, 0, 0), (0, 0, 0), (0, 0, 0),
     (0, 0, 0), (0, 0, 0), (0, 0, 0), (0, 0, 0), (0, 0, 0), (0, 0, 0), (0, 0, 0)]"

definition keyrow :: "nat \<Rightarrow> nat \<Rightarrow> u32" where
  "keyrow code c = (case keymap ! code of (a, b, e) \<Rightarrow> if c = 0 then a else if c = 1 then b else e)"

lemma keymap_length: "length keymap = 128"
  by (simp add: keymap_def)

end
