(* ===== verification/Kbd.thy ===== *)
theory Kbd
  imports Res_Monad Keymap
begin

text \<open>
  The keyboard driver \<^verbatim>\<open>modules/tty/kbd.c\<close> and the terminal server \<^verbatim>\<open>modules/tty/tty.c\<close> with
  \<^verbatim>\<open>modules/tty/monitor.c\<close>.

  The ring buffer keeps its two pointers as indices into \<open>buf\<close>. A read from an empty buffer
  spins until the interrupt handler adds a byte; seen from the reader alone this is \<open>Inl Hang\<close>.
  The polling of the controller's status port in \<open>kbd_wait\<close> and \<open>kbd_ack\<close> changes no state of
  the driver and is left out; the bytes written to the controller are recorded.
\<close>

section \<open>The ring buffer\<close>

abbreviation (input) CIRCULAR_BUFFER_SIZE :: nat where "CIRCULAR_BUFFER_SIZE \<equiv> 256"

record circular_buffer =
  cb_head :: nat
  cb_tail :: nat
  cb_count :: nat
  cb_buf :: "nat \<Rightarrow> u8"

definition read_circular_buffer :: "circular_buffer \<Rightarrow> (circular_buffer \<times> u8) res" where
  "read_circular_buffer b =
     (if cb_count b = 0 then Inl Hang
      else (let data = cb_buf b (cb_tail b);
                b = b\<lparr>cb_tail := cb_tail b + 1\<rparr>;
                b = (if cb_tail b = CIRCULAR_BUFFER_SIZE then b\<lparr>cb_tail := 0\<rparr> else b)
            in Inr (b\<lparr>cb_count := cb_count b - 1\<rparr>, data)))"

text \<open>
  Where the offset wraps, the C code computes the index with \<open>buf - tail\<close> instead of
  \<open>tail - buf\<close>: the address it reads lies before the array.
\<close>

definition peek_circular_buffer :: "circular_buffer \<Rightarrow> nat \<Rightarrow> u8 res" where
  "peek_circular_buffer b off =
     (if cb_count b = 0 then Inl Hang
      else if CIRCULAR_BUFFER_SIZE \<le> cb_tail b + off
      then (let i = int off - (int CIRCULAR_BUFFER_SIZE - (- int (cb_tail b)))
            in if 0 \<le> i \<and> i < int CIRCULAR_BUFFER_SIZE then Inr (cb_buf b (nat i))
               else Inl OutOfBounds)
      else Inr (cb_buf b (cb_tail b + off)))"

definition write_circular_buffer :: "circular_buffer \<Rightarrow> u8 \<Rightarrow> circular_buffer res" where
  "write_circular_buffer b data =
     and_then (if CIRCULAR_BUFFER_SIZE \<le> cb_count b
               then and_then (read_circular_buffer b) (\<lambda>(b, _). Inr b) else Inr b)
       (\<lambda>b. let b = b\<lparr>cb_buf := (cb_buf b)(cb_head b := data)\<rparr>;
                b = b\<lparr>cb_head := cb_head b + 1\<rparr>;
                b = (if cb_head b = CIRCULAR_BUFFER_SIZE then b\<lparr>cb_head := 0\<rparr> else b)
            in Inr (b\<lparr>cb_count := cb_count b + 1\<rparr>))"

section \<open>The driver's state\<close>

record kbd =
  kbd_buffer :: circular_buffer
  shift_l :: bool
  shift_r :: bool
  alt_l :: bool
  alt_r :: bool
  ctrl_l :: bool
  ctrl_r :: bool
  caps_lock :: bool
  num_lock :: bool
  scr_lock :: bool
  E0 :: bool
  col :: nat
  outs :: "(u16 \<times> u8) list"

definition set_leds :: "kbd \<Rightarrow> kbd" where
  "set_leds s =
     (let leds = push_bit 2 (of_bool (caps_lock s)) OR push_bit 1 (of_bool (num_lock s)) OR
                 of_bool (scr_lock s)
      in s\<lparr>outs := outs s @ [(0x60, 0xED), (0x60, leds)]\<rparr>)"

definition init_kbd :: "kbd \<Rightarrow> kbd" where
  "init_kbd s =
     (let b = kbd_buffer s;
          s = s\<lparr>kbd_buffer := b\<lparr>cb_tail := 0, cb_head := 0, cb_count := 0\<rparr>\<rparr>;
          s = s\<lparr>shift_l := False, shift_r := False, alt_l := False, alt_r := False, ctrl_l := False,
                ctrl_r := False, caps_lock := False, num_lock := False, scr_lock := False\<rparr>;
          s = s\<lparr>num_lock := True\<rparr>
      in set_leds s)"

section \<open>Decoding\<close>

text \<open>The comparison with the bytes of the Pause key; it stops at the first one that differs.\<close>

fun match_bytes :: "circular_buffer \<Rightarrow> u8 list \<Rightarrow> (circular_buffer \<times> bool) res" where
  "match_bytes b [] = Inr (b, True)"
| "match_bytes b (x # xs) =
     and_then (read_circular_buffer b)
       (\<lambda>(b, d). if d \<noteq> x then Inr (b, False) else match_bytes b xs)"

text \<open>
  The part of \<open>kbd_read\<close> that reads the bytes of one key. The result is the last code byte, the
  key when a special sequence was recognised, whether it was pressed (\<open>None\<close> where \<open>make\<close> has
  not been assigned) and the flag \<open>E0\<close>.
\<close>

definition read_code :: "circular_buffer \<Rightarrow> (circular_buffer \<times> u8 \<times> u32 \<times> bool option \<times> bool) res" where
  "read_code b =
     and_then (read_circular_buffer b) (\<lambda>(b, code).
       if code = 0xE1 then
         and_then (match_bytes b [0xE1, 0x1D, 0x45, 0xE1, 0x9D, 0xC5]) (\<lambda>(b, is_pausebreak).
           Inr (b, code, if is_pausebreak then kc PAUSEBREAK else 0, None, False))
       else if code = 0xE0 then
         and_then (read_circular_buffer b) (\<lambda>(b, code).
         and_then (if code = 0x2A
                   then and_then (match_bytes b [0xE0, 0x37]) (\<lambda>(b, m).
                          Inr (b, if m then kc PRINTSCREEN else 0, if m then Some True else None))
                   else Inr (b, 0, None)) (\<lambda>(b, key, mk).
         and_then (if code = 0xB7
                   then and_then (match_bytes b [0xE0, 0xAA]) (\<lambda>(b, m).
                          Inr (b, if m then kc PRINTSCREEN else key, if m then Some False else mk))
                   else Inr (b, key, mk)) (\<lambda>(b, key, mk).
           Inr (b, code, key, mk, key = 0))))
       else Inr (b, code, 0, None, False))"

definition is_lower :: "u32 \<Rightarrow> bool" where
  "is_lower k \<longleftrightarrow> ch (CHR ''a'') \<le> k \<and> k \<le> ch (CHR ''z'')"

definition update_modifiers :: "u32 \<Rightarrow> bool \<Rightarrow> kbd \<Rightarrow> kbd" where
  "update_modifiers key mk s =
     (if key = kc SHIFT_L then s\<lparr>shift_l := mk\<rparr>
      else if key = kc SHIFT_R then s\<lparr>shift_r := mk\<rparr>
      else if key = kc ALT_L then s\<lparr>alt_l := mk\<rparr>
      else if key = kc ALT_R then s\<lparr>alt_r := mk\<rparr>
      else if key = kc CTRL_L then s\<lparr>ctrl_l := mk\<rparr>
      else if key = kc CTRL_R then s\<lparr>ctrl_r := mk\<rparr>
      else if key = kc CAPS_LOCK then
        (if mk then set_leds (s\<lparr>caps_lock := \<not> caps_lock s\<rparr>) else s)
      else if key = kc NUM_LOCK then
        (if mk then set_leds (s\<lparr>num_lock := \<not> caps_lock s\<rparr>) else s)
      else if key = kc SCROLL_LOCK then
        (if mk then set_leds (s\<lparr>scr_lock := \<not> scr_lock s\<rparr>) else s)
      else s)"

definition key_column :: "kbd \<Rightarrow> nat \<Rightarrow> nat" where
  "key_column s row =
     (let caps = (shift_l s \<or> shift_r s);
          caps = (if caps_lock s \<and> is_lower (keyrow row 0) then \<not> caps else caps)
      in if E0 s then 2 else if caps then 1 else 0)"

definition or_flags :: "kbd \<Rightarrow> u32 \<Rightarrow> u32" where
  "or_flags s key =
     key OR (if shift_l s then FLAG_SHIFT_L else 0) OR (if shift_r s then FLAG_SHIFT_R else 0)
         OR (if alt_l s then FLAG_ALT_L else 0) OR (if alt_r s then FLAG_ALT_R else 0)
         OR (if ctrl_l s then FLAG_CTRL_L else 0) OR (if ctrl_r s then FLAG_CTRL_R else 0)"

definition kbd_read :: "kbd \<Rightarrow> (kbd \<times> u32) res" where
  "kbd_read s =
     (if 0 < cb_count (kbd_buffer s) then
        and_then (read_code (kbd_buffer s)) (\<lambda>(b, code, key, mk, e0).
          let s = s\<lparr>kbd_buffer := b, E0 := e0\<rparr>;
              (s, key, mk) =
                (if key \<noteq> kc PAUSEBREAK \<and> key \<noteq> kc PRINTSCREEN then
                   (let mk = (code AND 0x80 = 0);
                        row = unat (code AND 0x7F);
                        s = s\<lparr>col := key_column s row\<rparr>;
                        key = keyrow row (col s)
                    in (update_modifiers key mk s, key, Some mk))
                 else (s, key, mk))
          in case mk of
               None \<Rightarrow> Inl Uninitialised
             | Some True \<Rightarrow> Inr (s, or_flags s key)
             | Some False \<Rightarrow> Inr (s, 0))
      else Inr (s, 0))"

definition kbd_code_end :: "kbd \<Rightarrow> bool res" where
  "kbd_code_end s =
     (let b = kbd_buffer s
      in if cb_count b = 0 then Inr False
         else and_then (peek_circular_buffer b 0) (\<lambda>firstbyte.
           if firstbyte \<noteq> 0xE0 \<and> firstbyte \<noteq> 0xE1 then Inr True
           else and_then (peek_circular_buffer b 1) (\<lambda>secondbyte.
             if firstbyte = 0xE0 \<and> (secondbyte = 0x2A \<and> 4 \<le> cb_count b \<or> 2 \<le> cb_count b)
             then Inr True
             else Inr (firstbyte = 0xE1 \<and> secondbyte = 0x1D \<and> 6 \<le> cb_count b))))"

definition interrupt_kbd :: "kbd \<Rightarrow> u8 \<Rightarrow> kbd res" where
  "interrupt_kbd s data =
     and_then (write_circular_buffer (kbd_buffer s) data) (\<lambda>b. Inr (s\<lparr>kbd_buffer := b\<rparr>))"

section \<open>The terminal\<close>

text \<open>\<open>write_console\<close> up to the terminating zero; the console is what has been drawn on it.\<close>

fun write_console :: "u8 list \<Rightarrow> u8 list \<Rightarrow> u8 list res" where
  "write_console con [] = Inl OutOfBounds"
| "write_console con (c # cs) = (if c = 0 then Inr con else write_console (con @ [c]) cs)"

record tty =
  tty_kbd :: kbd
  console :: "u8 list"

text \<open>What a key writes to the console: the string of \<open>sprintf(buf, "%c", key)\<close> and its zero.\<close>

definition key_echo :: "u32 \<Rightarrow> u8 list" where
  "key_echo key =
     (if key AND 0x0100 = 0 then [ucast key, 0]
      else (let raw = key AND MASK_RAW
            in if raw = kc ENTER then [10, 0]
               else if raw = kc BACKSPACE then [8, 0] else [0]))"

definition tty_interrupt :: "tty \<Rightarrow> tty res" where
  "tty_interrupt t =
     and_then (kbd_code_end (tty_kbd t)) (\<lambda>e.
       if e then
         and_then (kbd_read (tty_kbd t)) (\<lambda>(k, key).
         and_then (write_console (console t) (key_echo key)) (\<lambda>c.
           Inr (t\<lparr>tty_kbd := k, console := c\<rparr>)))
       else Inr t)"

text \<open>A request of a process to write the string at \<open>msg.major\<close>, given as its bytes.\<close>

definition tty_write :: "tty \<Rightarrow> u8 list \<Rightarrow> tty res" where
  "tty_write t str = and_then (write_console (console t) str) (\<lambda>c. Inr (t\<lparr>console := c\<rparr>))"

text \<open>One byte from the keyboard: the handler in the kernel, then the message to the server.\<close>

definition tty_byte :: "tty \<Rightarrow> u8 \<Rightarrow> tty res" where
  "tty_byte t data =
     and_then (interrupt_kbd (tty_kbd t) data) (\<lambda>k. tty_interrupt (t\<lparr>tty_kbd := k\<rparr>))"

fun tty_bytes :: "tty \<Rightarrow> u8 list \<Rightarrow> tty res" where
  "tty_bytes t [] = Inr t"
| "tty_bytes t (d # ds) = and_then (tty_byte t d) (\<lambda>t. tty_bytes t ds)"

end
