(* ===== verification/Kbd_Props.thy ===== *)
theory Kbd_Props
  imports Kbd
begin

text \<open>
  The ring buffer of the keyboard driver is a queue of at most 256 bytes that drops its oldest
  byte when it is full; through it, what is typed arrives on the console.
\<close>

section \<open>Bounded queues\<close>

text \<open>
  The contract: \<open>content\<close> reads a state that satisfies \<open>ok\<close> as a list no longer than \<open>cap\<close>.
\<close>

locale bounded_fifo =
  fixes ok :: "'b \<Rightarrow> bool" and content :: "'b \<Rightarrow> 'a list" and cap :: nat
    and put :: "'b \<Rightarrow> 'a \<Rightarrow> 'b res" and get :: "'b \<Rightarrow> ('b \<times> 'a) res"
  assumes cap_pos: "0 < cap"
    and content_le: "ok b \<Longrightarrow> length (content b) \<le> cap"
    and put_ok: "ok b \<Longrightarrow> \<exists>b'. put b x = Inr b' \<and> ok b' \<and>
      content b' = (if length (content b) = cap then tl (content b) else content b) @ [x]"
    and get_ok: "ok b \<Longrightarrow> content b = x # xs \<Longrightarrow> \<exists>b'. get b = Inr (b', x) \<and> ok b' \<and> content b' = xs"
    and get_empty: "ok b \<Longrightarrow> content b = [] \<Longrightarrow> get b = Inl Hang"
begin

fun put_all :: "'b \<Rightarrow> 'a list \<Rightarrow> 'b res" where
  "put_all b [] = Inr b"
| "put_all b (x # xs) = and_then (put b x) (\<lambda>b. put_all b xs)"

fun get_n :: "'b \<Rightarrow> nat \<Rightarrow> ('b \<times> 'a list) res" where
  "get_n b 0 = Inr (b, [])"
| "get_n b (Suc n) = and_then (get b) (\<lambda>(b, x). and_then (get_n b n) (\<lambda>(b, xs). Inr (b, x # xs)))"

lemma put_all_content:
  "ok b \<Longrightarrow> \<exists>b'. put_all b xs = Inr b' \<and> ok b' \<and>
     content b' = drop (length (content b) + length xs - cap) (content b @ xs)"
proof (induction xs arbitrary: b)
  case Nil
  then show ?case using content_le [of b] by simp
next
  case (Cons x xs)
  from put_ok [OF Cons.prems, of x] obtain b1 where b1: "put b x = Inr b1" "ok b1"
    "content b1 = (if length (content b) = cap then tl (content b) else content b) @ [x]" by blast
  obtain b' where b': "put_all b1 xs = Inr b'" "ok b'"
    "content b' = drop (length (content b1) + length xs - cap) (content b1 @ xs)"
    using Cons.IH [OF b1(2)] by blast
  have "content b' = drop (length (content b) + length (x # xs) - cap) (content b @ x # xs)"
  proof (cases "length (content b) = cap")
    case True
    then obtain y ys where y: "content b = y # ys" using cap_pos by (cases "content b") auto
    then have "content b1 = ys @ [x]" "length (content b1) = cap" using b1(3) True by auto
    then show ?thesis using b'(3) y True by simp
  next
    case False
    then show ?thesis using b'(3) b1(3) by simp
  qed
  then show ?case using b1(1) b'(1,2) by simp
qed

lemma get_all_content:
  "ok b \<Longrightarrow> \<exists>b'. get_n b (length (content b)) = Inr (b', content b) \<and> ok b' \<and> content b' = []"
proof (induction "content b" arbitrary: b)
  case Nil
  then show ?case by (intro exI [of _ b]) (metis get_n.simps(1) list.size(3))
next
  case (Cons x xs)
  obtain b1 where b1: "get b = Inr (b1, x)" "ok b1" "content b1 = xs"
    using get_ok [OF Cons.prems Cons.hyps(2) [symmetric]] by blast
  obtain b' where "get_n b1 (length xs) = Inr (b', xs)" "ok b'" "content b' = []"
    using Cons.hyps(1) [of b1] b1 by auto
  then show ?case using b1(1) Cons.hyps(2) [symmetric] by simp
qed

text \<open>Everything put into an empty queue comes out in order, but for what had to be dropped.\<close>

lemma put_get:
  assumes "ok b" "content b = []"
  shows "\<exists>b1 b2. put_all b xs = Inr b1 \<and>
    get_n b1 (min cap (length xs)) = Inr (b2, drop (length xs - cap) xs)"
proof -
  obtain b1 where b1: "put_all b xs = Inr b1" "ok b1" "content b1 = drop (length xs - cap) xs"
    using put_all_content [OF assms(1), of xs] assms(2) by auto
  have "length (content b1) = min cap (length xs)" using b1(3) by simp
  then show ?thesis using get_all_content [OF b1(2)] b1(1,3) by metis
qed

end

section \<open>The ring buffer is one\<close>

definition ring_ok :: "circular_buffer \<Rightarrow> bool" where
  "ring_ok b \<longleftrightarrow> cb_tail b < 256 \<and> cb_count b \<le> 256 \<and> cb_head b = (cb_tail b + cb_count b) mod 256"

definition ring_content :: "circular_buffer \<Rightarrow> u8 list" where
  "ring_content b = map (\<lambda>i. cb_buf b ((cb_tail b + i) mod 256)) [0..<cb_count b]"

lemma length_ring_content [simp]: "length (ring_content b) = cb_count b"
  by (simp add: ring_content_def)

lemma wrap_index: "i < 256 \<Longrightarrow> (if i + 1 = 256 then 0 else i + 1) = (i + 1) mod (256 :: nat)"
  by auto

lemma read_ring:
  assumes "ring_ok b" "cb_count b \<noteq> 0"
  shows "\<exists>b'. read_circular_buffer b = Inr (b', cb_buf b (cb_tail b)) \<and> ring_ok b' \<and>
    cb_tail b' = (cb_tail b + 1) mod 256 \<and> cb_head b' = cb_head b \<and> cb_buf b' = cb_buf b \<and>
    cb_count b' = cb_count b - 1"
proof -
  define b' where "b' = b\<lparr>cb_tail := (cb_tail b + 1) mod 256, cb_count := cb_count b - 1\<rparr>"
  have "read_circular_buffer b = Inr (b', cb_buf b (cb_tail b))"
    using assms wrap_index [of "cb_tail b"]
    by (auto simp: read_circular_buffer_def Let_def ring_ok_def b'_def split: if_splits)
  moreover have "ring_ok b'"
  proof -
    have "((cb_tail b + 1) mod 256 + (cb_count b - 1)) mod 256 = (cb_tail b + 1 + (cb_count b - 1)) mod 256"
      by (rule mod_add_left_eq)
    also have "cb_tail b + 1 + (cb_count b - 1) = cb_tail b + cb_count b" using assms(2) by simp
    finally show ?thesis using assms by (auto simp: ring_ok_def b'_def)
  qed
  ultimately show ?thesis by (intro exI [of _ b']) (simp add: b'_def)
qed

lemma ring_content_tl:
  assumes "cb_count b = Suc n"
  shows "ring_content b = cb_buf b (cb_tail b mod 256) #
    map (\<lambda>i. cb_buf b (((cb_tail b + 1) mod 256 + i) mod 256)) [0..<n]"
proof -
  have "[0..<Suc n] = 0 # map Suc [0..<n]" by (simp add: upt_conv_Cons map_Suc_upt del: upt_Suc)
  moreover have "((cb_tail b + 1) mod 256 + i) mod 256 = (cb_tail b + Suc i) mod 256" for i
    using mod_add_left_eq [of "cb_tail b + 1" 256 i] by simp
  ultimately show ?thesis using assms by (simp add: ring_content_def comp_def del: upt_Suc)
qed

lemma ring_content_put:
  fixes d :: u8
  assumes "ring_ok b" "cb_count b < 256"
  defines "b' \<equiv> b\<lparr>cb_buf := (cb_buf b)(cb_head b := d), cb_head := (cb_head b + 1) mod 256,
    cb_count := cb_count b + 1\<rparr>"
  shows "ring_ok b'" "ring_content b' = ring_content b @ [d]"
proof -
  show "ring_ok b'"
    using assms(1,2) unfolding b'_def ring_ok_def by (simp add: mod_Suc_eq)
  have h: "cb_head b = (cb_tail b + cb_count b) mod 256" using assms(1) by (simp add: ring_ok_def)
  have "(cb_tail b + i) mod 256 \<noteq> (cb_tail b + cb_count b) mod 256" if "i < cb_count b" for i
  proof
    assume "(cb_tail b + i) mod 256 = (cb_tail b + cb_count b) mod 256"
    then have "256 dvd (cb_tail b + cb_count b) - (cb_tail b + i)"
      using that mod_eq_dvd_iff_nat [of "cb_tail b + i" "cb_tail b + cb_count b" 256] by simp
    then have "256 dvd cb_count b - i" by simp
    then have "256 \<le> cb_count b - i" using that by (intro dvd_imp_le) simp_all
    then show False using assms(2) by simp
  qed
  then show "ring_content b' = ring_content b @ [d]"
    by (simp add: ring_content_def b'_def h)
qed

interpretation kbq: bounded_fifo ring_ok ring_content 256 write_circular_buffer read_circular_buffer
proof unfold_locales
  show "(0 :: nat) < 256" by simp
  fix b :: circular_buffer and x :: u8 and xs :: "u8 list"
  assume ok: "ring_ok b"
  show "length (ring_content b) \<le> 256" using ok by (simp add: ring_content_def ring_ok_def)
  have get: "\<exists>b'. read_circular_buffer b = Inr (b', x) \<and> ring_ok b' \<and> ring_content b' = xs \<and>
      cb_head b' = cb_head b \<and> cb_count b = Suc (cb_count b')"
    if c: "ring_content b = x # xs" for x xs
  proof -
    obtain n where n: "cb_count b = Suc n" using c by (cases "cb_count b") (auto simp: ring_content_def)
    obtain b' where b': "read_circular_buffer b = Inr (b', cb_buf b (cb_tail b))" "ring_ok b'"
      "cb_tail b' = (cb_tail b + 1) mod 256" "cb_head b' = cb_head b" "cb_buf b' = cb_buf b" "cb_count b' = n"
      using read_ring [OF ok] n by auto
    have "cb_tail b mod 256 = cb_tail b" using ok by (simp add: ring_ok_def)
    then have "ring_content b = cb_buf b (cb_tail b) # ring_content b'"
      using ring_content_tl [OF n] b' by (simp add: ring_content_def)
    then show ?thesis using c b' n by auto
  qed
  show "\<exists>b'. read_circular_buffer b = Inr (b', x) \<and> ring_ok b' \<and> ring_content b' = xs"
    if "ring_content b = x # xs" using get [OF that] by blast
  show "read_circular_buffer b = Inl Hang" if "ring_content b = []"
    using that by (simp add: ring_content_def read_circular_buffer_def)
  have put: "\<exists>b''. and_then (Inr b') (\<lambda>b. let b = b\<lparr>cb_buf := (cb_buf b)(cb_head b := x)\<rparr>;
                b = b\<lparr>cb_head := cb_head b + 1\<rparr>;
                b = (if cb_head b = CIRCULAR_BUFFER_SIZE then b\<lparr>cb_head := 0\<rparr> else b)
            in Inr (b\<lparr>cb_count := cb_count b + 1\<rparr>)) = Inr b'' \<and> ring_ok b'' \<and>
          ring_content b'' = ring_content b' @ [x]"
    if "ring_ok b'" "cb_count b' < 256" for b'
  proof -
    have "cb_head b' < 256" using that by (simp add: ring_ok_def)
    then have "(if cb_head b' + 1 = 256 then 0 else cb_head b' + 1) = (cb_head b' + 1) mod 256"
      by (rule wrap_index)
    then show ?thesis
      using ring_content_put [OF that, of x]
      by (cases "cb_head b' + 1 = 256") (simp_all add: Let_def)
  qed
  show "\<exists>b'. write_circular_buffer b x = Inr b' \<and> ring_ok b' \<and>
    ring_content b' = (if length (ring_content b) = 256 then tl (ring_content b) else ring_content b) @ [x]"
  proof (cases "cb_count b = 256")
    case True
    then obtain y ys where "ring_content b = y # ys" 
      using length_ring_content [of b] by (cases "ring_content b") auto
    then obtain b' where b': "read_circular_buffer b = Inr (b', y)" "ring_ok b'" "ring_content b' = ys"
      "cb_count b = Suc (cb_count b')" using get by blast
    then show ?thesis
      using put [OF b'(2)] True \<open>ring_content b = y # ys\<close> length_ring_content [of b']
      by (simp add: write_circular_buffer_def)
  next
    case False
    then have "cb_count b < 256" using ok by (simp add: ring_ok_def)
    then show ?thesis using put [OF ok] False by (simp add: write_circular_buffer_def)
  qed
qed

section \<open>Properties of the buffer\<close>

fun write_all :: "circular_buffer \<Rightarrow> u8 list \<Rightarrow> circular_buffer res" where
  "write_all b [] = Inr b"
| "write_all b (x # xs) = and_then (write_circular_buffer b x) (\<lambda>b. write_all b xs)"

fun read_n :: "circular_buffer \<Rightarrow> nat \<Rightarrow> (circular_buffer \<times> u8 list) res" where
  "read_n b 0 = Inr (b, [])"
| "read_n b (Suc n) =
     and_then (read_circular_buffer b) (\<lambda>(b, x). and_then (read_n b n) (\<lambda>(b, xs). Inr (b, x # xs)))"

lemma write_all_eq: "write_all b xs = kbq.put_all b xs"
  by (induction xs arbitrary: b) (simp_all cong: and_then_cong)

lemma read_n_eq: "read_n b n = kbq.get_n b n"
proof (induction n arbitrary: b)
  case (Suc n)
  have "read_n c n = kbq.get_n c n" for c by (rule Suc)
  then show ?case by simp
qed simp

lemma ring_init: "ring_ok (kbd_buffer (init_kbd s))" "ring_content (kbd_buffer (init_kbd s)) = []"
  by (simp_all add: init_kbd_def set_leds_def Let_def ring_ok_def ring_content_def)

text \<open>The keyboard buffer is a first-in first-out queue: after \<open>init_kbd\<close> any sequence of bytes
  can be written, and reading gives back the last 256 of them (all, when there were no more) in
  the order in which they arrived.\<close>

theorem kbd_buffer_fifo:
  "\<exists>b1 b2. write_all (kbd_buffer (init_kbd s)) xs = Inr b1 \<and>
    read_n b1 (min 256 (length xs)) = Inr (b2, drop (length xs - 256) xs)"
  unfolding write_all_eq read_n_eq by (rule kbq.put_get [OF ring_init])

text \<open>\<open>kbd_code_end\<close> looks one byte ahead behind a prefix byte. When the prefix stands in the
  last cell of the array this look-ahead reads outside the array, because \<open>peek_circular_buffer\<close>
  subtracts the wrong way round.\<close>

theorem kbd_code_end_wrap:
  assumes "cb_tail (kbd_buffer s) = 255" "cb_count (kbd_buffer s) \<noteq> 0"
    and "cb_buf (kbd_buffer s) 255 = 0xE0 \<or> cb_buf (kbd_buffer s) 255 = 0xE1"
  shows "kbd_code_end s = Inl OutOfBounds"
  using assms by (auto simp: kbd_code_end_def peek_circular_buffer_def Let_def)

definition demo_kbd :: kbd where
  "demo_kbd = \<lparr>kbd_buffer = \<lparr>cb_head = 0, cb_tail = 255, cb_count = 1, cb_buf = (\<lambda>_. 0xE0)\<rparr>,
     shift_l = False, shift_r = False, alt_l = False, alt_r = False, ctrl_l = False, ctrl_r = False,
     caps_lock = False, num_lock = True, scr_lock = False, E0 = False, col = 0, outs = []\<rparr>"

theorem kbd_code_end_wrap_witness: "kbd_code_end demo_kbd = Inl OutOfBounds"
  by (rule kbd_code_end_wrap) (simp_all add: demo_kbd_def)

section \<open>Typing\<close>

lemma write_console_echo:
  "write_console con (key_echo key) = Inr (con @ takeWhile (\<lambda>c. c \<noteq> 0) (key_echo key))"
  by (simp add: key_echo_def Let_def)

text \<open>The driver between two key strokes; \<open>sh\<close> says whether the left shift key is held down.\<close>

definition at_rest :: "bool \<Rightarrow> tty \<Rightarrow> bool" where
  "at_rest sh t \<longleftrightarrow>
     (let k = tty_kbd t in
      ring_ok (kbd_buffer k) \<and> ring_content (kbd_buffer k) = [] \<and> shift_l k = sh \<and> \<not> shift_r k \<and>
      \<not> alt_l k \<and> \<not> alt_r k \<and> \<not> ctrl_l k \<and> \<not> ctrl_r k \<and> \<not> caps_lock k)"

definition no_lock :: "u32 \<Rightarrow> bool" where
  "no_lock key \<longleftrightarrow> key \<notin> {kc SHIFT_R, kc ALT_L, kc ALT_R, kc CTRL_L, kc CTRL_R, kc CAPS_LOCK,
     kc NUM_LOCK, kc SCROLL_LOCK}"

lemma tty_byte_step:
  assumes "ring_ok (kbd_buffer (tty_kbd t))" "ring_content (kbd_buffer (tty_kbd t)) = []"
    and "d \<noteq> 0xE0" "d \<noteq> 0xE1"
  shows "\<exists>b. ring_ok b \<and> ring_content b = [] \<and> tty_byte t d =
    (let row = unat (d AND 0x7F); mk = (d AND 0x80 = 0);
         k = (tty_kbd t)\<lparr>kbd_buffer := b, E0 := False\<rparr>;
         k = k\<lparr>col := key_column k row\<rparr>;
         key = keyrow row (col k);
         k = update_modifiers key mk k;
         out = (if mk then or_flags k key else 0)
     in Inr (t\<lparr>tty_kbd := k, console := console t @ takeWhile (\<lambda>c. c \<noteq> 0) (key_echo out)\<rparr>))"
proof -
  obtain b1 where b1: "write_circular_buffer (kbd_buffer (tty_kbd t)) d = Inr b1" "ring_ok b1"
    "ring_content b1 = [d]"
    using kbq.put_ok [OF assms(1), of d] assms(2) by auto
  have c1: "cb_count b1 = 1" using b1(3) length_ring_content [of b1] by simp
  obtain b where b: "read_circular_buffer b1 = Inr (b, d)" "ring_ok b" "ring_content b = []"
    using kbq.get_ok [OF b1(2,3)] by auto
  have "cb_buf b1 (cb_tail b1) = d" using b(1) c1 by (simp add: read_circular_buffer_def Let_def)
  then have p: "peek_circular_buffer b1 0 = Inr d"
    using b1(2) c1 by (simp add: peek_circular_buffer_def ring_ok_def)
  have "kbd_code_end ((tty_kbd t)\<lparr>kbd_buffer := b1\<rparr>) = Inr True"
    using p c1 assms(3,4) by (simp add: kbd_code_end_def Let_def)
  moreover have "read_code b1 = Inr (b, d, 0, None, False)"
    using b(1) assms(3,4) by (simp add: read_code_def)
  ultimately have "tty_byte t d =
    (let row = unat (d AND 0x7F); mk = (d AND 0x80 = 0);
         k = (tty_kbd t)\<lparr>kbd_buffer := b, E0 := False\<rparr>;
         k = k\<lparr>col := key_column k row\<rparr>;
         key = keyrow row (col k);
         k = update_modifiers key mk k;
         out = (if mk then or_flags k key else 0)
     in Inr (t\<lparr>tty_kbd := k, console := console t @ takeWhile (\<lambda>c. c \<noteq> 0) (key_echo out)\<rparr>))"
    using b1(1) c1
    by (simp add: tty_byte_def interrupt_kbd_def tty_interrupt_def kbd_read_def Let_def write_console_echo
        split: bool.splits)
  then show ?thesis using b(2,3) by blast
qed

text \<open>The flags of the modifier keys lie above the bits that the terminal looks at.\<close>

lemma or_flags_low:
  "or_flags k key AND 0x1FF = key AND 0x1FF" "or_flags k key AND 0x100 = key AND 0x100"
  "or_flags k key AND 0xFF = key AND 0xFF"
  by (simp_all add: or_flags_def bit.conj_disj_distrib2)

lemma ucast8: "(ucast (a :: u32) :: u8) = ucast (a AND 0xFF)"
proof -
  have "a AND 0xFF = take_bit 8 a" by (simp add: take_bit_eq_mask mask_eq_exp_minus_1)
  then show ?thesis by (simp only:) (rule bit_word_eqI, simp add: bit_ucast_iff bit_take_bit_iff)
qed

lemma key_echo_or_flags [simp]: "key_echo (or_flags k key) = key_echo key"
  using ucast8 [of "or_flags k key"] ucast8 [of key] by (simp add: key_echo_def or_flags_low Let_def)

lemma kc_ge: "0x100 \<le> kc k"
  by (cases k) simp_all

lemma update_modifiers_char:
  assumes "key < 0x100"
  shows "update_modifiers key mk k = k"
proof -
  have "key \<noteq> kc x" for x using kc_ge [of x] assms by (metis leD)
  then show ?thesis by (simp only: update_modifiers_def if_False simp_thms)
qed

text \<open>A character key: pressed it echoes the character, released nothing; the modifiers stay.\<close>

lemma char_key:
  assumes "at_rest sh t" "d AND 0x80 = 0 \<or> d = e OR 0x80" "d \<noteq> 0xE0" "d \<noteq> 0xE1"
    and "unat (d AND 0x7F) = row" "keyrow row (of_bool sh) = ucast (c :: u8)" "c \<noteq> 0"
  shows "\<exists>t'. tty_byte t d = Inr t' \<and> at_rest sh t' \<and>
    console t' = console t @ (if d AND 0x80 = 0 then [c] else [])"
proof -
  let ?k = "tty_kbd t"
  have r: "ring_ok (kbd_buffer ?k)" "ring_content (kbd_buffer ?k) = []"
    using assms(1) by (simp_all add: at_rest_def Let_def)
  obtain b where b: "ring_ok b" "ring_content b = []" and tb: "tty_byte t d =
    (let row = unat (d AND 0x7F); mk = (d AND 0x80 = 0);
         k = ?k\<lparr>kbd_buffer := b, E0 := False\<rparr>;
         k = k\<lparr>col := key_column k row\<rparr>;
         key = keyrow row (col k);
         k = update_modifiers key mk k;
         out = (if mk then or_flags k key else 0)
     in Inr (t\<lparr>tty_kbd := k, console := console t @ takeWhile (\<lambda>c. c \<noteq> 0) (key_echo out)\<rparr>))"
    using tty_byte_step [OF r assms(3,4)] by blast
  define k1 where "k1 = ?k\<lparr>kbd_buffer := b, E0 := False, col := of_bool sh\<rparr>"
  have kcol: "key_column (?k\<lparr>kbd_buffer := b, E0 := False\<rparr>) row = of_bool sh"
    using assms(1) by (simp add: key_column_def at_rest_def Let_def)
  have small: "(ucast c :: u32) < 0x100"
  proof -
    have "unat c < 256" using unsigned_less [of c] by simp
    then show ?thesis by (simp add: word_less_nat_alt unsigned_ucast_eq take_bit_nat_eq_self)
  qed
  have "(ucast c :: u32) AND 0x100 = 0"
    using and_single_eq_0 [of "ucast c" 8] bit_imp_le_length [of c 8] by (auto simp: bit_ucast_iff)
  moreover have "ucast (ucast c :: u32) = c"
    by (rule bit_word_eqI) (auto simp: bit_ucast_iff)
  ultimately have "key_echo (ucast c) = [c, 0]" by (simp add: key_echo_def)
  moreover have "key_echo 0 = [0, 0]" by (simp add: key_echo_def)
  ultimately have out: "takeWhile (\<lambda>x. x \<noteq> 0) (key_echo (if d AND 0x80 = 0 then or_flags k1 (ucast c) else 0)) =
      (if d AND 0x80 = 0 then [c] else [])"
    using assms(7) by simp
  have upd: "update_modifiers (ucast c) mk k1 = k1" for mk
    by (rule update_modifiers_char [OF small])
  then have "tty_byte t d = Inr (t\<lparr>tty_kbd := k1,
      console := console t @ (if d AND 0x80 = 0 then [c] else [])\<rparr>)"
  proof -
    have ck: "col k1 = of_bool sh" by (simp add: k1_def)
    show ?thesis
      using tb unfolding Let_def assms(5) kcol k1_def [symmetric] ck assms(6) upd out by simp
  qed
  moreover have "at_rest sh (t\<lparr>tty_kbd := k1, console := cc\<rparr>)" for cc
    using assms(1) b by (simp add: at_rest_def k1_def Let_def)
  ultimately show ?thesis by simp
qed

lemma keyrow_shift: "keyrow 0x2A 0 = kc SHIFT_L" "keyrow 0x2A 1 = kc SHIFT_L" "keyrow 0x1C 0 = kc ENTER"
  by (simp_all add: keyrow_def keymap_def)

lemma shift_key:
  assumes "at_rest sh t" "d = 0x2A \<or> d = 0xAA"
  shows "\<exists>t'. tty_byte t d = Inr t' \<and> at_rest (d = 0x2A) t' \<and> console t' = console t"
proof -
  let ?k = "tty_kbd t"
  have r: "ring_ok (kbd_buffer ?k)" "ring_content (kbd_buffer ?k) = []"
    using assms(1) by (simp_all add: at_rest_def Let_def)
  have d: "d \<noteq> 0xE0" "d \<noteq> 0xE1" "unat (d AND 0x7F) = 0x2A" "d AND 0x80 = 0 \<longleftrightarrow> d = 0x2A"
    using assms(2) by auto
  obtain b where b: "ring_ok b" "ring_content b = []" and tb: "tty_byte t d =
    (let row = unat (d AND 0x7F); mk = (d AND 0x80 = 0);
         k = ?k\<lparr>kbd_buffer := b, E0 := False\<rparr>;
         k = k\<lparr>col := key_column k row\<rparr>;
         key = keyrow row (col k);
         k = update_modifiers key mk k;
         out = (if mk then or_flags k key else 0)
     in Inr (t\<lparr>tty_kbd := k, console := console t @ takeWhile (\<lambda>c. c \<noteq> 0) (key_echo out)\<rparr>))"
    using tty_byte_step [OF r d(1,2)] by blast
  define k1 where "k1 = ?k\<lparr>kbd_buffer := b, E0 := False, col := of_bool sh, shift_l := (d = 0x2A)\<rparr>"
  have kcol: "key_column (?k\<lparr>kbd_buffer := b, E0 := False\<rparr>) 42 = of_bool sh"
    using assms(1) keyrow_shift by (simp add: key_column_def at_rest_def Let_def)
  have key: "keyrow 42 (of_bool sh) = kc SHIFT_L" using keyrow_shift by (cases sh) simp_all
  have echo: "key_echo (kc SHIFT_L) = [0]" "key_echo 0 = [0, 0]" by (simp_all add: key_echo_def)
  let ?k0 = "?k\<lparr>kbd_buffer := b, E0 := False, col := of_bool sh\<rparr>"
  have upd: "update_modifiers (kc SHIFT_L) (d = 0x2A) ?k0 = k1"
    by (simp only: update_modifiers_def if_True refl) (simp add: k1_def)
  have ck: "col ?k0 = of_bool sh" by simp
  have out: "takeWhile (\<lambda>c. c \<noteq> 0) (key_echo (if d = 0x2A then or_flags k1 (kc SHIFT_L) else 0)) = []"
    by (simp only: key_echo_or_flags echo split: if_split) simp
  have "tty_byte t d = Inr (t\<lparr>tty_kbd := k1, console := console t\<rparr>)"
    using tb unfolding Let_def d(3,4) kcol ck key upd out by simp
  moreover have "at_rest (d = 0x2A) (t\<lparr>tty_kbd := k1, console := cc\<rparr>)" for cc
    using assms(1) b by (simp add: at_rest_def k1_def Let_def)
  moreover have "console (t\<lparr>tty_kbd := k1, console := console t\<rparr>) = console t" by simp
  ultimately show ?thesis by metis
qed

text \<open>
  The byte sequences that type a character: press and release of a key that has it in its
  plain column, or, inside press and release of the left shift key, in its shifted column; the
  newline is typed with the enter key.
\<close>

inductive types :: "u8 \<Rightarrow> u8 list \<Rightarrow> bool" where
  plain: "r < 0x60 \<Longrightarrow> keyrow r 0 = ucast c \<Longrightarrow> c \<noteq> 0 \<Longrightarrow> types c [of_nat r, of_nat r OR 0x80]"
| shifted: "r < 0x60 \<Longrightarrow> keyrow r 1 = ucast c \<Longrightarrow> c \<noteq> 0 \<Longrightarrow>
    types c [0x2A, of_nat r, of_nat r OR 0x80, 0xAA]"
| enter: "types 10 [0x1C, 0x9C]"

lemma scan_code_bits:
  assumes "r < 0x60"
  shows "(of_nat r :: u8) AND 0x80 = 0" "((of_nat r :: u8) OR 0x80) AND 0x80 \<noteq> 0"
    "unat ((of_nat r :: u8) AND 0x7F) = r" "unat (((of_nat r :: u8) OR 0x80) AND 0x7F) = r"
    "(of_nat r :: u8) \<noteq> 0xE0" "(of_nat r :: u8) \<noteq> 0xE1"
    "(of_nat r :: u8) OR 0x80 \<noteq> 0xE0" "(of_nat r :: u8) OR 0x80 \<noteq> 0xE1"
proof -
  have "\<forall>x \<in> set (map of_nat [0..<0x60]). (x :: u8) AND 0x80 = 0 \<and> (x OR 0x80) AND 0x80 \<noteq> 0 \<and>
      x AND 0x7F = x \<and> (x OR 0x80) AND 0x7F = x \<and>
      x \<noteq> 0xE0 \<and> x \<noteq> 0xE1 \<and> x OR 0x80 \<noteq> 0xE0 \<and> x OR 0x80 \<noteq> 0xE1"
    by code_simp
  moreover have "(of_nat r :: u8) \<in> set (map of_nat [0..<0x60])" using assms by simp
  moreover have "unat (of_nat r :: u8) = r"
    using assms by (simp add: unat_of_nat take_bit_nat_eq_self)
  ultimately show "(of_nat r :: u8) AND 0x80 = 0" "((of_nat r :: u8) OR 0x80) AND 0x80 \<noteq> 0"
    "unat ((of_nat r :: u8) AND 0x7F) = r" "unat (((of_nat r :: u8) OR 0x80) AND 0x7F) = r"
    "(of_nat r :: u8) \<noteq> 0xE0" "(of_nat r :: u8) \<noteq> 0xE1"
    "(of_nat r :: u8) OR 0x80 \<noteq> 0xE0" "(of_nat r :: u8) OR 0x80 \<noteq> 0xE1"
    by auto
qed

lemma press_release:
  assumes "at_rest sh t" "r < 0x60" "keyrow r (of_bool sh) = ucast c" "c \<noteq> 0"
  shows "\<exists>t'. tty_bytes t [of_nat r, of_nat r OR 0x80] = Inr t' \<and> at_rest sh t' \<and>
    console t' = console t @ [c]"
proof -
  note b = scan_code_bits [OF assms(2)]
  obtain t1 where t1: "tty_byte t (of_nat r) = Inr t1" "at_rest sh t1" "console t1 = console t @ [c]"
    using char_key [OF assms(1) _ b(5,6,3) assms(3,4)] b(1) by auto
  obtain t2 where t2: "tty_byte t1 (of_nat r OR 0x80) = Inr t2" "at_rest sh t2" "console t2 = console t1"
    using char_key [OF t1(2) _ b(7,8,4) assms(3,4)] b(2) by auto
  show ?thesis using t1 t2 by auto
qed

lemma enter_key:
  assumes "at_rest False t" "d = 0x1C \<or> d = 0x9C"
  shows "\<exists>t'. tty_byte t d = Inr t' \<and> at_rest False t' \<and>
    console t' = console t @ (if d = 0x1C then [10] else [])"
proof -
  let ?k = "tty_kbd t"
  have r: "ring_ok (kbd_buffer ?k)" "ring_content (kbd_buffer ?k) = []"
    using assms(1) by (simp_all add: at_rest_def Let_def)
  have d: "d \<noteq> 0xE0" "d \<noteq> 0xE1" "unat (d AND 0x7F) = 0x1C" "d AND 0x80 = 0 \<longleftrightarrow> d = 0x1C"
    using assms(2) by auto
  obtain b where b: "ring_ok b" "ring_content b = []" and tb: "tty_byte t d =
    (let row = unat (d AND 0x7F); mk = (d AND 0x80 = 0);
         k = ?k\<lparr>kbd_buffer := b, E0 := False\<rparr>;
         k = k\<lparr>col := key_column k row\<rparr>;
         key = keyrow row (col k);
         k = update_modifiers key mk k;
         out = (if mk then or_flags k key else 0)
     in Inr (t\<lparr>tty_kbd := k, console := console t @ takeWhile (\<lambda>c. c \<noteq> 0) (key_echo out)\<rparr>))"
    using tty_byte_step [OF r d(1,2)] by blast
  define k1 where "k1 = ?k\<lparr>kbd_buffer := b, E0 := False, col := 0\<rparr>"
  have kcol: "key_column (?k\<lparr>kbd_buffer := b, E0 := False\<rparr>) 0x1C = 0"
    using assms(1) keyrow_shift by (simp add: key_column_def at_rest_def Let_def is_lower_def ch_def)
  have upd: "update_modifiers (kc ENTER) mk k1 = k1" for mk by (simp add: update_modifiers_def)
  have ck: "col k1 = 0" by (simp add: k1_def)
  have echo: "key_echo (kc ENTER) = [10, 0]" "key_echo 0 = [0, 0]" by (simp_all add: key_echo_def)
  have out: "takeWhile (\<lambda>c. c \<noteq> 0) (key_echo (if d = 0x1C then or_flags k1 (kc ENTER) else 0)) =
      (if d = 0x1C then [10] else [])"
    by (simp only: key_echo_or_flags echo split: if_split) simp
  have "tty_byte t d = Inr (t\<lparr>tty_kbd := k1, console := console t @ (if d = 0x1C then [10] else [])\<rparr>)"
    using tb unfolding Let_def d(3,4) kcol k1_def [symmetric] ck keyrow_shift(3) upd out by simp
  moreover have "at_rest False (t\<lparr>tty_kbd := k1, console := cc\<rparr>)" for cc
    using assms(1) b by (simp add: at_rest_def k1_def Let_def)
  ultimately show ?thesis by simp
qed

lemma tty_bytes_append: "tty_bytes t (xs @ ys) = and_then (tty_bytes t xs) (\<lambda>t. tty_bytes t ys)"
proof (induction xs arbitrary: t)
  case (Cons x xs)
  then show ?case by (cases "tty_byte t x") simp_all
qed simp

lemma types_echo:
  assumes "types c ks" "at_rest False t"
  shows "\<exists>t'. tty_bytes t ks = Inr t' \<and> at_rest False t' \<and> console t' = console t @ [c]"
  using assms
proof cases
  case (plain r)
  then show ?thesis using press_release [of False t r c] assms(2) by simp
next
  case (shifted r)
  obtain t1 where t1: "tty_byte t 0x2A = Inr t1" "at_rest True t1" "console t1 = console t"
    using shift_key [OF assms(2), of "0x2A"] by auto
  obtain t2 where t2: "tty_bytes t1 [of_nat r, of_nat r OR 0x80] = Inr t2" "at_rest True t2"
    "console t2 = console t1 @ [c]"
    using press_release [OF t1(2) shifted(2)] shifted(3,4) by auto
  obtain t3 where t3: "tty_byte t2 0xAA = Inr t3" "at_rest False t3" "console t3 = console t2"
    using shift_key [OF t2(2), of "0xAA"] by auto
  have "ks = [0x2A] @ [of_nat r, of_nat r OR 0x80] @ [0xAA]" using shifted(1) by simp
  then have "tty_bytes t ks = Inr t3"
    using t1(1) t2(1) t3(1) by (simp only: tty_bytes_append tty_bytes.simps and_then_simps)
  then show ?thesis using t1(3) t2(3) t3(2,3) by simp
next
  case enter
  obtain t1 where t1: "tty_byte t 0x1C = Inr t1" "at_rest False t1" "console t1 = console t @ [10]"
    using enter_key [OF assms(2), of "0x1C"] by auto
  obtain t2 where t2: "tty_byte t1 0x9C = Inr t2" "at_rest False t2" "console t2 = console t1"
    using enter_key [OF t1(2), of "0x9C"] by auto
  show ?thesis using enter t1 t2 by simp
qed

text \<open>What is typed is echoed: from a driver at rest, when the bytes that arrive are those of
  any way of typing a text, character by character, with the shift key held where a character
  needs it, then the console shows exactly this text and the driver is at rest again.\<close>

theorem typed_text_echoed:
  assumes "at_rest False t" "list_all2 types str strokes"
  shows "\<exists>t'. tty_bytes t (concat strokes) = Inr t' \<and> at_rest False t' \<and> console t' = console t @ str"
  using assms(2,1)
proof (induction str strokes arbitrary: t rule: list_all2_induct)
  case Nil
  then show ?case by simp
next
  case (Cons c cs ks kss)
  obtain t1 where t1: "tty_bytes t ks = Inr t1" "at_rest False t1" "console t1 = console t @ [c]"
    using types_echo [OF Cons.hyps(1) Cons.prems] by blast
  obtain t' where "tty_bytes t1 (concat kss) = Inr t'" "at_rest False t'" "console t' = console t1 @ cs"
    using Cons.IH [OF t1(2)] by blast
  then show ?case using t1 by (simp add: tty_bytes_append)
qed

definition demo_tty :: tty where
  "demo_tty = \<lparr>tty_kbd = init_kbd demo_kbd, console = []\<rparr>"

lemma demo_tty_at_rest: "at_rest False demo_tty"
  using ring_init [of demo_kbd]
  by (simp add: at_rest_def demo_tty_def Let_def) (simp add: init_kbd_def set_leds_def Let_def)

theorem typed_text_echoed_witness:
  "\<exists>t'. tty_bytes demo_tty [0x2A, 0x23, 0xA3, 0xAA, 0x17, 0x97, 0x1C, 0x9C] = Inr t' \<and>
    at_rest False t' \<and> console t' = [0x48, 0x69, 10]"
proof -
  have h: "types 0x48 [0x2A, 0x23, 0xA3, 0xAA]"
    using types.shifted [of "0x23" "0x48"] by (simp add: keyrow_def keymap_def ch_def)
  have i: "types 0x69 [0x17, 0x97]"
    using types.plain [of "0x17" "0x69"] by (simp add: keyrow_def keymap_def ch_def)
  have "list_all2 types [0x48, 0x69, 10] [[0x2A, 0x23, 0xA3, 0xAA], [0x17, 0x97], [0x1C, 0x9C]]"
    using h i types.enter by simp
  from typed_text_echoed [OF demo_tty_at_rest this]
  have "\<exists>t'. tty_bytes demo_tty (concat [[0x2A, 0x23, 0xA3, 0xAA], [0x17, 0x97], [0x1C, 0x9C]]) = Inr t' \<and>
    at_rest False t' \<and> console t' = console demo_tty @ [0x48, 0x69, 10]" .
  moreover have "console demo_tty = []" by (simp add: demo_tty_def)
  ultimately show ?thesis by (simp only: concat.simps append.simps)
qed

text \<open>What can be seen of the terminal: pending bytes, the num lock state, the console.\<close>

definition tty_view :: "tty res \<Rightarrow> (u8 list \<times> bool \<times> u8 list) option" where
  "tty_view r = (case r of Inl _ \<Rightarrow> None
     | Inr t \<Rightarrow> Some (ring_content (kbd_buffer (tty_kbd t)), num_lock (tty_kbd t), console t))"

text \<open>The Pause key is not recognised: \<open>kbd_read\<close> compares the byte after 0xE1 with 0xE1 again. Of
  its six bytes four stay in the buffer; the driver, which decodes one key per interrupt, is from
  then on behind by that much. A key pressed and released afterwards echoes nothing: its first byte
  is spent on a num lock that was never pressed, and then the buffer starts with 0xE1 0x9D, which
  \<open>kbd_code_end\<close> does not take for a complete code.\<close>

theorem pause_key_desync:
  "tty_view (tty_bytes demo_tty [0xE1, 0x1D, 0x45, 0xE1, 0x9D, 0xC5]) =
     Some ([0x45, 0xE1, 0x9D, 0xC5], True, []) \<and>
   tty_view (tty_bytes demo_tty ([0xE1, 0x1D, 0x45, 0xE1, 0x9D, 0xC5] @ [0x1E, 0x9E])) =
     Some ([0xE1, 0x9D, 0xC5, 0x1E, 0x9E], True, [])"
  by (rule conjI) code_simp+

end
