(* ===== verification/Systask.thy ===== *)
theory Systask
  imports Process_Table Res_Monad
begin

text \<open>
  The system task, \<^verbatim>\<open>modules/systask/systask.c\<close>, with the requests its clients send it
  (\<^verbatim>\<open>header/modules/systask.h\<close>). It owns the process table, the subscriptions to interrupts and
  exceptions, and the environment.

  One turn of its loop takes a message and returns the new state and the messages sent back, in
  order. The checks that \<open>panic\<close> fall through, so the statement behind them is executed; an
  index outside a table is \<open>OutOfBounds\<close>. A name inside a message is read from the message:
  the buffer lies in the kernel's range, which every page directory maps alike.
\<close>

section \<open>State\<close>

record sys =
  sk :: kernel
  senv :: core_env
  smem :: core_mem
  boot_info :: "u32 list"

abbreviation (input) SYSTASK_PID :: u32 where "SYSTASK_PID \<equiv> 2"
abbreviation (input) HW_IRQ_COUNT :: nat where "HW_IRQ_COUNT \<equiv> 16"
abbreviation (input) EXCEPTION_COUNT :: nat where "EXCEPTION_COUNT \<equiv> 32"

datatype (plugins only: code) sys_request =
    GET_TICKS | REG_PROC | UNREG_PROC | QUERY_PROC | REG_INT_FUNC | UNREG_INT_FUNC | REG_INT_MSG
  | UNREG_INT_MSG | PEEK_MSG | QUERY_ENV | EXIT_PROC | GET_PROC_LIST_HEAD | ALLOC_PROC | GET_PROC
  | PROC_VIR2PHY | REG_EXC_MSG | UNREG_EXC_MSG | SWITCHPRIVRING1 | SWITCHPRIVRING3

definition sys_requests :: "sys_request list" where
  "sys_requests = [GET_TICKS, REG_PROC, UNREG_PROC, QUERY_PROC, REG_INT_FUNC, UNREG_INT_FUNC,
     REG_INT_MSG, UNREG_INT_MSG, PEEK_MSG, QUERY_ENV, EXIT_PROC, GET_PROC_LIST_HEAD, ALLOC_PROC,
     GET_PROC, PROC_VIR2PHY, REG_EXC_MSG, UNREG_EXC_MSG, SWITCHPRIVRING1, SWITCHPRIVRING3]"

text \<open>The numbers of the requests, starting at 1, and the request a message type stands for.\<close>

definition request_of :: "u32 \<Rightarrow> sys_request option" where
  "request_of t = (if 1 \<le> t \<and> t \<le> 19 then Some (sys_requests ! (unat t - 1)) else None)"

fun request_no :: "sys_request \<Rightarrow> u32" where
  "request_no GET_TICKS = 1" | "request_no REG_PROC = 2" | "request_no UNREG_PROC = 3"
| "request_no QUERY_PROC = 4" | "request_no REG_INT_FUNC = 5" | "request_no UNREG_INT_FUNC = 6"
| "request_no REG_INT_MSG = 7" | "request_no UNREG_INT_MSG = 8" | "request_no PEEK_MSG = 9"
| "request_no QUERY_ENV = 10" | "request_no EXIT_PROC = 11" | "request_no GET_PROC_LIST_HEAD = 12"
| "request_no ALLOC_PROC = 13" | "request_no GET_PROC = 14" | "request_no PROC_VIR2PHY = 15"
| "request_no REG_EXC_MSG = 16" | "request_no UNREG_EXC_MSG = 17" | "request_no SWITCHPRIVRING1 = 18"
| "request_no SWITCHPRIVRING3 = 19"

section \<open>Names\<close>

text \<open>The 16 bytes that the data words of a message overlay, lowest byte first.\<close>

definition word_bytes :: "u32 \<Rightarrow> u8 list" where
  "word_bytes w = [ucast w, ucast (drop_bit 8 w), ucast (drop_bit 16 w), ucast (drop_bit 24 w)]"

definition b16 :: "message \<Rightarrow> u8 list" where
  "b16 m = word_bytes (m_d1 m) @ word_bytes (m_d2 m) @ word_bytes (m_d3 m) @ word_bytes (m_d4 m)"

definition cstr :: "u8 list \<Rightarrow> u8 list" where
  "cstr bs = takeWhile (\<lambda>c. c \<noteq> 0) bs"

text \<open>
  \<open>__reg_proc\<close> compares with the first \<open>proc_count\<close> slots of the table, whether in use or not. A
  name without a zero in its 16 bytes is copied past the end of the field.
\<close>

definition reg_proc_slot :: "kernel \<Rightarrow> nat \<Rightarrow> u8 list \<Rightarrow> (kernel \<times> u32) res" where
  "reg_proc_slot k p bytes =
     (if \<exists>i \<in> set [0..<unat (proc_count k)]. cstr bytes = cstr (proc_name (proc_table k i)) \<and> i \<noteq> p
      then Inr (k, 0xFFFFFFFF)
      else if 0 \<notin> set bytes then Inl OutOfBounds
      else Inr (upd_proc p (\<lambda>q. q\<lparr>proc_name := cstr bytes @ 0 # drop (Suc (length (cstr bytes))) (proc_name q)\<rparr>) k, 0))"

definition unreg_proc_slot :: "nat \<Rightarrow> kernel \<Rightarrow> kernel" where
  "unreg_proc_slot p k = upd_proc p (\<lambda>q. q\<lparr>proc_name := replicate 16 0\<rparr>) k"

partial_function (option) query_from :: "kernel \<Rightarrow> u8 list \<Rightarrow> nat option \<Rightarrow> u32 option" where
  "query_from k name p =
     (case p of
        None \<Rightarrow> Some 0
      | Some p \<Rightarrow> if name = cstr (proc_name (proc_table k p)) then Some (pid (proc_table k p))
                  else query_from k name (nexts k p))"

section \<open>Processes\<close>

definition zero_process :: process where
  "zero_process = \<lparr>stack = \<lparr>sf_gs = 0, sf_fs = 0, sf_es = 0, sf_ds = 0, sf_edi = 0, sf_esi = 0, sf_ebp = 0,
       sf_oesp = 0, sf_ebx = 0, sf_edx = 0, sf_ecx = 0, sf_eax = 0, sf_trap_no = 0, sf_err_code = 0,
       sf_eip = 0, sf_cs = 0, sf_eflags = 0, sf_esp = 0, sf_ss = 0\<rparr>,
     page_dir = 0, status = 0, pid = 0, parent_pid = 0, proc_name = replicate 16 0,
     pstack = 0, pstack_size = 0, exit_status = 0, p_msg = 0, queue_head = None, queue_body = None,
     next_proc = None, proc_prog = None\<rparr>"

text \<open>
  The search for the predecessor of the process that exits; \<open>None\<close> inside when the end of the list
  is reached, and the C code then writes through the null pointer.
\<close>

partial_function (option) pred_proc :: "(nat \<Rightarrow> nat option) \<Rightarrow> nat \<Rightarrow> nat \<Rightarrow> nat option option" where
  "pred_proc nx target p =
     (case nx p of
        None \<Rightarrow> Some None
      | Some q \<Rightarrow> if q = target then Some (Some p) else pred_proc nx target q)"

definition unlink_proc :: "kernel \<Rightarrow> nat \<Rightarrow> kernel res" where
  "unlink_proc k target =
     (if proc_list k = Some target then Inr (k\<lparr>proc_list := Some target\<rparr>)
      else (case proc_list k of
              None \<Rightarrow> Inl NullDeref
            | Some p \<Rightarrow>
                (case pred_proc (nexts k) target p of
                   None \<Rightarrow> Inl Hang
                 | Some None \<Rightarrow> Inl NullDeref
                 | Some (Some ff) \<Rightarrow> Inr (upd_proc ff (\<lambda>q. q\<lparr>next_proc := nexts k target\<rparr>) k))))"

definition drop_subscriptions :: "u32 \<Rightarrow> kernel \<Rightarrow> kernel" where
  "drop_subscriptions p k =
     k\<lparr>interrupt_suscribed := (\<lambda>i. if i < HW_IRQ_COUNT \<and> interrupt_suscribed k i = p then 0
                                    else interrupt_suscribed k i),
       interrupt_methods := (\<lambda>i. if i < HW_IRQ_COUNT \<and> im_pid (interrupt_methods k i) = p
                                  then (interrupt_methods k i)\<lparr>im_pid := 0, im_avail := 0, im_func := 0\<rparr>
                                  else interrupt_methods k i)\<rparr>"

definition exit_proc :: "u32 \<Rightarrow> sys \<Rightarrow> u32 \<Rightarrow> sys res" where
  "exit_proc vend s p =
     (let k = sk s; i = unat p in
      if proc_max k \<le> i then Inl OutOfBounds
      else
        (let k = unreg_proc_slot i k;
             k = drop_subscriptions p k;
             k = k\<lparr>proc_bitmap := clear_bit (proc_bitmap k) i\<rparr>;
             proc_stack = pstack (proc_table k i)
         in and_then (if proc_stack \<noteq> 0 \<and> proc_stack < core_space_free_end (senv s)
                      then kfree_pages vend (smem s) proc_stack else Inr (smem s)) (\<lambda>mem.
            let k = k\<lparr>proc_count := proc_count k - 1\<rparr> in
            and_then (unlink_proc k i) (\<lambda>k.
              Inr (s\<lparr>sk := upd_proc i (\<lambda>_. zero_process) k, smem := mem\<rparr>)))))"

definition proc_addr :: "sys \<Rightarrow> nat \<Rightarrow> u32" where
  "proc_addr s i = env_proc_table (senv s) + SIZEOF_PROCESS * of_nat i"

definition alloc_proc :: "sys \<Rightarrow> (sys \<times> u32) res" where
  "alloc_proc s =
     (let k = sk s; newpid = find_first_unset_bit (proc_bitmap k) (proc_bitmap_size k) in
      if newpid = 0xFFFFFFFF then Inr (s, 0)
      else if proc_max k \<le> unat newpid then Inl OutOfBounds
      else
        (let i = unat newpid;
             k = k\<lparr>proc_bitmap := set_bit (proc_bitmap k) i\<rparr>;
             k = upd_proc i (\<lambda>_. zero_process\<lparr>status := PROC_STATUS_STOP\<rparr>) k
         in case append_proc k i of
              None \<Rightarrow> Inl Hang
            | Some k \<Rightarrow>
                (let k = upd_proc i (\<lambda>q. q\<lparr>parent_pid := 1, pid := newpid,
                                         stack := (stack q)\<lparr>sf_eflags := 0x1202\<rparr>\<rparr>) k;
                     k = k\<lparr>proc_count := proc_count k + 1\<rparr>
                 in Inr (s\<lparr>sk := k\<rparr>, proc_addr s i))))"

definition set_ring :: "u16 \<Rightarrow> u16 \<Rightarrow> nat \<Rightarrow> kernel \<Rightarrow> kernel" where
  "set_ring code data i k =
     upd_proc i (\<lambda>p. p\<lparr>stack := (stack p)\<lparr>sf_cs := code, sf_es := data, sf_fs := data, sf_ds := data,
                                             sf_ss := data, sf_gs := data\<rparr>\<rparr>) k"

section \<open>The environment\<close>

fun store_words :: "(u32 \<Rightarrow> u32) \<Rightarrow> u32 \<Rightarrow> u32 list \<Rightarrow> u32 \<Rightarrow> u32" where
  "store_words w a [] = w"
| "store_words w a (x # xs) = store_words (w(a := x)) (a + 4) xs"

definition zone_words :: "core_env \<Rightarrow> u32 list" where
  "zone_words e = concat (map (\<lambda>i. let z = memory_zones e i in [z_addr z, z_length z, z_type z])
                            [0..<memory_zone_count e])"

definition usage_words :: "core_env \<Rightarrow> u32 list" where
  "usage_words e = [core_space_start e, core_space_free_start e, core_space_free_end e,
                    core_space_end e, memory_end e]"

text \<open>Copying a table out to the sender's buffer, when that is large enough.\<close>

definition copy_out :: "sys \<Rightarrow> message \<Rightarrow> u32 list \<Rightarrow> u32 \<Rightarrow> sys \<times> message" where
  "copy_out s m ws answer =
     (let buf = vir2phy (page_tables (sk s)) (page_dir (proc_table (sk s) (unat (m_sender m)))) (m_d1 m)
      in if unat (m_d2 m) < 4 * length ws then (s, m\<lparr>m_major := 0xFFFFFFFF\<rparr>)
         else (s\<lparr>smem := (smem s)\<lparr>words := store_words (words (smem s)) buf ws\<rparr>\<rparr>, m\<lparr>m_major := answer\<rparr>))"

definition query_env :: "sys \<Rightarrow> message \<Rightarrow> sys \<times> message option" where
  "query_env s m =
     (let key = m_major m in
      if key = 1 then (s, Some (m\<lparr>m_major := boot_info s ! 1\<rparr>))
      else if key = 2 then (s, Some (m\<lparr>m_major := boot_info s ! 2\<rparr>))
      else if key = 4 then
        (let (s, m) = copy_out s m (zone_words (senv s)) (of_nat (memory_zone_count (senv s))) in (s, Some m))
      else if key = 3 then (let (s, m) = copy_out s m (boot_info s) 0 in (s, Some m))
      else if key = 5 then (let (s, m) = copy_out s m (usage_words (senv s)) 0 in (s, Some m))
      else (s, None))"

section \<open>One turn of the loop\<close>

definition send_back :: "message \<Rightarrow> message" where
  "send_back m = m\<lparr>m_receiver := m_sender m\<rparr>"

definition reply :: "sys \<Rightarrow> message \<Rightarrow> u32 \<Rightarrow> (sys \<times> message list) res" where
  "reply s m major = Inr (s, [send_back (m\<lparr>m_major := major\<rparr>)])"

definition do_query_proc :: "sys \<Rightarrow> message \<Rightarrow> u32 res" where
  "do_query_proc s m =
     (case query_from (sk s) (cstr (b16 m)) (proc_list (sk s)) of None \<Rightarrow> Inl Hang | Some p \<Rightarrow> Inr p)"

definition set_method :: "sys \<Rightarrow> message \<Rightarrow> sys" where
  "set_method s m =
     (let pd = page_dir (proc_table (sk s) (unat (m_sender m)));
          tr = vir2phy (page_tables (sk s)) pd
      in s\<lparr>sk := (sk s)\<lparr>interrupt_methods := (interrupt_methods (sk s))(unat (m_major m) :=
           \<lparr>im_pid = m_sender m, im_func = tr (m_d1 m), im_data = tr (m_d2 m), im_avail = 1\<rparr>)\<rparr>\<rparr>)"

definition clear_method :: "sys \<Rightarrow> message \<Rightarrow> sys" where
  "clear_method s m =
     s\<lparr>sk := (sk s)\<lparr>interrupt_methods := (interrupt_methods (sk s))(unat (m_major m) :=
         \<lparr>im_pid = 0, im_func = 0, im_data = 0, im_avail = 0\<rparr>)\<rparr>\<rparr>"

definition suscribe_int :: "sys \<Rightarrow> message \<Rightarrow> u32 \<Rightarrow> sys" where
  "suscribe_int s m p =
     s\<lparr>sk := (sk s)\<lparr>interrupt_suscribed := (interrupt_suscribed (sk s))(unat (m_major m) := p)\<rparr>\<rparr>"

definition suscribe_exc :: "sys \<Rightarrow> message \<Rightarrow> u32 \<Rightarrow> sys" where
  "suscribe_exc s m p =
     s\<lparr>sk := (sk s)\<lparr>exception_suscribed := (exception_suscribed (sk s))(unat (m_major m) := p)\<rparr>\<rparr>"

fun do_request :: "u32 \<Rightarrow> sys_request \<Rightarrow> sys \<Rightarrow> message \<Rightarrow> (sys \<times> message list) res" where
  "do_request vend GET_TICKS s m = reply s m (beats (sk s))"
| "do_request vend REG_PROC s m =
     and_then (reg_proc_slot (sk s) (unat (m_sender m)) (b16 m)) (\<lambda>(k, r). reply (s\<lparr>sk := k\<rparr>) m r)"
| "do_request vend UNREG_PROC s m =
     (let s = s\<lparr>sk := unreg_proc_slot (unat (m_sender m)) (sk s)\<rparr>;
          m = send_back (m\<lparr>m_major := 0\<rparr>)
      in and_then (do_query_proc s m) (\<lambda>p. Inr (s, [m, send_back (m\<lparr>m_major := p\<rparr>)])))"
| "do_request vend QUERY_PROC s m = and_then (do_query_proc s m) (\<lambda>p. reply s m p)"
| "do_request vend REG_INT_FUNC s m =
     (if HW_IRQ_COUNT \<le> unat (m_major m) then Inl OutOfBounds else reply (set_method s m) m 0)"
| "do_request vend UNREG_INT_FUNC s m =
     (if HW_IRQ_COUNT \<le> unat (m_major m) then Inl OutOfBounds else reply (clear_method s m) m 0)"
| "do_request vend REG_INT_MSG s m =
     (if HW_IRQ_COUNT \<le> unat (m_major m) then Inl OutOfBounds else reply (suscribe_int s m (m_sender m)) m 0)"
| "do_request vend UNREG_INT_MSG s m =
     (if HW_IRQ_COUNT \<le> unat (m_major m) then Inl OutOfBounds else reply (suscribe_int s m 0) m 0)"
| "do_request vend REG_EXC_MSG s m =
     (if EXCEPTION_COUNT \<le> unat (m_major m) then Inl OutOfBounds else reply (suscribe_exc s m (m_sender m)) m 0)"
| "do_request vend UNREG_EXC_MSG s m =
     (if EXCEPTION_COUNT \<le> unat (m_major m) then Inl OutOfBounds else reply (suscribe_exc s m 0) m 0)"
| "do_request vend PEEK_MSG s m =
     reply s m (if queue_head (proc_table (sk s) (unat (m_sender m))) = None then 0 else 1)"
| "do_request vend QUERY_ENV s m =
     (case query_env s m of (s, None) \<Rightarrow> Inr (s, []) | (s, Some m) \<Rightarrow> Inr (s, [send_back m]))"
| "do_request vend EXIT_PROC s m = and_then (exit_proc vend s (m_major m)) (\<lambda>s. Inr (s, []))"
| "do_request vend ALLOC_PROC s m = and_then (alloc_proc s) (\<lambda>(s, a). reply s m a)"
| "do_request vend GET_PROC s m = reply s m (proc_addr s (unat (m_major m)))"
| "do_request vend PROC_VIR2PHY s m =
     (if proc_max (sk s) \<le> unat (m_major m) then Inl OutOfBounds
      else reply s m (vir2phy (page_tables (sk s)) (page_dir (proc_table (sk s) (unat (m_major m)))) (m_d1 m)))"
| "do_request vend GET_PROC_LIST_HEAD s m =
     reply s m (case proc_list (sk s) of None \<Rightarrow> 0 | Some i \<Rightarrow> proc_addr s i)"
| "do_request vend SWITCHPRIVRING3 s m =
     Inr (s\<lparr>sk := set_ring 0x33 0x3B (unat (m_sender m)) (sk s)\<rparr>, [send_back m])"
| "do_request vend SWITCHPRIVRING1 s m =
     Inr (s\<lparr>sk := set_ring 0x21 0x29 (unat (m_sender m)) (sk s)\<rparr>, [send_back m])"

definition systask :: "u32 \<Rightarrow> sys \<Rightarrow> message \<Rightarrow> (sys \<times> message list) res" where
  "systask vend s m =
     (if proc_max (sk s) \<le> unat (m_sender m) then Inl OutOfBounds
      else case request_of (m_type m) of None \<Rightarrow> Inr (s, []) | Some r \<Rightarrow> do_request vend r s m)"

section \<open>The requests of the clients\<close>

text \<open>
  The inline functions of the header fill in a message \<open>m\<close> (over what the stack held before), send
  it and wait for the answer, which is in \<open>major\<close>. Here the call by process \<open>p\<close> is one turn of the
  system task on its message; without an answer the caller stays blocked, which is \<open>None\<close>.
\<close>

definition sys_call :: "u32 \<Rightarrow> sys \<Rightarrow> u32 \<Rightarrow> message \<Rightarrow> (sys \<times> u32 option) res" where
  "sys_call vend s p m =
     and_then (systask vend s (m\<lparr>m_sender := p\<rparr>))
       (\<lambda>(s, rs). Inr (s, case rs of [] \<Rightarrow> None | r # _ \<Rightarrow> Some (m_major r)))"

definition sys_msg :: "message \<Rightarrow> sys_request \<Rightarrow> message" where
  "sys_msg m r = m\<lparr>m_type := request_no r AND 0x7FFFFFFF, m_receiver := SYSTASK_PID\<rparr>"

definition get_ticks_call :: "u32 \<Rightarrow> sys \<Rightarrow> u32 \<Rightarrow> message \<Rightarrow> (sys \<times> u32 option) res" where
  "get_ticks_call vend s p m = sys_call vend s p (sys_msg m GET_TICKS)"

text \<open>
  A name of 16 bytes passes the length check of \<open>reg_proc\<close>; its terminating zero does not fit into
  the message. The bytes of the name become the four data words.
\<close>

definition bytes_word :: "u8 list \<Rightarrow> nat \<Rightarrow> u32" where
  "bytes_word bs i = ucast (bs ! i) OR push_bit 8 (ucast (bs ! (i + 1))) OR
     push_bit 16 (ucast (bs ! (i + 2))) OR push_bit 24 (ucast (bs ! (i + 3)))"

definition set_b16 :: "message \<Rightarrow> u8 list \<Rightarrow> message" where
  "set_b16 m bs = m\<lparr>m_d1 := bytes_word bs 0, m_d2 := bytes_word bs 4, m_d3 := bytes_word bs 8,
     m_d4 := bytes_word bs 12\<rparr>"

definition reg_proc_call :: "u32 \<Rightarrow> sys \<Rightarrow> u32 \<Rightarrow> message \<Rightarrow> u8 list \<Rightarrow> (sys \<times> u32 option) res" where
  "reg_proc_call vend s p m name =
     (if 16 < length name then Inr (s, Some 1)
      else if length name = 16 then Inl OutOfBounds
      else sys_call vend s p (set_b16 (sys_msg m REG_PROC) (name @ 0 # drop (Suc (length name)) (b16 m))))"

definition unreg_proc_call :: "u32 \<Rightarrow> sys \<Rightarrow> u32 \<Rightarrow> message \<Rightarrow> (sys \<times> u32 option) res" where
  "unreg_proc_call vend s p m = sys_call vend s p (sys_msg m UNREG_PROC)"

definition reg_int_func_call :: "u32 \<Rightarrow> sys \<Rightarrow> u32 \<Rightarrow> message \<Rightarrow> u32 \<Rightarrow> u32 \<Rightarrow> u32 \<Rightarrow>
    (sys \<times> u32 option) res" where
  "reg_int_func_call vend s p m irq func dat =
     (if func = 0 then Inr (s, Some 1)
      else sys_call vend s p ((sys_msg m REG_INT_FUNC)\<lparr>m_major := irq, m_d1 := func, m_d2 := dat\<rparr>))"

definition unreg_int_func_call :: "u32 \<Rightarrow> sys \<Rightarrow> u32 \<Rightarrow> message \<Rightarrow> u32 \<Rightarrow> (sys \<times> u32 option) res" where
  "unreg_int_func_call vend s p m irq = sys_call vend s p ((sys_msg m UNREG_INT_FUNC)\<lparr>m_major := irq\<rparr>)"

definition reg_int_msg_call :: "u32 \<Rightarrow> sys \<Rightarrow> u32 \<Rightarrow> message \<Rightarrow> u32 \<Rightarrow> (sys \<times> u32 option) res" where
  "reg_int_msg_call vend s p m irq = sys_call vend s p ((sys_msg m REG_INT_MSG)\<lparr>m_major := irq\<rparr>)"

definition unreg_int_msg_call :: "u32 \<Rightarrow> sys \<Rightarrow> u32 \<Rightarrow> message \<Rightarrow> u32 \<Rightarrow> (sys \<times> u32 option) res" where
  "unreg_int_msg_call vend s p m irq = sys_call vend s p ((sys_msg m UNREG_INT_MSG)\<lparr>m_major := irq\<rparr>)"

definition reg_exc_msg_call :: "u32 \<Rightarrow> sys \<Rightarrow> u32 \<Rightarrow> message \<Rightarrow> u32 \<Rightarrow> (sys \<times> u32 option) res" where
  "reg_exc_msg_call vend s p m exc = sys_call vend s p ((sys_msg m REG_EXC_MSG)\<lparr>m_major := exc\<rparr>)"

definition unreg_exc_msg_call :: "u32 \<Rightarrow> sys \<Rightarrow> u32 \<Rightarrow> message \<Rightarrow> u32 \<Rightarrow> (sys \<times> u32 option) res" where
  "unreg_exc_msg_call vend s p m exc = sys_call vend s p ((sys_msg m UNREG_EXC_MSG)\<lparr>m_major := exc\<rparr>)"

definition peek_msg_call :: "u32 \<Rightarrow> sys \<Rightarrow> u32 \<Rightarrow> message \<Rightarrow> (sys \<times> u32 option) res" where
  "peek_msg_call vend s p m = sys_call vend s p (sys_msg m PEEK_MSG)"

definition query_env_call :: "u32 \<Rightarrow> sys \<Rightarrow> u32 \<Rightarrow> message \<Rightarrow> u32 \<Rightarrow> u32 \<Rightarrow> u32 \<Rightarrow> (sys \<times> u32 option) res" where
  "query_env_call vend s p m key buf buf_size = sys_call vend s p ((sys_msg m QUERY_ENV)\<lparr>m_major := key, m_d1 := buf, m_d2 := buf_size\<rparr>)"

text \<open>This one does not wait for an answer.\<close>

definition exit_proc_call :: "u32 \<Rightarrow> sys \<Rightarrow> u32 \<Rightarrow> message \<Rightarrow> u32 \<Rightarrow> (sys \<times> u32 option) res" where
  "exit_proc_call vend s p m q = 
     and_then (systask vend s ((sys_msg m EXIT_PROC)\<lparr>m_major := q, m_sender := p\<rparr>)) (\<lambda>(s, _). Inr (s, Some 0))"

definition alloc_proc_call :: "u32 \<Rightarrow> sys \<Rightarrow> u32 \<Rightarrow> message \<Rightarrow> (sys \<times> u32 option) res" where
  "alloc_proc_call vend s p m = sys_call vend s p (sys_msg m ALLOC_PROC)"

definition get_proc_call :: "u32 \<Rightarrow> sys \<Rightarrow> u32 \<Rightarrow> message \<Rightarrow> u32 \<Rightarrow> (sys \<times> u32 option) res" where
  "get_proc_call vend s p m q = sys_call vend s p ((sys_msg m GET_PROC)\<lparr>m_major := q\<rparr>)"

definition proc_vir2phy_call :: "u32 \<Rightarrow> sys \<Rightarrow> u32 \<Rightarrow> message \<Rightarrow> u32 \<Rightarrow> u32 \<Rightarrow> (sys \<times> u32 option) res" where
  "proc_vir2phy_call vend s p m q va = sys_call vend s p ((sys_msg m PROC_VIR2PHY)\<lparr>m_major := q, m_d1 := va\<rparr>)"

definition get_proc_list_head_call :: "u32 \<Rightarrow> sys \<Rightarrow> u32 \<Rightarrow> message \<Rightarrow> (sys \<times> u32 option) res" where
  "get_proc_list_head_call vend s p m = sys_call vend s p (sys_msg m GET_PROC_LIST_HEAD)"

definition switch_to_ring1_call :: "u32 \<Rightarrow> sys \<Rightarrow> u32 \<Rightarrow> message \<Rightarrow> (sys \<times> u32 option) res" where
  "switch_to_ring1_call vend s p m = sys_call vend s p (sys_msg m SWITCHPRIVRING1)"

definition switch_to_ring3_call :: "u32 \<Rightarrow> sys \<Rightarrow> u32 \<Rightarrow> message \<Rightarrow> (sys \<times> u32 option) res" where
  "switch_to_ring3_call vend s p m = sys_call vend s p (sys_msg m SWITCHPRIVRING3)"

text \<open>The number a client sends is the request the server acts on.\<close>

lemma request_of_no: "request_of (request_no r AND 0x7FFFFFFF) = Some r"
  by (cases r) (simp_all add: request_of_def sys_requests_def)

lemma sys_call_request:
  assumes "unat p < proc_max (sk s)" "m_type m = request_no r AND 0x7FFFFFFF"
  shows "sys_call vend s p m = and_then (do_request vend r s (m\<lparr>m_sender := p\<rparr>))
    (\<lambda>(s, rs). Inr (s, case rs of [] \<Rightarrow> None | r # _ \<Rightarrow> Some (m_major r)))"
  using assms request_of_no [of r] by (simp add: sys_call_def systask_def)

end
