(* ===== verification/Systask_Props.thy ===== *)
theory Systask_Props
  imports Systask Process_Props
begin

text \<open>
  Properties of the system task: what the creation and the exit of a process do to the table,
  and that the exit of the first process of the list loses all others.
\<close>

lemma pred_proc_chain:
  assumes "chain nx (Some p) (xs @ t # ys)" "distinct (xs @ t # ys)" "xs \<noteq> []"
  shows "pred_proc nx t p = Some (Some (last xs))"
  using assms
proof (induction xs arbitrary: p)
  case (Cons x xs)
  then have x: "x = p" "chain nx (nx p) (xs @ t # ys)" by auto
  show ?case
  proof (cases xs)
    case Nil
    then have "nx p = Some t" using x by simp
    then show ?thesis using Nil x by (subst pred_proc.simps) simp
  next
    case (Cons q qs)
    then have q: "nx p = Some q" "q \<noteq> t" using x Cons.prems(2) by auto
    have "pred_proc nx t q = Some (Some (last xs))"
      using Cons.IH [of q] x q Cons.prems(2) Cons by simp
    then show ?thesis using q Cons by (subst pred_proc.simps) simp
  qed
qed simp

lemma drop_subscriptions_simps [simp]:
  "proc_table (drop_subscriptions p k) = proc_table k" "proc_list (drop_subscriptions p k) = proc_list k"
  "proc_max (drop_subscriptions p k) = proc_max k" "proc_bitmap (drop_subscriptions p k) = proc_bitmap k"
  "proc_count (drop_subscriptions p k) = proc_count k" "proc_running (drop_subscriptions p k) = proc_running k"
  by (simp_all add: drop_subscriptions_def)

lemma unreg_simps [simp]:
  "proc_list (unreg_proc_slot i k) = proc_list k" "proc_max (unreg_proc_slot i k) = proc_max k"
  "proc_bitmap (unreg_proc_slot i k) = proc_bitmap k" "proc_count (unreg_proc_slot i k) = proc_count k"
  "proc_table (unreg_proc_slot i k) = (proc_table k)(i := (proc_table k i)\<lparr>proc_name := replicate 16 0\<rparr>)"
  by (simp_all add: unreg_proc_slot_def)

text \<open>The state in which the list is unlinked, and what becomes of it.\<close>

definition exiting :: "sys \<Rightarrow> u32 \<Rightarrow> kernel" where
  "exiting s p =
     (let k = drop_subscriptions p (unreg_proc_slot (unat p) (sk s));
          k = k\<lparr>proc_bitmap := clear_bit (proc_bitmap k) (unat p)\<rparr>
      in k\<lparr>proc_count := proc_count k - 1\<rparr>)"

definition stack_freed :: "u32 \<Rightarrow> sys \<Rightarrow> nat \<Rightarrow> core_mem res" where
  "stack_freed vend s i =
     (let stk = pstack (proc_table (sk s) i)
      in if stk \<noteq> 0 \<and> stk < core_space_free_end (senv s) then kfree_pages vend (smem s) stk
         else Inr (smem s))"

lemma exit_proc_eq:
  assumes "unat p < proc_max (sk s)"
  shows "exit_proc vend s p =
    and_then (stack_freed vend s (unat p)) (\<lambda>mem. and_then (unlink_proc (exiting s p) (unat p)) (\<lambda>k.
      Inr (s\<lparr>sk := upd_proc (unat p) (\<lambda>_. zero_process) k, smem := mem\<rparr>)))"
  using assms by (simp add: exit_proc_def exiting_def stack_freed_def Let_def)

lemma exiting_nexts: "nexts (exiting s p) = nexts (sk s)"
  by (simp add: exiting_def nexts_def fun_eq_iff Let_def)

lemma exiting_simps [simp]:
  "proc_list (exiting s p) = proc_list (sk s)" "proc_max (exiting s p) = proc_max (sk s)"
  "proc_count (exiting s p) = proc_count (sk s) - 1"
  "proc_bitmap (exiting s p) = clear_bit (proc_bitmap (sk s)) (unat p)"
  by (simp_all add: exiting_def Let_def)

definition gone :: "sys \<Rightarrow> u32 \<Rightarrow> sys \<Rightarrow> bool" where
  "gone s p s' \<longleftrightarrow>
     proc_table (sk s') (unat p) = zero_process \<and>
     (\<forall>j. bit_at (proc_bitmap (sk s')) j \<longleftrightarrow> j \<noteq> unat p \<and> bit_at (proc_bitmap (sk s)) j) \<and>
     proc_count (sk s') = proc_count (sk s) - 1 \<and>
     (\<forall>i < 16. interrupt_suscribed (sk s') i =
        (if interrupt_suscribed (sk s) i = p then 0 else interrupt_suscribed (sk s) i)) \<and>
     exception_suscribed (sk s') = exception_suscribed (sk s) \<and>
     (\<forall>j. j \<noteq> unat p \<longrightarrow> proc_table (sk s') j = (proc_table (sk s) j)\<lparr>next_proc := nexts (sk s') j\<rparr>)"

lemma exit_proc_ok:
  assumes "procs (sk s) (xs @ unat p # ys)" "xs \<noteq> []" "stack_freed vend s (unat p) = Inr mem"
  shows "\<exists>s'. exit_proc vend s p = Inr s' \<and> procs (sk s') (xs @ ys) \<and> smem s' = mem \<and> gone s p s'"
proof -
  let ?i = "unat p" and ?k = "exiting s p"
  have c: "chain (nexts (sk s)) (proc_list (sk s)) (xs @ ?i # ys)" "distinct (xs @ ?i # ys)"
    and m: "\<forall>q \<in> set (xs @ ?i # ys). q < proc_max (sk s)"
    using assms(1) by (simp_all add: procs_def)
  obtain x xs' where x: "xs = x # xs'" using assms(2) by (cases xs) auto
  then have h: "proc_list (sk s) = Some x" "x \<noteq> ?i" using c by auto
  have "pred_proc (nexts ?k) ?i x = Some (Some (last xs))"
    unfolding exiting_nexts by (rule pred_proc_chain) (use c assms(2) h in auto)
  then have u: "unlink_proc ?k ?i = Inr (upd_proc (last xs) (\<lambda>q. q\<lparr>next_proc := nexts ?k ?i\<rparr>) ?k)"
    using h by (simp add: unlink_proc_def)
  define k' where "k' = upd_proc ?i (\<lambda>_. zero_process)
      (upd_proc (last xs) (\<lambda>q. q\<lparr>next_proc := nexts ?k ?i\<rparr>) ?k)"
  define s' where "s' = s\<lparr>sk := k', smem := mem\<rparr>"
  have e: "exit_proc vend s p = Inr s'"
    using exit_proc_eq [of p s vend] m assms(3) u by (simp add: s'_def k'_def)
  have nx: "nexts k' = (nexts (sk s))(last xs := nexts (sk s) ?i, ?i := None)"
    using fun_cong [OF exiting_nexts [of s p], unfolded nexts_def]
    by (auto simp: k'_def nexts_def fun_eq_iff zero_process_def)
  have "procs k' (xs @ ys)"
    unfolding procs_def nx
    using chain_cut [OF c assms(2)] c(2) m by (auto simp: k'_def)
  moreover have "gone s p s'"
  proof -
    have "last xs \<in> set xs" "?i \<notin> set xs" using c(2) assms(2) by auto
    then have li: "last xs \<noteq> ?i" by metis
    have "\<forall>j. j \<noteq> ?i \<longrightarrow> proc_table k' j = (proc_table (sk s) j)\<lparr>next_proc := nexts k' j\<rparr>"
      unfolding nx using li
      by (auto simp: k'_def exiting_def exiting_nexts nexts_def Let_def)
    then show ?thesis
      by (auto simp: gone_def s'_def k'_def bit_at_clear_bit)
        (simp_all add: exiting_def drop_subscriptions_def unreg_proc_slot_def upd_proc_def Let_def)
  qed
  ultimately show ?thesis using e by (auto simp: s'_def)
qed

text \<open>C11. EXIT_PROC of a process that is not the first of the list: it is taken out of the list,
  the others keep their order and contents; its slot is cleared and its pid free again, its stack
  page returned when it came from the kernel, its interrupt subscriptions removed (those to
  exceptions stay).\<close>

theorem exit_proc_correct:
  assumes "procs (sk s) (xs @ unat p # ys)" "xs \<noteq> []" "stack_freed vend s (unat p) = Inr mem"
  shows "\<exists>s'. exit_proc vend s p = Inr s' \<and> procs (sk s') (xs @ ys) \<and> smem s' = mem \<and> gone s p s'"
  by (rule exit_proc_ok [OF assms])

text \<open>EXIT_PROC of the first process of the list assigns the head of the list to itself and then
  clears its slot, link included: the list that remains is that cleared slot alone, and every other
  process is lost to the scheduler.\<close>

theorem exit_head_loses_list:
  assumes "procs (sk s) (unat p # ys)" "stack_freed vend s (unat p) = Inr mem"
  shows "\<exists>s'. exit_proc vend s p = Inr s' \<and> procs (sk s') [unat p] \<and>
    proc_table (sk s') (unat p) = zero_process"
proof -
  let ?i = "unat p" and ?k = "exiting s p"
  have c: "proc_list (sk s) = Some ?i" and m: "?i < proc_max (sk s)"
    using assms(1) by (simp_all add: procs_def)
  have u: "unlink_proc ?k ?i = Inr (?k\<lparr>proc_list := Some ?i\<rparr>)" using c by (simp add: unlink_proc_def)
  define s' where "s' = s\<lparr>sk := upd_proc ?i (\<lambda>_. zero_process) (?k\<lparr>proc_list := Some ?i\<rparr>), smem := mem\<rparr>"
  have "exit_proc vend s p = Inr s'"
    using exit_proc_eq [OF m, of vend] assms(2) u by (simp add: s'_def)
  moreover have "procs (sk s') [?i]" "proc_table (sk s') ?i = zero_process"
    using m by (simp_all add: procs_def s'_def nexts_def zero_process_def)
  ultimately show ?thesis by blast
qed

text \<open>ALLOC_PROC, when a pid below 32 is free and the bitmap marks the processes of the list:
  the lowest free pid is taken, and a cleared slot with this pid is appended to the list, stopped,
  with \<open>init\<close> as its parent; the sender gets its address.\<close>

theorem alloc_proc_correct:
  assumes "procs (sk s) ps" "\<forall>q \<in> set ps. bit_at (proc_bitmap (sk s)) q"
    and "proc_bitmap (sk s) 0 \<noteq> 0xFFFFFFFF" "0 < proc_bitmap_size (sk s)" "32 \<le> proc_max (sk s)"
  shows "\<exists>s' i. alloc_proc s = Inr (s', proc_addr s i) \<and> procs (sk s') (ps @ [i]) \<and>
    \<not> bit_at (proc_bitmap (sk s)) i \<and> (\<forall>j < i. bit_at (proc_bitmap (sk s)) j) \<and>
    (\<forall>j. bit_at (proc_bitmap (sk s')) j \<longleftrightarrow> j = i \<or> bit_at (proc_bitmap (sk s)) j) \<and>
    pid (proc_table (sk s') i) = of_nat i \<and> parent_pid (proc_table (sk s') i) = 1 \<and>
    \<not> runnable (sk s') i \<and>
    (\<forall>j. j \<noteq> i \<longrightarrow> proc_table (sk s') j = (proc_table (sk s) j)\<lparr>next_proc := nexts (sk s') j\<rparr>)"
proof -
  let ?k = "sk s"
  let ?p = "find_first_unset_bit (proc_bitmap ?k) (proc_bitmap_size ?k)"
  let ?i = "unat ?p"
  note f = find_first_unset_bit_first_word [of "proc_bitmap ?k", OF assms(3,4)]
  have i: "?i < proc_max ?k" "?p \<noteq> 0xFFFFFFFF" using f(3) assms(5) by auto
  have ni: "?i \<notin> set ps" using f(1) assms(2) by blast
  define k1 where "k1 = upd_proc ?i (\<lambda>_. zero_process\<lparr>status := PROC_STATUS_STOP\<rparr>)
      (?k\<lparr>proc_bitmap := set_bit (proc_bitmap ?k) ?i\<rparr>)"
  have nx1: "nexts k1 = (nexts ?k)(?i := None)" by (auto simp: k1_def nexts_def fun_eq_iff zero_process_def)
  have "procs k1 ps"
    using assms(1) ni by (simp add: procs_def nx1 chain_upd) (simp add: k1_def)
  moreover have "?i < proc_max k1" using i by (simp add: k1_def)
  ultimately obtain k2 where k2: "append_proc k1 ?i = Some k2" "procs k2 (ps @ [?i])"
    "\<And>j. proc_table k2 j = (proc_table k1 j)\<lparr>next_proc := nexts k2 j\<rparr>" "proc_bitmap k2 = proc_bitmap k1"
    using append_proc_ok [OF _ ni] by metis
  define k3 where "k3 = (upd_proc ?i (\<lambda>q. q\<lparr>parent_pid := 1, pid := ?p,
      stack := (stack q)\<lparr>sf_eflags := 0x1202\<rparr>\<rparr>) k2)\<lparr>proc_count := proc_count k2 + 1\<rparr>"
  have nx3: "nexts k3 = nexts k2" by (auto simp: k3_def nexts_def fun_eq_iff)
  define s' where "s' = s\<lparr>sk := k3\<rparr>"
  have sk: "sk s' = k3" by (simp add: s'_def)
  show ?thesis
  proof (intro exI [of _ s'] exI [of _ ?i] conjI)
    show "alloc_proc s = Inr (s', proc_addr s ?i)"
      using i k2(1) by (simp add: alloc_proc_def Let_def k1_def k3_def s'_def)
    show "procs (sk s') (ps @ [?i])"
      using k2(2) unfolding procs_def sk nx3 by (simp add: k3_def)
    show "\<forall>j. bit_at (proc_bitmap (sk s')) j \<longleftrightarrow> j = ?i \<or> bit_at (proc_bitmap ?k) j"
      unfolding sk by (simp add: k3_def k2(4) k1_def bit_at_set_bit)
    show "pid (proc_table (sk s') ?i) = of_nat ?i" "parent_pid (proc_table (sk s') ?i) = 1"
      "\<not> runnable (sk s') ?i"
      unfolding sk by (simp_all add: k3_def k2(3) k1_def runnable_def unrunable_def)
    show "\<forall>j. j \<noteq> ?i \<longrightarrow> proc_table (sk s') j = (proc_table ?k j)\<lparr>next_proc := nexts (sk s') j\<rparr>"
      unfolding sk nx3 by (simp add: k3_def k2(3)) (simp add: k1_def)
  qed (use f in simp_all)
qed

section \<open>Examples\<close>

definition demo_sys :: sys where
  "demo_sys = \<lparr>sk = demo_ring\<lparr>proc_max := 40\<rparr>, senv = demo_env, smem = demo_core, boot_info = []\<rparr>"

lemma demo_sys_simps:
  "procs (sk demo_sys) [0, 1, 2]" "stack_freed vend demo_sys i = Inr demo_core"
  "proc_bitmap (sk demo_sys) = (\<lambda>_. 7)" "proc_bitmap_size (sk demo_sys) = 1" "proc_max (sk demo_sys) = 40"
  using demo_ring_procs
  by (simp_all add: demo_sys_def procs_def nexts_def stack_freed_def demo_ring_def demo_def demo_proc_def)

theorem exit_proc_correct_witness:
  "\<exists>s'. exit_proc 0 demo_sys 1 = Inr s' \<and> procs (sk s') [0, 2]"
  using exit_proc_correct [of demo_sys "[0]" 1 "[2]" 0 demo_core] demo_sys_simps by auto

theorem exit_head_loses_list_witness:
  "\<exists>s'. exit_proc 0 demo_sys 0 = Inr s' \<and> procs (sk s') [0]"
  using exit_head_loses_list [of demo_sys 0 "[1, 2]" 0 demo_core] demo_sys_simps by auto

theorem alloc_proc_correct_witness:
  "\<exists>s' i. alloc_proc demo_sys = Inr (s', proc_addr demo_sys i) \<and> procs (sk s') ([0, 1, 2] @ [i])"
proof -
  have "\<forall>q \<in> set [0, 1, 2]. bit_at (proc_bitmap (sk demo_sys)) q"
    by (simp add: demo_sys_simps bit_at_def bit_numeral_rec)
  from alloc_proc_correct [OF demo_sys_simps(1) this]
  show ?thesis by (auto simp: demo_sys_simps)
qed

end
