(* ===== verification/Protect.thy ===== *)
theory Protect
  imports Core_Memory
begin

text \<open>
  Segment descriptors and interrupt gates, \<^verbatim>\<open>header/core/protect.h\<close> and \<^verbatim>\<open>core/protect.c\<close>, and the
  part of \<open>core_init_interrupt\<close> that fills the interrupt table. The instructions that load the
  tables into the processor have no effect on the model.
\<close>

section \<open>Descriptors and gates\<close>

record descriptor =
  limit_l :: u16
  base_l :: u16
  base_m :: u8
  attr1 :: u8
  limit_h_attr2 :: u8
  base_h :: u8

record gate =
  offset_l :: u16
  selector :: u16
  gzero :: u8
  gtype :: u32
  gs_bit :: u32
  dpl :: u32
  present :: u32
  offset_h :: u16

definition make_descriptor :: "u32 \<Rightarrow> u32 \<Rightarrow> u16 \<Rightarrow> descriptor" where
  "make_descriptor base limit attr =
     \<lparr>limit_l = ucast (limit AND 0xFFFF), base_l = ucast (base AND 0xFFFF),
      base_m = ucast (drop_bit 16 base AND 0xFF), attr1 = ucast (attr AND 0xFF),
      limit_h_attr2 = ucast ((drop_bit 16 limit AND 0x0F) OR (ucast (drop_bit 8 attr) AND 0xF0)),
      base_h = ucast (drop_bit 24 base AND 0xFF)\<rparr>"

text \<open>The bit fields keep the low 4, 1, 2 and 1 bits of what is assigned to them.\<close>

definition make_gate :: "u16 \<Rightarrow> u32 \<Rightarrow> u32 \<Rightarrow> u32 \<Rightarrow> gate" where
  "make_gate sel off d t =
     \<lparr>offset_l = ucast (off AND 0xFFFF), selector = sel, gzero = 0, gtype = t AND 0xF,
      gs_bit = 0, dpl = d AND 3, present = 1, offset_h = ucast (drop_bit 16 off AND 0xFFFF)\<rparr>"

text \<open>What the processor reads.\<close>

definition desc_base :: "descriptor \<Rightarrow> u32" where
  "desc_base d = ucast (base_l d) OR push_bit 16 (ucast (base_m d)) OR push_bit 24 (ucast (base_h d))"

definition desc_limit :: "descriptor \<Rightarrow> u32" where
  "desc_limit d = ucast (limit_l d) OR push_bit 16 (ucast (limit_h_attr2 d AND 0x0F))"

definition desc_attr :: "descriptor \<Rightarrow> u16" where
  "desc_attr d = ucast (attr1 d) OR push_bit 8 (ucast (limit_h_attr2 d AND 0xF0))"

definition gate_offset :: "gate \<Rightarrow> u32" where
  "gate_offset g = ucast (offset_l g) OR push_bit 16 (ucast (offset_h g))"

section \<open>The descriptor table\<close>

abbreviation (input) DA_32 :: u32 where "DA_32 \<equiv> 0x4000"
abbreviation (input) DA_4K :: u32 where "DA_4K \<equiv> 0x8000"
abbreviation (input) DA_DPL1 :: u32 where "DA_DPL1 \<equiv> 0x20"
abbreviation (input) DA_DPL3 :: u32 where "DA_DPL3 \<equiv> 0x60"
abbreviation (input) DA_DRW :: u32 where "DA_DRW \<equiv> 0x92"
abbreviation (input) DA_C :: u32 where "DA_C \<equiv> 0x98"
abbreviation (input) DA_LDT :: u32 where "DA_LDT \<equiv> 0x82"
abbreviation (input) DA_386TSS :: u32 where "DA_386TSS \<equiv> 0x89"

definition KERN_GDT :: "(u32 \<times> u32 \<times> u32) list" where
  "KERN_GDT =
    [(0, 0, 0),
     (0, 0xFFFFF, DA_32 OR DA_4K OR DA_C),
     (0, 0xFFFFF, DA_32 OR DA_4K OR DA_DRW),
     (0, 0, DA_386TSS),
     (0, 0xFFFFF, DA_32 OR DA_4K OR DA_C OR DA_DPL1),
     (0, 0xFFFFF, DA_32 OR DA_4K OR DA_DRW OR DA_DPL1),
     (0, 0x7FFFF, DA_32 OR DA_4K OR DA_C OR DA_DPL3),
     (0, 0x7FFFF, DA_32 OR DA_4K OR DA_DRW OR DA_DPL3),
     (0, 0, DA_LDT)]"

record gdt_state =
  gdt :: "descriptor list"
  has_tss :: bool
  selector_tss :: u16
  tss_ss0 :: u32

abbreviation (input) SIZEOF_TSS :: u32 where "SIZEOF_TSS \<equiv> 104"

text \<open>The loop of \<open>core_init_protect\<close>; it ends at the entry for an LDT.\<close>

fun init_gdt :: "u32 \<Rightarrow> nat \<Rightarrow> (u32 \<times> u32 \<times> u32) list \<Rightarrow> gdt_state \<Rightarrow> gdt_state" where
  "init_gdt tss i [] s = s"
| "init_gdt tss i ((b, l, a) # es) s =
     (if a = DA_386TSS then
        init_gdt tss (i + 1) es
          (s\<lparr>has_tss := True, selector_tss := of_nat (8 * i), tss_ss0 := 16,
             gdt := gdt s @ [make_descriptor tss (SIZEOF_TSS - 1) (ucast DA_386TSS)]\<rparr>)
      else if a = DA_LDT then s
      else init_gdt tss (i + 1) es (s\<lparr>gdt := gdt s @ [make_descriptor b l (ucast a)]\<rparr>))"

definition core_init_protect :: "u32 \<Rightarrow> gdt_state" where
  "core_init_protect tss =
     init_gdt tss 0 KERN_GDT \<lparr>gdt = [], has_tss = False, selector_tss = 0, tss_ss0 = 0\<rparr>"

section \<open>The interrupt table\<close>

abbreviation (input) SYSCALL_INT :: nat where "SYSCALL_INT \<equiv> 0xE9"
abbreviation (input) GATE_INT32 :: u32 where "GATE_INT32 \<equiv> 0xE"

definition init_idt :: "(nat \<Rightarrow> u32) \<Rightarrow> nat \<Rightarrow> gate list" where
  "init_idt vector_table idt_size =
     map (\<lambda>i. if i = SYSCALL_INT then make_gate 8 (vector_table i) 3 GATE_INT32
              else make_gate 8 (vector_table i) 0 GATE_INT32) [0..<idt_size]"

section \<open>Properties\<close>

lemma bits_u8: "8 \<le> n \<Longrightarrow> \<not> bit (w :: u8) n"
  using bit_imp_le_length [of w n] by auto

lemma bits_u16: "16 \<le> n \<Longrightarrow> \<not> bit (w :: u16) n"
  using bit_imp_le_length [of w n] by auto

lemma masks:
  "(0xFF :: u32) = mask 8" "(0xFFFF :: u32) = mask 16" "(0x0F :: u32) = mask 4" "(0xFF :: u16) = mask 8"
  "(0xF0 :: u32) = push_bit 4 (mask 4)" "(0x0F :: u8) = mask 4" "(0xF0 :: u8) = push_bit 4 (mask 4)"
  by (simp_all add: mask_eq_exp_minus_1)

lemma desc_base_make: "desc_base (make_descriptor b l a) = b"
proof (rule word_eqI32)
  fix n :: nat assume n: "n < 32"
  show "bit (desc_base (make_descriptor b l a)) n = bit b n"
    using n unfolding desc_base_def make_descriptor_def descriptor.simps masks
    by (cases "n < 24") (auto simp: bit_or_iff bit_and_iff bit_ucast_iff bit_push_bit_iff bit_drop_bit_eq
        bit_mask_iff not_le not_less dest: bits_u8 bits_u16)
qed

lemma desc_limit_make:
  assumes "l < 2 ^ 20"
  shows "desc_limit (make_descriptor b l a) = l"
proof (rule word_eqI32)
  fix n :: nat assume n: "n < 32"
  have "l = take_bit 20 l"
    using assms by (simp add: word_unat_eq_iff word_less_nat_alt unsigned_take_bit_eq take_bit_nat_def)
  then have hi: "bit l n \<Longrightarrow> n < 20" by (metis bit_take_bit_iff)
  show "bit (desc_limit (make_descriptor b l a)) n = bit l n"
    using n hi unfolding desc_limit_def make_descriptor_def descriptor.simps masks
    by (auto simp: bit_or_iff bit_and_iff bit_ucast_iff bit_push_bit_iff bit_drop_bit_eq bit_mask_iff
        not_le not_less)
qed

lemma desc_attr_make:
  assumes "a AND 0x0F00 = 0"
  shows "desc_attr (make_descriptor b l a) = a"
proof (rule bit_word_eqI)
  fix n :: nat assume "n < LENGTH(16)"
  then have n: "n < 16" by simp
  have "(0x0F00 :: u16) = push_bit 8 (mask 4)" by (simp add: mask_eq_exp_minus_1)
  then have "bit (a AND 0x0F00) n \<longleftrightarrow> bit a n \<and> 8 \<le> n \<and> n - 8 < 4"
    using n by (simp only: bit_and_iff bit_push_bit_iff bit_mask_iff) auto
  then have "bit a n \<Longrightarrow> \<not> (8 \<le> n \<and> n - 8 < 4)" using assms by simp
  then show "bit (desc_attr (make_descriptor b l a)) n = bit a n"
    using n unfolding desc_attr_def make_descriptor_def descriptor.simps masks
    by (auto simp: bit_or_iff bit_and_iff bit_ucast_iff bit_push_bit_iff bit_drop_bit_eq bit_mask_iff
        not_le not_less)
qed

lemma gate_offset_make: "gate_offset (make_gate sel off d t) = off"
proof (rule word_eqI32)
  fix n :: nat assume n: "n < 32"
  show "bit (gate_offset (make_gate sel off d t)) n = bit off n"
    using n unfolding gate_offset_def make_gate_def gate.simps masks
    by (auto simp: bit_or_iff bit_and_iff bit_ucast_iff bit_push_bit_iff bit_drop_bit_eq bit_mask_iff
        not_le not_less dest: bits_u16)
qed

text \<open>C36. The bytes of a segment descriptor and of a gate encode what they were made from: base,
  20-bit limit and attributes of the segment (whose bits 8 to 11, the place of the high limit bits,
  must be clear), and offset, selector, privilege level and type of the gate.\<close>

theorem descriptor_roundtrip:
  assumes "l < 2 ^ 20" "a AND 0x0F00 = 0" "d \<le> 3" "t \<le> 15"
  shows "desc_base (make_descriptor b l a) = b \<and> desc_limit (make_descriptor b l a) = l \<and>
    desc_attr (make_descriptor b l a) = a \<and> gate_offset (make_gate sel off d t) = off \<and>
    selector (make_gate sel off d t) = sel \<and> dpl (make_gate sel off d t) = d \<and>
    gtype (make_gate sel off d t) = t \<and> present (make_gate sel off d t) = 1"
proof -
  have "d AND 3 = take_bit 2 d" "t AND 0xF = take_bit 4 t"
    by (simp_all add: take_bit_eq_mask mask_eq_exp_minus_1)
  moreover have "take_bit 2 d = d" "take_bit 4 t = t"
    using assms(3,4)
    by (simp_all add: word_unat_eq_iff word_le_nat_alt unsigned_take_bit_eq take_bit_nat_eq_self)
  ultimately have "selector (make_gate sel off d t) = sel" "dpl (make_gate sel off d t) = d"
    "gtype (make_gate sel off d t) = t" "present (make_gate sel off d t) = 1"
    by (simp_all add: make_gate_def)
  then show ?thesis
    using desc_base_make desc_limit_make [OF assms(1)] desc_attr_make [OF assms(2)] gate_offset_make
    by blast
qed

theorem descriptor_roundtrip_witness:
  "desc_base (make_descriptor 0x12345678 0xFFFFF 0xC0B2) = 0x12345678"
  using descriptor_roundtrip [of "0xFFFFF" "0xC0B2" 3 14 "0x12345678"] by simp

text \<open>The segments the kernel runs with: the selectors of \<^verbatim>\<open>protect.h\<close> for rings 0, 1 and 3 name
  present code and data segments based at 0 whose privilege level is that ring and is also the
  requested level of the selector; the task segment describes the kernel's \<open>tss\<close> and is the one
  loaded.\<close>

theorem kernel_segments:
  "let s = core_init_protect tss; d = (\<lambda>sel. gdt s ! (sel div 8)) in
   list_all (\<lambda>(sel, ring). desc_base (d sel) = 0 \<and> desc_attr (d sel) AND 0x60 = of_nat (32 * ring) \<and>
       desc_attr (d sel) AND 0x90 = 0x90 \<and> sel mod 4 = ring)
     [(0x08, 0), (0x10, 0), (0x21, 1), (0x29, 1), (0x33, 3), (0x3B, 3)] \<and>
   map (\<lambda>sel. desc_attr (d sel) AND 0x08) [0x08, 0x10, 0x21, 0x29, 0x33, 0x3B] = [8, 0, 8, 0, 8, 0] \<and>
   has_tss s \<and> desc_base (d (unat (selector_tss s))) = tss \<and>
   desc_limit (d (unat (selector_tss s))) = SIZEOF_TSS - 1 \<and> length (gdt s) = 8"
proof -
  have g: "core_init_protect tss = \<lparr>gdt = [make_descriptor 0 0 0, make_descriptor 0 0xFFFFF 0xC098,
      make_descriptor 0 0xFFFFF 0xC092, make_descriptor tss 103 0x89, make_descriptor 0 0xFFFFF 0xC0B8,
      make_descriptor 0 0xFFFFF 0xC0B2, make_descriptor 0 0x7FFFF 0xC0F8, make_descriptor 0 0x7FFFF 0xC0F2],
      has_tss = True, selector_tss = 0x18, tss_ss0 = 16\<rparr>"
    by (simp add: core_init_protect_def KERN_GDT_def)
  show ?thesis
    unfolding g by (simp add: desc_base_make desc_limit_make desc_attr_make)
qed

end
