(* ===== verification/Interrupt.thy ===== *)
theory Interrupt
  imports Process_Table
begin

text \<open>
  The interrupt handler of \<^verbatim>\<open>core/interrupt.c\<close>. The kernel is built with \<open>APIC\<close>, so the timer is
  irq 2. The interrupted process is \<open>cur\<close>; its registers, trap number included, are the stack
  frame at the start of its slot. What the interrupt controller is told is recorded in order;
  functions that were registered for an interrupt, and what happens while the scheduler halts,
  are parameters. The switch of page directories and the messages on the screen are left out.
\<close>

abbreviation (input) IRQ0 :: nat where "IRQ0 \<equiv> 32"
abbreviation (input) HW_IRQ_TIMER :: nat where "HW_IRQ_TIMER \<equiv> 2"
abbreviation (input) IRQ_TIMER :: nat where "IRQ_TIMER \<equiv> IRQ0 + HW_IRQ_TIMER"
abbreviation (input) HW_IRQ_COUNT :: nat where "HW_IRQ_COUNT \<equiv> 16"
abbreviation (input) EXCEPTION_COUNT :: nat where "EXCEPTION_COUNT \<equiv> 32"
abbreviation (input) EXCEPTION_PF :: nat where "EXCEPTION_PF \<equiv> 14"

datatype pic_event = DisableInt nat | CallFunc u32 u32 | EnableInt nat | EndInt nat

definition trap_no :: "kernel \<Rightarrow> nat \<Rightarrow> nat" where
  "trap_no k cur = unat (sf_trap_no (stack (proc_table k cur)))"

definition tick :: "kernel \<Rightarrow> kernel" where
  "tick k = k\<lparr>beats := beats k + 1\<rparr>"

text \<open>
  An exception somebody subscribed to. \<open>&=\<close> keeps only the error bit of the status, where the
  other handlers set one.
\<close>

definition raise_exception :: "(nat \<Rightarrow> u32) \<Rightarrow> u32 \<Rightarrow> kernel \<Rightarrow> nat \<Rightarrow> kernel" where
  "raise_exception frame_addr cr2 k cur =
     (let t = trap_no k cur;
          k = upd_status cur (\<lambda>st. st AND PROC_STATUS_ERROR) k;
          k = (if t = EXCEPTION_PF
               then upd_proc cur (\<lambda>p. p\<lparr>stack := (stack p)\<lparr>sf_trap_no := cr2\<rparr>\<rparr>) k else k)
      in send_exception_msg k t (frame_addr cur) (unat (exception_suscribed k t)))"

text \<open>A hardware interrupt: the registered function, the message to the subscriber, the end signal.\<close>

definition hw_interrupt :: "(u32 \<Rightarrow> u32 \<Rightarrow> kernel \<Rightarrow> kernel) \<Rightarrow> kernel \<Rightarrow> nat \<Rightarrow> kernel \<times> pic_event list" where
  "hw_interrupt run k irq =
     (let m = interrupt_methods k irq;
          (k, ev) = (if im_avail m = 1
                     then (run (im_func m) (im_data m) k,
                           [DisableInt irq, CallFunc (im_func m) (im_data m), EnableInt irq])
                     else (k, []));
          k = (if interrupt_suscribed k irq \<noteq> 0
               then send_interrupt_msg k irq (unat (interrupt_suscribed k irq)) else k)
      in (k, ev @ [EndInt irq]))"

text \<open>The system calls of \<open>syscall_table\<close> by number; one that blocks its caller calls the scheduler.\<close>

definition syscall :: "(kernel \<Rightarrow> kernel) \<Rightarrow> kernel \<Rightarrow> nat \<Rightarrow> kernel res option" where
  "syscall idle k cur =
     (let f = stack (proc_table k cur);
          ret = (\<lambda>r. case r of Inl e \<Rightarrow> Some (Inl e)
                     | Inr (k, blocked) \<Rightarrow> if blocked then scheduler idle k else Some (Inr k))
      in if sf_eax f = 0 then Some (Inr k)
         else if sf_eax f = 1 then ret (send_msg k cur (sf_ecx f))
         else if sf_eax f = 2 then ret (recv_msg k cur (sf_ecx f) (sf_ebx f))
         else Some (Inl OutOfBounds))"

definition interrupt_handler :: "(kernel \<Rightarrow> kernel) \<Rightarrow> (u32 \<Rightarrow> u32 \<Rightarrow> kernel \<Rightarrow> kernel) \<Rightarrow> (nat \<Rightarrow> u32) \<Rightarrow>
    u32 \<Rightarrow> nat \<Rightarrow> kernel \<Rightarrow> nat \<Rightarrow> (kernel res option) \<times> pic_event list" where
  "interrupt_handler idle run frame_addr cr2 interrupt_count k cur =
     (let t = trap_no k cur in
      if t = IRQ_TIMER then
        (if interrupt_count = 0 then scheduler idle (tick k) else Some (Inr (tick k)), [EndInt HW_IRQ_TIMER])
      else if t < EXCEPTION_COUNT then
        (if exception_suscribed k t \<noteq> 0
         then (scheduler idle (raise_exception frame_addr cr2 k cur), [])
         else (Some (Inl Hang), []))
      else if t \<le> IRQ0 + HW_IRQ_COUNT then
        (if t = IRQ0 + HW_IRQ_COUNT then (Some (Inl OutOfBounds), [])
         else (let (k, ev) = hw_interrupt run k (t - IRQ0) in (Some (Inr k), ev)))
      else if t = 0xE9 then (syscall idle k cur, [])
      else (Some (Inr k), []))"

end
