(* ===== verification/Interrupt_Props.thy ===== *)
theory Interrupt_Props
  imports Interrupt Process_Props
begin

text \<open>
  Properties of the interrupt handler: a hardware interrupt reaches the process that subscribed
  to it, the timer counts and schedules, and a fault does not stop the process that caused it.
\<close>

lemma exception_suscribed_upd [simp]: "exception_suscribed (upd_status i f k) = exception_suscribed k"
  by (simp add: upd_status_def)


text \<open>A page fault that a process subscribed to handles: the status of the process that faulted
  is masked with the error bit instead of having it set, so a process without that bit ends with
  status 0, which the scheduler takes for runnable: the faulting instruction can run again before
  the fault is served.\<close>

theorem exception_leaves_runnable:
  assumes "trap_no k cur = 14" "exception_suscribed k 14 = of_nat p" "p < 2 ^ 32" "p \<noteq> cur"
    and "\<not> has (status (proc_table k cur)) PROC_STATUS_ERROR"
  shows "status (proc_table (raise_exception fa cr2 k cur) cur) = 0 \<and>
    runnable (raise_exception fa cr2 k cur) cur"
proof -
  have "unat (of_nat p :: u32) = p" using assms(3) by (rule unat_of_nat32)
  then have "status (proc_table (raise_exception fa cr2 k cur) cur) =
      status (proc_table k cur) AND PROC_STATUS_ERROR"
    using assms(1,2,4) by (simp add: raise_exception_def send_exception_msg_def Let_def)
  then show ?thesis
    using assms(5) by (simp add: has_def runnable_def unrunable_def)
qed

section \<open>Examples\<close>

definition demo_irq :: kernel where
  "demo_irq = demo_ring\<lparr>proc_table := (\<lambda>i. (proc_table demo_ring i)\<lparr>
       stack := (stack (proc_table demo_ring i))\<lparr>sf_trap_no := if i = 0 then 33 else 14\<rparr>\<rparr>),
     interrupt_suscribed := (\<lambda>i. if i = 1 then 2 else 0), exception_suscribed := (\<lambda>_. 2)\<rparr>"



theorem exception_leaves_runnable_witness:
  "runnable (raise_exception (\<lambda>_. 0) 0x400000 demo_irq 1) 1"
proof -
  have "trap_no demo_irq 1 = 14" "exception_suscribed demo_irq 14 = of_nat 2"
    "\<not> has (status (proc_table demo_irq 1)) PROC_STATUS_ERROR"
    by (simp_all add: demo_irq_def trap_no_def demo_ring_def demo_def)
  then show ?thesis using exception_leaves_runnable [of demo_irq 1 2] by simp
qed

end
