(* ===== verification/Dev.thy ===== *)
theory Dev
  imports Res_Monad Kernel_State
begin

text \<open>
  The device server \<^verbatim>\<open>modules/device/dev.c\<close> and its client functions \<^verbatim>\<open>header/modules/dev.h\<close>.

  The table of devices is the block \<open>impl_list\<close> points to, with room for \<open>room\<close> entries; links
  are indices into it. A list of waiting requests, whose cells are owned by their device alone,
  is a HOL list. When a request is forwarded, the answer of the implementing process is the
  result of the function \<open>impl\<close> on the message sent to it.
\<close>

section \<open>State\<close>

record device_request =
  app_pid :: u32
  impl_pid :: u32
  req_type :: u32

record register_struct =
  rs_DeviceName :: "u8 list"
  rs_TaskName :: "u8 list"
  rs_Read :: u32
  rs_Write :: u32
  rs_Open :: u32
  rs_Close :: u32
  rs_Info :: u32
  rs_Direct :: u32

record device_impl =
  reg :: register_struct
  PID :: u32
  DeviceID :: u32
  InUse :: bool
  wait_list :: "device_request list"
  next_impl :: "nat option"

record dev_state =
  impl_list :: "nat \<Rightarrow> device_impl"
  room :: nat
  impl_free_list :: "nat option"
  impl_use_list :: "nat option"

definition zero_reg :: register_struct where
  "zero_reg = \<lparr>rs_DeviceName = replicate 32 0, rs_TaskName = replicate 16 0, rs_Read = 0, rs_Write = 0,
     rs_Open = 0, rs_Close = 0, rs_Info = 0, rs_Direct = 0\<rparr>"

definition zero_impl :: device_impl where
  "zero_impl = \<lparr>reg = zero_reg, PID = 0, DeviceID = 0, InUse = False, wait_list = [], next_impl = None\<rparr>"

definition upd_impl :: "nat \<Rightarrow> (device_impl \<Rightarrow> device_impl) \<Rightarrow> dev_state \<Rightarrow> dev_state" where
  "upd_impl i f s = s\<lparr>impl_list := (impl_list s)(i := f (impl_list s i))\<rparr>"

section \<open>The table\<close>

text \<open>The loop runs from \<open>max_device_count\<close> down to 0, one entry more than was allocated.\<close>

fun init_impls :: "nat \<Rightarrow> dev_state \<Rightarrow> dev_state res" where
  "init_impls i s =
     (if room s \<le> i then Inl OutOfBounds
      else (let s = upd_impl i (\<lambda>_. zero_impl) s;
                s = (if impl_free_list s \<noteq> None
                     then upd_impl i (\<lambda>d. d\<lparr>next_impl := impl_free_list s\<rparr>) s else s);
                s = s\<lparr>impl_free_list := Some i\<rparr>;
                s = upd_impl i (\<lambda>d. d\<lparr>DeviceID := of_nat i\<rparr>) s
            in if i = 0 then Inr s else init_impls (i - 1) s))"

declare init_impls.simps [simp del]

definition register_device_impl :: "dev_state \<Rightarrow> register_struct \<Rightarrow> u32 \<Rightarrow> (dev_state \<times> u32) res" where
  "register_device_impl s r p =
     (case impl_free_list s of
        None \<Rightarrow> Inl NullDeref
      | Some i \<Rightarrow>
          (let s = s\<lparr>impl_free_list := next_impl (impl_list s i)\<rparr>;
               s = upd_impl i (\<lambda>d. d\<lparr>reg := r\<rparr>) s;
               s = (if impl_use_list s \<noteq> None
                    then upd_impl i (\<lambda>d. d\<lparr>next_impl := impl_use_list s\<rparr>) s else s);
               s = s\<lparr>impl_use_list := Some i\<rparr>;
               s = upd_impl i (\<lambda>d. d\<lparr>next_impl := None, InUse := True, PID := p\<rparr>) s
           in Inr (s, DeviceID (impl_list s i))))"

text \<open>The walk over the list in use: the predecessor of the entry, if the entry is there.\<close>

partial_function (option) find_impl :: "(nat \<Rightarrow> nat option) \<Rightarrow> nat option \<Rightarrow> nat \<Rightarrow> nat \<Rightarrow> nat option option" where
  "find_impl nx p pp i =
     (case p of
        None \<Rightarrow> Some None
      | Some q \<Rightarrow> if q = i then Some (Some pp) else find_impl nx (nx q) q i)"

definition impl_nexts :: "dev_state \<Rightarrow> nat \<Rightarrow> nat option" where
  "impl_nexts s i = next_impl (impl_list s i)"

definition unregister_device_impl :: "dev_state \<Rightarrow> nat \<Rightarrow> (dev_state \<times> u32) res" where
  "unregister_device_impl s i =
     (if room s \<le> i then Inl OutOfBounds
      else case find_impl (impl_nexts s) (impl_use_list s)
                  (case impl_use_list s of None \<Rightarrow> 0 | Some h \<Rightarrow> h) i of
        None \<Rightarrow> Inl Hang
      | Some found \<Rightarrow>
          (let s = (case found of
                      None \<Rightarrow> s
                    | Some pp \<Rightarrow>
                        if impl_use_list s \<noteq> Some i
                        then upd_impl pp (\<lambda>d. d\<lparr>next_impl := impl_nexts s i\<rparr>) s
                        else s\<lparr>impl_use_list := impl_nexts s i\<rparr>);
               s = upd_impl i (\<lambda>_. zero_impl\<lparr>DeviceID := of_nat i, next_impl := impl_free_list s\<rparr>) s;
               s = s\<lparr>impl_free_list := Some i\<rparr>
           in Inr (s, 0)))"

section \<open>Requests\<close>

abbreviation (input) DEV_READ :: u32 where "DEV_READ \<equiv> 1"
abbreviation (input) DEV_WRITE :: u32 where "DEV_WRITE \<equiv> 2"
abbreviation (input) DEV_OPEN :: u32 where "DEV_OPEN \<equiv> 3"
abbreviation (input) DEV_CLOSE :: u32 where "DEV_CLOSE \<equiv> 4"
abbreviation (input) DEV_INFO :: u32 where "DEV_INFO \<equiv> 5"
abbreviation (input) DEV_REG :: u32 where "DEV_REG \<equiv> 10"
abbreviation (input) DEV_UNREG :: u32 where "DEV_UNREG \<equiv> 11"
abbreviation (input) DEV_UPD :: u32 where "DEV_UPD \<equiv> 12"
abbreviation (input) DEV_STATUS_WAIT :: u32 where "DEV_STATUS_WAIT \<equiv> 1"
abbreviation (input) DEV_STATUS_ERROR :: u32 where "DEV_STATUS_ERROR \<equiv> 2"

definition func_of :: "register_struct \<Rightarrow> u32 \<Rightarrow> u32" where
  "func_of r typ =
     (if typ = DEV_READ then rs_Read r else if typ = DEV_WRITE then rs_Write r
      else if typ = DEV_OPEN then rs_Open r else if typ = DEV_CLOSE then rs_Close r
      else if typ = DEV_INFO then rs_Info r else typ)"

text \<open>Messages the server sends, in order.\<close>

definition dev_request :: "(message \<Rightarrow> message) \<Rightarrow> dev_state \<Rightarrow> message \<Rightarrow> (dev_state \<times> message list) res" where
  "dev_request impl s m =
     (let typ = m_type m; src = m_sender m; i = unat (m_major m) in
      if room s \<le> i then Inl OutOfBounds
      else if \<not> InUse (impl_list s i) \<or> PID (impl_list s i) = 0
      then Inr (s, [m\<lparr>m_major := DEV_STATUS_ERROR, m_receiver := src\<rparr>])
      else
        (let d = impl_list s i;
             m = m\<lparr>m_type := func_of (reg d) typ, m_receiver := PID d, m_d4 := src\<rparr>
         in if rs_Direct (reg d) \<noteq> 0
            then (let a = impl m in
                  if m_major a \<noteq> DEV_STATUS_WAIT
                  then Inr (s, [m, a\<lparr>m_receiver := src\<rparr>])
                  else Inr (upd_impl i (\<lambda>d. d\<lparr>wait_list :=
                               \<lparr>app_pid = src, impl_pid = PID d, req_type = typ\<rparr> # wait_list d\<rparr>) s, [m]))
            else Inr (s, [])))"

text \<open>Taking the request of an application off a wait list.\<close>

fun take_request :: "u32 \<Rightarrow> device_request list \<Rightarrow> (device_request \<times> device_request list) option" where
  "take_request app [] = None"
| "take_request app (r # rs) =
     (if app_pid r = app then Some (r, rs)
      else case take_request app rs of None \<Rightarrow> None | Some (x, rs') \<Rightarrow> Some (x, r # rs'))"

partial_function (option) upd_walk :: "dev_state \<Rightarrow> nat option \<Rightarrow> u32 \<Rightarrow> u32 \<Rightarrow>
    (dev_state \<times> (device_request \<times> u32) option) option" where
  "upd_walk s p impl app =
     (case p of
        None \<Rightarrow> Some (s, None)
      | Some i \<Rightarrow>
          (let d = impl_list s i
           in case (if PID d = impl then take_request app (wait_list d) else None) of
                Some (r, rs) \<Rightarrow>
                  Some (upd_impl i (\<lambda>d. d\<lparr>wait_list := rs\<rparr>) s, Some (r, rs_Direct (reg d)))
              | None \<Rightarrow> upd_walk s (next_impl d) impl app))"

definition dev_update :: "dev_state \<Rightarrow> message \<Rightarrow> (dev_state \<times> message list) res" where
  "dev_update s m =
     (if m_major m = DEV_STATUS_WAIT then Inr (s, [])
      else (case upd_walk s (impl_use_list s) (m_sender m) (m_d4 m) of
              None \<Rightarrow> Inl Hang
            | Some (s, None) \<Rightarrow> Inr (s, [])
            | Some (s, Some (r, direct)) \<Rightarrow>
                if direct \<noteq> 0 then Inr (s, [m\<lparr>m_receiver := m_d4 m, m_type := req_type r\<rparr>])
                else Inr (s, [])))"

text \<open>One turn of \<open>Task_DEV\<close>. The structure to register is what the sender's address points to.\<close>

definition task_dev :: "(message \<Rightarrow> message) \<Rightarrow> (message \<Rightarrow> register_struct) \<Rightarrow> dev_state \<Rightarrow> message \<Rightarrow>
    (dev_state \<times> message list) res" where
  "task_dev impl reg_at s m =
     (let back = (\<lambda>(s, r). Inr (s, [m\<lparr>m_major := r, m_receiver := m_sender m\<rparr>])) in
      if m_type m = DEV_REG
      then and_then (register_device_impl s (reg_at m) (m_sender m)) back
      else if m_type m = DEV_UNREG
      then and_then (unregister_device_impl s (unat (m_major m))) back
      else if m_type m \<in> {DEV_READ, DEV_WRITE, DEV_OPEN, DEV_CLOSE}
      then dev_request impl s m
      else if m_type m = DEV_UPD then dev_update s m
      else Inr (s, []))"

section \<open>The clients\<close>

text \<open>
  A call sends its message \<open>m\<close>, with the sender set by the kernel, and takes the answer from the
  message that comes back to it; \<open>None\<close> when there is none.
\<close>

definition dev_call :: "(message \<Rightarrow> message) \<Rightarrow> (message \<Rightarrow> register_struct) \<Rightarrow> dev_state \<Rightarrow> u32 \<Rightarrow> message \<Rightarrow>
    (dev_state \<times> u32 option) res" where
  "dev_call impl reg_at s p m =
     and_then (task_dev impl reg_at s (m\<lparr>m_sender := p\<rparr>)) (\<lambda>(s, out).
       Inr (s, case filter (\<lambda>a. m_receiver a = p) out of [] \<Rightarrow> None | a # _ \<Rightarrow> Some (m_major a)))"

definition dev_msg :: "u32 \<Rightarrow> u32 \<Rightarrow> u32 \<Rightarrow> u32 \<Rightarrow> u32 \<Rightarrow> u32 \<Rightarrow> message" where
  "dev_msg dev_pid typ major d1 d2 d3 =
     \<lparr>m_sender = 0, m_receiver = dev_pid, m_ready = False, m_type = typ, m_major = major,
      m_d1 = d1, m_d2 = d2, m_d3 = d3, m_d4 = 0\<rparr>"

text \<open>Names longer than their fields overflow the structure: the length check is an \<open>assert\<close>.\<close>

definition DEV_Register :: "(message \<Rightarrow> message) \<Rightarrow> dev_state \<Rightarrow> u32 \<Rightarrow> u32 \<Rightarrow> u32 \<Rightarrow>
    u8 list \<Rightarrow> u8 list \<Rightarrow> u32 \<Rightarrow> u32 \<Rightarrow> u32 \<Rightarrow> u32 \<Rightarrow> u32 \<Rightarrow> u32 \<Rightarrow> (dev_state \<times> u32 option) res" where
  "DEV_Register impl s p dev_pid pdrs dname tname rd wr op cl info direct =
     (if 48 < length dname \<or> 16 < length tname then Inl OutOfBounds
      else
        (let area = replicate 48 0;
             area = dname @ drop (length dname) area;
             area = take 32 area @ tname @ drop (32 + length tname) area;
             r = \<lparr>rs_DeviceName = take 32 area, rs_TaskName = drop 32 area, rs_Read = rd, rs_Write = wr,
                  rs_Open = op, rs_Close = cl, rs_Info = info, rs_Direct = direct\<rparr>
         in dev_call impl (\<lambda>_. r) s p (dev_msg dev_pid DEV_REG pdrs 0 0 0)))"

text \<open>The request that is sent to unregister a device is the one for registering.\<close>

definition DEV_Unregister :: "(message \<Rightarrow> message) \<Rightarrow> (message \<Rightarrow> register_struct) \<Rightarrow> dev_state \<Rightarrow> u32 \<Rightarrow> u32 \<Rightarrow>
    u32 \<Rightarrow> (dev_state \<times> u32 option) res" where
  "DEV_Unregister impl reg_at s p dev_pid device =
     dev_call impl reg_at s p (dev_msg dev_pid DEV_REG device 0 0 0)"

definition DEV_Read :: "(message \<Rightarrow> message) \<Rightarrow> (message \<Rightarrow> register_struct) \<Rightarrow> dev_state \<Rightarrow> u32 \<Rightarrow> u32 \<Rightarrow>
    u32 \<Rightarrow> u32 \<Rightarrow> u32 \<Rightarrow> u32 \<Rightarrow> (dev_state \<times> u32 option) res" where
  "DEV_Read impl reg_at s p dev_pid device buf address n =
     dev_call impl reg_at s p (dev_msg dev_pid DEV_READ device buf address n)"

definition DEV_Write :: "(message \<Rightarrow> message) \<Rightarrow> (message \<Rightarrow> register_struct) \<Rightarrow> dev_state \<Rightarrow> u32 \<Rightarrow> u32 \<Rightarrow>
    u32 \<Rightarrow> u32 \<Rightarrow> u32 \<Rightarrow> u32 \<Rightarrow> (dev_state \<times> u32 option) res" where
  "DEV_Write impl reg_at s p dev_pid device buf address n =
     dev_call impl reg_at s p (dev_msg dev_pid DEV_WRITE device buf address n)"

definition DEV_Open :: "(message \<Rightarrow> message) \<Rightarrow> (message \<Rightarrow> register_struct) \<Rightarrow> dev_state \<Rightarrow> u32 \<Rightarrow> u32 \<Rightarrow>
    u32 \<Rightarrow> (dev_state \<times> u32 option) res" where
  "DEV_Open impl reg_at s p dev_pid device =
     dev_call impl reg_at s p (dev_msg dev_pid DEV_OPEN device 0 0 0)"

definition DEV_Close :: "(message \<Rightarrow> message) \<Rightarrow> (message \<Rightarrow> register_struct) \<Rightarrow> dev_state \<Rightarrow> u32 \<Rightarrow> u32 \<Rightarrow>
    u32 \<Rightarrow> (dev_state \<times> u32 option) res" where
  "DEV_Close impl reg_at s p dev_pid device =
     dev_call impl reg_at s p (dev_msg dev_pid DEV_CLOSE device 0 0 0)"

definition DEV_Info :: "(message \<Rightarrow> message) \<Rightarrow> (message \<Rightarrow> register_struct) \<Rightarrow> dev_state \<Rightarrow> u32 \<Rightarrow> u32 \<Rightarrow>
    u32 \<Rightarrow> u32 \<Rightarrow> u32 \<Rightarrow> (dev_state \<times> u32 option) res" where
  "DEV_Info impl reg_at s p dev_pid device buf n =
     dev_call impl reg_at s p (dev_msg dev_pid DEV_INFO device buf 0 n)"

end
