(* ===== verification/Dev_Props.thy ===== *)
theory Dev_Props
  imports Dev
begin

text \<open>
  Properties of the device server: requests reach the function the device registered, deferred
  requests are completed by \<open>DEV_UPD\<close>, and registering a device drops the earlier ones.
\<close>

section \<open>Lemmas\<close>

lemma upd_impl_simps [simp]:
  "impl_list (upd_impl i f s) i = f (impl_list s i)"
  "j \<noteq> i \<Longrightarrow> impl_list (upd_impl i f s) j = impl_list s j"
  "room (upd_impl i f s) = room s"
  "impl_use_list (upd_impl i f s) = impl_use_list s"
  "impl_free_list (upd_impl i f s) = impl_free_list s"
  by (simp_all add: upd_impl_def)

lemma upd_impl_upd_impl: "upd_impl i f (upd_impl i g s) = upd_impl i (\<lambda>d. f (g d)) s"
  by (simp add: upd_impl_def)

lemma upd_impl_same: "f (impl_list s i) = impl_list s i \<Longrightarrow> upd_impl i f s = s"
  by (simp add: upd_impl_def)

definition is_request :: "u32 \<Rightarrow> bool" where
  "is_request typ = (typ \<in> {DEV_READ, DEV_WRITE, DEV_OPEN, DEV_CLOSE})"

lemma task_dev_request: "is_request (m_type m) \<Longrightarrow> task_dev impl reg_at s m = dev_request impl s m"
  by (auto simp: task_dev_def is_request_def)

lemma task_dev_upd: "m_type m = DEV_UPD \<Longrightarrow> task_dev impl reg_at s m = dev_update s m"
  by (simp add: task_dev_def)

definition served :: "dev_state \<Rightarrow> nat \<Rightarrow> bool" where
  "served s i = (i < room s \<and> InUse (impl_list s i) \<and> PID (impl_list s i) \<noteq> 0
     \<and> rs_Direct (reg (impl_list s i)) \<noteq> 0)"

definition forwarded :: "dev_state \<Rightarrow> nat \<Rightarrow> message \<Rightarrow> message" where
  "forwarded s i m = m\<lparr>m_type := func_of (reg (impl_list s i)) (m_type m),
     m_receiver := PID (impl_list s i), m_d4 := m_sender m\<rparr>"

lemma dev_request_served:
  assumes "served s (unat (m_major m))"
  shows "dev_request impl s m =
    (let i = unat (m_major m); f = forwarded s i m in
     if m_major (impl f) \<noteq> DEV_STATUS_WAIT then Inr (s, [f, (impl f)\<lparr>m_receiver := m_sender m\<rparr>])
     else Inr (upd_impl i (\<lambda>d. d\<lparr>wait_list := \<lparr>app_pid = m_sender m, impl_pid = PID (impl_list s i),
            req_type = m_type m\<rparr> # wait_list d\<rparr>) s, [f]))"
  using assms by (simp add: dev_request_def served_def forwarded_def Let_def upd_impl_def)

lemma dev_update_head:
  assumes "impl_use_list s = Some i" "PID (impl_list s i) = m_sender u"
    and "wait_list (impl_list s i) = r # rs" "app_pid r = m_d4 u"
    and "rs_Direct (reg (impl_list s i)) \<noteq> 0" "m_major u \<noteq> DEV_STATUS_WAIT"
  shows "dev_update s u = Inr (upd_impl i (\<lambda>d. d\<lparr>wait_list := rs\<rparr>) s,
     [u\<lparr>m_receiver := m_d4 u, m_type := req_type r\<rparr>])"
  using assms by (simp add: dev_update_def upd_walk.simps [of s "Some i"])

lemma dev_update_none:
  assumes "impl_use_list s = Some i" "next_impl (impl_list s i) = None"
    and "PID (impl_list s i) \<noteq> m_sender u"
  shows "dev_update s u = Inr (s, [])"
  using assms by (simp add: dev_update_def upd_walk.simps [of s "Some i"] upd_walk.simps [of s None])

lemma register_device_impl_Inr:
  assumes "register_device_impl s r p = Inr (s', d)"
  obtains i where "impl_free_list s = Some i" "impl_use_list s' = Some i"
    "next_impl (impl_list s' i) = None" "PID (impl_list s' i) = p" "d = DeviceID (impl_list s i)"
    "reg (impl_list s' i) = r" "InUse (impl_list s' i)"
  using assms
  by (auto simp: register_device_impl_def Let_def split: option.splits if_splits)

section \<open>Properties\<close>

text \<open>
  C27. A request to open, close, read or write a device in use, whose process has permission to
  write to its clients, is forwarded to that process as the function it registered, with the
  application in the message; its answer goes back to the application. When the answer is that
  the application has to wait, nothing is sent to it, and what the next \<open>DEV_UPD\<close> of the process
  for this application does depends on the list of the devices in use. If the device is its first, which
  is the one registered last, the message is passed on to the application as an answer of the type it
  asked for, and the table is as it was before the request. If the list holds only a device
  of another process, as it does when that one was registered later, nothing is sent and the
  application goes on waiting.
\<close>

theorem dev_request_completed:
  assumes "is_request (m_type m)" "i = unat (m_major m)" "served s i" "f = forwarded s i m"
  shows "(m_major (impl f) \<noteq> DEV_STATUS_WAIT \<longrightarrow>
      task_dev impl reg_at s m = Inr (s, [f, (impl f)\<lparr>m_receiver := m_sender m\<rparr>]))
    \<and> (m_major (impl f) = DEV_STATUS_WAIT \<and> m_type u = DEV_UPD \<and>
      m_sender u = PID (impl_list s i) \<and> m_d4 u = m_sender m \<and> m_major u \<noteq> DEV_STATUS_WAIT \<longrightarrow>
      (\<exists>s'. task_dev impl reg_at s m = Inr (s', [f]) \<and>
         (impl_use_list s = Some i \<longrightarrow>
            task_dev impl reg_at s' u = Inr (s, [u\<lparr>m_receiver := m_sender m, m_type := m_type m\<rparr>])) \<and>
         (\<forall>h. impl_use_list s = Some h \<and> next_impl (impl_list s h) = None \<and> PID (impl_list s h) \<noteq> PID (impl_list s i) \<longrightarrow>
            task_dev impl reg_at s' u = Inr (s', []))))"
proof (rule conjI)
  have req: "task_dev impl reg_at s m = dev_request impl s m"
    by (rule task_dev_request) (rule assms)
  note res = dev_request_served [of s m impl, folded assms(2), OF assms(3)]
  show "m_major (impl f) \<noteq> DEV_STATUS_WAIT \<longrightarrow>
      task_dev impl reg_at s m = Inr (s, [f, (impl f)\<lparr>m_receiver := m_sender m\<rparr>])"
    by (simp add: req res assms(4) Let_def)
  define r where "r = \<lparr>app_pid = m_sender m, impl_pid = PID (impl_list s i), req_type = m_type m\<rparr>"
  define s' where "s' = upd_impl i (\<lambda>d. d\<lparr>wait_list := r # wait_list d\<rparr>) s"
  have undone: "upd_impl i (\<lambda>d. d\<lparr>wait_list := wait_list (impl_list s i)\<rparr>) s' = s"
    by (simp add: s'_def upd_impl_upd_impl upd_impl_same)
  show "m_major (impl f) = DEV_STATUS_WAIT \<and> m_type u = DEV_UPD \<and>
      m_sender u = PID (impl_list s i) \<and> m_d4 u = m_sender m \<and> m_major u \<noteq> DEV_STATUS_WAIT \<longrightarrow>
      (\<exists>s'. task_dev impl reg_at s m = Inr (s', [f]) \<and>
         (impl_use_list s = Some i \<longrightarrow>
            task_dev impl reg_at s' u = Inr (s, [u\<lparr>m_receiver := m_sender m, m_type := m_type m\<rparr>])) \<and>
         (\<forall>h. impl_use_list s = Some h \<and> next_impl (impl_list s h) = None \<and> PID (impl_list s h) \<noteq> PID (impl_list s i) \<longrightarrow>
            task_dev impl reg_at s' u = Inr (s', [])))"
  proof (intro impI, elim conjE, intro exI [of _ s'] conjI impI allI)
    assume wait: "m_major (impl f) = DEV_STATUS_WAIT" and u: "m_type u = DEV_UPD" "m_sender u = PID (impl_list s i)"
      "m_d4 u = m_sender m" "m_major u \<noteq> DEV_STATUS_WAIT"
    show "task_dev impl reg_at s m = Inr (s', [f])"
      using wait by (simp add: req res assms(4) s'_def r_def Let_def)
    show "task_dev impl reg_at s' u = Inr (s, [u\<lparr>m_receiver := m_sender m, m_type := m_type m\<rparr>])"
      if use: "impl_use_list s = Some i"
    proof -
      have "dev_update s' u = Inr (upd_impl i (\<lambda>d. d\<lparr>wait_list := wait_list (impl_list s i)\<rparr>) s',
          [u\<lparr>m_receiver := m_d4 u, m_type := req_type r\<rparr>])"
        using assms(3) use u by (intro dev_update_head) (simp_all add: s'_def r_def served_def)
      then show ?thesis using u undone by (simp add: task_dev_upd r_def)
    qed
    show "task_dev impl reg_at s' u = Inr (s', [])"
      if "impl_use_list s = Some h \<and> next_impl (impl_list s h) = None \<and> PID (impl_list s h) \<noteq> PID (impl_list s i)" for h
    proof -
      have "h \<noteq> i" using that by auto
      then have "dev_update s' u = Inr (s', [])"
        using that u by (intro dev_update_none [of _ h]) (simp_all add: s'_def upd_impl_def)
      then show ?thesis using u by (simp add: task_dev_upd)
    qed
  qed
qed

definition demo_reg :: register_struct where
  "demo_reg = zero_reg\<lparr>rs_Read := 21, rs_Write := 22, rs_Open := 23, rs_Close := 24, rs_Direct := 1\<rparr>"

definition demo_table :: dev_state where
  "demo_table = \<lparr>impl_list = (\<lambda>i. zero_impl\<lparr>DeviceID := of_nat i, next_impl := if i < 3 then Some (i + 1) else None\<rparr>),
     room = 4, impl_free_list = Some 0, impl_use_list = None\<rparr>"

definition demo_dev :: dev_state where
  "demo_dev = upd_impl 0 (\<lambda>d. d\<lparr>reg := demo_reg, PID := 5, InUse := True, next_impl := None\<rparr>)
     (demo_table\<lparr>impl_free_list := Some 1, impl_use_list := Some 0\<rparr>)"

definition demo_read :: message where
  "demo_read = \<lparr>m_sender = 9, m_receiver = 3, m_ready = False, m_type = DEV_READ, m_major = 0,
     m_d1 = 0x1000, m_d2 = 7, m_d3 = 16, m_d4 = 0\<rparr>"

theorem dev_request_completed_witness:
  "\<exists>s'. task_dev (\<lambda>m. m\<lparr>m_major := DEV_STATUS_WAIT\<rparr>) (\<lambda>_. demo_reg) demo_dev demo_read =
       Inr (s', [forwarded demo_dev 0 demo_read])
     \<and> task_dev (\<lambda>m. m\<lparr>m_major := DEV_STATUS_WAIT\<rparr>) (\<lambda>_. demo_reg) s'
         (demo_read\<lparr>m_sender := 5, m_type := DEV_UPD, m_d4 := 9\<rparr>)
       = Inr (demo_dev, [demo_read\<lparr>m_sender := 5, m_d4 := 9, m_receiver := 9\<rparr>])"
  using dev_request_completed [of demo_read 0 demo_dev "forwarded demo_dev 0 demo_read"
      "\<lambda>m. m\<lparr>m_major := DEV_STATUS_WAIT\<rparr>" "\<lambda>_. demo_reg"
      "demo_read\<lparr>m_sender := 5, m_type := DEV_UPD, m_d4 := 9\<rparr>"]
  by (simp add: demo_read_def is_request_def served_def demo_dev_def demo_table_def demo_reg_def
      forwarded_def zero_impl_def zero_reg_def)

text \<open>
  Registering a device loses the devices registered before it: the link of its entry to them
  is cleared after it was set. The list in use then holds the new device only, and an answer that
  another process has for a waiting application is dropped.
\<close>

theorem register_forgets_devices:
  assumes "register_device_impl s r p = Inr (s', d)"
  shows "\<exists>i. impl_use_list s' = Some i \<and> impl_free_list s = Some i \<and> next_impl (impl_list s' i) = None
      \<and> d = DeviceID (impl_list s i)
      \<and> (m_type u = DEV_UPD \<and> m_sender u \<noteq> p \<longrightarrow> task_dev impl reg_at s' u = Inr (s', []))"
  using assms by (auto elim!: register_device_impl_Inr intro!: dev_update_none simp: task_dev_upd)

theorem register_forgets_devices_witness:
  "\<exists>s'. register_device_impl demo_dev demo_reg 6 = Inr (s', 1)
     \<and> task_dev (\<lambda>m. m) (\<lambda>_. demo_reg) s' (demo_read\<lparr>m_sender := 5, m_type := DEV_UPD\<rparr>) = Inr (s', [])"
proof -
  obtain s' where s': "register_device_impl demo_dev demo_reg 6 = Inr (s', 1)"
    by (simp add: register_device_impl_def demo_dev_def demo_table_def upd_impl_def zero_impl_def Let_def)
  with register_forgets_devices [OF s', of "demo_read\<lparr>m_sender := 5, m_type := DEV_UPD\<rparr>" "\<lambda>m. m" "\<lambda>_. demo_reg"]
  show ?thesis by auto
qed

end
