(* ===== verification/Paging.thy ===== *)
theory Paging
  imports Page_Allocator Kernel_State Core_Memory Res_Monad
begin

text \<open>
  The paging code of the memory server: \<^verbatim>\<open>modules/memory/paging.h\<close>, \<^verbatim>\<open>paging.c\<close>,
  \<^verbatim>\<open>sbrk.c\<close> and \<^verbatim>\<open>pagefault.c\<close>.

  The state is the allocator's, the words of physical memory by address (the server runs with
  the identity mapping) and the messages by address. Page references are checked to be in
  \<open>pages_info\<close>, whose \<open>page_count\<close> entries the C code reads without a check.
\<close>

record pgs =
  pinfo :: memory_info
  pmem :: ptmem
  pmsgs :: "u32 \<Rightarrow> message"

abbreviation (input) PGROUNDDOWN :: "u32 \<Rightarrow> u32" where "PGROUNDDOWN a \<equiv> a AND NOT 0xFFF"

definition PGROUNDUP :: "u32 \<Rightarrow> u32" where
  "PGROUNDUP a = (a + PG_SIZE - 1) AND NOT 0xFFF"

definition store :: "u32 \<Rightarrow> u32 \<Rightarrow> pgs \<Rightarrow> pgs" where
  "store a v s = s\<lparr>pmem := (pmem s)(a := v)\<rparr>"

definition copied :: "u32 \<Rightarrow> u32 \<Rightarrow> (u32 \<Rightarrow> 'a) \<Rightarrow> u32 \<Rightarrow> 'a" where
  "copied dst src f = (\<lambda>a. if a - dst < PG_SIZE then f (src + (a - dst)) else f a)"

text \<open>\<open>memcpy\<close> of a page.\<close>

definition copy_page :: "u32 \<Rightarrow> u32 \<Rightarrow> pgs \<Rightarrow> pgs" where
  "copy_page dst src s = s\<lparr>pmem := copied dst src (pmem s), pmsgs := copied dst src (pmsgs s)\<rparr>"

definition alloc_page :: "u32 \<Rightarrow> pgs \<Rightarrow> pgs \<times> u32" where
  "alloc_page attr s = (let (m, p) = page_alloc (pinfo s) 1 attr in (s\<lparr>pinfo := m\<rparr>, p))"

definition free_page :: "u32 \<Rightarrow> pgs \<Rightarrow> pgs res" where
  "free_page p s = and_then (page_free (pinfo s) p 1) (\<lambda>(m, _). Inr (s\<lparr>pinfo := m\<rparr>))"

section \<open>References\<close>

definition has_info :: "pgs \<Rightarrow> u32 \<Rightarrow> bool" where
  "has_info s p = (GET_ID_BY_PAGE (pinfo s) p < unat (page_count (pinfo s)))"

definition ref_of :: "pgs \<Rightarrow> u32 \<Rightarrow> int" where
  "ref_of s p = reference (pages_info (pinfo s) (GET_ID_BY_PAGE (pinfo s) p))"

definition get_page_reference :: "pgs \<Rightarrow> u32 \<Rightarrow> int res" where
  "get_page_reference s p = (if has_info s p then Inr (ref_of s p) else Inl OutOfBounds)"

definition set_ref :: "u32 \<Rightarrow> int \<Rightarrow> pgs \<Rightarrow> pgs" where
  "set_ref p r s =
     (let m = pinfo s; i = GET_ID_BY_PAGE m p
      in s\<lparr>pinfo := m\<lparr>pages_info := (pages_info m)(i := (pages_info m i)\<lparr>reference := r\<rparr>)\<rparr>\<rparr>)"

definition increase_page_ref :: "pgs \<Rightarrow> u32 \<Rightarrow> pgs res" where
  "increase_page_ref s p = (if has_info s p then Inr (set_ref p (ref_of s p + 1) s) else Inl OutOfBounds)"

definition decrease_page_ref :: "pgs \<Rightarrow> u32 \<Rightarrow> (pgs \<times> int) res" where
  "decrease_page_ref s p =
     (if has_info s p then Inr (set_ref p (ref_of s p - 1) s, ref_of s p - 1) else Inl OutOfBounds)"

section \<open>Page tables\<close>

definition pde_addr :: "u32 \<Rightarrow> u32 \<Rightarrow> u32" where
  "pde_addr pd va = pd + 4 * drop_bit 22 va"

definition pte_in :: "u32 \<Rightarrow> u32 \<Rightarrow> u32" where
  "pte_in tab va = tab + 4 * (drop_bit 12 va AND 0x3FF)"

definition get_pte :: "ptmem \<Rightarrow> u32 \<Rightarrow> u32 \<Rightarrow> u32 option" where
  "get_pte mem pd va =
     (let pde = mem (pde_addr pd va)
      in if pde AND PG_Present = 0 then None else Some (pte_in (pde AND NOT 0xFFF) va))"

definition set_page_writable :: "pgs \<Rightarrow> u32 \<Rightarrow> u32 \<Rightarrow> bool \<Rightarrow> pgs \<times> bool" where
  "set_page_writable s pd va writable =
     (case get_pte (pmem s) pd va of
        None \<Rightarrow> (s, writable)
      | Some pte \<Rightarrow>
          if pmem s pte AND PG_Present \<noteq> 0
          then (store pte (if writable then pmem s pte OR PG_Writable else pmem s pte AND NOT PG_Writable) s,
                writable)
          else (s, writable))"

definition create_page_table :: "pgs \<Rightarrow> u32 \<Rightarrow> u32 \<Rightarrow> u32 \<Rightarrow> pgs \<times> u32 option" where
  "create_page_table s pd va pde_attr =
     (case get_pte (pmem s) pd va of
        Some pte \<Rightarrow> (s, Some pte)
      | None \<Rightarrow>
          (let (s, pg_tab) = alloc_page (PAGE_TYPE_INUSE OR PAGE_TYPE_PGTBL) s
           in if pg_tab = 0 then (s, None)
              else (let s = s\<lparr>pmem := memset0 pg_tab PG_SIZE (pmem s)\<rparr>;
                        s = store (pde_addr pd va) (pg_tab OR PG_Present OR pde_attr) s
                    in (s, Some (pte_in pg_tab va)))))"

text \<open>
  The addresses a loop from \<open>va\<close> to \<open>e\<close>, both at page boundaries, goes through: up to and with
  the last page, or without it.
\<close>

definition pages_upto :: "u32 \<Rightarrow> u32 \<Rightarrow> u32 list" where
  "pages_upto va e =
     (if e < va then [] else map (\<lambda>i. va + of_nat i * PG_SIZE) [0..<unat ((e - va) div PG_SIZE) + 1])"

definition pages_below :: "u32 \<Rightarrow> u32 \<Rightarrow> u32 list" where
  "pages_below va e =
     (if e < va then [] else map (\<lambda>i. va + of_nat i * PG_SIZE) [0..<unat ((e - va) div PG_SIZE)])"

fun map_loop :: "pgs \<Rightarrow> u32 \<Rightarrow> u32 \<Rightarrow> u32 \<Rightarrow> u32 \<Rightarrow> u32 list \<Rightarrow> pgs \<times> bool" where
  "map_loop s pd pa pde_attr pte_attr [] = (s, True)"
| "map_loop s pd pa pde_attr pte_attr (va # vas) =
     (case create_page_table s pd va pde_attr of
        (s, None) \<Rightarrow> (s, False)
      | (s, Some pte) \<Rightarrow>
          (let s = (if pmem s pte AND PG_Present = 0 then store pte (pa OR PG_Present OR pte_attr) s else s)
           in map_loop s pd (pa + PG_SIZE) pde_attr pte_attr vas))"

abbreviation (input) LAST_PAGE :: u32 where "LAST_PAGE \<equiv> 0xFFFFF000"

text \<open>
  When the range ends with the last page of the address space, the loop counter wraps around:
  the loop goes through all pages again, after which all are mapped and it never ends.
\<close>

definition map_pages :: "pgs \<Rightarrow> u32 \<Rightarrow> u32 \<Rightarrow> u32 \<Rightarrow> u32 \<Rightarrow> u32 \<Rightarrow> (pgs \<times> int) res" where
  "map_pages s pd va pa sz pte_attr =
     (let va = PGROUNDDOWN va; e = PGROUNDDOWN (va + sz - 1);
          pde_attr = (if pte_attr AND PG_OS_SYS \<noteq> 0 then PG_Present OR PG_OS_SYS
                      else PG_Present OR PG_User OR PG_Writable);
          (s, done) = map_loop s pd pa pde_attr pte_attr
                        (pages_upto va e @ (if e = LAST_PAGE then pages_upto 0 e else []))
      in if \<not> done then Inr (s, -1) else if e = LAST_PAGE then Inl Hang else Inr (s, 0))"

fun unmap_loop :: "pgs \<Rightarrow> u32 \<Rightarrow> u32 list \<Rightarrow> (pgs \<times> bool) res" where
  "unmap_loop s pd [] = Inr (s, True)"
| "unmap_loop s pd (va # vas) =
     (case get_pte (pmem s) pd va of
        None \<Rightarrow> Inl NullDeref
      | Some pte \<Rightarrow>
          if pmem s pte AND PG_Present = 0 then Inr (s, False)
          else (let pa = (pmem s pte AND NOT 0xFFF) + (va AND 0xFFF)
                in and_then (decrease_page_ref s pa) (\<lambda>(s, ref).
                   and_then (if ref = 0 then free_page pa s else Inr s) (\<lambda>s.
                   unmap_loop (store pte 0 s) pd vas))))"

text \<open>At the top of the address space the loop starts again at 0 and stops at a page it unmapped.\<close>

definition unmap_pages :: "pgs \<Rightarrow> u32 \<Rightarrow> u32 \<Rightarrow> u32 \<Rightarrow> (pgs \<times> int) res" where
  "unmap_pages s pd va sz =
     (let va = PGROUNDDOWN va; e = PGROUNDDOWN (va + sz - 1)
      in and_then (unmap_loop s pd (pages_upto va e @ (if e = LAST_PAGE then pages_upto 0 e @ [0] else [])))
           (\<lambda>(s, ok). if \<not> ok then Inr (s, 1) else if e = LAST_PAGE then Inl Hang else Inr (s, 0)))"

text \<open>Physical address, virtual address and size of what every address space maps.\<close>

definition sys_mapping :: "(u32 \<times> u32 \<times> u32) list" where
  "sys_mapping = [(0, KERN_BASE, PG_SIZE * 1024)]"

definition map_large :: "u32 \<Rightarrow> u32 \<Rightarrow> u32 \<Rightarrow> u32 \<Rightarrow> nat \<Rightarrow> pgs \<Rightarrow> pgs" where
  "map_large pd va pa sys_attr n s =
     fold (\<lambda>i s. store (pde_addr pd (va + of_nat i * PDE_SPAN))
                   ((pa + of_nat i * PDE_SPAN) OR PG_Present OR PG_OS_SYS OR PG_PS OR sys_attr) s) [0..<n] s"

fun map_system :: "u32 \<Rightarrow> u32 \<Rightarrow> (u32 \<times> u32 \<times> u32) list \<Rightarrow> pgs \<Rightarrow> pgs res" where
  "map_system pd sys_attr [] s = Inr s"
| "map_system pd sys_attr ((pa, va, sz) # es) s =
     (if va AND 0x3FFFFF = 0 \<and> sz mod PDE_SPAN = 0
      then map_system pd sys_attr es
             (map_large pd va pa sys_attr (if va + sz < va then 0 else unat (sz div PDE_SPAN)) s)
      else and_then (map_pages s pd va pa sz (PG_Present OR PG_OS_SYS OR sys_attr))
             (\<lambda>(s, _). map_system pd sys_attr es s))"

definition create_page_dir :: "pgs \<Rightarrow> u32 \<Rightarrow> (pgs \<times> u32) res" where
  "create_page_dir s sys_attr =
     (let (s, pd) = alloc_page (PAGE_TYPE_INUSE OR PAGE_TYPE_PGTBL) s
      in if pd = 0 then Inr (s, 0)
         else and_then (map_system pd sys_attr sys_mapping (s\<lparr>pmem := memset0 pd PG_SIZE (pmem s)\<rparr>))
                (\<lambda>s. Inr (s, pd)))"

section \<open>Moving the end of a program\<close>

text \<open>At most one page is mapped or unmapped, whatever the increase.\<close>

definition mem_sbrk :: "pgs \<Rightarrow> process \<Rightarrow> u32 \<Rightarrow> (pgs \<times> process \<times> u32) res" where
  "mem_sbrk s proc increse =
     (case proc_prog proc of
        None \<Rightarrow> Inr (s, proc, -1)
      | Some prog \<Rightarrow>
          (let current_brk = program_break prog; new_brk = current_brk + increse
           in and_then
                (if PGROUNDDOWN new_brk \<noteq> PGROUNDDOWN current_brk
                 then if PGROUNDDOWN new_brk < PGROUNDDOWN current_brk
                      then unmap_pages s (page_dir proc) current_brk 1
                      else (let (s, pa) = alloc_page (PAGE_TYPE_USER OR PAGE_TYPE_INUSE) s
                            in map_pages s (page_dir proc) (PGROUNDDOWN new_brk) pa PG_SIZE
                                 (PG_Writable OR PG_Present OR PG_User))
                 else Inr (s, 0)) (\<lambda>(s, _).
              Inr (s, if increse \<noteq> 0
                      then proc\<lparr>proc_prog := Some (prog\<lparr>program_break := new_brk,
                                                    program_size := program_size prog + increse\<rparr>)\<rparr>
                      else proc, current_brk))))"

section \<open>Page faults\<close>

text \<open>The table of the faulting address, copied when it is shared.\<close>

definition own_table :: "pgs \<Rightarrow> u32 \<Rightarrow> u32 \<Rightarrow> pgs res" where
  "own_table s pd va =
     (let pg_tab = pmem s (pde_addr pd va) AND NOT 0xFFF
      in and_then (get_page_reference s pg_tab) (\<lambda>pg_ref.
           if pg_ref > 1
           then and_then (decrease_page_ref s pg_tab) (\<lambda>(s, _).
                  (let (s, new_tab) = alloc_page (PAGE_TYPE_INUSE OR PAGE_TYPE_PGTBL) s;
                       s = copy_page new_tab pg_tab s
                   in Inr (store (pde_addr pd va) (new_tab OR PG_Present OR PG_User OR PG_Writable) s)))
           else Inr s))"

definition do_page_fault :: "pgs \<Rightarrow> process \<Rightarrow> (pgs \<times> process) res" where
  "do_page_fault s caller =
     (let va = sf_trap_no (stack caller); pd = page_dir caller;
          pa = vir2phy (pmem s) pd va;
          resumed = caller\<lparr>status := clear_flag PROC_STATUS_ERROR (status caller)\<rparr>
      in and_then (get_page_reference s (PGROUNDDOWN pa)) (\<lambda>ref.
           if ref = 1
           then (case get_pte (pmem s) pd va of
                   None \<Rightarrow> Inl NullDeref
                 | Some pte \<Rightarrow> Inr (store pte (pmem s pte OR PG_Writable) s, resumed))
           else if ref > 1
           then (let old_pa = PGROUNDDOWN pa;
                     (s, new_pa) = alloc_page (PAGE_TYPE_INUSE OR PAGE_TYPE_USER) s;
                     s = copy_page new_pa old_pa s
                 in and_then (decrease_page_ref s old_pa) (\<lambda>(s, _).
                    and_then (own_table s pd va) (\<lambda>s.
                      case get_pte (pmem s) pd va of
                        None \<Rightarrow> Inl NullDeref
                      | Some pte \<Rightarrow> Inr (store pte (new_pa OR PG_Present OR PG_User OR PG_Writable) s, resumed))))
           else Inr (s, caller)))"

end
