(* ===== verification/Paging_Spec.thy ===== *)
theory Paging_Spec
  imports Paging
begin

text \<open>
  Address spaces as the processor sees them: \<open>translate\<close> is the walk of the memory management
  unit, \<open>aspace\<close> says that a page directory and its tables are distinct pages in use. The lemmas
  reduce what an operation of the paging code changes to the pages it writes.
\<close>

section \<open>Pages\<close>

definition pg :: "u32 \<Rightarrow> u32" where
  "pg a = a AND NOT 0xFFF"

lemma mask12: "(0xFFF :: u32) = mask 12"
  by (simp add: mask_eq_exp_minus_1)

lemma mask10: "(0x3FF :: u32) = mask 10"
  by (simp add: mask_eq_exp_minus_1)

lemma pg_shift: "pg a = push_bit 12 (drop_bit 12 a)"
  unfolding pg_def mask12 by (rule bit_word_eqI) (auto simp: bit_simps)

lemma pg_plus: "pg a + (a AND 0xFFF) = a"
  unfolding pg_shift mask12 using bits_ident [of 12 a] by (simp add: take_bit_eq_mask)

lemma pg_pg [simp]: "pg (pg a) = pg a"
  by (simp add: pg_def and.assoc)

lemma pg_bit: "bit (pg a) i \<longleftrightarrow> 12 \<le> i \<and> bit a i"
  unfolding pg_shift by (auto simp: bit_simps dest: bit_imp_le_length)

lemma low_eq_iff: "pg a = pg b \<Longrightarrow> a AND 0xFFF = b AND 0xFFF \<longleftrightarrow> a = b"
  by (metis pg_plus)

lemma pg_or: "pg p = p \<Longrightarrow> pg f = 0 \<Longrightarrow> pg (p OR f) = p"
  by (simp add: pg_def bit.conj_disj_distrib2)

lemma pg_flags [simp]: "pg 0 = 0" "pg 1 = 0" "pg 7 = 0" "pg 0x201 = 0"
  by (simp_all add: pg_def)

lemma aligned_no_overlap:
  assumes "pg p = p" "x < 0x1000"
  shows "pg (p + x) = p" "(p + x) AND 0xFFF = x"
proof -
  have "unat x < 2 ^ 12" using assms(2) by (simp add: word_less_nat_alt)
  then have "unat (take_bit 12 x) = unat x" by (simp add: unsigned_take_bit_eq take_bit_nat_eq_self_iff)
  then have tb: "take_bit 12 x = x" by (simp only: word_unat_eq_iff)
  have x: "bit x i \<longrightarrow> i < 12" for i using bit_take_bit_iff [of 12 x i] unfolding tb by blast
  have p: "bit p i \<longrightarrow> 12 \<le> i" for i using pg_bit [of p i] unfolding assms(1) by blast
  have d: "p AND x = 0" 
  proof (rule bit_word_eqI)
    fix i show "bit (p AND x) i = bit (0 :: u32) i" using x [of i] p [of i] by (auto simp: bit_and_iff)
  qed
  have e: "p + x = p OR x" using d by (rule disjunctive_add_eq_or)
  show "pg (p + x) = p" unfolding e
  proof (rule bit_word_eqI)
    fix i show "bit (pg (p OR x)) i = bit p i" using x [of i] p [of i] by (auto simp: bit_or_iff pg_bit)
  qed
  show "(p + x) AND 0xFFF = x" unfolding e mask12
  proof (rule bit_word_eqI)
    fix i show "bit ((p OR x) AND mask 12) i = bit x i"
      using x [of i] p [of i] bit_imp_le_length [of x i] by (auto simp: bit_simps)
  qed
qed

lemma pg_in: "pg p = p \<Longrightarrow> a - p < PG_SIZE \<longleftrightarrow> pg a = p"
proof
  assume p: "pg p = p" and a: "a - p < PG_SIZE"
  show "pg a = p" using aligned_no_overlap(1) [OF p a] by simp
next
  assume p: "pg p = p" and a: "pg a = p"
  have "a - p = a AND 0xFFF" using pg_plus [of a] a by (metis add_diff_cancel_left')
  also have "\<dots> < PG_SIZE" unfolding mask12 by (simp add: take_bit_eq_mask [symmetric] word_less_nat_alt take_bit_eq_mod unat_mod)
  finally show "a - p < PG_SIZE" .
qed

section \<open>Directories and tables\<close>

lemma pde_offset: "4 * drop_bit 22 (va :: u32) < 0x1000"
proof -
  have "unat (drop_bit 22 va) < 1024"
    using unat_lt32 [of va] by (simp add: drop_bit_eq_div unat_div less_mult_imp_div_less)
  then have "unat (4 * drop_bit 22 va) < 4096" by (subst unat_word_ariths) simp
  then show ?thesis by (simp add: word_less_nat_alt)
qed

lemma pte_offset: "4 * (drop_bit 12 (va :: u32) AND 0x3FF) < 0x1000"
proof -
  have "unat (drop_bit 12 va AND 0x3FF) < 1024"
    unfolding mask10 by (simp add: take_bit_eq_mask [symmetric] take_bit_eq_mod unat_mod)
  then have "unat (4 * (drop_bit 12 va AND 0x3FF)) < 4096" by (subst unat_word_ariths) simp
  then show ?thesis by (simp add: word_less_nat_alt)
qed

lemma pg_pde: "pg pd = pd \<Longrightarrow> pg (pde_addr pd va) = pd"
  unfolding pde_addr_def by (rule aligned_no_overlap(1) [OF _ pde_offset])

lemma pg_pte: "pg t = t \<Longrightarrow> pg (pte_in t va) = t"
  unfolding pte_in_def by (rule aligned_no_overlap(1) [OF _ pte_offset])

definition dir_index :: "u32 \<Rightarrow> u32" where
  "dir_index va = drop_bit 22 va"

definition tab_index :: "u32 \<Rightarrow> u32" where
  "tab_index va = drop_bit 12 va AND 0x3FF"

lemma pde_ne_pte:
  assumes "pg pd = pd" "pg t = t" "t \<noteq> pd"
  shows "pde_addr pd va \<noteq> pte_in t va'"
proof
  assume "pde_addr pd va = pte_in t va'"
  then have "pg (pde_addr pd va) = pg (pte_in t va')" by simp
  then show False using assms by (simp add: pg_pde pg_pte)
qed

lemma times4_inj:
  assumes "unat x < 2 ^ 30" "unat y < 2 ^ 30" "4 * x = (4 * y :: u32)"
  shows "x = y"
proof -
  have "unat (4 * x) = 4 * unat x" "unat (4 * y) = 4 * unat y"
    using assms(1,2) by (subst unat_word_ariths, simp)+
  then have "unat x = unat y" using assms(3) by simp
  then show ?thesis by (simp only: word_unat_eq_iff)
qed

lemma pde_addr_inj: "pde_addr pd va = pde_addr pd va' \<longleftrightarrow> dir_index va = dir_index va'"
proof
  assume "pde_addr pd va = pde_addr pd va'"
  then have "4 * drop_bit 22 va = 4 * drop_bit 22 va'" by (simp add: pde_addr_def)
  moreover have "unat (drop_bit 22 (x :: u32)) < 2 ^ 30" for x
    using unat_lt32 [of x] by (simp add: drop_bit_eq_div unat_div)
  ultimately show "dir_index va = dir_index va'" unfolding dir_index_def by (metis times4_inj)
qed (simp add: pde_addr_def dir_index_def)

lemma pte_in_inj: "pte_in t va = pte_in t va' \<longleftrightarrow> tab_index va = tab_index va'"
proof
  assume "pte_in t va = pte_in t va'"
  then have "4 * tab_index va = 4 * tab_index va'" by (simp add: pte_in_def tab_index_def)
  moreover have "unat (tab_index x) < 2 ^ 30" for x
    unfolding tab_index_def mask10 by (simp add: take_bit_eq_mask [symmetric] take_bit_eq_mod unat_mod)
  ultimately show "tab_index va = tab_index va'" by (metis times4_inj)
qed (simp add: pte_in_def tab_index_def)

lemma pg_index: "pg va = pg va' \<longleftrightarrow> dir_index va = dir_index va' \<and> tab_index va = tab_index va'"
proof
  assume "pg va = pg va'"
  then have b: "bit va i = bit va' i" if "12 \<le> i" for i using that pg_bit by metis
  show "dir_index va = dir_index va' \<and> tab_index va = tab_index va'"
    unfolding dir_index_def tab_index_def mask10
    by (intro conjI bit_word_eqI) (simp_all add: bit_simps b)
next
  assume i: "dir_index va = dir_index va' \<and> tab_index va = tab_index va'"
  have d: "bit (dir_index x) i = bit x (22 + i)" for x i by (simp add: dir_index_def bit_simps)
  have t: "bit (tab_index x) i \<longleftrightarrow> i < 10 \<and> bit x (12 + i)" for x i
    by (auto simp: tab_index_def mask10 bit_simps dest: bit_imp_le_length)
  show "pg va = pg va'"
  proof (rule bit_word_eqI)
    fix j assume "j < LENGTH(32)"
    consider "j < 12" | "12 \<le> j" "j < 22" | "22 \<le> j" by linarith
    then show "bit (pg va) j = bit (pg va') j"
    proof cases
      case 2
      then have "j - 12 < 10" by linarith
      with 2 show ?thesis using t [of va "j - 12"] t [of va' "j - 12"] i by (simp add: pg_bit)
    next
      case 3
      then show ?thesis using d [of va "j - 22"] d [of va' "j - 22"] i by (simp add: pg_bit)
    qed (simp add: pg_bit)
  qed
qed

section \<open>The walk of the memory management unit\<close>

text \<open>The table an address is translated with, unless its directory entry maps a large page.\<close>

definition tab :: "ptmem \<Rightarrow> u32 \<Rightarrow> u32 \<Rightarrow> u32 option" where
  "tab mem pd va =
     (let pde = mem (pde_addr pd va)
      in if pde AND PG_Present = 0 \<or> pde AND PG_PS \<noteq> 0 then None else Some (pg pde))"

text \<open>Physical address and attribute bits.\<close>

definition translate :: "ptmem \<Rightarrow> u32 \<Rightarrow> u32 \<Rightarrow> (u32 \<times> u32) option" where
  "translate mem pd va =
     (let pde = mem (pde_addr pd va)
      in if pde AND PG_Present = 0 then None
         else if pde AND PG_PS \<noteq> 0 then Some (pg pde + (va AND 0x3FFFFF), pde AND 0xFFF)
         else let pte = mem (pte_in (pg pde) va)
              in if pte AND PG_Present = 0 then None else Some (pg pte + (va AND 0xFFF), pte AND 0xFFF))"

lemma translate_vir2phy: "translate mem pd va = Some (pa, f) \<Longrightarrow> vir2phy mem pd va = pa"
  by (auto simp: translate_def vir2phy_def pg_def pde_addr_def pte_in_def Let_def split: if_splits)

lemma tab_cong: "pg pd = pd \<Longrightarrow> \<forall>a. pg a = pd \<longrightarrow> mem' a = mem a \<Longrightarrow> tab mem' pd va = tab mem pd va"
  by (simp add: tab_def pg_pde)

lemma translate_cong:
  assumes "pg pd = pd" "mem' (pde_addr pd va) = mem (pde_addr pd va)"
    and "\<And>t. tab mem pd va = Some t \<Longrightarrow> mem' (pte_in t va) = mem (pte_in t va)"
  shows "translate mem' pd va = translate mem pd va"
  using assms(3) [of "pg (mem (pde_addr pd va))"] by (simp add: translate_def assms(2) tab_def Let_def)

lemma translate_tab: "tab mem pd va = Some t \<Longrightarrow> translate mem pd va =
    (let pte = mem (pte_in t va)
     in if pte AND PG_Present = 0 then None else Some (pg pte + (va AND 0xFFF), pte AND 0xFFF))"
  by (auto simp: translate_def tab_def Let_def split: if_splits)

lemma tab_index_cong: "dir_index va = dir_index va' \<Longrightarrow> tab mem pd va = tab mem pd va'"
  by (simp add: tab_def pde_addr_inj [of pd va va', THEN iffD2])

lemma get_pte_tab: "tab mem pd va = Some t \<Longrightarrow> get_pte mem pd va = Some (pte_in t va)"
  by (auto simp: tab_def get_pte_def pg_def Let_def split: if_splits)

section \<open>Well-formed states\<close>

definition ready :: "nat \<Rightarrow> pgs \<Rightarrow> bool" where
  "ready n s \<longleftrightarrow> buddy_inv n (pinfo s) \<and> n \<le> unat (page_count (pinfo s)) \<and>
     pg (memory_start (pinfo s)) = memory_start (pinfo s)"

definition avail_pages :: "pgs \<Rightarrow> u32 set" where
  "avail_pages s = free_page_addrs (pinfo s)"

definition all_pages :: "nat \<Rightarrow> pgs \<Rightarrow> u32 set" where
  "all_pages n s = page_addrs n (pinfo s)"

text \<open>The directory and its tables are pages in use; no table serves two entries.\<close>

definition aspace :: "pgs \<Rightarrow> u32 \<Rightarrow> bool" where
  "aspace s pd \<longleftrightarrow> pg pd = pd \<and> pd \<notin> avail_pages s \<and>
     (\<forall>va t. tab (pmem s) pd va = Some t \<longrightarrow> t \<notin> avail_pages s \<and> t \<noteq> pd \<and>
        (\<forall>va'. tab (pmem s) pd va' = Some t \<longrightarrow> dir_index va' = dir_index va))"

lemma aspaceD:
  assumes "aspace s pd"
  shows "pg pd = pd" "pd \<notin> avail_pages s"
    and "tab (pmem s) pd va = Some t \<Longrightarrow> t \<notin> avail_pages s"
    and "tab (pmem s) pd va = Some t \<Longrightarrow> t \<noteq> pd"
    and "tab (pmem s) pd va = Some t \<Longrightarrow> tab (pmem s) pd va' = Some t \<Longrightarrow> dir_index va' = dir_index va"
  using assms unfolding aspace_def by metis+

lemma tab_aligned: "tab mem pd va = Some t \<Longrightarrow> pg t = t"
  by (auto simp: tab_def Let_def split: if_splits)

lemma pg_iff: "pg a = a \<longleftrightarrow> 4096 dvd unat a"
proof -
  have "pg a = a \<longleftrightarrow> a AND 0xFFF = 0" using pg_plus [of a] by (metis add_0_right add_left_cancel)
  also have "\<dots> \<longleftrightarrow> a mod 4096 = 0" unfolding mask12 take_bit_eq_mask [symmetric] by (simp add: take_bit_eq_mod)
  also have "\<dots> \<longleftrightarrow> unat a mod 4096 = 0" by (simp add: word_unat_eq_iff unat_mod)
  finally show ?thesis by (simp add: dvd_eq_mod_eq_0)
qed

lemma pg_addr:
  assumes "ready n s" "i \<le> n"
  shows "pg (addr (pinfo s) i) = addr (pinfo s) i"
  using unat_addr [OF inv_geometry assms(2)] assms(1) by (auto simp: pg_iff ready_def)

lemma managed_aligned: "ready n s \<Longrightarrow> p \<in> all_pages n s \<Longrightarrow> pg p = p"
  using pg_addr [of n s] by (auto simp: all_pages_def page_addrs_def)

lemma managed_nonzero: "ready n s \<Longrightarrow> p \<in> all_pages n s \<Longrightarrow> p \<noteq> 0"
  using addr_nonzero [OF inv_geometry, of n "pinfo s"] by (auto simp: all_pages_def page_addrs_def ready_def)

lemma avail_managed: "ready n s \<Longrightarrow> avail_pages s \<subseteq> all_pages n s"
  using free_pages_bound [of n "pinfo s"]
  by (auto simp: avail_pages_def all_pages_def page_addrs_def free_page_addrs_def ready_def)

lemma managed_has_info: "ready n s \<Longrightarrow> p \<in> all_pages n s \<Longrightarrow> has_info s p"
  using id_addr [OF inv_geometry, of n "pinfo s"]
  by (auto simp: all_pages_def page_addrs_def has_info_def ready_def)

text \<open>A page with a record that is not free.\<close>

definition used :: "pgs \<Rightarrow> u32 \<Rightarrow> bool" where
  "used s p \<longleftrightarrow> has_info s p \<and> GET_ID_BY_PAGE (pinfo s) p \<notin> free_pages (pinfo s)"

lemma used_not_avail: "ready n s \<Longrightarrow> used s p \<Longrightarrow> p \<notin> avail_pages s"
  using free_pages_bound [of n "pinfo s"] id_addr [OF inv_geometry, of n "pinfo s"]
  by (auto simp: used_def avail_pages_def free_page_addrs_def ready_def)

text \<open>What taking a page from the allocator does to the references.\<close>

lemma alloc_page_cases:
  assumes "ready n s"
  shows "if avail_pages s = {} then alloc_page attr s = (s, 0)
    else \<exists>m p. alloc_page attr s = (s\<lparr>pinfo := m\<rparr>, p) \<and> p \<in> avail_pages s \<and> ready n (s\<lparr>pinfo := m\<rparr>) \<and>
      avail_pages (s\<lparr>pinfo := m\<rparr>) = avail_pages s - {p} \<and> all_pages n (s\<lparr>pinfo := m\<rparr>) = all_pages n s \<and>
      ref_of (s\<lparr>pinfo := m\<rparr>) p = 1 \<and>
      (\<forall>q. used s q \<longrightarrow> used (s\<lparr>pinfo := m\<rparr>) q \<and> ref_of (s\<lparr>pinfo := m\<rparr>) q = ref_of s q) \<and>
      used (s\<lparr>pinfo := m\<rparr>) p"
proof -
  let ?m = "pinfo s"
  have inv: "buddy_inv n ?m" using assms by (simp add: ready_def)
  note g = inv_geometry [OF inv]
  have run: "has_run ?m 0 \<longleftrightarrow> avail_pages s \<noteq> {}"
    by (auto simp: has_run_def avail_pages_def free_page_addrs_def)
  note cs = page_alloc_cases [OF inv, of 1 attr, unfolded order_of_pages_one]
  show ?thesis
  proof (cases "has_run ?m 0")
    case False
    then show ?thesis using cs run by (simp add: alloc_page_def)
  next
    case True
    then obtain i m where al: "page_alloc ?m 1 attr = (m, addr ?m i)" and t: "takes n ?m 0 attr i m"
      using cs by auto
    have i: "i < n" "i \<in> free_pages ?m" using t by (auto simp: takes_def well_placed_def)
    have fr: "same_frame ?m m" and inv': "buddy_inv n m" using t by (simp_all add: takes_def)
    have e: "addr m = addr ?m" using same_frame_addr [OF fr] .
    have one: "free_page_addrs m = free_page_addrs ?m - {addr ?m i}"
      using page_alloc_1_cases [OF inv, of attr] al run True by (auto simp: avail_pages_def split: if_splits)
    have id: "GET_ID_BY_PAGE m = GET_ID_BY_PAGE ?m"
      using fr by (simp add: same_frame_def GET_ID_BY_PAGE_def fun_eq_iff)
    have "ready n (s\<lparr>pinfo := m\<rparr>)" using assms fr inv' by (simp add: ready_def same_frame_def)
    moreover have "ref_of (s\<lparr>pinfo := m\<rparr>) (addr ?m i) = 1"
      using t i id_addr [OF g, of i] by (simp add: ref_of_def id takes_def)
    moreover have "used (s\<lparr>pinfo := m\<rparr>) q \<and> ref_of (s\<lparr>pinfo := m\<rparr>) q = ref_of s q" if "used s q" for q
      using that t fr by (simp add: used_def has_info_def ref_of_def id takes_def same_frame_def)
    moreover have "used (s\<lparr>pinfo := m\<rparr>) (addr ?m i)"
      using t i id_addr [OF g, of i] assms fr
      by (simp add: used_def has_info_def ready_def id takes_def same_frame_def)
    moreover have "alloc_page attr s = (s\<lparr>pinfo := m\<rparr>, addr ?m i)" using al by (simp add: alloc_page_def)
    moreover have "addr ?m i \<in> avail_pages s" using i(2) by (simp add: avail_pages_def free_page_addrs_def)
    moreover have "avail_pages (s\<lparr>pinfo := m\<rparr>) = avail_pages s - {addr ?m i}" using one by (simp add: avail_pages_def)
    moreover have "all_pages n (s\<lparr>pinfo := m\<rparr>) = all_pages n s" by (simp add: all_pages_def page_addrs_def e)
    ultimately show ?thesis using run True by metis
  qed
qed

section \<open>Writing to pages\<close>

lemma store_simps [simp]:
  "pinfo (store a v s) = pinfo s" "pmem (store a v s) = (pmem s)(a := v)" "pmsgs (store a v s) = pmsgs s"
  "avail_pages (store a v s) = avail_pages s" "all_pages n (store a v s) = all_pages n s"
  "ready n (store a v s) = ready n s" "ref_of (store a v s) p = ref_of s p" "has_info (store a v s) p = has_info s p"
  "used (store a v s) p = used s p"
  by (simp_all add: used_def store_def avail_pages_def all_pages_def ready_def ref_of_def has_info_def)

lemma pmem_upd_simps [simp]:
  "avail_pages (s\<lparr>pmem := w\<rparr>) = avail_pages s" "all_pages n (s\<lparr>pmem := w\<rparr>) = all_pages n s"
  "ready n (s\<lparr>pmem := w\<rparr>) = ready n s" "ref_of (s\<lparr>pmem := w\<rparr>) p = ref_of s p"
  "has_info (s\<lparr>pmem := w\<rparr>) p = has_info s p" "used (s\<lparr>pmem := w\<rparr>) p = used s p"
  by (simp_all add: used_def avail_pages_def all_pages_def ready_def ref_of_def has_info_def)

lemma copy_page_simps [simp]:
  "pinfo (copy_page d q s) = pinfo s" "avail_pages (copy_page d q s) = avail_pages s"
  "all_pages n (copy_page d q s) = all_pages n s" "ready n (copy_page d q s) = ready n s"
  "ref_of (copy_page d q s) p = ref_of s p" "has_info (copy_page d q s) p = has_info s p"
  "used (copy_page d q s) p = used s p"
  by (simp_all add: used_def copy_page_def avail_pages_def all_pages_def ready_def ref_of_def has_info_def)

lemma copied_other: "pg d = d \<Longrightarrow> pg a \<noteq> d \<Longrightarrow> copied d q f a = f a"
  by (simp add: copied_def pg_in)

lemma copied_in: "pg d = d \<Longrightarrow> x < PG_SIZE \<Longrightarrow> copied d q f (d + x) = f (q + x)"
  by (simp add: copied_def)

lemma copy_page_other: "pg d = d \<Longrightarrow> pg a \<noteq> d \<Longrightarrow> pmem (copy_page d q s) a = pmem s a"
  by (simp add: copy_page_def copied_other)

lemma memset0_other: "pg d = d \<Longrightarrow> pg a \<noteq> d \<Longrightarrow> memset0 d PG_SIZE w a = w a"
  by (simp add: memset0_def pg_in)

lemma memset0_in: "pg d = d \<Longrightarrow> pg a = d \<Longrightarrow> memset0 d PG_SIZE w a = 0"
  by (simp add: memset0_def pg_in)

text \<open>Storing a table entry changes the translation of its page only.\<close>

lemma translate_store_pte:
  assumes "aspace s pd" "tab (pmem s) pd va = Some t"
  shows "translate (pmem (store (pte_in t va) v s)) pd va' =
    (if pg va' = pg va
     then if v AND PG_Present = 0 then None else Some (pg v + (va' AND 0xFFF), v AND 0xFFF)
     else translate (pmem s) pd va')"
proof -
  note a = aspaceD [OF assms(1)]
  have t: "pg t = t" using tab_aligned [OF assms(2)] .
  have pd: "pde_addr pd x \<noteq> pte_in t va" for x
    by (rule pde_ne_pte [OF a(1) t a(4) [OF assms(2)]])
  then have tb: "tab (pmem (store (pte_in t va) v s)) pd x = tab (pmem s) pd x" for x
    by (simp add: tab_def)
  show ?thesis
  proof (cases "pg va' = pg va")
    case True
    then have i: "dir_index va' = dir_index va" "tab_index va' = tab_index va" by (simp_all add: pg_index)
    have "tab (pmem (store (pte_in t va) v s)) pd va' = Some t"
      unfolding tb tab_index_cong [OF i(1)] by (rule assms(2))
    moreover have "pte_in t va' = pte_in t va" using i(2) by (simp add: pte_in_inj)
    ultimately show ?thesis using True by (simp add: translate_tab)
  next
    case False
    have "translate (pmem (store (pte_in t va) v s)) pd va' = translate (pmem s) pd va'"
    proof (rule translate_cong [OF a(1)])
      fix t' assume t': "tab (pmem s) pd va' = Some t'"
      have "pte_in t' va' \<noteq> pte_in t va"
      proof
        assume e: "pte_in t' va' = pte_in t va"
        then have "t' = t" using pg_pte [OF t] pg_pte [OF tab_aligned [OF t']] by metis
        then have "dir_index va' = dir_index va" using a(5) [OF assms(2)] t' by metis
        moreover have "tab_index va' = tab_index va" using e \<open>t' = t\<close> by (simp add: pte_in_inj)
        ultimately show False using False by (simp add: pg_index)
      qed
      then show "pmem (store (pte_in t va) v s) (pte_in t' va') = pmem s (pte_in t' va')" by simp
    qed (use pd in simp)
    then show ?thesis using False by simp
  qed
qed

lemma aspace_store_pte:
  assumes "aspace s pd" "tab (pmem s) pd va = Some t"
  shows "aspace (store (pte_in t va) v s) pd"
proof -
  note a = aspaceD [OF assms(1)]
  have t: "pg t = t" using tab_aligned [OF assms(2)] .
  have pd: "pde_addr pd x \<noteq> pte_in t va" for x
    by (rule pde_ne_pte [OF a(1) t a(4) [OF assms(2)]])
  then have tb: "tab (pmem (store (pte_in t va) v s)) pd = tab (pmem s) pd"
    by (simp add: tab_def fun_eq_iff)
  show ?thesis using assms(1) unfolding aspace_def tb store_simps(4) .
qed

end
