(* ===== verification/Paging_Props.thy ===== *)
theory Paging_Props
  imports Paging_Spec
begin

text \<open>
  What creating a page table and mapping a page do to an address space, and, by induction over
  the loop, what \<open>map_pages\<close> does.
\<close>

section \<open>Attribute bits\<close>

lemma aligned_low: "pg p = p \<Longrightarrow> p AND 0xFFF = 0"
  using pg_plus [of p] by (metis add_0_right add_left_cancel)

lemma aligned_and:
  assumes "pg p = p" "f AND 0xFFF = f"
  shows "p AND f = 0"
proof -
  have "p AND f = (p AND 0xFFF) AND f" using assms(2) by (metis and.assoc and.commute)
  then show ?thesis using aligned_low [OF assms(1)] by simp
qed

lemma pg_zero_low: "pg f = 0 \<Longrightarrow> f AND 0xFFF = f"
  using pg_plus [of f] by simp

lemma entry_bits:
  assumes "pg p = p" "pg a = 0"
  shows "(p OR PG_Present OR a) AND PG_Present \<noteq> 0"
    and "(p OR PG_Present OR a) AND PG_PS = a AND PG_PS"
    and "pg (p OR PG_Present OR a) = p"
    and "(p OR PG_Present OR a) AND 0xFFF = (PG_Present OR a) AND 0xFFF"
proof -
  have "bit (p OR PG_Present OR a) 0" by (simp add: bit_or_iff bit_1_iff)
  then show "(p OR PG_Present OR a) AND PG_Present \<noteq> 0"
    using and_single_eq_0 [of "p OR PG_Present OR a" 0] by simp
  show "(p OR PG_Present OR a) AND PG_PS = a AND PG_PS"
    using aligned_and [OF assms(1), of PG_PS] by (simp add: bit.conj_disj_distrib2)
  show "pg (p OR PG_Present OR a) = p"
    using assms by (intro pg_or) (simp_all add: pg_def bit.conj_disj_distrib2)
  show "(p OR PG_Present OR a) AND 0xFFF = (PG_Present OR a) AND 0xFFF"
    using aligned_low [OF assms(1)] by (simp add: bit.conj_disj_distrib2)
qed

lemma pg_add_page: "pg pa = pa \<Longrightarrow> pg (pa + PG_SIZE) = pa + PG_SIZE"
proof -
  assume "pg pa = pa"
  then have "4096 dvd unat pa" by (simp add: pg_iff)
  then have "4096 dvd (unat pa + 4096) mod 2 ^ 32" by (simp add: dvd_mod)
  then show ?thesis by (simp add: pg_iff unat_word_ariths)
qed

section \<open>Creating a table\<close>

definition large :: "ptmem \<Rightarrow> u32 \<Rightarrow> u32 \<Rightarrow> bool" where
  "large mem pd va \<longleftrightarrow> mem (pde_addr pd va) AND PG_Present \<noteq> 0 \<and> mem (pde_addr pd va) AND PG_PS \<noteq> 0"

lemma get_pte_None: "get_pte mem pd va = None \<longleftrightarrow> mem (pde_addr pd va) AND PG_Present = 0"
  by (simp add: get_pte_def Let_def)

lemma not_large_tab:
  assumes "\<not> large mem pd va" "get_pte mem pd va = Some pte"
  obtains t where "tab mem pd va = Some t" "pte = pte_in t va"
  using assms by (auto simp: large_def tab_def get_pte_def pg_def Let_def split: if_splits)

text \<open>A directory entry that pointed nowhere gets a zeroed page as its table.\<close>

lemma new_table:
  assumes a: "aspace s pd" and none: "pmem s (pde_addr pd va) AND PG_Present = 0"
    and p: "p \<in> avail_pages s" "pg p = p"
    and av: "avail_pages s' = avail_pages s - {p}"
    and attr: "pg attr = 0" "attr AND PG_PS = 0"
    and m: "pmem s' = (memset0 p PG_SIZE (pmem s))(pde_addr pd va := p OR PG_Present OR attr)"
  shows "aspace s' pd" "tab (pmem s') pd va = Some p"
    "translate (pmem s') pd va' = translate (pmem s) pd va'" "large (pmem s') pd va' = large (pmem s) pd va'"
proof -
  note as = aspaceD [OF a]
  have pd: "p \<noteq> pd" using as(2) p(1) by blast
  have pde: "pmem s' (pde_addr pd x) =
      (if dir_index x = dir_index va then p OR PG_Present OR attr else pmem s (pde_addr pd x))" for x
    using pd by (simp add: m pde_addr_inj memset0_other [OF p(2)] pg_pde [OF as(1)])
  note bits = entry_bits [OF p(2) attr(1)]
  have tb: "tab (pmem s') pd x = (if dir_index x = dir_index va then Some p else tab (pmem s) pd x)" for x
    using bits attr(2) by (simp add: tab_def pde)
  have old: "tab (pmem s) pd x = None" if "dir_index x = dir_index va" for x
    using none pde_addr_inj [of pd x va] that by (simp add: tab_def)
  have ne: "t \<noteq> p" if "tab (pmem s) pd x = Some t" for x t using as(3) [OF that] p(1) by blast
  show "tab (pmem s') pd va = Some p" by (simp add: tb)
  show "aspace s' pd"
    unfolding aspace_def
  proof (intro conjI allI impI)
    show "pg pd = pd" "pd \<notin> avail_pages s'" using as(1,2) av by simp_all
  next
    fix x t assume t: "tab (pmem s') pd x = Some t"
    show "t \<notin> avail_pages s'"
      using t as(3) [of x t] av tb [of x] by (cases "dir_index x = dir_index va") simp_all
    show "t \<noteq> pd"
      using t as(4) [of x t] pd tb [of x] by (cases "dir_index x = dir_index va") auto
    fix y assume y: "tab (pmem s') pd y = Some t"
    show "dir_index y = dir_index x"
      using t y as(5) [of x t y] ne [of x t] ne [of y t] tb [of x] tb [of y]
      by (cases "dir_index x = dir_index va"; cases "dir_index y = dir_index va") auto
  qed
  show "large (pmem s') pd va' = large (pmem s) pd va'"
    using none bits attr(2) pde_addr_inj [of pd va' va] by (auto simp: large_def pde)
  show "translate (pmem s') pd va' = translate (pmem s) pd va'"
  proof (cases "dir_index va' = dir_index va")
    case True
    have "pmem s' (pte_in p va') = 0"
      using pde_ne_pte [OF as(1) p(2) pd, of va va'] memset0_in [OF p(2) pg_pte [OF p(2)]]
      by (simp add: m)
    then have "translate (pmem s') pd va' = None" using tb [of va'] True by (simp add: translate_tab)
    moreover have "translate (pmem s) pd va' = None"
      using none pde_addr_inj [of pd va' va] True by (simp add: translate_def)
    ultimately show ?thesis by simp
  next
    case False
    show ?thesis
    proof (rule translate_cong [OF as(1)])
      show "pmem s' (pde_addr pd va') = pmem s (pde_addr pd va')" using False by (simp add: pde)
      fix t assume t: "tab (pmem s) pd va' = Some t"
      have g: "pg t = t" using tab_aligned [OF t] .
      show "pmem s' (pte_in t va') = pmem s (pte_in t va')"
        using pde_ne_pte [OF as(1) g as(4) [OF t], of va va'] ne [OF t] pg_pte [OF g, of va']
        by (simp add: m memset0_other [OF p(2)])
    qed
  qed
qed

lemma create_page_table_cases:
  assumes r: "ready n s" and a: "aspace s pd" and l: "\<not> large (pmem s) pd va"
    and attr: "pg attr = 0" "attr AND PG_PS = 0"
  shows "create_page_table s pd va attr = (s, None) \<and> avail_pages s = {} \<or>
    (\<exists>s' t. create_page_table s pd va attr = (s', Some (pte_in t va)) \<and> tab (pmem s') pd va = Some t \<and>
      ready n s' \<and> aspace s' pd \<and> avail_pages s' \<subseteq> avail_pages s \<and>
      (\<forall>x. translate (pmem s') pd x = translate (pmem s) pd x) \<and> (\<forall>x. large (pmem s') pd x = large (pmem s) pd x))"
proof (cases "get_pte (pmem s) pd va")
  case (Some pte)
  then obtain t where "tab (pmem s) pd va = Some t" "pte = pte_in t va" using not_large_tab [OF l] by blast
  then show ?thesis using Some r a by (simp add: create_page_table_def)
next
  case None
  let ?at = "PAGE_TYPE_INUSE OR PAGE_TYPE_PGTBL"
  show ?thesis
  proof (cases "avail_pages s = {}")
    case True
    then have "alloc_page ?at s = (s, 0)" using alloc_page_cases [OF r, of ?at] by simp
    then show ?thesis using None True by (simp add: create_page_table_def)
  next
    case False
    then obtain m p where al: "alloc_page ?at s = (s\<lparr>pinfo := m\<rparr>, p)" "p \<in> avail_pages s"
      "ready n (s\<lparr>pinfo := m\<rparr>)" "avail_pages (s\<lparr>pinfo := m\<rparr>) = avail_pages s - {p}"
      using alloc_page_cases [OF r, of ?at] by auto
    have p: "pg p = p" "p \<noteq> 0"
      using managed_aligned [OF r] managed_nonzero [OF r] avail_managed [OF r] al(2) by blast+
    define s' where "s' = store (pde_addr pd va) (p OR PG_Present OR attr)
      (s\<lparr>pinfo := m, pmem := memset0 p PG_SIZE (pmem s)\<rparr>)"
    have e: "create_page_table s pd va attr = (s', Some (pte_in p va))"
      using None al(1) p(2) by (simp add: create_page_table_def s'_def)
    have av: "avail_pages s' = avail_pages s - {p}" "ready n s'"
      using al(3,4) by (simp_all add: s'_def avail_pages_def ready_def)
    have mem: "pmem s' = (memset0 p PG_SIZE (pmem s))(pde_addr pd va := p OR PG_Present OR attr)"
      by (simp add: s'_def)
    note t = new_table [OF a None [unfolded get_pte_None] al(2) p(1) av(1) attr mem]
    show ?thesis using e t av by blast
  qed
qed

section \<open>Mapping a range\<close>

lemma large_store_pte:
  assumes "aspace s pd" "tab (pmem s) pd va = Some t"
  shows "large (pmem (store (pte_in t va) v s)) pd x = large (pmem s) pd x"
  using pde_ne_pte [OF aspaceD(1) [OF assms(1)] tab_aligned [OF assms(2)] aspaceD(4) [OF assms], of x va]
  by (simp add: large_def)

text \<open>One turn of the loop.\<close>

definition map_one :: "pgs \<Rightarrow> u32 \<Rightarrow> u32 \<Rightarrow> u32 \<Rightarrow> u32 \<Rightarrow> pgs" where
  "map_one s pte pa pte_attr va =
     (if pmem s pte AND PG_Present = 0 then store pte (pa OR PG_Present OR pte_attr) s else s)"

lemma map_one_correct:
  assumes "ready n s" "aspace s pd" "tab (pmem s) pd va = Some t" "pg va = va" "pg pa = pa" "pg attr = 0"
  defines "s' \<equiv> map_one s (pte_in t va) pa attr va"
  shows "ready n s'" "aspace s' pd" "avail_pages s' = avail_pages s" "large (pmem s') pd x = large (pmem s) pd x"
    and "translate (pmem s') pd x =
      (if pg x = va \<and> translate (pmem s) pd x = None
       then Some (pa + (x AND 0xFFF), (PG_Present OR attr) AND 0xFFF) else translate (pmem s) pd x)"
proof -
  note bits = entry_bits [OF assms(5,6)]
  show "ready n s'" "aspace s' pd" "avail_pages s' = avail_pages s"
    using assms(1) aspace_store_pte [OF assms(2,3)] assms(2) by (simp_all add: s'_def map_one_def)
  show "large (pmem s') pd x = large (pmem s) pd x"
    using large_store_pte [OF assms(2,3)] by (simp add: s'_def map_one_def)
  have pres: "translate (pmem s) pd x = None \<longleftrightarrow> pmem s (pte_in t va) AND PG_Present = 0" if "pg x = va"
  proof -
    have i: "dir_index x = dir_index va" "tab_index x = tab_index va"
      using that assms(4) pg_index [of x va] by simp_all
    then have "tab (pmem s) pd x = Some t" "pte_in t x = pte_in t va"
      using assms(3) tab_index_cong [OF i(1), of "pmem s" pd] by (simp_all add: pte_in_inj)
    then show ?thesis by (simp add: translate_tab Let_def)
  qed
  show "translate (pmem s') pd x =
      (if pg x = va \<and> translate (pmem s) pd x = None
       then Some (pa + (x AND 0xFFF), (PG_Present OR attr) AND 0xFFF) else translate (pmem s) pd x)"
  proof (cases "pmem s (pte_in t va) AND PG_Present = 0")
    case True
    then have "s' = store (pte_in t va) (pa OR PG_Present OR attr) s" by (simp add: s'_def map_one_def)
    then show ?thesis
      using translate_store_pte [OF assms(2,3), of "pa OR PG_Present OR attr" x] bits pres assms(4) True
      by simp
  next
    case False
    then show ?thesis using pres by (auto simp: s'_def map_one_def)
  qed
qed

definition mapped :: "ptmem \<Rightarrow> ptmem \<Rightarrow> u32 \<Rightarrow> u32 list \<Rightarrow> u32 \<Rightarrow> u32 \<Rightarrow> bool" where
  "mapped mem mem' pd vas pa attr \<longleftrightarrow> (\<forall>i < length vas. \<forall>x. pg x = vas ! i \<longrightarrow>
     translate mem' pd x = (if translate mem pd x = None
       then Some (pa + of_nat i * PG_SIZE + (x AND 0xFFF), (PG_Present OR attr) AND 0xFFF)
       else translate mem pd x))"

lemma map_loop_correct:
  assumes "ready n s" "aspace s pd" "\<forall>v \<in> set vas. pg v = v \<and> \<not> large (pmem s) pd v" "distinct vas"
    and "pg pa = pa" "pg attr = 0" "pg dattr = 0" "dattr AND PG_PS = 0"
    and "map_loop s pd pa dattr attr vas = (s', ok)"
  shows "ready n s' \<and> aspace s' pd \<and> (\<not> ok \<longrightarrow> avail_pages s' = {}) \<and>
    (\<forall>x. pg x \<notin> set vas \<longrightarrow> translate (pmem s') pd x = translate (pmem s) pd x) \<and>
    (ok \<longrightarrow> mapped (pmem s) (pmem s') pd vas pa attr)"
  using assms(1-5,9)
proof (induction vas arbitrary: s pa)
  case Nil
  then show ?case by (simp add: mapped_def)
next
  case (Cons v vas)
  have v: "pg v = v" "\<not> large (pmem s) pd v" "v \<notin> set vas" using Cons.prems(3,4) by simp_all
  consider (none) "create_page_table s pd v dattr = (s, None)" "avail_pages s = {}"
    | (table) s1 t where "create_page_table s pd v dattr = (s1, Some (pte_in t v))" "tab (pmem s1) pd v = Some t"
      "ready n s1" "aspace s1 pd" "avail_pages s1 \<subseteq> avail_pages s"
      "\<forall>x. translate (pmem s1) pd x = translate (pmem s) pd x" "\<forall>x. large (pmem s1) pd x = large (pmem s) pd x"
    using create_page_table_cases [OF Cons.prems(1,2) v(2) assms(7,8)] by blast
  then show ?case
  proof cases
    case none
    then have "s' = s" "\<not> ok" using Cons.prems(6) by simp_all
    then show ?thesis using Cons.prems(1,2) none(2) by simp
  next
    case table
    define s2 where "s2 = map_one s1 (pte_in t v) pa attr v"
    note one = map_one_correct [OF table(3,4,2) v(1) Cons.prems(5) assms(6), folded s2_def]
    have l: "map_loop s2 pd (pa + PG_SIZE) dattr attr vas = (s', ok)"
      using Cons.prems(6) table(1) by (simp add: s2_def map_one_def)
    have vs: "\<forall>u \<in> set vas. pg u = u \<and> \<not> large (pmem s2) pd u" "distinct vas"
      using Cons.prems(3,4) table(7) one(4) by simp_all
    note ih = Cons.IH [OF one(1,2) vs pg_add_page [OF Cons.prems(5)] l]
    have out: "translate (pmem s') pd x = translate (pmem s) pd x" if x: "pg x \<notin> set (v # vas)" for x
      using ih x one(5) [of x] table(6) by simp
    have "mapped (pmem s) (pmem s') pd (v # vas) pa attr" if ok
      unfolding mapped_def
    proof (intro allI impI)
      fix i x assume i: "i < length (v # vas)" "pg x = (v # vas) ! i"
      show "translate (pmem s') pd x = (if translate (pmem s) pd x = None
        then Some (pa + of_nat i * PG_SIZE + (x AND 0xFFF), (PG_Present OR attr) AND 0xFFF)
        else translate (pmem s) pd x)"
      proof (cases i)
        case 0
        then have x: "pg x = v" "pg x \<notin> set vas" using i v(3) by simp_all
        then show ?thesis using ih one(5) [of x] table(6) 0 by simp
      next
        case (Suc j)
        then have j: "j < length vas" "pg x = vas ! j" using i by simp_all
        then have "pg x \<noteq> v" using v(3) by auto
        then have "translate (pmem s2) pd x = translate (pmem s) pd x" using one(5) [of x] table(6) by simp
        then show ?thesis using ih \<open>ok\<close> j unfolding mapped_def by (simp add: Suc algebra_simps)
      qed
    qed
    then show ?thesis using ih out by simp
  qed
qed

text \<open>A range of whole pages that ends before the last page of the address space.\<close>

definition in_range :: "u32 \<Rightarrow> nat \<Rightarrow> u32 \<Rightarrow> bool" where
  "in_range va cnt x \<longleftrightarrow> va \<le> x \<and> unat x < unat va + 4096 * cnt"

lemma unat_page_nth:
  assumes "unat va + 4096 * cnt < 2 ^ 32" "i \<le> cnt"
  shows "unat (va + of_nat i * PG_SIZE) = unat va + 4096 * i"
proof -
  have "4096 * i \<le> 4096 * cnt" using assms(2) by simp
  then have "unat (of_nat i * (PG_SIZE :: u32)) = 4096 * i"
    using assms(1) by (subst unat_word_ariths) (simp add: unat_of_nat32)
  then show ?thesis using assms(1) \<open>4096 * i \<le> 4096 * cnt\<close> by (subst unat_word_ariths) simp
qed

lemma unat_pg: "unat (pg a) = unat a - unat a mod 4096"
proof -
  have "unat (a AND 0xFFF) = unat a mod 4096"
    unfolding mask12 take_bit_eq_mask [symmetric] by (simp add: take_bit_eq_mod unat_mod)
  moreover have "pg a = a - (a AND 0xFFF)" using pg_plus [of a] by (metis add_diff_cancel_right')
  moreover have "a AND 0xFFF \<le> a" by (simp add: word_le_nat_alt calculation(1))
  ultimately show ?thesis by (simp add: unat_sub)
qed

lemma pages_upto_range:
  assumes "pg va = va" "0 < cnt" "unat va + 4096 * cnt < 2 ^ 32" "unat sz = 4096 * cnt"
  shows "pages_upto va (PGROUNDDOWN (va + sz - 1)) = map (\<lambda>i. va + of_nat i * PG_SIZE) [0..<cnt]"
    and "PGROUNDDOWN (va + sz - 1) \<noteq> LAST_PAGE"
proof -
  let ?e = "PGROUNDDOWN (va + sz - 1)"
  have "unat (va + sz) = unat va + 4096 * cnt" using assms(3,4) by (subst unat_word_ariths) simp
  then have u: "unat (va + sz - 1) = unat va + 4096 * cnt - 1"
    using assms(2) by (subst unat_sub) (simp_all add: word_le_nat_alt)
  obtain k where k: "unat va = 4096 * k" using assms(1) by (auto simp: pg_iff)
  obtain c where c: "cnt = Suc c" using assms(2) by (cases cnt) auto
  have "unat (va + sz - 1) = 4096 * (k + c) + 4095" using u k c by simp
  moreover have "(4096 * (k + c) + 4095) mod 4096 = (4095 :: nat)"
    by (simp only: mod_mult_self4) simp
  ultimately have "unat (va + sz - 1) mod 4096 = 4095" "unat (va + sz - 1) - 4095 = 4096 * (k + c)" by simp_all
  then have e: "unat ?e = unat va + 4096 * c" unfolding pg_def [symmetric] unat_pg using k by simp
  then have le: "va \<le> ?e" by (simp add: word_le_nat_alt)
  have "unat ((?e - va) div PG_SIZE) = c" using e le by (simp add: unat_div unat_sub)
  then show "pages_upto va ?e = map (\<lambda>i. va + of_nat i * PG_SIZE) [0..<cnt]"
    using le c by (simp add: pages_upto_def not_less)
  have "unat ?e < 4294963200" using e c assms(3) k by simp
  then show "?e \<noteq> LAST_PAGE" by auto
qed

lemma range_index:
  assumes "pg va = va" "unat va + 4096 * cnt < 2 ^ 32"
  shows "in_range va cnt x \<longleftrightarrow> (\<exists>i < cnt. pg x = va + of_nat i * PG_SIZE)"
    and "i < cnt \<Longrightarrow> pg x = va + of_nat i * PG_SIZE \<Longrightarrow> x - va = of_nat i * PG_SIZE + (x AND 0xFFF)"
proof -
  obtain k where k: "unat va = 4096 * k" using assms(1) by (auto simp: pg_iff)
  have nth: "pg x = va + of_nat i * PG_SIZE \<longleftrightarrow> unat x div 4096 = k + i" if i: "i < cnt" for i
  proof -
    have "pg x = va + of_nat i * PG_SIZE \<longleftrightarrow> unat (pg x) = unat (va + of_nat i * PG_SIZE)"
      by (simp only: word_unat_eq_iff)
    also have "\<dots> \<longleftrightarrow> 4096 * (unat x div 4096) = 4096 * (k + i)"
      using unat_page_nth [OF assms(2), of i] i k by (simp add: unat_pg minus_mod_eq_mult_div)
    also have "\<dots> \<longleftrightarrow> unat x div 4096 = k + i" by (simp only: mult_cancel1) simp
    finally show ?thesis .
  qed
  have "in_range va cnt x \<longleftrightarrow> k \<le> unat x div 4096 \<and> unat x div 4096 < k + cnt"
    unfolding in_range_def word_le_nat_alt k
    by (simp add: less_eq_div_iff_mult_less_eq div_less_iff_less_mult algebra_simps)
  also have "\<dots> \<longleftrightarrow> (\<exists>i < cnt. unat x div 4096 = k + i)"
    by (auto intro!: exI [of _ "unat x div 4096 - k"])
  finally show "in_range va cnt x \<longleftrightarrow> (\<exists>i < cnt. pg x = va + of_nat i * PG_SIZE)" using nth by blast
  assume "i < cnt" "pg x = va + of_nat i * PG_SIZE"
  then show "x - va = of_nat i * PG_SIZE + (x AND 0xFFF)" using pg_plus [of x] by (simp add: algebra_simps)
qed

lemma map_pages_correct:
  assumes "ready n s" "aspace s pd" "pg va = va" "pg pa = pa" "0 < cnt" "unat va + 4096 * cnt < 2 ^ 32"
    and "unat sz = 4096 * cnt" "pg attr = 0" "\<forall>x. in_range va cnt x \<longrightarrow> \<not> large (pmem s) pd x"
  shows "\<exists>s' r. map_pages s pd va pa sz attr = Inr (s', r) \<and> ready n s' \<and> aspace s' pd \<and>
    (r = 0 \<or> r = -1 \<and> avail_pages s' = {}) \<and>
    (\<forall>x. \<not> in_range va cnt x \<longrightarrow> translate (pmem s') pd x = translate (pmem s) pd x) \<and>
    (r = 0 \<longrightarrow> (\<forall>x. in_range va cnt x \<longrightarrow> translate (pmem s') pd x =
       (case translate (pmem s) pd x of
          None \<Rightarrow> Some (pa + (x - va), (PG_Present OR attr) AND 0xFFF) | Some y \<Rightarrow> Some y)))"
proof -
  define vas where "vas = map (\<lambda>i. va + of_nat i * PG_SIZE) [0..<cnt]"
  define dattr where "dattr = (if attr AND PG_OS_SYS \<noteq> 0 then PG_Present OR PG_OS_SYS
    else PG_Present OR PG_User OR PG_Writable)"
  obtain s' ok where l: "map_loop s pd pa dattr attr vas = (s', ok)"
    by (cases "map_loop s pd pa dattr attr vas")
  note up = pages_upto_range [OF assms(3,5,6,7)]
  have va: "va AND NOT 0xFFF = va" using assms(3) by (simp add: pg_def)
  have e: "map_pages s pd va pa sz attr = Inr (s', if ok then 0 else -1)"
    unfolding map_pages_def Let_def va up(1)
    using up(2) l unfolding dattr_def vas_def by (simp only: if_False append_Nil2) simp
  note idx = range_index [OF assms(3,6)]
  have nth: "pg (va + of_nat i * PG_SIZE) = va + of_nat i * PG_SIZE" if "i < cnt" for i
    using that unat_page_nth [OF assms(6), of i] assms(3) by (simp add: pg_iff)
  have al: "\<forall>v \<in> set vas. pg v = v \<and> \<not> large (pmem s) pd v"
  proof
    fix v assume "v \<in> set vas"
    then obtain i where i: "i < cnt" "v = va + of_nat i * PG_SIZE" by (auto simp: vas_def)
    then have "pg v = v" "in_range va cnt v" using nth idx(1) [of v] by auto
    then show "pg v = v \<and> \<not> large (pmem s) pd v" using assms(9) by blast
  qed
  have "inj_on (\<lambda>i. va + of_nat i * PG_SIZE) {0..<cnt}"
    by (rule inj_onI) (metis unat_page_nth [OF assms(6)] add_left_cancel atLeastLessThan_iff less_imp_le
        mult_cancel1 zero_neq_numeral)
  then have "distinct vas" by (simp add: vas_def distinct_map)
  moreover have "pg dattr = 0" "dattr AND PG_PS = 0" by (simp_all add: dattr_def)
  ultimately have c: "ready n s'" "aspace s' pd" "\<not> ok \<Longrightarrow> avail_pages s' = {}"
    "\<And>x. pg x \<notin> set vas \<Longrightarrow> translate (pmem s') pd x = translate (pmem s) pd x"
    "ok \<Longrightarrow> mapped (pmem s) (pmem s') pd vas pa attr"
    using map_loop_correct [OF assms(1,2) al _ assms(4,8) _ _ l] by blast+
  have out: "translate (pmem s') pd x = translate (pmem s) pd x" if "\<not> in_range va cnt x" for x
  proof (rule c(4))
    show "pg x \<notin> set vas" using idx(1) [of x] that by (auto simp: vas_def)
  qed
  have inn: "translate (pmem s') pd x = (case translate (pmem s) pd x of
      None \<Rightarrow> Some (pa + (x - va), (PG_Present OR attr) AND 0xFFF) | Some y \<Rightarrow> Some y)"
    if ok and x: "in_range va cnt x" for x
  proof -
    obtain i where i: "i < cnt" "pg x = va + of_nat i * PG_SIZE" using idx(1) x by blast
    then have "i < length vas" "pg x = vas ! i" by (simp_all add: vas_def)
    then show ?thesis
      using c(5) [OF \<open>ok\<close>] idx(2) [OF i] unfolding mapped_def by (auto split: option.splits)
  qed
  show ?thesis using e c(1-3) out inn by (cases ok) auto
qed

end
