(* ===== verification/Page_Fault.thy ===== *)
theory Page_Fault
  imports Paging_Props
begin

text \<open>
  Copy on write: a write fault on a shared page gives the faulting process a copy of its own and
  leaves every other address space as it is.
\<close>

section \<open>Reference counts\<close>

lemma pages_info_upd:
  "buddy_inv n (m\<lparr>pages_info := f\<rparr>) = buddy_inv n m" "free_pages (m\<lparr>pages_info := f\<rparr>) = free_pages m"
proof -
  let ?m = "m\<lparr>pages_info := f\<rparr>"
  have "GET_ID_BY_PAGE ?m = GET_ID_BY_PAGE m" by (simp add: fun_eq_iff GET_ID_BY_PAGE_def)
  then have fb: "free_blocks ?m = free_blocks m" by (simp add: free_blocks_def fun_eq_iff)
  show "buddy_inv n ?m = buddy_inv n m"
    unfolding buddy_inv_def fb rel_def
    by (simp add: geometry_cong [of ?m m] links_cong [of ?m m] counts_cong [of ?m m] bits_cong [of ?m m])
  show "free_pages ?m = free_pages m" unfolding free_pages_def fb ..
qed

lemma set_ref_simps [simp]:
  "pmem (set_ref p r s) = pmem s" "pmsgs (set_ref p r s) = pmsgs s"
  "avail_pages (set_ref p r s) = avail_pages s" "all_pages n (set_ref p r s) = all_pages n s"
  "ready n (set_ref p r s) = ready n s" "has_info (set_ref p r s) q = has_info s q"
  "used (set_ref p r s) q = used s q"
  by (simp_all add: set_ref_def Let_def avail_pages_def all_pages_def ready_def has_info_def used_def
      pages_info_upd free_page_addrs_def page_addrs_def addr_cong [of "m\<lparr>pages_info := f\<rparr>" m for m f]
      GET_ID_BY_PAGE_def)

lemma ref_of_set_ref:
  "ref_of (set_ref p r s) q =
    (if GET_ID_BY_PAGE (pinfo s) q = GET_ID_BY_PAGE (pinfo s) p then r else ref_of s q)"
  by (simp add: ref_of_def set_ref_def Let_def GET_ID_BY_PAGE_def)

lemma aspace_cong: "pmem s' = pmem s \<Longrightarrow> avail_pages s' = avail_pages s \<Longrightarrow> aspace s' pd = aspace s pd"
  by (simp add: aspace_def)

lemma aspace_less:
  "aspace s pd \<Longrightarrow> tab (pmem s') pd = tab (pmem s) pd \<Longrightarrow> avail_pages s' \<subseteq> avail_pages s \<Longrightarrow> aspace s' pd"
  unfolding aspace_def by (metis subsetD)

text \<open>Taking a page when there is one.\<close>

lemma alloc_page_some:
  assumes "ready n s" "avail_pages s \<noteq> {}"
  obtains m p where "alloc_page attr s = (s\<lparr>pinfo := m\<rparr>, p)" "p \<in> avail_pages s" "pg p = p"
    "ready n (s\<lparr>pinfo := m\<rparr>)" "avail_pages (s\<lparr>pinfo := m\<rparr>) = avail_pages s - {p}"
    "ref_of (s\<lparr>pinfo := m\<rparr>) p = 1" "used (s\<lparr>pinfo := m\<rparr>) p"
    "\<And>q. used s q \<Longrightarrow> used (s\<lparr>pinfo := m\<rparr>) q \<and> ref_of (s\<lparr>pinfo := m\<rparr>) q = ref_of s q"
proof -
  obtain m p where *: "alloc_page attr s = (s\<lparr>pinfo := m\<rparr>, p)" "p \<in> avail_pages s"
    "ready n (s\<lparr>pinfo := m\<rparr>)" "avail_pages (s\<lparr>pinfo := m\<rparr>) = avail_pages s - {p}"
    "ref_of (s\<lparr>pinfo := m\<rparr>) p = 1" "used (s\<lparr>pinfo := m\<rparr>) p"
    "\<forall>q. used s q \<longrightarrow> used (s\<lparr>pinfo := m\<rparr>) q \<and> ref_of (s\<lparr>pinfo := m\<rparr>) q = ref_of s q"
    using alloc_page_cases [OF assms(1), of attr] assms(2) by auto
  have "pg p = p" using managed_aligned [OF assms(1)] avail_managed [OF assms(1)] *(2) by blast
  then show thesis using that [of m p] * by blast
qed

section \<open>Replacing a table by a copy\<close>

lemma copied_table:
  assumes a: "aspace s pd" and t: "tab (pmem s) pd va = Some t"
    and p: "p \<in> avail_pages s" "pg p = p" and av: "avail_pages s' = avail_pages s - {p}"
    and attr: "pg attr = 0" "attr AND PG_PS = 0"
    and m: "pmem s' = (copied p t (pmem s))(pde_addr pd va := p OR PG_Present OR attr)"
  shows "aspace s' pd" "tab (pmem s') pd va = Some p" "translate (pmem s') pd x = translate (pmem s) pd x"
proof -
  note as = aspaceD [OF a]
  have pd: "p \<noteq> pd" using as(2) p(1) by blast
  have pde: "pmem s' (pde_addr pd x) =
      (if dir_index x = dir_index va then p OR PG_Present OR attr else pmem s (pde_addr pd x))" for x
    using pd by (simp add: m pde_addr_inj copied_other [OF p(2)] pg_pde [OF as(1)])
  note bits = entry_bits [OF p(2) attr(1)]
  have tb: "tab (pmem s') pd x = (if dir_index x = dir_index va then Some p else tab (pmem s) pd x)" for x
    using bits attr(2) by (simp add: tab_def pde)
  have ne: "u \<noteq> p" if "tab (pmem s) pd x = Some u" for x u using as(3) [OF that] p(1) by blast
  show "tab (pmem s') pd va = Some p" by (simp add: tb)
  show "aspace s' pd"
    unfolding aspace_def
  proof (intro conjI allI impI)
    show "pg pd = pd" "pd \<notin> avail_pages s'" using as(1,2) av by simp_all
  next
    fix x u assume u: "tab (pmem s') pd x = Some u"
    show "u \<notin> avail_pages s'"
      using u as(3) [of x u] av tb [of x] by (cases "dir_index x = dir_index va") simp_all
    show "u \<noteq> pd"
      using u as(4) [of x u] pd tb [of x] by (cases "dir_index x = dir_index va") auto
    fix y assume y: "tab (pmem s') pd y = Some u"
    show "dir_index y = dir_index x"
      using u y as(5) [of x u y] ne [of x u] ne [of y u] tb [of x] tb [of y]
      by (cases "dir_index x = dir_index va"; cases "dir_index y = dir_index va") auto
  qed
  show "translate (pmem s') pd x = translate (pmem s) pd x"
  proof (cases "dir_index x = dir_index va")
    case True
    have "pmem s' (pte_in p x) = copied p t (pmem s) (pte_in p x)"
      using pde_ne_pte [OF as(1) p(2) pd, of va x] by (simp add: m)
    also have "\<dots> = pmem s (pte_in t x)"
      unfolding pte_in_def by (rule copied_in [OF p(2) pte_offset])
    finally have e: "pmem s' (pte_in p x) = pmem s (pte_in t x)" .
    have "tab (pmem s) pd x = Some t" using t tab_index_cong [OF True, of "pmem s" pd] by simp
    then show ?thesis using tb [of x] True e by (simp add: translate_tab)
  next
    case False
    show ?thesis
    proof (rule translate_cong [OF as(1)])
      show "pmem s' (pde_addr pd x) = pmem s (pde_addr pd x)" using False by (simp add: pde)
      fix u assume u: "tab (pmem s) pd x = Some u"
      have g: "pg u = u" using tab_aligned [OF u] .
      show "pmem s' (pte_in u x) = pmem s (pte_in u x)"
        using pde_ne_pte [OF as(1) g as(4) [OF u], of va x] ne [OF u] pg_pte [OF g, of x]
        by (simp add: m copied_other [OF p(2)])
    qed
  qed
qed

text \<open>What \<open>own_table\<close> ensures: the address space is the same and its table is not shared.\<close>

lemma own_table_correct:
  assumes r: "ready n s" and a: "aspace s pd" and t: "tab (pmem s) pd va = Some t"
    and u: "used s t" "1 \<le> ref_of s t" and av: "avail_pages s \<noteq> {}"
  obtains s' t' where "own_table s pd va = Inr s'" "ready n s'" "aspace s' pd"
    "tab (pmem s') pd va = Some t'" "t' = t \<and> ref_of s t = 1 \<or> t' \<in> avail_pages s \<and> 1 < ref_of s t"
    "avail_pages s' \<subseteq> avail_pages s" "\<And>x. translate (pmem s') pd x = translate (pmem s) pd x"
    "\<And>b. pg b \<noteq> t' \<Longrightarrow> pg b \<noteq> pd \<Longrightarrow> pmem s' b = pmem s b" "\<And>b. pg b \<noteq> t' \<Longrightarrow> pmsgs s' b = pmsgs s b"
    "\<And>b. ref_of s t = 1 \<Longrightarrow> pmem s' b = pmem s b"
    "\<And>q. used s q \<Longrightarrow> GET_ID_BY_PAGE (pinfo s) q \<noteq> GET_ID_BY_PAGE (pinfo s) t \<Longrightarrow> ref_of s' q = ref_of s q"
proof -
  have tt: "pmem s (pde_addr pd va) AND NOT 0xFFF = t"
    using t by (auto simp: tab_def pg_def Let_def split: if_splits)
  have h: "has_info s t" using u(1) by (simp add: used_def)
  show thesis
  proof (cases "ref_of s t = 1")
    case True
    then have "own_table s pd va = Inr s" using h unfolding own_table_def tt by (simp add: get_page_reference_def)
    then show thesis using that [of s t] r a t True by auto
  next
    case False
    then have gt: "1 < ref_of s t" using u(2) by simp
    define s1 where "s1 = set_ref t (ref_of s t - 1) s"
    have r1: "ready n s1" "avail_pages s1 \<noteq> {}" using r av by (simp_all add: s1_def)
    obtain m p where al: "alloc_page (PAGE_TYPE_INUSE OR PAGE_TYPE_PGTBL) s1 = (s1\<lparr>pinfo := m\<rparr>, p)"
      "p \<in> avail_pages s1" "pg p = p" "ready n (s1\<lparr>pinfo := m\<rparr>)"
      "avail_pages (s1\<lparr>pinfo := m\<rparr>) = avail_pages s1 - {p}"
      "\<And>q. used s1 q \<Longrightarrow> used (s1\<lparr>pinfo := m\<rparr>) q \<and> ref_of (s1\<lparr>pinfo := m\<rparr>) q = ref_of s1 q"
      using alloc_page_some [OF r1, of "PAGE_TYPE_INUSE OR PAGE_TYPE_PGTBL"] by metis
    define s2 where "s2 = store (pde_addr pd va) (p OR PG_Present OR PG_User OR PG_Writable)
      (copy_page p t (s1\<lparr>pinfo := m\<rparr>))"
    have e: "own_table s pd va = Inr s2"
      using gt h al(1) unfolding own_table_def tt
      by (simp add: get_page_reference_def decrease_page_ref_def s1_def s2_def)
    have p: "p \<in> avail_pages s" using al(2) by (simp add: s1_def)
    have av2: "avail_pages s2 = avail_pages s - {p}" "ready n s2"
      using al(4,5) by (simp_all add: s2_def s1_def)
    have m2: "pmem s2 = (copied p t (pmem s))(pde_addr pd va := p OR PG_Present OR 6)"
      by (simp add: s2_def copy_page_def s1_def)
    have "pg (6 :: u32) = 0" "6 AND PG_PS = (0 :: u32)" by (simp_all add: pg_def)
    note c = copied_table [OF a t p al(3) av2(1) this m2]
    have "ref_of s2 q = ref_of s q"
      if q: "used s q" "GET_ID_BY_PAGE (pinfo s) q \<noteq> GET_ID_BY_PAGE (pinfo s) t" for q
      using al(6) [of q] q by (simp add: s2_def s1_def ref_of_set_ref)
    moreover have "pmem s2 b = pmem s b" if b: "pg b \<noteq> p" "pg b \<noteq> pd" for b
      using b pg_pde [OF aspaceD(1) [OF a], of va] by (auto simp: m2 copied_other [OF al(3)])
    moreover have "pmsgs s2 b = pmsgs s b" if "pg b \<noteq> p" for b
      using that by (simp add: s2_def copy_page_def copied_other [OF al(3)] s1_def)
    ultimately show thesis using that [of s2 p] e av2 c p gt False by auto
  qed
qed

section \<open>Write faults\<close>

lemma pg_diff: "pg a = a \<Longrightarrow> pg b = b \<Longrightarrow> pg (a - b) = a - b"
proof -
  assume "pg a = a" "pg b = b"
  then have "4096 dvd unat a" "4096 dvd unat b" by (simp_all add: pg_iff)
  then obtain i j where "unat a = 4096 * i" "unat b = 4096 * j" by (auto elim!: dvdE)
  then show ?thesis
    using unat_lt32 [of b] by (auto simp: pg_iff unat_sub_if' intro!: dvd_diff_nat dvd_add)
qed

lemma id_inj:
  assumes "ready n s" "pg p = p" "pg q = q" "GET_ID_BY_PAGE (pinfo s) p = GET_ID_BY_PAGE (pinfo s) q"
  shows "p = q"
proof -
  let ?b = "memory_start (pinfo s)"
  have b: "pg ?b = ?b" using assms(1) by (simp add: ready_def)
  obtain i j where ij: "unat (p - ?b) = 4096 * i" "unat (q - ?b) = 4096 * j"
    using pg_diff [OF assms(2) b] pg_diff [OF assms(3) b] by (auto simp: pg_iff elim!: dvdE)
  then have "i = j" using assms(4) by (simp add: GET_ID_BY_PAGE_def unat_div)
  then have "unat (p - ?b) = unat (q - ?b)" using ij by simp
  then have "p - ?b = q - ?b" by (simp only: word_unat_eq_iff)
  then show ?thesis by simp
qed

text \<open>The first half of a fault: a fresh page with the contents of the shared one.\<close>

lemma copy_frame:
  assumes "ready n s" "aspace s pd" "used s f" "pg f = f" "avail_pages s \<noteq> {}"
  obtains m new s1 s2 where
    "alloc_page attr s = (s\<lparr>pinfo := m\<rparr>, new)" "copy_page new f (s\<lparr>pinfo := m\<rparr>) = s1"
    "decrease_page_ref s1 f = Inr (s2, ref_of s f - 1)" "new \<in> avail_pages s" "pg new = new"
    "ready n s2" "aspace s2 pd" "avail_pages s2 = avail_pages s - {new}" "used s2 f"
    "ref_of s2 f = ref_of s f - 1"
    "\<And>q. used s q \<Longrightarrow> pg q = q \<Longrightarrow> q \<noteq> f \<Longrightarrow> used s2 q \<and> ref_of s2 q = ref_of s q"
    "\<And>b. pg b \<noteq> new \<Longrightarrow> pmem s2 b = pmem s b" "\<And>v. tab (pmem s2) pd v = tab (pmem s) pd v"
    "\<And>v. translate (pmem s2) pd v = translate (pmem s) pd v"
    "\<And>x. x < PG_SIZE \<Longrightarrow> pmem s2 (new + x) = pmem s (f + x) \<and> pmsgs s2 (new + x) = pmsgs s (f + x)"
proof -
  note a = aspaceD [OF assms(2)]
  obtain m new where al: "alloc_page attr s = (s\<lparr>pinfo := m\<rparr>, new)"
    "new \<in> avail_pages s" "pg new = new" "ready n (s\<lparr>pinfo := m\<rparr>)"
    "avail_pages (s\<lparr>pinfo := m\<rparr>) = avail_pages s - {new}"
    "\<And>q. used s q \<Longrightarrow> used (s\<lparr>pinfo := m\<rparr>) q \<and> ref_of (s\<lparr>pinfo := m\<rparr>) q = ref_of s q"
    using alloc_page_some [OF assms(1,5), of attr] by metis
  define s1 where "s1 = copy_page new f (s\<lparr>pinfo := m\<rparr>)"
  define s2 where "s2 = set_ref f (ref_of s f - 1) s1"
  have u1: "used s1 q" "ref_of s1 q = ref_of s q" if "used s q" for q
    using al(6) [OF that] by (simp_all add: s1_def)
  have r1: "ready n s1" using al(4) by (simp add: s1_def)
  have d: "decrease_page_ref s1 f = Inr (s2, ref_of s f - 1)"
    using u1 [OF assms(3)] by (simp add: decrease_page_ref_def s2_def used_def)
  have av: "ready n s2" "avail_pages s2 = avail_pages s - {new}"
    using r1 al(5) by (simp_all add: s2_def s1_def)
  have f2: "used s2 f" "ref_of s2 f = ref_of s f - 1" using u1 [OF assms(3)] by (simp_all add: s2_def ref_of_set_ref)
  have q2: "used s2 q \<and> ref_of s2 q = ref_of s q" if "used s q" "pg q = q" "q \<noteq> f" for q
    using u1 [OF that(1)] id_inj [OF r1 that(2) assms(4)] that(3) by (auto simp: s2_def ref_of_set_ref)
  have mem2: "pmem s2 b = pmem s b" if "pg b \<noteq> new" for b
    using that by (simp add: s2_def s1_def copy_page_other [OF al(3)])
  have np: "pd \<noteq> new" using a(2) al(2) by blast
  have tb: "tab (pmem s2) pd v = tab (pmem s) pd v" for v
  proof (rule tab_cong [OF a(1)], intro allI impI)
    fix b assume "pg b = pd"
    then show "pmem s2 b = pmem s b" using np by (intro mem2) simp
  qed
  then have sp: "aspace s2 pd" by (intro aspace_less [OF assms(2)]) (auto simp: av(2))
  have tr: "translate (pmem s2) pd v = translate (pmem s) pd v" for v
  proof (rule translate_cong [OF a(1)])
    show "pmem s2 (pde_addr pd v) = pmem s (pde_addr pd v)" using np by (intro mem2) (simp add: pg_pde a(1))
    fix u assume u: "tab (pmem s) pd v = Some u"
    have "u \<noteq> new" using a(3) [OF u] al(2) by blast
    then show "pmem s2 (pte_in u v) = pmem s (pte_in u v)"
      by (intro mem2) (simp add: pg_pte [OF tab_aligned [OF u]])
  qed
  have cont: "pmem s2 (new + x) = pmem s (f + x) \<and> pmsgs s2 (new + x) = pmsgs s (f + x)" if "x < PG_SIZE" for x
    using that by (simp add: s2_def s1_def copy_page_def copied_in [OF al(3)])
  show thesis using that [OF al(1) s1_def [symmetric] d al(2,3) av(1) sp av(2) f2 q2 mem2 tb tr cont] .
qed

text \<open>The second half: the faulting address is mapped to the page, in a table of its own.\<close>

lemma remap_page:
  assumes "ready n s" "aspace s pd" "tab (pmem s) pd va = Some t" "used s t" "1 \<le> ref_of s t"
    and "avail_pages s \<noteq> {}" "pg new = new"
  obtains s1 pte s' where "own_table s pd va = Inr s1" "get_pte (pmem s1) pd va = Some pte"
    "store pte (new OR PG_Present OR PG_User OR PG_Writable) s1 = s'" "ready n s'" "aspace s' pd"
    "\<And>v. translate (pmem s') pd v =
       (if pg v = pg va then Some (new + (v AND 0xFFF), 7) else translate (pmem s) pd v)"
    "\<And>b. pg b \<noteq> pd \<Longrightarrow> pg b \<notin> avail_pages s \<Longrightarrow> pg b \<noteq> t \<or> 1 < ref_of s t \<Longrightarrow> pmem s' b = pmem s b"
    "\<And>b. pg b \<notin> avail_pages s \<Longrightarrow> pg b \<noteq> t \<Longrightarrow> pmsgs s' b = pmsgs s b"
    "\<And>q. used s q \<Longrightarrow> pg q = q \<Longrightarrow> q \<noteq> t \<Longrightarrow> ref_of s' q = ref_of s q"
proof (rule own_table_correct [OF assms(1-6)])
  fix s1 t'
  assume o: "own_table s pd va = Inr s1" "ready n s1" "aspace s1 pd" "tab (pmem s1) pd va = Some t'"
    "t' = t \<and> ref_of s t = 1 \<or> t' \<in> avail_pages s \<and> 1 < ref_of s t" "avail_pages s1 \<subseteq> avail_pages s"
    "\<And>x. translate (pmem s1) pd x = translate (pmem s) pd x"
    "\<And>b. pg b \<noteq> t' \<Longrightarrow> pg b \<noteq> pd \<Longrightarrow> pmem s1 b = pmem s b" "\<And>b. pg b \<noteq> t' \<Longrightarrow> pmsgs s1 b = pmsgs s b"
    "\<And>b. ref_of s t = 1 \<Longrightarrow> pmem s1 b = pmem s b"
    "\<And>q. used s q \<Longrightarrow> GET_ID_BY_PAGE (pinfo s) q \<noteq> GET_ID_BY_PAGE (pinfo s) t \<Longrightarrow> ref_of s1 q = ref_of s q"
  define s' where "s' = store (pte_in t' va) (new OR PG_Present OR PG_User OR PG_Writable) s1"
  have pt: "pg (pte_in t' va) = t'" using pg_pte [OF tab_aligned [OF o(4)]] .
  have away: "pg b \<noteq> t'" if "pg b \<notin> avail_pages s" "pg b \<noteq> t \<or> 1 < ref_of s t" for b
    using o(5)
  proof
    assume "t' = t \<and> ref_of s t = 1"
    then show ?thesis using that(2) by simp
  next
    assume "t' \<in> avail_pages s \<and> 1 < ref_of s t"
    then show ?thesis using that(1) by metis
  qed
  have mem: "pmem s' b = pmem s b" if b: "pg b \<noteq> pd" "pg b \<notin> avail_pages s" "pg b \<noteq> t \<or> 1 < ref_of s t" for b
  proof -
    have "pg b \<noteq> t'" using away [OF b(2,3)] .
    moreover from this have "b \<noteq> pte_in t' va" using pt by blast
    ultimately show ?thesis using o(8) [of b] b(1) by (simp add: s'_def)
  qed
  have msg: "pmsgs s' b = pmsgs s b" if "pg b \<notin> avail_pages s" "pg b \<noteq> t" for b
    using o(9) [of b] away [of b] that by (simp add: s'_def)
  have v: "new OR PG_Present OR PG_User OR PG_Writable = new OR PG_Present OR 6" by simp
  note bits = entry_bits [OF assms(7), of 6]
  have tr: "translate (pmem s') pd v =
      (if pg v = pg va then Some (new + (v AND 0xFFF), 7) else translate (pmem s) pd v)" for v
    using translate_store_pte [OF o(3,4), of "new OR PG_Present OR 6" v] bits o(7) [of v]
    unfolding s'_def v by (simp add: pg_def)
  have rf: "ref_of s' q = ref_of s q" if "used s q" "pg q = q" "q \<noteq> t" for q
    using o(11) [OF that(1)] id_inj [OF assms(1) that(2) tab_aligned [OF assms(3)]] that(3)
    by (auto simp: s'_def)
  have sp: "aspace s' pd" unfolding s'_def by (rule aspace_store_pte [OF o(3,4)])
  have rd: "ready n s'" using o(2) by (simp add: s'_def)
  show thesis using that [OF o(1) get_pte_tab [OF o(4)] s'_def [symmetric] rd sp tr mem msg rf] .
qed

text \<open>Another address space: it may share the table \<open>t\<close> when the table's count says so.\<close>

definition other_space :: "pgs \<Rightarrow> u32 \<Rightarrow> u32 \<Rightarrow> u32 \<Rightarrow> bool" where
  "other_space s pd t pd' \<longleftrightarrow> aspace s pd' \<and> pd' \<noteq> pd \<and> pd' \<noteq> t \<and>
     (\<forall>x u. tab (pmem s) pd' x = Some u \<longrightarrow> u \<noteq> pd \<and> (u = t \<longrightarrow> 1 < ref_of s t))"

lemma other_space_unchanged:
  assumes "other_space s pd t pd'"
    and "\<And>b. pg b \<noteq> pd \<Longrightarrow> pg b \<notin> avail_pages s \<Longrightarrow> pg b \<noteq> t \<or> 1 < ref_of s t \<Longrightarrow> mem' b = pmem s b"
  shows "translate mem' pd' x = translate (pmem s) pd' x"
proof (rule translate_cong)
  have a: "aspace s pd'" "pd' \<noteq> pd" "pd' \<noteq> t" using assms(1) by (simp_all add: other_space_def)
  show g: "pg pd' = pd'" using aspaceD(1) [OF a(1)] .
  show "mem' (pde_addr pd' x) = pmem s (pde_addr pd' x)"
    by (rule assms(2)) (use a g aspaceD(2) [OF a(1)] in \<open>simp_all add: pg_pde\<close>)
  fix u assume u: "tab (pmem s) pd' x = Some u"
  have "pg (pte_in u x) = u" using pg_pte [OF tab_aligned [OF u]] .
  then show "mem' (pte_in u x) = pmem s (pte_in u x)"
    using assms(1) u aspaceD(3) [OF a(1) u] by (intro assms(2)) (auto simp: other_space_def)
qed

text \<open>
  C9. A write fault of a process on a page that several processes refer to gives it a fresh page
  with the contents of the old one, mapped at the faulting address as present, writable and
  accessible to users, and takes one reference off the old page. Every other address of the
  process is translated as before, and so is every address of every other address space, even
  one that shared the page table; no other page in use is written to, except the directory and
  the table of the process. Two free pages are required, one for the copy and one for a table of its
  own: the result of the allocation is not checked, and without memory it is page 0 that is written
  (\<open>fault_without_memory\<close>).
\<close>

theorem page_fault_copies:
  assumes "ready n s" "aspace s (page_dir p)" "tab (pmem s) (page_dir p) (sf_trap_no (stack p)) = Some t"
    and "translate (pmem s) (page_dir p) (sf_trap_no (stack p)) = Some (pa, fl)"
    and "used s (pg pa)" "1 < ref_of s (pg pa)" "used s t" "1 \<le> ref_of s t" "pg pa \<noteq> t"
    and "x0 \<in> avail_pages s" "y0 \<in> avail_pages s" "x0 \<noteq> y0"
  shows "\<exists>s' new. do_page_fault s p =
      Inr (s', p\<lparr>status := clear_flag PROC_STATUS_ERROR (status p)\<rparr>) \<and>
    new \<in> avail_pages s \<and> ready n s' \<and> aspace s' (page_dir p) \<and>
    (\<forall>v. translate (pmem s') (page_dir p) v =
       (if pg v = pg (sf_trap_no (stack p)) then Some (new + (v AND 0xFFF), 7)
        else translate (pmem s) (page_dir p) v)) \<and>
    (\<forall>x < PG_SIZE. pmem s' (new + x) = pmem s (pg pa + x) \<and> pmsgs s' (new + x) = pmsgs s (pg pa + x)) \<and>
    ref_of s' (pg pa) = ref_of s (pg pa) - 1 \<and>
    (\<forall>pd' v. other_space s (page_dir p) t pd' \<longrightarrow> translate (pmem s') pd' v = translate (pmem s) pd' v) \<and>
    (\<forall>b. pg b \<notin> avail_pages s \<union> {page_dir p, t} \<longrightarrow> pmem s' b = pmem s b)"
proof -
  let ?pd = "page_dir p" and ?va = "sf_trap_no (stack p)" and ?f = "pg pa"
  note a = aspaceD [OF assms(2)]
  have ne: "avail_pages s \<noteq> {}" using assms(10) by blast
  have gt: "pg t = t" using tab_aligned [OF assms(3)] .
  show ?thesis
  proof (rule copy_frame [OF assms(1,2,5) pg_pg ne, of "PAGE_TYPE_INUSE OR PAGE_TYPE_USER"])
    fix m new s1 s2
    assume al: "alloc_page (PAGE_TYPE_INUSE OR PAGE_TYPE_USER) s = (s\<lparr>pinfo := m\<rparr>, new)"
        "copy_page new ?f (s\<lparr>pinfo := m\<rparr>) = s1" "decrease_page_ref s1 ?f = Inr (s2, ref_of s ?f - 1)"
        "new \<in> avail_pages s" "pg new = new"
      and s2: "ready n s2" "aspace s2 ?pd" "avail_pages s2 = avail_pages s - {new}" "used s2 ?f"
        "ref_of s2 ?f = ref_of s ?f - 1"
        "\<And>q. used s q \<Longrightarrow> pg q = q \<Longrightarrow> q \<noteq> ?f \<Longrightarrow> used s2 q \<and> ref_of s2 q = ref_of s q"
      and mem2: "\<And>b. pg b \<noteq> new \<Longrightarrow> pmem s2 b = pmem s b"
      and tb2: "\<And>v. tab (pmem s2) ?pd v = tab (pmem s) ?pd v"
      and tr2: "\<And>v. translate (pmem s2) ?pd v = translate (pmem s) ?pd v"
      and cont2: "\<And>x. x < PG_SIZE \<Longrightarrow>
        pmem s2 (new + x) = pmem s (?f + x) \<and> pmsgs s2 (new + x) = pmsgs s (?f + x)"
    have ut: "used s2 t" "1 \<le> ref_of s2 t" "ref_of s2 t = ref_of s t"
      using s2(6) [OF assms(7) gt] assms(8,9) by simp_all
    have t2: "tab (pmem s2) ?pd ?va = Some t" using assms(3) by (simp add: tb2)
    have "\<exists>z. z \<in> avail_pages s \<and> z \<noteq> new" using assms(10-12) by metis
    then have ne2: "avail_pages s2 \<noteq> {}" unfolding s2(3) by blast
    show ?thesis
    proof (rule remap_page [OF s2(1,2) t2 ut(1,2) ne2 al(5)])
      fix s3 pte s4
      assume st: "own_table s2 ?pd ?va = Inr s3" "get_pte (pmem s3) ?pd ?va = Some pte"
          "store pte (new OR PG_Present OR PG_User OR PG_Writable) s3 = s4"
        and wf: "ready n s4" "aspace s4 ?pd"
        and tr: "\<And>v. translate (pmem s4) ?pd v =
          (if pg v = pg ?va then Some (new + (v AND 0xFFF), 7) else translate (pmem s2) ?pd v)"
        and mem4: "\<And>b. pg b \<noteq> ?pd \<Longrightarrow> pg b \<notin> avail_pages s2 \<Longrightarrow> pg b \<noteq> t \<or> 1 < ref_of s2 t \<Longrightarrow>
          pmem s4 b = pmem s2 b"
        and msg4: "\<And>b. pg b \<notin> avail_pages s2 \<Longrightarrow> pg b \<noteq> t \<Longrightarrow> pmsgs s4 b = pmsgs s2 b"
        and rf4: "\<And>q. used s2 q \<Longrightarrow> pg q = q \<Longrightarrow> q \<noteq> t \<Longrightarrow> ref_of s4 q = ref_of s2 q"
      have pa: "vir2phy (pmem s) ?pd ?va = pa" using translate_vir2phy [OF assms(4)] .
      have e: "do_page_fault s p = Inr (s4, p\<lparr>status := clear_flag PROC_STATUS_ERROR (status p)\<rparr>)"
        using assms(5,6) al(1-3) st unfolding do_page_fault_def Let_def pa pg_def [symmetric]
        by (simp add: get_page_reference_def used_def)
      have frame: "pmem s4 b = pmem s b"
        if b: "pg b \<noteq> ?pd" "pg b \<notin> avail_pages s" "pg b \<noteq> t \<or> 1 < ref_of s t" for b
      proof -
        have "pg b \<noteq> new" using b(2) al(4) by metis
        then show ?thesis using mem4 [OF b(1)] mem2 [of b] b(2,3) s2(3) ut(3) by simp
      qed
      have nt: "new \<noteq> t" "new \<noteq> ?pd" using al(4) a(2) a(3) [OF assms(3)] by blast+
      have cont: "pmem s4 (new + x) = pmem s (?f + x) \<and> pmsgs s4 (new + x) = pmsgs s (?f + x)"
        if x: "x < PG_SIZE" for x
      proof -
        have "pg (new + x) = new" using aligned_no_overlap(1) [OF al(5) x] .
        then show ?thesis
          using mem4 [of "new + x"] msg4 [of "new + x"] cont2 [OF x] nt s2(3) by simp
      qed
      have oth: "translate (pmem s4) pd' v = translate (pmem s) pd' v" if "other_space s ?pd t pd'" for pd' v
        by (rule other_space_unchanged [OF that frame])
      have fr: "pmem s4 b = pmem s b" if "pg b \<notin> avail_pages s \<union> {?pd, t}" for b using that frame by blast
      have "ref_of s4 ?f = ref_of s ?f - 1" using rf4 [OF s2(4) pg_pg assms(9)] s2(5) by simp
      then show ?thesis
        using e al(4) wf tr tr2 cont oth fr by (intro exI [of _ s4] exI [of _ new]) simp
    qed
  qed
qed

text \<open>
  The same fault when no page is free: the failed allocation gives page 0, which is overwritten with
  the contents of the shared page and mapped at the faulting address, writable and accessible to users.
\<close>

theorem fault_without_memory:
  assumes "ready n s" "aspace s (page_dir p)" "tab (pmem s) (page_dir p) (sf_trap_no (stack p)) = Some t"
    and "translate (pmem s) (page_dir p) (sf_trap_no (stack p)) = Some (pa, fl)"
    and "used s (pg pa)" "1 < ref_of s (pg pa)" "used s t" "ref_of s t = 1" "pg pa \<noteq> t"
    and "avail_pages s = {}" "page_dir p \<noteq> 0" "t \<noteq> 0"
  shows "\<exists>s'. do_page_fault s p = Inr (s', p\<lparr>status := clear_flag PROC_STATUS_ERROR (status p)\<rparr>) \<and>
    (\<forall>x < PG_SIZE. pmem s' x = pmem s (pg pa + x) \<and> pmsgs s' x = pmsgs s (pg pa + x)) \<and>
    (\<forall>v. pg v = pg (sf_trap_no (stack p)) \<longrightarrow> translate (pmem s') (page_dir p) v = Some (v AND 0xFFF, 7))"
proof -
  let ?pd = "page_dir p" and ?va = "sf_trap_no (stack p)" and ?f = "pg pa"
  note a = aspaceD [OF assms(2)]
  have gt: "pg t = t" using tab_aligned [OF assms(3)] .
  define s2 where "s2 = set_ref ?f (ref_of s ?f - 1) (copy_page 0 ?f s)"
  have mem2: "pmem s2 b = pmem s b" if "pg b \<noteq> 0" for b
    using that by (simp add: s2_def copy_page_other [of 0] pg_def)
  have tb: "tab (pmem s2) ?pd v = tab (pmem s) ?pd v" for v
    using assms(11) by (intro tab_cong [OF a(1)]) (auto intro: mem2)
  have sp: "aspace s2 ?pd" using tb by (intro aspace_less [OF assms(2)]) (auto simp: s2_def)
  have t2: "tab (pmem s2) ?pd ?va = Some t" using assms(3) by (simp add: tb)
  have "ref_of s2 t = 1" "used s2 t"
    using assms(7-9) id_inj [OF assms(1) gt pg_pg] by (auto simp: s2_def ref_of_set_ref)
  moreover have "pmem s2 (pde_addr ?pd ?va) AND NOT 0xFFF = t"
    using t2 by (auto simp: tab_def pg_def Let_def split: if_splits)
  ultimately have o: "own_table s2 ?pd ?va = Inr s2"
    by (simp add: own_table_def get_page_reference_def used_def)
  define s' where "s' = store (pte_in t ?va) (0 OR PG_Present OR 6) s2"
  have "decrease_page_ref (copy_page 0 ?f s) ?f = Inr (s2, ref_of s ?f - 1)"
    using assms(5) by (simp add: decrease_page_ref_def s2_def used_def)
  moreover have "alloc_page attr s = (s, 0)" for attr using alloc_page_cases [OF assms(1), of attr] assms(10) by simp
  ultimately have e: "do_page_fault s p = Inr (s', p\<lparr>status := clear_flag PROC_STATUS_ERROR (status p)\<rparr>)"
    using assms(5,6) o get_pte_tab [OF t2] unfolding do_page_fault_def Let_def translate_vir2phy [OF assms(4)] pg_def [symmetric]
    by (simp add: get_page_reference_def used_def s'_def)
  have "pmem s' x = pmem s (?f + x) \<and> pmsgs s' x = pmsgs s (?f + x)" if x: "x < PG_SIZE" for x
  proof -
    have "pg x = 0" using aligned_no_overlap(1) [of 0 x] x by (simp add: pg_def)
    then have "x \<noteq> pte_in t ?va" using pg_pte [OF gt] assms(12) by metis
    then show ?thesis using x copied_in [of 0 x ?f "pmem s"] copied_in [of 0 x ?f "pmsgs s"]
      by (simp add: s'_def s2_def copy_page_def pg_def)
  qed
  moreover have "translate (pmem s') ?pd v = Some (v AND 0xFFF, 7)" if "pg v = pg ?va" for v
    using translate_store_pte [OF sp t2, of "0 OR PG_Present OR 6" v] entry_bits [of 0 6] that
    unfolding s'_def by (simp add: pg_def)
  ultimately show ?thesis using e by blast
qed

section \<open>Example\<close>

text \<open>After a fork: one page and its table, both referred to twice, the rest of memory free.\<close>

definition demo_frame :: u32 where "demo_frame = 0x1F00000"
definition demo_table :: u32 where "demo_table = 0x1F01000"
definition demo_dir :: u32 where "demo_dir = 0x1F02000"

definition shared_words :: ptmem where
  "shared_words = (\<lambda>_. 0)(pde_addr demo_dir 0x1000 := demo_table OR PG_Present OR 6,
     pte_in demo_table 0x1000 := demo_frame OR PG_Present OR 4)"

definition shared_page :: pgs where
  "shared_page = \<lparr>pinfo = boot_mem\<lparr>pages_info := (pages_info boot_mem)
       (3840 := \<lparr>page_type = 0, reference = 2\<rparr>, 3841 := \<lparr>page_type = 0, reference = 2\<rparr>)\<rparr>,
     pmem = shared_words, pmsgs = (\<lambda>_. \<lparr>m_sender = 0, m_receiver = 0, m_ready = False, m_type = 0, m_major = 0,
       m_d1 = 0, m_d2 = 0, m_d3 = 0, m_d4 = 0\<rparr>)\<rparr>"

lemma shared_page_ready: "ready 3072 shared_page"
  using boot_mem_ok by (simp add: shared_page_def ready_def pages_info_upd pg_def)

lemma shared_page_used:
  "used shared_page demo_frame" "used shared_page demo_table" "used shared_page demo_dir"
  "ref_of shared_page demo_frame = 2" "ref_of shared_page demo_table = 2"
  using boot_mem_ok
  by (simp_all add: used_def has_info_def ref_of_def shared_page_def pages_info_upd GET_ID_BY_PAGE_def
      demo_frame_def demo_table_def demo_dir_def)

lemma demo_aligned: "pg demo_frame = demo_frame" "pg demo_table = demo_table" "pg demo_dir = demo_dir"
  by (simp_all add: pg_def demo_frame_def demo_table_def demo_dir_def)

lemma demo_apart: "demo_table \<noteq> demo_dir" "demo_frame \<noteq> demo_table"
  by (simp_all add: demo_frame_def demo_table_def demo_dir_def)

lemma shared_page_tab:
  "tab (pmem shared_page) demo_dir va = (if dir_index va = dir_index 0x1000 then Some demo_table else None)"
  using pde_ne_pte [OF demo_aligned(3,2) demo_apart(1), of va "0x1000"] entry_bits [OF demo_aligned(2), of 6]
  by (auto simp: tab_def shared_page_def shared_words_def pde_addr_inj Let_def pg_def)

lemma shared_page_translate: "translate (pmem shared_page) demo_dir 0x1000 = Some (demo_frame, 5)"
  using shared_page_tab [of "0x1000"] entry_bits [OF demo_aligned(1), of 4]
  by (simp add: translate_tab shared_page_def shared_words_def pg_def)

lemma shared_page_aspace: "aspace shared_page demo_dir"
  unfolding aspace_def
  using used_not_avail [OF shared_page_ready] shared_page_used demo_aligned demo_apart
  by (auto simp: shared_page_tab split: if_splits)

lemma shared_page_avail:
  "addr boot_mem 0 \<in> avail_pages shared_page" "addr boot_mem 1 \<in> avail_pages shared_page"
  "addr boot_mem 0 \<noteq> addr boot_mem 1"
  using boot_mem_ok addr_inj [OF inv_geometry [OF boot_mem_ok(2)], of 0 1]
  by (auto simp: avail_pages_def shared_page_def free_page_addrs_def pages_info_upd
      addr_cong [of "m\<lparr>pages_info := f\<rparr>" m for m f])

definition faulting :: process where
  "faulting = \<lparr>stack = \<lparr>sf_gs = 0, sf_fs = 0, sf_es = 0, sf_ds = 0, sf_edi = 0, sf_esi = 0, sf_ebp = 0,
       sf_oesp = 0, sf_ebx = 0, sf_edx = 0, sf_ecx = 0, sf_eax = 0, sf_trap_no = 0x1000, sf_err_code = 7,
       sf_eip = 0, sf_cs = 0, sf_eflags = 0, sf_esp = 0, sf_ss = 0\<rparr>,
     page_dir = demo_dir, status = PROC_STATUS_ERROR, pid = 5, parent_pid = 1, proc_name = replicate 16 0,
     pstack = 0, pstack_size = 0, exit_status = 0, p_msg = 0, queue_head = None, queue_body = None,
     next_proc = None, proc_prog = None\<rparr>"

theorem page_fault_copies_witness:
  "\<exists>s' new. do_page_fault shared_page faulting = Inr (s', faulting\<lparr>status := 0\<rparr>) \<and>
     new \<in> avail_pages shared_page \<and> translate (pmem s') demo_dir 0x1234 = Some (new + 0x234, 7) \<and>
     ref_of s' demo_frame = 1"
proof -
  have f: "sf_trap_no (stack faulting) = 0x1000" "page_dir faulting = demo_dir"
    "status faulting = PROC_STATUS_ERROR"
    by (simp_all add: faulting_def)
  note p = page_fault_copies [of 3072 shared_page faulting demo_table demo_frame 5, unfolded f, OF
      shared_page_ready shared_page_aspace _ shared_page_translate _ _ _ _ _ shared_page_avail]
  have t: "tab (pmem shared_page) demo_dir 0x1000 = Some demo_table" by (simp add: shared_page_tab)
  have "pg 0x1234 = pg (0x1000 :: u32)" by (simp add: pg_def)
  then show ?thesis
    using p [OF t] shared_page_used demo_aligned(1) demo_apart(2)
    by (auto simp: clear_flag_def)
qed

end
