(* ===== verification/Address_Space_Props.thy ===== *)
theory Address_Space_Props
  imports Page_Fault
begin

text \<open>
  Mapping pages extends the address space by the range it is asked for; moving the end of a
  program maps one page at most.
\<close>

text \<open>
  C8. Mapping a range of whole pages extends the address space: on success every address of the
  range that was not mapped is translated to its place in the physical range with the attributes
  asked for, and every other translation is as before. It fails only when a page table is needed
  and no page is left, and then changes nothing outside the range. The address space and the
  allocator stay well-formed.
\<close>

theorem map_pages_extends:
  assumes "ready n s" "aspace s pd" "pg va = va" "pg pa = pa" "0 < cnt" "unat va + 4096 * cnt < 2 ^ 32"
    and "unat sz = 4096 * cnt" "pg attr = 0" "\<forall>x. in_range va cnt x \<longrightarrow> \<not> large (pmem s) pd x"
  shows "\<exists>s' r. map_pages s pd va pa sz attr = Inr (s', r) \<and> ready n s' \<and> aspace s' pd \<and>
    (r = 0 \<or> r = -1 \<and> avail_pages s' = {}) \<and>
    (\<forall>x. \<not> in_range va cnt x \<longrightarrow> translate (pmem s') pd x = translate (pmem s) pd x) \<and>
    (r = 0 \<longrightarrow> (\<forall>x. in_range va cnt x \<longrightarrow> translate (pmem s') pd x =
       (case translate (pmem s) pd x of
          None \<Rightarrow> Some (pa + (x - va), (PG_Present OR attr) AND 0xFFF) | Some y \<Rightarrow> Some y)))"
  by (rule map_pages_correct [OF assms])

lemma demo_not_large: "\<not> large (pmem shared_page) demo_dir x"
proof -
  have "pmem shared_page (pde_addr demo_dir x) AND PG_PS = 0"
    using pde_ne_pte [OF demo_aligned(3,2) demo_apart(1), of x "0x1000"] entry_bits(2) [OF demo_aligned(2), of 6]
    by (auto simp: shared_page_def shared_words_def pde_addr_inj pg_def)
  then show ?thesis by (simp add: large_def)
qed

theorem map_pages_extends_witness:
  "\<exists>s' r. map_pages shared_page demo_dir 0x2000 0x8000 0x3000 6 = Inr (s', r) \<and> aspace s' demo_dir \<and>
     (r = 0 \<longrightarrow> translate (pmem s') demo_dir 0x2004 =
        (case translate (pmem shared_page) demo_dir 0x2004 of None \<Rightarrow> Some (0x8004, 7) | Some y \<Rightarrow> Some y))"
proof -
  have c: "pg 0x2000 = (0x2000 :: u32)" "pg 0x8000 = (0x8000 :: u32)" "pg 6 = (0 :: u32)"
    "in_range 0x2000 3 0x2004" "unat (0x2000 :: u32) + 4096 * 3 < 2 ^ 32" "unat (0x3000 :: u32) = 4096 * 3"
    by (simp_all add: pg_def in_range_def)
  have nl: "\<forall>x. in_range 0x2000 3 x \<longrightarrow> \<not> large (pmem shared_page) demo_dir x"
    using demo_not_large by blast
  obtain s' r where m: "map_pages shared_page demo_dir 0x2000 0x8000 0x3000 6 = Inr (s', r)" "aspace s' demo_dir"
    "r = 0 \<longrightarrow> (\<forall>x. in_range 0x2000 3 x \<longrightarrow> translate (pmem s') demo_dir x =
       (case translate (pmem shared_page) demo_dir x of
          None \<Rightarrow> Some (0x8000 + (x - 0x2000), (PG_Present OR 6) AND 0xFFF) | Some y \<Rightarrow> Some y))"
    using map_pages_extends [OF shared_page_ready shared_page_aspace c(1,2) zero_less_numeral c(5,6,3) nl] by blast
  have "r = 0 \<longrightarrow> translate (pmem s') demo_dir 0x2004 =
        (case translate (pmem shared_page) demo_dir 0x2004 of None \<Rightarrow> Some (0x8004, 7) | Some y \<Rightarrow> Some y)"
    using m(3) c(4) by (cases "translate (pmem shared_page) demo_dir 0x2004") simp_all
  then show ?thesis using m(1,2) by (intro exI [of _ s'] exI [of _ r]) simp
qed

section \<open>Moving the end of a program\<close>

lemma page_range: "pg va = va \<Longrightarrow> unat va + 4096 < 2 ^ 32 \<Longrightarrow> in_range va 1 x \<longleftrightarrow> pg x = va"
  using range_index(1) [of va 1 x] by auto

text \<open>
  Moving the end of a program up into another page maps a fresh page at the page of the new
  end, writable for the program, when it is not mapped yet and a page is left for a table, and
  returns the old end. No other page is mapped: after a growth over more than one page
  boundary the pages between the old and the new end stay as they were.
\<close>

theorem sbrk_maps_one_page:
  assumes "ready n s" "aspace s (page_dir p)" "proc_prog p = Some g"
    and "new = program_break g + inc" "pg (program_break g) < pg new"
    and "unat (pg new) + 4096 < 2 ^ 32" "\<not> large (pmem s) (page_dir p) (pg new)"
    and "pg new \<noteq> 0" "avail_pages s \<noteq> {}"
  shows "\<exists>s' pa. mem_sbrk s p inc = Inr (s', p\<lparr>proc_prog := Some (g\<lparr>program_break := new,
        program_size := program_size g + inc\<rparr>)\<rparr>, program_break g) \<and>
    ready n s' \<and> aspace s' (page_dir p) \<and> pa \<in> avail_pages s \<and>
    (\<forall>x. pg x \<noteq> pg new \<longrightarrow> translate (pmem s') (page_dir p) x = translate (pmem s) (page_dir p) x) \<and>
    (avail_pages s' \<noteq> {} \<longrightarrow> (\<forall>x. pg x = pg new \<longrightarrow> translate (pmem s') (page_dir p) x =
       (case translate (pmem s) (page_dir p) x of None \<Rightarrow> Some (pa + (x - pg new), 7) | Some y \<Rightarrow> Some y)))"
proof -
  let ?pd = "page_dir p" and ?attr = "PG_Writable OR PG_Present OR PG_User"
  obtain m pa where al: "alloc_page (PAGE_TYPE_USER OR PAGE_TYPE_INUSE) s = (s\<lparr>pinfo := m\<rparr>, pa)"
    "pa \<in> avail_pages s" "pg pa = pa" "ready n (s\<lparr>pinfo := m\<rparr>)"
    "avail_pages (s\<lparr>pinfo := m\<rparr>) = avail_pages s - {pa}"
    using alloc_page_some [OF assms(1,9), of "PAGE_TYPE_USER OR PAGE_TYPE_INUSE"] by metis
  define s1 where "s1 = s\<lparr>pinfo := m\<rparr>"
  have s1: "ready n s1" "pmem s1 = pmem s" "avail_pages s1 \<subseteq> avail_pages s"
    using al(4,5) by (auto simp: s1_def)
  have sp: "aspace s1 ?pd" by (rule aspace_less [OF assms(2)]) (use s1 in auto)
  note rg = page_range [OF pg_pg [of new] assms(6)]
  have nl: "\<forall>x. in_range (pg new) 1 x \<longrightarrow> \<not> large (pmem s1) ?pd x"
  proof (intro allI impI)
    fix x assume "in_range (pg new) 1 x"
    then have "pg x = pg (pg new)" using rg by simp
    then have "dir_index x = dir_index (pg new)" by (simp only: pg_index)
    then have "pde_addr ?pd x = pde_addr ?pd (pg new)" by (simp only: pde_addr_inj)
    then show "\<not> large (pmem s1) ?pd x" using assms(7) by (simp add: large_def s1(2))
  qed
  have "pg ?attr = 0" by (simp add: pg_def)
  from map_pages_correct [OF s1(1) sp pg_pg al(3) _ _ _ this nl, of PG_SIZE]
  obtain s' r where mp: "map_pages s1 ?pd (pg new) pa PG_SIZE ?attr = Inr (s', r)" "ready n s'" "aspace s' ?pd"
    "r = 0 \<or> r = -1 \<and> avail_pages s' = {}"
    "\<forall>x. \<not> in_range (pg new) 1 x \<longrightarrow> translate (pmem s') ?pd x = translate (pmem s1) ?pd x"
    "r = 0 \<longrightarrow> (\<forall>x. in_range (pg new) 1 x \<longrightarrow> translate (pmem s') ?pd x =
       (case translate (pmem s1) ?pd x of
          None \<Rightarrow> Some (pa + (x - pg new), (PG_Present OR ?attr) AND 0xFFF) | Some y \<Rightarrow> Some y))"
    using assms(6) by auto
  have fl: "(PG_Present OR ?attr) AND 0xFFF = 7" by simp
  have "inc \<noteq> 0" using assms(4,5) by auto
  moreover have "\<not> pg new < pg (program_break g)" "pg new \<noteq> pg (program_break g)"
    using assms(5) by auto
  ultimately have "mem_sbrk s p inc = Inr (s', p\<lparr>proc_prog := Some (g\<lparr>program_break := new,
        program_size := program_size g + inc\<rparr>)\<rparr>, program_break g)"
    using assms(3) al(1) mp(1) unfolding mem_sbrk_def pg_def [symmetric]
    by (simp add: Let_def assms(4) s1_def)
  then show ?thesis
    using mp(2-5) mp(6) [unfolded fl] al(2) s1(2) rg by (intro exI [of _ s'] exI [of _ pa]) auto
qed

definition demo_prog :: prog_info where
  "demo_prog = \<lparr>program_size = 0x800, program_break = 0x1800, image_start = 0x1000, break_page_end = 0\<rparr>"

theorem sbrk_maps_one_page_witness:
  "\<exists>s' p'. mem_sbrk shared_page (faulting\<lparr>proc_prog := Some demo_prog\<rparr>) 0x3000 = Inr (s', p', 0x1800) \<and>
     translate (pmem s') demo_dir 0x3000 = translate (pmem shared_page) demo_dir 0x3000"
proof -
  let ?p = "faulting\<lparr>proc_prog := Some demo_prog\<rparr>"
  have c: "pg 0x1800 = (0x1000 :: u32)" "pg 0x4800 = (0x4000 :: u32)" "pg 0x3000 = (0x3000 :: u32)"
    by (simp_all add: pg_def)
  have p: "page_dir ?p = demo_dir" "proc_prog ?p = Some demo_prog" "program_break demo_prog = 0x1800"
    by (simp_all add: faulting_def demo_prog_def)
  have "\<exists>s' pa. mem_sbrk shared_page ?p 0x3000 = Inr (s', ?p\<lparr>proc_prog := Some (demo_prog\<lparr>program_break := 0x4800,
        program_size := program_size demo_prog + 0x3000\<rparr>)\<rparr>, program_break demo_prog) \<and>
    ready 3072 s' \<and> aspace s' (page_dir ?p) \<and> pa \<in> avail_pages shared_page \<and>
    (\<forall>x. pg x \<noteq> pg 0x4800 \<longrightarrow> translate (pmem s') (page_dir ?p) x = translate (pmem shared_page) (page_dir ?p) x) \<and>
    (avail_pages s' \<noteq> {} \<longrightarrow> (\<forall>x. pg x = pg 0x4800 \<longrightarrow> translate (pmem s') (page_dir ?p) x =
       (case translate (pmem shared_page) (page_dir ?p) x of
          None \<Rightarrow> Some (pa + (x - pg 0x4800), 7) | Some y \<Rightarrow> Some y)))"
    by (rule sbrk_maps_one_page [OF shared_page_ready, where g = demo_prog])
      (use shared_page_aspace shared_page_avail demo_not_large p c in \<open>auto simp del: process.select_convs\<close>)
  then obtain s' pa where "mem_sbrk shared_page ?p 0x3000 = Inr (s', ?p\<lparr>proc_prog := Some (demo_prog\<lparr>program_break := 0x4800,
        program_size := program_size demo_prog + 0x3000\<rparr>)\<rparr>, program_break demo_prog)"
    "\<forall>x. pg x \<noteq> pg 0x4800 \<longrightarrow> translate (pmem s') (page_dir ?p) x = translate (pmem shared_page) (page_dir ?p) x"
    by blast
  then show ?thesis using p c by auto
qed

end
