(* ===== verification/Process_Memory.thy ===== *)
theory Process_Memory
  imports Paging Systask
begin

text \<open>
  The processes' side of the memory server: \<^verbatim>\<open>modules/memory/fork.c\<close> and
  \<^verbatim>\<open>modules/memory/exit.c\<close>.

  The server's state is the allocator and the system task's state, whose kernel holds the page
  tables and the messages. \<open>get_proc\<close> yields the address of a slot of the process table, here
  its index. Messages the server sends are collected in the order of the \<open>send_msg\<close> calls.
\<close>

record mm =
  mm_info :: memory_info
  mm_sys :: sys

definition kern :: "mm \<Rightarrow> kernel" where
  "kern s = sk (mm_sys s)"

definition upd_kern :: "(kernel \<Rightarrow> kernel) \<Rightarrow> mm \<Rightarrow> mm" where
  "upd_kern f s = s\<lparr>mm_sys := (mm_sys s)\<lparr>sk := f (kern s)\<rparr>\<rparr>"

definition pgs_of :: "mm \<Rightarrow> pgs" where
  "pgs_of s = \<lparr>pinfo = mm_info s, pmem = page_tables (kern s), pmsgs = msgs (kern s)\<rparr>"

definition put_pgs :: "pgs \<Rightarrow> mm \<Rightarrow> mm" where
  "put_pgs g s = upd_kern (\<lambda>k. k\<lparr>page_tables := pmem g, msgs := pmsgs g\<rparr>) (s\<lparr>mm_info := pinfo g\<rparr>)"

section \<open>Fork\<close>

text \<open>The directory entries from the table of \<open>a\<close> up to the one before \<open>b\<close>, or with it.\<close>

definition dirs_below :: "u32 \<Rightarrow> u32 \<Rightarrow> u32 list" where
  "dirs_below a b = map of_nat [unat (drop_bit 22 a)..<unat (drop_bit 22 b)]"

definition dirs_upto :: "u32 \<Rightarrow> u32 \<Rightarrow> u32 list" where
  "dirs_upto a b = map of_nat [unat (drop_bit 22 a)..<unat (drop_bit 22 b) + 1]"

fun share_tables :: "u32 \<Rightarrow> u32 \<Rightarrow> u32 list \<Rightarrow> pgs \<Rightarrow> pgs res" where
  "share_tables pg_dir parent_dir [] s = Inr s"
| "share_tables pg_dir parent_dir (i # is) s =
     (let pde = pmem s (parent_dir + 4 * i)
      in and_then (increase_page_ref (store (pg_dir + 4 * i) pde s) (pde AND NOT 0xFFF))
           (share_tables pg_dir parent_dir is))"

fun share_pages :: "u32 \<Rightarrow> u32 list \<Rightarrow> pgs \<Rightarrow> pgs res" where
  "share_pages pg_dir [] s = Inr s"
| "share_pages pg_dir (va # vas) s =
     (let pa = vir2phy (pmem s) pg_dir va
      in case get_pte (pmem s) pg_dir va of
           None \<Rightarrow> Inl NullDeref
         | Some pte \<Rightarrow>
             and_then (increase_page_ref (store pte (pmem s pte AND NOT PG_Writable) s) pa)
               (share_pages pg_dir vas))"

text \<open>The pages of the parent's message: a copy of the page and of its table for the child.\<close>

fun copy_msg_pages :: "u32 \<Rightarrow> u32 \<Rightarrow> u32 list \<Rightarrow> pgs \<Rightarrow> pgs res" where
  "copy_msg_pages pg_dir parent_dir [] s = Inr s"
| "copy_msg_pages pg_dir parent_dir (va # vas) s =
     (let old_pa = vir2phy (pmem s) parent_dir va;
          (s, new_pa) = alloc_page (PAGE_TYPE_INUSE OR PAGE_TYPE_USER) s;
          s = copy_page new_pa old_pa s
      in and_then (decrease_page_ref s old_pa) (\<lambda>(s, _).
           let old_pg_tab = pmem s (pde_addr pg_dir va) AND NOT 0xFFF
           in and_then (decrease_page_ref s old_pg_tab) (\<lambda>(s, _).
             let (s, pg_tab) = alloc_page (PAGE_TYPE_INUSE OR PAGE_TYPE_PGTBL) s;
                 s = copy_page pg_tab old_pg_tab s;
                 s = store (pde_addr pg_dir va) (pg_tab OR PG_Present OR PG_User OR PG_Writable) s
             in case get_pte (pmem s) pg_dir va of
                  None \<Rightarrow> Inl NullDeref
                | Some pte \<Rightarrow>
                    copy_msg_pages pg_dir parent_dir vas
                      (store pte (new_pa OR PG_Present OR PG_User OR PG_Writable) s))))"

abbreviation (input) SIZEOF_MESSAGE :: u32 where "SIZEOF_MESSAGE \<equiv> 32"

definition msg_pages :: "u32 \<Rightarrow> u32 list" where
  "msg_pages msg_va =
     (let msg_pgs = (if 0xFFF - (msg_va AND 0xFFF) < SIZEOF_MESSAGE then 2 else 1);
          va = PGROUNDDOWN msg_va
      in pages_upto va (PGROUNDDOWN (va + msg_pgs * PG_SIZE - 1)))"

text \<open>A directory that could not be allocated is not noticed: the copy is then made at address 0.\<close>

definition copy_parent :: "pgs \<Rightarrow> process \<Rightarrow> (pgs \<times> u32) res" where
  "copy_parent s parent =
     (let pdir = page_dir parent; start = pstack parent; stop = pstack parent + pstack_size parent
      in and_then (create_page_dir s PG_Writable) (\<lambda>(s, pg_dir).
         and_then (share_tables pg_dir pdir (dirs_below start stop) s) (\<lambda>s.
         and_then (share_pages pg_dir (pages_below (PGROUNDDOWN start) (PGROUNDUP stop)) s) (\<lambda>s.
         and_then (case proc_prog parent of
                     None \<Rightarrow> Inr s
                   | Some prog \<Rightarrow>
                       and_then (share_tables pg_dir pdir
                                   (dirs_upto (image_start prog) (program_break prog)) s)
                         (share_pages pg_dir (pages_below (PGROUNDDOWN (image_start prog))
                                                          (PGROUNDUP (program_break prog))))) (\<lambda>s.
         if p_msg parent = 0 then Inr (s, pg_dir)
         else and_then (copy_msg_pages pg_dir pdir (msg_pages (p_msg parent)) s) (\<lambda>s. Inr (s, pg_dir)))))))"

text \<open>The index of the slot at an address of the process table.\<close>

definition slot_of :: "sys \<Rightarrow> u32 \<Rightarrow> nat" where
  "slot_of s a = unat ((a - env_proc_table (senv s)) div SIZEOF_PROCESS)"

text \<open>The slots of the parent and the child, and the child's pid, which is 0 when there is no slot.\<close>

definition fork_proc :: "mm \<Rightarrow> u32 \<Rightarrow> (mm \<times> u32 \<times> nat \<times> nat) res" where
  "fork_proc s p =
     (let par = unat p in
      if proc_max (kern s) \<le> par then Inl OutOfBounds
      else
        (let s = upd_kern (upd_status par (set_flag PROC_STATUS_STOP)) s
         in and_then (alloc_proc (mm_sys s)) (\<lambda>(sy, a).
              let s = s\<lparr>mm_sys := sy\<rparr>; chi = slot_of sy a; parent = proc_table (kern s) par
              in if a = 0 then Inr (s, 0, par, par)
                 else
                   (let s = upd_kern (upd_proc chi (\<lambda>c. c\<lparr>parent_pid := p, stack := stack parent,
                              pstack := pstack parent, pstack_size := pstack_size parent,
                              queue_body := None, queue_head := None, p_msg := p_msg parent\<rparr>)) s
                    in and_then (copy_parent (pgs_of s) parent) (\<lambda>(g, pg_dir).
                         case proc_prog parent of
                           None \<Rightarrow> Inl NullDeref
                         | Some prog \<Rightarrow>
                             (let s = upd_kern (upd_proc chi (\<lambda>c. c\<lparr>page_dir := pg_dir, proc_prog := Some prog,
                                        status := status parent\<rparr>)) (put_pgs g s)
                              in Inr (s, pid (proc_table (kern s) chi), par, chi)))))))"

section \<open>Exit and wait\<close>

definition set_proc_exit :: "nat \<Rightarrow> u32 \<Rightarrow> kernel \<Rightarrow> kernel" where
  "set_proc_exit i st = upd_proc i (\<lambda>p. p\<lparr>exit_status := st, status := PROC_STATUS_HANGING OR PROC_STATUS_STOP\<rparr>)"

fun release_pages :: "u32 \<Rightarrow> u32 list \<Rightarrow> pgs \<Rightarrow> pgs res" where
  "release_pages pd [] s = Inr s"
| "release_pages pd (va # vas) s =
     (let pa = vir2phy (pmem s) pd va
      in and_then (decrease_page_ref s pa) (\<lambda>(s, refs).
           and_then (if refs = 0 then free_page pa s else Inr s) (release_pages pd vas)))"

fun release_tables :: "u32 \<Rightarrow> u32 list \<Rightarrow> pgs \<Rightarrow> pgs res" where
  "release_tables pd [] s = Inr s"
| "release_tables pd (i # is) s =
     (let tab = pmem s (pd + 4 * i) AND NOT 0xFFF
      in and_then (decrease_page_ref s tab) (\<lambda>(s, refs).
           and_then (if refs = 0 then free_page tab s else Inr s) (\<lambda>s.
             release_tables pd is (store (pd + 4 * i) 0 s))))"

definition free_proc :: "pgs \<Rightarrow> process \<Rightarrow> (pgs \<times> process) res" where
  "free_proc s p =
     (let pd = page_dir p; start = pstack p; stop = pstack p + pstack_size p
      in and_then (release_pages pd (pages_below (PGROUNDDOWN start) (PGROUNDUP stop)) s) (\<lambda>s.
         and_then (release_tables pd (dirs_below start stop) s) (\<lambda>s.
         and_then (case proc_prog p of
                     None \<Rightarrow> Inr s
                   | Some prog \<Rightarrow>
                       and_then (release_pages pd (pages_below (PGROUNDDOWN (image_start prog))
                                                               (PGROUNDUP (program_break prog))) s)
                         (release_tables pd (dirs_below (image_start prog) (program_break prog)))) (\<lambda>s.
         and_then (free_page pd s) (\<lambda>s.
           Inr (s, p\<lparr>pstack_size := 0, pstack := 0, proc_prog := None\<rparr>))))))"

definition exit_msg :: "process \<Rightarrow> message" where
  "exit_msg p = \<lparr>m_sender = 0, m_receiver = parent_pid p, m_ready = False, m_type = 0x12344321,
     m_major = exit_status p, m_d1 = pid p, m_d2 = 0, m_d3 = 0, m_d4 = 0\<rparr>"

definition send_exit_to_parent :: "u32 \<Rightarrow> sys \<Rightarrow> nat \<Rightarrow> (sys \<times> message) res" where
  "send_exit_to_parent vend s i =
     (let p = proc_table (sk s) i in and_then (exit_proc vend s (pid p)) (\<lambda>s. Inr (s, exit_msg p)))"

definition upd_slot :: "nat \<Rightarrow> (process \<Rightarrow> process) \<Rightarrow> sys \<Rightarrow> sys" where
  "upd_slot i f s = s\<lparr>sk := upd_proc i f (sk s)\<rparr>"

definition flag_slot :: "(u32 \<Rightarrow> u32) \<Rightarrow> process \<Rightarrow> process" where
  "flag_slot f p = p\<lparr>status := f (status p)\<rparr>"

text \<open>
  The loop that hands the children of the exiting process \<open>i\<close> to the process with pid 1. The
  link to the next process is read after the body, when the slot may have been cleared.
\<close>

partial_function (option) adopt_orphans :: "u32 \<Rightarrow> sys \<Rightarrow> nat option \<Rightarrow> message list \<Rightarrow> nat \<Rightarrow>
    (sys \<times> message list) res option" where
  "adopt_orphans vend s p out i =
     (case p of
        None \<Rightarrow> Some (Inr (s, out))
      | Some q \<Rightarrow>
          if parent_pid (proc_table (sk s) q) = pid (proc_table (sk s) i)
          then (let s = upd_slot q (\<lambda>c. c\<lparr>parent_pid := 1\<rparr>) s
                in if has (status (proc_table (sk s) q)) PROC_STATUS_HANGING
                      \<and> has (status (proc_table (sk s) 1)) PROC_STATUS_WATING
                   then (case send_exit_to_parent vend
                                (upd_slot 1 (flag_slot (clear_flag PROC_STATUS_WATING)) s) q of
                           Inl e \<Rightarrow> Some (Inl e)
                         | Inr (s, m) \<Rightarrow> adopt_orphans vend s (nexts (sk s) q) (out @ [m]) i)
                   else adopt_orphans vend s (nexts (sk s) q) out i)
          else adopt_orphans vend s (nexts (sk s) q) out i)"

definition mem_exit_proc :: "u32 \<Rightarrow> sys \<Rightarrow> nat \<Rightarrow> (sys \<times> message list) res option" where
  "mem_exit_proc vend s i =
     (let par = unat (parent_pid (proc_table (sk s) i))
      in if proc_max (sk s) \<le> par then Some (Inl OutOfBounds)
         else case (if has (status (proc_table (sk s) par)) PROC_STATUS_WATING
                    then and_then (send_exit_to_parent vend
                                     (upd_slot par (flag_slot (clear_flag PROC_STATUS_WATING)) s) i)
                           (\<lambda>(s, m). Inr (s, [m]))
                    else Inr (upd_slot i (flag_slot (set_flag PROC_STATUS_HANGING)) s, [])) of
                Inl e \<Rightarrow> Some (Inl e)
              | Inr (s, out) \<Rightarrow> adopt_orphans vend s (proc_list (sk s)) out i)"

text \<open>The first child that hangs, and the number of children seen up to it.\<close>

partial_function (option) find_hanging :: "kernel \<Rightarrow> nat option \<Rightarrow> u32 \<Rightarrow> nat \<Rightarrow> (nat \<times> nat option) option" where
  "find_hanging k p parent children =
     (case p of
        None \<Rightarrow> Some (children, None)
      | Some q \<Rightarrow>
          if parent_pid (proc_table k q) = parent
          then if has (status (proc_table k q)) PROC_STATUS_HANGING then Some (children + 1, Some q)
               else find_hanging k (nexts k q) parent (children + 1)
          else find_hanging k (nexts k q) parent children)"

definition no_child_msg :: "u32 \<Rightarrow> message" where
  "no_child_msg parent = \<lparr>m_sender = 0, m_receiver = parent, m_ready = False, m_type = 0x43211234,
     m_major = 1, m_d1 = 0, m_d2 = 0, m_d3 = 0, m_d4 = 0\<rparr>"

definition wait_proc :: "u32 \<Rightarrow> sys \<Rightarrow> u32 \<Rightarrow> (sys \<times> message list) res option" where
  "wait_proc vend s parent =
     (case find_hanging (sk s) (proc_list (sk s)) parent 0 of
        None \<Rightarrow> None
      | Some (children, Some q) \<Rightarrow>
          Some (and_then (send_exit_to_parent vend s q) (\<lambda>(s, m). Inr (s, [m])))
      | Some (children, None) \<Rightarrow>
          if 0 < children
          then Some (Inr (upd_slot (unat parent) (flag_slot (set_flag PROC_STATUS_WATING)) s, []))
          else Some (Inr (s, [no_child_msg parent])))"

end
