(* ===== verification/Exit_Props.thy ===== *)
theory Exit_Props
  imports Process_Memory Systask_Props
begin

text \<open>
  The exit of a process and its parent's wait: when the parent waits later, it gets the status of
  the child then; when it waited first, it gets it at once, but the children of the process that
  exits are not handed to the initial process.
\<close>

section \<open>Lemmas\<close>

text \<open>What the loop over the process table does when no orphan is ready to be buried.\<close>

definition adopted :: "u32 \<Rightarrow> nat set \<Rightarrow> sys \<Rightarrow> sys" where
  "adopted old qs s = s\<lparr>sk := (sk s)\<lparr>proc_table := (\<lambda>q. if q \<in> qs \<and> parent_pid (proc_table (sk s) q) = old
     then (proc_table (sk s) q)\<lparr>parent_pid := 1\<rparr> else proc_table (sk s) q)\<rparr>\<rparr>"

definition quiet :: "sys \<Rightarrow> u32 \<Rightarrow> nat set \<Rightarrow> bool" where
  "quiet s old qs \<longleftrightarrow> (\<forall>q \<in> qs. parent_pid (proc_table (sk s) q) = old \<longrightarrow>
     \<not> (has (status (proc_table (sk s) q)) PROC_STATUS_HANGING \<and>
        has (status (proc_table (sk s) 1)) PROC_STATUS_WATING))"

lemma upd_slot_simps [simp]:
  "sk (upd_slot i f s) = upd_proc i f (sk s)" "senv (upd_slot i f s) = senv s" "smem (upd_slot i f s) = smem s"
  by (simp_all add: upd_slot_def)

lemma adopted_empty [simp]: "adopted old {} s = s"
  by (simp add: adopted_def)

lemma adopted_step:
  assumes "q \<notin> qs" "parent_pid (proc_table (sk s) q) = old"
  shows "adopted old qs (upd_slot q (\<lambda>c. c\<lparr>parent_pid := 1\<rparr>) s) = adopted old (insert q qs) s"
proof -
  let ?s = "upd_slot q (\<lambda>c. c\<lparr>parent_pid := 1\<rparr>) s"
  have "(if j \<in> qs \<and> parent_pid (proc_table (sk ?s) j) = old
         then (proc_table (sk ?s) j)\<lparr>parent_pid := 1\<rparr> else proc_table (sk ?s) j) =
      (if j \<in> insert q qs \<and> parent_pid (proc_table (sk s) j) = old
         then (proc_table (sk s) j)\<lparr>parent_pid := 1\<rparr> else proc_table (sk s) j)" for j
    using assms by auto
  then show ?thesis unfolding adopted_def by (simp add: upd_slot_def upd_proc_def)
qed

text \<open>The loop over a part of the list in which no orphan is ready to be buried.\<close>

lemma adopt_orphans_prefix:
  "chain nx p (xs @ zs) \<Longrightarrow> distinct xs \<Longrightarrow> nexts (sk s) = nx \<Longrightarrow> pid (proc_table (sk s) i) = old \<Longrightarrow>
   quiet s old (set xs) \<Longrightarrow>
   \<exists>p'. chain nx p' zs \<and> adopt_orphans vend s p out i = adopt_orphans vend (adopted old (set xs) s) p' out i"
proof (induction xs arbitrary: p s)
  case Nil
  then show ?case by auto
next
  case (Cons q qs)
  have p: "p = Some q" "chain nx (nx q) (qs @ zs)" "q \<notin> set qs" "distinct qs" using Cons.prems(1,2) by simp_all
  show ?case
  proof (cases "parent_pid (proc_table (sk s) q) = old")
    case True
    define s' where "s' = upd_slot q (\<lambda>c. c\<lparr>parent_pid := 1\<rparr>) s"
    have nx: "nexts (sk s') = nx"
      using Cons.prems(3) by (auto simp: s'_def nexts_def)
    have st: "status (proc_table (sk s') j) = status (proc_table (sk s) j)"
      "pid (proc_table (sk s') j) = pid (proc_table (sk s) j)" for j
      by (simp_all add: s'_def)
    have "\<not> (has (status (proc_table (sk s) q)) PROC_STATUS_HANGING \<and>
        has (status (proc_table (sk s) 1)) PROC_STATUS_WATING)"
      using Cons.prems(5) True by (simp add: quiet_def)
    then have "adopt_orphans vend s p out i = adopt_orphans vend s' (nx q) out i"
      using Cons.prems(4) True st nx
      by (auto simp: p(1) adopt_orphans.simps [of vend s "Some q"] s'_def [symmetric] Let_def)
    moreover have q': "quiet s' old (set qs)"
      using Cons.prems(5) p(3) unfolding quiet_def st
      by (auto simp: s'_def)
    moreover have "adopted old (set qs) s' = adopted old (set (q # qs)) s"
      unfolding s'_def using adopted_step [OF p(3) True] by simp
    ultimately show ?thesis
      using Cons.IH [OF p(2,4) nx _ q'] Cons.prems(4) st(2) by simp
  next
    case False
    then have "adopt_orphans vend s p out i = adopt_orphans vend s (nx q) out i"
      using Cons.prems(3,4) by (simp add: p(1) adopt_orphans.simps [of vend s "Some q"])
    moreover have "quiet s old (set qs)" using Cons.prems(5) by (simp add: quiet_def)
    moreover have "adopted old (set qs) s = adopted old (set (q # qs)) s"
      using False by (auto simp: adopted_def fun_eq_iff)
    ultimately show ?thesis using Cons.IH [OF p(2,4) Cons.prems(3,4)] by simp
  qed
qed

lemma adopt_orphans_quiet:
  assumes "chain nx p qs" "distinct qs" "nexts (sk s) = nx" "pid (proc_table (sk s) i) = old" "quiet s old (set qs)"
  shows "adopt_orphans vend s p out i = Some (Inr (adopted old (set qs) s, out))"
  using adopt_orphans_prefix [of nx p qs "[]" s i old vend out] assms
  by (auto simp: adopt_orphans.simps [of vend _ None])

lemma find_hanging_chain:
  assumes "chain (nexts k) p (xs @ q # ys)"
    and "\<forall>x \<in> set xs. \<not> (parent_pid (proc_table k x) = parent \<and> has (status (proc_table k x)) PROC_STATUS_HANGING)"
    and "parent_pid (proc_table k q) = parent" "has (status (proc_table k q)) PROC_STATUS_HANGING"
  shows "\<exists>c. find_hanging k p parent n = Some (c, Some q)"
  using assms(1,2)
proof (induction xs arbitrary: p n)
  case Nil
  then show ?case using assms(3,4) by (simp add: find_hanging.simps [of k "Some q"])
next
  case (Cons x xs)
  have p: "p = Some x" "chain (nexts k) (nexts k x) (xs @ q # ys)" using Cons.prems(1) by simp_all
  then show ?case
    using Cons.IH [OF p(2), of n] Cons.IH [OF p(2), of "n + 1"] Cons.prems(2)
    by (auto simp: find_hanging.simps [of k "Some x"])
qed

lemma exit_msg_status: "exit_msg (p\<lparr>status := x\<rparr>) = exit_msg p"
  by (simp add: exit_msg_def)

text \<open>Changing status words keeps the list and the stacks.\<close>

lemma procs_upd_slot: "procs (upd_proc j (flag_slot f) k) ps = procs k ps"
proof -
  have "nexts (upd_proc j (flag_slot f) k) = nexts k" by (auto simp: nexts_def flag_slot_def)
  then show ?thesis by (simp add: procs_def)
qed

lemma stack_freed_cong:
  "pstack (proc_table (sk s') i) = pstack (proc_table (sk s) i) \<Longrightarrow> senv s' = senv s \<Longrightarrow> smem s' = smem s \<Longrightarrow>
   stack_freed vend s' i = stack_freed vend s i"
  by (simp add: stack_freed_def Let_def)

lemma procs_adopted: "procs (sk (adopted old qs s)) ps = procs (sk s) ps"
proof -
  have "nexts (sk (adopted old qs s)) = nexts (sk s)" by (auto simp: nexts_def adopted_def)
  then show ?thesis by (simp add: procs_def adopted_def)
qed

section \<open>Properties\<close>

definition par_of :: "sys \<Rightarrow> nat \<Rightarrow> nat" where
  "par_of s i = unat (parent_pid (proc_table (sk s) i))"

text \<open>
  C33. Exit before wait: a process that exits while its parent does not wait stays in the table as
  a hanging process and its children get the initial process as their parent; when the parent
  waits, it is sent the exit status and the pid of its first hanging child, which is taken out of
  the process list. The process is meant to be that first hanging child, is neither the first of the list
  nor its own parent, its kernel stack page can be freed, and none of its children is hanging already while the initial process waits: what happens to the children
  in that case is \<open>exit_buries_one_orphan\<close>. Where the parent is the initial process, the children
  it inherits by the exit count as its own.
\<close>

theorem exit_then_wait:
  assumes "procs (sk s) (xs @ i # ys)" "xs \<noteq> []" "unat (pid (proc_table (sk s) i)) = i"
    and "stack_freed vend s i = Inr mem" "par_of s i < proc_max (sk s)"
    and "\<not> has (status (proc_table (sk s) (par_of s i))) PROC_STATUS_WATING"
    and "parent_pid (proc_table (sk s) i) \<noteq> pid (proc_table (sk s) i)"
    and "quiet s (pid (proc_table (sk s) i)) (set (xs @ i # ys))"
    and "\<forall>x \<in> set xs. parent_pid (proc_table (sk s) x) = parent_pid (proc_table (sk s) i) \<or>
        parent_pid (proc_table (sk s) x) = pid (proc_table (sk s) i) \<and> parent_pid (proc_table (sk s) i) = 1 \<longrightarrow>
      \<not> has (status (proc_table (sk s) x)) PROC_STATUS_HANGING"
  shows "\<exists>s' s''. mem_exit_proc vend s i = Some (Inr (s', [])) \<and> procs (sk s') (xs @ i # ys) \<and>
    (\<forall>q \<in> set (xs @ i # ys). parent_pid (proc_table (sk s') q) =
       (if parent_pid (proc_table (sk s) q) = pid (proc_table (sk s) i) then 1 else parent_pid (proc_table (sk s) q))) \<and>
    wait_proc vend s' (parent_pid (proc_table (sk s) i)) =
      Some (Inr (s'', [exit_msg (proc_table (sk s) i)])) \<and> procs (sk s'') (xs @ ys)"
proof -
  let ?p = "proc_table (sk s) i"
  define s1 where "s1 = upd_slot i (flag_slot (set_flag PROC_STATUS_HANGING)) s"
  define s' where "s' = adopted (pid ?p) (set (xs @ i # ys)) s1"
  have c: "chain (nexts (sk s)) (proc_list (sk s)) (xs @ i # ys)" "distinct (xs @ i # ys)"
    using assms(1) by (simp_all add: procs_def)
  have t1: "proc_table (sk s1) j = (if j = i then ?p\<lparr>status := set_flag PROC_STATUS_HANGING (status ?p)\<rparr>
      else proc_table (sk s) j)" for j
    by (simp add: s1_def flag_slot_def)
  have nx1: "nexts (sk s1) = nexts (sk s)" by (auto simp: nexts_def t1)
  have q1: "quiet s1 (pid ?p) (set (xs @ i # ys))"
    using assms(7,8) unfolding quiet_def t1 by (auto split: if_splits)
  have "adopt_orphans vend s1 (proc_list (sk s1)) [] i = Some (Inr (s', []))"
    unfolding s'_def using c nx1 q1
    by (intro adopt_orphans_quiet [of "nexts (sk s)"]) (simp_all add: s1_def flag_slot_def)
  then have e: "mem_exit_proc vend s i = Some (Inr (s', []))"
    using assms(5,6) by (simp add: mem_exit_proc_def par_of_def s1_def Let_def)
  have t': "proc_table (sk s') j = (if j \<in> set (xs @ i # ys) \<and> parent_pid (proc_table (sk s1) j) = pid ?p
      then (proc_table (sk s1) j)\<lparr>parent_pid := 1\<rparr> else proc_table (sk s1) j)" for j
    by (simp add: s'_def adopted_def)
  have i': "proc_table (sk s') i = ?p\<lparr>status := set_flag PROC_STATUS_HANGING (status ?p)\<rparr>"
    using assms(7) by (simp add: t' t1)
  have p': "procs (sk s') (xs @ i # ys)"
    using assms(1) by (simp add: s'_def procs_adopted s1_def procs_upd_slot)
  have "\<exists>c. find_hanging (sk s') (proc_list (sk s')) (parent_pid ?p) 0 = Some (c, Some i)"
  proof (rule find_hanging_chain)
    show "chain (nexts (sk s')) (proc_list (sk s')) (xs @ i # ys)" using p' by (simp add: procs_def)
    show "\<forall>x \<in> set xs. \<not> (parent_pid (proc_table (sk s') x) = parent_pid ?p \<and>
        has (status (proc_table (sk s') x)) PROC_STATUS_HANGING)"
      using assms(9) c(2) by (auto simp: t' t1)
  qed (simp_all add: i')
  moreover obtain s'' where ex: "exit_proc vend s' (pid ?p) = Inr s''" "procs (sk s'') (xs @ ys)"
  proof -
    have "stack_freed vend s' i = stack_freed vend s i"
      by (rule stack_freed_cong) (simp_all add: i' s'_def adopted_def s1_def flag_slot_def)
    then show thesis
      using exit_proc_ok [of s' xs "pid ?p" ys vend mem] p' assms(2-4) that by auto
  qed
  ultimately have "wait_proc vend s' (parent_pid ?p) = Some (Inr (s'', [exit_msg ?p]))"
    by (auto simp: wait_proc_def send_exit_to_parent_def i' exit_msg_status)
  then show ?thesis using e p' ex(2) by (intro exI [of _ s'] exI [of _ s'']) (auto simp: t' t1)
qed

text \<open>
  C34. A process exits while its parent does not wait, but the initial process does, and the process has
  children that hang already, the first of them in the list \<open>q\<close>, which is neither the head of the list nor
  the initial process and whose kernel stack page can be freed. The initial process is woken and
  sent the status of \<open>q\<close>, which is taken out of the list; but the loop over the children then
  takes its next process from the cleared slot of \<open>q\<close> and ends: the children behind \<open>q\<close> keep the
  process that exits as their parent.
\<close>

theorem exit_buries_one_orphan:
  assumes "procs (sk s) (xs @ q # ys)" "xs \<noteq> []" "unat (pid (proc_table (sk s) q)) = q"
    and "stack_freed vend s q = Inr mem" "par_of s i < proc_max (sk s)" "q \<noteq> i" "q \<noteq> 1"
    and "\<not> has (status (proc_table (sk s) (par_of s i))) PROC_STATUS_WATING"
    and "has (status (proc_table (sk s) 1)) PROC_STATUS_WATING"
    and "parent_pid (proc_table (sk s) i) \<noteq> pid (proc_table (sk s) i)"
    and "parent_pid (proc_table (sk s) q) = pid (proc_table (sk s) i)"
    and "has (status (proc_table (sk s) q)) PROC_STATUS_HANGING"
    and "\<forall>x \<in> set xs. parent_pid (proc_table (sk s) x) = pid (proc_table (sk s) i) \<longrightarrow>
      \<not> has (status (proc_table (sk s) x)) PROC_STATUS_HANGING"
  shows "\<exists>s'. mem_exit_proc vend s i = Some (Inr (s', [(exit_msg (proc_table (sk s) q))\<lparr>m_receiver := 1\<rparr>])) \<and>
    procs (sk s') (xs @ ys) \<and> \<not> has (status (proc_table (sk s') 1)) PROC_STATUS_WATING \<and>
    (\<forall>x \<in> set xs. parent_pid (proc_table (sk s') x) =
       (if parent_pid (proc_table (sk s) x) = pid (proc_table (sk s) i) then 1 else parent_pid (proc_table (sk s) x))) \<and>
    (\<forall>y \<in> set ys. parent_pid (proc_table (sk s') y) = parent_pid (proc_table (sk s) y))"
proof -
  let ?p = "proc_table (sk s) i" and ?q = "proc_table (sk s) q"
  define s1 where "s1 = upd_slot i (flag_slot (set_flag PROC_STATUS_HANGING)) s"
  define s2 where "s2 = adopted (pid ?p) (set xs) s1"
  define s3 where "s3 = upd_slot 1 (flag_slot (clear_flag PROC_STATUS_WATING)) (upd_slot q (\<lambda>c. c\<lparr>parent_pid := 1\<rparr>) s2)"
  have c: "chain (nexts (sk s)) (proc_list (sk s)) (xs @ q # ys)" "distinct (xs @ q # ys)"
    using assms(1) by (simp_all add: procs_def)
  have t1: "proc_table (sk s1) j = (if j = i then ?p\<lparr>status := set_flag PROC_STATUS_HANGING (status ?p)\<rparr>
      else proc_table (sk s) j)" for j
    by (simp add: s1_def flag_slot_def)
  have t2: "proc_table (sk s2) j = (if j \<in> set xs \<and> parent_pid (proc_table (sk s) j) = pid ?p
      then (proc_table (sk s1) j)\<lparr>parent_pid := 1\<rparr> else proc_table (sk s1) j)" for j
    by (simp add: s2_def adopted_def t1)
  have w: "has (status (proc_table (sk s2) 1)) PROC_STATUS_WATING"
    using assms(9) by (auto simp: t2 t1)
  have nx1: "nexts (sk s1) = nexts (sk s)" by (auto simp: nexts_def t1)
  have q1: "quiet s1 (pid ?p) (set xs)"
    using assms(10,13) unfolding quiet_def t1 by (auto split: if_splits)
  have "\<exists>p'. chain (nexts (sk s)) p' (q # ys) \<and> adopt_orphans vend s1 (proc_list (sk s1)) [] i =
      adopt_orphans vend s2 p' [] i"
    unfolding s2_def using c nx1 q1
    by (intro adopt_orphans_prefix) (simp_all add: s1_def flag_slot_def)
  then have a: "adopt_orphans vend s1 (proc_list (sk s1)) [] i = adopt_orphans vend s2 (Some q) [] i" by auto
  have t3: "proc_table (sk s3) j = (if j = 1 then flag_slot (clear_flag PROC_STATUS_WATING) (proc_table (sk s2) 1)
      else if j = q then ?q\<lparr>parent_pid := 1\<rparr> else proc_table (sk s2) j)" for j
    using assms(6,7) c(2) by (simp add: s3_def t2 t1)
  have "nexts (sk s3) = nexts (sk s)" by (auto simp: nexts_def t3 t2 t1 flag_slot_def)
  then have p3: "procs (sk s3) (xs @ q # ys)"
    using assms(1) by (simp add: procs_def s3_def s2_def s1_def adopted_def)
  have q3: "proc_table (sk s3) q = ?q\<lparr>parent_pid := 1\<rparr>" using assms(7) by (simp add: t3)
  have "stack_freed vend s3 q = stack_freed vend s q"
    by (rule stack_freed_cong) (simp_all add: q3, simp_all add: s3_def s2_def s1_def adopted_def)
  then obtain s4 where s4: "exit_proc vend s3 (pid ?q) = Inr s4" "procs (sk s4) (xs @ ys)" "gone s3 (pid ?q) s4"
    using exit_proc_ok [of s3 xs "pid ?q" ys vend mem] p3 assms(2-4) by auto
  have z: "proc_table (sk s4) q = zero_process" using s4(3) assms(3) by (simp add: gone_def)
  have t4: "proc_table (sk s4) j = (proc_table (sk s3) j)\<lparr>next_proc := nexts (sk s4) j\<rparr>" if "j \<noteq> q" for j
    using s4(3) assms(3) that unfolding gone_def by metis
  have "send_exit_to_parent vend s3 q = Inr (s4, (exit_msg ?q)\<lparr>m_receiver := 1\<rparr>)"
    using s4(1) by (simp add: send_exit_to_parent_def q3 exit_msg_def)
  moreover have "nexts (sk s4) q = None" using z by (simp add: nexts_def zero_process_def)
  moreover have "pid (proc_table (sk s2) i) = pid ?p" "parent_pid (proc_table (sk s2) q) = pid ?p"
    "has (status (proc_table (sk s2) q)) PROC_STATUS_HANGING"
    using assms(6,11,12) c(2) by (simp_all add: t2 t1)
  ultimately have "adopt_orphans vend s2 (Some q) [] i = Some (Inr (s4, [(exit_msg ?q)\<lparr>m_receiver := 1\<rparr>]))"
    using w assms(7) by (simp add: adopt_orphans.simps [of vend s2 "Some q"] adopt_orphans.simps [of vend _ None] s3_def Let_def)
  then have "mem_exit_proc vend s i = Some (Inr (s4, [(exit_msg ?q)\<lparr>m_receiver := 1\<rparr>]))"
    using assms(5,8) a by (simp add: mem_exit_proc_def par_of_def s1_def Let_def)
  moreover have "\<not> has (status (proc_table (sk s4) 1)) PROC_STATUS_WATING"
    using t4 [of 1] assms(7) by (simp add: t3 flag_slot_def)
  moreover have par: "parent_pid (proc_table (sk s4) j) =
      (if j \<in> set xs \<and> parent_pid (proc_table (sk s) j) = pid ?p then 1 else parent_pid (proc_table (sk s) j))"
    if "j \<noteq> q" for j
  proof -
    have "parent_pid (proc_table (sk s4) j) = parent_pid (proc_table (sk s3) j)"
      using arg_cong [OF t4 [OF that], of parent_pid] by simp
    also have "\<dots> = parent_pid (proc_table (sk s2) j)" using that by (simp add: t3 flag_slot_def)
    finally show ?thesis by (simp add: t2 t1)
  qed
  moreover have "\<forall>x \<in> set xs. x \<noteq> q" "\<forall>y \<in> set ys. y \<noteq> q \<and> y \<notin> set xs" using c(2) by auto
  ultimately show ?thesis using s4(2) by (intro exI [of _ s4]) simp
qed

text \<open>
  Wait before exit: the waiting parent is sent the status at once and the process is taken
  out of the list, but the loop over the children then compares with the cleared slot. The
  children of the process keep their parent, whose pid will be reused, and every process whose
  parent is the kernel is handed to the initial process instead.
\<close>

theorem exit_of_awaited_child:
  assumes "procs (sk s) (xs @ i # ys)" "xs \<noteq> []" "unat (pid (proc_table (sk s) i)) = i"
    and "stack_freed vend s i = Inr mem" "par_of s i < proc_max (sk s)" "par_of s i \<noteq> i"
    and "has (status (proc_table (sk s) (par_of s i))) PROC_STATUS_WATING"
    and "quiet s 0 (set (xs @ ys))" "1 \<noteq> i"
  shows "\<exists>s'. mem_exit_proc vend s i = Some (Inr (s', [exit_msg (proc_table (sk s) i)])) \<and>
    procs (sk s') (xs @ ys) \<and>
    (\<forall>q \<in> set (xs @ ys). parent_pid (proc_table (sk s') q) =
       (if parent_pid (proc_table (sk s) q) = 0 then 1 else parent_pid (proc_table (sk s) q)))"
proof -
  let ?s0 = "upd_slot (par_of s i) (flag_slot (clear_flag PROC_STATUS_WATING)) s"
  let ?p = "pid (proc_table (sk s) i)"
  have p0: "proc_table (sk ?s0) i = proc_table (sk s) i" using assms(6) by simp
  have "stack_freed vend ?s0 i = Inr mem" using assms(4,6) stack_freed_cong [of ?s0 i s vend] by simp
  then obtain s1 where s1: "exit_proc vend ?s0 ?p = Inr s1" "procs (sk s1) (xs @ ys)" "gone ?s0 ?p s1"
    using exit_proc_ok [of ?s0 xs ?p ys vend mem] assms(1-3) procs_upd_slot by auto
  have z: "pid (proc_table (sk s1) i) = 0"
    using s1(3) assms(3) by (simp add: gone_def zero_process_def)
  have par: "parent_pid (proc_table (sk s1) j) = parent_pid (proc_table (sk s) j)"
    "status (proc_table (sk s1) j) = status (proc_table (sk ?s0) j)" if "j \<noteq> i" for j
  proof -
    have "proc_table (sk s1) j = (proc_table (sk ?s0) j)\<lparr>next_proc := nexts (sk s1) j\<rparr>"
      using s1(3) assms(3) that unfolding gone_def by metis
    then show "parent_pid (proc_table (sk s1) j) = parent_pid (proc_table (sk s) j)"
      "status (proc_table (sk s1) j) = status (proc_table (sk ?s0) j)"
      by (simp_all add: flag_slot_def)
  qed
  have dist: "\<forall>q \<in> set (xs @ ys). q \<noteq> i" using assms(1) by (auto simp: procs_def)
  have wat: "has (status (proc_table (sk ?s0) j)) f \<Longrightarrow> f AND NOT PROC_STATUS_WATING = f \<or> j \<noteq> par_of s i \<Longrightarrow>
      has (status (proc_table (sk s) j)) f" for j f
    by (cases "j = par_of s i") (simp_all add: flag_slot_def)
  have "quiet s1 0 (set (xs @ ys))"
    unfolding quiet_def
  proof (intro ballI impI notI)
    fix q assume q: "q \<in> set (xs @ ys)" "parent_pid (proc_table (sk s1) q) = 0"
      and h: "has (status (proc_table (sk s1) q)) PROC_STATUS_HANGING \<and>
        has (status (proc_table (sk s1) 1)) PROC_STATUS_WATING"
    have "q \<noteq> i" using dist q(1) by blast
    then have "parent_pid (proc_table (sk s) q) = 0" "has (status (proc_table (sk s) q)) PROC_STATUS_HANGING"
      using par [of q] q(2) h wat [of q PROC_STATUS_HANGING] by simp_all
    moreover have "has (status (proc_table (sk s) 1)) PROC_STATUS_WATING"
      using h par(2) [of 1] assms(7,9) by (cases "par_of s i = 1") simp_all
    ultimately show False using assms(8) q(1) unfolding quiet_def by blast
  qed
  then have "adopt_orphans vend s1 (proc_list (sk s1)) [exit_msg (proc_table (sk s) i)] i =
      Some (Inr (adopted 0 (set (xs @ ys)) s1, [exit_msg (proc_table (sk s) i)]))"
    using s1(2) z by (intro adopt_orphans_quiet [of "nexts (sk s1)"]) (simp_all add: procs_def)
  moreover have "send_exit_to_parent vend ?s0 i = Inr (s1, exit_msg (proc_table (sk s) i))"
    using s1(1) p0 by (simp add: send_exit_to_parent_def)
  ultimately have "mem_exit_proc vend s i =
      Some (Inr (adopted 0 (set (xs @ ys)) s1, [exit_msg (proc_table (sk s) i)]))"
    using assms(5,7) by (simp add: mem_exit_proc_def par_of_def)
  moreover have "\<forall>q \<in> set (xs @ ys). parent_pid (proc_table (sk (adopted 0 (set (xs @ ys)) s1)) q) =
      (if parent_pid (proc_table (sk s) q) = 0 then 1 else parent_pid (proc_table (sk s) q))"
    using dist par(1) by (simp add: adopted_def)
  ultimately show ?thesis using s1(2) procs_adopted by blast
qed

section \<open>Examples\<close>

text \<open>Process 2, a child of process 0, has process 1 as its child.\<close>

definition demo_family :: sys where
  "demo_family = demo_sys\<lparr>sk := (sk demo_sys)\<lparr>proc_table := (\<lambda>i. (proc_table (sk demo_sys) i)\<lparr>
     status := PROC_STATUS_RUNNING, parent_pid := (if i = 1 then 2 else 0)\<rparr>)\<rparr>\<rparr>"

lemma demo_family_procs: "procs (sk demo_family) ([0, 1] @ 2 # [])"
  using demo_sys_simps(1) by (simp add: demo_family_def procs_def nexts_def)

lemma demo_family_stack: "stack_freed vend demo_family i = Inr demo_core"
  using demo_sys_simps(2) stack_freed_cong [of demo_family i demo_sys vend] by (simp add: demo_family_def)

lemma demo_family_simps:
  "pid (proc_table (sk demo_family) 2) = 2" "parent_pid (proc_table (sk demo_family) 2) = 0"
  "parent_pid (proc_table (sk demo_family) 0) = 0" "parent_pid (proc_table (sk demo_family) 1) = 2"
  "status (proc_table (sk demo_family) j) = PROC_STATUS_RUNNING" "proc_max (sk demo_family) = 40"
  by (simp_all add: demo_family_def demo_sys_def demo_ring_def demo_proc_def)

theorem exit_then_wait_witness:
  "\<exists>s' s''. mem_exit_proc 0 demo_family 2 = Some (Inr (s', [])) \<and> parent_pid (proc_table (sk s') 1) = 1 \<and>
     wait_proc 0 s' 0 = Some (Inr (s'', [exit_msg (proc_table (sk demo_family) 2)]))"
  using exit_then_wait [OF demo_family_procs _ _ demo_family_stack]
  by (force simp: demo_family_simps par_of_def quiet_def simp del: One_nat_def)

definition demo_waiting :: sys where
  "demo_waiting = upd_slot 0 (flag_slot (set_flag PROC_STATUS_WATING)) demo_family"

lemma demo_waiting_simps:
  "procs (sk demo_waiting) ([0, 1] @ 2 # [])" "stack_freed vend demo_waiting 2 = Inr demo_core"
  "pid (proc_table (sk demo_waiting) 2) = 2" "parent_pid (proc_table (sk demo_waiting) 2) = 0"
  "parent_pid (proc_table (sk demo_waiting) 0) = 0" "parent_pid (proc_table (sk demo_waiting) 1) = 2"
  "status (proc_table (sk demo_waiting) j) =
     (if j = 0 then PROC_STATUS_RUNNING OR PROC_STATUS_WATING else PROC_STATUS_RUNNING)"
  "proc_max (sk demo_waiting) = 40"
  using demo_family_procs demo_family_stack stack_freed_cong [of demo_waiting 2 demo_family vend]
  by (simp_all add: demo_waiting_def procs_upd_slot demo_family_simps flag_slot_def set_flag_def del: One_nat_def)

theorem exit_of_awaited_child_witness:
  "\<exists>s'. mem_exit_proc 0 demo_waiting 2 = Some (Inr (s', [exit_msg (proc_table (sk demo_waiting) 2)])) \<and>
     parent_pid (proc_table (sk s') 0) = 1 \<and> parent_pid (proc_table (sk s') 1) = 2"
  using exit_of_awaited_child [OF demo_waiting_simps(1) _ _ demo_waiting_simps(2)]
  by (force simp: demo_waiting_simps par_of_def quiet_def simp del: One_nat_def)

text \<open>
  The initial process waits for its child 2; process 3, a child of 2, has two children, of which the
  first hangs.
\<close>

definition demo_orphans :: sys where
  "demo_orphans = demo_sys\<lparr>sk := (sk demo_sys)\<lparr>proc_table := (\<lambda>i. (demo_proc i)\<lparr>
     status := (if i = 1 then PROC_STATUS_WATING else if i = 4 then PROC_STATUS_HANGING else PROC_STATUS_RUNNING),
     parent_pid := (if i \<le> 1 then 0 else if i \<le> 3 then of_nat (i - 1) else 3),
     next_proc := (if i < 5 then Some (i + 1) else None)\<rparr>)\<rparr>\<rparr>"

lemma demo_orphans_simps:
  "procs (sk demo_orphans) ([0, 1, 2, 3] @ 4 # [5])" "stack_freed vend demo_orphans i = Inr demo_core"
  "pid (proc_table (sk demo_orphans) i) = of_nat i" "proc_max (sk demo_orphans) = 40"
  "parent_pid (proc_table (sk demo_orphans) i) = (if i \<le> 1 then 0 else if i \<le> 3 then of_nat (i - 1) else 3)"
  "status (proc_table (sk demo_orphans) i) =
     (if i = 1 then PROC_STATUS_WATING else if i = 4 then PROC_STATUS_HANGING else PROC_STATUS_RUNNING)"
  by (simp_all add: demo_orphans_def demo_sys_def procs_def nexts_def demo_ring_def demo_proc_def stack_freed_def)

theorem exit_buries_one_orphan_witness:
  "\<exists>s'. mem_exit_proc 0 demo_orphans 3 =
       Some (Inr (s', [(exit_msg (proc_table (sk demo_orphans) 4))\<lparr>m_receiver := 1\<rparr>])) \<and>
     procs (sk s') [0, 1, 2, 3, 5] \<and> parent_pid (proc_table (sk s') 5) = 3"
  using exit_buries_one_orphan [OF demo_orphans_simps(1) _ _ demo_orphans_simps(2), of 3]
  by (force simp: demo_orphans_simps par_of_def simp del: One_nat_def)

end
