(* ===== verification/Memory_Server.thy ===== *)
theory Memory_Server
  imports Process_Memory Exit_Props
begin

text \<open>
  The requests of the memory server \<^verbatim>\<open>modules/memory/memory.c\<close> and the client functions of
  \<^verbatim>\<open>header/modules/memory.h\<close>: one definition per case of \<open>Task_Memory\<close>. The two requests of the
  pool allocator \<^verbatim>\<open>kmem.c\<close> are not modelled here: \<open>mem_request\<close> is the loop's body for the others.
\<close>

abbreviation (input) MEM_ALLOC_PAGES :: u32 where "MEM_ALLOC_PAGES \<equiv> 1"
abbreviation (input) MEM_FREE_PAGES :: u32 where "MEM_FREE_PAGES \<equiv> 2"
abbreviation (input) MEM_FORK_PROC :: u32 where "MEM_FORK_PROC \<equiv> 3"
abbreviation (input) MEM_EXIT_PROC :: u32 where "MEM_EXIT_PROC \<equiv> 4"
abbreviation (input) MEM_WAIT_PROC :: u32 where "MEM_WAIT_PROC \<equiv> 5"
abbreviation (input) MEM_FREE_PROC :: u32 where "MEM_FREE_PROC \<equiv> 6"
abbreviation (input) MEM_MEMALLOC :: u32 where "MEM_MEMALLOC \<equiv> 7"
abbreviation (input) MEM_MEMFREE :: u32 where "MEM_MEMFREE \<equiv> 8"
abbreviation (input) MEM_EXECVE :: u32 where "MEM_EXECVE \<equiv> 9"
abbreviation (input) MEM_SBRK :: u32 where "MEM_SBRK \<equiv> 10"

definition on_slot :: "(pgs \<Rightarrow> process \<Rightarrow> (pgs \<times> process) res) \<Rightarrow> nat \<Rightarrow> mm \<Rightarrow> mm res" where
  "on_slot f i s =
     (if proc_max (kern s) \<le> i then Inl OutOfBounds
      else and_then (f (pgs_of s) (proc_table (kern s) i)) (\<lambda>(g, p).
             Inr (upd_kern (upd_proc i (\<lambda>_. p)) (put_pgs g s))))"

text \<open>The address in the message is that of the frame, which is the first field of the process.\<close>

definition mem_fault :: "mm \<Rightarrow> message \<Rightarrow> mm res" where
  "mem_fault s m = (if m_major m = 14 then on_slot do_page_fault (slot_of (mm_sys s) (m_d1 m)) s else Inr s)"

definition mem_fork :: "mm \<Rightarrow> message \<Rightarrow> (mm \<times> message list) res" where
  "mem_fork s m =
     and_then (fork_proc s (m_sender m)) (\<lambda>(s, child, par, chi).
       let m = m\<lparr>m_major := child, m_receiver := m_sender m\<rparr>
       in if child = 0 then Inr (s, [m\<lparr>m_major := -1\<rparr>])
          else Inr (upd_kern (\<lambda>k. upd_status chi (clear_flag PROC_STATUS_STOP)
                                    (upd_status par (clear_flag PROC_STATUS_STOP) k)) s,
                    [m, m\<lparr>m_receiver := child, m_major := 0\<rparr>]))"

definition mem_exit :: "u32 \<Rightarrow> mm \<Rightarrow> message \<Rightarrow> (mm \<times> message list) res option" where
  "mem_exit vend s m =
     (let i = unat (m_sender m)
      in if proc_max (kern s) \<le> i then Some (Inl OutOfBounds)
         else (case on_slot free_proc i (upd_kern (set_proc_exit i (m_major m)) s) of
                 Inl e \<Rightarrow> Some (Inl e)
               | Inr s \<Rightarrow>
                   (case mem_exit_proc vend (mm_sys s) i of
                      None \<Rightarrow> None
                    | Some r \<Rightarrow> Some (and_then r (\<lambda>(sy, out). Inr (s\<lparr>mm_sys := sy\<rparr>, out))))))"

definition mem_wait :: "u32 \<Rightarrow> mm \<Rightarrow> message \<Rightarrow> (mm \<times> message list) res option" where
  "mem_wait vend s m =
     (case wait_proc vend (mm_sys s) (m_sender m) of
        None \<Rightarrow> None
      | Some r \<Rightarrow> Some (and_then r (\<lambda>(sy, out). Inr (s\<lparr>mm_sys := sy\<rparr>, out))))"

definition mem_sbrk_request :: "mm \<Rightarrow> message \<Rightarrow> (mm \<times> message list) res" where
  "mem_sbrk_request s m =
     (let i = unat (m_sender m)
      in if proc_max (kern s) \<le> i then Inl OutOfBounds
         else and_then (mem_sbrk (pgs_of s) (proc_table (kern s) i) (m_major m)) (\<lambda>(g, p, r).
                Inr (upd_kern (upd_proc i (\<lambda>_. p)) (put_pgs g s),
                     [send_back (m\<lparr>m_major := r\<rparr>)])))"

definition mem_request :: "u32 \<Rightarrow> mm \<Rightarrow> message \<Rightarrow> (mm \<times> message list) res option" where
  "mem_request vend s m =
     (let back = (\<lambda>s m. Inr (s, [send_back m])) in
      if m_type m = MSG_EXCEPTION then Some (and_then (mem_fault s m) (\<lambda>s. Inr (s, [])))
      else if m_type m = MEM_ALLOC_PAGES then Some (back s m)
      else if m_type m = MEM_FREE_PAGES then Some (back s (m\<lparr>m_major := 0\<rparr>))
      else if m_type m = MEM_FORK_PROC then Some (mem_fork s m)
      else if m_type m = MEM_EXIT_PROC then mem_exit vend s m
      else if m_type m = MEM_WAIT_PROC then mem_wait vend s m
      else if m_type m = MEM_FREE_PROC
      then Some (and_then (on_slot free_proc (slot_of (mm_sys s) (m_major m)) s)
                   (\<lambda>s. back s (m\<lparr>m_major := 0\<rparr>)))
      else if m_type m = MEM_SBRK then Some (mem_sbrk_request s m)
      else Some (Inr (s, [])))"

section \<open>The clients\<close>

definition mem_call :: "u32 \<Rightarrow> mm \<Rightarrow> u32 \<Rightarrow> message \<Rightarrow> (mm \<times> u32 option) res option" where
  "mem_call vend s p m =
     (case mem_request vend s (m\<lparr>m_sender := p\<rparr>) of
        None \<Rightarrow> None
      | Some r \<Rightarrow> Some (and_then r (\<lambda>(s, out).
          Inr (s, case filter (\<lambda>a. m_receiver a = p) out of [] \<Rightarrow> None | a # _ \<Rightarrow> Some (m_major a)))))"

definition mem_msg :: "message \<Rightarrow> u32 \<Rightarrow> u32 \<Rightarrow> message" where
  "mem_msg m typ task_mem = m\<lparr>m_type := typ, m_receiver := task_mem\<rparr>"

definition mem_alloc_pages :: "u32 \<Rightarrow> mm \<Rightarrow> u32 \<Rightarrow> message \<Rightarrow> u32 \<Rightarrow> u32 \<Rightarrow> (mm \<times> u32 option) res option" where
  "mem_alloc_pages vend s p m task_mem pages =
     mem_call vend s p ((mem_msg m MEM_ALLOC_PAGES task_mem)\<lparr>m_major := pages\<rparr>)"

definition mem_free_pages :: "u32 \<Rightarrow> mm \<Rightarrow> u32 \<Rightarrow> message \<Rightarrow> u32 \<Rightarrow> u32 \<Rightarrow> u32 \<Rightarrow>
    (mm \<times> u32 option) res option" where
  "mem_free_pages vend s p m task_mem block_addr pages =
     mem_call vend s p ((mem_msg m MEM_FREE_PAGES task_mem)\<lparr>m_major := pages, m_d1 := block_addr\<rparr>)"

definition mem_free_proc :: "u32 \<Rightarrow> mm \<Rightarrow> u32 \<Rightarrow> message \<Rightarrow> u32 \<Rightarrow> u32 \<Rightarrow> (mm \<times> u32 option) res option" where
  "mem_free_proc vend s p m task_mem proc =
     mem_call vend s p ((mem_msg m MEM_FREE_PROC task_mem)\<lparr>m_major := proc\<rparr>)"

definition sbrk :: "u32 \<Rightarrow> mm \<Rightarrow> u32 \<Rightarrow> message \<Rightarrow> u32 \<Rightarrow> u32 \<Rightarrow> (mm \<times> u32 option) res option" where
  "sbrk vend s p m task_mem increasement =
     mem_call vend s p ((mem_msg m MEM_SBRK task_mem)\<lparr>m_major := increasement\<rparr>)"

section \<open>Properties\<close>

text \<open>
  A fork that finds no free pid sends -1 to its caller and leaves it stopped: the flag that
  was set to keep the parent from running is only cleared on success, so the caller is never
  scheduled again.
\<close>

theorem failed_fork_stops_parent:
  assumes "unat (m_sender m) < proc_max (kern s)"
    and "find_first_unset_bit (proc_bitmap (kern s)) (proc_bitmap_size (kern s)) = 0xFFFFFFFF"
  shows "\<exists>s'. mem_fork s m = Inr (s', [m\<lparr>m_receiver := m_sender m, m_major := -1\<rparr>]) \<and>
    has (status (proc_table (kern s') (unat (m_sender m)))) PROC_STATUS_STOP \<and>
    unrunable (status (proc_table (kern s') (unat (m_sender m))))"
proof -
  let ?p = "unat (m_sender m)"
  define s' where "s' = upd_kern (upd_status ?p (set_flag PROC_STATUS_STOP)) s"
  have "alloc_proc (mm_sys s') = Inr (mm_sys s', 0)"
    using assms(2) by (simp add: alloc_proc_def s'_def upd_kern_def kern_def upd_status_def upd_proc_def)
  then have "fork_proc s (m_sender m) = Inr (s', 0, ?p, ?p)"
    using assms(1) by (simp add: fork_proc_def s'_def [symmetric] not_le Let_def)
  then have "mem_fork s m = Inr (s', [m\<lparr>m_receiver := m_sender m, m_major := -1\<rparr>])"
    by (simp add: mem_fork_def Let_def)
  moreover have st: "status (proc_table (kern s') ?p) = set_flag PROC_STATUS_STOP (status (proc_table (kern s) ?p))"
    by (simp add: s'_def upd_kern_def kern_def)
  moreover have "unrunable (set_flag PROC_STATUS_STOP x)" for x
    using and_single_eq_0 [of "x AND 0xFF OR 16" 4]
    by (auto simp: unrunable_def set_flag_def bit.conj_disj_distrib2 or_eq_0_iff)
  ultimately show ?thesis by (intro exI [of _ s']) simp
qed

text \<open>A system whose 32 pids are taken.\<close>

definition demo_full :: mm where
  "demo_full = \<lparr>mm_info = boot_mem, mm_sys = demo_family\<lparr>sk := (sk demo_family)\<lparr>proc_bitmap := (\<lambda>_. -1)\<rparr>\<rparr>\<rparr>"

theorem failed_fork_stops_parent_witness:
  "\<exists>s'. mem_fork demo_full ((exit_msg (demo_proc 2))\<lparr>m_sender := 2\<rparr>) =
       Inr (s', [(exit_msg (demo_proc 2))\<lparr>m_sender := 2, m_receiver := 2, m_major := -1\<rparr>]) \<and>
     unrunable (status (proc_table (kern s') 2))"
  using failed_fork_stops_parent [of "(exit_msg (demo_proc 2))\<lparr>m_sender := 2\<rparr>" demo_full]
  by (auto simp: demo_full_def kern_def demo_family_simps find_first_unset_bit_full_iff)

end
