(* ===== verification/Rbtree.thy ===== *)
theory Rbtree
  imports Res_Monad
begin

text \<open>
  The red-black trees of \<^verbatim>\<open>lib/rbtree.c\<close>, \<^verbatim>\<open>header/lib/rbtree.h\<close>. A node is a structure in
  memory, so the fields are functions of the node's address; the root of the tree at hand is
  kept beside them. The colour shares a word with the pointer to the parent, as in the code.

  A pointer that is NULL where the code follows it is a fault. A loop over the links need not end
  on arbitrary memory: \<open>None\<close> is a call that does not return.
\<close>

record rbmem =
  rb_key :: "u32 \<Rightarrow> u32"
  parent_and_color :: "u32 \<Rightarrow> u32"
  rb_L :: "u32 \<Rightarrow> u32"
  rb_R :: "u32 \<Rightarrow> u32"
  rb_root :: u32

definition RB_BLACK :: u32 where "RB_BLACK = 0"
definition RB_RED :: u32 where "RB_RED = 1"

definition GET_PARENT :: "rbmem \<Rightarrow> u32 \<Rightarrow> u32" where
  "GET_PARENT h n = parent_and_color h n AND 0xFFFFFFFC"

definition SET_PARENT :: "rbmem \<Rightarrow> u32 \<Rightarrow> u32 \<Rightarrow> rbmem" where
  "SET_PARENT h n p =
     h\<lparr>parent_and_color := (parent_and_color h)(n := (parent_and_color h n AND 3) OR p)\<rparr>"

definition GET_COLOR :: "rbmem \<Rightarrow> u32 \<Rightarrow> u32" where
  "GET_COLOR h n = parent_and_color h n AND 3"

definition SET_COLOR :: "rbmem \<Rightarrow> u32 \<Rightarrow> u32 \<Rightarrow> rbmem" where
  "SET_COLOR h n c =
     h\<lparr>parent_and_color := (parent_and_color h)(n := (parent_and_color h n AND 0xFFFFFFFC) OR c)\<rparr>"

definition set_L :: "rbmem \<Rightarrow> u32 \<Rightarrow> u32 \<Rightarrow> rbmem" where
  "set_L h n p = h\<lparr>rb_L := (rb_L h)(n := p)\<rparr>"

definition set_R :: "rbmem \<Rightarrow> u32 \<Rightarrow> u32 \<Rightarrow> rbmem" where
  "set_R h n p = h\<lparr>rb_R := (rb_R h)(n := p)\<rparr>"

definition not_null :: "u32 \<Rightarrow> unit res" where
  "not_null p = guard (p \<noteq> 0) NullDeref"

section \<open>Searching\<close>

partial_function (option) rb_search :: "rbmem \<Rightarrow> u32 \<Rightarrow> u32 \<Rightarrow> u32 option" where
  "rb_search h x key =
     (if x = 0 then Some x
      else if rb_key h x = key then Some x
      else if key < rb_key h x then rb_search h (rb_L h x) key
      else rb_search h (rb_R h x) key)"

section \<open>Rotations\<close>

definition rb_detach :: "rbmem \<Rightarrow> u32 \<Rightarrow> rbmem" where
  "rb_detach h x =
     (let p = GET_PARENT h x;
          h = (if p \<noteq> 0 then if rb_L h p = x then set_L h p 0 else set_R h p 0 else h)
      in SET_PARENT h x 0)"

definition rb_transplant :: "rbmem \<Rightarrow> u32 \<Rightarrow> u32 \<Rightarrow> rbmem res" where
  "rb_transplant h dst src =
     and_then (not_null dst) (\<lambda>_.
     and_then
       (if rb_root h = dst then Inr (h\<lparr>rb_root := src\<rparr>)
        else
          let p = GET_PARENT h dst
          in and_then (not_null p) (\<lambda>_.
               if dst = rb_R h p then Inr (set_R h p src)
               else if dst = rb_L h p then Inr (set_L h p src)
               else Inr h))
       (\<lambda>h. and_then (not_null src) (\<lambda>_. Inr (SET_PARENT h src (GET_PARENT h dst)))))"

definition rb_left_rotate :: "rbmem \<Rightarrow> u32 \<Rightarrow> rbmem res" where
  "rb_left_rotate h x =
     and_then (not_null x) (\<lambda>_.
     if rb_R h x = 0 then Inr h
     else
       let a = rb_R h x;
           h = rb_detach h a
       in and_then (rb_transplant h x a) (\<lambda>h.
            if rb_L h a \<noteq> 0
            then
              let b = rb_L h a;
                  h = rb_detach h b;
                  h = set_L h a x;
                  h = SET_PARENT h x a;
                  h = set_R h x b
              in Inr (SET_PARENT h b x)
            else Inr (SET_PARENT (set_L h a x) x a)))"

definition rb_right_rotate :: "rbmem \<Rightarrow> u32 \<Rightarrow> rbmem res" where
  "rb_right_rotate h x =
     and_then (not_null x) (\<lambda>_.
     if rb_L h x = 0 then Inr h
     else
       let a = rb_L h x;
           h = rb_detach h a
       in and_then (rb_transplant h x a) (\<lambda>h.
            if rb_R h a \<noteq> 0
            then
              let b = rb_R h a;
                  h = rb_detach h b;
                  h = set_R h a x;
                  h = SET_PARENT h x a;
                  h = set_L h x b
              in Inr (SET_PARENT h b x)
            else Inr (SET_PARENT (set_R h a x) x a)))"

section \<open>Insertion\<close>

partial_function (option) rb_insert_fixup :: "u32 \<Rightarrow> rbmem \<Rightarrow> rbmem res option" where
  "rb_insert_fixup n h =
     (if GET_PARENT h n = 0 then Some (Inr (SET_COLOR h n RB_BLACK))
      else if GET_COLOR h (GET_PARENT h n) = RB_BLACK then Some (Inr h)
      else
        let parent = GET_PARENT h n;
            grand = GET_PARENT h parent
        in if grand = 0 then Some (Inl NullDeref)
           else
             let uncle = (if rb_R h grand = parent then rb_L h grand else rb_R h grand)
             in if uncle \<noteq> 0 \<and> GET_COLOR h uncle = RB_RED
                then rb_insert_fixup grand
                       (SET_COLOR (SET_COLOR (SET_COLOR h parent RB_BLACK) uncle RB_BLACK) grand RB_RED)
                else if rb_L h grand = parent
                then Some
                  (and_then
                    (if rb_L h parent = n
                     then Inr (SET_COLOR (SET_COLOR h parent RB_BLACK) grand RB_RED)
                     else rb_left_rotate (SET_COLOR (SET_COLOR h n RB_BLACK) grand RB_RED) parent)
                    (\<lambda>h. rb_right_rotate h grand))
                else Some
                  (and_then
                    (if rb_R h parent = n
                     then Inr (SET_COLOR (SET_COLOR h parent RB_BLACK) grand RB_RED)
                     else rb_right_rotate (SET_COLOR (SET_COLOR h n RB_BLACK) grand RB_RED) parent)
                    (\<lambda>h. rb_left_rotate h grand)))"

text \<open>The loop that hangs the node in; \<open>Some None\<close> is the early return for a key that exists.\<close>

partial_function (option) rb_hang_in :: "u32 \<Rightarrow> u32 \<Rightarrow> rbmem \<Rightarrow> (u32 \<times> rbmem) option option" where
  "rb_hang_in n x h =
     (if x = 0 then Some (Some (x, h))
      else if rb_key h x = rb_key h n then Some None
      else if rb_key h x > rb_key h n
      then if rb_L h x = 0 then Some (Some (x, set_L h x n)) else rb_hang_in n (rb_L h x) h
      else if rb_R h x = 0 then Some (Some (x, set_R h x n)) else rb_hang_in n (rb_R h x) h)"

definition rb_insert :: "rbmem \<Rightarrow> u32 \<Rightarrow> (u32 \<times> rbmem) res option" where
  "rb_insert h n =
     (let h = SET_COLOR h n RB_RED;
          x = rb_root h
      in Option.bind
           (if x = 0 then Some (Some (x, h\<lparr>rb_root := n\<rparr>)) else rb_hang_in n x h)
           (\<lambda>place.
             case place of
               None \<Rightarrow> Some (Inr (1, h))
             | Some (x, h) \<Rightarrow>
                 map_option
                   (\<lambda>r. and_then r (\<lambda>h.
                      and_then (not_null (rb_root h)) (\<lambda>_.
                      Inr (0, SET_COLOR h (rb_root h) RB_BLACK))))
                   (rb_insert_fixup n (SET_PARENT h n x))))"

section \<open>Neighbours\<close>

partial_function (option) rb_leftmost :: "rbmem \<Rightarrow> u32 \<Rightarrow> u32 option" where
  "rb_leftmost h x = (if rb_L h x \<noteq> 0 then rb_leftmost h (rb_L h x) else Some x)"

partial_function (option) rb_rightmost :: "rbmem \<Rightarrow> u32 \<Rightarrow> u32 option" where
  "rb_rightmost h x = (if rb_R h x \<noteq> 0 then rb_rightmost h (rb_R h x) else Some x)"

partial_function (option) up_from_right :: "rbmem \<Rightarrow> u32 \<Rightarrow> u32 \<Rightarrow> u32 option" where
  "up_from_right h n p =
     (if p \<noteq> 0 \<and> n = rb_R h p then up_from_right h p (GET_PARENT h p) else Some p)"

partial_function (option) up_from_left :: "rbmem \<Rightarrow> u32 \<Rightarrow> u32 \<Rightarrow> u32 option" where
  "up_from_left h n p =
     (if p \<noteq> 0 \<and> n = rb_L h p then up_from_left h p (GET_PARENT h p) else Some p)"

definition rb_succ :: "rbmem \<Rightarrow> u32 \<Rightarrow> u32 option" where
  "rb_succ h n =
     (if rb_R h n \<noteq> 0 then rb_leftmost h (rb_R h n) else up_from_right h n (GET_PARENT h n))"

definition rb_pred :: "rbmem \<Rightarrow> u32 \<Rightarrow> u32 option" where
  "rb_pred h n =
     (if rb_L h n \<noteq> 0 then rb_rightmost h (rb_L h n) else up_from_left h n (GET_PARENT h n))"

section \<open>Removal\<close>

definition no_red :: "rbmem \<Rightarrow> u32 \<Rightarrow> bool" where
  "no_red h p \<longleftrightarrow> p = 0 \<or> GET_COLOR h p = RB_BLACK"

text \<open>
  The two branches of the loop of \<open>rb_remove_fixup\<close>: \<open>True\<close> goes on at the parent, \<open>False\<close> is the
  \<^verbatim>\<open>break\<close> after the rotations, with the root as the node to be coloured.
\<close>

definition fix_left_child :: "rbmem \<Rightarrow> u32 \<Rightarrow> (bool \<times> rbmem) res" where
  "fix_left_child h parent =
     (let other = rb_R h parent
      in and_then (not_null other) (\<lambda>_.
         and_then
           (if GET_COLOR h other = RB_RED
            then rb_left_rotate (SET_COLOR (SET_COLOR h other RB_BLACK) parent RB_RED) parent
            else Inr h) (\<lambda>h'.
         let h = h';
             other = rb_R h parent
         in and_then (not_null other) (\<lambda>_.
            if no_red h (rb_L h other) \<and> no_red h (rb_R h other)
            then Inr (True, SET_COLOR h other RB_RED)
            else
              and_then
                (if no_red h (rb_R h other)
                 then rb_right_rotate (SET_COLOR (SET_COLOR h (rb_L h other) RB_BLACK) other RB_RED) other
                 else Inr h) (\<lambda>h.
              let other = rb_R h parent
              in and_then (not_null other) (\<lambda>_.
                 let h = SET_COLOR h other (GET_COLOR h parent);
                     h = SET_COLOR h parent RB_BLACK
                 in and_then (not_null (rb_R h other)) (\<lambda>_.
                    and_then (rb_left_rotate (SET_COLOR h (rb_R h other) RB_BLACK) parent)
                      (\<lambda>h. Inr (False, h)))))))))"

definition fix_right_child :: "rbmem \<Rightarrow> u32 \<Rightarrow> (bool \<times> rbmem) res" where
  "fix_right_child h parent =
     (let other = rb_L h parent
      in and_then (not_null other) (\<lambda>_.
         and_then
           (if GET_COLOR h other = RB_RED
            then rb_right_rotate (SET_COLOR (SET_COLOR h other RB_BLACK) parent RB_RED) parent
            else Inr h) (\<lambda>h'.
         let h = h';
             other = rb_L h parent
         in and_then (not_null other) (\<lambda>_.
            if no_red h (rb_L h other) \<and> no_red h (rb_R h other)
            then Inr (True, SET_COLOR h other RB_RED)
            else
              and_then
                (if no_red h (rb_L h other)
                 then rb_left_rotate (SET_COLOR (SET_COLOR h (rb_R h other) RB_BLACK) other RB_RED) other
                 else Inr h) (\<lambda>h.
              let other = rb_L h parent
              in and_then (not_null other) (\<lambda>_.
                 let h = SET_COLOR h other (GET_COLOR h parent);
                     h = SET_COLOR h parent RB_BLACK
                 in and_then (not_null (rb_L h other)) (\<lambda>_.
                    and_then (rb_right_rotate (SET_COLOR h (rb_L h other) RB_BLACK) parent)
                      (\<lambda>h. Inr (False, h)))))))))"

definition paint_black :: "rbmem \<Rightarrow> u32 \<Rightarrow> rbmem" where
  "paint_black h n = (if n \<noteq> 0 then SET_COLOR h n RB_BLACK else h)"

partial_function (option) rb_remove_fixup :: "u32 \<Rightarrow> u32 \<Rightarrow> rbmem \<Rightarrow> rbmem res option" where
  "rb_remove_fixup n parent h =
     (if no_red h n \<and> n \<noteq> rb_root h
      then if parent = 0 then Some (Inl NullDeref)
      else
        (case (if rb_L h parent = n then fix_left_child h parent else fix_right_child h parent) of
           Inl e \<Rightarrow> Some (Inl e)
         | Inr (again, h) \<Rightarrow>
             if again then rb_remove_fixup parent (GET_PARENT h parent) h
             else Some (Inr (paint_black h (rb_root h))))
      else Some (Inr (paint_black h n)))"

text \<open>A node with two children is replaced by its successor.\<close>

definition replace_by_succ :: "rbmem \<Rightarrow> u32 \<Rightarrow> u32 \<Rightarrow> rbmem res" where
  "replace_by_succ h n r =
     (let child = rb_R h r
      in and_then
           (if GET_PARENT h r = n
            then Inr (if child \<noteq> 0 then SET_PARENT h child r else h)
            else
              and_then (rb_transplant h r (rb_R h r)) (\<lambda>h.
              let h = set_R h r (rb_R h n)
              in and_then (not_null (rb_R h r)) (\<lambda>_. Inr (SET_PARENT h (rb_R h r) r))))
           (\<lambda>h. and_then (rb_transplant h n r) (\<lambda>h.
             let h = set_L h r (rb_L h n)
             in and_then (not_null (rb_L h r)) (\<lambda>_.
                let h = SET_PARENT h (rb_L h r) r
                in Inr (SET_COLOR h r (GET_COLOR h n))))))"

definition rb_remove :: "rbmem \<Rightarrow> u32 \<Rightarrow> rbmem res option" where
  "rb_remove h n =
     Option.bind
       (if rb_L h n = 0 \<or> rb_R h n = 0
        then
          let child = (if rb_L h n = 0 then rb_R h n else rb_L h n)
          in Some (and_then (rb_transplant h n child) (\<lambda>h'. Inr (h', n, child, GET_COLOR h n)))
        else
          map_option
            (\<lambda>r. and_then (replace_by_succ h n r) (\<lambda>h'. Inr (h', r, rb_R h r, GET_COLOR h r)))
            (rb_succ h n))
       (\<lambda>res. case res of
          Inl e \<Rightarrow> Some (Inl e)
        | Inr (h, r, child, color) \<Rightarrow>
            if color = RB_BLACK then rb_remove_fixup child r h else Some (Inr h))"

end
