(* ===== verification/Rbtree_Spec.thy ===== *)
theory Rbtree_Spec
  imports Rbtree
begin

text \<open>
  Red-black trees as values: the shape of a tree (the addresses of its nodes), the predicate that
  a memory holds a tree of that shape, a position in a tree as the list of the nodes above it,
  and what transplanting and rotating do to the shape.
\<close>

section \<open>Pointer and colour in one word\<close>

definition good :: "u32 \<Rightarrow> bool" where
  "good p \<longleftrightarrow> p \<noteq> 0 \<and> p AND 3 = 0"

lemma mask_two: "(3 :: u32) = mask 2" "(0xFFFFFFFC :: u32) = NOT (mask 2)"
  by (simp_all add: mask_eq_exp_minus_1)

lemma low_bits:
  "(w :: u32) AND mask 2 = 0 \<longleftrightarrow> (\<forall>n < 2. \<not> bit w n)"
  "w AND mask 2 = w \<longleftrightarrow> (\<forall>n. bit w n \<longrightarrow> n < 2)"
proof -
  have "bit (w AND mask 2) n \<longleftrightarrow> bit w n \<and> n < 2" for n
    by (auto simp: bit_and_iff bit_mask_iff)
  then show "w AND mask 2 = 0 \<longleftrightarrow> (\<forall>n < 2. \<not> bit w n)"
    and "w AND mask 2 = w \<longleftrightarrow> (\<forall>n. bit w n \<longrightarrow> n < 2)"
    by (metis bit_0_eq bit_word_eqI bot_apply bot_bool_def)+
qed

lemma mask_split [bit_facts]:
  "p AND 3 = 0 \<Longrightarrow> ((w AND 3) OR p) AND 0xFFFFFFFC = (p :: u32)"
  "p AND 3 = 0 \<Longrightarrow> ((w AND 3) OR p) AND 3 = (w :: u32) AND 3"
  unfolding mask_two low_bits
  by (rule bit_word_eqI; auto simp: bit_and_iff bit_or_iff bit_not_iff bit_mask_iff)+

lemma colour_split [bit_facts]:
  "c AND 3 = c \<Longrightarrow> ((w AND 0xFFFFFFFC) OR c) AND 3 = (c :: u32)"
  "c AND 3 = c \<Longrightarrow> ((w AND 0xFFFFFFFC) OR c) AND 0xFFFFFFFC = (w :: u32) AND 0xFFFFFFFC"
  unfolding mask_two low_bits
  by (rule bit_word_eqI; auto simp: bit_and_iff bit_or_iff bit_not_iff bit_mask_iff)+

lemma colour_values [simp]: "RB_BLACK AND 3 = RB_BLACK" "RB_RED AND 3 = RB_RED" "RB_RED \<noteq> RB_BLACK"
  "RB_BLACK \<noteq> RB_RED"
  by (simp_all add: RB_BLACK_def RB_RED_def)

lemma and_3_idem [simp]: "GET_COLOR h a AND 3 = GET_COLOR h a"
  by (simp add: GET_COLOR_def and.assoc)

lemma goodD [simp]: "good p \<Longrightarrow> p AND 3 = 0" "good p \<Longrightarrow> p \<noteq> 0" "\<not> good 0"
  by (auto simp: good_def)

lemma fields_SET_PARENT [simp]:
  "rb_key (SET_PARENT h n p) = rb_key h" "rb_L (SET_PARENT h n p) = rb_L h"
  "rb_R (SET_PARENT h n p) = rb_R h" "rb_root (SET_PARENT h n p) = rb_root h"
  by (simp_all add: SET_PARENT_def)

lemma fields_SET_COLOR [simp]:
  "rb_key (SET_COLOR h n p) = rb_key h" "rb_L (SET_COLOR h n p) = rb_L h"
  "rb_R (SET_COLOR h n p) = rb_R h" "rb_root (SET_COLOR h n p) = rb_root h"
  by (simp_all add: SET_COLOR_def)

lemma fields_set_L [simp]:
  "rb_key (set_L h n p) = rb_key h" "rb_L (set_L h n p) = (rb_L h)(n := p)"
  "rb_R (set_L h n p) = rb_R h" "rb_root (set_L h n p) = rb_root h"
  "GET_PARENT (set_L h n p) = GET_PARENT h" "GET_COLOR (set_L h n p) = GET_COLOR h"
  "parent_and_color (set_L h n p) = parent_and_color h"
  by (simp_all add: set_L_def GET_PARENT_def GET_COLOR_def fun_eq_iff)

lemma fields_set_R [simp]:
  "rb_key (set_R h n p) = rb_key h" "rb_R (set_R h n p) = (rb_R h)(n := p)"
  "rb_L (set_R h n p) = rb_L h" "rb_root (set_R h n p) = rb_root h"
  "GET_PARENT (set_R h n p) = GET_PARENT h" "GET_COLOR (set_R h n p) = GET_COLOR h"
  "parent_and_color (set_R h n p) = parent_and_color h"
  by (simp_all add: set_R_def GET_PARENT_def GET_COLOR_def fun_eq_iff)

lemma fields_root [simp]:
  "GET_PARENT (h\<lparr>rb_root := p\<rparr>) = GET_PARENT h" "GET_COLOR (h\<lparr>rb_root := p\<rparr>) = GET_COLOR h"
  by (simp_all add: GET_PARENT_def GET_COLOR_def fun_eq_iff)

lemma parent_SET_PARENT [simp]:
  "p AND 3 = 0 \<Longrightarrow> GET_PARENT (SET_PARENT h n p) = (GET_PARENT h)(n := p)"
  "p AND 3 = 0 \<Longrightarrow> GET_COLOR (SET_PARENT h n p) = GET_COLOR h"
  by (simp_all add: SET_PARENT_def GET_PARENT_def GET_COLOR_def fun_eq_iff mask_split del: and_numerals)

lemma color_SET_COLOR [simp]:
  "c AND 3 = c \<Longrightarrow> GET_COLOR (SET_COLOR h n c) = (GET_COLOR h)(n := c)"
  "c AND 3 = c \<Longrightarrow> GET_PARENT (SET_COLOR h n c) = GET_PARENT h"
  by (simp_all add: SET_COLOR_def GET_PARENT_def GET_COLOR_def fun_eq_iff colour_split del: and_numerals)

lemma pac_other [simp]:
  "a \<noteq> n \<Longrightarrow> parent_and_color (SET_PARENT h n p) a = parent_and_color h a"
  "a \<noteq> n \<Longrightarrow> parent_and_color (SET_COLOR h n p) a = parent_and_color h a"
  by (simp_all add: SET_PARENT_def SET_COLOR_def)

section \<open>Shapes and positions\<close>

datatype shape = Lf | Nd shape u32 shape

datatype frame = FL u32 shape | FR shape u32

fun root_of :: "shape \<Rightarrow> u32" where
  "root_of Lf = 0"
| "root_of (Nd l a r) = a"

fun inord :: "shape \<Rightarrow> u32 list" where
  "inord Lf = []"
| "inord (Nd l a r) = inord l @ a # inord r"

fun frame_addr :: "frame \<Rightarrow> u32" where
  "frame_addr (FL a r) = a"
| "frame_addr (FR l a) = a"

fun par_of :: "frame list \<Rightarrow> u32" where
  "par_of [] = 0"
| "par_of (f # fs) = frame_addr f"

fun plug :: "frame list \<Rightarrow> shape \<Rightarrow> shape" where
  "plug [] t = t"
| "plug (FL a r # fs) t = plug fs (Nd t a r)"
| "plug (FR l a # fs) t = plug fs (Nd l a t)"

fun lefts :: "frame list \<Rightarrow> u32 list" where
  "lefts [] = []"
| "lefts (FL a r # fs) = lefts fs"
| "lefts (FR l a # fs) = lefts fs @ inord l @ [a]"

fun rights :: "frame list \<Rightarrow> u32 list" where
  "rights [] = []"
| "rights (FL a r # fs) = a # inord r @ rights fs"
| "rights (FR l a # fs) = rights fs"

lemma inord_plug [simp]: "inord (plug fs t) = lefts fs @ inord t @ rights fs"
  by (induction fs t rule: plug.induct) auto

definition around :: "frame list \<Rightarrow> u32 set" where
  "around fs = set (lefts fs) \<union> set (rights fs)"

lemma around_simps [simp]:
  "around [] = {}"
  "around (FL a r # fs) = insert a (set (inord r) \<union> around fs)"
  "around (FR l a # fs) = insert a (set (inord l) \<union> around fs)"
  by (auto simp: around_def)

section \<open>A tree in memory\<close>

fun tr :: "rbmem \<Rightarrow> u32 \<Rightarrow> shape \<Rightarrow> bool" where
  "tr h p Lf = True"
| "tr h p (Nd l a r) \<longleftrightarrow>
     good a \<and> GET_PARENT h a = p \<and> GET_COLOR h a \<in> {RB_BLACK, RB_RED} \<and>
     rb_L h a = root_of l \<and> rb_R h a = root_of r \<and> tr h a l \<and> tr h a r"

fun cx :: "rbmem \<Rightarrow> u32 \<Rightarrow> frame list \<Rightarrow> bool" where
  "cx h x [] \<longleftrightarrow> rb_root h = x"
| "cx h x (FL a r # fs) \<longleftrightarrow>
     good a \<and> GET_PARENT h a = par_of fs \<and> GET_COLOR h a \<in> {RB_BLACK, RB_RED} \<and>
     rb_L h a = x \<and> rb_R h a = root_of r \<and> tr h a r \<and> cx h a fs"
| "cx h x (FR l a # fs) \<longleftrightarrow>
     good a \<and> GET_PARENT h a = par_of fs \<and> GET_COLOR h a \<in> {RB_BLACK, RB_RED} \<and>
     rb_L h a = root_of l \<and> rb_R h a = x \<and> tr h a l \<and> cx h a fs"

lemma plug_in_memory:
  "tr h 0 (plug fs t) \<and> rb_root h = root_of (plug fs t) \<longleftrightarrow> tr h (par_of fs) t \<and> cx h (root_of t) fs"
  by (induction fs t rule: plug.induct) auto

lemma root_of_in: "tr h p t \<Longrightarrow> root_of t \<noteq> 0 \<Longrightarrow> root_of t \<in> set (inord t)"
  by (cases t) auto

lemma root_of_neq [simp]: "a \<notin> set (inord t) \<Longrightarrow> good a \<Longrightarrow> a \<noteq> root_of t"
  by (cases t) auto

lemma root_of_neq' [simp]: "a \<notin> set (inord t) \<Longrightarrow> good a \<Longrightarrow> root_of t \<noteq> a"
  by (cases t) auto

lemma root_of_good: "tr h p t \<Longrightarrow> t \<noteq> Lf \<Longrightarrow> good (root_of t)"
  by (cases t) auto

lemma tr_good: "tr h p t \<Longrightarrow> a \<in> set (inord t) \<Longrightarrow> good a"
  by (induction t arbitrary: p) auto

lemma cx_good: "cx h x fs \<Longrightarrow> a \<in> around fs \<Longrightarrow> good a"
  by (induction h x fs rule: cx.induct) (auto simp: tr_good)

section \<open>What an update leaves unchanged\<close>

lemma parent_color_other [simp]:
  "a \<noteq> n \<Longrightarrow> GET_PARENT (SET_PARENT h n p) a = GET_PARENT h a"
  "a \<noteq> n \<Longrightarrow> GET_COLOR (SET_PARENT h n p) a = GET_COLOR h a"
  "a \<noteq> n \<Longrightarrow> GET_PARENT (SET_COLOR h n p) a = GET_PARENT h a"
  "a \<noteq> n \<Longrightarrow> GET_COLOR (SET_COLOR h n p) a = GET_COLOR h a"
  by (simp_all add: GET_PARENT_def GET_COLOR_def)

definition same_node :: "rbmem \<Rightarrow> rbmem \<Rightarrow> u32 \<Rightarrow> bool" where
  "same_node h' h a \<longleftrightarrow> GET_PARENT h' a = GET_PARENT h a \<and> GET_COLOR h' a = GET_COLOR h a \<and>
     rb_L h' a = rb_L h a \<and> rb_R h' a = rb_R h a"

lemma same_node_upd:
  "b \<noteq> a \<Longrightarrow> same_node (SET_PARENT h a q) h b"
  "b \<noteq> a \<Longrightarrow> same_node (set_L h a q) h b"
  "b \<noteq> a \<Longrightarrow> same_node (set_R h a q) h b"
  "same_node (h\<lparr>rb_root := q\<rparr>) h b"
  by (simp_all add: same_node_def)

lemma tr_cong: "(\<And>a. a \<in> set (inord t) \<Longrightarrow> same_node h' h a) \<Longrightarrow> tr h' p t = tr h p t"
  by (induction t arbitrary: p) (auto simp: same_node_def)

lemma cx_cong:
  "(\<And>a. a \<in> around fs \<Longrightarrow> same_node h' h a) \<Longrightarrow> rb_root h' = rb_root h \<Longrightarrow> cx h' x fs = cx h x fs"
  by (induction h x fs rule: cx.induct) (auto simp: same_node_def cong: tr_cong)

lemma tr_other [simp]:
  "a \<notin> set (inord t) \<Longrightarrow> tr (SET_PARENT h a q) p t = tr h p t"
  "a \<notin> set (inord t) \<Longrightarrow> tr (set_L h a q) p t = tr h p t"
  "a \<notin> set (inord t) \<Longrightarrow> tr (set_R h a q) p t = tr h p t"
  "tr (h\<lparr>rb_root := q\<rparr>) p t = tr h p t"
  by - (rule tr_cong, rule same_node_upd, blast?)+

lemma cx_other [simp]:
  "a \<notin> around fs \<Longrightarrow> cx (SET_PARENT h a q) x fs = cx h x fs"
  "a \<notin> around fs \<Longrightarrow> cx (set_L h a q) x fs = cx h x fs"
  "a \<notin> around fs \<Longrightarrow> cx (set_R h a q) x fs = cx h x fs"
  by - (rule cx_cong, rule same_node_upd, blast, simp)+

lemma color_ok: "c \<in> {RB_BLACK, RB_RED} \<Longrightarrow> c AND 3 = c"
  by auto

lemma tr_SET_COLOR [simp]: "c \<in> {RB_BLACK, RB_RED} \<Longrightarrow> tr h p t \<Longrightarrow> tr (SET_COLOR h a c) p t"
  by (induction t arbitrary: p) (simp_all only: tr.simps color_SET_COLOR color_ok fields_SET_COLOR fun_upd_def, auto)

lemma cx_SET_COLOR [simp]: "c \<in> {RB_BLACK, RB_RED} \<Longrightarrow> cx h x fs \<Longrightarrow> cx (SET_COLOR h a c) x fs"
  by (induction h x fs rule: cx.induct)
    (simp_all only: cx.simps tr_SET_COLOR color_SET_COLOR color_ok fields_SET_COLOR fun_upd_def, auto)

lemma tr_new_parent:
  "tr h p t \<Longrightarrow> distinct (inord t) \<Longrightarrow> q AND 3 = 0 \<Longrightarrow> tr (SET_PARENT h (root_of t) q) q t"
  by (cases t) auto

section \<open>Transplanting\<close>

fun hang :: "rbmem \<Rightarrow> frame list \<Rightarrow> u32 \<Rightarrow> rbmem" where
  "hang h [] s = h\<lparr>rb_root := s\<rparr>"
| "hang h (FL a r # fs) s = set_L h a s"
| "hang h (FR l a # fs) s = set_R h a s"

lemma hang_fields [simp]:
  "rb_key (hang h fs s) = rb_key h" "GET_PARENT (hang h fs s) = GET_PARENT h"
  "GET_COLOR (hang h fs s) = GET_COLOR h" "parent_and_color (hang h fs s) = parent_and_color h"
  "a \<notin> around fs \<Longrightarrow> rb_L (hang h fs s) a = rb_L h a"
  "a \<notin> around fs \<Longrightarrow> rb_R (hang h fs s) a = rb_R h a"
  by (cases "(h, fs, s)" rule: hang.cases; simp)+

lemma tr_hang [simp]: "set (inord t) \<inter> around fs = {} \<Longrightarrow> tr (hang h fs s) p t = tr h p t"
  by (rule tr_cong) (auto simp: disjoint_iff same_node_def)

lemma cx_hang:
  "cx h x fs \<Longrightarrow> distinct (lefts fs @ rights fs) \<Longrightarrow> cx (hang h fs s) s fs"
  by (cases "(h, fs, s)" rule: hang.cases) (auto simp: around_def)

lemma root_around: "cx h x fs \<Longrightarrow> fs \<noteq> [] \<Longrightarrow> rb_root h \<in> around fs"
proof (induction h x fs rule: cx.induct)
  case (2 h x a r fs)
  then show ?case by (cases fs) auto
next
  case (3 h x l a fs)
  then show ?case by (cases fs) auto
qed simp

lemma par_of_aligned [simp]: "cx h x fs \<Longrightarrow> par_of fs AND 3 = 0"
  by (cases "(h, x, fs)" rule: cx.cases) auto

lemma par_of_around: "fs \<noteq> [] \<Longrightarrow> par_of fs \<in> around fs"
  by (cases fs; cases "hd fs") auto

lemma transplant_ok:
  assumes "cx h x fs" "good x" "x \<notin> around fs" "GET_PARENT h x = par_of fs" "good s"
  shows "rb_transplant h x s = Inr (SET_PARENT (hang h fs s) s (par_of fs))"
proof (cases "fs = []")
  case True
  then have "rb_root h = x" using assms(1) by simp
  moreover have "GET_PARENT h x = 0" using assms(4) True by simp
  moreover have "x \<noteq> 0" "s \<noteq> 0" using assms(2,5) by simp_all
  ultimately show ?thesis unfolding True by (simp add: rb_transplant_def not_null_def cong del: and_then_cong)
next
  case False
  then have "rb_root h \<noteq> x" using assms root_around by blast
  moreover from False obtain f fs' where fs: "fs = f # fs'" by (cases fs) auto
  ultimately show ?thesis
  proof (cases f)
    case (FL a r)
    then have "rb_R h a \<noteq> x" "rb_L h a = x" "a \<noteq> 0" using assms fs by auto
    then show ?thesis using assms FL fs \<open>rb_root h \<noteq> x\<close> by (simp add: rb_transplant_def not_null_def cong del: and_then_cong)
  next
    case (FR l a)
    then have "rb_R h a = x" "a \<noteq> 0" using assms fs by auto
    then show ?thesis using assms FR fs \<open>rb_root h \<noteq> x\<close> by (simp add: rb_transplant_def not_null_def cong del: and_then_cong)
  qed
qed

section \<open>Rotations\<close>

text \<open>What an operation on the nodes \<open>S\<close> leaves unchanged in memory.\<close>

definition only_nodes :: "u32 set \<Rightarrow> rbmem \<Rightarrow> rbmem \<Rightarrow> bool" where
  "only_nodes S h h' \<longleftrightarrow> rb_key h' = rb_key h \<and>
     (\<forall>a. a \<notin> S \<longrightarrow> parent_and_color h' a = parent_and_color h a \<and> rb_L h' a = rb_L h a \<and> rb_R h' a = rb_R h a)"

lemma only_nodes_refl [simp]: "only_nodes S h h"
  by (simp add: only_nodes_def)

lemma only_nodes_trans: "only_nodes S h h' \<Longrightarrow> only_nodes S h' h'' \<Longrightarrow> only_nodes S h h''"
  by (auto simp: only_nodes_def)

lemma only_nodes_SET_COLOR [simp]: "a \<in> S \<Longrightarrow> only_nodes S h (SET_COLOR h a c)"
  unfolding only_nodes_def by (metis fields_SET_COLOR(1,2,3) pac_other(2))

lemma only_nodes_mono: "only_nodes S h h' \<Longrightarrow> S \<subseteq> S' \<Longrightarrow> only_nodes S' h h'"
  by (auto simp: only_nodes_def)

lemma left_rotate_ok:
  assumes "cx h x fs" "tr h (par_of fs) (Nd A x (Nd B y C))"
    "distinct (inord (plug fs (Nd A x (Nd B y C))))"
  obtains h' where "rb_left_rotate h x = Inr h'" "cx h' y fs" "tr h' (par_of fs) (Nd (Nd A x B) y C)"
    "GET_COLOR h' = GET_COLOR h" "only_nodes ({x, y} \<union> set (inord B) \<union> around fs) h h'"
proof -
  let ?p = "par_of fs"
  let ?h1 = "SET_PARENT (set_R h x 0) y 0"
  let ?h2 = "SET_PARENT (hang ?h1 fs y) y ?p"
  have d: "x \<notin> around fs" "y \<notin> around fs" "x \<noteq> y" "y \<noteq> x" "x \<notin> set (inord A)" "y \<notin> set (inord A)"
    "x \<notin> set (inord B)" "y \<notin> set (inord B)" "x \<notin> set (inord C)" "y \<notin> set (inord C)"
    "set (inord A) \<inter> around fs = {}" "set (inord B) \<inter> around fs = {}" "set (inord C) \<inter> around fs = {}"
    "distinct (lefts fs @ rights fs)" "distinct (inord B)" "set (inord B) \<inter> set (inord C) = {}"
    "set (inord A) \<inter> set (inord B) = {}"
    using assms(3) by (auto simp: around_def)
  note t = assms(2) [simplified]
  have g: "good x" "good y" using t by auto
  have detach: "rb_detach h y = ?h1"
    using t d by (simp add: rb_detach_def Let_def)
  have "cx ?h1 x fs" using assms(1) d by simp
  then have tp: "rb_transplant ?h1 x y = Inr ?h2"
    by (rule transplant_ok) (use t d in auto)
  have cx2: "cx ?h2 y fs"
    using cx_hang [OF \<open>cx ?h1 x fs\<close>, of y] d by simp
  have al: "?p AND 3 = 0" using assms(1) by simp
  note step = rb_left_rotate_def detach not_null_def Let_def rb_detach_def
  show ?thesis
  proof (cases B)
    case Lf
    let ?h3 = "SET_PARENT (set_L ?h2 y x) x y"
    show ?thesis
    proof (rule that)
      show "rb_left_rotate h x = Inr ?h3" using t g d tp Lf by (simp add: step cong del: and_then_cong)
      show "cx ?h3 y fs" using cx2 d by simp
      show "tr ?h3 ?p (Nd (Nd A x B) y C)" using t g d al Lf by simp
      show "GET_COLOR ?h3 = GET_COLOR h" using g al by simp
      show "only_nodes ({x, y} \<union> set (inord B) \<union> around fs) h ?h3" by (auto simp: only_nodes_def)
    qed
  next
    case (Nd B1 b B2)
    let ?h3 = "SET_PARENT (set_R (SET_PARENT (set_L (SET_PARENT (set_L ?h2 y 0) b 0) y x) x y) x b) b x"
    have e: "b \<noteq> x" "b \<noteq> y" "x \<noteq> b" "y \<noteq> b" "b \<notin> around fs" "b \<notin> set (inord A)" "b \<notin> set (inord C)"
      "b \<notin> set (inord B1)" "b \<notin> set (inord B2)" "x \<notin> set (inord B1)" "x \<notin> set (inord B2)"
      "y \<notin> set (inord B1)" "y \<notin> set (inord B2)" "set (inord B1) \<inter> around fs = {}" "set (inord B2) \<inter> around fs = {}"
      using d Nd by auto
    show ?thesis
    proof (rule that)
      show "rb_left_rotate h x = Inr ?h3" using t g d e tp al Nd by (simp add: step cong del: and_then_cong)
      show "cx ?h3 y fs" using cx2 d e by simp
      show "tr ?h3 ?p (Nd (Nd A x B) y C)" using t g d al Nd e by simp
      show "GET_COLOR ?h3 = GET_COLOR h" using g al by simp
      show "only_nodes ({x, y} \<union> set (inord B) \<union> around fs) h ?h3" using Nd by (auto simp: only_nodes_def)
    qed
  qed
qed

lemma right_rotate_ok:
  assumes "cx h x fs" "tr h (par_of fs) (Nd (Nd C y B) x A)"
    "distinct (inord (plug fs (Nd (Nd C y B) x A)))"
  obtains h' where "rb_right_rotate h x = Inr h'" "cx h' y fs" "tr h' (par_of fs) (Nd C y (Nd B x A))"
    "GET_COLOR h' = GET_COLOR h" "only_nodes ({x, y} \<union> set (inord B) \<union> around fs) h h'"
proof -
  let ?p = "par_of fs"
  let ?h1 = "SET_PARENT (set_L h x 0) y 0"
  let ?h2 = "SET_PARENT (hang ?h1 fs y) y ?p"
  have d: "x \<notin> around fs" "y \<notin> around fs" "x \<noteq> y" "y \<noteq> x" "x \<notin> set (inord A)" "y \<notin> set (inord A)"
    "x \<notin> set (inord B)" "y \<notin> set (inord B)" "x \<notin> set (inord C)" "y \<notin> set (inord C)"
    "set (inord A) \<inter> around fs = {}" "set (inord B) \<inter> around fs = {}" "set (inord C) \<inter> around fs = {}"
    "distinct (lefts fs @ rights fs)" "distinct (inord B)" "set (inord B) \<inter> set (inord C) = {}"
    "set (inord A) \<inter> set (inord B) = {}"
    using assms(3) by (auto simp: around_def)
  note t = assms(2) [simplified]
  have g: "good x" "good y" using t by auto
  have detach: "rb_detach h y = ?h1"
    using t d by (simp add: rb_detach_def Let_def)
  have "cx ?h1 x fs" using assms(1) d by simp
  then have tp: "rb_transplant ?h1 x y = Inr ?h2"
    by (rule transplant_ok) (use t d in auto)
  have cx2: "cx ?h2 y fs"
    using cx_hang [OF \<open>cx ?h1 x fs\<close>, of y] d by simp
  have al: "?p AND 3 = 0" using assms(1) by simp
  note step = rb_right_rotate_def detach not_null_def Let_def rb_detach_def
  show ?thesis
  proof (cases B)
    case Lf
    let ?h3 = "SET_PARENT (set_R ?h2 y x) x y"
    show ?thesis
    proof (rule that)
      show "rb_right_rotate h x = Inr ?h3" using t g d tp Lf by (simp add: step cong del: and_then_cong)
      show "cx ?h3 y fs" using cx2 d by simp
      show "tr ?h3 ?p (Nd C y (Nd B x A))" using t g d al Lf by simp
      show "GET_COLOR ?h3 = GET_COLOR h" using g al by simp
      show "only_nodes ({x, y} \<union> set (inord B) \<union> around fs) h ?h3" by (auto simp: only_nodes_def)
    qed
  next
    case (Nd B1 b B2)
    let ?h3 = "SET_PARENT (set_L (SET_PARENT (set_R (SET_PARENT (set_R ?h2 y 0) b 0) y x) x y) x b) b x"
    have e: "b \<noteq> x" "b \<noteq> y" "x \<noteq> b" "y \<noteq> b" "b \<notin> around fs" "b \<notin> set (inord A)" "b \<notin> set (inord C)"
      "b \<notin> set (inord B1)" "b \<notin> set (inord B2)" "x \<notin> set (inord B1)" "x \<notin> set (inord B2)"
      "y \<notin> set (inord B1)" "y \<notin> set (inord B2)" "set (inord B1) \<inter> around fs = {}" "set (inord B2) \<inter> around fs = {}"
      using d Nd by auto
    show ?thesis
    proof (rule that)
      show "rb_right_rotate h x = Inr ?h3" using t g d e tp al Nd by (simp add: step cong del: and_then_cong)
      show "cx ?h3 y fs" using cx2 d e by simp
      show "tr ?h3 ?p (Nd C y (Nd B x A))" using t g d al Nd e by simp
      show "GET_COLOR ?h3 = GET_COLOR h" using g al by simp
      show "only_nodes ({x, y} \<union> set (inord B) \<union> around fs) h ?h3" using Nd by (auto simp: only_nodes_def)
    qed
  qed
qed

end
