(* ===== verification/Rbtree_Props.thy ===== *)
theory Rbtree_Props
  imports Rbtree_Spec
begin

text \<open>
  Insertion into a red-black tree and the searches on it are correct; removing a node works where
  the node's place is taken by an existing child, and follows a null pointer where it is not.
\<close>

section \<open>The colour invariant\<close>

fun rr :: "(u32 \<Rightarrow> u32) \<Rightarrow> shape \<Rightarrow> bool" where
  "rr c Lf = False"
| "rr c (Nd l a r) = (c a = RB_RED)"

fun bh :: "(u32 \<Rightarrow> u32) \<Rightarrow> shape \<Rightarrow> nat" where
  "bh c Lf = 0"
| "bh c (Nd l a r) = (if c a = RB_RED then bh c l else Suc (bh c l))"

fun rinv :: "(u32 \<Rightarrow> u32) \<Rightarrow> shape \<Rightarrow> bool" where
  "rinv c Lf = True"
| "rinv c (Nd l a r) \<longleftrightarrow>
     rinv c l \<and> rinv c r \<and> bh c l = bh c r \<and> (c a = RB_RED \<longrightarrow> \<not> rr c l \<and> \<not> rr c r)"

text \<open>Below which frames a red node may stand, and the invariant of the nodes around a position.\<close>

definition red_ok :: "(u32 \<Rightarrow> u32) \<Rightarrow> frame list \<Rightarrow> bool" where
  "red_ok c fs \<longleftrightarrow> fs \<noteq> [] \<and> c (par_of fs) \<noteq> RB_RED"

fun cinv :: "(u32 \<Rightarrow> u32) \<Rightarrow> nat \<Rightarrow> frame list \<Rightarrow> bool" where
  "cinv c k [] = True"
| "cinv c k (FL a r # fs) \<longleftrightarrow> rinv c r \<and> bh c r = k \<and> (c a = RB_RED \<longrightarrow> \<not> rr c r \<and> red_ok c fs) \<and>
     cinv c (if c a = RB_RED then k else Suc k) fs"
| "cinv c k (FR l a # fs) \<longleftrightarrow> rinv c l \<and> bh c l = k \<and> (c a = RB_RED \<longrightarrow> \<not> rr c l \<and> red_ok c fs) \<and>
     cinv c (if c a = RB_RED then k else Suc k) fs"

lemma inv_plug:
  "rinv c (plug fs t) \<and> \<not> rr c (plug fs t) \<longleftrightarrow>
     rinv c t \<and> cinv c (bh c t) fs \<and> (rr c t \<longrightarrow> red_ok c fs)"
  by (induction fs t rule: plug.induct) (auto simp: red_ok_def)

lemma colour_other [simp]:
  "a \<notin> set (inord t) \<Longrightarrow> rr (c(a := v)) t = rr c t"
  "a \<notin> set (inord t) \<Longrightarrow> bh (c(a := v)) t = bh c t"
  "a \<notin> set (inord t) \<Longrightarrow> rinv (c(a := v)) t = rinv c t"
  by (induction t) auto

lemma red_ok_other [simp]: "a \<notin> around fs \<Longrightarrow> red_ok (c(a := v)) fs = red_ok c fs"
  using par_of_around [of fs] by (auto simp: red_ok_def)

lemma cinv_other [simp]: "a \<notin> around fs \<Longrightarrow> cinv (c(a := v)) k fs = cinv c k fs"
  by (induction c k fs rule: cinv.induct) auto

definition rbtree :: "rbmem \<Rightarrow> shape \<Rightarrow> bool" where
  "rbtree h t \<longleftrightarrow> tr h 0 t \<and> rb_root h = root_of t \<and> distinct (inord t) \<and>
     rinv (GET_COLOR h) t \<and> \<not> rr (GET_COLOR h) t"

lemma rbtreeI:
  assumes "cx h a fs" "tr h (par_of fs) t" "root_of t = a" "distinct (inord (plug fs t))"
    "rinv (GET_COLOR h) t" "cinv (GET_COLOR h) (bh (GET_COLOR h) t) fs"
    "rr (GET_COLOR h) t \<Longrightarrow> red_ok (GET_COLOR h) fs"
  shows "rbtree h (plug fs t)"
  using assms inv_plug [of "GET_COLOR h" fs t] plug_in_memory [of h fs t]
  by (auto simp: rbtree_def)

section \<open>Insertion restores the invariant\<close>

definition restored :: "u32 \<Rightarrow> rbmem \<Rightarrow> shape \<Rightarrow> bool" where
  "restored n h T \<longleftrightarrow> (\<exists>h' t'. rb_insert_fixup n h = Some (Inr h') \<and> rbtree h' t' \<and>
     inord t' = inord T \<and> only_nodes (set (inord T)) h h')"

lemma restoredI:
  "rb_insert_fixup n h = Some (Inr h') \<Longrightarrow> rbtree h' t' \<Longrightarrow> inord t' = inord T \<Longrightarrow>
   only_nodes (set (inord T)) h h' \<Longrightarrow> restored n h T"
  by (auto simp: restored_def)

text \<open>The node below which the invariant may fail: a red node with black children.\<close>

definition pending :: "rbmem \<Rightarrow> frame list \<Rightarrow> shape \<Rightarrow> u32 \<Rightarrow> shape \<Rightarrow> bool" where
  "pending h fs l n r \<longleftrightarrow> cx h n fs \<and> tr h (par_of fs) (Nd l n r) \<and>
     distinct (inord (plug fs (Nd l n r))) \<and> GET_COLOR h n = RB_RED \<and>
     cinv (GET_COLOR h) (bh (GET_COLOR h) l) fs \<and> rinv (GET_COLOR h) (Nd l n r)"

lemma pendingD:
  assumes "pending h fs l n r"
  shows "cx h n fs" "tr h (par_of fs) (Nd l n r)" "distinct (inord (plug fs (Nd l n r)))"
    "GET_COLOR h n = RB_RED" "cinv (GET_COLOR h) (bh (GET_COLOR h) l) fs"
    "rinv (GET_COLOR h) l" "rinv (GET_COLOR h) r" "bh (GET_COLOR h) r = bh (GET_COLOR h) l"
    "\<not> rr (GET_COLOR h) l" "\<not> rr (GET_COLOR h) r"
  using assms unfolding pending_def rinv.simps by (elim conjE; simp)+

lemma restored_at_root: "pending h [] l n r \<Longrightarrow> restored n h (plug [] (Nd l n r))"
  by (rule restoredI [where h' = "SET_COLOR h n RB_BLACK" and t' = "Nd l n r"])
    (auto simp: pending_def rb_insert_fixup.simps [of n h] rbtree_def)

lemma restored_below_black:
  assumes "pending h fs l n r" "red_ok (GET_COLOR h) fs"
  shows "restored n h (plug fs (Nd l n r))"
proof -
  have "par_of fs \<noteq> 0" "GET_COLOR h (par_of fs) = RB_BLACK"
    using assms by (cases "(h, n, fs)" rule: cx.cases; auto simp: pending_def red_ok_def)+
  then have "rb_insert_fixup n h = Some (Inr h)"
    using assms(1) by (simp add: rb_insert_fixup.simps [of n h] pending_def)
  moreover have "rbtree h (plug fs (Nd l n r))"
    using assms by (intro rbtreeI [where a = n]) (auto simp: pending_def)
  ultimately show ?thesis by (intro restoredI [where h' = h]) auto
qed

text \<open>The nodes above a red node whose parent is red.\<close>

lemma above_red:
  assumes "pending h (f # fs') l n r" "GET_COLOR h (frame_addr f) = RB_RED"
  obtains P s G U fs where "f = FL P s \<or> f = FR s P" "fs' = FL G U # fs \<or> fs' = FR U G # fs"
    "fs' = FL G U # fs \<longrightarrow> rb_L h G = P \<and> rb_R h G = root_of U"
    "fs' = FR U G # fs \<longrightarrow> rb_R h G = P \<and> rb_L h G = root_of U"
    "GET_PARENT h n = P" "GET_PARENT h P = G" "P \<noteq> 0" "G \<noteq> 0" "GET_COLOR h P = RB_RED"
    "GET_COLOR h G = RB_BLACK" "root_of U \<noteq> P" "P \<noteq> n" "tr h G U"
proof -
  note pd = pendingD [OF assms(1)]
  have cxn: "cx h n (f # fs')" and ci: "cinv (GET_COLOR h) (bh (GET_COLOR h) l) (f # fs')"
    and d: "distinct (inord (plug (f # fs') (Nd l n r)))" and pn: "GET_PARENT h n = frame_addr f"
    using pd by simp_all
  obtain P s where f: "f = FL P s \<or> f = FR s P" by (cases f) auto
  then have P: "frame_addr f = P" by auto
  have ok: "red_ok (GET_COLOR h) fs'" using ci f assms(2) by auto
  then obtain G U fs where fs': "fs' = FL G U # fs \<or> fs' = FR U G # fs"
    by (cases fs'; cases "hd fs'") (auto simp: red_ok_def)
  then have G: "par_of fs' = G" by auto
  have cxP: "cx h P fs'" "GET_PARENT h P = G" "good P" using cxn f G by auto
  have dP: "P \<notin> set (inord U)" "P \<noteq> n" using d f fs' by auto
  show ?thesis
  proof (rule that [OF f fs'])
    show "fs' = FL G U # fs \<longrightarrow> rb_L h G = P \<and> rb_R h G = root_of U"
      "fs' = FR U G # fs \<longrightarrow> rb_R h G = P \<and> rb_L h G = root_of U" using cxP(1) by auto
    show "tr h G U" "G \<noteq> 0" using cxP(1) fs' by auto
    show "GET_COLOR h G = RB_BLACK" using cxP(1) fs' ok by (auto simp: red_ok_def)
    show "root_of U \<noteq> P" using dP cxP by simp
    show "GET_COLOR h P = RB_RED" using assms(2) P by simp
  qed (use pn P cxP dP in auto)
qed

text \<open>A red uncle: the parent and the uncle turn black, and the grandparent is pending.\<close>

definition recoloured :: "rbmem \<Rightarrow> u32 \<Rightarrow> u32 \<Rightarrow> u32 \<Rightarrow> rbmem" where
  "recoloured h P u G = SET_COLOR (SET_COLOR (SET_COLOR h P RB_BLACK) u RB_BLACK) G RB_RED"

lemma fixup_red_uncle:
  assumes "GET_PARENT h n = P" "GET_PARENT h P = G" "P \<noteq> 0" "G \<noteq> 0" "GET_COLOR h P = RB_RED"
    "rb_L h G = P \<and> rb_R h G = u \<or> rb_R h G = P \<and> rb_L h G = u" "u \<noteq> P" "u \<noteq> 0" "GET_COLOR h u = RB_RED"
  shows "rb_insert_fixup n h = rb_insert_fixup G (recoloured h P u G)"
  using assms by (subst rb_insert_fixup.simps) (auto simp: recoloured_def)

lemma pending_left:
  assumes "pending h (f # FL G U # fs) l n r" "f = FL P s \<or> f = FR s P" "GET_COLOR h P = RB_RED"
    "U = Nd U1 u U2" "GET_COLOR h u = RB_RED" "GET_COLOR h G = RB_BLACK"
  shows "pending (recoloured h P u G) fs (plug [f] (Nd l n r)) G U"
proof -
  note pd = pendingD [OF assms(1)]
  show ?thesis
    using assms(2-) pd unfolding pending_def recoloured_def
    by (elim disjE; hypsubst; intro conjI; force simp: around_def)
qed

lemma pending_right:
  assumes "pending h (f # FR U G # fs) l n r" "f = FL P s \<or> f = FR s P" "GET_COLOR h P = RB_RED"
    "U = Nd U1 u U2" "GET_COLOR h u = RB_RED" "GET_COLOR h G = RB_BLACK"
  shows "pending (recoloured h P u G) fs U G (plug [f] (Nd l n r))"
proof -
  note pd = pendingD [OF assms(1)]
  show ?thesis
    using assms(2-) pd unfolding pending_def recoloured_def
    by (elim disjE; hypsubst; intro conjI; force simp: around_def)
qed

text \<open>A black uncle: one or two rotations.\<close>

lemma last_right_rotate:
  assumes "cx h P (FL G U # fs)" "tr h G (Nd X P s)" "distinct (inord (plug (FL G U # fs) (Nd X P s)))"
    "GET_COLOR h P = RB_BLACK" "GET_COLOR h G = RB_RED" "rinv (GET_COLOR h) X" "rinv (GET_COLOR h) s"
    "rinv (GET_COLOR h) U" "bh (GET_COLOR h) X = k" "bh (GET_COLOR h) s = k" "bh (GET_COLOR h) U = k"
    "\<not> rr (GET_COLOR h) s" "\<not> rr (GET_COLOR h) U" "cinv (GET_COLOR h) (Suc k) fs"
  obtains h' t' where "rb_right_rotate h G = Inr h'" "rbtree h' t'"
    "inord t' = inord (plug (FL G U # fs) (Nd X P s))"
    "only_nodes (set (inord (plug (FL G U # fs) (Nd X P s)))) h h'"
proof -
  have cxG: "cx h G fs" and tG: "tr h (par_of fs) (Nd (Nd X P s) G U)"
    and d: "distinct (inord (plug fs (Nd (Nd X P s) G U)))"
    using assms(1-3) by simp_all
  obtain h' where h': "rb_right_rotate h G = Inr h'" "cx h' P fs"
    "tr h' (par_of fs) (Nd X P (Nd s G U))" "GET_COLOR h' = GET_COLOR h"
    "only_nodes ({G, P} \<union> set (inord s) \<union> around fs) h h'"
    by (rule right_rotate_ok [OF cxG tG d])
  show ?thesis
  proof (rule that [OF h'(1)])
    show "rbtree h' (plug fs (Nd X P (Nd s G U)))"
      by (rule rbtreeI [OF h'(2,3)]) (use d assms(4-) h'(4) in simp_all)
    show "inord (plug fs (Nd X P (Nd s G U))) = inord (plug (FL G U # fs) (Nd X P s))" by simp
    show "only_nodes (set (inord (plug (FL G U # fs) (Nd X P s)))) h h'"
      using h'(5) by (rule only_nodes_mono) (auto simp: around_def)
  qed
qed

lemma last_left_rotate:
  assumes "cx h P (FR U G # fs)" "tr h G (Nd s P X)" "distinct (inord (plug (FR U G # fs) (Nd s P X)))"
    "GET_COLOR h P = RB_BLACK" "GET_COLOR h G = RB_RED" "rinv (GET_COLOR h) X" "rinv (GET_COLOR h) s"
    "rinv (GET_COLOR h) U" "bh (GET_COLOR h) X = k" "bh (GET_COLOR h) s = k" "bh (GET_COLOR h) U = k"
    "\<not> rr (GET_COLOR h) s" "\<not> rr (GET_COLOR h) U" "cinv (GET_COLOR h) (Suc k) fs"
  obtains h' t' where "rb_left_rotate h G = Inr h'" "rbtree h' t'"
    "inord t' = inord (plug (FR U G # fs) (Nd s P X))"
    "only_nodes (set (inord (plug (FR U G # fs) (Nd s P X)))) h h'"
proof -
  have cxG: "cx h G fs" and tG: "tr h (par_of fs) (Nd U G (Nd s P X))"
    and d: "distinct (inord (plug fs (Nd U G (Nd s P X))))"
    using assms(1-3) by simp_all
  obtain h' where h': "rb_left_rotate h G = Inr h'" "cx h' P fs"
    "tr h' (par_of fs) (Nd (Nd U G s) P X)" "GET_COLOR h' = GET_COLOR h"
    "only_nodes ({G, P} \<union> set (inord s) \<union> around fs) h h'"
    by (rule left_rotate_ok [OF cxG tG d])
  show ?thesis
  proof (rule that [OF h'(1)])
    show "rbtree h' (plug fs (Nd (Nd U G s) P X))"
      by (rule rbtreeI [OF h'(2,3)]) (use d assms(4-) h'(4) in simp_all)
    show "inord (plug fs (Nd (Nd U G s) P X)) = inord (plug (FR U G # fs) (Nd s P X))" by simp
    show "only_nodes (set (inord (plug (FR U G # fs) (Nd s P X)))) h h'"
      using h'(5) by (rule only_nodes_mono) (auto simp: around_def)
  qed
qed

lemma only_nodes_two_colours: "a \<in> S \<Longrightarrow> b \<in> S \<Longrightarrow> only_nodes S h (SET_COLOR (SET_COLOR h a c) b d)"
  by (rule only_nodes_trans [OF only_nodes_SET_COLOR only_nodes_SET_COLOR])

lemma rotate_outer_left:
  assumes "pending h (FL P s # FL G U # fs) l n r" "GET_COLOR h P = RB_RED" "GET_COLOR h G = RB_BLACK"
    "\<not> rr (GET_COLOR h) U"
  obtains h' t' where "rb_right_rotate (SET_COLOR (SET_COLOR h P RB_BLACK) G RB_RED) G = Inr h'"
    "rbtree h' t'" "inord t' = inord (plug (FL P s # FL G U # fs) (Nd l n r))"
    "only_nodes (set (inord (plug (FL P s # FL G U # fs) (Nd l n r)))) h h'"
proof -
  let ?h1 = "SET_COLOR (SET_COLOR h P RB_BLACK) G RB_RED"
  note pd = pendingD [OF assms(1)]
  have d: "distinct (inord (plug (FL G U # fs) (Nd (Nd l n r) P s)))" using pd(3) by simp
  have ne: "P \<noteq> n" "G \<noteq> n" "P \<noteq> G" "P \<notin> set (inord l @ inord r @ inord s @ inord U)"
    "G \<notin> set (inord l @ inord r @ inord s @ inord U)" "P \<notin> around fs" "G \<notin> around fs"
    using d by (auto simp: around_def)
  obtain h' t' where h': "rb_right_rotate ?h1 G = Inr h'" "rbtree h' t'"
    "inord t' = inord (plug (FL G U # fs) (Nd (Nd l n r) P s))"
    "only_nodes (set (inord (plug (FL G U # fs) (Nd (Nd l n r) P s)))) ?h1 h'"
    by (rule last_right_rotate [where h = ?h1 and P = P and G = G and U = U and fs = fs and X = "Nd l n r" and s = s
        and k = "bh (GET_COLOR h) l"])
      (use pd assms(2-) ne d in simp_all)
  have "only_nodes (set (inord (plug (FL P s # FL G U # fs) (Nd l n r)))) h ?h1"
    by (rule only_nodes_two_colours) auto
  with h' that show ?thesis by (auto intro: only_nodes_trans)
qed

lemma rotate_outer_right:
  assumes "pending h (FR s P # FR U G # fs) l n r" "GET_COLOR h P = RB_RED" "GET_COLOR h G = RB_BLACK"
    "\<not> rr (GET_COLOR h) U"
  obtains h' t' where "rb_left_rotate (SET_COLOR (SET_COLOR h P RB_BLACK) G RB_RED) G = Inr h'"
    "rbtree h' t'" "inord t' = inord (plug (FR s P # FR U G # fs) (Nd l n r))"
    "only_nodes (set (inord (plug (FR s P # FR U G # fs) (Nd l n r)))) h h'"
proof -
  let ?h1 = "SET_COLOR (SET_COLOR h P RB_BLACK) G RB_RED"
  note pd = pendingD [OF assms(1)]
  have d: "distinct (inord (plug (FR U G # fs) (Nd s P (Nd l n r))))" using pd(3) by simp
  have ne: "P \<noteq> n" "G \<noteq> n" "P \<noteq> G" "P \<notin> set (inord l @ inord r @ inord s @ inord U)"
    "G \<notin> set (inord l @ inord r @ inord s @ inord U)" "P \<notin> around fs" "G \<notin> around fs"
    using d by (auto simp: around_def)
  obtain h' t' where h': "rb_left_rotate ?h1 G = Inr h'" "rbtree h' t'"
    "inord t' = inord (plug (FR U G # fs) (Nd s P (Nd l n r)))"
    "only_nodes (set (inord (plug (FR U G # fs) (Nd s P (Nd l n r))))) ?h1 h'"
    by (rule last_left_rotate [where h = ?h1 and P = P and G = G and U = U and fs = fs and X = "Nd l n r" and s = s
        and k = "bh (GET_COLOR h) l"])
      (use pd assms(2-) ne d in simp_all)
  have "only_nodes (set (inord (plug (FR s P # FR U G # fs) (Nd l n r)))) h ?h1"
    by (rule only_nodes_two_colours) auto
  with h' that show ?thesis by (auto intro: only_nodes_trans)
qed

lemma rotate_inner_left:
  assumes "pending h (FR s P # FL G U # fs) l n r" "GET_COLOR h P = RB_RED" "GET_COLOR h G = RB_BLACK"
    "\<not> rr (GET_COLOR h) U"
  obtains h' t' where
    "and_then (rb_left_rotate (SET_COLOR (SET_COLOR h n RB_BLACK) G RB_RED) P) (\<lambda>h. rb_right_rotate h G) = Inr h'"
    "rbtree h' t'" "inord t' = inord (plug (FR s P # FL G U # fs) (Nd l n r))"
    "only_nodes (set (inord (plug (FR s P # FL G U # fs) (Nd l n r)))) h h'"
proof -
  let ?h1 = "SET_COLOR (SET_COLOR h n RB_BLACK) G RB_RED"
  note pd = pendingD [OF assms(1)]
  have d: "distinct (inord (plug (FL G U # fs) (Nd s P (Nd l n r))))" using pd(3) by simp
  have ne: "P \<noteq> n" "G \<noteq> n" "P \<noteq> G" "n \<notin> set (inord l @ inord r @ inord s @ inord U)"
    "G \<notin> set (inord l @ inord r @ inord s @ inord U)" "n \<notin> around fs" "G \<notin> around fs"
    using d by (auto simp: around_def)
  have t1: "tr ?h1 (par_of (FL G U # fs)) (Nd s P (Nd l n r))" and cx1: "cx ?h1 P (FL G U # fs)"
    using pd(1,2) ne by simp_all
  obtain h2 where h2: "rb_left_rotate ?h1 P = Inr h2" "cx h2 n (FL G U # fs)"
    "tr h2 (par_of (FL G U # fs)) (Nd (Nd s P l) n r)" "GET_COLOR h2 = GET_COLOR ?h1"
    "only_nodes ({P, n} \<union> set (inord l) \<union> around (FL G U # fs)) ?h1 h2"
    by (rule left_rotate_ok [OF cx1 t1 d])
  let ?S = "set (inord (plug (FR s P # FL G U # fs) (Nd l n r)))"
  have d2: "distinct (inord (plug (FL G U # fs) (Nd (Nd s P l) n r)))" using d by simp
  have t2: "tr h2 G (Nd (Nd s P l) n r)" using h2(3) by simp
  obtain h' t' where h': "rb_right_rotate h2 G = Inr h'" "rbtree h' t'"
    "inord t' = inord (plug (FL G U # fs) (Nd (Nd s P l) n r))"
    "only_nodes (set (inord (plug (FL G U # fs) (Nd (Nd s P l) n r)))) h2 h'"
    by (rule last_right_rotate [OF h2(2) t2 d2, where k = "bh (GET_COLOR h) l"])
      (use pd(5-) assms(2-) ne h2(4) in simp_all)
  have "only_nodes ?S h ?h1" by (rule only_nodes_two_colours) auto
  moreover have "only_nodes ?S ?h1 h2" using h2(5) by (rule only_nodes_mono) (auto simp: around_def)
  moreover have "only_nodes ?S h2 h'" using h'(4) by simp
  ultimately have "only_nodes ?S h h'" by (blast intro: only_nodes_trans)
  with h' h2(1) that show ?thesis by simp
qed

lemma rotate_inner_right:
  assumes "pending h (FL P s # FR U G # fs) l n r" "GET_COLOR h P = RB_RED" "GET_COLOR h G = RB_BLACK"
    "\<not> rr (GET_COLOR h) U"
  obtains h' t' where
    "and_then (rb_right_rotate (SET_COLOR (SET_COLOR h n RB_BLACK) G RB_RED) P) (\<lambda>h. rb_left_rotate h G) = Inr h'"
    "rbtree h' t'" "inord t' = inord (plug (FL P s # FR U G # fs) (Nd l n r))"
    "only_nodes (set (inord (plug (FL P s # FR U G # fs) (Nd l n r)))) h h'"
proof -
  let ?h1 = "SET_COLOR (SET_COLOR h n RB_BLACK) G RB_RED"
  note pd = pendingD [OF assms(1)]
  have d: "distinct (inord (plug (FR U G # fs) (Nd (Nd l n r) P s)))" using pd(3) by simp
  have ne: "P \<noteq> n" "G \<noteq> n" "P \<noteq> G" "n \<notin> set (inord l @ inord r @ inord s @ inord U)"
    "G \<notin> set (inord l @ inord r @ inord s @ inord U)" "n \<notin> around fs" "G \<notin> around fs"
    using d by (auto simp: around_def)
  have t1: "tr ?h1 (par_of (FR U G # fs)) (Nd (Nd l n r) P s)" and cx1: "cx ?h1 P (FR U G # fs)"
    using pd(1,2) ne by simp_all
  obtain h2 where h2: "rb_right_rotate ?h1 P = Inr h2" "cx h2 n (FR U G # fs)"
    "tr h2 (par_of (FR U G # fs)) (Nd l n (Nd r P s))" "GET_COLOR h2 = GET_COLOR ?h1"
    "only_nodes ({P, n} \<union> set (inord r) \<union> around (FR U G # fs)) ?h1 h2"
    by (rule right_rotate_ok [OF cx1 t1 d])
  let ?S = "set (inord (plug (FL P s # FR U G # fs) (Nd l n r)))"
  have d2: "distinct (inord (plug (FR U G # fs) (Nd l n (Nd r P s))))" using d by simp
  have t2: "tr h2 G (Nd l n (Nd r P s))" using h2(3) by simp
  obtain h' t' where h': "rb_left_rotate h2 G = Inr h'" "rbtree h' t'"
    "inord t' = inord (plug (FR U G # fs) (Nd l n (Nd r P s)))"
    "only_nodes (set (inord (plug (FR U G # fs) (Nd l n (Nd r P s))))) h2 h'"
    by (rule last_left_rotate [OF h2(2) t2 d2, where k = "bh (GET_COLOR h) l"])
      (use pd(5-) assms(2-) ne h2(4) in simp_all)
  have "only_nodes ?S h ?h1" by (rule only_nodes_two_colours) auto
  moreover have "only_nodes ?S ?h1 h2" using h2(5) by (rule only_nodes_mono) (auto simp: around_def)
  moreover have "only_nodes ?S h2 h'" using h'(4) by simp
  ultimately have "only_nodes ?S h h'" by (blast intro: only_nodes_trans)
  with h' h2(1) that show ?thesis by simp
qed

lemma fixup_black_uncle:
  assumes "GET_PARENT h n = P" "GET_PARENT h P = G" "P \<noteq> 0" "G \<noteq> 0" "GET_COLOR h P = RB_RED"
    "u = 0 \<or> GET_COLOR h u \<noteq> RB_RED" "u \<noteq> P"
  shows "rb_L h G = P \<Longrightarrow> rb_R h G = u \<Longrightarrow> rb_L h P = n \<Longrightarrow>
      rb_insert_fixup n h = Some (rb_right_rotate (SET_COLOR (SET_COLOR h P RB_BLACK) G RB_RED) G)"
    "rb_L h G = P \<Longrightarrow> rb_R h G = u \<Longrightarrow> rb_L h P \<noteq> n \<Longrightarrow> rb_insert_fixup n h = Some (and_then
      (rb_left_rotate (SET_COLOR (SET_COLOR h n RB_BLACK) G RB_RED) P) (\<lambda>h. rb_right_rotate h G))"
    "rb_R h G = P \<Longrightarrow> rb_L h G = u \<Longrightarrow> rb_R h P = n \<Longrightarrow>
      rb_insert_fixup n h = Some (rb_left_rotate (SET_COLOR (SET_COLOR h P RB_BLACK) G RB_RED) G)"
    "rb_R h G = P \<Longrightarrow> rb_L h G = u \<Longrightarrow> rb_R h P \<noteq> n \<Longrightarrow> rb_insert_fixup n h = Some (and_then
      (rb_right_rotate (SET_COLOR (SET_COLOR h n RB_BLACK) G RB_RED) P) (\<lambda>h. rb_left_rotate h G))"
  using assms by (auto simp: rb_insert_fixup.simps [of n h])

lemma restored_black_uncle:
  assumes "pending h (f # g # fs) l n r" "f = FL P s \<or> f = FR s P" "g = FL G U \<or> g = FR U G"
    "GET_PARENT h n = P" "GET_PARENT h P = G" "P \<noteq> 0" "G \<noteq> 0" "GET_COLOR h P = RB_RED"
    "GET_COLOR h G = RB_BLACK" "root_of U \<noteq> P" "\<not> rr (GET_COLOR h) U"
  shows "restored n h (plug (f # g # fs) (Nd l n r))"
proof -
  note pd = pendingD [OF assms(1)]
  have u: "root_of U = 0 \<or> GET_COLOR h (root_of U) \<noteq> RB_RED" using assms(11) by (cases U) auto
  note fx = fixup_black_uncle [OF assms(4-8) u assms(10)]
  have links: "rb_L h P = n \<longleftrightarrow> f = FL P s" "rb_R h P = n \<longleftrightarrow> f = FR s P"
    "g = FL G U \<Longrightarrow> rb_L h G = P \<and> rb_R h G = root_of U"
    "g = FR U G \<Longrightarrow> rb_R h G = P \<and> rb_L h G = root_of U"
    using assms(2,3) pd(1-3) by (elim disjE; force)+
  consider (LL) "f = FL P s" "g = FL G U" | (RL) "f = FR s P" "g = FL G U"
    | (RR) "f = FR s P" "g = FR U G" | (LR) "f = FL P s" "g = FR U G"
    using assms(2,3) by blast
  then show ?thesis
  proof cases
    case LL
    show ?thesis
      by (rule rotate_outer_left [OF assms(1) [unfolded LL] assms(8,9,11)], unfold LL)
        (rule restoredI, use fx(1) links LL in simp_all)
  next
    case RL
    show ?thesis
      by (rule rotate_inner_left [OF assms(1) [unfolded RL] assms(8,9,11)], unfold RL)
        (rule restoredI, use fx(2) links RL in simp_all)
  next
    case RR
    show ?thesis
      by (rule rotate_outer_right [OF assms(1) [unfolded RR] assms(8,9,11)], unfold RR)
        (rule restoredI, use fx(3) links RR in simp_all)
  next
    case LR
    show ?thesis
      by (rule rotate_inner_right [OF assms(1) [unfolded LR] assms(8,9,11)], unfold LR)
        (rule restoredI, use fx(4) links LR in simp_all)
  qed
qed

lemma insert_fixup_restores: "pending h fs l n r \<Longrightarrow> restored n h (plug fs (Nd l n r))"
proof (induction "length fs" arbitrary: h fs l n r rule: less_induct)
  case less
  show ?case
  proof (cases fs)
    case Nil
    with less.prems show ?thesis using restored_at_root by blast
  next
    case (Cons f fs')
    show ?thesis
    proof (cases "GET_COLOR h (frame_addr f) = RB_RED")
      case False
      with less.prems Cons show ?thesis by (intro restored_below_black) (auto simp: red_ok_def)
    next
      case True
      from less.prems Cons have pf: "pending h (f # fs') l n r" by simp
      obtain P s G U gs where above: "f = FL P s \<or> f = FR s P" "fs' = FL G U # gs \<or> fs' = FR U G # gs"
        "fs' = FL G U # gs \<longrightarrow> rb_L h G = P \<and> rb_R h G = root_of U"
        "fs' = FR U G # gs \<longrightarrow> rb_R h G = P \<and> rb_L h G = root_of U"
        "GET_PARENT h n = P" "GET_PARENT h P = G" "P \<noteq> 0" "G \<noteq> 0" "GET_COLOR h P = RB_RED"
        "GET_COLOR h G = RB_BLACK" "root_of U \<noteq> P" "P \<noteq> n" "tr h G U"
        by (rule above_red [OF pf True])
      then obtain g where g: "fs' = g # gs" "g = FL G U \<or> g = FR U G" by blast
      show ?thesis
      proof (cases "rr (GET_COLOR h) U")
        case False
        then show ?thesis
          using restored_black_uncle [OF pf [unfolded g] above(1) g(2) above(5-11)] Cons g by simp
      next
        case True
        then obtain U1 u U2 where U: "U = Nd U1 u U2" "GET_COLOR h u = RB_RED" by (cases U) auto
        let ?h1 = "recoloured h P u G" and ?S = "set (inord (plug fs (Nd l n r)))"
        have "u \<noteq> 0" using above(13) U by auto
        then have step: "rb_insert_fixup n h = rb_insert_fixup G ?h1"
          using above U g by (intro fixup_red_uncle) auto
        have "restored G ?h1 (plug fs (Nd l n r))"
        proof (cases "g = FL G U")
          case True
          then have "restored G ?h1 (plug gs (Nd (plug [f] (Nd l n r)) G U))"
            using pending_left [OF pf [unfolded g True] above(1,9) U above(10)]
            by (intro less.hyps) (auto simp: Cons g)
          then show ?thesis using Cons g True above(1) by auto
        next
          case False
          then have R: "g = FR U G" using g by simp
          then have "restored G ?h1 (plug gs (Nd U G (plug [f] (Nd l n r))))"
            using pending_right [OF pf [unfolded g R] above(1,9) U above(10)]
            by (intro less.hyps) (auto simp: Cons g)
          then show ?thesis using Cons g R above(1) by auto
        qed
        moreover have "only_nodes ?S h ?h1"
          unfolding recoloured_def
          by (rule only_nodes_trans [OF only_nodes_two_colours only_nodes_SET_COLOR])
            (use Cons g U above(1) in \<open>auto simp: around_def\<close>)
        ultimately show ?thesis
          unfolding restored_def step by (blast intro: only_nodes_trans)
      qed
    qed
  qed
qed

end
