(* ===== verification/Rbtree_Ops.thy ===== *)
theory Rbtree_Ops
  imports Rbtree_Props
begin

text \<open>
  The operations of \<^verbatim>\<open>lib/rbtree.c\<close> on a memory that holds a red-black tree sorted by its keys:
  search, insertion, neighbours and what removal does.
\<close>

definition bst :: "rbmem \<Rightarrow> shape \<Rightarrow> bool" where
  "bst h t \<longleftrightarrow> sorted_wrt (<) (map (rb_key h) (inord t))"

lemma bst_Nd: "bst h (Nd l a r) \<longleftrightarrow> bst h l \<and> bst h r \<and>
    (\<forall>x \<in> set (inord l). rb_key h x < rb_key h a) \<and> (\<forall>y \<in> set (inord r). rb_key h a < rb_key h y) \<and>
    (\<forall>x \<in> set (inord l). \<forall>y \<in> set (inord r). rb_key h x < rb_key h y)"
  by (auto simp: bst_def sorted_wrt_append)

section \<open>Search\<close>

lemma rb_search_ok:
  "tr h p t \<Longrightarrow> bst h t \<Longrightarrow> \<exists>x. rb_search h (root_of t) k = Some x \<and>
     (if k \<in> rb_key h ` set (inord t) then x \<in> set (inord t) \<and> rb_key h x = k else x = 0)"
proof (induction t arbitrary: p)
  case Lf
  then show ?case by (simp add: rb_search.simps)
next
  case (Nd l a r)
  note b = Nd.prems(2) [unfolded bst_Nd]
  from Nd.prems have a: "a \<noteq> 0" "rb_L h a = root_of l" "rb_R h a = root_of r" "tr h a l" "tr h a r" by auto
  consider "rb_key h a = k" | "k < rb_key h a" | "rb_key h a < k" by fastforce
  then show ?case
  proof cases
    case 1
    then show ?thesis using a by (simp add: rb_search.simps)
  next
    case 2
    then have "k \<notin> rb_key h ` set (inord r)" using b by fastforce
    moreover have "rb_search h a k = rb_search h (root_of l) k"
      using 2 a by (auto simp: rb_search.simps [of h a])
    ultimately show ?thesis using Nd.IH(1) [OF a(4)] b 2 by (auto split: if_splits)
  next
    case 3
    then have "k \<notin> rb_key h ` set (inord l)" using b by fastforce
    moreover have "rb_search h a k = rb_search h (root_of r) k"
      using 3 a by (subst rb_search.simps) auto
    ultimately show ?thesis using Nd.IH(2) [OF a(5)] b 3 by (auto split: if_splits)
  qed
qed

section \<open>Insertion\<close>

lemma hang_in_ok:
  assumes "tr h (par_of fs) t" "cx h (root_of t) fs" "t \<noteq> Lf" "bst h t"
    "\<forall>a \<in> set (lefts fs). rb_key h a < rb_key h n" "\<forall>a \<in> set (rights fs). rb_key h n < rb_key h a"
  shows "if rb_key h n \<in> rb_key h ` set (inord t) then rb_hang_in n (root_of t) h = Some None
    else \<exists>fs'. rb_hang_in n (root_of t) h = Some (Some (par_of fs', hang h fs' n)) \<and>
      plug fs' Lf = plug fs t \<and> (\<forall>a \<in> set (lefts fs'). rb_key h a < rb_key h n) \<and>
      (\<forall>a \<in> set (rights fs'). rb_key h n < rb_key h a)"
  using assms
proof (induction t arbitrary: fs)
  case Lf
  then show ?case by simp
next
  case (Nd l a r)
  note b = Nd.prems(4) [unfolded bst_Nd]
  from Nd.prems have a: "good a" "a \<noteq> 0" "rb_L h a = root_of l" "rb_R h a = root_of r" "tr h a l" "tr h a r"
    and cxa: "cx h a fs" by auto
  note step = rb_hang_in.simps [of n a h]
  consider "rb_key h a = rb_key h n" | "rb_key h n < rb_key h a" | "rb_key h a < rb_key h n" by fastforce
  then show ?case
  proof cases
    case 1
    then show ?thesis using a by (simp add: step)
  next
    case 2
    then have out: "rb_key h n \<notin> rb_key h ` set (inord r)" "rb_key h n \<noteq> rb_key h a" using b by fastforce+
    have cl: "cx h (root_of l) (FL a r # fs)" using Nd.prems(1) a cxa by simp
    have rs: "\<forall>x \<in> set (rights (FL a r # fs)). rb_key h n < rb_key h x"
      using 2 b Nd.prems(6) by (auto dest: less_trans)
    show ?thesis
    proof (cases "l = Lf")
      case True
      then have "rb_hang_in n a h = Some (Some (a, set_L h a n))" using 2 a by (simp add: step)
      then show ?thesis using True out rs Nd.prems(5) by (auto intro!: exI [of _ "FL a r # fs"])
    next
      case False
      then have "root_of l \<noteq> 0" using a(5) root_of_good by fastforce
      then have "rb_hang_in n a h = rb_hang_in n (root_of l) h" using 2 a by (auto simp: step)
      then show ?thesis using Nd.IH(1) [OF _ cl False _ _ rs] a b out Nd.prems(5) by (auto split: if_splits)
    qed
  next
    case 3
    then have out: "rb_key h n \<notin> rb_key h ` set (inord l)" "rb_key h n \<noteq> rb_key h a" using b by fastforce+
    have cl: "cx h (root_of r) (FR l a # fs)" using Nd.prems(1) a cxa by simp
    have ls: "\<forall>x \<in> set (lefts (FR l a # fs)). rb_key h x < rb_key h n"
      using 3 b Nd.prems(5) by (auto dest: less_trans)
    show ?thesis
    proof (cases "r = Lf")
      case True
      then have "rb_hang_in n a h = Some (Some (a, set_R h a n))" using 3 a by (auto simp: step)
      then show ?thesis using True out ls Nd.prems(6) by (auto intro!: exI [of _ "FR l a # fs"])
    next
      case False
      then have "root_of r \<noteq> 0" using a(6) root_of_good by fastforce
      then have "rb_hang_in n a h = rb_hang_in n (root_of r) h" using 3 a by (auto simp: step)
      then show ?thesis using Nd.IH(2) [OF _ cl False _ ls] a b out Nd.prems(6) by (auto split: if_splits)
    qed
  qed
qed

lemma color_root_black: "rbtree h t \<Longrightarrow> t \<noteq> Lf \<Longrightarrow> GET_COLOR h (root_of t) = RB_BLACK"
  by (cases t) (auto simp: rbtree_def)

lemma bst_same_keys: "rb_key h' = rb_key h \<Longrightarrow> bst h' t = bst h t"
  by (simp add: bst_def)

lemma rbtree_recolour_outside:
  "rbtree h t \<Longrightarrow> n \<notin> set (inord t) \<Longrightarrow> c \<in> {RB_BLACK, RB_RED} \<Longrightarrow> rbtree (SET_COLOR h n c) t"
  by (auto simp: rbtree_def)

lemma rbtree_root_black: "rbtree h t \<Longrightarrow> rbtree (SET_COLOR h (rb_root h) RB_BLACK) t"
proof (cases "t = Lf")
  case True
  then show "rbtree h t \<Longrightarrow> rbtree (SET_COLOR h (rb_root h) RB_BLACK) t" by (simp add: rbtree_def)
next
  case False
  assume r: "rbtree h t"
  then have "GET_COLOR (SET_COLOR h (rb_root h) RB_BLACK) = GET_COLOR h"
    using color_root_black [OF r False] by (auto simp: rbtree_def fun_eq_iff)
  with r show "rbtree (SET_COLOR h (rb_root h) RB_BLACK) t" by (simp add: rbtree_def)
qed

text \<open>The node hangs red below a place where the tree had a null pointer.\<close>

lemma pending_new_leaf:
  assumes "rbtree h (plug fs Lf)" "good n" "n \<notin> set (inord (plug fs Lf))" "rb_L h n = 0" "rb_R h n = 0"
    "GET_COLOR h n = RB_RED"
  shows "pending (SET_PARENT (hang h fs n) n (par_of fs)) fs Lf n Lf"
proof -
  have cx0: "cx h 0 fs" and ci: "cinv (GET_COLOR h) 0 fs"
    using assms(1) plug_in_memory [of h fs Lf] inv_plug [of "GET_COLOR h" fs Lf] by (auto simp: rbtree_def)
  have n: "n \<notin> around fs" and d: "distinct (lefts fs @ rights fs)"
    using assms(1,3) by (auto simp: around_def rbtree_def)
  have "cx (hang h fs n) n fs" using cx0 d by (rule cx_hang)
  then show ?thesis
    unfolding pending_def using cx0 ci n d assms(2-6) by (auto simp: around_def)
qed

lemma sorted_keys_insert:
  "bst h (plug fs Lf) \<Longrightarrow> \<forall>a \<in> set (lefts fs). rb_key h a < rb_key h n \<Longrightarrow>
   \<forall>a \<in> set (rights fs). rb_key h n < rb_key h a \<Longrightarrow> bst h (plug fs (Nd Lf n Lf))"
  by (auto simp: bst_def sorted_wrt_append)

definition fresh_node :: "rbmem \<Rightarrow> shape \<Rightarrow> u32 \<Rightarrow> bool" where
  "fresh_node h t n \<longleftrightarrow> good n \<and> n \<notin> set (inord t) \<and> rb_L h n = 0 \<and> rb_R h n = 0"

lemma rb_insert_ok:
  assumes "rbtree h t" "bst h t" "fresh_node h t n"
  shows "if rb_key h n \<in> rb_key h ` set (inord t)
    then rb_insert h n = Some (Inr (1, SET_COLOR h n RB_RED))
    else \<exists>h' t'. rb_insert h n = Some (Inr (0, h')) \<and> rbtree h' t' \<and> bst h' t' \<and>
      set (inord t') = insert n (set (inord t)) \<and> only_nodes (insert n (set (inord t))) h h'"
proof -
  let ?h = "SET_COLOR h n RB_RED"
  have n: "good n" "n \<notin> set (inord t)" "rb_L h n = 0" "rb_R h n = 0"
    using assms(3) by (simp_all add: fresh_node_def)
  have rt: "rbtree ?h t" "bst ?h t" using assms n by (simp_all add: rbtree_recolour_outside bst_def)
  have mem: "tr ?h (par_of []) t" "cx ?h (root_of t) []" using rt by (simp_all add: rbtree_def)
  let ?place = "if rb_root ?h = 0 then Some (Some (rb_root ?h, ?h\<lparr>rb_root := n\<rparr>)) else rb_hang_in n (rb_root ?h) ?h"
  have place: "if rb_key h n \<in> rb_key h ` set (inord t) then ?place = Some None
    else \<exists>fs. ?place = Some (Some (par_of fs, hang ?h fs n)) \<and> plug fs Lf = t \<and>
      (\<forall>a \<in> set (lefts fs). rb_key h a < rb_key h n) \<and> (\<forall>a \<in> set (rights fs). rb_key h n < rb_key h a)"
  proof (cases "t = Lf")
    case True
    then show ?thesis using mem by (auto intro!: exI [of _ "[]"])
  next
    case False
    then have "rb_root ?h \<noteq> 0" using mem root_of_good [OF mem(1)] by auto
    then show ?thesis using hang_in_ok [OF mem False rt(2), of n] mem by auto
  qed
  show ?thesis
  proof (cases "rb_key h n \<in> rb_key h ` set (inord t)")
    case True
    then have "?place = Some None" using place by simp
    then show ?thesis using True unfolding rb_insert_def Let_def by simp
  next
    case False
    then obtain fs where fs: "?place = Some (Some (par_of fs, hang ?h fs n))" "plug fs Lf = t"
      "\<forall>a \<in> set (lefts fs). rb_key h a < rb_key h n" "\<forall>a \<in> set (rights fs). rb_key h n < rb_key h a"
      using place by auto
    let ?h1 = "SET_PARENT (hang ?h fs n) n (par_of fs)" and ?T = "plug fs (Nd Lf n Lf)"
    have "pending ?h1 fs Lf n Lf"
      using rt(1) n fs(2) by (intro pending_new_leaf) auto
    then obtain h' t' where h': "rb_insert_fixup n ?h1 = Some (Inr h')" "rbtree h' t'" "inord t' = inord ?T"
      "only_nodes (set (inord ?T)) ?h1 h'"
      using insert_fixup_restores unfolding restored_def by blast
    let ?r = "SET_COLOR h' (rb_root h') RB_BLACK"
    have S: "set (inord ?T) = insert n (set (inord t))" using fs(2) by auto
    have ne: "t' \<noteq> Lf" using h'(3) by auto
    then have root: "rb_root h' \<noteq> 0" "rb_root h' \<in> set (inord ?T)"
      using h'(2,3) root_of_good root_of_in unfolding rbtree_def by (metis goodD(2))+
    have "rb_insert h n = Some (Inr (0, ?r))"
      unfolding rb_insert_def Let_def fs(1) using h'(1) root by (simp add: not_null_def)
    moreover have "rbtree ?r t'" using h'(2) by (rule rbtree_root_black)
    moreover have "rb_key ?r = rb_key h" using h'(4) by (simp add: only_nodes_def)
    then have "bst ?r t'"
      using sorted_keys_insert [of h fs n] assms(2) fs h'(3) by (simp add: bst_def)
    moreover have "set (inord t') = insert n (set (inord t))" using h'(3) S by simp
    moreover have "only_nodes (insert n (set (inord t))) h ?h1"
      using fs(2) by (cases fs rule: par_of.cases; cases "hd fs") (auto simp: only_nodes_def)
    then have "only_nodes (insert n (set (inord t))) h ?r"
      using h'(4) root(2) unfolding S by (metis only_nodes_SET_COLOR only_nodes_trans)
    ultimately show ?thesis using False by auto
  qed
qed

section \<open>Neighbours\<close>

lemma position:
  "n \<in> set (inord t) \<Longrightarrow> \<exists>fs l r. t = plug fs (Nd l n r)"
proof (induction t)
  case (Nd l a r)
  consider "n = a" | "n \<in> set (inord l)" | "n \<in> set (inord r)" using Nd.prems by auto
  then show ?case
  proof cases
    case 1
    then show ?thesis by (metis plug.simps(1))
  next
    case 2
    then obtain fs l' r' where "l = plug fs (Nd l' n r')" using Nd.IH by blast
    moreover have "plug (fs @ [FL a r]) x = Nd (plug fs x) a r" for x
      by (induction fs x rule: plug.induct) auto
    ultimately show ?thesis by metis
  next
    case 3
    then obtain fs l' r' where "r = plug fs (Nd l' n r')" using Nd.IH by blast
    moreover have "plug (fs @ [FR l a]) x = Nd l a (plug fs x)" for x
      by (induction fs x rule: plug.induct) auto
    ultimately show ?thesis by metis
  qed
qed simp

definition first_of :: "u32 list \<Rightarrow> u32" where
  "first_of xs = (case xs of [] \<Rightarrow> 0 | x # _ \<Rightarrow> x)"

lemma first_of_simps [simp]: "first_of [] = 0" "first_of (x # xs) = x"
  by (simp_all add: first_of_def)

lemma first_of_append [simp]: "xs \<noteq> [] \<Longrightarrow> first_of (xs @ ys) = first_of xs"
  by (cases xs) auto

lemma leftmost_ok: "tr h p t \<Longrightarrow> t \<noteq> Lf \<Longrightarrow> rb_leftmost h (root_of t) = Some (first_of (inord t))"
proof (induction t arbitrary: p)
  case (Nd l a r)
  then show ?case
  proof (cases "l = Lf")
    case False
    then have "root_of l \<noteq> 0" "inord l \<noteq> []" using Nd.prems root_of_good by (fastforce, cases l, auto)
    then show ?thesis using Nd False by (auto simp: rb_leftmost.simps [of h a])
  qed (simp add: rb_leftmost.simps [of h a])
qed simp

lemma rightmost_ok: "tr h p t \<Longrightarrow> t \<noteq> Lf \<Longrightarrow> rb_rightmost h (root_of t) = Some (first_of (rev (inord t)))"
proof (induction t arbitrary: p)
  case (Nd l a r)
  then show ?case
  proof (cases "r = Lf")
    case False
    then have "root_of r \<noteq> 0" "inord r \<noteq> []" using Nd.prems root_of_good by (fastforce, cases r, auto)
    then show ?thesis using Nd False by (auto simp: rb_rightmost.simps [of h a])
  qed (simp add: rb_rightmost.simps [of h a])
qed simp

lemma up_from_right_ok:
  "cx h n fs \<Longrightarrow> good n \<Longrightarrow> n \<notin> around fs \<Longrightarrow> distinct (lefts fs @ rights fs) \<Longrightarrow>
   up_from_right h n (par_of fs) = Some (first_of (rights fs))"
proof (induction h n fs rule: cx.induct)
  case (1 h x)
  then show ?case by (simp add: up_from_right.simps)
next
  case (2 h x a r fs)
  then have "rb_R h a \<noteq> x" by auto
  then show ?case by (simp add: up_from_right.simps [of h x a])
next
  case (3 h x l a fs)
  then have "a \<notin> around fs" "distinct (lefts fs @ rights fs)" by (auto simp: around_def)
  with 3 show ?case by (simp add: up_from_right.simps [of h x a])
qed

lemma up_from_left_ok:
  "cx h n fs \<Longrightarrow> good n \<Longrightarrow> n \<notin> around fs \<Longrightarrow> distinct (lefts fs @ rights fs) \<Longrightarrow>
   up_from_left h n (par_of fs) = Some (first_of (rev (lefts fs)))"
proof (induction h n fs rule: cx.induct)
  case (1 h x)
  then show ?case by (simp add: up_from_left.simps)
next
  case (3 h x l a fs)
  then have "rb_L h a \<noteq> x" by auto
  then show ?case by (simp add: up_from_left.simps [of h x a])
next
  case (2 h x a r fs)
  then have "a \<notin> around fs" "distinct (lefts fs @ rights fs)" by (auto simp: around_def)
  with 2 show ?case by (simp add: up_from_left.simps [of h x a])
qed

text \<open>A node of the tree with its position.\<close>

lemma rbtree_at:
  assumes "rbtree h (plug fs (Nd l n r))"
  shows "cx h n fs" "tr h (par_of fs) (Nd l n r)" "distinct (lefts fs @ rights fs)" "n \<notin> around fs"
    "good n" "GET_PARENT h n = par_of fs" "rb_L h n = root_of l" "rb_R h n = root_of r"
  using assms plug_in_memory [of h fs "Nd l n r"] by (auto simp: rbtree_def around_def)

lemma distinct_split:
  assumes "distinct (xs @ n # ys)" "xs @ n # ys = us @ n # vs"
  shows "xs = us" "ys = vs"
proof -
  have "n \<notin> set xs" "n \<notin> set ys" using assms(1) by auto
  from append_Cons_eq_iff [OF this, of us vs] assms(2) show "xs = us" "ys = vs" by blast+
qed

lemma neighbours_ok:
  assumes "rbtree h t" "inord t = xs @ n # ys"
  shows "rb_succ h n = Some (first_of ys)" "rb_pred h n = Some (first_of (rev xs))"
proof -
  have "n \<in> set (inord t)" unfolding assms(2) by simp
  then obtain fs l r where t: "t = plug fs (Nd l n r)" using position by blast
  have "distinct (xs @ n # ys)" using assms by (metis rbtree_def)
  moreover have "xs @ n # ys = (lefts fs @ inord l) @ n # (inord r @ rights fs)"
    using assms(2) t by simp
  ultimately have xy: "xs = lefts fs @ inord l" "ys = inord r @ rights fs"
    by (rule distinct_split)+
  note at = rbtree_at [OF assms(1) [unfolded t]]
  show "rb_succ h n = Some (first_of ys)"
  proof (cases "r = Lf")
    case True
    then show ?thesis using at xy up_from_right_ok [OF at(1,5,4,3)] by (simp add: rb_succ_def)
  next
    case False
    then have "root_of r \<noteq> 0" "inord r \<noteq> []" using at(2) root_of_good by (fastforce, cases r, auto)
    then show ?thesis using at xy leftmost_ok [of h n r] False by (simp add: rb_succ_def)
  qed
  show "rb_pred h n = Some (first_of (rev xs))"
  proof (cases "l = Lf")
    case True
    then show ?thesis using at xy up_from_left_ok [OF at(1,5,4,3)] by (simp add: rb_pred_def)
  next
    case False
    then have "root_of l \<noteq> 0" "inord l \<noteq> []" using at(2) root_of_good by (fastforce, cases l, auto)
    then show ?thesis using at xy rightmost_ok [of h n l] False by (simp add: rb_pred_def)
  qed
qed

section \<open>Removal\<close>

text \<open>A node with one child is black and its child a red leaf, which takes its place.\<close>

lemma no_black_nodes: "bh c t = 0 \<Longrightarrow> \<not> rr c t \<Longrightarrow> t = Lf"
  by (cases t) auto

lemma only_red_leaf: "rinv c (Nd x m y) \<Longrightarrow> bh c (Nd x m y) = 0 \<Longrightarrow> c m = RB_RED \<and> x = Lf \<and> y = Lf"
  by (auto split: if_splits intro!: no_black_nodes [of c])

lemma only_child:
  assumes "rinv c (Nd l n r)" "l = Lf \<longleftrightarrow> r \<noteq> Lf"
  obtains m where "l = Nd Lf m Lf \<and> r = Lf \<or> l = Lf \<and> r = Nd Lf m Lf" "c m = RB_RED" "c n \<noteq> RB_RED"
proof (cases l)
  case Lf
  then obtain x m y where r: "r = Nd x m y" using assms(2) by (cases r) auto
  then have "c m = RB_RED \<and> x = Lf \<and> y = Lf" using assms(1) Lf by (intro only_red_leaf) auto
  then show ?thesis using that [of m] Lf r assms(1) by auto
next
  case (Nd x m y)
  then have r: "r = Lf" using assms(2) by blast
  then have "c m = RB_RED \<and> x = Lf \<and> y = Lf" using assms(1) Nd by (intro only_red_leaf) auto
  then show ?thesis using that [of m] Nd r assms(1) by auto
qed

lemma transplant_null [simp]: "rb_transplant h dst 0 = Inl NullDeref"
  by (auto simp: rb_transplant_def not_null_def guard_def and_then_def Let_def split: sum.splits)

lemma remove_leaf: "rb_L h n = 0 \<Longrightarrow> rb_R h n = 0 \<Longrightarrow> rb_remove h n = Some (Inl NullDeref)"
  by (simp add: rb_remove_def)

lemma remove_far_succ:
  "rb_L h n \<noteq> 0 \<Longrightarrow> rb_R h n \<noteq> 0 \<Longrightarrow> rb_succ h n = Some r \<Longrightarrow> GET_PARENT h r \<noteq> n \<Longrightarrow> rb_R h r = 0 \<Longrightarrow>
   rb_remove h n = Some (Inl NullDeref)"
  by (simp add: rb_remove_def replace_by_succ_def)

lemma remove_only_child:
  assumes "rbtree h (plug fs (Nd l n r))" "l = Lf \<longleftrightarrow> r \<noteq> Lf"
  obtains h' t' where "rb_remove h n = Some (Inr h')" "rbtree h' t'"
    "inord t' = remove1 n (inord (plug fs (Nd l n r)))"
    "only_nodes (set (inord (plug fs (Nd l n r)))) h h'"
proof -
  let ?T = "plug fs (Nd l n r)"
  note at = rbtree_at [OF assms(1)]
  have inv: "rinv (GET_COLOR h) (Nd l n r)" "cinv (GET_COLOR h) (bh (GET_COLOR h) (Nd l n r)) fs"
    using assms(1) inv_plug [of "GET_COLOR h" fs "Nd l n r"] by (simp_all only: rbtree_def)
  obtain m where m: "l = Nd Lf m Lf \<and> r = Lf \<or> l = Lf \<and> r = Nd Lf m Lf" "GET_COLOR h m = RB_RED"
    "GET_COLOR h n \<noteq> RB_RED"
    using only_child [OF inv(1) assms(2)] by blast
  have d: "distinct (inord ?T)" using assms(1) by (simp add: rbtree_def)
  have gm: "good m" "m \<notin> around fs" "m \<noteq> n" using at(2) m(1) d by (auto simp: around_def)
  let ?h1 = "SET_PARENT (hang h fs m) m (par_of fs)"
  let ?h2 = "SET_COLOR ?h1 m RB_BLACK"
  have tp: "rb_transplant h n m = Inr ?h1"
    using transplant_ok [OF at(1,5,4,6) gm(1)] .
  have al: "par_of fs AND 3 = 0" using at(1) by simp
  have c1: "GET_COLOR ?h1 = GET_COLOR h" using al by simp
  have "rb_remove_fixup m n ?h1 = Some (Inr ?h2)"
    using c1 m(2) gm(1) by (simp add: rb_remove_fixup.simps [of m n] no_red_def paint_black_def)
  moreover have "GET_COLOR h n = RB_BLACK" using at(2) m(3) by auto
  ultimately have rem: "rb_remove h n = Some (Inr ?h2)"
    using m(1) at(7,8) tp gm(1) by (auto simp: rb_remove_def)
  have cx2: "cx ?h2 m fs" using cx_hang [OF at(1,3), of m] gm by simp
  have t2: "tr ?h2 (par_of fs) (Nd Lf m Lf)"
    using at(2) m gm al by (elim disjE; simp)
  have kb: "bh (GET_COLOR h) (Nd l n r) = 1" using m by auto
  show ?thesis
  proof (rule that [OF rem])
    show "rbtree ?h2 (plug fs (Nd Lf m Lf))"
      by (rule rbtreeI [OF cx2 t2])
        (use d m(1) inv(2) kb al gm in \<open>auto simp: around_def\<close>)
    have "n \<notin> set (lefts fs)" "remove1 n (inord l @ n # inord r) = [m]" using at(4) m(1) gm by (auto simp: around_def)
    then show "inord (plug fs (Nd Lf m Lf)) = remove1 n (inord ?T)"
      by (auto simp: remove1_append)
    have "only_nodes (set (inord ?T)) h ?h1"
      using m(1) by (cases "(h, n, fs)" rule: cx.cases) (auto simp: only_nodes_def)
    then show "only_nodes (set (inord ?T)) h ?h2"
      by (rule only_nodes_trans [OF _ only_nodes_SET_COLOR]) (use m(1) in auto)
  qed
qed

section \<open>Depth\<close>

fun depth :: "shape \<Rightarrow> nat" where
  "depth Lf = 0"
| "depth (Nd l a r) = Suc (max (depth l) (depth r))"

lemma black_height_nodes: "rinv c t \<Longrightarrow> 2 ^ bh c t \<le> length (inord t) + 1"
  by (induction t) (auto split: if_splits)

lemma depth_black_height: "rinv c t \<Longrightarrow> depth t \<le> 2 * bh c t + (if rr c t then 1 else 0)"
  by (induction t) (auto split: if_splits)

end
