(* ===== verification/Rbtree_Index.thy ===== *)
theory Rbtree_Index
  imports Rbtree_Ops
begin

text \<open>
  The red-black tree as an index by key: what its client may rely on, stated as an interface that
  the functions of \<^verbatim>\<open>lib/rbtree.c\<close> implement, and the properties of these functions.
\<close>

section \<open>The interface\<close>

locale key_index =
  fixes holds :: "'s \<Rightarrow> 'a set \<Rightarrow> bool"
    and key_of :: "'s \<Rightarrow> 'a \<Rightarrow> 'k"
    and addable :: "'s \<Rightarrow> 'a set \<Rightarrow> 'a \<Rightarrow> bool"
    and find_key :: "'s \<Rightarrow> 'k \<Rightarrow> 'a option"
    and add :: "'s \<Rightarrow> 'a \<Rightarrow> 's option"
  assumes hit: "holds s A \<Longrightarrow> a \<in> A \<Longrightarrow> find_key s (key_of s a) = Some a"
    and miss: "holds s A \<Longrightarrow> k \<notin> key_of s ` A \<Longrightarrow> find_key s k = None"
    and add_new: "holds s A \<Longrightarrow> addable s A a \<Longrightarrow> key_of s a \<notin> key_of s ` A \<Longrightarrow>
      \<exists>s'. add s a = Some s' \<and> holds s' (insert a A) \<and> key_of s' = key_of s"
    and add_dup: "holds s A \<Longrightarrow> addable s A a \<Longrightarrow> key_of s a \<in> key_of s ` A \<Longrightarrow> add s a = None"
begin

lemma key_inj: "holds s A \<Longrightarrow> inj_on (key_of s) A"
  using hit by (metis inj_onI option.inject)

lemma find_iff: "holds s A \<Longrightarrow> find_key s k = Some a \<longleftrightarrow> a \<in> A \<and> key_of s a = k"
  using hit miss by (metis imageE option.distinct(1) option.inject)

lemma add_iff: "holds s A \<Longrightarrow> addable s A a \<Longrightarrow> add s a = None \<longleftrightarrow> key_of s a \<in> key_of s ` A"
  using add_new add_dup by (metis option.distinct(1))

lemma find_added:
  assumes "holds s A" "addable s A a" "add s a = Some s'"
  shows "find_key s' k = (if k = key_of s a then Some a else find_key s k)"
proof -
  have new: "key_of s a \<notin> key_of s ` A" using add_iff [OF assms(1,2)] assms(3) by simp
  then have s': "holds s' (insert a A)" "key_of s' = key_of s"
    using add_new [OF assms(1,2)] assms(3) by auto
  show ?thesis
  proof (cases "k \<in> key_of s ` insert a A")
    case True
    then obtain b where b: "b \<in> insert a A" "key_of s b = k" by blast
    have "find_key s' k = Some b" using hit [OF s'(1) b(1)] s'(2) b(2) by simp
    show ?thesis
    proof (cases "b = a")
      case True
      then show ?thesis using b \<open>find_key s' k = Some b\<close> by simp
    next
      case False
      then have "b \<in> A" using b by simp
      then have "find_key s k = Some b" using hit [OF assms(1)] b(2) by auto
      moreover have "k \<noteq> key_of s a" using \<open>b \<in> A\<close> b(2) new by (metis imageI)
      ultimately show ?thesis using \<open>find_key s' k = Some b\<close> by simp
    qed
  next
    case False
    then show ?thesis using miss [OF assms(1)] miss [OF s'(1)] s'(2) by auto
  qed
qed

end

section \<open>Its implementation\<close>

definition rb_holds :: "rbmem \<Rightarrow> u32 set \<Rightarrow> bool" where
  "rb_holds h A \<longleftrightarrow> (\<exists>t. rbtree h t \<and> bst h t \<and> set (inord t) = A)"

definition rb_addable :: "rbmem \<Rightarrow> u32 set \<Rightarrow> u32 \<Rightarrow> bool" where
  "rb_addable h A n \<longleftrightarrow> good n \<and> n \<notin> A \<and> rb_L h n = 0 \<and> rb_R h n = 0"

definition rb_find :: "rbmem \<Rightarrow> u32 \<Rightarrow> u32 option" where
  "rb_find h k = (case rb_search h (rb_root h) k of Some x \<Rightarrow> if x = 0 then None else Some x | None \<Rightarrow> None)"

definition rb_added :: "rbmem \<Rightarrow> u32 \<Rightarrow> rbmem option" where
  "rb_added h n = (case rb_insert h n of Some (Inr (r, h')) \<Rightarrow> if r = 0 then Some h' else None | _ \<Rightarrow> None)"

lemma search_returns:
  assumes "rbtree h t" "bst h t"
  obtains x where "rb_search h (rb_root h) k = Some x"
    "k \<in> rb_key h ` set (inord t) \<Longrightarrow> x \<in> set (inord t) \<and> rb_key h x = k \<and> x \<noteq> 0"
    "k \<notin> rb_key h ` set (inord t) \<Longrightarrow> x = 0"
proof -
  have t: "tr h 0 t" "rb_root h = root_of t" using assms(1) by (simp_all add: rbtree_def)
  from rb_search_ok [OF t(1) assms(2), of k] obtain x where x: "rb_search h (root_of t) k = Some x"
    "if k \<in> rb_key h ` set (inord t) then x \<in> set (inord t) \<and> rb_key h x = k else x = 0" by blast
  show ?thesis
    by (rule that [of x]) (use x t tr_good [OF t(1)] in \<open>auto split: if_splits\<close>)
qed

lemma bst_inj: "bst h t \<Longrightarrow> inj_on (rb_key h) (set (inord t))"
  unfolding bst_def by (metis distinct_map strict_sorted_iff)

interpretation rbx: key_index rb_holds rb_key rb_addable rb_find rb_added
proof
  fix h A a assume "rb_holds h A" "a \<in> A"
  then obtain t where t: "rbtree h t" "bst h t" "set (inord t) = A" by (auto simp: rb_holds_def)
  obtain x where "rb_search h (rb_root h) (rb_key h a) = Some x" "x \<in> A \<and> rb_key h x = rb_key h a \<and> x \<noteq> 0"
    by (rule search_returns [OF t(1,2), of "rb_key h a"]) (use t \<open>a \<in> A\<close> in auto)
  moreover from this have "x = a" using bst_inj [OF t(2)] t(3) \<open>a \<in> A\<close> by (auto dest: inj_onD)
  ultimately show "rb_find h (rb_key h a) = Some a" by (simp add: rb_find_def)
next
  fix h A k assume "rb_holds h A" "k \<notin> rb_key h ` A"
  then obtain t where t: "rbtree h t" "bst h t" "set (inord t) = A" by (auto simp: rb_holds_def)
  show "rb_find h k = None"
    by (rule search_returns [OF t(1,2), of k]) (use t \<open>k \<notin> rb_key h ` A\<close> in \<open>simp add: rb_find_def\<close>)
next
  fix h A n assume a: "rb_holds h A" "rb_addable h A n"
  then obtain t where t: "rbtree h t" "bst h t" "set (inord t) = A" by (auto simp: rb_holds_def)
  have f: "fresh_node h t n" using a(2) t(3) by (simp add: rb_addable_def fresh_node_def)
  note ins = rb_insert_ok [OF t(1,2) f]
  show "\<exists>h'. rb_added h n = Some h' \<and> rb_holds h' (insert n A) \<and> rb_key h' = rb_key h"
    if "rb_key h n \<notin> rb_key h ` A"
    using ins that t(3) by (fastforce simp: rb_added_def rb_holds_def only_nodes_def)
  show "rb_added h n = None" if "rb_key h n \<in> rb_key h ` A"
    using ins that t(3) by (simp add: rb_added_def)
qed

section \<open>Properties\<close>

definition one_node :: rbmem where
  "one_node = \<lparr>rb_key = (\<lambda>_. 0)(16 := 5, 32 := 7), parent_and_color = \<lambda>_. 0, rb_L = \<lambda>_. 0, rb_R = \<lambda>_. 0, rb_root = 16\<rparr>"

definition two_nodes :: rbmem where
  "two_nodes = one_node\<lparr>parent_and_color := (\<lambda>_. 0)(32 := 17), rb_R := (\<lambda>_. 0)(16 := 32)\<rparr>"

lemma one_node_ok: "rbtree one_node (Nd Lf 16 Lf)" "bst one_node (Nd Lf 16 Lf)"
  "fresh_node one_node (Nd Lf 16 Lf) 32"
  by (simp_all add: rbtree_def one_node_def bst_def fresh_node_def good_def GET_PARENT_def GET_COLOR_def
      RB_BLACK_def RB_RED_def)

lemma two_nodes_ok: "rbtree two_nodes (Nd Lf 16 (Nd Lf 32 Lf))" "bst two_nodes (Nd Lf 16 (Nd Lf 32 Lf))"
  by (simp_all add: rbtree_def two_nodes_def one_node_def bst_def good_def GET_PARENT_def GET_COLOR_def
      RB_BLACK_def RB_RED_def)

text \<open>
  C4. Inserting a node that is not in the tree: when its key is taken the call returns 1 and only
  the colour bits of the node have changed; otherwise it returns 0, and the memory holds a
  red-black tree, sorted by key, of the old nodes and the new one, with nothing else modified.
\<close>

theorem rb_insert_correct:
  assumes "rbtree h t" "bst h t" "fresh_node h t n"
  shows "if rb_key h n \<in> rb_key h ` set (inord t)
    then rb_insert h n = Some (Inr (1, SET_COLOR h n RB_RED))
    else \<exists>h' t'. rb_insert h n = Some (Inr (0, h')) \<and> rbtree h' t' \<and> bst h' t' \<and>
      set (inord t') = insert n (set (inord t)) \<and> only_nodes (insert n (set (inord t))) h h'"
  using assms by (rule rb_insert_ok)

theorem rb_insert_correct_witness:
  "\<exists>h' t'. rb_insert one_node 32 = Some (Inr (0, h')) \<and> rbtree h' t' \<and> set (inord t') = {16, 32}"
  using rb_insert_correct [OF one_node_ok] by (auto simp: one_node_def)

text \<open>
  C22. After an insertion the search finds the new node under its key and everything else as before.
\<close>

theorem rb_search_after_insert:
  assumes "rbtree h t" "bst h t" "fresh_node h t n" "rb_insert h n = Some (Inr (0, h'))"
  shows "rb_find h' k = (if k = rb_key h n then Some n else rb_find h k)"
proof (rule rbx.find_added)
  show "rb_holds h (set (inord t))" using assms(1,2) by (auto simp: rb_holds_def)
  show "rb_addable h (set (inord t)) n" using assms(3) by (simp add: rb_addable_def fresh_node_def)
  show "rb_added h n = Some h'" using assms(4) by (simp add: rb_added_def)
qed

theorem rb_search_after_insert_witness:
  "\<exists>h'. rb_insert one_node 32 = Some (Inr (0, h')) \<and> rb_find h' 7 = Some 32"
proof -
  obtain h' where "rb_insert one_node 32 = Some (Inr (0, h'))"
    using rb_insert_ok [OF one_node_ok] by (auto simp: one_node_def)
  then show ?thesis
    using rb_search_after_insert [OF one_node_ok, of h' 7] by (auto simp: one_node_def)
qed

text \<open>The loop of the search, with the number of iterations that are allowed.\<close>

fun rb_search_steps :: "nat \<Rightarrow> rbmem \<Rightarrow> u32 \<Rightarrow> u32 \<Rightarrow> u32 option" where
  "rb_search_steps 0 h x key = (if x = 0 then Some x else None)"
| "rb_search_steps (Suc n) h x key =
     (if x = 0 then Some x
      else if rb_key h x = key then Some x
      else rb_search_steps n h (if key < rb_key h x then rb_L h x else rb_R h x) key)"

lemma search_steps_depth:
  "tr h p t \<Longrightarrow> depth t \<le> n \<Longrightarrow> rb_search_steps n h (root_of t) k = rb_search h (root_of t) k \<and>
     rb_search h (root_of t) k \<noteq> None"
proof (induction t arbitrary: p n)
  case Lf
  then show ?case by (cases n) (simp_all add: rb_search.simps)
next
  case (Nd l a r)
  then obtain m where "n = Suc m" by (cases n) auto
  with Nd show ?case by (auto simp: rb_search.simps [of h a])
qed

text \<open>
  The search ends on every red-black tree, after at most \<open>d\<close> iterations of its loop, where
  \<open>2 ^ (d div 2)\<close> is at most the number of nodes plus one.
\<close>

theorem rb_search_ends:
  assumes "rbtree h t"
  shows "\<exists>d. 2 ^ (d div 2) \<le> length (inord t) + 1 \<and> rb_search h (rb_root h) k \<noteq> None \<and>
    rb_search_steps d h (rb_root h) k = rb_search h (rb_root h) k"
proof (intro exI conjI)
  let ?c = "GET_COLOR h" and ?d = "depth t"
  have inv: "rinv ?c t" "\<not> rr ?c t" "tr h 0 t" "rb_root h = root_of t" using assms by (simp_all add: rbtree_def)
  then have "?d div 2 \<le> bh ?c t" using depth_black_height [OF inv(1)] by auto
  then have "(2 :: nat) ^ (?d div 2) \<le> 2 ^ bh ?c t" by (rule power_increasing) simp
  also note black_height_nodes [OF inv(1)]
  finally show "2 ^ (?d div 2) \<le> length (inord t) + 1" .
  show "rb_search h (rb_root h) k \<noteq> None" "rb_search_steps ?d h (rb_root h) k = rb_search h (rb_root h) k"
    using search_steps_depth [OF inv(3) order_refl] inv(4) by simp_all
qed

theorem rb_search_ends_witness:
  "\<exists>d. 2 ^ (d div 2) \<le> (3 :: nat) \<and> rb_search two_nodes 16 7 \<noteq> None"
proof -
  obtain d where "2 ^ (d div 2) \<le> length (inord (Nd Lf 16 (Nd Lf 32 Lf))) + 1"
    "rb_search two_nodes (rb_root two_nodes) 7 \<noteq> None"
    using rb_search_ends [OF two_nodes_ok(1), of 7] by blast
  moreover have "rb_root two_nodes = 16" by (simp add: two_nodes_def one_node_def)
  ultimately show ?thesis by (auto intro!: exI [of _ d])
qed

text \<open>
  The successor and the predecessor of a node are its neighbours in the order of the keys,
  NULL at the ends.
\<close>

theorem rb_neighbours_correct:
  assumes "rbtree h t" "inord t = xs @ n # ys"
  shows "rb_succ h n = Some (first_of ys) \<and> rb_pred h n = Some (first_of (rev xs))"
  using neighbours_ok [OF assms] by blast

theorem rb_neighbours_correct_witness: "rb_succ two_nodes 16 = Some 32 \<and> rb_pred two_nodes 16 = Some 0"
  using rb_neighbours_correct [OF two_nodes_ok(1), of "[]" 16 "[32]"] by simp

text \<open>
  C21. Removing a node that has exactly one child leaves a red-black tree of the other nodes in the
  same order. Removing a node without children, or one with two whose successor lies deeper and
  has no right child, writes through a null pointer.
\<close>

theorem rb_remove_behaviour:
  assumes "rbtree h t" "n \<in> set (inord t)"
  shows "((rb_L h n = 0 \<longleftrightarrow> rb_R h n \<noteq> 0) \<longrightarrow> (\<exists>h' t'. rb_remove h n = Some (Inr h') \<and> rbtree h' t' \<and>
      inord t' = remove1 n (inord t) \<and> only_nodes (set (inord t)) h h')) \<and>
    (rb_L h n = 0 \<and> rb_R h n = 0 \<longrightarrow> rb_remove h n = Some (Inl NullDeref)) \<and>
    (\<forall>r. rb_L h n \<noteq> 0 \<and> rb_R h n \<noteq> 0 \<and> rb_succ h n = Some r \<and> GET_PARENT h r \<noteq> n \<and> rb_R h r = 0 \<longrightarrow>
      rb_remove h n = Some (Inl NullDeref))"
proof (intro conjI impI allI)
  assume one: "rb_L h n = 0 \<longleftrightarrow> rb_R h n \<noteq> 0"
  obtain fs l r where t: "t = plug fs (Nd l n r)" using position [OF assms(2)] by blast
  note at = rbtree_at [OF assms(1) [unfolded t]]
  have "l = Lf \<longleftrightarrow> r \<noteq> Lf"
    using one at(2,7,8) root_of_good by (metis goodD(2) root_of.simps(1) tr.simps(2))
  then show "\<exists>h' t'. rb_remove h n = Some (Inr h') \<and> rbtree h' t' \<and>
      inord t' = remove1 n (inord t) \<and> only_nodes (set (inord t)) h h'"
    using remove_only_child [OF assms(1) [unfolded t]] t by metis
qed (use remove_leaf remove_far_succ in auto)

theorem rb_remove_behaviour_witness:
  "(\<exists>h' t'. rb_remove two_nodes 16 = Some (Inr h') \<and> rbtree h' t' \<and> inord t' = [32]) \<and>
   rb_remove two_nodes 32 = Some (Inl NullDeref)"
  using rb_remove_behaviour [OF two_nodes_ok(1), of 16] rb_remove_behaviour [OF two_nodes_ok(1), of 32]
  by (auto simp: two_nodes_def one_node_def)

end
