(* ===== verification/Kmem.thy ===== *)
theory Kmem
  imports Buddy Rbtree_Index
begin

text \<open>
  The pool allocator \<^verbatim>\<open>modules/memory/kmem.c\<close>. A tree node, a \<^verbatim>\<open>kmem_block\<close> and the header of a
  pool all have four words and start at multiples of 16, so one cell of the memory of \<^verbatim>\<open>Rbtree\<close> is
  read as any of the three: the fields below are names for its words. The root of a pool's tree is
  the last word of the pool's header; it is moved to \<open>rb_root\<close> while a tree operation runs.

  The build has no \<^verbatim>\<open>panic\<close> and \<open>magic_break\<close> is a no-operation, so a failed check of a cookie or
  of a pool falls through, except in \<open>mem_kfree\<close>, which returns.
\<close>

section \<open>The three views of a cell\<close>

abbreviation (input) total_size :: "rbmem \<Rightarrow> u32 \<Rightarrow> u32" where "total_size \<equiv> rb_key"
abbreviation (input) next_pool :: "rbmem \<Rightarrow> u32 \<Rightarrow> u32" where "next_pool \<equiv> rb_L"
abbreviation (input) free_tree :: "rbmem \<Rightarrow> u32 \<Rightarrow> u32" where "free_tree \<equiv> rb_R"
abbreviation (input) cookie :: "rbmem \<Rightarrow> u32 \<Rightarrow> u32" where "cookie \<equiv> rb_key"
abbreviation (input) block_pool :: "rbmem \<Rightarrow> u32 \<Rightarrow> u32" where "block_pool \<equiv> parent_and_color"
abbreviation (input) block_size :: "rbmem \<Rightarrow> u32 \<Rightarrow> u32" where "block_size \<equiv> rb_L"
abbreviation (input) next_free :: "rbmem \<Rightarrow> u32 \<Rightarrow> u32" where "next_free \<equiv> rb_R"

definition set_cell :: "rbmem \<Rightarrow> u32 \<Rightarrow> u32 \<Rightarrow> u32 \<Rightarrow> u32 \<Rightarrow> u32 \<Rightarrow> rbmem" where
  "set_cell h p a b c d = h\<lparr>rb_key := (rb_key h)(p := a), parent_and_color := (parent_and_color h)(p := b),
     rb_L := (rb_L h)(p := c), rb_R := (rb_R h)(p := d)\<rparr>"

definition set_key :: "rbmem \<Rightarrow> u32 \<Rightarrow> u32 \<Rightarrow> rbmem" where
  "set_key h p k = h\<lparr>rb_key := (rb_key h)(p := k)\<rparr>"

abbreviation clear_cell :: "rbmem \<Rightarrow> u32 \<Rightarrow> rbmem" where
  "clear_cell h p \<equiv> set_cell h p 0 0 0 0"

definition enter_tree :: "rbmem \<Rightarrow> u32 \<Rightarrow> rbmem" where
  "enter_tree h pool = h\<lparr>rb_root := free_tree h pool\<rparr>"

definition leave_tree :: "rbmem \<Rightarrow> u32 \<Rightarrow> rbmem" where
  "leave_tree h pool = set_R h pool (rb_root h)"

text \<open>A word at an address that need not be the start of a cell.\<close>

definition word_at :: "rbmem \<Rightarrow> u32 \<Rightarrow> u32 res" where
  "word_at h a =
     (let off = a AND 15; p = a AND NOT 15
      in if off = 0 then Inr (rb_key h p)
         else if off = 4 then Inr (parent_and_color h p)
         else if off = 8 then Inr (rb_L h p)
         else if off = 12 then Inr (rb_R h p)
         else Inl OutOfBounds)"

abbreviation (input) COOKIE_MEM_INUSE_BLOCK :: u32 where "COOKIE_MEM_INUSE_BLOCK \<equiv> 0x0020D1AC"
abbreviation (input) COOKIE_MEM_FREE_BLOCK :: u32 where "COOKIE_MEM_FREE_BLOCK \<equiv> 0xFF20D1AC"
abbreviation (input) COOKIE_MEM_NEXT_BLOCK :: u32 where "COOKIE_MEM_NEXT_BLOCK \<equiv> 0x1120D1AC"
abbreviation (input) kmem_block_head_size :: u32 where "kmem_block_head_size \<equiv> 12"

text \<open>
  \<open>node + sizeof(rb_node)\<close> is arithmetic on a pointer to 16 bytes: it lies 16 nodes further on.
\<close>

definition beside :: "u32 \<Rightarrow> u32" where
  "beside node = node + 16 * 16"

text \<open>Sequencing of calls that may also not return.\<close>

abbreviation on_return :: "'a res option \<Rightarrow> ('a \<Rightarrow> 'b res option) \<Rightarrow> 'b res option" where
  "on_return m f \<equiv> Option.bind m (\<lambda>r. case r of Inl e \<Rightarrow> Some (Inl e) | Inr x \<Rightarrow> f x)"

section \<open>Blocks of a pool\<close>

definition insert_to_pool :: "u32 \<Rightarrow> u32 \<Rightarrow> u32 \<Rightarrow> rbmem \<Rightarrow> rbmem res option" where
  "insert_to_pool pool p sz h =
     (let h = set_key (clear_cell h p) p sz
      in on_return (rb_insert (enter_tree h pool) p) (\<lambda>(is_key_exists, h).
         let h = leave_tree h pool
         in if is_key_exists = 0 then Some (Inr h)
            else
              let h = clear_cell h p
              in Option.bind (rb_search h (free_tree h pool) sz) (\<lambda>node.
                 let node_next = beside node;
                     h = set_cell h p COOKIE_MEM_FREE_BLOCK pool (sz - kmem_block_head_size) (next_free h p)
                 in if cookie h node_next \<noteq> COOKIE_MEM_NEXT_BLOCK
                    then Some (Inr (set_R (set_R (set_key h node_next COOKIE_MEM_NEXT_BLOCK) node_next p) p 0))
                    else Some (Inr (let h = set_R h p (next_free h node_next) in set_R h node_next p)))))"

text \<open>The size of the block that takes the node's place is read after the block was cleared.\<close>

definition remove_from_pool :: "u32 \<Rightarrow> u32 \<Rightarrow> rbmem \<Rightarrow> rbmem res option" where
  "remove_from_pool pool p h =
     (let next_block = beside p
      in on_return (rb_remove (enter_tree h pool) p) (\<lambda>h.
         let h = leave_tree h pool
         in if cookie h next_block \<noteq> COOKIE_MEM_NEXT_BLOCK then Some (Inr h)
            else
              let mb = next_free h next_block
              in if mb = 0 then Some (Inl NullDeref)
                 else
                   let mb_next = next_free h mb;
                       h = clear_cell h mb;
                       h = set_key h mb (block_size h mb + kmem_block_head_size)
                   in on_return (rb_insert (enter_tree h pool) mb) (\<lambda>(_, h).
                      let h = leave_tree h pool;
                          mb_n = beside mb;
                          h = clear_cell h mb_n
                      in Some (Inr (if mb_next \<noteq> 0
                                    then set_R (set_key h mb_n COOKIE_MEM_NEXT_BLOCK) mb_n mb_next
                                    else h)))))"

section \<open>Pools\<close>

definition create_a_mem_pool :: "memory_info \<Rightarrow> u32 \<Rightarrow> rbmem \<Rightarrow> (memory_info \<times> u32 \<times> rbmem) res option" where
  "create_a_mem_pool mem pages h =
     (let (mem, pool) = page_alloc mem pages (PAGE_TYPE_INUSE OR 0x100)
      in if pool = 0 then Some (Inl NullDeref)
         else
           let sz = pages * PG_SIZE;
               h = set_cell h pool sz (sz - 16) 0 0
           in on_return (insert_to_pool pool (pool + 16) (sz - 16) h) (\<lambda>h. Some (Inr (mem, pool, h))))"

text \<open>Every further pool replaces the one that was linked before it.\<close>

partial_function (option) make_pools :: "u32 \<Rightarrow> u32 \<Rightarrow> memory_info \<Rightarrow> rbmem \<Rightarrow> (memory_info \<times> u32 \<times> rbmem) res option" where
  "make_pools pages pools mem h =
     (if pages = 0 then Some (Inr (mem, pools, h))
      else
        let p2pg = round_down_power_2 pages
        in Option.bind (create_a_mem_pool mem p2pg h) (\<lambda>r.
           case r of
             Inl e \<Rightarrow> Some (Inl e)
           | Inr (mem, pool, h) \<Rightarrow>
               if pools \<noteq> 0 then make_pools (pages - p2pg) pools mem (set_L h pools pool)
               else make_pools (pages - p2pg) pool mem h))"

text \<open>The result holds the new value of the global \<open>memory_pool\<close>.\<close>

definition init_memory_pool :: "memory_info \<Rightarrow> u32 \<Rightarrow> rbmem \<Rightarrow> (memory_info \<times> u32 \<times> rbmem) res option" where
  "init_memory_pool mem pool_size h = make_pools ((pool_size + PG_SIZE - 1) div PG_SIZE) 0 mem h"

section \<open>Allocation\<close>

partial_function (option) search_upper :: "rbmem \<Rightarrow> u32 \<Rightarrow> u32 \<Rightarrow> u32 \<Rightarrow> (u32 \<times> u32) option" where
  "search_upper h x key closet =
     (if x = 0 then Some (x, closet)
      else if rb_key h x = key then Some (x, closet)
      else if rb_key h x > key
      then search_upper h (rb_L h x) key (if closet = 0 then x else if rb_key h closet > rb_key h x then x else closet)
      else search_upper h (rb_R h x) key closet)"

definition rb_search_upper :: "rbmem \<Rightarrow> u32 \<Rightarrow> u32 \<Rightarrow> u32 res option" where
  "rb_search_upper h x key =
     map_option (\<lambda>(x, closet).
       and_then (not_null x) (\<lambda>_. Inr (if rb_key h x = key then x else closet)))
     (search_upper h x key 0)"

partial_function (option) find_in_pools :: "rbmem \<Rightarrow> u32 \<Rightarrow> u32 \<Rightarrow> (u32 \<times> u32) res option" where
  "find_in_pools h pool sz =
     (if pool = 0 then Some (Inr (pool, 0))
      else Option.bind (rb_search_upper h (free_tree h pool) sz) (\<lambda>r.
        case r of
          Inl e \<Rightarrow> Some (Inl e)
        | Inr node \<Rightarrow> if node \<noteq> 0 then Some (Inr (pool, node)) else find_in_pools h (next_pool h pool) sz))"

text \<open>
  The node is taken out of the tree of the first pool, wherever it was found, and the remainder
  starts \<open>sz\<close> nodes behind it.
\<close>

definition mem_kmalloc :: "u32 \<Rightarrow> u32 \<Rightarrow> rbmem \<Rightarrow> (u32 \<times> rbmem) res option" where
  "mem_kmalloc memory_pool sz h =
     (let sz = (sz + kmem_block_head_size + 16 - 1) AND NOT (16 - 1)
      in on_return (find_in_pools h memory_pool sz) (\<lambda>(pool, node).
         if node = 0 then Some (Inr (0, h))
         else on_return (remove_from_pool memory_pool node h) (\<lambda>h.
           let remaining_size = (if rb_key h node - sz < 16 then 0 else rb_key h node - sz);
               used_size = (if rb_key h node - sz < 16 then rb_key h node else sz)
           in on_return
                (if remaining_size \<noteq> 0 then insert_to_pool pool (node + sz * 16) remaining_size h
                 else Some (Inr h)) (\<lambda>h.
              Some (Inr (node + 12, set_cell h node COOKIE_MEM_INUSE_BLOCK pool used_size 0))))))"

section \<open>Release\<close>

text \<open>
  The size of the free block that follows, if one does. It is looked for at \<open>p + sz\<close>, where
  \<open>sz\<close> counts the header although \<open>p\<close> lies behind it.
\<close>

definition free_behind :: "u32 \<Rightarrow> u32 \<Rightarrow> rbmem \<Rightarrow> u32 option res option" where
  "free_behind p mb h =
     (let next_block = p + block_size h mb;
          pool = block_pool h mb
      in if pool = 0 then Some (Inl NullDeref)
         else if next_block < pool + total_size h pool
         then on_return (Some (word_at h next_block)) (\<lambda>word.
           if word = COOKIE_MEM_FREE_BLOCK
           then on_return (Some (word_at h (next_block + 8))) (\<lambda>s. Some (Inr (Some (s + kmem_block_head_size))))
           else Option.bind (rb_search h (free_tree h pool) word) (\<lambda>found.
             Some (Inr (if found = next_block then Some word else None))))
         else Some (Inr None))"

text \<open>
  Pointers that are not 12 bytes behind a cell do not come from \<open>mem_kmalloc\<close>; reading a block
  there is outside the view of the memory as cells. After merging the call runs again on
  the larger block.
\<close>

partial_function (option) mem_kfree :: "u32 \<Rightarrow> rbmem \<Rightarrow> rbmem res option" where
  "mem_kfree p h =
     (let mb = p - kmem_block_head_size
      in if mb = 0 then Some (Inl NullDeref)
         else if mb AND 15 \<noteq> 0 then Some (Inl OutOfBounds)
         else if cookie h mb \<noteq> COOKIE_MEM_INUSE_BLOCK then Some (Inr h)
         else Option.bind (free_behind p mb h) (\<lambda>r.
           case r of
             Inl e \<Rightarrow> Some (Inl e)
           | Inr None \<Rightarrow> insert_to_pool (block_pool h mb) mb (block_size h mb + kmem_block_head_size) h
           | Inr (Some next_block_size) \<Rightarrow> mem_kfree p (set_L h mb (block_size h mb + next_block_size))))"

end
