(* ===== verification/Kmem_Props.thy ===== *)
theory Kmem_Props
  imports Kmem Page_Allocator
begin

text \<open>
  Putting a block into a pool keeps the pool's tree a red-black tree; the search for a block that
  is large enough only returns on an exact fit, so the first allocation of the system fails.
\<close>

section \<open>Cells outside the tree\<close>

lemma set_cell_fields [simp]:
  "rb_key (set_cell h p a b c d) = (rb_key h)(p := a)"
  "parent_and_color (set_cell h p a b c d) = (parent_and_color h)(p := b)"
  "rb_L (set_cell h p a b c d) = (rb_L h)(p := c)" "rb_R (set_cell h p a b c d) = (rb_R h)(p := d)"
  "rb_root (set_cell h p a b c d) = rb_root h"
  by (simp_all add: set_cell_def)

lemma set_key_fields [simp]:
  "rb_key (set_key h p a) = (rb_key h)(p := a)" "parent_and_color (set_key h p a) = parent_and_color h"
  "rb_L (set_key h p a) = rb_L h" "rb_R (set_key h p a) = rb_R h" "rb_root (set_key h p a) = rb_root h"
  by (simp_all add: set_key_def)

lemma enter_leave_fields [simp]:
  "rb_key (enter_tree h p) = rb_key h" "parent_and_color (enter_tree h p) = parent_and_color h"
  "rb_L (enter_tree h p) = rb_L h" "rb_R (enter_tree h p) = rb_R h" "rb_root (enter_tree h p) = rb_R h p"
  "rb_key (leave_tree h p) = rb_key h" "parent_and_color (leave_tree h p) = parent_and_color h"
  "rb_L (leave_tree h p) = rb_L h" "rb_R (leave_tree h p) = (rb_R h)(p := rb_root h)"
  "rb_root (leave_tree h p) = rb_root h"
  by (simp_all add: enter_tree_def leave_tree_def)

definition same_links :: "rbmem \<Rightarrow> rbmem \<Rightarrow> u32 \<Rightarrow> bool" where
  "same_links h' h a \<longleftrightarrow> parent_and_color h' a = parent_and_color h a \<and> rb_L h' a = rb_L h a \<and> rb_R h' a = rb_R h a"

lemma same_links_node: "same_links h' h a \<Longrightarrow> same_node h' h a"
  by (simp add: same_links_def same_node_def GET_PARENT_def GET_COLOR_def)

lemma colours_cong: "(\<And>a. a \<in> set (inord t) \<Longrightarrow> c' a = c a) \<Longrightarrow> rinv c' t = rinv c t \<and> rr c' t = rr c t \<and> bh c' t = bh c t"
  by (induction t) auto

lemma rbtree_cong:
  assumes "\<And>a. a \<in> set (inord t) \<Longrightarrow> same_links h' h a" "rb_root h' = rb_root h"
  shows "rbtree h' t = rbtree h t"
proof -
  have "tr h' 0 t = tr h 0 t" by (rule tr_cong) (simp add: assms same_links_node)
  moreover have "rinv (GET_COLOR h') t = rinv (GET_COLOR h) t \<and> rr (GET_COLOR h') t = rr (GET_COLOR h) t \<and>
      bh (GET_COLOR h') t = bh (GET_COLOR h) t"
    by (rule colours_cong) (use assms(1) in \<open>simp add: same_links_def GET_COLOR_def\<close>)
  ultimately show ?thesis using assms(2) by (simp add: rbtree_def)
qed

lemma bst_cong: "(\<And>a. a \<in> set (inord t) \<Longrightarrow> rb_key h' a = rb_key h a) \<Longrightarrow> bst h' t = bst h t"
  unfolding bst_def by (metis map_cong)

section \<open>Pools\<close>

text \<open>The tree of a pool, whose header is not one of its nodes.\<close>

definition pool_tree :: "rbmem \<Rightarrow> u32 \<Rightarrow> shape \<Rightarrow> bool" where
  "pool_tree h pool t \<longleftrightarrow> rbtree (enter_tree h pool) t \<and> bst h t \<and> pool \<notin> set (inord t)"

lemma insert_to_pool_ok:
  assumes "pool_tree h pool t" "good p" "p \<notin> set (inord t)" "p \<noteq> pool" "sz \<notin> rb_key h ` set (inord t)"
  obtains h' t' where "insert_to_pool pool p sz h = Some (Inr h')" "pool_tree h' pool t'"
    "set (inord t') = insert p (set (inord t))" "rb_key h' = (rb_key h)(p := sz)"
    "\<And>a. a \<notin> insert p (set (inord t)) \<Longrightarrow> a \<noteq> pool \<Longrightarrow> same_links h' h a"
    "rb_L h' pool = rb_L h pool" "parent_and_color h' pool = parent_and_color h pool"
proof -
  let ?h1 = "set_key (clear_cell h p) p sz"
  let ?e = "enter_tree ?h1 pool"
  have ne: "a \<noteq> p" if "a \<in> set (inord t)" for a using that assms(3) by auto
  have "rbtree (enter_tree h pool) t" "bst h t" "pool \<notin> set (inord t)"
    using assms(1) by (simp_all add: pool_tree_def)
  then have t: "rbtree ?e t" "bst ?e t"
    using rbtree_cong [of t ?e "enter_tree h pool"] bst_cong [of t ?e h] ne assms(4)
    by (simp_all add: same_links_def)
  have f: "fresh_node ?e t p" using assms(2,3) by (simp add: fresh_node_def)
  have "rb_key ?e p \<notin> rb_key ?e ` set (inord t)" using assms(5) ne by auto
  then obtain h2 t' where h2: "rb_insert ?e p = Some (Inr (0, h2))" "rbtree h2 t'" "bst h2 t'"
    "set (inord t') = insert p (set (inord t))" "only_nodes (insert p (set (inord t))) ?e h2"
    using rb_insert_ok [OF t f] by auto
  let ?h' = "leave_tree h2 pool"
  have pool: "pool \<notin> insert p (set (inord t))" using assms(1,4) by (auto simp: pool_tree_def)
  have "same_links (enter_tree ?h' pool) h2 a" if "a \<in> set (inord t')" for a
    using that h2(4) pool by (auto simp: same_links_def)
  then have "rbtree (enter_tree ?h' pool) t' = rbtree h2 t'" by (rule rbtree_cong) simp_all
  then have "rbtree (enter_tree ?h' pool) t'" using h2(2) by blast
  moreover have "bst ?h' t'" using bst_cong [of t' ?h' h2] h2(3) by simp
  ultimately have pt: "pool_tree ?h' pool t'" using pool h2(4) by (simp add: pool_tree_def)
  show ?thesis
  proof (rule that [OF _ pt h2(4)])
    show "insert_to_pool pool p sz h = Some (Inr ?h')"
      using h2(1) by (simp add: insert_to_pool_def Let_def)
    show "rb_key ?h' = (rb_key h)(p := sz)" using h2(5) by (auto simp: only_nodes_def)
    show "same_links ?h' h a" if "a \<notin> insert p (set (inord t))" "a \<noteq> pool" for a
      using h2(5) that by (simp add: only_nodes_def same_links_def)
    show "rb_L ?h' pool = rb_L h pool" "parent_and_color ?h' pool = parent_and_color h pool"
      using h2(5) pool by (simp_all add: only_nodes_def)
  qed
qed

lemma search_upper_ok:
  "tr h p t \<Longrightarrow> bst h t \<Longrightarrow> \<exists>x c. search_upper h (root_of t) k closet = Some (x, c) \<and>
     (if k \<in> rb_key h ` set (inord t) then x \<in> set (inord t) \<and> rb_key h x = k else x = 0)"
proof (induction t arbitrary: p closet)
  case Lf
  then show ?case by (simp add: search_upper.simps)
next
  case (Nd l a r)
  note b = Nd.prems(2) [unfolded bst_Nd]
  from Nd.prems have a: "a \<noteq> 0" "rb_L h a = root_of l" "rb_R h a = root_of r" "tr h a l" "tr h a r" by auto
  consider "rb_key h a = k" | "k < rb_key h a" | "rb_key h a < k" by fastforce
  then show ?case
  proof cases
    case 1
    then show ?thesis using a by (simp add: search_upper.simps)
  next
    case 2
    then have "k \<notin> rb_key h ` set (inord r)" "k \<noteq> rb_key h a" using b by fastforce+
    then have keys: "k \<in> rb_key h ` set (inord (Nd l a r)) \<longleftrightarrow> k \<in> rb_key h ` set (inord l)" by auto
    have "\<exists>c. search_upper h a k closet = search_upper h (root_of l) k c"
      using 2 a by (subst search_upper.simps) auto
    then obtain c where c: "search_upper h a k closet = search_upper h (root_of l) k c" by blast
    obtain x c' where "search_upper h (root_of l) k c = Some (x, c')"
      "if k \<in> rb_key h ` set (inord l) then x \<in> set (inord l) \<and> rb_key h x = k else x = 0"
      using Nd.IH(1) [OF a(4), of c] b by blast
    then show ?thesis unfolding keys root_of.simps c by (auto split: if_splits)
  next
    case 3
    then have "k \<notin> rb_key h ` set (inord l)" "k \<noteq> rb_key h a" using b by fastforce+
    then have keys: "k \<in> rb_key h ` set (inord (Nd l a r)) \<longleftrightarrow> k \<in> rb_key h ` set (inord r)" by auto
    have c: "search_upper h a k closet = search_upper h (root_of r) k closet"
      using 3 a by (subst search_upper.simps) auto
    obtain x c' where "search_upper h (root_of r) k closet = Some (x, c')"
      "if k \<in> rb_key h ` set (inord r) then x \<in> set (inord r) \<and> rb_key h x = k else x = 0"
      using Nd.IH(2) [OF a(5), of closet] b by blast
    then show ?thesis unfolding keys root_of.simps c by (auto split: if_splits)
  qed
qed

lemma rb_search_upper_ok:
  assumes "pool_tree h pool t"
  shows "if k \<in> rb_key h ` set (inord t)
    then \<exists>x \<in> set (inord t). rb_search_upper h (free_tree h pool) k = Some (Inr x) \<and> rb_key h x = k
    else rb_search_upper h (free_tree h pool) k = Some (Inl NullDeref)"
proof -
  have t: "tr (enter_tree h pool) 0 t" "rb_R h pool = root_of t" "bst h t"
    using assms by (auto simp: pool_tree_def rbtree_def)
  moreover have "tr h 0 t = tr (enter_tree h pool) 0 t"
    by (rule tr_cong) (simp add: same_node_def GET_PARENT_def GET_COLOR_def)
  ultimately obtain x c where x: "search_upper h (root_of t) k 0 = Some (x, c)"
    "if k \<in> rb_key h ` set (inord t) then x \<in> set (inord t) \<and> rb_key h x = k else x = 0"
    using search_upper_ok by blast
  then show ?thesis
    using t tr_good [OF t(1)] by (auto simp: rb_search_upper_def not_null_def split: if_splits)
qed

section \<open>Allocation\<close>

lemma mem_kmalloc_no_fit:
  assumes "pool_tree h pool t" "pool \<noteq> 0"
    "(sz + 12 + 15) AND NOT 15 \<notin> rb_key h ` set (inord t)"
  shows "mem_kmalloc pool sz h = Some (Inl NullDeref)"
proof -
  have "(sz + 12 + 16 - 1) AND NOT (16 - 1) = (sz + 12 + 15) AND NOT (15 :: u32)"
    by (simp add: algebra_simps)
  then have "rb_search_upper h (free_tree h pool) ((sz + 12 + 16 - 1) AND NOT (16 - 1)) = Some (Inl NullDeref)"
    using rb_search_upper_ok [OF assms(1)] assms(3) by simp
  then show ?thesis
    using assms(2) by (simp add: mem_kmalloc_def Let_def find_in_pools.simps [of h pool])
qed

text \<open>A pool with a single block.\<close>

lemma mem_kmalloc_single:
  assumes "pool_tree h pool (Nd Lf p Lf)" "pool \<noteq> 0"
  shows "mem_kmalloc pool sz h = Some (Inl NullDeref)"
proof -
  let ?k = "(sz + 12 + 15) AND NOT (15 :: u32)"
  show ?thesis
  proof (cases "?k = rb_key h p")
    case False
    then show ?thesis by (intro mem_kmalloc_no_fit [OF assms]) auto
  next
    case True
    have e: "(sz + 12 + 16 - 1) AND NOT (16 - 1) = ?k" by (simp add: algebra_simps)
    have p: "p \<noteq> 0" "rb_L h p = 0" "rb_R h p = 0" using assms(1) by (simp_all add: pool_tree_def rbtree_def)
    have "rb_search_upper h (free_tree h pool) ?k = Some (Inr p)"
      using rb_search_upper_ok [OF assms(1), of ?k] True by simp
    then have "find_in_pools h pool ?k = Some (Inr (pool, p))"
      using assms(2) p by (simp add: find_in_pools.simps [of h pool])
    moreover have "remove_from_pool pool p h = Some (Inl NullDeref)"
      using p by (simp add: remove_from_pool_def Let_def remove_leaf)
    ultimately show ?thesis unfolding mem_kmalloc_def e Let_def using p by simp
  qed
qed

section \<open>The first allocation\<close>

lemma page_address:
  assumes "(p :: u32) AND 0xFFF = 0"
  shows "good (p + 16)" "p + 16 \<noteq> p"
proof -
  have low: "\<not> bit p n" if "n < 12" for n
  proof -
    have "(0xFFF :: u32) = mask 12" by (simp add: mask_eq_exp_minus_1)
    then have "\<not> bit (p AND mask 12) n" using assms by simp
    then show ?thesis using that by (simp add: bit_and_iff bit_mask_iff)
  qed
  have b: "bit (16 :: u32) n \<longleftrightarrow> n = 4" for n
    using bit_single [of 4 n] by simp
  have "p + 16 = p OR 16"
    by (rule disjunctive_add) (use low b in auto)
  then have bits: "bit (p + 16) n \<longleftrightarrow> bit p n \<or> n = 4" for n by (simp only: bit_or_iff b)
  then have "bit (p + 16) 4" by blast
  moreover have "(p + 16) AND 3 = 0"
    unfolding mask_two low_bits bits using low by simp
  moreover have "p + 16 \<noteq> 0" if "bit (p + 16) 4"
  proof
    assume "p + 16 = 0"
    then have "bit (0 :: u32) 4" using that by metis
    then show False by simp
  qed
  ultimately show "good (p + 16)" unfolding good_def by blast
  show "p + 16 \<noteq> p"   proof
    assume "p + 16 = p"
    then have "bit p 4" using \<open>bit (p + 16) 4\<close> by metis
    with low [of 4] show False by simp
  qed
qed

lemma round_down_1024: "round_down_power_2 1024 = 1024"
proof (rule round_down_power_2_eq [of 1024])
  fix k assume k: "k < 32" "round_down_power_2 1024 = 2 ^ k" "2 ^ k \<le> unat (1024 :: u32)" "unat (1024 :: u32) < 2 ^ Suc k"
  then have "(2 :: nat) ^ k \<le> 2 ^ 10" "(2 :: nat) ^ 10 < 2 ^ Suc k" by simp_all
  then have "k \<le> 10" "10 < Suc k" by (simp_all only: power_increasing_iff power_strict_increasing_iff)
  then have "k = 10" by simp
  then show "round_down_power_2 1024 = 1024" using k(2) by simp
qed simp

lemma single_node: "set (inord t) = {a} \<Longrightarrow> distinct (inord t) \<Longrightarrow> t = Nd Lf a Lf"
proof (cases t)
  case (Nd l b r)
  assume "set (inord t) = {a}" "distinct (inord t)"
  then have s: "b = a" "set (inord l) \<subseteq> {a}" "a \<notin> set (inord l)" "set (inord r) \<subseteq> {a}" "a \<notin> set (inord r)"
    using Nd by auto
  then have "inord l = []" "inord r = []" by (metis all_not_in_conv set_empty singletonD subsetD)+
  then show ?thesis using Nd s(1) by (cases l; cases r) auto
qed simp

definition pool_of :: "u32 \<Rightarrow> rbmem \<Rightarrow> bool" where
  "pool_of p h \<longleftrightarrow> pool_tree h p (Nd Lf (p + 16) Lf) \<and> rb_key h (p + 16) = 0x3FFFF0 \<and>
     rb_key h p = 0x400000 \<and> parent_and_color h p = 0x3FFFF0 \<and> rb_L h p = 0"

lemma init_memory_pool_ok:
  assumes "page_alloc mem 1024 (PAGE_TYPE_INUSE OR 0x100) = (mem', p)" "p \<noteq> 0" "p AND 0xFFF = 0"
  obtains h' where "init_memory_pool mem 0x400000 h = Some (Inr (mem', p, h'))" "pool_of p h'"
proof -
  let ?h = "set_cell h p 0x400000 0x3FFFF0 0 0"
  have t: "pool_tree ?h p Lf" by (simp add: pool_tree_def rbtree_def bst_def)
  have ne: "p + 16 \<noteq> p" using page_address [OF assms(3)] by simp
  obtain h' t' where h': "insert_to_pool p (p + 16) 0x3FFFF0 ?h = Some (Inr h')" "pool_tree h' p t'"
    "set (inord t') = {p + 16}" "rb_key h' = (rb_key ?h)(p + 16 := 0x3FFFF0)"
    "rb_L h' p = rb_L ?h p" "parent_and_color h' p = parent_and_color ?h p"
    by (rule insert_to_pool_ok [OF t page_address(1) [OF assms(3)], of "0x3FFFF0"]) (use ne in auto)
  have "distinct (inord t')" using h'(2) by (simp add: pool_tree_def rbtree_def)
  with h'(3) have "t' = Nd Lf (p + 16) Lf" by (rule single_node)
  then have "pool_of p h'" using h' ne by (simp add: pool_of_def)
  moreover have "init_memory_pool mem 0x400000 h = Some (Inr (mem', p, h'))"
    using assms(1,2) h'(1)
    by (simp add: init_memory_pool_def make_pools.simps [of 1024] make_pools.simps [of 0] round_down_1024
        create_a_mem_pool_def)
  ultimately show ?thesis using that by blast
qed

section \<open>Properties\<close>

text \<open>
  Putting a block into a pool that has no block of its size returns, adds the block's header as
  a node with the size as its key to the pool's tree, which stays a sorted red-black tree, and
  writes nothing but the block, the tree and the root in the pool's header.
\<close>

theorem insert_to_pool_correct:
  assumes "pool_tree h pool t" "good p" "p \<notin> set (inord t)" "p \<noteq> pool" "sz \<notin> rb_key h ` set (inord t)"
  shows "\<exists>h' t'. insert_to_pool pool p sz h = Some (Inr h') \<and> pool_tree h' pool t' \<and>
    set (inord t') = insert p (set (inord t)) \<and> rb_key h' = (rb_key h)(p := sz) \<and>
    (\<forall>a. a \<notin> insert p (set (inord t)) \<longrightarrow> a \<noteq> pool \<longrightarrow> same_links h' h a) \<and>
    rb_L h' pool = rb_L h pool \<and> parent_and_color h' pool = parent_and_color h pool"
  by (rule insert_to_pool_ok [OF assms]) blast

definition demo_pool :: rbmem where
  "demo_pool = set_cell two_nodes 4096 0x400000 0x3FFFF0 0 16"

theorem insert_to_pool_correct_witness:
  "\<exists>h' t'. insert_to_pool 4096 48 6 demo_pool = Some (Inr h') \<and> pool_tree h' 4096 t' \<and>
     set (inord t') = {16, 32, 48}"
proof -
  have "rbtree (enter_tree demo_pool 4096) (Nd Lf 16 (Nd Lf 32 Lf)) = rbtree two_nodes (Nd Lf 16 (Nd Lf 32 Lf))"
    by (rule rbtree_cong) (auto simp: same_links_def demo_pool_def two_nodes_def one_node_def)
  moreover have "bst demo_pool (Nd Lf 16 (Nd Lf 32 Lf)) = bst two_nodes (Nd Lf 16 (Nd Lf 32 Lf))"
    by (rule bst_cong) (auto simp: demo_pool_def)
  ultimately have "pool_tree demo_pool 4096 (Nd Lf 16 (Nd Lf 32 Lf))"
    using two_nodes_ok by (simp add: pool_tree_def)
  moreover have "good 48" "6 \<notin> rb_key demo_pool ` set (inord (Nd Lf 16 (Nd Lf 32 Lf)))"
    by (simp_all add: good_def demo_pool_def two_nodes_def one_node_def)
  ultimately obtain h' t' where "insert_to_pool 4096 48 6 demo_pool = Some (Inr h')" "pool_tree h' 4096 t'"
    "set (inord t') = insert 48 (set (inord (Nd Lf 16 (Nd Lf 32 Lf))))"
    using insert_to_pool_correct [of demo_pool 4096 "Nd Lf 16 (Nd Lf 32 Lf)" 48 6] by auto
  moreover have "insert 48 (set (inord (Nd Lf 16 (Nd Lf 32 Lf)))) = {16, 32, 48}" by auto
  ultimately show ?thesis by metis
qed

lemma order_of_1024: "order_of_pages 1024 = 10"
proof -
  have "unat (1024 :: u32) \<le> 2 ^ order_of_pages 1024" "order_of_pages 1024 \<le> 10"
    using order_of_pages_least [of 1024] by simp_all
  then have "(2 :: nat) ^ 10 \<le> 2 ^ order_of_pages 1024" by simp
  then have "10 \<le> order_of_pages 1024" by (simp only: power_increasing_iff)
  with \<open>order_of_pages 1024 \<le> 10\<close> show ?thesis by simp
qed

lemma page_aligned_iff: "(p :: u32) AND 0xFFF = 0 \<longleftrightarrow> 4096 dvd unat p"
proof -
  have m: "(0xFFF :: u32) = mask 12" by (simp add: mask_eq_exp_minus_1)
  have "unat (p AND mask 12) = unat p mod 4096"
    by (simp only: take_bit_eq_mask [symmetric] unsigned_take_bit_eq) (simp add: take_bit_eq_mod)
  then show ?thesis unfolding m by (metis dvd_eq_mod_eq_0 unat_eq_zero)
qed

lemma addr_page_aligned:
  assumes "geometry n mem" "i \<le> n" "memory_start mem AND 0xFFF = 0"
  shows "addr mem i AND 0xFFF = 0"
  using assms(3) unat_addr [OF assms(1,2)] by (simp add: page_aligned_iff)

text \<open>
  C24. Setting up the memory server's pool succeeds and leaves one free block with all its memory;
  but the first \<open>mem_kmalloc\<close>, whatever its size, follows a null pointer: the search for a larger
  block looks at the node behind the leaf it ends at, and an exact fit is a leaf, which
  \<open>rb_remove\<close> cannot take out.
\<close>

theorem first_kmalloc_faults:
  assumes "buddy_inv n mem" "memory_start mem AND 0xFFF = 0" "has_run mem 10"
  shows "\<exists>mem' p h'. init_memory_pool mem 0x400000 h = Some (Inr (mem', p, h')) \<and> pool_of p h' \<and>
    buddy_inv n mem' \<and> (\<forall>sz. mem_kmalloc p sz h' = Some (Inl NullDeref))"
proof -
  obtain i mem' where al: "page_alloc mem 1024 (PAGE_TYPE_INUSE OR 0x100) = (mem', addr mem i)"
    "takes n mem 10 (PAGE_TYPE_INUSE OR 0x100) i mem'"
    using page_alloc_cases [OF assms(1), of 1024 "PAGE_TYPE_INUSE OR 0x100"] assms(3)
    unfolding order_of_1024 by metis
  then have w: "buddy_inv n mem'" "well_placed n 10 i" by (simp_all add: takes_def)
  then have nz: "addr mem i \<noteq> 0"
    using addr_nonzero [OF inv_geometry [OF assms(1)]] by (simp add: well_placed_def)
  have "addr mem i AND 0xFFF = 0"
    by (rule addr_page_aligned [OF inv_geometry [OF assms(1)] _ assms(2)]) (use w in \<open>simp add: well_placed_def\<close>)
  from init_memory_pool_ok [OF al(1) nz this] obtain h' where
    h': "init_memory_pool mem 0x400000 h = Some (Inr (mem', addr mem i, h'))" "pool_of (addr mem i) h'"
    by blast
  then have "mem_kmalloc (addr mem i) sz h' = Some (Inl NullDeref)" for sz
    using mem_kmalloc_single [of h' "addr mem i" "addr mem i + 16"] nz by (simp add: pool_of_def)
  with h' w show ?thesis by blast
qed

lemma boot_has_large_run: "has_run boot_mem 10"
  by (auto simp: has_run_def boot_mem_ok(3) blk_def intro!: exI [of _ 0])

theorem first_kmalloc_faults_witness:
  "\<exists>mem' p h'. init_memory_pool boot_mem 0x400000 demo_pool = Some (Inr (mem', p, h')) \<and>
     mem_kmalloc p 100 h' = Some (Inl NullDeref)"
  using first_kmalloc_faults [OF boot_mem_ok(2) _ boot_has_large_run, of demo_pool] boot_mem_ok(4) by auto

end
