(* ===== verification/Pool_Requests.thy ===== *)
theory Pool_Requests
  imports Memory_Server Kmem_Props
begin

text \<open>
  The two requests of the memory server that use the pool allocator, \<open>MEM_MEMALLOC\<close> and
  \<open>MEM_MEMFREE\<close>, the body of the server's loop with them, and the client functions \<open>kmalloc\<close> and
  \<open>kfree\<close>. The state is that of \<open>Memory_Server\<close> with the cells of the pool and the global
  \<open>memory_pool\<close> beside it.
\<close>

record mm_pool =
  ms :: mm
  cells :: rbmem
  memory_pool :: u32

text \<open>The address of a block is the same in the caller's address space, or the block is given back.\<close>

definition seen_by :: "mm \<Rightarrow> nat \<Rightarrow> u32 \<Rightarrow> u32" where
  "seen_by s i va = vir2phy (page_tables (kern s)) (page_dir (proc_table (kern s) i)) va"

definition mem_memalloc :: "mm_pool \<Rightarrow> message \<Rightarrow> (mm_pool \<times> message list) res option" where
  "mem_memalloc s m =
     (let i = unat (m_sender m)
      in on_return (mem_kmalloc (memory_pool s) (m_major m) (cells s)) (\<lambda>(mem, h).
         if proc_max (kern (ms s)) \<le> i then Some (Inl OutOfBounds)
         else if seen_by (ms s) i mem \<noteq> mem
         then on_return (mem_kfree mem h) (\<lambda>h. Some (Inr (s\<lparr>cells := h\<rparr>, [send_back (m\<lparr>m_major := 0\<rparr>)])))
         else Some (Inr (s\<lparr>cells := h\<rparr>, [send_back (m\<lparr>m_major := mem\<rparr>)]))))"

definition mem_memfree :: "mm_pool \<Rightarrow> message \<Rightarrow> (mm_pool \<times> message list) res option" where
  "mem_memfree s m =
     (let i = unat (m_sender m);
          mem = m_major m
      in if proc_max (kern (ms s)) \<le> i then Some (Inl OutOfBounds)
         else if seen_by (ms s) i mem \<noteq> mem then Some (Inr (s, []))
         else on_return (mem_kfree mem (cells s)) (\<lambda>h. Some (Inr (s\<lparr>cells := h\<rparr>, []))))"

definition mem_server_step :: "u32 \<Rightarrow> mm_pool \<Rightarrow> message \<Rightarrow> (mm_pool \<times> message list) res option" where
  "mem_server_step vend s m =
     (if m_type m = MEM_MEMALLOC then mem_memalloc s m
      else if m_type m = MEM_MEMFREE then mem_memfree s m
      else on_return (mem_request vend (ms s) m) (\<lambda>(t, out). Some (Inr (s\<lparr>ms := t\<rparr>, out))))"

definition kmalloc :: "u32 \<Rightarrow> mm_pool \<Rightarrow> u32 \<Rightarrow> message \<Rightarrow> u32 \<Rightarrow> u32 \<Rightarrow> (mm_pool \<times> u32 option) res option" where
  "kmalloc vend s p m task_mem len =
     on_return (mem_server_step vend s ((mem_msg m MEM_MEMALLOC task_mem)\<lparr>m_major := len, m_sender := p\<rparr>)) (\<lambda>(s, out).
       Some (Inr (s, case filter (\<lambda>a. m_receiver a = p) out of [] \<Rightarrow> None | a # _ \<Rightarrow> Some (m_major a))))"

definition kfree :: "u32 \<Rightarrow> mm_pool \<Rightarrow> u32 \<Rightarrow> message \<Rightarrow> u32 \<Rightarrow> u32 \<Rightarrow> mm_pool res option" where
  "kfree vend s p m task_mem mem =
     on_return (mem_server_step vend s ((mem_msg m MEM_MEMFREE task_mem)\<lparr>m_major := mem, m_sender := p\<rparr>))
       (\<lambda>(s, _). Some (Inr s))"

lemma kmalloc_needs_pool:
  assumes "mem_kmalloc (memory_pool s) len (cells s) = Some (Inl e)"
  shows "kmalloc vend s p m task_mem len = Some (Inl e)"
  using assms by (simp add: kmalloc_def mem_server_step_def mem_msg_def mem_memalloc_def Let_def)

end
