(* ===== verification/Libc.thy ===== *)
theory Libc
  imports Omocha_Prelude
begin

text \<open>
  The kernel's C library: \<^verbatim>\<open>lib/string.c\<close> and the formatting functions of \<^verbatim>\<open>lib/stdlib.c\<close>.

  The functions on memory work on bytes by address; a loop that runs to the end of a string is
  a partial function, whose value is \<open>None\<close> when it does not end. Sizes are not negative. The
  formatting functions work on lists of bytes, a string being the bytes before its zero.
\<close>

type_synonym bmem = "u32 \<Rightarrow> u8"

section \<open>Memory\<close>

fun copy_up :: "nat \<Rightarrow> u32 \<Rightarrow> u32 \<Rightarrow> bmem \<Rightarrow> bmem" where
  "copy_up 0 d s m = m"
| "copy_up (Suc n) d s m = copy_up n (d + 1) (s + 1) (m(d := m s))"

fun copy_down :: "nat \<Rightarrow> u32 \<Rightarrow> u32 \<Rightarrow> bmem \<Rightarrow> bmem" where
  "copy_down 0 d s m = m"
| "copy_down (Suc n) d s m = copy_down n (d - 1) (s - 1) (m(d - 1 := m (s - 1)))"

definition memcpy :: "bmem \<Rightarrow> u32 \<Rightarrow> u32 \<Rightarrow> nat \<Rightarrow> bmem \<times> u32" where
  "memcpy m dst src sz =
     (if src < dst \<and> src + of_nat sz > dst
      then (copy_down sz (dst + of_nat sz) (src + of_nat sz) m, dst)
      else (copy_up sz dst src m, dst))"

partial_function (option) strlen_from :: "bmem \<Rightarrow> u32 \<Rightarrow> nat \<Rightarrow> nat option" where
  "strlen_from m eos n = (if m eos = 0 then Some n else strlen_from m (eos + 1) (n + 1))"

definition strlen :: "bmem \<Rightarrow> u32 \<Rightarrow> nat option" where
  "strlen m s = strlen_from m s 0"

partial_function (option) copy_string :: "bmem \<Rightarrow> u32 \<Rightarrow> u32 \<Rightarrow> bmem option" where
  "copy_string m dst src =
     (let m' = m(dst := m src) in if m src = 0 then Some m' else copy_string m' (dst + 1) (src + 1))"

text \<open>The pointer that is returned has never been assigned.\<close>

definition strcpy :: "bmem \<Rightarrow> u32 \<Rightarrow> u32 \<Rightarrow> (bmem \<times> u32 res) option" where
  "strcpy m dst src =
     (case (if src < dst then copy_string m dst src
            else case strlen m src of None \<Rightarrow> None | Some n \<Rightarrow> Some (fst (memcpy m dst src (n + 1)))) of
        None \<Rightarrow> None
      | Some m' \<Rightarrow> Some (m', Inl Uninitialised))"

fun stosb :: "u32 \<Rightarrow> u8 \<Rightarrow> nat \<Rightarrow> bmem \<Rightarrow> bmem" where
  "stosb d c 0 m = m"
| "stosb d c (Suc n) m = stosb (d + 1) c n (m(d := c))"

fun stosl :: "u32 \<Rightarrow> u32 \<Rightarrow> nat \<Rightarrow> bmem \<Rightarrow> bmem" where
  "stosl d w 0 m = m"
| "stosl d w (Suc n) m =
     stosl (d + 4) w n (m(d := ucast w, d + 1 := ucast (drop_bit 8 w),
                          d + 2 := ucast (drop_bit 16 w), d + 3 := ucast (drop_bit 24 w)))"

definition memset :: "bmem \<Rightarrow> u32 \<Rightarrow> u8 \<Rightarrow> nat \<Rightarrow> bmem \<times> u32" where
  "memset m dst ch sz =
     (if dst mod 4 = 0 \<and> sz mod 4 = 0
      then (stosl dst (ucast ch OR push_bit 8 (ucast ch) OR push_bit 16 (ucast ch) OR push_bit 24 (ucast ch))
              (sz div 4) m, dst)
      else (stosb dst ch sz m, dst))"

partial_function (option) strcmp :: "bmem \<Rightarrow> u32 \<Rightarrow> u32 \<Rightarrow> int option" where
  "strcmp m c1 c2 =
     (if m c1 \<noteq> m c2 then Some (if m c1 < m c2 then -1 else 1)
      else if m c1 = 0 then Some 0
      else strcmp m (c1 + 1) (c2 + 1))"

fun memcmp :: "bmem \<Rightarrow> u32 \<Rightarrow> u32 \<Rightarrow> nat \<Rightarrow> int" where
  "memcmp m c1 c2 0 = 0"
| "memcmp m c1 c2 (Suc n) =
     (if m c1 \<noteq> m c2 then (if m c1 < m c2 then -1 else 1) else memcmp m (c1 + 1) (c2 + 1) n)"

section \<open>Numbers\<close>

definition bytes :: "string \<Rightarrow> u8 list" where
  "bytes = map of_char"

abbreviation (input) chr :: "char \<Rightarrow> u8" where "chr c \<equiv> of_char c"

definition digits :: "u8 list" where
  "digits = bytes ''ZYXWVUTSRQPONMLKJIHGFEDCBA9876543210123456789ABCDEFGHIJKLMNOPQRSTUVWXYZ''"

text \<open>The loop that writes the digits, the last one first.\<close>

function put_digits :: "nat \<Rightarrow> nat \<Rightarrow> u8 list" where
  "put_digits value base =
     (if base < 2 then [] else
      digits ! (35 + value mod base) # (if value div base = 0 then [] else put_digits (value div base) base))"
  by auto
termination by (relation "measure fst") (auto simp: div_greater_zero_iff intro!: div_less_dividend)

declare put_digits.simps [simp del]

text \<open>The loop that swaps the ends, with the indices of \<open>low\<close> and \<open>ptr\<close>.\<close>

function swap_ends :: "u8 list \<Rightarrow> nat \<Rightarrow> nat \<Rightarrow> u8 list" where
  "swap_ends str low ptr =
     (if low < ptr then swap_ends (str[low := str ! ptr, ptr := str ! low]) (low + 1) (ptr - 1) else str)"
  by auto
termination by (relation "measure (\<lambda>(_, low, ptr). ptr - low)") auto

declare swap_ends.simps [simp del]

text \<open>A negative value would get a sign, but the value is not signed.\<close>

definition itoa :: "u32 \<Rightarrow> int \<Rightarrow> u8 list" where
  "itoa value base =
     (if base < 2 \<or> base > 36 then []
      else let str = put_digits (unat value) (nat base) in swap_ends str 0 (length str - 1))"

section \<open>Formatted output\<close>

text \<open>The width is a signed number of 32 bits: it wraps around, and a negative one pads nothing.\<close>

fun read_align :: "u8 list \<Rightarrow> u32 \<Rightarrow> u32 \<times> u8 list" where
  "read_align [] align = (align, [])"
| "read_align (c # fmt) align =
     (if chr CHR ''0'' \<le> c \<and> c \<le> chr CHR ''9''
      then read_align fmt (align * 10 + ucast (c - chr CHR ''0'')) else (align, c # fmt))"

text \<open>
  What a conversion puts into the inner buffer of 1024 bytes, and the arguments left. A string
  argument is a pointer to the bytes \<open>str_at\<close> gives for it.
\<close>

definition convert :: "(u32 \<Rightarrow> u8 list) \<Rightarrow> u8 \<Rightarrow> u32 list \<Rightarrow> (u8 list \<times> u32 list) res" where
  "convert str_at c arg =
     (if c \<in> {chr CHR ''c'', chr CHR ''x'', chr CHR ''d'', chr CHR ''s''}
      then (case arg of
              [] \<Rightarrow> Inl OutOfBounds
            | a # arg \<Rightarrow>
                if c = chr CHR ''c'' then Inr (if ucast a = (0 :: u8) then [] else [ucast a], arg)
                else if c = chr CHR ''x'' then Inr (itoa a 16, arg)
                else if c = chr CHR ''d''
                then Inr (if sint a < 0 then chr CHR ''-'' # itoa (- a) 10 else itoa a 10, arg)
                else if length (str_at a) < 1024 then Inr (str_at a, arg) else Inl OutOfBounds)
      else Inr ([], arg))"

lemma read_align_length: "read_align fmt a = (n, rest) \<Longrightarrow> length rest \<le> length fmt"
  by (induction fmt a rule: read_align.induct) (auto split: if_splits intro: le_SucI)

lemma read_align_less:
  "(n, k # rest) = read_align fmt a \<Longrightarrow> length rest < length fmt"
  "(n, k # rest) = read_align fmt a \<Longrightarrow> length rest < Suc (length fmt)"
  using read_align_length [of fmt a n "k # rest"] by auto

text \<open>
  After a \<^verbatim>\<open>%\<close> at the end of the format the loop steps over the terminating zero and goes on in
  whatever memory follows.
\<close>

function vsprintf :: "(u32 \<Rightarrow> u8 list) \<Rightarrow> u8 list \<Rightarrow> u32 list \<Rightarrow> u8 list res" where
  "vsprintf str_at [] arg = Inr []"
| "vsprintf str_at (c # fmt) arg =
     (if c \<noteq> chr CHR ''%''
      then (case vsprintf str_at fmt arg of Inl e \<Rightarrow> Inl e | Inr out \<Rightarrow> Inr (c # out))
      else (case fmt of
              [] \<Rightarrow> Inl OutOfBounds
            | f # fmt' \<Rightarrow>
                if f = chr CHR ''%''
                then (case vsprintf str_at fmt' arg of Inl e \<Rightarrow> Inl e | Inr out \<Rightarrow> Inr (f # out))
                else
                  (let cs = (if f = chr CHR ''0'' then f else chr CHR '' '');
                       (align, rest) = read_align (if f = chr CHR ''0'' then fmt' else fmt) 0
                   in case rest of
                        [] \<Rightarrow> Inl OutOfBounds
                      | k # rest' \<Rightarrow>
                          (case convert str_at k arg of
                             Inl e \<Rightarrow> Inl e
                           | Inr (inner, arg') \<Rightarrow>
                               (case vsprintf str_at rest' arg' of
                                  Inl e \<Rightarrow> Inl e
                                | Inr out \<Rightarrow>
                                    Inr (replicate (nat (sint align - int (length inner))) cs @ inner @ out))))))"
  by pat_completeness auto
termination
  by (relation "measure (\<lambda>(_, fmt, _). length fmt)")
    (auto split: if_splits dest: read_align_less)

declare vsprintf.simps(2) [simp del]

definition sprintf :: "(u32 \<Rightarrow> u8 list) \<Rightarrow> u8 list \<Rightarrow> u32 list \<Rightarrow> u8 list res" where
  "sprintf = vsprintf"

end
