(* ===== verification/Libc_Props.thy ===== *)
theory Libc_Props
  imports Libc
begin

text \<open>
  Copying is right for overlapping ranges, numbers are printed so that they can be read back,
  and formatted output follows the format.
\<close>

section \<open>Copying\<close>

definition in_area :: "u32 \<Rightarrow> nat \<Rightarrow> u32 \<Rightarrow> bool" where
  "in_area d n a \<longleftrightarrow> unat d \<le> unat a \<and> unat a < unat d + n"

lemma unat_plus1: "unat (d :: u32) + 1 < 2 ^ 32 \<Longrightarrow> unat (d + 1) = unat d + 1"
  by (subst unat_word_ariths) simp

lemma unat_minus1: "0 < unat (d :: u32) \<Longrightarrow> unat (d - 1) = unat d - 1"
  by (subst unat_sub) (auto simp: word_le_nat_alt)

lemma copy_up_moves:
  "unat d + n < 2 ^ 32 \<Longrightarrow> unat s + n < 2 ^ 32 \<Longrightarrow> unat d \<le> unat s \<or> unat s + n \<le> unat d \<Longrightarrow>
   copy_up n d s m a = (if in_area d n a then m (s + (a - d)) else m a)"
proof (induction n arbitrary: d s m)
  case (Suc n)
  have u: "unat (d + 1) = unat d + 1" "unat (s + 1) = unat s + 1"
    using Suc.prems by (simp_all add: unat_plus1)
  let ?m = "m(d := m s)"
  have ih: "copy_up n (d + 1) (s + 1) ?m a =
      (if in_area (d + 1) n a then ?m (s + 1 + (a - (d + 1))) else ?m a)"
    using Suc.prems by (intro Suc.IH) (auto simp: u)
  have e: "s + 1 + (a - (d + 1)) = s + (a - d)" by simp
  show ?case
  proof (cases "in_area (d + 1) n a")
    case True
    then have r: "unat d + 1 \<le> unat a" "unat a < unat d + Suc n" by (simp_all add: in_area_def u)
    have "unat (a - d) = unat a - unat d" using r(1) by (subst unat_sub) (simp_all add: word_le_nat_alt)
    then have "unat (s + (a - d)) = unat s + (unat a - unat d)"
      using Suc.prems(2) r by (subst unat_word_ariths) simp
    then have "unat (s + (a - d)) \<noteq> unat d" using Suc.prems(3) r by linarith
    then have "s + (a - d) \<noteq> d" by metis
    then have "?m (s + (a - d)) = m (s + (a - d))" by (rule fun_upd_other)
    moreover have "in_area d (Suc n) a" using r by (simp add: in_area_def)
    ultimately show ?thesis unfolding copy_up.simps ih e using True by (simp only: if_True)
  next
    case False
    then have "in_area d (Suc n) a \<longleftrightarrow> unat a = unat d" by (auto simp: in_area_def u)
    then have "in_area d (Suc n) a \<longleftrightarrow> a = d" by (simp only: word_unat_eq_iff)
    then show ?thesis using ih False by simp
  qed
qed (auto simp: in_area_def)

lemma copy_down_moves:
  "n \<le> unat d \<Longrightarrow> n \<le> unat s \<Longrightarrow> unat s \<le> unat d \<Longrightarrow>
   copy_down n d s m a = (if in_area (d - of_nat n) n a then m (a - d + s) else m a)"
proof (induction n arbitrary: d s m)
  case (Suc n)
  have u: "unat (d - 1) = unat d - 1" "unat (s - 1) = unat s - 1"
    using Suc.prems by (simp_all add: unat_minus1)
  let ?m = "m(d - 1 := m (s - 1))"
  have l: "d - 1 - of_nat n = d - of_nat (Suc n)" by simp
  have ih: "copy_down n (d - 1) (s - 1) ?m a =
      (if in_area (d - of_nat (Suc n)) n a then ?m (a - (d - 1) + (s - 1)) else ?m a)"
    using Suc.prems unfolding l [symmetric] by (intro Suc.IH) (auto simp: u)
  have e: "a - (d - 1) + (s - 1) = a - d + s" by simp
  have "unat (of_nat (Suc n) :: u32) = Suc n" using Suc.prems(1) unat_lt32 [of d] by (intro unat_of_nat32) simp
  then have b: "unat (d - of_nat (Suc n)) = unat d - Suc n"
    using Suc.prems(1) by (subst unat_sub) (simp_all add: word_le_nat_alt del: of_nat_Suc)
  show ?case
  proof (cases "in_area (d - of_nat (Suc n)) n a")
    case True
    then have r: "unat d - Suc n \<le> unat a" "unat a < unat d - 1"
      using Suc.prems(1) unfolding in_area_def b by simp_all
    have "unat (d - a) = unat d - unat a" using r(2) by (subst unat_sub) (simp_all add: word_le_nat_alt)
    then have "unat (s - (d - a)) = unat s - (unat d - unat a)"
      using r Suc.prems(2) by (subst unat_sub) (simp_all add: word_le_nat_alt)
    moreover have "s - (d - a) = a - d + s" by simp
    ultimately have "unat (a - d + s) \<noteq> unat (d - 1)" using r Suc.prems(3) u(1) by simp
    then have "a - d + s \<noteq> d - 1" by metis
    then have "?m (a - d + s) = m (a - d + s)" by (rule fun_upd_other)
    moreover have "in_area (d - of_nat (Suc n)) (Suc n) a" using r unfolding in_area_def b by simp
    ultimately show ?thesis unfolding copy_down.simps ih e using True by (simp only: if_True)
  next
    case False
    then have "in_area (d - of_nat (Suc n)) (Suc n) a \<longleftrightarrow> unat a = unat (d - 1)"
      using Suc.prems(1) unfolding in_area_def b u by auto
    then have "in_area (d - of_nat (Suc n)) (Suc n) a \<longleftrightarrow> a = d - 1" by (simp only: word_unat_eq_iff)
    moreover have "d - 1 - d + s = s - 1" by simp
    ultimately show ?thesis using ih False by simp
  qed
qed (auto simp: in_area_def)

lemma memcpy_moves:
  assumes "unat dst + sz < 2 ^ 32" "unat src + sz < 2 ^ 32"
  shows "memcpy m dst src sz = ((\<lambda>a. if in_area dst sz a then m (src + (a - dst)) else m a), dst)"
proof -
  have n: "unat (of_nat sz :: u32) = sz" using assms(1) by (intro unat_of_nat32) simp
  have u: "unat (src + of_nat sz) = unat src + sz" "unat (dst + of_nat sz) = unat dst + sz"
    using assms n by (simp_all add: unat_word_ariths)
  show ?thesis
  proof (cases "src < dst \<and> src + of_nat sz > dst")
    case True
    have "copy_down sz (dst + of_nat sz) (src + of_nat sz) m a =
        (if in_area dst sz a then m (src + (a - dst)) else m a)" for a
      using copy_down_moves [of sz "dst + of_nat sz" "src + of_nat sz" m a] True u
      by (simp add: word_less_nat_alt algebra_simps)
    then show ?thesis using True by (simp add: memcpy_def fun_eq_iff)
  next
    case False
    then have "unat dst \<le> unat src \<or> unat src + sz \<le> unat dst" using u by (auto simp: word_less_nat_alt)
    then show ?thesis
      using copy_up_moves [OF assms] False by (auto simp: memcpy_def fun_eq_iff)
  qed
qed

text \<open>
  \<open>memcpy\<close> copies the bytes the source had before the call, whether the ranges overlap or
  not and in whichever direction, and changes nothing else: it is \<open>memmove\<close>.
\<close>

theorem memcpy_is_memmove:
  assumes "unat dst + sz < 2 ^ 32" "unat src + sz < 2 ^ 32"
  shows "memcpy m dst src sz = ((\<lambda>a. if in_area dst sz a then m (src + (a - dst)) else m a), dst)"
  by (rule memcpy_moves [OF assms])

theorem memcpy_is_memmove_witness:
  "fst (memcpy (\<lambda>a. ucast a) 0x1002 0x1000 8) 0x1009 = 7"
  using memcpy_is_memmove [of "0x1002" 8 "0x1000" "\<lambda>a. ucast a"] by (simp add: in_area_def)

section \<open>Filling\<close>

lemma stosb_fills: "unat d + n < 2 ^ 32 \<Longrightarrow> stosb d c n m a = (if in_area d n a then c else m a)"
proof (induction n arbitrary: d m)
  case (Suc n)
  have u: "unat (d + 1) = unat d + 1" using Suc.prems by (simp add: unat_plus1)
  have e: "a = d \<longleftrightarrow> unat a = unat d" by (simp only: word_unat_eq_iff)
  have ih: "stosb (d + 1) c n (m(d := c)) a = (if in_area (d + 1) n a then c else (m(d := c)) a)"
    using Suc.prems u by (intro Suc.IH) simp
  show ?case unfolding stosb.simps ih by (auto simp: in_area_def u e)
qed (auto simp: in_area_def)

lemma stosl_zeros: "unat d + 4 * n < 2 ^ 32 \<Longrightarrow> stosl d 0 n m a = (if in_area d (4 * n) a then 0 else m a)"
proof (induction n arbitrary: d m)
  case (Suc n)
  have u: "unat (d + 1) = unat d + 1" "unat (d + 2) = unat d + 2" "unat (d + 3) = unat d + 3" "unat (d + 4) = unat d + 4"
    using Suc.prems by (simp_all add: unat_word_ariths)
  let ?m = "m(d := 0, d + 1 := 0, d + 2 := 0, d + 3 := 0)"
  have "?m a = (if in_area d 4 a then 0 else m a)"
  proof -
    have "a = d \<longleftrightarrow> unat a = unat d" "a = d + 1 \<longleftrightarrow> unat a = unat d + 1" "a = d + 2 \<longleftrightarrow> unat a = unat d + 2"
      "a = d + 3 \<longleftrightarrow> unat a = unat d + 3" by (simp_all only: word_unat_eq_iff u)
    then show ?thesis unfolding in_area_def fun_upd_apply by auto
  qed
  moreover have "in_area d (4 * Suc n) a \<longleftrightarrow> in_area d 4 a \<or> in_area (d + 4) (4 * n) a" by (auto simp: in_area_def u)
  moreover have "stosl (d + 4) 0 n ?m a = (if in_area (d + 4) (4 * n) a then 0 else ?m a)"
    using Suc.prems u by (intro Suc.IH) simp
  moreover have "stosl d 0 (Suc n) m = stosl (d + 4) 0 n ?m" by (simp only: stosl.simps) simp
  ultimately show ?case by (simp only:) simp
qed (auto simp: in_area_def)

lemma memset_zeros:
  "unat dst + sz < 2 ^ 32 \<Longrightarrow> memset m dst 0 sz = ((\<lambda>a. if in_area dst sz a then 0 else m a), dst)"
  using stosl_zeros [of dst "sz div 4" m] stosb_fills [of dst sz 0 m] by (auto simp: memset_def fun_eq_iff)

section \<open>Numbers\<close>

definition digit_value :: "u8 \<Rightarrow> nat" where
  "digit_value c = (if c \<le> chr CHR ''9'' then unat (c - chr CHR ''0'') else unat (c - chr CHR ''A'') + 10)"

definition digit_codes :: "u8 list" where
  "digit_codes = [48, 49, 50, 51, 52, 53, 54, 55, 56, 57, 65, 66, 67, 68, 69, 70, 71, 72, 73, 74, 75, 76, 77, 78,
     79, 80, 81, 82, 83, 84, 85, 86, 87, 88, 89, 90]"

lemma digit_codes: "drop 35 digits = digit_codes"
  by (simp add: digits_def bytes_def digit_codes_def)

lemma digit_code_values: "map digit_value digit_codes = [0..<36]" "0 \<notin> set digit_codes" "length digit_codes = 36"
  by (simp_all add: digit_codes_def digit_value_def upt_rec)

lemma digit_table:
  assumes "d < 36"
  shows "digit_value (digits ! (35 + d)) = d" "digits ! (35 + d) \<noteq> 0"
proof -
  have "35 \<le> length digits" by (simp add: digits_def bytes_def)
  then have e: "digits ! (35 + d) = digit_codes ! d" unfolding digit_codes [symmetric] by (rule nth_drop [symmetric])
  have d: "d < length digit_codes" using assms digit_code_values(3) by simp
  have "digit_value (digit_codes ! d) = map digit_value digit_codes ! d" using d by simp
  then show "digit_value (digits ! (35 + d)) = d" unfolding e digit_code_values(1) using assms by simp
  show "digits ! (35 + d) \<noteq> 0" unfolding e using nth_mem [OF d] digit_code_values(2) by metis
qed
definition read_number :: "nat \<Rightarrow> u8 list \<Rightarrow> nat" where
  "read_number base cs = foldl (\<lambda>n c. n * base + digit_value c) 0 cs"

lemma read_number_snoc: "read_number base (cs @ [c]) = read_number base cs * base + digit_value c"
  by (simp add: read_number_def)

lemma put_digits_correct:
  "2 \<le> base \<Longrightarrow> base \<le> 36 \<Longrightarrow> put_digits v base \<noteq> [] \<and> read_number base (rev (put_digits v base)) = v \<and>
   (\<forall>c \<in> set (put_digits v base). digit_value c < base) \<and> (0 < v \<longrightarrow> digit_value (last (put_digits v base)) \<noteq> 0)"
proof (induction v base rule: put_digits.induct)
  case (1 v base)
  have d: "digit_value (digits ! (35 + v mod base)) = v mod base"
    using 1(2,3) less_le_trans [OF mod_less_divisor [of base v], of 36] by (intro digit_table(1)) simp
  have lt: "v mod base < base" using 1(2) by simp
  show ?case
  proof (cases "v div base = 0")
    case True
    then have "put_digits v base = [digits ! (35 + v mod base)]" using 1(2) by (subst put_digits.simps) simp
    moreover have "v mod base = v" using True 1(2) by (simp add: div_eq_0_iff)
    ultimately show ?thesis using d lt by (simp add: read_number_def)
  next
    case False
    then have p: "put_digits v base = digits ! (35 + v mod base) # put_digits (v div base) base"
      using 1(2) by (subst put_digits.simps) simp
    have ih: "put_digits (v div base) base \<noteq> []" "read_number base (rev (put_digits (v div base) base)) = v div base"
      "\<forall>c \<in> set (put_digits (v div base) base). digit_value c < base"
      "digit_value (last (put_digits (v div base) base)) \<noteq> 0"
      using 1(1) 1(2,3) False by auto
    then show ?thesis using d lt p by (simp add: read_number_snoc)
  qed
qed

lemma swap_ends_nth:
  "ptr < length str \<Longrightarrow> length (swap_ends str low ptr) = length str \<and>
   (i < length str \<longrightarrow> swap_ends str low ptr ! i = (if low \<le> i \<and> i \<le> ptr then str ! (low + ptr - i) else str ! i))"
proof (induction str low ptr rule: swap_ends.induct)
  case (1 str low ptr)
  show ?case
  proof (cases "low < ptr")
    case True
    let ?str = "str[low := str ! ptr, ptr := str ! low]"
    have e: "swap_ends str low ptr = swap_ends ?str (low + 1) (ptr - 1)" using True by (subst swap_ends.simps) simp
    have ih: "length (swap_ends ?str (low + 1) (ptr - 1)) = length ?str"
      "i < length ?str \<longrightarrow> swap_ends ?str (low + 1) (ptr - 1) ! i =
        (if low + 1 \<le> i \<and> i \<le> ptr - 1 then ?str ! (low + 1 + (ptr - 1) - i) else ?str ! i)"
      using 1(1) [OF True] 1(2) by simp_all
    have k: "low + 1 + (ptr - 1) = low + ptr" using True by simp
    have "swap_ends str low ptr ! i = (if low \<le> i \<and> i \<le> ptr then str ! (low + ptr - i) else str ! i)"
      if i: "i < length str"
    proof -
      consider "i = low" | "i = ptr" | "low < i" "i < ptr" | "i < low \<or> ptr < i" using True by linarith
      then show ?thesis
      proof cases
        case 3
        then have "low + ptr - i \<noteq> low" "low + ptr - i \<noteq> ptr" "i \<le> ptr - 1" by linarith+
        then show ?thesis using 3 ih(2) i unfolding e k by simp
      qed (use True ih(2) i 1(2) in \<open>auto simp: e nth_list_update\<close>)
    qed
    then show ?thesis using ih(1) by (simp add: e)
  next
    case False
    then have "swap_ends str low ptr = str" by (subst swap_ends.simps) simp
    moreover have "low + ptr - i = i" if "low \<le> i \<and> i \<le> ptr" using False that by linarith
    ultimately show ?thesis by simp
  qed
qed

lemma swap_ends_rev: "str \<noteq> [] \<Longrightarrow> swap_ends str 0 (length str - 1) = rev str"
  by (rule nth_equalityI) (use swap_ends_nth [of "length str - 1" str 0] in \<open>auto simp: rev_nth\<close>)

lemma itoa_rev:
  assumes "2 \<le> base" "base \<le> 36"
  shows "itoa value base = rev (put_digits (unat value) (nat base))"
proof -
  have "2 \<le> nat base" "nat base \<le> 36" using assms by linarith+
  then have "put_digits (unat value) (nat base) \<noteq> []" using put_digits_correct by blast
  then show ?thesis using assms swap_ends_rev by (simp add: itoa_def)
qed

text \<open>
  \<open>itoa\<close> writes the digits of the number in the given base, without leading zeros: reading
  them in that base gives the number back.
\<close>

theorem itoa_roundtrip:
  assumes "2 \<le> base" "base \<le> 36"
  shows "read_number (nat base) (itoa value base) = unat value \<and> itoa value base \<noteq> [] \<and>
    (\<forall>c \<in> set (itoa value base). digit_value c < nat base) \<and>
    (value \<noteq> 0 \<longrightarrow> digit_value (hd (itoa value base)) \<noteq> 0)"
proof -
  let ?ds = "put_digits (unat value) (nat base)"
  have b: "2 \<le> nat base" "nat base \<le> 36" using assms by linarith+
  note p = put_digits_correct [OF b, of "unat value"]
  have "itoa value base = rev ?ds" using assms by (rule itoa_rev)
  moreover have "value \<noteq> 0 \<Longrightarrow> 0 < unat value" by (simp add: unat_gt_0)
  ultimately show ?thesis using p by (auto simp: hd_rev)
qed

theorem itoa_roundtrip_witness: "read_number 10 (itoa 1234567 10) = 1234567 \<and> read_number 16 (itoa 0xBEEF 16) = 0xBEEF"
  using itoa_roundtrip [of 10 1234567] itoa_roundtrip [of 16 "0xBEEF"] by simp

section \<open>Formatted output\<close>

text \<open>A format as a list of pieces, and the text it is written as.\<close>

datatype piece = Lit u8 | Percent | Conv bool nat u8

definition kinds :: "u8 set" where
  "kinds = {chr CHR ''c'', chr CHR ''x'', chr CHR ''d'', chr CHR ''s''}"

fun unparse :: "piece \<Rightarrow> u8 list" where
  "unparse (Lit c) = [c]"
| "unparse Percent = bytes ''%%''"
| "unparse (Conv z width k) =
     bytes ''%'' @ (if z then bytes ''0'' else []) @ (if width = 0 then [] else itoa (of_nat width) 10) @ [k]"

fun valid :: "piece \<Rightarrow> bool" where
  "valid (Lit c) \<longleftrightarrow> c \<noteq> chr CHR ''%''"
| "valid Percent \<longleftrightarrow> True"
| "valid (Conv z width k) \<longleftrightarrow> width < 2 ^ 31 \<and> k \<in> kinds"

definition shown :: "(u32 \<Rightarrow> u8 list) \<Rightarrow> u8 \<Rightarrow> u32 \<Rightarrow> u8 list" where
  "shown str_at k a =
     (if k = chr CHR ''c'' then (if ucast a = (0 :: u8) then [] else [ucast a])
      else if k = chr CHR ''x'' then itoa a 16
      else if k = chr CHR ''d'' then (if sint a < 0 then bytes ''-'' @ itoa (- a) 10 else itoa a 10)
      else str_at a)"

text \<open>The output, \<open>None\<close> when arguments are missing or a string does not fit the inner buffer.\<close>

fun render :: "(u32 \<Rightarrow> u8 list) \<Rightarrow> piece list \<Rightarrow> u32 list \<Rightarrow> u8 list option" where
  "render str_at [] args = Some []"
| "render str_at (Lit c # ps) args = map_option ((#) c) (render str_at ps args)"
| "render str_at (Percent # ps) args = map_option ((@) (bytes ''%'')) (render str_at ps args)"
| "render str_at (Conv z width k # ps) [] = None"
| "render str_at (Conv z width k # ps) (a # args) =
     (if k = chr CHR ''s'' \<and> 1024 \<le> length (str_at a) then None
      else map_option (\<lambda>out. replicate (width - length (shown str_at k a)) (chr (if z then CHR ''0'' else CHR '' ''))
                         @ shown str_at k a @ out) (render str_at ps args))"

definition decimal :: "u8 \<Rightarrow> bool" where
  "decimal c \<longleftrightarrow> chr CHR ''0'' \<le> c \<and> c \<le> chr CHR ''9''"

lemma decimal_codes: "d < 10 \<Longrightarrow> decimal (digits ! (35 + d))"
proof -
  assume d: "d < 10"
  have "35 \<le> length digits" by (simp add: digits_def bytes_def)
  then have e: "digits ! (35 + d) = digit_codes ! d" unfolding digit_codes [symmetric] by (rule nth_drop [symmetric])
  have "\<forall>c \<in> set (take 10 digit_codes). decimal c" by (simp add: digit_codes_def decimal_def)
  moreover have "digit_codes ! d = take 10 digit_codes ! d" using d by simp
  moreover have "take 10 digit_codes ! d \<in> set (take 10 digit_codes)"
    using d by (intro nth_mem) (simp add: digit_code_values(3))
  ultimately show ?thesis unfolding e by metis
qed

lemma put_digits_decimal: "\<forall>c \<in> set (put_digits v 10). decimal c"
proof (induction v "10 :: nat" rule: put_digits.induct)
  case (1 v)
  then show ?case
    by (subst put_digits.simps) (auto intro!: decimal_codes)
qed

lemma read_align_digits:
  "\<forall>c \<in> set ds. decimal c \<Longrightarrow> \<not> decimal k \<Longrightarrow>
   read_align (ds @ k # rest) (of_nat n) = (of_nat (foldl (\<lambda>n c. n * 10 + digit_value c) n ds), k # rest)"
proof (induction ds arbitrary: n)
  case (Cons c ds)
  have "(of_nat n * 10 + ucast (c - chr CHR ''0'') :: u32) = of_nat (n * 10 + digit_value c)"
    using Cons.prems(1) by (simp add: decimal_def digit_value_def)
  then show ?case using Cons by (simp add: decimal_def del: of_nat_add of_nat_mult)
qed (auto simp: decimal_def)

lemma kinds_not_decimal: "k \<in> kinds \<Longrightarrow> \<not> decimal k \<and> k \<noteq> chr CHR ''%'' \<and> k \<noteq> chr CHR ''0''"
  by (auto simp: kinds_def decimal_def)

lemma convert_shown:
  assumes "k \<in> kinds"
  shows "convert str_at k (a # args) =
    (if k = chr CHR ''s'' \<and> 1024 \<le> length (str_at a) then Inl OutOfBounds else Inr (shown str_at k a, args))"
  using assms by (auto simp: convert_def kinds_def shown_def bytes_def)

lemma sint_of_width:
  assumes "n < 2 ^ 31"
  shows "sint (of_nat n :: u32) = int n"
proof -
  have "unat (of_nat n :: u32) = n" using assms by (intro unat_of_nat32) simp
  then have "uint (of_nat n :: u32) = int n" by (simp add: uint_nat del: unat_of_nat)
  moreover have "take_bit 32 (int n) = int n" "signed_take_bit 31 (int n) = int n"
    using assms by (simp_all add: take_bit_int_eq_self signed_take_bit_int_eq_self)
  ultimately show ?thesis by (simp add: sint_uint)
qed

text \<open>The text of a conversion, without its first character, is read back.\<close>

lemma read_width:
  assumes "width < 2 ^ 31" "k \<in> kinds"
  shows "read_align ((if width = 0 then [] else itoa (of_nat width) 10) @ k # rest) 0 = (of_nat width, k # rest)"
proof -
  have k: "\<not> decimal k" using kinds_not_decimal [OF assms(2)] by blast
  show ?thesis
  proof (cases "width = 0")
    case True
    then show ?thesis using read_align_digits [of "[]" k rest 0] k by simp
  next
    case False
    have u: "unat (of_nat width :: u32) = width" using assms(1) by (intro unat_of_nat32) simp
    have e: "itoa (of_nat width) 10 = rev (put_digits width 10)"
      using itoa_rev [of 10 "of_nat width"] u by simp
    have "\<forall>c \<in> set (rev (put_digits width 10)). decimal c" using put_digits_decimal by simp
    moreover have "foldl (\<lambda>n c. n * 10 + digit_value c) 0 (rev (put_digits width 10)) = width"
      using put_digits_correct [of 10 width] by (simp add: read_number_def)
    ultimately show ?thesis using read_align_digits [of "rev (put_digits width 10)" k rest 0] k False by (simp add: e)
  qed
qed

lemma width_head:
  assumes "width < 2 ^ 31" "k \<in> kinds"
  obtains f fmt where "(if width = 0 then [] else itoa (of_nat width) 10) @ k # rest = f # fmt"
    "f \<noteq> chr CHR ''%''" "f \<noteq> chr CHR ''0''"
proof (cases "width = 0")
  case True
  then show thesis using that [of k rest] kinds_not_decimal [OF assms(2)] by simp
next
  case False
  have u: "unat (of_nat width :: u32) = width" using assms(1) by (intro unat_of_nat32) simp
  have e: "itoa (of_nat width) 10 = rev (put_digits width 10)"
    using itoa_rev [of 10 "of_nat width"] u by simp
  have ne: "put_digits width 10 \<noteq> []" "digit_value (last (put_digits width 10)) \<noteq> 0"
    using put_digits_correct [of 10 width] False by simp_all
  then obtain f fs where f: "rev (put_digits width 10) = f # fs" by (cases "rev (put_digits width 10)") auto
  then have l: "last (put_digits width 10) = f" by (metis hd_rev list.sel(1))
  then have "decimal f" using put_digits_decimal ne(1) last_in_set by metis
  then have "f \<noteq> chr CHR ''%''" by (auto simp: decimal_def)
  moreover have "f \<noteq> chr CHR ''0''" using ne(2) l by (auto simp: digit_value_def)
  ultimately show thesis using that f False by (simp add: e)
qed

text \<open>
  C38. Formatted output follows the format: on the text of a format the function writes the
  literal bytes, a percent sign for two, and for each conversion its argument as a character, a
  hexadecimal or signed decimal number or a string, padded on the left to the width with zeros
  or blanks. Widths are less than \<open>2 ^ 31\<close>, the positive numbers of the type they are read into.
\<close>

theorem sprintf_renders:
  assumes "\<forall>p \<in> set ps. valid p" "render str_at ps args = Some out"
  shows "sprintf str_at (concat (map unparse ps)) args = Inr out"
  unfolding sprintf_def using assms
proof (induction ps arbitrary: args out)
  case Nil
  then show ?case by simp
next
  case (Cons p ps)
  have v: "\<forall>p \<in> set ps. valid p" using Cons.prems(1) by simp
  let ?rest = "concat (map unparse ps)"
  show ?case
  proof (cases p)
    case (Lit c)
    then obtain out' where "out = c # out'" "render str_at ps args = Some out'" using Cons.prems(2) by auto
    then show ?thesis using Cons.IH [OF v] Cons.prems(1) Lit by (simp add: vsprintf.simps(2))
  next
    case Percent
    then obtain out' where "out = chr CHR ''%'' # out'" "render str_at ps args = Some out'"
      using Cons.prems(2) by (auto simp: bytes_def)
    then show ?thesis using Cons.IH [OF v] Percent by (simp add: vsprintf.simps(2) bytes_def)
  next
    case (Conv z width k)
    then have k: "width < 2 ^ 31" "k \<in> kinds" using Cons.prems(1) by simp_all
    have w: "nat (sint (of_nat width :: u32) - int (length x)) = width - length x" for x :: "u8 list"
      using sint_of_width [OF k(1)] by simp
    obtain a args' out' where a: "args = a # args'" "\<not> (k = chr CHR ''s'' \<and> 1024 \<le> length (str_at a))"
      "render str_at ps args' = Some out'"
      "out = replicate (width - length (shown str_at k a)) (chr (if z then CHR ''0'' else CHR '' ''))
         @ shown str_at k a @ out'"
      using Cons.prems(2) Conv by (cases args) (auto split: if_splits)
    note rd = read_width [OF k, of ?rest] and cv = convert_shown [OF k(2), of str_at a args'] and ih = Cons.IH [OF v a(3)]
    obtain f fmt where f: "(if width = 0 then [] else itoa (of_nat width) 10) @ k # ?rest = f # fmt"
      "f \<noteq> chr CHR ''%''" "f \<noteq> chr CHR ''0''"
      using width_head [OF k, of ?rest] by blast
    have "vsprintf str_at (chr CHR ''%'' # (if z then [chr CHR ''0''] else []) @ f # fmt) args = Inr out"
      using rd cv ih a f(2,3) unfolding f(1)
      by (cases z) (simp_all add: vsprintf.simps(2) w)
    moreover have "concat (map unparse (p # ps)) = chr CHR ''%'' # (if z then [chr CHR ''0''] else []) @ f # fmt"
      unfolding f(1) [symmetric] using Conv by (simp add: bytes_def)
    ultimately show ?thesis by simp
  qed
qed

theorem sprintf_renders_witness:
  "sprintf (\<lambda>_. bytes ''ab'') (concat (map unparse [Conv True 4 (chr CHR ''x''), Lit 65, Percent, Conv False 5 (chr CHR ''s'')])) [0xBE, 0]
     = Inr (bytes ''00BEA%   ab'')"
proof -
  have i: "itoa 0xBE 16 = bytes ''BE''"
    by (simp add: itoa_rev put_digits.simps digits_def bytes_def)
  have r: "replicate 2 c = [c, c]" "replicate 3 c = [c, c, c]" for c :: u8
    by (simp_all add: numeral_eq_Suc)
  have s: "shown (\<lambda>_. bytes ''ab'') (chr CHR ''x'') 0xBE = bytes ''BE''"
    "shown (\<lambda>_. bytes ''ab'') (chr CHR ''s'') 0 = bytes ''ab''"
    using i by (simp_all add: shown_def)
  have l: "length (bytes ''BE'') = 2" "length (bytes ''ab'') = 2" by (simp_all add: bytes_def)
  have out: "render (\<lambda>_. bytes ''ab'') [Conv True 4 (chr CHR ''x''), Lit 65, Percent, Conv False 5 (chr CHR ''s'')] [0xBE, 0]
      = Some (bytes ''00BEA%   ab'')"
    unfolding render.simps s l by (simp add: r) (simp add: bytes_def)
  show ?thesis by (rule sprintf_renders [OF _ out]) (simp add: kinds_def)
qed

end
