(* ===== verification/Driver.thy ===== *)
theory Driver
  imports Libc "HOL-Library.Multiset"
begin

text \<open>
  The registration of drivers \<^verbatim>\<open>core/driver.c\<close>: the table is put in the order of the levels, the
  drivers are initialised in this order, and can be looked up by name and version.

  A driver is known by its index. The doubly linked list of the sort is a HOL list; the walk
  from its tail goes over the reversed list.
\<close>

record driver_declaration =
  dr_name :: "u8 list"
  dr_major_ver :: u32
  dr_minor_ver :: u32
  dr_level :: int
  dr_init :: "nat option"
  dr_initialized :: bool

type_synonym drivers = "nat \<Rightarrow> driver_declaration"

text \<open>The walk ends at the head, which is not compared: what was not inserted by then goes before it.\<close>

fun walk_back :: "(nat \<Rightarrow> int) \<Rightarrow> nat \<Rightarrow> nat list \<Rightarrow> nat list" where
  "walk_back level this [] = [this]"
| "walk_back level this [h] = [h, this]"
| "walk_back level this (p # q # ps) =
     (if level p \<le> level this then this # p # q # ps else p # walk_back level this (q # ps))"

definition insert_driver :: "(nat \<Rightarrow> int) \<Rightarrow> nat list \<Rightarrow> nat \<Rightarrow> nat list" where
  "insert_driver level ds this =
     (if level (last ds) \<le> level this then ds @ [this] else rev (walk_back level this (rev ds)))"

abbreviation (input) DLIST_MAX :: nat where "DLIST_MAX \<equiv> 341"

fun resort :: "(nat \<Rightarrow> int) \<Rightarrow> nat list \<Rightarrow> nat list res" where
  "resort level [] = Inl NullDeref"
| "resort level (d # ds) =
     (if DLIST_MAX < length (d # ds) then Inl OutOfBounds else Inr (foldl (insert_driver level) [d] ds))"

fun init_drivers :: "(nat \<Rightarrow> 'env \<Rightarrow> 'env \<times> int) \<Rightarrow> nat list \<Rightarrow> 'env \<Rightarrow> drivers \<Rightarrow> 'env \<times> drivers" where
  "init_drivers run [] env t = (env, t)"
| "init_drivers run (i # is) env t =
     (if dr_level (t i) < 0 then init_drivers run is env t
      else (case dr_init (t i) of
              None \<Rightarrow> init_drivers run is env (t(i := (t i)\<lparr>dr_initialized := True\<rparr>))
            | Some f \<Rightarrow>
                (let (env, r) = run f env
                 in init_drivers run is env (t(i := (t i)\<lparr>dr_initialized := (r = 0)\<rparr>)))))"

definition core_init_driver :: "(nat \<Rightarrow> 'env \<Rightarrow> 'env \<times> int) \<Rightarrow> nat list \<Rightarrow> 'env \<Rightarrow> drivers \<Rightarrow>
    (nat list \<times> 'env \<times> drivers) res" where
  "core_init_driver run ds env t =
     (case resort (\<lambda>i. dr_level (t i)) ds of
        Inl e \<Rightarrow> Inl e
      | Inr ds \<Rightarrow> Inr (ds, init_drivers run ds env t))"

fun check_driver_exists :: "drivers \<Rightarrow> nat list \<Rightarrow> u8 list \<Rightarrow> u32 \<Rightarrow> u32 \<Rightarrow> int" where
  "check_driver_exists t [] name major minor = -1"
| "check_driver_exists t (i # is) name major minor =
     (if name = dr_name (t i)
      then (if major \<noteq> dr_major_ver (t i) \<or> minor \<noteq> dr_minor_ver (t i) then 1 else 0) OR
           (if \<not> dr_initialized (t i) then 2 else 0)
      else check_driver_exists t is name major minor)"

section \<open>Properties\<close>

lemma mset_walk_back: "mset (walk_back level this ps) = add_mset this (mset ps)"
  by (induction level this ps rule: walk_back.induct) auto

lemma mset_insert_driver: "mset (insert_driver level ds this) = add_mset this (mset ds)"
  by (simp add: insert_driver_def mset_walk_back)

lemma mset_resort_loop: "mset (foldl (insert_driver level) acc ds) = mset acc + mset ds"
  by (induction ds arbitrary: acc) (simp_all add: mset_insert_driver)

lemma resort_loop_sorted:
  "acc \<noteq> [] \<Longrightarrow> sorted (map level (acc @ ds)) \<Longrightarrow> foldl (insert_driver level) acc ds = acc @ ds"
proof (induction ds arbitrary: acc)
  case (Cons d ds)
  then have "level (last acc) \<le> level d" by (auto simp: sorted_append)
  then have "insert_driver level acc d = acc @ [d]" by (simp add: insert_driver_def)
  then show ?case using Cons.IH [of "acc @ [d]"] Cons.prems(2) by simp
qed simp

lemma init_drivers_rest: "i \<notin> set ds \<Longrightarrow> snd (init_drivers run ds env t) i = t i"
  by (induction run ds env t rule: init_drivers.induct) (auto split: option.splits prod.splits)

lemma init_drivers_unused:
  "distinct ds \<Longrightarrow> i \<in> set ds \<Longrightarrow> dr_level (t i) < 0 \<Longrightarrow> snd (init_drivers run ds env t) i = t i"
proof (induction ds arbitrary: env t)
  case (Cons j js)
  show ?case
  proof (cases "i = j")
    case True
    then show ?thesis using Cons.prems by (simp add: init_drivers_rest)
  next
    case False
    then show ?thesis using Cons by (auto split: option.splits prod.splits)
  qed
qed simp

lemma init_drivers_no_init:
  "distinct ds \<Longrightarrow> i \<in> set ds \<Longrightarrow> 0 \<le> dr_level (t i) \<Longrightarrow> dr_init (t i) = None \<Longrightarrow>
   dr_initialized (snd (init_drivers run ds env t) i)"
proof (induction ds arbitrary: env t)
  case (Cons j js)
  show ?case
  proof (cases "i = j")
    case True
    then show ?thesis using Cons.prems by (simp add: init_drivers_rest)
  next
    case False
    then show ?thesis using Cons by (auto split: option.splits prod.splits)
  qed
qed simp

text \<open>
  Initialisation keeps every driver in the list exactly once, leaves a list that is in the
  order of the levels as it is, marks drivers without an init function as initialised and skips
  those with a negative level. It does not sort in general: the insertion never looks at the
  head of the list, so of three drivers the last one comes first when its level lies between
  those of the first and the second.
\<close>

theorem driver_order:
  assumes "0 < length ds" "length ds \<le> DLIST_MAX" "distinct ds"
  shows "\<exists>ds' env' t'. core_init_driver run ds env t = Inr (ds', env', t') \<and> mset ds' = mset ds \<and>
    (sorted (map (\<lambda>i. dr_level (t i)) ds) \<longrightarrow> ds' = ds) \<and>
    (\<forall>i \<in> set ds. dr_level (t i) < 0 \<longrightarrow> t' i = t i) \<and>
    (\<forall>i \<in> set ds. 0 \<le> dr_level (t i) \<longrightarrow> dr_init (t i) = None \<longrightarrow> dr_initialized (t' i)) \<and>
    (\<forall>a b c. ds = [a, b, c] \<and> dr_level (t a) \<le> dr_level (t c) \<and> dr_level (t c) < dr_level (t b) \<longrightarrow>
       ds' = [c, a, b])"
proof -
  let ?lv = "\<lambda>i. dr_level (t i)"
  obtain d es where ds: "ds = d # es" using assms(1) by (cases ds) auto
  define ds' where "ds' = foldl (insert_driver ?lv) [d] es"
  obtain env' t' where i: "init_drivers run ds' env t = (env', t')" by (cases "init_drivers run ds' env t")
  have e: "core_init_driver run ds env t = Inr (ds', env', t')"
    using assms(2) i by (simp add: core_init_driver_def ds ds'_def)
  have m: "mset ds' = mset ds" using mset_resort_loop [of ?lv "[d]" es] by (simp add: ds ds'_def)
  then have st: "set ds' = set ds" "distinct ds'" using assms(3) mset_eq_setD mset_eq_imp_distinct_iff by blast+
  have s: "sorted (map ?lv ds) \<longrightarrow> ds' = ds" using resort_loop_sorted [of "[d]" ?lv es] by (simp add: ds ds'_def)
  have neg: "\<forall>i \<in> set ds. ?lv i < 0 \<longrightarrow> t' i = t i"
    using init_drivers_unused [of ds' _ t run env] st i by simp
  have non: "\<forall>i \<in> set ds. 0 \<le> ?lv i \<longrightarrow> dr_init (t i) = None \<longrightarrow> dr_initialized (t' i)"
    using init_drivers_no_init [of ds' _ t run env] st i by simp
  have "ds' = [c, a, b]" if "ds = [a, b, c] \<and> ?lv a \<le> ?lv c \<and> ?lv c < ?lv b" for a b c
    using that ds by (auto simp: ds'_def insert_driver_def)
  then show ?thesis using e m s neg non by blast
qed

theorem driver_order_witness:
  "\<exists>env' t'. core_init_driver (\<lambda>_ e. (e, 0)) [0, 1, 2] () (\<lambda>i. \<lparr>dr_name = [], dr_major_ver = 1, dr_minor_ver = 0,
      dr_level = [1, 3, 2] ! i, dr_init = None, dr_initialized = False\<rparr>) = Inr ([2, 0, 1], env', t')"
  using driver_order [of "[0, 1, 2]" "\<lambda>_ e. (e, 0)" "()" "\<lambda>i. \<lparr>dr_name = [], dr_major_ver = 1, dr_minor_ver = 0,
      dr_level = [1, 3, 2] ! i, dr_init = None, dr_initialized = False\<rparr>"]
  by auto

end
