(* ===== verification/Port_Io.thy ===== *)
theory Port_Io
  imports Res_Monad
begin

text \<open>
  The processor's port instructions, \<^verbatim>\<open>header/generic/asm.h\<close>, and the kernel services a driver
  waits on. What a device answers is not code of the repository: a driver model takes the
  operations of the machine as an argument, over whatever state \<open>'d\<close> the devices have.
\<close>

record 'd ports =
  inb :: "u16 \<Rightarrow> 'd \<Rightarrow> u8 \<times> 'd"
  outb :: "u16 \<Rightarrow> u8 \<Rightarrow> 'd \<Rightarrow> 'd"
  inl :: "u16 \<Rightarrow> 'd \<Rightarrow> u32 \<times> 'd"
  outl :: "u16 \<Rightarrow> u32 \<Rightarrow> 'd \<Rightarrow> 'd"
  insl :: "u16 \<Rightarrow> nat \<Rightarrow> 'd \<Rightarrow> u8 list \<times> 'd"
  outsl :: "u16 \<Rightarrow> u8 list \<Rightarrow> 'd \<Rightarrow> 'd"
  get_ticks_msg :: "'d \<Rightarrow> u32 \<times> 'd"
  recv_interrupt :: "'d \<Rightarrow> 'd option"

text \<open>
  \<open>insl\<close> stores as many double words as its second argument says, here as their bytes; \<open>outsl\<close>
  sends the bytes given. \<open>recv_interrupt\<close> is \<open>recv_msg\<close> from \<open>PROC_INTERRUPT\<close>: \<open>None\<close> when no
  interrupt comes.
\<close>

definition out_seq :: "('d, 'z) ports_scheme \<Rightarrow> (u16 \<times> u8) list \<Rightarrow> 'd \<Rightarrow> 'd" where
  "out_seq P ws d = fold (\<lambda>(port, v). outb P port v) ws d"

lemma out_seq_simps [simp]:
  "out_seq P [] d = d" "out_seq P ((port, v) # ws) d = out_seq P ws (outb P port v d)"
  by (simp_all add: out_seq_def)

end
