(* ===== verification/Hd.thy ===== *)
theory Hd
  imports Port_Io
begin

text \<open>
  The hard disk driver \<^verbatim>\<open>modules/hd/hd.c\<close> with the structures of \<^verbatim>\<open>header/modules/hd.h\<close>: commands to
  the ATA controller, transfers, and the partition tables. There is one drive, \<open>hd_info[0]\<close>; the
  message loop of the server is commented out in the code.

  A failed wait and a failed check only panic, which the build makes a no-operation.
\<close>

section \<open>Structures\<close>

record HD_Command =
  command :: u8
  features :: u8
  lba_low :: u8
  lba_mid :: u8
  lba_high :: u8
  counts :: u8
  device :: u8

definition HD_make_command :: "u32 \<Rightarrow> u8 \<Rightarrow> u8 \<Rightarrow> u8 \<Rightarrow> u8 \<Rightarrow> HD_Command" where
  "HD_make_command LBA feature drive count cmd =
     \<lparr>command = cmd, features = feature, lba_low = ucast (LBA AND 0xFF),
      lba_mid = ucast (drop_bit 8 LBA AND 0xFF), lba_high = ucast (drop_bit 16 LBA AND 0xFF),
      counts = count, device = ucast (drop_bit 24 LBA AND 0xF) OR 0xE0 OR push_bit 4 drive\<rparr>"

record HD_PartInfo =
  bootable :: u8
  fsid :: u8
  part_base :: u32
  part_size :: u32

abbreviation (input) PART_PER_DRIVE :: nat where "PART_PER_DRIVE \<equiv> 4"
abbreviation (input) SUB_PER_PART :: nat where "SUB_PER_PART \<equiv> 16"
abbreviation (input) SUB_PER_DRIVE :: nat where "SUB_PER_DRIVE \<equiv> 64"
abbreviation (input) PRIM_PER_DRIVE :: nat where "PRIM_PER_DRIVE \<equiv> 5"
abbreviation (input) SECTOR_SIZE :: u32 where "SECTOR_SIZE \<equiv> 512"
abbreviation (input) HD_PART_TYPE_NONE :: u8 where "HD_PART_TYPE_NONE \<equiv> 0"
abbreviation (input) HD_PART_TYPE_EXTEND :: u8 where "HD_PART_TYPE_EXTEND \<equiv> 5"

record HD_Info =
  open_cnt :: u32
  primary :: "HD_PartInfo list"
  logical :: "HD_PartInfo list"

record 'd hd =
  hd_status :: u8
  hd_buf :: "u8 list"
  hd_info :: HD_Info
  bus :: 'd

section \<open>Commands\<close>

abbreviation (input) HD_REG_DATA :: u16 where "HD_REG_DATA \<equiv> 0x1F0"
abbreviation (input) HD_REG_STATUS :: u16 where "HD_REG_STATUS \<equiv> 0x1F7"
abbreviation (input) HD_STATUS_BSY :: u8 where "HD_STATUS_BSY \<equiv> 0x80"
abbreviation (input) HD_STATUS_DRQ :: u8 where "HD_STATUS_DRQ \<equiv> 0x08"
abbreviation (input) HD_TIMEOUT :: u32 where "HD_TIMEOUT \<equiv> 10000"
abbreviation (input) ATA_IDENTIFY :: u8 where "ATA_IDENTIFY \<equiv> 0xEC"
abbreviation (input) ATA_READ :: u8 where "ATA_READ \<equiv> 0x20"
abbreviation (input) ATA_WRITE :: u8 where "ATA_WRITE \<equiv> 0x30"

partial_function (option) poll_hd :: "'d ports \<Rightarrow> u8 \<Rightarrow> u8 \<Rightarrow> u32 \<Rightarrow> u32 \<Rightarrow> 'd \<Rightarrow> (bool \<times> 'd) option" where
  "poll_hd P msk val timeout t d =
     (let (now, d) = get_ticks_msg P d
      in if (now - t) * 1000 div 10 < timeout
         then
           let (s, d) = inb P HD_REG_STATUS d
           in if s AND msk = val then Some (True, d) else poll_hd P msk val timeout t d
         else Some (False, d))"

definition wait_hd :: "'d ports \<Rightarrow> u8 \<Rightarrow> u8 \<Rightarrow> u32 \<Rightarrow> 'd \<Rightarrow> (bool \<times> 'd) option" where
  "wait_hd P msk val timeout d =
     (let (t, d) = get_ticks_msg P d in poll_hd P msk val timeout t d)"

definition HD_send_command :: "'d ports \<Rightarrow> HD_Command \<Rightarrow> 'd \<Rightarrow> 'd option" where
  "HD_send_command P cmd d =
     map_option (\<lambda>(_, d). out_seq P
       [(0x3F6, 0), (0x1F1, features cmd), (0x1F2, counts cmd), (0x1F3, lba_low cmd),
        (0x1F4, lba_mid cmd), (0x1F5, lba_high cmd), (0x1F6, device cmd), (0x1F7, command cmd)] d)
     (wait_hd P HD_STATUS_BSY 0 HD_TIMEOUT d)"

definition update_status :: "'d ports \<Rightarrow> 'd hd \<Rightarrow> 'd hd" where
  "update_status P s = (let (v, d) = inb P HD_REG_STATUS (bus s) in s\<lparr>hd_status := v, bus := d\<rparr>)"

section \<open>Transfers\<close>

definition buffer :: "u8 list \<Rightarrow> 'd hd \<Rightarrow> 'd hd" where
  "buffer bs s = s\<lparr>hd_buf := bs @ drop (length bs) (hd_buf s)\<rparr>"

text \<open>The two branches of the loop of \<open>hd_rw\<close>, run until no byte is left.\<close>

function read_sectors :: "'d ports \<Rightarrow> nat \<Rightarrow> 'd hd \<Rightarrow> (u8 list \<times> 'd hd) option" where
  "read_sectors P bytes_left s =
     (if bytes_left = 0 then Some ([], s)
      else
        let bytes = min 512 bytes_left
        in Option.bind (recv_interrupt P (bus s)) (\<lambda>d.
           let (sector, d) = insl P HD_REG_DATA 128 d
           in map_option (\<lambda>(rest, s). (take bytes sector @ rest, s))
                (read_sectors P (bytes_left - bytes) (buffer sector (s\<lparr>bus := d\<rparr>)))))"
  by auto
termination by (relation "measure (\<lambda>(_, n, _). n)") auto

declare read_sectors.simps [simp del]

function write_sectors :: "'d ports \<Rightarrow> u8 list \<Rightarrow> nat \<Rightarrow> 'd hd \<Rightarrow> 'd hd option" where
  "write_sectors P addr bytes_left s =
     (if bytes_left = 0 then Some s
      else
        let bytes = min 512 bytes_left
        in Option.bind (wait_hd P HD_STATUS_DRQ HD_STATUS_DRQ HD_TIMEOUT (bus s)) (\<lambda>(_, d).
           let s = (if bytes = 512 then s\<lparr>bus := outsl P HD_REG_DATA (take 512 addr) d\<rparr>
                    else
                      let s = buffer (take bytes addr) s
                      in s\<lparr>bus := outsl P HD_REG_DATA (take 512 (hd_buf s)) d\<rparr>)
           in Option.bind (recv_interrupt P (bus s)) (\<lambda>d.
              write_sectors P (drop bytes addr) (bytes_left - bytes) (s\<lparr>bus := d\<rparr>))))"
  by auto
termination by (relation "measure (\<lambda>(_, _, n, _). n)") auto

declare write_sectors.simps [simp del]

definition sectors_of :: "u32 \<Rightarrow> u32" where
  "sectors_of count = (count + SECTOR_SIZE - 1) div SECTOR_SIZE"

definition hd_start :: "'d ports \<Rightarrow> u8 \<Rightarrow> u32 \<Rightarrow> u32 \<Rightarrow> u32 \<Rightarrow> 'd hd \<Rightarrow> 'd hd option" where
  "hd_start P cmd drv lba count s =
     map_option (\<lambda>d. s\<lparr>bus := d\<rparr>)
       (HD_send_command P (HD_make_command lba 0 (ucast drv) (ucast (sectors_of count)) cmd) (bus s))"

definition hd_read :: "'d ports \<Rightarrow> u32 \<Rightarrow> u32 \<Rightarrow> u32 \<Rightarrow> 'd hd \<Rightarrow> (u8 list \<times> 'd hd) option" where
  "hd_read P drv lba count s =
     Option.bind (hd_start P ATA_READ drv lba count s) (read_sectors P (unat count))"

text \<open>Before a last sector is written in part, what it holds is fetched into the buffer.\<close>

definition hd_write :: "'d ports \<Rightarrow> u8 list \<Rightarrow> u32 \<Rightarrow> u32 \<Rightarrow> u32 \<Rightarrow> 'd hd \<Rightarrow> 'd hd option" where
  "hd_write P buf drv lba count s =
     Option.bind
       (if count mod 512 \<noteq> 0
        then map_option snd (hd_read P drv (lba + sectors_of count - 1) SECTOR_SIZE s)
        else Some s)
       (\<lambda>s. Option.bind (hd_start P ATA_WRITE drv lba count s) (write_sectors P buf (unat count)))"

text \<open>The bytes at \<open>buf\<close> after the call, for a read, and the count returned.\<close>

definition hd_rw :: "'d ports \<Rightarrow> u32 \<Rightarrow> u8 list \<Rightarrow> u32 \<Rightarrow> u32 \<Rightarrow> u32 \<Rightarrow> 'd hd \<Rightarrow> (u32 \<times> u8 list \<times> 'd hd) option" where
  "hd_rw P RW buf drv lba count s =
     (if RW \<noteq> 0 then map_option (\<lambda>s. (count, buf, s)) (hd_write P buf drv lba count s)
      else map_option (\<lambda>(bs, s). (count, bs, s)) (hd_read P drv lba count s))"

section \<open>Drives and partitions\<close>

definition word_of :: "u8 list \<Rightarrow> nat \<Rightarrow> u16" where
  "word_of bs i = ucast (bs ! i) OR push_bit 8 (ucast (bs ! (i + 1)))"

definition dword_of :: "u8 list \<Rightarrow> nat \<Rightarrow> u32" where
  "dword_of bs i = ucast (word_of bs i) OR push_bit 16 (ucast (word_of bs (i + 2)))"

definition hd_identify :: "'d ports \<Rightarrow> u32 \<Rightarrow> 'd hd \<Rightarrow> 'd hd res option" where
  "hd_identify P drv s =
     Option.bind (HD_send_command P (HD_make_command 0 0 (ucast drv) 0 ATA_IDENTIFY) (bus s)) (\<lambda>d.
     Option.bind (recv_interrupt P d) (\<lambda>d.
       let s = update_status P (s\<lparr>bus := d\<rparr>);
           (bs, d) = insl P HD_REG_DATA 128 (bus s);
           s = buffer bs (s\<lparr>bus := d\<rparr>);
           sectors = push_bit 16 (ucast (word_of (hd_buf s) 122)) + ucast (word_of (hd_buf s) 120)
       in Some (if drv = 0
                then Inr (s\<lparr>hd_info := (hd_info s)\<lparr>primary :=
                       (primary (hd_info s))[0 := (primary (hd_info s) ! 0)\<lparr>part_base := 0, part_size := sectors\<rparr>]\<rparr>\<rparr>)
                else Inl OutOfBounds)))"

definition part_entry :: "u8 list \<Rightarrow> nat \<Rightarrow> HD_PartInfo" where
  "part_entry sector i =
     (let at = 0x1BE + 16 * i
      in \<lparr>bootable = sector ! at, fsid = sector ! (at + 4), part_base = dword_of sector (at + 8),
          part_size = dword_of sector (at + 12)\<rparr>)"

definition part_table_read :: "'d ports \<Rightarrow> u32 \<Rightarrow> u32 \<Rightarrow> 'd hd \<Rightarrow> (HD_PartInfo list \<times> 'd hd) option" where
  "part_table_read P drv sect s =
     map_option (\<lambda>(bs, s). (map (part_entry bs) [0..<PART_PER_DRIVE], s)) (hd_read P drv sect SECTOR_SIZE s)"

definition upd_info :: "(HD_Info \<Rightarrow> HD_Info) \<Rightarrow> 'd hd \<Rightarrow> 'd hd" where
  "upd_info f s = s\<lparr>hd_info := f (hd_info s)\<rparr>"

text \<open>The chain of extended boot records, from the one in \<open>sect\<close>; \<open>left\<close> of the 16 entries remain.\<close>

fun read_logical :: "'d ports \<Rightarrow> u32 \<Rightarrow> u32 \<Rightarrow> nat \<Rightarrow> nat \<Rightarrow> u32 \<Rightarrow> 'd hd \<Rightarrow> 'd hd option" where
  "read_logical P drv ext_base slot 0 sect s = Some s"
| "read_logical P drv ext_base slot (Suc left) sect s =
     Option.bind (part_table_read P drv sect s) (\<lambda>(part_table, s).
       let e = part_table ! 0;
           s = upd_info (\<lambda>i. i\<lparr>logical := (logical i)[slot := e\<lparr>part_base := sect + part_base e\<rparr>]\<rparr>) s;
           n = part_table ! 1
       in if fsid n = HD_PART_TYPE_NONE then Some s
          else read_logical P drv ext_base (slot + 1) left (ext_base + part_base n) s)"

fun read_primary :: "'d ports \<Rightarrow> u32 \<Rightarrow> HD_PartInfo list \<Rightarrow> nat list \<Rightarrow> 'd hd \<Rightarrow> 'd hd option" where
  "read_primary P drv part_table [] s = Some s"
| "read_primary P drv part_table (i # is) s =
     (let e = part_table ! i
      in if fsid e = HD_PART_TYPE_NONE then read_primary P drv part_table is s
         else
           let s = upd_info (\<lambda>inf. inf\<lparr>primary := (primary inf)[i + 1 := e]\<rparr>) s
           in Option.bind
                (if fsid e = HD_PART_TYPE_EXTEND
                 then read_logical P drv (part_base (primary (hd_info s) ! (i + 1))) (i * SUB_PER_PART) SUB_PER_PART
                        (part_base (primary (hd_info s) ! (i + 1))) s
                 else Some s)
                (read_primary P drv part_table is))"

definition init_partitions :: "'d ports \<Rightarrow> u32 \<Rightarrow> 'd hd \<Rightarrow> 'd hd option" where
  "init_partitions P drv s =
     Option.bind (part_table_read P drv 0 s) (\<lambda>(part_table, s).
       read_primary P drv part_table [0..<PART_PER_DRIVE] s)"

definition no_part :: HD_PartInfo where
  "no_part = \<lparr>bootable = 0, fsid = 0, part_base = 0, part_size = 0\<rparr>"

definition init_hd :: "'d hd \<Rightarrow> 'd hd" where
  "init_hd s = s\<lparr>hd_info := \<lparr>open_cnt = 0, primary = replicate PRIM_PER_DRIVE no_part,
     logical = replicate SUB_PER_DRIVE no_part\<rparr>\<rparr>"

definition hd_open :: "'d ports \<Rightarrow> u32 \<Rightarrow> 'd hd \<Rightarrow> 'd hd res option" where
  "hd_open P drv s =
     Option.bind (hd_identify P drv s) (\<lambda>r. case r of
       Inl e \<Rightarrow> Some (Inl e)
     | Inr s \<Rightarrow>
         let first = (open_cnt (hd_info s) = 0);
             s = upd_info (\<lambda>i. i\<lparr>open_cnt := open_cnt i + 1\<rparr>) s
         in if first then map_option Inr (init_partitions P drv s) else Some (Inr s))"

definition hd_close :: "u32 \<Rightarrow> 'd hd \<Rightarrow> 'd hd res" where
  "hd_close drv s =
     (if drv = 0 then Inr (upd_info (\<lambda>i. i\<lparr>open_cnt := open_cnt i - 1\<rparr>) s) else Inl OutOfBounds)"

text \<open>The partition a drive number names. The first comparison lets one number too many through.\<close>

definition part_of :: "HD_Info \<Rightarrow> nat \<Rightarrow> HD_PartInfo res" where
  "part_of info drv_no =
     (if drv_no \<le> PRIM_PER_DRIVE
      then if drv_no < length (primary info) then Inr (primary info ! drv_no) else Inl OutOfBounds
      else if PRIM_PER_DRIVE \<le> drv_no \<and> drv_no \<le> SUB_PER_DRIVE
      then if drv_no - PRIM_PER_DRIVE < length (logical info) then Inr (logical info ! (drv_no - PRIM_PER_DRIVE))
           else Inl OutOfBounds
      else Inl Uninitialised)"

definition hd_rw_drv :: "'d ports \<Rightarrow> u32 \<Rightarrow> u8 list \<Rightarrow> u32 \<Rightarrow> u32 \<Rightarrow> u32 \<Rightarrow> 'd hd \<Rightarrow>
    (u32 \<times> u8 list \<times> 'd hd) res option" where
  "hd_rw_drv P RW buf drv lba count s =
     (let dev = drop_bit 8 drv AND 0xFF;
          drv_no = unat (drv AND 0xFF)
      in if dev \<noteq> 0 then Some (Inl OutOfBounds)
         else
           case part_of (hd_info s) drv_no of
             Inl e \<Rightarrow> Some (Inl e)
           | Inr p \<Rightarrow> map_option Inr (hd_rw P RW buf dev (part_base p + lba) count s))"

text \<open>The start of the server: the second drive is looked for in an array of one.\<close>

definition Task_HD :: "'d ports \<Rightarrow> 'd hd \<Rightarrow> 'd hd res option" where
  "Task_HD P s =
     Option.bind (hd_identify P 0 (init_hd s)) (\<lambda>r. case r of
       Inl e \<Rightarrow> Some (Inl e)
     | Inr s \<Rightarrow> hd_identify P 1 s)"

end
