(* ===== verification/Fs.thy ===== *)
theory Fs
  imports Hd
begin

text \<open>
  The file system server \<^verbatim>\<open>modules/fs/fs.c\<close>: a FAT32 volume, read only. It reads the disk by
  messages to the hard disk driver; here that is an argument \<open>rd\<close>, which gives the bytes that a
  request for so many bytes from a sector of a drive puts into the buffer. What the driver answers
  besides is ignored by the code.

  The buffer \<open>hd_buf_1\<close> is filled before each use, so what it held is no part of the state. Strings
  are the bytes before their terminator.
\<close>

type_synonym reader = "u16 \<Rightarrow> u32 \<Rightarrow> nat \<Rightarrow> u8 list"

section \<open>Structures\<close>

record FAT32_BS =
  bs_OEMName :: "u8 list"
  bs_BytesPerSec :: u16
  bs_SecPerClus :: u8
  bs_RsvdSecCnt :: u16
  bs_NumFATs :: u8
  bs_HiddSec :: u32
  bs_TotSec32 :: u32
  bs_FATSz32 :: u32
  bs_ExtFlags :: u16
  bs_RootClus :: u32
  bs_FSInfo :: u16
  bs_BkBootSec :: u16
  bs_BootSig :: u8
  bs_VolID :: u32
  bs_VolLab :: "u8 list"
  bs_FileSysType :: "u8 list"

text \<open>The packed structure at its offsets; the fields the server never reads are left out.\<close>

definition slice :: "nat \<Rightarrow> nat \<Rightarrow> u8 list \<Rightarrow> u8 list" where
  "slice i n bs = take n (drop i bs)"

definition boot_sector :: "u8 list \<Rightarrow> FAT32_BS" where
  "boot_sector bs =
     \<lparr>bs_OEMName = slice 3 8 bs, bs_BytesPerSec = word_of bs 11, bs_SecPerClus = bs ! 13,
      bs_RsvdSecCnt = word_of bs 14, bs_NumFATs = bs ! 16, bs_HiddSec = dword_of bs 28,
      bs_TotSec32 = dword_of bs 32, bs_FATSz32 = dword_of bs 36, bs_ExtFlags = word_of bs 40,
      bs_RootClus = dword_of bs 44, bs_FSInfo = word_of bs 48, bs_BkBootSec = word_of bs 50,
      bs_BootSig = bs ! 66, bs_VolID = dword_of bs 67, bs_VolLab = slice 71 11 bs,
      bs_FileSysType = slice 82 8 bs\<rparr>"

record FAT32_DirEnt =
  de_Name :: "u8 list"
  de_Attr :: u8
  de_FstClusHI :: u16
  de_FstClusLO :: u16
  de_FileSize :: u32

definition dir_ent :: "u8 list \<Rightarrow> nat \<Rightarrow> FAT32_DirEnt" where
  "dir_ent bs at =
     \<lparr>de_Name = slice at 11 bs, de_Attr = bs ! (at + 11), de_FstClusHI = word_of bs (at + 20),
      de_FstClusLO = word_of bs (at + 26), de_FileSize = dword_of bs (at + 28)\<rparr>"

definition first_clus :: "FAT32_DirEnt \<Rightarrow> u32" where
  "first_clus e = push_bit 16 (ucast (de_FstClusHI e)) OR ucast (de_FstClusLO e)"

record FAT32_FileSystem =
  OEMName :: "u8 list"
  BytesPerSec :: u32
  SecPerClus :: u32
  FATstartSct :: u32
  NumFATs :: u8
  HiddenSector :: u32
  TotalSector :: u32
  FATSize :: u32
  ExtFlags :: u16
  RootClus :: u32
  FSInfo :: u16
  BackupBootSector :: u16
  Signature :: u8
  VolumeID :: u32
  VolumeLabel :: "u8 list"
  FileSystemType :: "u8 list"
  FirstDataClus :: u32
  fs_drv :: u16
  FreeClusCount :: u32
  NextFreeClusCount :: u32

record fs_file_info =
  filename :: "u8 list"
  filesize :: u32
  clus :: u32

abbreviation (input) ATTR_DIR :: u8 where "ATTR_DIR \<equiv> 0x10"
abbreviation (input) FS_ATTR_LONGNAME :: u8 where "FS_ATTR_LONGNAME \<equiv> 0xF"

definition CLUS2SECTOR :: "FAT32_FileSystem \<Rightarrow> u32 \<Rightarrow> u32" where
  "CLUS2SECTOR fs n = FirstDataClus fs + (n - RootClus fs) * SecPerClus fs"

section \<open>The volume\<close>

text \<open>
  The driver is asked for the partition first; \<open>info\<close> gives its answer to that, and \<open>None\<close> stands for
  a server that waits for an answer which does not come. The type of the partition and the assertions
  on the sector only panic.
\<close>

definition ReadBootSector :: "(u16 \<Rightarrow> HD_PartInfo option) \<Rightarrow> reader \<Rightarrow> u16 \<Rightarrow> FAT32_FileSystem option" where
  "ReadBootSector info rd drv =
     map_option (\<lambda>part_info.
       let b = boot_sector (rd drv 0 512)
       in \<lparr>OEMName = bs_OEMName b @ [0], BytesPerSec = ucast (bs_BytesPerSec b), SecPerClus = ucast (bs_SecPerClus b),
           FATstartSct = ucast (bs_RsvdSecCnt b), NumFATs = bs_NumFATs b, HiddenSector = bs_HiddSec b,
           TotalSector = bs_TotSec32 b, FATSize = bs_FATSz32 b, ExtFlags = bs_ExtFlags b, RootClus = bs_RootClus b,
           FSInfo = bs_FSInfo b, BackupBootSector = bs_BkBootSec b, Signature = bs_BootSig b, VolumeID = bs_VolID b,
           VolumeLabel = bs_VolLab b @ [0], FileSystemType = bs_FileSysType b @ [0],
           FirstDataClus = ucast (bs_RsvdSecCnt b) + bs_FATSz32 b * ucast (bs_NumFATs b), fs_drv = drv,
           FreeClusCount = 0, NextFreeClusCount = 0\<rparr>)
       (info drv)"

definition get_next_clus_in_FAT :: "reader \<Rightarrow> FAT32_FileSystem \<Rightarrow> u32 \<Rightarrow> u32" where
  "get_next_clus_in_FAT rd fs n =
     (let sector = n div 128
      in dword_of (rd (fs_drv fs) (FATstartSct fs + sector) 512) (4 * unat (n - 128 * sector)) AND 0x0FFFFFFF)"

definition ReadFSInfo :: "reader \<Rightarrow> FAT32_FileSystem \<Rightarrow> FAT32_FileSystem" where
  "ReadFSInfo rd fs =
     (let bs = rd (fs_drv fs) (ucast (FSInfo fs)) 512
      in fs\<lparr>FreeClusCount := dword_of bs 488, NextFreeClusCount := dword_of bs 492\<rparr>)"

section \<open>Names\<close>

text \<open>
  \<open>src\<close> is the array the pointer runs over, which need not hold a terminator. The result is what is
  copied to the start of \<open>dst\<close>.
\<close>

definition TrimWhiteSpace :: "u8 list \<Rightarrow> u8 list res" where
  "TrimWhiteSpace src =
     (let str = dropWhile (\<lambda>c. c = 0x20) src
      in if str = [] then Inl OutOfBounds
         else if List.hd str = 0 then Inr []
         else if 0 \<notin> set str then Inl OutOfBounds
         else
           let str = takeWhile (\<lambda>c. c \<noteq> 0) str
           in Inr (rev (dropWhile (\<lambda>c. c = 0x20) (rev str))))"

fun checksum_loop :: "nat \<Rightarrow> u8 list \<Rightarrow> u8 \<Rightarrow> u8" where
  "checksum_loop 0 fname checksum = checksum"
| "checksum_loop (Suc n) fname checksum =
     (let highbit = push_bit 7 (checksum AND 1);
          c = (drop_bit 1 checksum AND 0x7F) OR highbit
      in checksum_loop n (tl fname) (c + List.hd fname))"

definition checksum_fname :: "u8 list \<Rightarrow> u8" where
  "checksum_fname fname = checksum_loop 11 fname 0"

definition char_upper :: "u8 \<Rightarrow> u8" where
  "char_upper c = c - (if 0x61 \<le> c \<and> c \<le> 0x7A then 32 else 0)"

definition put_at :: "nat \<Rightarrow> u8 list \<Rightarrow> u8 list \<Rightarrow> u8 list" where
  "put_at i bs buf = take i buf @ bs @ drop (i + length bs) buf"

definition cstr :: "u8 list \<Rightarrow> u8 list" where
  "cstr buf = takeWhile (\<lambda>c. c \<noteq> 0) buf"

definition read_8_3_filename :: "u8 list \<Rightarrow> u8 list \<Rightarrow> u8 list res" where
  "read_8_3_filename fname buf =
     (let ext = take 3 (drop 8 fname); name = take 8 fname; buf = put_at 0 (replicate 12 0) buf
      in case TrimWhiteSpace name of
           Inl e \<Rightarrow> Inl e
         | Inr s \<Rightarrow>
             let buf = put_at 0 s buf
             in if List.hd ext = 0x20 then Inr buf
                else
                  let buf = put_at (length (cstr buf)) [0x2E] buf
                  in Inr (put_at (length (cstr buf)) ext buf))"

fun last_dot :: "u8 list \<Rightarrow> nat \<Rightarrow> nat option" where
  "last_dot fname 0 = None"
| "last_dot fname (Suc i) = (if fname ! i = 0x2E then Some i else last_dot fname i)"

definition write_8_3_filename :: "u8 list \<Rightarrow> u8 list" where
  "write_8_3_filename fname =
     (let buf = replicate 11 0x20;
          namelen = length fname;
          dot = last_dot fname namelen;
          ext = (case dot of
              Some d \<Rightarrow> map (\<lambda>i. if namelen \<le> d + 1 + i then 0x20 else char_upper (fname ! (d + 1 + i))) [0..<3]
            | None \<Rightarrow> replicate 3 0x20);
          buf = put_at 8 ext buf;
          firstpart_len = (case dot of Some d \<Rightarrow> d | None \<Rightarrow> namelen)
      in if 8 < firstpart_len
         then put_at 6 [0x7E, 0x31] (put_at 0 (map (\<lambda>i. char_upper (fname ! i)) [0..<6]) buf)
         else put_at 0 (map (\<lambda>i. char_upper (fname ! i)) [0..<firstpart_len]) buf)"

section \<open>Looking up a file\<close>

definition read_a_clus :: "reader \<Rightarrow> FAT32_FileSystem \<Rightarrow> u32 \<Rightarrow> u8 list" where
  "read_a_clus rd fs n = rd (fs_drv fs) (CLUS2SECTOR fs n) (unat (BytesPerSec fs * SecPerClus fs))"

text \<open>The entries of a sector up to the first free one, and whether one of them is the name sought.\<close>

definition sector_ents :: "u8 list \<Rightarrow> FAT32_DirEnt list" where
  "sector_ents bs = takeWhile (\<lambda>e. List.hd (de_Name e) \<noteq> 0) (map (\<lambda>k. dir_ent bs (32 * k)) [0..<16])"

definition ent_matches :: "u8 list \<Rightarrow> FAT32_DirEnt \<Rightarrow> bool" where
  "ent_matches name_83 e \<longleftrightarrow> List.hd (de_Name e) \<notin> {0xE5, 0x05, 0x2E} \<and> de_Attr e \<noteq> FS_ATTR_LONGNAME \<and>
     cstr name_83 = cstr (de_Name e)"

text \<open>The first entry of that name in the sectors of a cluster.\<close>

fun find_in_clus :: "reader \<Rightarrow> FAT32_FileSystem \<Rightarrow> u32 \<Rightarrow> u8 list \<Rightarrow> u32 list \<Rightarrow> FAT32_DirEnt option" where
  "find_in_clus rd fs dir_clus name_83 [] = None"
| "find_in_clus rd fs dir_clus name_83 (i # is) =
     (case find (ent_matches name_83) (sector_ents (rd (fs_drv fs) (CLUS2SECTOR fs dir_clus + i) 512)) of
        Some e \<Rightarrow> Some e
      | None \<Rightarrow> find_in_clus rd fs dir_clus name_83 is)"

definition sectors_of_clus :: "FAT32_FileSystem \<Rightarrow> u32 list" where
  "sectors_of_clus fs = map of_nat [0..<unat (SecPerClus fs)]"

text \<open>
  How far the first component of a path reaches, from its second byte: to the next slash, to the end
  of the string, or to the twelfth byte, whichever is first.
\<close>

function component_end :: "u8 list \<Rightarrow> nat \<Rightarrow> nat \<times> bool" where
  "component_end fn p =
     (if 12 \<le> p then (p, False)
      else if length fn \<le> p then (p, True)
      else if fn ! p = 0x2F then (p, False)
      else component_end fn (p + 1))"
  by auto
termination by (relation "measure (\<lambda>(fn, p). 12 - p)") auto

declare component_end.simps [simp del]

definition is_eoc :: "u32 \<Rightarrow> bool" where
  "is_eoc n \<longleftrightarrow> 0xFFFFFF8 \<le> n \<and> n \<le> 0xFFFFFFF"

text \<open>
  The loop over the clusters of the directory and the descent into another one are both the function
  applied again: what the loop keeps of the path is computed anew from the same path.
\<close>

partial_function (option) get_file_info ::
  "reader \<Rightarrow> FAT32_FileSystem \<Rightarrow> u32 \<Rightarrow> u8 list \<Rightarrow> fs_file_info \<Rightarrow> (u32 \<times> fs_file_info) res option" where
  "get_file_info rd fs dir_clus fn fileinfo =
     (if fn = [] then Some (Inl OutOfBounds)
      else if last fn = 0x2F then Some (Inr (2, fileinfo))
      else
        let (p, is_file) = component_end fn 1;
            name = take (p - 1) (drop 1 fn);
            name_83 = write_8_3_filename name
        in case find_in_clus rd fs dir_clus name_83 (sectors_of_clus fs) of
             Some e \<Rightarrow>
               if de_Attr e AND ATTR_DIR \<noteq> 0 \<and> \<not> is_file
               then get_file_info rd fs (first_clus e) (drop p fn) fileinfo
               else if de_Attr e AND ATTR_DIR \<noteq> 0 \<or> \<not> is_file then Some (Inr (3, fileinfo))
               else Some (Inr (0, fileinfo\<lparr>filename := put_at 0 name (filename fileinfo),
                                          filesize := de_FileSize e, clus := first_clus e\<rparr>))
           | None \<Rightarrow>
               let dir_clus = get_next_clus_in_FAT rd fs dir_clus
               in if is_eoc dir_clus then Some (Inr (1, fileinfo))
                  else get_file_info rd fs dir_clus fn fileinfo)"

section \<open>Reading a file\<close>

text \<open>The cluster of an offset: the loop does not end where its counter wraps around.\<close>

partial_function (option) seek_clus :: "reader \<Rightarrow> FAT32_FileSystem \<Rightarrow> u32 \<Rightarrow> u32 \<Rightarrow> u32 \<Rightarrow> u32 \<Rightarrow> u32 option" where
  "seek_clus rd fs BytesPerClus offset p n =
     (if p \<le> offset
      then seek_clus rd fs BytesPerClus offset (p + BytesPerClus) (get_next_clus_in_FAT rd fs n)
      else Some n)"

text \<open>The sectors after the first, and the rest. The bytes are those stored at \<open>buf\<close>.\<close>

function read_on :: "reader \<Rightarrow> FAT32_FileSystem \<Rightarrow> u32 \<Rightarrow> u32 \<Rightarrow> u32 \<Rightarrow> u32 \<Rightarrow> u8 list" where
  "read_on rd fs BytesPerClus n p_clus r_size =
     (if 512 < r_size
      then
        let bs = rd (fs_drv fs) (CLUS2SECTOR fs n + p_clus div 512) 512;
            r_size = r_size - 512;
            p_clus = p_clus + 512
        in if BytesPerClus \<le> p_clus
           then bs @ read_on rd fs BytesPerClus (get_next_clus_in_FAT rd fs n) 0 r_size
           else bs @ read_on rd fs BytesPerClus n p_clus r_size
      else if r_size \<noteq> 0 then rd (fs_drv fs) (CLUS2SECTOR fs n + p_clus div 512) (unat r_size)
      else [])"
  by auto
termination
  by (relation "measure (\<lambda>(_, _, _, _, _, r). unat r)") (auto simp: unat_sub word_less_nat_alt word_le_nat_alt)

declare read_on.simps [simp del]

text \<open>
  On a volume of no sectors per cluster the first loop does not end, so that the division by their size
  is never reached.
\<close>

definition read_file :: "reader \<Rightarrow> FAT32_FileSystem \<Rightarrow> fs_file_info \<Rightarrow> u32 \<Rightarrow> u32 \<Rightarrow> (u32 \<times> u8 list) option" where
  "read_file rd fs fileinfo offset size0 =
     (let size = (if filesize fileinfo < offset + size0 then filesize fileinfo - offset else size0);
          BytesPerClus = 512 * SecPerClus fs
      in map_option (\<lambda>n.
           let p_clus = offset mod BytesPerClus;
               s = (if p_clus mod 512 \<noteq> 0 then min (512 - p_clus mod 512) size else 0);
               head_bytes = (if p_clus mod 512 \<noteq> 0
                 then slice (unat (p_clus mod 512)) (unat s) (rd (fs_drv fs) (CLUS2SECTOR fs n) 512) else []);
               p_clus = p_clus + s;
               r_size = size - s
           in if r_size = 0 then (size, head_bytes)
              else if p_clus = BytesPerClus
              then (size, head_bytes @ read_on rd fs BytesPerClus (get_next_clus_in_FAT rd fs n) 0 r_size)
              else (size, head_bytes @ read_on rd fs BytesPerClus n p_clus r_size))
         (seek_clus rd fs BytesPerClus offset BytesPerClus (clus fileinfo)))"

section \<open>The server\<close>

datatype fs_request =
    FS_READ_FILE fs_file_info u32 u32
  | FS_GET_FILE_INFO "u8 list" fs_file_info
  | Other_request

datatype fs_reply = Read_bytes u32 "u8 list" | File_info u32 fs_file_info | No_reply

text \<open>
  One turn of the server, on the values its pointers lead to once \<open>proc_vir2phy\<close> has translated them.
\<close>

definition fs_turn :: "reader \<Rightarrow> FAT32_FileSystem \<Rightarrow> fs_request \<Rightarrow> fs_reply res option" where
  "fs_turn rd fs req =
     (case req of
        FS_READ_FILE fileinfo offset buf_size \<Rightarrow>
          map_option (\<lambda>(n, bs). Inr (Read_bytes n bs)) (read_file rd fs fileinfo offset buf_size)
      | FS_GET_FILE_INFO fn fileinfo \<Rightarrow>
          map_option (map_sum id (\<lambda>(n, fi). File_info n fi)) (get_file_info rd fs (RootClus fs) fn fileinfo)
      | Other_request \<Rightarrow> Some (Inr No_reply))"

definition MAKE_DRV :: "u32 \<Rightarrow> u32 \<Rightarrow> u16" where
  "MAKE_DRV dev part = ucast (push_bit 8 dev OR (part AND 0xFF))"

text \<open>
  The start of the server: drive 0 is opened, and the volume of its first partition read. The answers of
  the driver to the requests to open and for the partition are arguments, \<open>None\<close> where it gives none: the
  server then never comes to its loop. That is so in this build, in which \<^verbatim>\<open>Task_HD\<close> receives no message.
\<close>

definition fs_start :: "(u32 \<Rightarrow> u32 option) \<Rightarrow> (u16 \<Rightarrow> HD_PartInfo option) \<Rightarrow> reader \<Rightarrow> FAT32_FileSystem option" where
  "fs_start dev_open info rd =
     Option.bind (dev_open 0) (\<lambda>_. map_option (ReadFSInfo rd) (ReadBootSector info rd (MAKE_DRV 0 1)))"

end
