(* ===== verification/Hd_Props.thy ===== *)
theory Hd_Props
  imports Hd
begin

text \<open>
  Transfers to and from the disk. What the driver relies on is the documented behaviour of an ATA
  drive in its 28-bit programmed mode, stated over a view of the device: its sectors, and whether
  it is idle or in the middle of a transfer.
\<close>

section \<open>The drive\<close>

record 'd ata =
  media :: "'d \<Rightarrow> nat \<Rightarrow> u8 list"
  idle :: "'d \<Rightarrow> bool"
  reading :: "'d \<Rightarrow> nat \<Rightarrow> nat \<Rightarrow> bool"
  writing :: "'d \<Rightarrow> nat \<Rightarrow> nat \<Rightarrow> bool"

text \<open>The registers of a command: 28 bits of address, and a count of which 0 means 256.\<close>

definition lba_of :: "u8 \<Rightarrow> u8 \<Rightarrow> u8 \<Rightarrow> u8 \<Rightarrow> nat" where
  "lba_of low mid high dev = unat low + 256 * unat mid + 65536 * unat high + 2 ^ 24 * unat (dev AND 0xF)"

definition sector_count :: "u8 \<Rightarrow> nat" where
  "sector_count c = (if c = 0 then 256 else unat c)"

definition issue :: "'d ports \<Rightarrow> HD_Command \<Rightarrow> 'd \<Rightarrow> 'd" where
  "issue P cmd = out_seq P
     [(0x3F6, 0), (0x1F1, features cmd), (0x1F2, counts cmd), (0x1F3, lba_low cmd),
      (0x1F4, lba_mid cmd), (0x1F5, lba_high cmd), (0x1F6, device cmd), (0x1F7, command cmd)]"

definition clock_ok :: "'d ports \<Rightarrow> 'd ata \<Rightarrow> bool" where
  "clock_ok P A \<longleftrightarrow> (\<forall>d.
     let (t, d1) = get_ticks_msg P d; (t', d2) = get_ticks_msg P d1
     in (t' - t) * 1000 div 10 < HD_TIMEOUT \<and>
        media A d1 = media A d \<and> (idle A d \<longrightarrow> idle A d1) \<and>
        (\<forall>l n. writing A d l n \<longrightarrow> writing A d1 l n))"

definition status_ok :: "'d ports \<Rightarrow> 'd ata \<Rightarrow> bool" where
  "status_ok P A \<longleftrightarrow> (\<forall>d.
     let (s, d1) = inb P HD_REG_STATUS d
     in media A d1 = media A d \<and> (idle A d \<longrightarrow> s AND HD_STATUS_BSY = 0 \<and> idle A d1) \<and>
        (\<forall>l n. writing A d l n \<and> 0 < n \<longrightarrow> s AND HD_STATUS_DRQ = HD_STATUS_DRQ \<and> writing A d1 l n))"

definition commands_ok :: "'d ports \<Rightarrow> 'd ata \<Rightarrow> bool" where
  "commands_ok P A \<longleftrightarrow> (\<forall>d cmd. idle A d \<longrightarrow> device cmd AND 0xF0 = 0xE0 \<longrightarrow>
     (let l = lba_of (lba_low cmd) (lba_mid cmd) (lba_high cmd) (device cmd); n = sector_count (counts cmd)
      in media A (issue P cmd d) = media A d \<and>
         (command cmd = ATA_READ \<longrightarrow> reading A (issue P cmd d) l n) \<and>
         (command cmd = ATA_WRITE \<longrightarrow> writing A (issue P cmd d) l n)))"

definition transfers_ok :: "'d ports \<Rightarrow> 'd ata \<Rightarrow> bool" where
  "transfers_ok P A \<longleftrightarrow>
     (\<forall>d l n. reading A d l (Suc n) \<longrightarrow> (\<exists>d1 d2. recv_interrupt P d = Some d1 \<and>
        insl P HD_REG_DATA 128 d1 = (media A d l, d2) \<and> media A d2 = media A d \<and>
        (if n = 0 then idle A d2 else reading A d2 (Suc l) n))) \<and>
     (\<forall>d l n bs. writing A d l (Suc n) \<longrightarrow> length bs = 512 \<longrightarrow>
        (\<exists>d1. recv_interrupt P (outsl P HD_REG_DATA bs d) = Some d1 \<and> media A d1 = (media A d)(l := bs) \<and>
        (if n = 0 then idle A d1 else writing A d1 (Suc l) n)))"

definition ata_drive :: "'d ports \<Rightarrow> 'd ata \<Rightarrow> bool" where
  "ata_drive P A \<longleftrightarrow> (\<forall>d l. length (media A d l) = 512) \<and> clock_ok P A \<and> status_ok P A \<and>
     commands_ok P A \<and> transfers_ok P A"

section \<open>Waiting and commands\<close>

lemma wait_idle:
  assumes "ata_drive P A" "idle A d"
  obtains b d' where "wait_hd P HD_STATUS_BSY 0 HD_TIMEOUT d = Some (b, d')" "idle A d'" "media A d' = media A d"
proof -
  obtain t d1 where t: "get_ticks_msg P d = (t, d1)" by fastforce
  obtain t' d2 where t': "get_ticks_msg P d1 = (t', d2)" by fastforce
  obtain s d3 where s: "inb P HD_REG_STATUS d2 = (s, d3)" by fastforce
  have c: "clock_ok P A" "status_ok P A" using assms(1) by (simp_all add: ata_drive_def)
  have "(t' - t) * 1000 div 10 < HD_TIMEOUT" "media A d1 = media A d" "idle A d1"
    using c(1) assms(2) t t' unfolding clock_ok_def by (fastforce simp: Let_def)+
  moreover obtain t'' d2' where "get_ticks_msg P d2 = (t'', d2')" by fastforce
  then have "media A d2 = media A d1" "idle A d2"
    using c(1) t' \<open>idle A d1\<close> unfolding clock_ok_def by (fastforce simp: Let_def)+
  moreover from this have "s AND HD_STATUS_BSY = 0" "idle A d3" "media A d3 = media A d2"
    using c(2) s unfolding status_ok_def by (fastforce simp: Let_def)+
  ultimately show ?thesis using that [of True d3] t t' s
    by (simp add: wait_hd_def poll_hd.simps [of P _ _ _ t d1])
qed

lemma wait_drq:
  assumes "ata_drive P A" "writing A d l (Suc n)"
  obtains b d' where "wait_hd P HD_STATUS_DRQ HD_STATUS_DRQ HD_TIMEOUT d = Some (b, d')" "writing A d' l (Suc n)"
    "media A d' = media A d"
proof -
  obtain t d1 where t: "get_ticks_msg P d = (t, d1)" by fastforce
  obtain t' d2 where t': "get_ticks_msg P d1 = (t', d2)" by fastforce
  obtain s d3 where s: "inb P HD_REG_STATUS d2 = (s, d3)" by fastforce
  have c: "clock_ok P A" "status_ok P A" using assms(1) by (simp_all add: ata_drive_def)
  have "(t' - t) * 1000 div 10 < HD_TIMEOUT" "media A d1 = media A d" "writing A d1 l (Suc n)"
    using c(1) assms(2) t t' unfolding clock_ok_def by (fastforce simp: Let_def)+
  moreover obtain t'' d2' where "get_ticks_msg P d2 = (t'', d2')" by fastforce
  then have "media A d2 = media A d1" "writing A d2 l (Suc n)"
    using c(1) t' \<open>writing A d1 l (Suc n)\<close> unfolding clock_ok_def by (fastforce simp: Let_def)+
  moreover from this have "s AND HD_STATUS_DRQ = HD_STATUS_DRQ" "writing A d3 l (Suc n)" "media A d3 = media A d2"
    using c(2) s unfolding status_ok_def by (fastforce simp: Let_def)+
  ultimately show ?thesis using that [of True d3] t t' s
    by (simp add: wait_hd_def poll_hd.simps [of P _ _ _ t d1])
qed

lemma ucast_low8: "unat (ucast (w AND 0xFF :: u32) :: u8) = unat w mod 256"
proof -
  have m: "(0xFF :: u32) = mask 8" by (simp add: mask_eq_exp_minus_1)
  have "ucast (w AND 0xFF :: u32) = (ucast w :: u8)"
    unfolding m by (rule bit_word_eqI) (simp add: bit_simps)
  then show ?thesis by (simp add: unsigned_ucast_eq take_bit_eq_mod)
qed

lemma unat_drop_bit_div: "unat (drop_bit k w :: u32) = unat w div 2 ^ k"
  using unat_drop_bit_eq [of k w] by (simp only: drop_bit_eq_div [where 'a = nat])

lemma div_65536: "n div 65536 = n div 256 div 256" for n :: nat
  using div_mult2_eq [of n 256 256] by simp
lemma div_16777216: "n div 16777216 = n div 256 div 256 div 256" for n :: nat
  using div_mult2_eq [of n 65536 256] div_65536 [of n] by simp
lemma base_256:
  "n = n mod 256 + 256 * (n div 256 mod 256) + 65536 * (n div 65536 mod 256) + 16777216 * (n div 16777216)" for n :: nat
proof -
  have 1: "n = n mod 256 + 256 * (n div 256)" by (rule mod_mult_div_eq [symmetric])
  have 2: "n div 256 = n div 256 mod 256 + 256 * (n div 256 div 256)"
    by (rule mod_mult_div_eq [symmetric])
  have 3: "n div 256 div 256 = n div 256 div 256 mod 256 + 256 * (n div 256 div 256 div 256)"
    by (rule mod_mult_div_eq [symmetric])
  have "x = a + 256 * b + 65536 * c + 16777216 * d" if "x = a + 256 * y" "y = b + 256 * z" "z = c + 256 * d"
   for x a b c d y z :: nat using that by simp
  from this [OF 1 2 3] show ?thesis unfolding div_65536 div_16777216 .
qed
lemma make_command_regs:
  assumes "unat lba < 2 ^ 28"
  shows "device (HD_make_command lba f 0 c k) AND 0xF0 = 0xE0"
    "lba_of (lba_low (HD_make_command lba f 0 c k)) (lba_mid (HD_make_command lba f 0 c k))
       (lba_high (HD_make_command lba f 0 c k)) (device (HD_make_command lba f 0 c k)) = unat lba"
proof -
  let ?x = "ucast (drop_bit 24 lba AND 0xF) :: u8"
  have m: "(0xF :: u32) = mask 4" "(0xF :: u8) = mask 4" "(0xF0 :: u8) = push_bit 4 (mask 4)"
    by (simp_all add: mask_eq_exp_minus_1)
  have dev: "device (HD_make_command lba f 0 c k) = ?x OR 0xE0" by (simp add: HD_make_command_def)
  have x: "bit ?x n \<longleftrightarrow> n < 4 \<and> bit (drop_bit 24 lba) n" for n
    unfolding m by (auto simp: bit_simps)
  have e: "bit (0xE0 :: u8) n \<longleftrightarrow> 5 \<le> n \<and> n < 8" for n
  proof -
    have e: "(0xE0 :: u8) = push_bit 5 (mask 3)" by (simp add: mask_eq_exp_minus_1)
    show ?thesis unfolding e by (auto simp: bit_push_bit_iff bit_mask_iff)
  qed
  have f: "bit (0xF0 :: u8) n \<longleftrightarrow> 4 \<le> n \<and> n < 8" for n
    unfolding m(3) by (auto simp: bit_push_bit_iff bit_mask_iff)
  show "device (HD_make_command lba f 0 c k) AND 0xF0 = 0xE0"
    unfolding dev by (rule bit_word_eqI) (simp only: bit_and_iff bit_or_iff x e f, auto)
  have "(?x OR 0xE0) AND 0xF = ?x"
    unfolding m(2) by (rule bit_word_eqI) (simp only: bit_and_iff bit_or_iff bit_mask_iff x e, auto)
  moreover have "unat ?x = unat lba div 2 ^ 24"
  proof -
    have "?x = ucast (drop_bit 24 lba)"
    proof (rule bit_word_eqI)
      fix n assume "n < LENGTH(8)"
      have "\<not> bit (drop_bit 24 lba) n" if "4 \<le> n"
      proof -
        have "(2 :: nat) ^ 28 \<le> 2 ^ (24 + n)" using that by (intro power_increasing) simp_all
        then have "unat lba div 2 ^ (24 + n) = 0" using assms by (intro div_less) (rule less_le_trans)
        then have "\<not> bit (unat lba) (24 + n)" by (simp only: bit_iff_odd) simp
        then show ?thesis by (simp only: bit_drop_bit_eq comp_apply bit_unsigned_iff possible_bit_nat) simp
      qed
      then show "bit ?x n = bit (ucast (drop_bit 24 lba) :: u8) n"
        using \<open>n < LENGTH(8)\<close> unfolding x by (cases "4 \<le> n") (auto simp: bit_ucast_iff)
    qed
    then have "unat ?x = unat (drop_bit 24 lba) mod 256"
      by (simp only: unsigned_ucast_eq take_bit_eq_mod) simp
    moreover note unat_drop_bit_div [of 24 lba]
    moreover have "unat lba div 2 ^ 24 < 256" using assms by simp
    ultimately show ?thesis by (simp only: mod_less)
  qed
  moreover have "unat lba = unat lba mod 256 + 256 * (unat lba div 2 ^ 8 mod 256) +
      65536 * (unat lba div 2 ^ 16 mod 256) + 2 ^ 24 * (unat lba div 2 ^ 24)"
    using base_256 [of "unat lba"] by simp
  ultimately show "lba_of (lba_low (HD_make_command lba f 0 c k)) (lba_mid (HD_make_command lba f 0 c k))
       (lba_high (HD_make_command lba f 0 c k)) (device (HD_make_command lba f 0 c k)) = unat lba"
    unfolding lba_of_def dev
    by (simp only: HD_make_command_def HD_Command.select_convs ucast_low8 unat_drop_bit_div)
qed

section \<open>Transfers\<close>

lemma start_command:
  assumes "ata_drive P A" "idle A (bus s)" "unat lba < 2 ^ 28"
  obtains d where "hd_start P k 0 lba count s = Some (s\<lparr>bus := d\<rparr>)" "media A d = media A (bus s)"
    "k = ATA_READ \<Longrightarrow> reading A d (unat lba) (sector_count (ucast (sectors_of count)))"
    "k = ATA_WRITE \<Longrightarrow> writing A d (unat lba) (sector_count (ucast (sectors_of count)))"
proof -
  let ?cmd = "HD_make_command lba 0 0 (ucast (sectors_of count)) k"
  obtain b d1 where w: "wait_hd P HD_STATUS_BSY 0 HD_TIMEOUT (bus s) = Some (b, d1)" "idle A d1"
    "media A d1 = media A (bus s)"
    by (rule wait_idle [OF assms(1,2)])
  have "hd_start P k 0 lba count s = Some (s\<lparr>bus := issue P ?cmd d1\<rparr>)"
    using w(1) by (simp add: hd_start_def HD_send_command_def issue_def)
  moreover have "commands_ok P A" using assms(1) by (simp add: ata_drive_def)
  then have "media A (issue P ?cmd d1) = media A d1 \<and>
      (k = ATA_READ \<longrightarrow> reading A (issue P ?cmd d1) (unat lba) (sector_count (ucast (sectors_of count)))) \<and>
      (k = ATA_WRITE \<longrightarrow> writing A (issue P ?cmd d1) (unat lba) (sector_count (ucast (sectors_of count))))"
  proof -
    assume "commands_ok P A"
    note c = this [unfolded commands_ok_def Let_def, rule_format, OF w(2), of ?cmd]
    have "command ?cmd = k" "counts ?cmd = ucast (sectors_of count)" by (simp_all add: HD_make_command_def)
    with c [OF make_command_regs(1) [OF assms(3)]] show ?thesis
      by (simp only: make_command_regs(2) [OF assms(3)]) simp
  qed
  ultimately show ?thesis using that w(3) by metis
qed

text \<open>The number of sectors that hold \<open>count\<close> bytes.\<close>

abbreviation ceil_sectors :: "nat \<Rightarrow> nat" where
  "ceil_sectors b \<equiv> (b + 511) div 512"

lemma ceil_sectors_Suc: "0 < b \<Longrightarrow> ceil_sectors b = Suc ((b - 1) div 512)"
  by simp

lemma sectors_of_unat:
  assumes "0 < unat count" "unat count \<le> 256 * 512"
  shows "unat (sectors_of count) = ceil_sectors (unat count)"
    "sector_count (ucast (sectors_of count)) = ceil_sectors (unat count)"
proof -
  have "unat (count + 511) = unat count + 511"
    using assms(2) unat_le_iff_add [of count 511] by simp
  moreover have "count + SECTOR_SIZE - 1 = count + 511" "unat (512 :: u32) = 512" by simp_all
  ultimately show u: "unat (sectors_of count) = ceil_sectors (unat count)"
    unfolding sectors_of_def by (simp only: unat_div)
  have "unat (ucast (sectors_of count) :: u8) = ceil_sectors (unat count) mod 256"
    by (simp add: unsigned_ucast_eq take_bit_eq_mod u)
  moreover have "ceil_sectors (unat count) \<le> 256" "0 < ceil_sectors (unat count)"
    using assms by (simp_all add: div_le_mono div_greater_zero_iff)
  ultimately show "sector_count (ucast (sectors_of count)) = ceil_sectors (unat count)"
  proof (cases "ceil_sectors (unat count) = 256")
    case True
    then have "unat (ucast (sectors_of count) :: u8) = 0" using \<open>unat (ucast (sectors_of count) :: u8) = _\<close> by simp
    then have "ucast (sectors_of count) = (0 :: u8)" by (simp only: unat_eq_zero)
    then show ?thesis using True by (simp only: sector_count_def) simp
  next
    case False
    then have u: "unat (ucast (sectors_of count) :: u8) = ceil_sectors (unat count)"
      using \<open>unat (ucast (sectors_of count) :: u8) = _\<close> \<open>ceil_sectors (unat count) \<le> 256\<close> by simp
    then have "ucast (sectors_of count) \<noteq> (0 :: u8)" using \<open>0 < ceil_sectors (unat count)\<close> by (metis less_irrefl unat_0)
    then show ?thesis using u by (simp only: sector_count_def if_False)
  qed
qed

definition stored :: "'d ata \<Rightarrow> 'd \<Rightarrow> nat \<Rightarrow> nat \<Rightarrow> u8 list" where
  "stored A d l n = concat (map (media A d) [l..<l + n])"

lemma stored_Suc: "stored A d l (Suc n) = media A d l @ stored A d (Suc l) n"
  by (simp add: stored_def upt_conv_Cons del: upt_Suc)

lemma read_sectors_ok:
  assumes "ata_drive P A"
  shows "reading A (bus s) l (ceil_sectors b) \<Longrightarrow> 0 < b \<Longrightarrow> 512 \<le> length (hd_buf s) \<Longrightarrow>
    \<exists>s'. read_sectors P b s = Some (take b (stored A (bus s) l (ceil_sectors b)), s') \<and>
      idle A (bus s') \<and> media A (bus s') = media A (bus s) \<and> hd_info s' = hd_info s \<and>
      length (hd_buf s') = length (hd_buf s) \<and>
      take 512 (hd_buf s') = media A (bus s) (l + ceil_sectors b - 1)"
proof (induction b arbitrary: s l rule: less_induct)
  case (less b)
  have len: "length (media A d k) = 512" for d k using assms by (simp add: ata_drive_def)
  define n where "n = (b - 1) div 512"
  have n: "ceil_sectors b = Suc n" using less.prems(2) by (simp add: n_def)
  obtain d1 d2 where d: "recv_interrupt P (bus s) = Some d1" "insl P HD_REG_DATA 128 d1 = (media A (bus s) l, d2)"
    "media A d2 = media A (bus s)" "if n = 0 then idle A d2 else reading A d2 (Suc l) n"
    using assms less.prems(1) unfolding n ata_drive_def transfers_ok_def by blast
  let ?s = "buffer (media A (bus s) l) (s\<lparr>bus := d2\<rparr>)"
  have buf: "length (hd_buf ?s) = length (hd_buf s)" "take 512 (hd_buf ?s) = media A (bus s) l" "bus ?s = d2"
    "hd_info ?s = hd_info s"
    using less.prems(3) by (simp_all add: buffer_def len)
  have step: "read_sectors P b s = map_option (\<lambda>(rest, s'). (take (min 512 b) (media A (bus s) l) @ rest, s'))
      (read_sectors P (b - min 512 b) ?s)"
    using less.prems(2) d(1,2) by (simp add: read_sectors.simps [of P b s] Let_def)
  show ?case
  proof (cases "b \<le> 512")
    case True
    then have "n = 0" using n_def by simp
    then show ?thesis unfolding step n using True d(3,4) buf
      by (simp add: read_sectors.simps [of P 0] stored_Suc stored_def)
  next
    case False
    then have c: "ceil_sectors (b - 512) = n" "n \<noteq> 0" by (simp_all add: n_def)
    have "\<exists>s'. read_sectors P (b - 512) ?s = Some (take (b - 512) (stored A (bus ?s) (Suc l) (ceil_sectors (b - 512))), s') \<and>
      idle A (bus s') \<and> media A (bus s') = media A (bus ?s) \<and> hd_info s' = hd_info ?s \<and>
      length (hd_buf s') = length (hd_buf ?s) \<and>
      take 512 (hd_buf s') = media A (bus ?s) (Suc l + ceil_sectors (b - 512) - 1)"
      using False d(4) c buf less.prems(3) by (intro less.IH) auto
    then obtain s' where s': "read_sectors P (b - 512) ?s = Some (take (b - 512) (stored A d2 (Suc l) n), s')"
      "idle A (bus s')" "media A (bus s') = media A d2" "hd_info s' = hd_info s" "length (hd_buf s') = length (hd_buf s)"
      "take 512 (hd_buf s') = media A d2 (Suc l + n - 1)"
      using buf c by auto
    have "stored A d2 (Suc l) n = stored A (bus s) (Suc l) n" by (simp add: stored_def d(3))
    then show ?thesis unfolding step n using False s' d(3) len
      by (simp add: stored_Suc)
  qed
qed

text \<open>The buffer of the driver and what a call leaves alone.\<close>

definition hd_ready :: "'d ata \<Rightarrow> 'd hd \<Rightarrow> bool" where
  "hd_ready A s \<longleftrightarrow> idle A (bus s) \<and> 512 \<le> length (hd_buf s)"

lemma hd_read_ok:
  assumes "ata_drive P A" "hd_ready A s" "0 < unat count" "unat count \<le> 256 * 512" "unat lba < 2 ^ 28"
  obtains s' where "hd_read P 0 lba count s =
      Some (take (unat count) (stored A (bus s) (unat lba) (ceil_sectors (unat count))), s')"
    "hd_ready A s'" "media A (bus s') = media A (bus s)" "hd_info s' = hd_info s"
    "take 512 (hd_buf s') = media A (bus s) (unat lba + ceil_sectors (unat count) - 1)"
proof -
  have i: "idle A (bus s)" "512 \<le> length (hd_buf s)" using assms(2) by (simp_all add: hd_ready_def)
  obtain d where d: "hd_start P ATA_READ 0 lba count s = Some (s\<lparr>bus := d\<rparr>)" "media A d = media A (bus s)"
    "reading A d (unat lba) (ceil_sectors (unat count))"
    using start_command [OF assms(1) i(1) assms(5), of ATA_READ count]
    unfolding sectors_of_unat(2) [OF assms(3,4)] by metis
  obtain s' where "read_sectors P (unat count) (s\<lparr>bus := d\<rparr>) =
      Some (take (unat count) (stored A d (unat lba) (ceil_sectors (unat count))), s')"
    "idle A (bus s')" "media A (bus s') = media A d" "hd_info s' = hd_info s" "length (hd_buf s') = length (hd_buf s)"
    "take 512 (hd_buf s') = media A d (unat lba + ceil_sectors (unat count) - 1)"
    using read_sectors_ok [OF assms(1), of "s\<lparr>bus := d\<rparr>" "unat lba" "unat count"] d(3) assms(3) i(2) by auto
  moreover have "stored A d l n = stored A (bus s) l n" for l n by (simp add: stored_def d(2))
  ultimately show ?thesis using that d(1,2) i(2) by (simp add: hd_read_def hd_ready_def)
qed

section \<open>Writing\<close>

text \<open>A sector after the bytes \<open>bs\<close> have been written at its start.\<close>

definition over :: "u8 list \<Rightarrow> u8 list \<Rightarrow> u8 list" where
  "over bs old = bs @ drop (length bs) old"

lemma over_full [simp]: "length bs = 512 \<Longrightarrow> length old = 512 \<Longrightarrow> over bs old = bs"
  by (simp add: over_def)

lemma length_over [simp]: "length bs \<le> length old \<Longrightarrow> length (over bs old) = length old"
  by (simp add: over_def)

definition piece :: "u8 list \<Rightarrow> nat \<Rightarrow> u8 list" where
  "piece bs j = take 512 (drop (512 * j) bs)"

lemma piece_simps [simp]: "piece bs 0 = take 512 bs" "piece bs (Suc j) = piece (drop 512 bs) j"
  by (simp_all add: piece_def add.commute)

definition written :: "(nat \<Rightarrow> u8 list) \<Rightarrow> nat \<Rightarrow> u8 list \<Rightarrow> nat \<Rightarrow> u8 list" where
  "written m l bs k =
     (if l \<le> k \<and> k < l + ceil_sectors (length bs) then over (piece bs (k - l)) (m k) else m k)"

lemma write_sectors_ok:
  assumes "ata_drive P A"
  shows "writing A (bus s) l (ceil_sectors (length bs)) \<Longrightarrow> 0 < length bs \<Longrightarrow> 512 \<le> length (hd_buf s) \<Longrightarrow>
    (length bs mod 512 \<noteq> 0 \<Longrightarrow> take 512 (hd_buf s) = media A (bus s) (l + ceil_sectors (length bs) - 1)) \<Longrightarrow>
    \<exists>s'. write_sectors P bs (length bs) s = Some s' \<and> idle A (bus s') \<and>
      media A (bus s') = written (media A (bus s)) l bs \<and> hd_info s' = hd_info s \<and>
      length (hd_buf s') = length (hd_buf s)"
proof (induction "length bs" arbitrary: s l bs rule: less_induct)
  case less
  have len: "length (media A d k) = 512" for d k using assms by (simp add: ata_drive_def)
  define n where "n = (length bs - 1) div 512"
  have n: "ceil_sectors (length bs) = Suc n" unfolding n_def by (rule ceil_sectors_Suc [OF less.prems(2)])
  obtain b d1 where d1: "wait_hd P HD_STATUS_DRQ HD_STATUS_DRQ HD_TIMEOUT (bus s) = Some (b, d1)"
    "writing A d1 l (Suc n)" "media A d1 = media A (bus s)"
    using wait_drq [OF assms less.prems(1) [unfolded n]] by blast
  have send: "\<exists>d2. recv_interrupt P (outsl P HD_REG_DATA w d1) = Some d2 \<and> media A d2 = (media A (bus s))(l := w) \<and>
      (if n = 0 then idle A d2 else writing A d2 (Suc l) n)" if "length w = 512" for w
    using assms d1(2,3) that unfolding ata_drive_def transfers_ok_def by metis
  show ?case
  proof (cases "512 \<le> length bs")
    case False
    then have n0: "n = 0" using n_def by simp
    let ?w = "over bs (media A (bus s) l)"
    have "length bs mod 512 \<noteq> 0" using False less.prems(2) by simp
    then have buf: "take 512 (hd_buf s) = media A (bus s) l" using less.prems(4) n n0 by simp
    let ?s = "buffer bs s"
    have "take 512 (bs @ drop (length bs) (hd_buf s)) = bs @ drop (length bs) (take 512 (hd_buf s))"
      using False by (simp add: drop_take)
    then have w: "take 512 (hd_buf ?s) = ?w" by (simp add: buffer_def over_def buf)
    obtain d2 where d2: "recv_interrupt P (outsl P HD_REG_DATA ?w d1) = Some d2"
      "media A d2 = (media A (bus s))(l := ?w)" "idle A d2"
      using send [of ?w] False n0 len by auto
    have "write_sectors P bs (length bs) s = Some (?s\<lparr>bus := d2\<rparr>)"
      using False less.prems(2) d1(1) d2(1) w
      by (simp add: write_sectors.simps [of P bs "length bs"] write_sectors.simps [of P _ 0] Let_def buffer_def)
    moreover have "(media A (bus s))(l := ?w) = written (media A (bus s)) l bs"
      using n n0 False by (auto simp: written_def fun_eq_iff)
    moreover have "length (hd_buf ?s) = length (hd_buf s)" using False less.prems(3) by (simp add: buffer_def)
    ultimately show ?thesis using d2 by (simp add: buffer_def)
  next
    case True
    let ?w = "take 512 bs" and ?r = "drop 512 bs"
    obtain d2 where d2: "recv_interrupt P (outsl P HD_REG_DATA ?w d1) = Some d2"
      "media A d2 = (media A (bus s))(l := ?w)" "if n = 0 then idle A d2 else writing A d2 (Suc l) n"
      using send [of ?w] True by auto
    let ?s = "s\<lparr>bus := d2\<rparr>"
    have step: "write_sectors P bs (length bs) s = write_sectors P ?r (length ?r) ?s"
      using True less.prems(2) d1(1) d2(1) by (auto simp: write_sectors.simps [of P bs "length bs"] Let_def)
    show ?thesis
    proof (cases "?r = []")
      case True
      then have "length bs = 512" using \<open>512 \<le> length bs\<close> by simp
      then have "n = 0" "written (media A (bus s)) l bs = (media A (bus s))(l := bs)"
        using n_def len by (auto simp: written_def fun_eq_iff)
      then show ?thesis unfolding step using True d2 \<open>length bs = 512\<close>
        by (simp add: write_sectors.simps [of P _ 0])
    next
      case False
      then have c: "ceil_sectors (length ?r) = n" "n \<noteq> 0" "length bs mod 512 = length ?r mod 512"
        using True n_def by (auto simp: le_mod_geq)
      have "\<exists>s'. write_sectors P ?r (length ?r) ?s = Some s' \<and> idle A (bus s') \<and>
          media A (bus s') = written (media A (bus ?s)) (Suc l) ?r \<and> hd_info s' = hd_info ?s \<and>
          length (hd_buf s') = length (hd_buf ?s)"
      proof (rule less.hyps)
        show "length ?r < length bs" "0 < length ?r" using True False by simp_all
        show "writing A (bus ?s) (Suc l) (ceil_sectors (length ?r))" unfolding c(1) using c(2) d2(3) by simp
        show "512 \<le> length (hd_buf ?s)" using less.prems(3) by simp
        show "take 512 (hd_buf ?s) = media A (bus ?s) (Suc l + ceil_sectors (length ?r) - 1)"
          if "length ?r mod 512 \<noteq> 0"
          using less.prems(4) that c n d2(2) by simp
      qed
      moreover have "written ((media A (bus s))(l := ?w)) (Suc l) ?r = written (media A (bus s)) l bs"
      proof
        fix k
        consider "k = l" | "k < l" | j where "k = Suc (l + j)" by (metis add_Suc less_imp_Suc_add nat_neq_iff)
        then show "written ((media A (bus s))(l := ?w)) (Suc l) ?r k = written (media A (bus s)) l bs k"
          using n c True len by cases (auto simp: written_def Suc_diff_le)
      qed
      ultimately show ?thesis unfolding step using d2(2) by auto
    qed
  qed
qed

lemma hd_write_ok:
  assumes "ata_drive P A" "hd_ready A s" "0 < unat count" "unat count \<le> 256 * 512"
    "unat lba + ceil_sectors (unat count) \<le> 2 ^ 28" "length bs = unat count"
  obtains s' where "hd_write P bs 0 lba count s = Some s'" "hd_ready A s'"
    "media A (bus s') = written (media A (bus s)) (unat lba) bs" "hd_info s' = hd_info s"
proof -
  let ?n = "ceil_sectors (unat count)" and ?last = "lba + sectors_of count - 1"
  have n: "unat (sectors_of count) = ?n" "sector_count (ucast (sectors_of count)) = ?n"
    using sectors_of_unat [OF assms(3,4)] by simp_all
  have n0: "0 < ?n" using assms(3) by (simp add: div_greater_zero_iff)
  have lba: "unat lba < 2 ^ 28" using assms(5) n0 by simp
  have "unat (lba + of_nat (?n - 1)) = unat lba + (?n - 1)"
    using assms(5) n0 by (intro unat_le_iff_add) simp
  moreover have "of_nat (?n - 1) = sectors_of count - 1"
  proof -
    have "of_nat ?n = sectors_of count" unfolding n(1) [symmetric] by simp
    then show ?thesis using n0 by (simp add: of_nat_diff del: One_nat_def)
  qed
  ultimately have last: "unat ?last = unat lba + ?n - 1" using n0 by (simp add: add_diff_eq)
  have "\<exists>s1. (if count mod 512 \<noteq> 0 then map_option snd (hd_read P 0 ?last SECTOR_SIZE s) else Some s) = Some s1 \<and>
      hd_ready A s1 \<and> media A (bus s1) = media A (bus s) \<and> hd_info s1 = hd_info s \<and>
      (unat count mod 512 \<noteq> 0 \<longrightarrow> take 512 (hd_buf s1) = media A (bus s) (unat lba + ?n - 1))"
  proof (cases "count mod 512 = 0")
    case True
    then have "unat (count mod 512) = 0" by simp
    then have "unat count mod 512 = 0" by (simp only: unat_mod) simp
    then show ?thesis using True assms(2) by simp
  next
    case False
    obtain s1 where "hd_read P 0 ?last SECTOR_SIZE s = Some (take 512 (stored A (bus s) (unat ?last) (ceil_sectors 512)), s1)"
      "hd_ready A s1" "media A (bus s1) = media A (bus s)" "hd_info s1 = hd_info s"
      "take 512 (hd_buf s1) = media A (bus s) (unat ?last + ceil_sectors 512 - 1)"
      by (rule hd_read_ok [OF assms(1,2), of SECTOR_SIZE ?last]) (use last assms(5) n0 in simp_all)
    then show ?thesis using False last by simp
  qed
  then obtain s1 where s1: "(if count mod 512 \<noteq> 0 then map_option snd (hd_read P 0 ?last SECTOR_SIZE s) else Some s) = Some s1"
    "hd_ready A s1" "media A (bus s1) = media A (bus s)" "hd_info s1 = hd_info s"
    "unat count mod 512 \<noteq> 0 \<longrightarrow> take 512 (hd_buf s1) = media A (bus s) (unat lba + ?n - 1)" by blast
  have i: "idle A (bus s1)" "512 \<le> length (hd_buf s1)" using s1(2) by (simp_all add: hd_ready_def)
  obtain d where d: "hd_start P ATA_WRITE 0 lba count s1 = Some (s1\<lparr>bus := d\<rparr>)" "media A d = media A (bus s1)"
    "writing A d (unat lba) ?n"
    using start_command [OF assms(1) i(1) lba, of ATA_WRITE count] unfolding n(2) by metis
  obtain s' where "write_sectors P bs (length bs) (s1\<lparr>bus := d\<rparr>) = Some s'" "idle A (bus s')"
    "media A (bus s') = written (media A d) (unat lba) bs" "hd_info s' = hd_info s1" "length (hd_buf s') = length (hd_buf s1)"
    using write_sectors_ok [OF assms(1), of "s1\<lparr>bus := d\<rparr>" "unat lba" bs] d assms(3,6) i(2) s1(3,5) by auto
  then show ?thesis using that s1 d i(2) assms(6) by (simp add: hd_write_def hd_ready_def)
qed

lemma stored_written:
  assumes "\<And>k. length (m k) = 512" "ceil_sectors (length bs) = n"
  shows "take (length bs) (concat (map (written m l bs) [l..<l + n])) = bs"
proof -
  have F: "take (length xs) (concat (map (\<lambda>k. over (piece xs (k - l)) (m k)) [l..<l + ceil_sectors (length xs)])) = xs" for xs l
  proof (induction "length xs" arbitrary: xs l rule: less_induct)
    case less
    show ?case
    proof (cases "xs = []")
      case False
      then have c: "ceil_sectors (length xs) = Suc ((length xs - 1) div 512)" by (intro ceil_sectors_Suc) simp
      have up: "[l..<l + Suc k] = l # [Suc l..<Suc l + k]" for k by (simp add: upt_conv_Cons del: upt_Suc)
      show ?thesis
      proof (cases "length xs \<le> 512")
        case True
        then have "(length xs - 1) div 512 = 0" by simp
        then show ?thesis unfolding c up using True assms(1) by (simp add: over_def)
      next
        case big: False
        let ?r = "drop 512 xs"
        have k: "ceil_sectors (length ?r) = (length xs - 1) div 512" using big by simp
        have IH: "take (length ?r) (concat (map (\<lambda>k. over (piece ?r (k - Suc l)) (m k)) [Suc l..<Suc l + ceil_sectors (length ?r)])) = ?r"
          using big by (intro less) simp
        have e: "map (\<lambda>k. over (piece xs (k - l)) (m k)) [Suc l..<Suc l + j] =
            map (\<lambda>k. over (piece ?r (k - Suc l)) (m k)) [Suc l..<Suc l + j]" for j
        proof (rule map_cong [OF refl])
          fix k assume "k \<in> set [Suc l..<Suc l + j]"
          then obtain i where "k - l = Suc i" "k - Suc l = i" by (cases "k - l") auto
          then show "over (piece xs (k - l)) (m k) = over (piece ?r (k - Suc l)) (m k)" by simp
        qed
        have "length xs = 512 + length ?r" using big by simp
        then have "take (length xs) (concat (map (\<lambda>k. over (piece xs (k - l)) (m k)) [l..<l + ceil_sectors (length xs)])) =
            take 512 xs @ ?r"
          unfolding c up list.map concat.simps e using big assms(1) IH k by (simp add: take_append)
        then show ?thesis by simp
      qed
    qed simp
  qed
  have e: "map (written m l bs) [l..<l + n] = map (\<lambda>k. over (piece bs (k - l)) (m k)) [l..<l + n]"
    using assms(2) by (auto simp: written_def)
  show ?thesis unfolding e by (rule F [of bs l, unfolded assms(2)])
qed

section \<open>Numbers on the disk\<close>

text \<open>Two and four bytes as the numbers they stand for, the lowest byte first.\<close>

definition le16 :: "u8 list \<Rightarrow> nat \<Rightarrow> nat" where
  "le16 b i = unat (b ! i) + 256 * unat (b ! (i + 1))"

definition le32 :: "u8 list \<Rightarrow> nat \<Rightarrow> nat" where
  "le32 b i = le16 b i + 65536 * le16 b (i + 2)"

lemma or_shifted: "(a :: nat) < 2 ^ n \<Longrightarrow> a OR push_bit n b = a + 2 ^ n * b"
proof -
  assume "a < 2 ^ n"
  then have "take_bit n a = a" by (rule take_bit_nat_eq_self)
  then have "\<forall>k. bit a k \<longrightarrow> \<not> n \<le> k" by (metis bit_take_bit_iff leD)
  then have "a AND push_bit n b = 0" by (auto simp: bit_eq_iff bit_simps)
  then have "a + push_bit n b = a OR push_bit n b" by (rule disjunctive_add_eq_or)
  then show ?thesis by (simp add: push_bit_eq_mult mult.commute)
qed

lemma unat_byte: "unat (x :: u8) < 256"
  using unsigned_less [of x] by simp

lemma unat_word_of: "unat (word_of b i) = le16 b i"
proof -
  have "take_bit 16 (unat (b ! k)) = unat (b ! k)" "take_bit 16 (push_bit 8 (unat (b ! k))) = push_bit 8 (unat (b ! k))" for k
    using unat_byte [of "b ! k"] by (simp_all add: take_bit_nat_eq_self push_bit_eq_mult)
  then show ?thesis
    using or_shifted [of "unat (b ! i)" 8 "unat (b ! (i + 1))"] unat_byte [of "b ! i"]
    by (simp add: word_of_def le16_def unsigned_or_eq unsigned_push_bit_eq unsigned_ucast_eq del: push_bit_of_Suc_0)
qed

lemma le16_bound: "le16 b i < 65536"
  using unat_byte [of "b ! i"] unat_byte [of "b ! (i + 1)"] by (simp add: le16_def)

lemma unat_dword_of: "unat (dword_of b i) = le32 b i"
proof -
  have "take_bit 32 (le16 b k) = le16 b k" "take_bit 32 (push_bit 16 (le16 b k)) = push_bit 16 (le16 b k)" for k
    using le16_bound [of b k] by (simp_all add: take_bit_nat_eq_self push_bit_eq_mult)
  then show ?thesis
    using or_shifted [of "le16 b i" 16 "le16 b (i + 2)"] le16_bound [of b i]
    by (simp add: dword_of_def le32_def unsigned_or_eq unsigned_push_bit_eq unsigned_ucast_eq unat_word_of)
qed

lemma dword_of_le32: "dword_of b i = of_nat (le32 b i)"
  by (simp flip: unat_dword_of)
section \<open>Partition tables\<close>

text \<open>
  What the four 16 byte entries from byte 446 of a sector mean: a mark, a kind, the first sector,
  counted from some sector \<open>r\<close>, and the number of sectors.
\<close>

definition part_kind :: "u8 list \<Rightarrow> nat \<Rightarrow> u8" where
  "part_kind b i = b ! (450 + 16 * i)"

definition part_start :: "u8 list \<Rightarrow> nat \<Rightarrow> nat" where
  "part_start b i = le32 b (454 + 16 * i)"

definition describes :: "HD_PartInfo \<Rightarrow> u8 list \<Rightarrow> nat \<Rightarrow> nat \<Rightarrow> bool" where
  "describes p b i r \<longleftrightarrow> bootable p = b ! (446 + 16 * i) \<and> fsid p = part_kind b i \<and>
     unat (part_base p) = r + part_start b i \<and> unat (part_size p) = le32 b (458 + 16 * i)"

text \<open>
  The sectors of the extended boot records of an extended partition that begins at \<open>ext\<close>: the first
  is there, and the second entry of each record leads to the next, counted from \<open>ext\<close>; that of the
  last is not in use. The first entry is the logical partition, counted from its own record.
\<close>

definition boot_records :: "(nat \<Rightarrow> u8 list) \<Rightarrow> nat \<Rightarrow> nat list \<Rightarrow> bool" where
  "boot_records m ext rs \<longleftrightarrow> rs \<noteq> [] \<and>
     (\<forall>j. Suc j < length rs \<longrightarrow> part_kind (m (rs ! j)) 1 \<noteq> 0 \<and> rs ! Suc j = ext + part_start (m (rs ! j)) 1) \<and>
     part_kind (m (last rs)) 1 = 0 \<and> (\<forall>r \<in> set rs. r < 2 ^ 28 \<and> r + part_start (m r) 0 < 2 ^ 32)"

lemma boot_records_Cons:
  "boot_records m ext (r # rs) \<longleftrightarrow> r < 2 ^ 28 \<and> r + part_start (m r) 0 < 2 ^ 32 \<and>
     (if rs = [] then part_kind (m r) 1 = 0
      else part_kind (m r) 1 \<noteq> 0 \<and> rs ! 0 = ext + part_start (m r) 1 \<and> boot_records m ext rs)"
proof (cases rs)
  case Nil
  then show ?thesis by (auto simp: boot_records_def)
next
  case (Cons r' rs')
  have "(\<forall>j. Suc j < length (r # rs) \<longrightarrow> Q ((r # rs) ! j) ((r # rs) ! Suc j)) \<longleftrightarrow>
      Q r (rs ! 0) \<and> (\<forall>j. Suc j < length rs \<longrightarrow> Q (rs ! j) (rs ! Suc j))" for Q :: "nat \<Rightarrow> nat \<Rightarrow> bool"
  proof -
    have "(\<forall>j. P j) \<longleftrightarrow> P 0 \<and> (\<forall>j. P (Suc j))" for P :: "nat \<Rightarrow> bool" by (metis nat.exhaust)
    from this [of "\<lambda>j. Suc j < length (r # rs) \<longrightarrow> Q ((r # rs) ! j) ((r # rs) ! Suc j)"] show ?thesis
      using Cons by simp
  qed
  from this [of "\<lambda>a b. part_kind (m a) 1 \<noteq> 0 \<and> b = ext + part_start (m a) 1"] show ?thesis
    using Cons by (auto simp: boot_records_def)
qed

lemma part_entry_bytes:
  "fsid (part_entry b i) = part_kind b i" "unat (part_base (part_entry b i)) = part_start b i"
  "describes (part_entry b i) b i 0"
  by (simp_all add: describes_def part_entry_def part_kind_def part_start_def Let_def unat_dword_of)

text \<open>The chain as the loop follows it.\<close>

fun logical_parts :: "(nat \<Rightarrow> u8 list) \<Rightarrow> u32 \<Rightarrow> nat \<Rightarrow> u32 \<Rightarrow> HD_PartInfo list" where
  "logical_parts m ext_base 0 sect = []"
| "logical_parts m ext_base (Suc left) sect =
     (let t = m (unat sect); e = part_entry t 0; n = part_entry t 1
      in e\<lparr>part_base := sect + part_base e\<rparr> #
         (if fsid n = HD_PART_TYPE_NONE then [] else logical_parts m ext_base left (ext_base + part_base n)))"

fun chain_in_range :: "(nat \<Rightarrow> u8 list) \<Rightarrow> u32 \<Rightarrow> nat \<Rightarrow> u32 \<Rightarrow> bool" where
  "chain_in_range m ext_base 0 sect = True"
| "chain_in_range m ext_base (Suc left) sect \<longleftrightarrow> unat sect < 2 ^ 28 \<and>
     (fsid (part_entry (m (unat sect)) 1) = HD_PART_TYPE_NONE \<or>
      chain_in_range m ext_base left (ext_base + part_base (part_entry (m (unat sect)) 1)))"

lemma logical_parts_records:
  "boot_records m ext rs \<Longrightarrow>
    length (logical_parts m (of_nat ext) left (of_nat (rs ! 0))) = min left (length rs) \<and>
    (\<forall>j < min left (length rs). describes (logical_parts m (of_nat ext) left (of_nat (rs ! 0)) ! j) (m (rs ! j)) 0 (rs ! j)) \<and>
    chain_in_range m (of_nat ext) left (of_nat (rs ! 0))"
proof (induction left arbitrary: rs)
  case (Suc left)
  then obtain r rs' where rs: "rs = r # rs'" by (cases rs) (auto simp: boot_records_def)
  note c = Suc.prems [unfolded rs boot_records_Cons]
  then have u: "unat (of_nat r :: u32) = r" by (intro unat_of_nat32) simp
  let ?e = "part_entry (m r) 0" and ?n = "part_entry (m r) 1"
  have "unat (of_nat r + part_base ?e) = r + part_start (m r) 0"
    using c unat_add_lem [of "of_nat r :: u32" "part_base ?e"] by (simp add: u part_entry_bytes)
  then have d: "describes (?e\<lparr>part_base := of_nat r + part_base ?e\<rparr>) (m r) 0 r"
    using part_entry_bytes(3) [of "m r" 0] by (simp add: describes_def)
  show ?case
  proof (cases "rs' = []")
    case True
    then show ?thesis using c d by (simp add: rs u part_entry_bytes Let_def)
  next
    case False
    then have b: "boot_records m ext rs'" "part_kind (m r) 1 \<noteq> 0" "rs' ! 0 = ext + part_start (m r) 1" using c by simp_all
    have "of_nat ext + part_base ?n = of_nat (rs' ! 0)"
      unfolding b(3) by (simp flip: part_entry_bytes(2))
    then show ?thesis
      using Suc.IH [OF b(1)] b(2) c d by (auto simp: rs u part_entry_bytes Let_def nth_Cons' less_Suc_eq_0_disj)
  qed
qed simp

fun put_all :: "'a list \<Rightarrow> nat \<Rightarrow> 'a list \<Rightarrow> 'a list" where
  "put_all xs i [] = xs"
| "put_all xs i (y # ys) = put_all (xs[i := y]) (Suc i) ys"

lemma length_put_all [simp]: "length (put_all xs i ys) = length xs"
  by (induction xs i ys rule: put_all.induct) auto

lemma nth_put_all:
  "i + length ys \<le> length xs \<Longrightarrow> k < length xs \<Longrightarrow>
   put_all xs i ys ! k = (if i \<le> k \<and> k < i + length ys then ys ! (k - i) else xs ! k)"
proof (induction xs i ys rule: put_all.induct)
  case (2 xs i y ys)
  then show ?case by (auto simp: nth_list_update nth_Cons' Suc_diff_Suc)
qed auto

lemma table_read:
  assumes "ata_drive P A" "hd_ready A s" "unat sect < 2 ^ 28"
  obtains s' where "part_table_read P 0 sect s = Some (map (part_entry (media A (bus s) (unat sect))) [0..<PART_PER_DRIVE], s')"
    "hd_ready A s'" "media A (bus s') = media A (bus s)" "hd_info s' = hd_info s"
proof -
  obtain s' where s': "hd_read P 0 sect SECTOR_SIZE s = Some (take 512 (stored A (bus s) (unat sect) (ceil_sectors 512)), s')"
    "hd_ready A s'" "media A (bus s') = media A (bus s)" "hd_info s' = hd_info s"
    by (rule hd_read_ok [OF assms(1,2), of SECTOR_SIZE sect]) (use assms(3) in simp_all)
  moreover have "take 512 (stored A (bus s) (unat sect) (ceil_sectors 512)) = media A (bus s) (unat sect)"
    using assms(1) by (simp add: stored_def ata_drive_def)
  ultimately show ?thesis using that by (simp add: part_table_read_def)
qed

lemma upd_info_simps [simp]:
  "hd_ready A (upd_info f s) = hd_ready A s" "bus (upd_info f s) = bus s" "hd_info (upd_info f s) = f (hd_info s)"
  by (simp_all add: upd_info_def hd_ready_def)

lemma read_logical_ok:
  assumes "ata_drive P A"
  shows "hd_ready A s \<Longrightarrow> chain_in_range (media A (bus s)) ext_base left sect \<Longrightarrow>
    \<exists>s'. read_logical P 0 ext_base slot left sect s = Some s' \<and> hd_ready A s' \<and>
      media A (bus s') = media A (bus s) \<and>
      hd_info s' = (hd_info s)\<lparr>logical := put_all (logical (hd_info s)) slot (logical_parts (media A (bus s)) ext_base left sect)\<rparr>"
proof (induction left arbitrary: s slot sect)
  case 0
  then show ?case by simp
next
  case (Suc left)
  let ?t = "media A (bus s) (unat sect)"
  from Suc.prems(2) have "unat sect < 2 ^ 28" by simp
  then obtain s1 where s1: "part_table_read P 0 sect s = Some (map (part_entry ?t) [0..<PART_PER_DRIVE], s1)"
    "hd_ready A s1" "media A (bus s1) = media A (bus s)" "hd_info s1 = hd_info s"
    using table_read [OF assms Suc.prems(1)] by metis
  let ?s = "upd_info (\<lambda>i. i\<lparr>logical := (logical i)[slot := (part_entry ?t 0)\<lparr>part_base := sect + part_base (part_entry ?t 0)\<rparr>]\<rparr>) s1"
  show ?case
  proof (cases "fsid (part_entry ?t 1) = HD_PART_TYPE_NONE")
    case True
    then show ?thesis using s1 by (simp add: Let_def)
  next
    case False
    then have c: "chain_in_range (media A (bus ?s)) ext_base left (ext_base + part_base (part_entry ?t 1))"
      using Suc.prems(2) s1(3) by simp
    have "hd_ready A ?s" using s1(2) by simp
    from Suc.IH [OF this c, of "slot + 1"] show ?thesis
      using False s1 by (simp add: Let_def)
  qed
qed

lemma length_logical_parts: "length (logical_parts m ext_base left sect) \<le> left"
  by (induction m ext_base left sect rule: logical_parts.induct) (auto simp: Let_def)

text \<open>What entry \<open>i\<close> of the boot sector's table puts into the slots, which held \<open>h0\<close>.\<close>

abbreviation (input) ext_parts :: "(nat \<Rightarrow> u8 list) \<Rightarrow> nat \<Rightarrow> HD_PartInfo list" where
  "ext_parts m i \<equiv> logical_parts m (part_base (part_entry (m 0) i)) SUB_PER_PART (part_base (part_entry (m 0) i))"

definition entry_done :: "(nat \<Rightarrow> u8 list) \<Rightarrow> HD_Info \<Rightarrow> nat \<Rightarrow> HD_Info \<Rightarrow> bool" where
  "entry_done m h0 i hinf \<longleftrightarrow>
     (let e = part_entry (m 0) i
      in primary hinf ! (i + 1) = (if fsid e = HD_PART_TYPE_NONE then primary h0 ! (i + 1) else e) \<and>
         (\<forall>j < SUB_PER_PART. logical hinf ! (SUB_PER_PART * i + j) =
           (if fsid e = HD_PART_TYPE_EXTEND \<and> j < length (ext_parts m i) then ext_parts m i ! j
            else logical h0 ! (SUB_PER_PART * i + j))))"

definition entry_same :: "HD_Info \<Rightarrow> nat \<Rightarrow> HD_Info \<Rightarrow> bool" where
  "entry_same h0 i hinf \<longleftrightarrow> primary hinf ! (i + 1) = primary h0 ! (i + 1) \<and>
     (\<forall>j < SUB_PER_PART. logical hinf ! (SUB_PER_PART * i + j) = logical h0 ! (SUB_PER_PART * i + j))"

definition sized :: "HD_Info \<Rightarrow> bool" where
  "sized hinf \<longleftrightarrow> length (primary hinf) = PRIM_PER_DRIVE \<and> length (logical hinf) = SUB_PER_DRIVE"

lemma slots_done:
  assumes "sized h" "a < 4" "e = part_entry (m 0) a" "fsid e \<noteq> HD_PART_TYPE_NONE"
    "h' = h\<lparr>primary := (primary h)[a + 1 := e], logical := if fsid e = HD_PART_TYPE_EXTEND
       then put_all (logical h) (a * SUB_PER_PART) (ext_parts m a) else logical h\<rparr>"
  shows "sized h'" "entry_same h0 a h \<Longrightarrow> entry_done m h0 a h'" "primary h' ! 0 = primary h ! 0"
    "i \<noteq> a \<Longrightarrow> i < 4 \<Longrightarrow> entry_same h i h'"
proof -
  have len: "length (ext_parts m a) \<le> 16" by (rule length_logical_parts)
  have L: "length (logical h) = 64" "length (primary h) = 5" using assms(1) by (simp_all add: sized_def)
  show "sized h'" using assms(1,5) by (simp add: sized_def)
  show "primary h' ! 0 = primary h ! 0" using assms(5) by simp
  have put: "put_all (logical h) (a * 16) (ext_parts m a) ! k =
      (if a * 16 \<le> k \<and> k < a * 16 + length (ext_parts m a) then ext_parts m a ! (k - a * 16) else logical h ! k)"
    if "k < 64" for k
    by (rule nth_put_all) (use that len L assms(2) in simp_all)
  have "logical h' ! (16 * a + j) = (if fsid e = HD_PART_TYPE_EXTEND \<and> j < length (ext_parts m a)
      then ext_parts m a ! j else logical h ! (16 * a + j))" if "j < 16" for j
    using put [of "16 * a + j"] that assms(2) unfolding assms(5) by simp
  then show "entry_done m h0 a h'" if "entry_same h0 a h"
    using that assms(2-5) L by (simp add: entry_done_def entry_same_def Let_def)
  show "entry_same h i h'" if i: "i \<noteq> a" "i < 4"
  proof -
    have "logical h' ! (16 * i + j) = logical h ! (16 * i + j)" if j: "j < 16" for j
    proof -
      have "\<not> (a * 16 \<le> 16 * i + j \<and> 16 * i + j < a * 16 + length (ext_parts m a))"
        using i j len by arith
      then have "put_all (logical h) (a * 16) (ext_parts m a) ! (16 * i + j) = logical h ! (16 * i + j)"
        using i j by (subst put) (simp, rule if_not_P)
      then show ?thesis unfolding assms(5) by simp
    qed
    then show ?thesis using i unfolding entry_same_def assms(5) by simp
  qed
qed

lemma entry_kept: "entry_same h i h' \<Longrightarrow> entry_done m h0 i h \<Longrightarrow> entry_done m h0 i h'"
  "entry_same h i h' \<Longrightarrow> entry_same h0 i h \<Longrightarrow> entry_same h0 i h'" "entry_same h i h"
  by (simp_all add: entry_same_def entry_done_def Let_def)

lemma read_primary_ok:
  assumes "ata_drive P A" "\<forall>i < 4. fsid (part_entry (m 0) i) = HD_PART_TYPE_EXTEND \<longrightarrow>
    chain_in_range m (part_base (part_entry (m 0) i)) SUB_PER_PART (part_base (part_entry (m 0) i))"
  shows "hd_ready A s \<Longrightarrow> media A (bus s) = m \<Longrightarrow> sized (hd_info s) \<Longrightarrow> a \<le> 4 \<Longrightarrow>
    \<forall>i < a. entry_done m h0 i (hd_info s) \<Longrightarrow> \<forall>i < 4. a \<le> i \<longrightarrow> entry_same h0 i (hd_info s) \<Longrightarrow>
    \<exists>s'. read_primary P 0 (map (part_entry (m 0)) [0..<PART_PER_DRIVE]) [a..<4] s = Some s' \<and> hd_ready A s' \<and>
      media A (bus s') = m \<and> sized (hd_info s') \<and> open_cnt (hd_info s') = open_cnt (hd_info s) \<and>
      primary (hd_info s') ! 0 = primary (hd_info s) ! 0 \<and> (\<forall>i < 4. entry_done m h0 i (hd_info s'))"
proof (induction "4 - a" arbitrary: a s)
  case 0
  then have "a = 4" by simp
  then show ?case using 0 by auto
next
  case (Suc k)
  then have a: "a < 4" "[a..<4] = a # [Suc a..<4]" by (simp_all add: upt_conv_Cons)
  have k: "k = 4 - Suc a" "Suc a \<le> 4" using Suc.hyps(2) a(1) by simp_all
  let ?e = "part_entry (m 0) a"
  let ?t = "map (part_entry (m 0)) [0..<PART_PER_DRIVE]"
  have e: "?t ! a = ?e" using a(1) by simp
  show ?case
  proof (cases "fsid ?e = HD_PART_TYPE_NONE")
    case True
    then have "entry_done m h0 a (hd_info s)"
      using Suc.prems(6) a(1) by (simp add: entry_done_def entry_same_def)
    then have "\<forall>i < Suc a. entry_done m h0 i (hd_info s)" using Suc.prems(5) by (auto simp: less_Suc_eq)
    with Suc.hyps(1) [of "Suc a" s] k Suc.prems a True show ?thesis by (simp add: e Let_def)
  next
    case False
    let ?s = "upd_info (\<lambda>hinf. hinf\<lparr>primary := (primary hinf)[a + 1 := ?e]\<rparr>) s"
    have p: "primary (hd_info ?s) ! (a + 1) = ?e" using Suc.prems(3) a(1) by (simp add: sized_def)
    obtain s1 where s1: "(if fsid ?e = HD_PART_TYPE_EXTEND
        then read_logical P 0 (part_base ?e) (a * SUB_PER_PART) SUB_PER_PART (part_base ?e) ?s else Some ?s) = Some s1"
      "hd_ready A s1" "media A (bus s1) = m"
      "hd_info s1 = (hd_info s)\<lparr>primary := (primary (hd_info s))[a + 1 := ?e], logical := if fsid ?e = HD_PART_TYPE_EXTEND
         then put_all (logical (hd_info s)) (a * SUB_PER_PART) (ext_parts m a) else logical (hd_info s)\<rparr>"
    proof (cases "fsid ?e = HD_PART_TYPE_EXTEND")
      case True
      have "chain_in_range (media A (bus ?s)) (part_base ?e) SUB_PER_PART (part_base ?e)"
        using assms(2) a(1) True Suc.prems(2) by simp
      then show ?thesis using read_logical_ok [OF assms(1), of ?s] that True Suc.prems(1,2) by (fastforce simp del: read_logical.simps)
    next
      case False
      then show ?thesis using that [of ?s] Suc.prems(1,2) by simp
    qed
    note sl = slots_done [OF Suc.prems(3) a(1) refl False s1(4)]
    have before: "\<forall>i < Suc a. entry_done m h0 i (hd_info s1)"
      using sl(2) [of h0] Suc.prems(5,6) entry_kept(1) [OF sl(4)] a(1) by (auto simp: less_Suc_eq)
    have after: "\<forall>i < 4. Suc a \<le> i \<longrightarrow> entry_same h0 i (hd_info s1)"
      using Suc.prems(6) entry_kept(2) [OF sl(4)] by auto
    from Suc.hyps(1) [OF k(1) s1(2,3) sl(1) k(2) before after] obtain s' where
      "read_primary P 0 ?t [Suc a..<4] s1 = Some s'" "hd_ready A s'" "media A (bus s') = m" "sized (hd_info s')"
      "open_cnt (hd_info s') = open_cnt (hd_info s1)" "primary (hd_info s') ! 0 = primary (hd_info s1) ! 0"
      "\<forall>i < 4. entry_done m h0 i (hd_info s')" by blast
    moreover have "read_primary P 0 ?t [a..<4] s = read_primary P 0 ?t [Suc a..<4] s1"
    proof -
      have "read_primary P 0 ?t [a..<4] s = Option.bind (if fsid ?e = HD_PART_TYPE_EXTEND
        then read_logical P 0 (part_base ?e) (a * SUB_PER_PART) SUB_PER_PART (part_base ?e) ?s else Some ?s)
        (read_primary P 0 ?t [Suc a..<4])"
        unfolding a(2) read_primary.simps e Let_def p if_not_P [OF False] ..
      then show ?thesis unfolding s1(1) by simp
    qed
    ultimately show ?thesis using s1(4) sl(3) by auto
  qed
qed

section \<open>Partitions by number\<close>

lemma hd_rw_drv_cases:
  assumes "length (primary (hd_info s)) = PRIM_PER_DRIVE" "length (logical (hd_info s)) = SUB_PER_DRIVE" "n < 256"
  shows "hd_rw_drv P RW buf (of_nat n) lba count s =
    (if n < 5 then map_option Inr (hd_rw P RW buf 0 (part_base (primary (hd_info s) ! n) + lba) count s)
     else if n = 5 then Some (Inl OutOfBounds)
     else if n \<le> 64 then map_option Inr (hd_rw P RW buf 0 (part_base (logical (hd_info s) ! (n - 5)) + lba) count s)
     else Some (Inl Uninitialised))"
proof -
  have u: "unat (of_nat n :: u32) = n" using assms(3) by (simp add: unat_of_nat)
  have "unat (drop_bit 8 (of_nat n :: u32)) = n div 2 ^ 8" unfolding unat_drop_bit_div u ..
  then have "drop_bit 8 (of_nat n :: u32) = 0" using assms(3) by (simp add: unat_eq_zero)
  moreover have "unat ((of_nat n :: u32) AND 0xFF) = n"
  proof -
    have m: "(0xFF :: u32) = mask 8" by (simp add: mask_eq_exp_minus_1)
    have "unat ((of_nat n :: u32) AND mask 8) = unat (of_nat n :: u32) mod 2 ^ 8"
      by (simp only: take_bit_eq_mask [symmetric] unsigned_take_bit_eq take_bit_eq_mod [where 'a = nat])
    then show ?thesis unfolding m u using assms(3) by simp
  qed
  ultimately show ?thesis using assms(1,2)
    by (simp add: hd_rw_drv_def part_of_def Let_def) arith
qed

section \<open>A drive\<close>

text \<open>A device that keeps to the protocol: registers, sectors, and the transfer under way.\<close>

datatype phase = Quiet | Sending nat nat | Taking nat nat

record sim =
  disk :: "nat \<Rightarrow> u8 list"
  regs :: "u16 \<Rightarrow> u8"
  phase :: phase

definition pad :: "u8 list \<Rightarrow> u8 list" where
  "pad bs = take 512 (bs @ replicate 512 0)"

lemma length_pad [simp]: "length (pad bs) = 512"
  by (simp add: pad_def)

lemma pad_full [simp]: "length bs = 512 \<Longrightarrow> pad bs = bs"
  by (simp add: pad_def)

definition step_phase :: "(nat \<Rightarrow> nat \<Rightarrow> phase) \<Rightarrow> nat \<Rightarrow> nat \<Rightarrow> phase" where
  "step_phase c l n = (if n \<le> 1 then Quiet else c (Suc l) (n - 1))"

definition sim_outb :: "u16 \<Rightarrow> u8 \<Rightarrow> sim \<Rightarrow> sim" where
  "sim_outb port v d =
     (if port = HD_REG_STATUS
      then d\<lparr>phase :=
        (let l = lba_of (regs d 0x1F3) (regs d 0x1F4) (regs d 0x1F5) (regs d 0x1F6); n = sector_count (regs d 0x1F2)
         in if v = ATA_READ then Sending l n else if v = ATA_WRITE then Taking l n else Quiet)\<rparr>
      else d\<lparr>regs := (regs d)(port := v)\<rparr>)"

definition sim_ports :: "sim ports" where
  "sim_ports = \<lparr>inb = \<lambda>_ d. (case phase d of Quiet \<Rightarrow> 0x40 | _ \<Rightarrow> HD_STATUS_DRQ, d),
     outb = sim_outb, inl = \<lambda>_ d. (0, d), outl = \<lambda>_ _ d. d,
     insl = \<lambda>_ _ d. (case phase d of Sending l n \<Rightarrow> (pad (disk d l), d\<lparr>phase := step_phase Sending l n\<rparr>)
                       | _ \<Rightarrow> (pad [], d)),
     outsl = \<lambda>_ bs d. (case phase d of
         Taking l n \<Rightarrow> d\<lparr>disk := (disk d)(l := bs), phase := step_phase Taking l n\<rparr> | _ \<Rightarrow> d),
     get_ticks_msg = \<lambda>d. (0, d), recv_interrupt = Some\<rparr>"

definition sim_view :: "sim ata" where
  "sim_view = \<lparr>media = \<lambda>d l. pad (disk d l), idle = \<lambda>d. phase d = Quiet,
     reading = \<lambda>d l n. phase d = Sending l n, writing = \<lambda>d l n. phase d = Taking l n\<rparr>"

lemma sim_is_ata: "ata_drive sim_ports sim_view"
proof -
  have "clock_ok sim_ports sim_view" "status_ok sim_ports sim_view"
    by (auto simp: clock_ok_def status_ok_def sim_ports_def sim_view_def split: phase.splits)
  moreover have "commands_ok sim_ports sim_view"
    by (simp add: commands_ok_def issue_def sim_ports_def sim_view_def sim_outb_def Let_def)
  moreover have "transfers_ok sim_ports sim_view"
    by (auto simp: transfers_ok_def sim_ports_def sim_view_def step_phase_def fun_eq_iff)
  ultimately show ?thesis by (simp add: ata_drive_def sim_view_def)
qed

definition sim_hd :: "sim hd" where
  "sim_hd = init_hd \<lparr>hd_status = 0, hd_buf = replicate 4096 0, hd_info = undefined,
     bus = \<lparr>disk = \<lambda>_. [], regs = \<lambda>_. 0, phase = Quiet\<rparr>\<rparr>"

lemma sim_ready: "hd_ready sim_view sim_hd"
  by (simp add: hd_ready_def sim_view_def sim_hd_def init_hd_def)

section \<open>Properties\<close>

text \<open>
  C16. Reading up to 128 KB from a drive that keeps to the ATA protocol returns exactly the bytes of
  the sectors from the one named, and leaves the disk and the driver ready as they were.
\<close>

theorem hd_read_correct:
  assumes "ata_drive P A" "hd_ready A s" "0 < unat count" "unat count \<le> 256 * 512" "unat lba < 2 ^ 28"
  shows "\<exists>s'. hd_rw P 0 buf 0 lba count s = Some (count, take (unat count)
        (concat (map (media A (bus s)) [unat lba..<unat lba + (unat count + 511) div 512])), s') \<and>
    hd_ready A s' \<and> media A (bus s') = media A (bus s) \<and> hd_info s' = hd_info s"
proof -
  obtain s' where "hd_read P 0 lba count s =
      Some (take (unat count) (stored A (bus s) (unat lba) (ceil_sectors (unat count))), s')"
    "hd_ready A s'" "media A (bus s') = media A (bus s)" "hd_info s' = hd_info s"
    by (rule hd_read_ok [OF assms])
  then show ?thesis by (simp add: hd_rw_def stored_def)
qed

theorem hd_read_correct_witness:
  "\<exists>s'. hd_rw sim_ports 0 [] 0 7 600 sim_hd = Some (600, replicate 600 0, s')"
proof -
  obtain s' where "hd_rw sim_ports 0 [] 0 7 600 sim_hd = Some (600, take (unat (600 :: u32))
        (concat (map (media sim_view (bus sim_hd)) [unat (7 :: u32)..<unat (7 :: u32) + (unat (600 :: u32) + 511) div 512])), s')"
    using hd_read_correct [OF sim_is_ata sim_ready, of 600 7 "[]"] by auto
  moreover have "take (unat (600 :: u32)) (concat (map (media sim_view (bus sim_hd))
      [unat (7 :: u32)..<unat (7 :: u32) + (unat (600 :: u32) + 511) div 512])) = replicate 600 0"
    by (simp add: sim_view_def sim_hd_def init_hd_def pad_def upt_rec replicate_app_Cons_same flip: replicate_add)
  ultimately show ?thesis by simp
qed

text \<open>
  C18. Writing up to 128 KB to a drive that keeps to the ATA protocol puts exactly those bytes over
  the sectors from the one named: the rest of a last sector written in part, and every other
  sector, keep what they held.
\<close>

theorem hd_write_correct:
  assumes "ata_drive P A" "hd_ready A s" "length bs = unat count" "0 < unat count" "unat count \<le> 256 * 512"
    "unat lba + (unat count + 511) div 512 \<le> 2 ^ 28"
  shows "\<exists>s'. hd_rw P 1 bs 0 lba count s = Some (count, bs, s') \<and> hd_ready A s' \<and> hd_info s' = hd_info s \<and>
    (\<forall>k. media A (bus s') k =
       (if unat lba \<le> k \<and> k < unat lba + (unat count + 511) div 512
        then let p = take 512 (drop (512 * (k - unat lba)) bs) in p @ drop (length p) (media A (bus s) k)
        else media A (bus s) k))"
proof -
  obtain s' where "hd_write P bs 0 lba count s = Some s'" "hd_ready A s'"
    "media A (bus s') = written (media A (bus s)) (unat lba) bs" "hd_info s' = hd_info s"
    by (rule hd_write_ok [OF assms(1,2,4,5,6,3)])
  then show ?thesis by (simp add: hd_rw_def written_def over_def piece_def assms(3) Let_def)
qed

theorem hd_write_correct_witness:
  "\<exists>s'. hd_rw sim_ports 1 [1, 2, 3] 0 7 3 sim_hd = Some (3, [1, 2, 3], s') \<and>
     media sim_view (bus s') 7 = [1, 2, 3] @ replicate 509 0 \<and> media sim_view (bus s') 8 = replicate 512 0"
proof -
  obtain s' where s': "hd_rw sim_ports 1 [1, 2, 3] 0 7 3 sim_hd = Some (3, [1, 2, 3], s')"
    "\<forall>k. media sim_view (bus s') k =
       (if unat (7 :: u32) \<le> k \<and> k < unat (7 :: u32) + (unat (3 :: u32) + 511) div 512
        then let p = take 512 (drop (512 * (k - unat (7 :: u32))) [1, 2, 3]) in p @ drop (length p) (media sim_view (bus sim_hd) k)
        else media sim_view (bus sim_hd) k)"
    using hd_write_correct [OF sim_is_ata sim_ready, of "[1, 2, 3]" 3 7] by auto
  have "media sim_view (bus sim_hd) k = replicate 512 0" for k
    by (simp add: sim_view_def sim_hd_def init_hd_def pad_def)
  with s' show ?thesis by (intro exI [of _ s']) (simp add: Let_def)
qed

text \<open>What has been written is read back, also when it does not fill its last sector.\<close>

theorem hd_write_then_read:
  assumes "ata_drive P A" "hd_ready A s" "length bs = unat count" "0 < unat count" "unat count \<le> 256 * 512"
    "unat lba + (unat count + 511) div 512 \<le> 2 ^ 28"
  shows "\<exists>s1 s2. hd_rw P 1 bs 0 lba count s = Some (count, bs, s1) \<and>
    hd_rw P 0 buf 0 lba count s1 = Some (count, bs, s2) \<and> media A (bus s2) = media A (bus s1)"
proof -
  obtain s1 where s1: "hd_write P bs 0 lba count s = Some s1" "hd_ready A s1"
    "media A (bus s1) = written (media A (bus s)) (unat lba) bs" "hd_info s1 = hd_info s"
    by (rule hd_write_ok [OF assms(1,2,4,5,6,3)])
  have "0 < ceil_sectors (unat count)" using assms(4) by (simp add: div_greater_zero_iff)
  then have "unat lba < 2 ^ 28" using assms(6) by simp
  then obtain s2 where s2: "hd_read P 0 lba count s1 =
      Some (take (unat count) (stored A (bus s1) (unat lba) (ceil_sectors (unat count))), s2)"
    "hd_ready A s2" "media A (bus s2) = media A (bus s1)" "hd_info s2 = hd_info s1"
    using hd_read_ok [OF assms(1) s1(2) assms(4,5)] by metis
  have "length (media A (bus s) k) = 512" for k using assms(1) by (simp add: ata_drive_def)
  then have "take (unat count) (stored A (bus s1) (unat lba) (ceil_sectors (unat count))) = bs"
    using stored_written [of "media A (bus s)" bs "ceil_sectors (unat count)" "unat lba"] assms(3)
    by (simp add: stored_def s1(3))
  then show ?thesis using s1(1) s2(1,3) by (auto simp: hd_rw_def)
qed

theorem hd_write_then_read_witness:
  "\<exists>s1 s2. hd_rw sim_ports 1 [1, 2, 3] 0 7 3 sim_hd = Some (3, [1, 2, 3], s1) \<and>
     hd_rw sim_ports 0 [] 0 7 3 s1 = Some (3, [1, 2, 3], s2)"
  using hd_write_then_read [OF sim_is_ata sim_ready, of "[1, 2, 3]" 3 7 "[]"] by auto

text \<open>
  C32. Reading the partition tables of a drive: the slot of every entry of the boot sector's table that
  is in use gets what the entry says, and those of unused entries keep what they held. For an extended
  entry \<open>i\<close>, whose chain of boot records has to lie on the disk and to end, the 16 logical slots from \<open>16 i\<close> on get the
  logical partitions of the first 16 records, each start counted from its own record; the slots beyond the
  end of the chain, and those of the other entries, keep what they held.
\<close>

theorem init_partitions_correct:
  assumes "ata_drive P A" "hd_ready A s" "length (primary (hd_info s)) = PRIM_PER_DRIVE"
    "length (logical (hd_info s)) = SUB_PER_DRIVE" "m = media A (bus s)"
    "\<forall>i < 4. part_kind (m 0) i = HD_PART_TYPE_EXTEND \<longrightarrow>
      boot_records m (part_start (m 0) i) (rs i) \<and> rs i ! 0 = part_start (m 0) i"
  shows "\<exists>s'. init_partitions P 0 s = Some s' \<and> media A (bus s') = m \<and>
    open_cnt (hd_info s') = open_cnt (hd_info s) \<and> primary (hd_info s') ! 0 = primary (hd_info s) ! 0 \<and>
    (\<forall>i < 4. if part_kind (m 0) i = HD_PART_TYPE_NONE
       then primary (hd_info s') ! (i + 1) = primary (hd_info s) ! (i + 1)
       else describes (primary (hd_info s') ! (i + 1)) (m 0) i 0) \<and>
    (\<forall>i < 4. \<forall>j < 16. if part_kind (m 0) i = HD_PART_TYPE_EXTEND \<and> j < length (rs i)
       then describes (logical (hd_info s') ! (16 * i + j)) (m (rs i ! j)) 0 (rs i ! j)
       else logical (hd_info s') ! (16 * i + j) = logical (hd_info s) ! (16 * i + j))"
proof -
  have ext: "part_base (part_entry (m 0) i) = of_nat (part_start (m 0) i)" for i
    by (simp flip: part_entry_bytes(2))
  have lp: "length (ext_parts m i) = min 16 (length (rs i)) \<and>
      (\<forall>j < min 16 (length (rs i)). describes (ext_parts m i ! j) (m (rs i ! j)) 0 (rs i ! j)) \<and>
      chain_in_range m (part_base (part_entry (m 0) i)) 16 (part_base (part_entry (m 0) i))"
    if "i < 4" "part_kind (m 0) i = HD_PART_TYPE_EXTEND" for i
    unfolding ext using logical_parts_records [of m "part_start (m 0) i" "rs i" 16] assms(6) that by simp
  then have cr: "\<forall>i < 4. fsid (part_entry (m 0) i) = HD_PART_TYPE_EXTEND \<longrightarrow>
      chain_in_range m (part_base (part_entry (m 0) i)) SUB_PER_PART (part_base (part_entry (m 0) i))"
    by (simp add: part_entry_bytes)
  obtain s1 where s1: "part_table_read P 0 0 s = Some (map (part_entry (m (unat (0 :: u32)))) [0..<PART_PER_DRIVE], s1)"
    "hd_ready A s1" "media A (bus s1) = m" "hd_info s1 = hd_info s"
    unfolding assms(5) by (rule table_read [OF assms(1,2), of 0]) simp
  have sz: "sized (hd_info s1)" using assms(3,4) s1(4) by (simp add: sized_def)
  obtain s' where s': "read_primary P 0 (map (part_entry (m 0)) [0..<PART_PER_DRIVE]) [0..<4] s1 = Some s'"
    "media A (bus s') = m" "open_cnt (hd_info s') = open_cnt (hd_info s1)"
    "primary (hd_info s') ! 0 = primary (hd_info s) ! 0" "\<forall>i < 4. entry_done m (hd_info s) i (hd_info s')"
    using read_primary_ok [OF assms(1) cr s1(2,3) sz, of 0 "hd_info s"] s1(4) by (auto simp: entry_kept)
  have "if part_kind (m 0) i = HD_PART_TYPE_NONE then primary (hd_info s') ! (i + 1) = primary (hd_info s) ! (i + 1)
      else describes (primary (hd_info s') ! (i + 1)) (m 0) i 0" if "i < 4" for i
    using s'(5) that part_entry_bytes(3) by (simp add: entry_done_def part_entry_bytes(1) Let_def)
  moreover have "if part_kind (m 0) i = HD_PART_TYPE_EXTEND \<and> j < length (rs i)
      then describes (logical (hd_info s') ! (16 * i + j)) (m (rs i ! j)) 0 (rs i ! j)
      else logical (hd_info s') ! (16 * i + j) = logical (hd_info s) ! (16 * i + j)" if "i < 4" "j < 16" for i j
  proof -
    have "entry_done m (hd_info s) i (hd_info s')" using s'(5) that(1) by blast
    then have "logical (hd_info s') ! (16 * i + j) = (if part_kind (m 0) i = HD_PART_TYPE_EXTEND \<and> j < length (ext_parts m i)
        then ext_parts m i ! j else logical (hd_info s) ! (16 * i + j))"
      using that(2) unfolding entry_done_def part_entry_bytes(1) Let_def by blast
    then show ?thesis using lp [OF that(1)] that(2) by auto
  qed
  moreover have "init_partitions P 0 s = Some s'" using s1(1) s'(1) by (simp add: init_partitions_def)
  moreover have "open_cnt (hd_info s') = open_cnt (hd_info s)" using s'(3) s1(4) by simp
  ultimately show ?thesis using s'(2,4) by blast
qed

text \<open>
  A disk with a primary partition in entry 0 and an extended one in entry 2, at sector 100, whose two
  records, at 100 and 140, hold a logical partition each.
\<close>

definition raw_entry :: "u8 \<Rightarrow> u8 \<Rightarrow> u8 \<Rightarrow> u8 list" where
  "raw_entry kind start sectors = [0, 0, 0, 0, kind, 0, 0, 0, start, 0, 0, 0, sectors, 0, 0, 0]"

definition raw_table :: "u8 list list \<Rightarrow> u8 list" where
  "raw_table es = replicate 446 0 @ concat es @ [0x55, 0xAA]"

definition parted_disk :: "nat \<Rightarrow> u8 list" where
  "parted_disk l =
     (if l = 0 then raw_table [raw_entry 0xC 8 90, raw_entry 0 0 0, raw_entry 5 100 80, raw_entry 0 0 0]
      else if l = 100 then raw_table [raw_entry 0xB 2 30, raw_entry 5 40 40, raw_entry 0 0 0, raw_entry 0 0 0]
      else if l = 140 then raw_table [raw_entry 0x83 3 30, raw_entry 0 0 0, raw_entry 0 0 0, raw_entry 0 0 0]
      else replicate 512 0)"

definition parted_hd :: "sim hd" where
  "parted_hd = sim_hd\<lparr>bus := (bus sim_hd)\<lparr>disk := parted_disk\<rparr>\<rparr>"

lemma parted_simps:
  "hd_ready sim_view parted_hd" "media sim_view (bus parted_hd) = parted_disk" "hd_info parted_hd = hd_info sim_hd"
  "length (primary (hd_info sim_hd)) = PRIM_PER_DRIVE" "length (logical (hd_info sim_hd)) = SUB_PER_DRIVE"
  "logical (hd_info sim_hd) ! 34 = no_part"
proof -
  have "length (parted_disk l) = 512" for l
    by (simp add: parted_disk_def raw_table_def raw_entry_def)
  then show "media sim_view (bus parted_hd) = parted_disk"
    by (simp add: fun_eq_iff sim_view_def parted_hd_def)
qed (simp_all add: hd_ready_def sim_view_def parted_hd_def sim_hd_def init_hd_def)

lemma nth_raw_table: "446 \<le> k \<Longrightarrow> raw_table es ! k = (concat es @ [0x55, 0xAA]) ! (k - 446)"
  by (simp add: raw_table_def nth_append)

lemmas table_bytes = part_kind_def part_start_def le32_def le16_def nth_raw_table raw_entry_def

lemma parted_records: "boot_records parted_disk 100 [100, 140]"
  by (simp add: boot_records_Cons parted_disk_def table_bytes)

theorem init_partitions_correct_witness:
  "\<exists>s'. init_partitions sim_ports 0 parted_hd = Some s' \<and>
     describes (primary (hd_info s') ! 1) (parted_disk 0) 0 0 \<and> part_start (parted_disk 0) 0 = 8 \<and>
     part_base (logical (hd_info s') ! 32) = 102 \<and> part_base (logical (hd_info s') ! 33) = 143 \<and>
     logical (hd_info s') ! 34 = no_part"
proof -
  have k: "part_kind (parted_disk 0) 0 = 0xC" "part_kind (parted_disk 0) 1 = 0" "part_kind (parted_disk 0) 2 = 5"
    "part_kind (parted_disk 0) 3 = 0" "part_start (parted_disk 0) 2 = 100"
    by (simp_all add: parted_disk_def table_bytes)
  have "\<forall>i < 4. part_kind (parted_disk 0) i = HD_PART_TYPE_EXTEND \<longrightarrow>
      boot_records parted_disk (part_start (parted_disk 0) i) ((\<lambda>_. [100, 140]) i) \<and>
      (\<lambda>_. [100, 140]) i ! 0 = part_start (parted_disk 0) i"
  proof (intro allI impI)
    fix i :: nat assume i: "i < 4" "part_kind (parted_disk 0) i = HD_PART_TYPE_EXTEND"
    then have "i = 0 \<or> i = 1 \<or> i = 2 \<or> i = 3" by arith
    then have "i = 2" using i(2) k by (elim disjE) simp_all
    then show "boot_records parted_disk (part_start (parted_disk 0) i) ((\<lambda>_. [100, 140]) i) \<and>
        (\<lambda>_. [100, 140]) i ! 0 = part_start (parted_disk 0) i"
      using parted_records k(5) by simp
  qed
  note filled = init_partitions_correct [OF sim_is_ata parted_simps(1) _ _ parted_simps(2) [symmetric] this,
      unfolded parted_simps(3), OF parted_simps(4,5)]
  obtain s' where s':
    "init_partitions sim_ports 0 parted_hd = Some s'"
    "\<forall>i < 4. if part_kind (parted_disk 0) i = HD_PART_TYPE_NONE
       then primary (hd_info s') ! (i + 1) = primary (hd_info sim_hd) ! (i + 1)
       else describes (primary (hd_info s') ! (i + 1)) (parted_disk 0) i 0"
    "\<forall>i < 4. \<forall>j < 16. if part_kind (parted_disk 0) i = HD_PART_TYPE_EXTEND \<and> j < length [100, 140 :: nat]
       then describes (logical (hd_info s') ! (16 * i + j)) (parted_disk ([100, 140] ! j)) 0 ([100, 140] ! j)
       else logical (hd_info s') ! (16 * i + j) = logical (hd_info sim_hd) ! (16 * i + j)"
    using filled by blast
  have "describes (primary (hd_info s') ! 1) (parted_disk 0) 0 0"
    using s'(2) [rule_format, of 0] k(1) by simp
  moreover have d: "describes (logical (hd_info s') ! 32) (parted_disk 100) 0 100"
      "describes (logical (hd_info s') ! 33) (parted_disk 140) 0 140"
    using s'(3) [rule_format, of 2 0] s'(3) [rule_format, of 2 1] k(3) by simp_all
  moreover have "part_start (parted_disk 0) 0 = 8" "part_start (parted_disk 100) 0 = 2" "part_start (parted_disk 140) 0 = 3"
    by (simp_all add: parted_disk_def table_bytes)
  ultimately have "unat (part_base (logical (hd_info s') ! 32)) = 102" "unat (part_base (logical (hd_info s') ! 33)) = 143"
    by (simp_all add: describes_def)
  then have "part_base (logical (hd_info s') ! 32) = 102" "part_base (logical (hd_info s') ! 33) = 143"
    by (simp_all only: word_unat_eq_iff) simp_all
  moreover have "logical (hd_info s') ! 34 = no_part"
    using s'(3) [rule_format, of 2 2] by (simp add: parted_simps(6))
  ultimately show ?thesis
    using s'(1) \<open>describes (primary (hd_info s') ! 1) (parted_disk 0) 0 0\<close> \<open>part_start (parted_disk 0) 0 = 8\<close> by blast
qed

text \<open>
  The request of a drive number in the array of primary partitions goes to the sector counted
  from the partition's start; number 5 indexes that array beyond its end, so that the first logical
  partition cannot be reached, and no number reaches the last four.
\<close>

theorem hd_rw_drv_partition:
  assumes "length (primary (hd_info s)) = PRIM_PER_DRIVE" "length (logical (hd_info s)) = SUB_PER_DRIVE" "n < 256"
  shows "hd_rw_drv P RW buf (of_nat n) lba count s =
    (if n < 5 then map_option Inr (hd_rw P RW buf 0 (part_base (primary (hd_info s) ! n) + lba) count s)
     else if n = 5 then Some (Inl OutOfBounds)
     else if n \<le> 64 then map_option Inr (hd_rw P RW buf 0 (part_base (logical (hd_info s) ! (n - 5)) + lba) count s)
     else Some (Inl Uninitialised))"
  by (rule hd_rw_drv_cases [OF assms])

theorem hd_rw_drv_partition_witness:
  "hd_rw_drv sim_ports 0 [] (of_nat 5) 0 512 sim_hd = Some (Inl OutOfBounds)"
  using hd_rw_drv_partition [of sim_hd 5 sim_ports 0 "[]" 0 512] by (simp add: sim_hd_def init_hd_def)

text \<open>The second drive is looked for in an array of one, whatever the devices answer.\<close>

lemma Task_HD_leaves_the_array: "Task_HD P s = None \<or> Task_HD P s = Some (Inl OutOfBounds)"
proof -
  have "hd_identify P 1 s = None \<or> hd_identify P 1 s = Some (Inl OutOfBounds)" for s
    by (cases "HD_send_command P (HD_make_command 0 0 (ucast (1 :: u32)) 0 ATA_IDENTIFY) (bus s)")
      (auto simp: hd_identify_def Let_def split: prod.splits option.splits bind_splits)
  moreover have "hd_identify P 0 s = None \<or> (\<exists>s'. hd_identify P 0 s = Some (Inr s'))" for s
    by (cases "HD_send_command P (HD_make_command 0 0 (ucast (0 :: u32)) 0 ATA_IDENTIFY) (bus s)")
      (auto simp: hd_identify_def Let_def split: prod.splits option.splits bind_splits)
  ultimately show ?thesis unfolding Task_HD_def by (metis bind.bind_lunit bind.bind_lzero sum.simps(6))
qed

end
