(* ===== verification/Fs_Props.thy ===== *)
theory Fs_Props
  imports Fs Hd_Props
begin

text \<open>
  Reading files of a FAT32 volume. The disk is seen as its sectors, the file as the clusters that the
  allocation table chains; the results say which bytes of it a read delivers.
\<close>

section \<open>The disk\<close>

definition serves :: "reader \<Rightarrow> u16 \<Rightarrow> nat \<Rightarrow> (u32 \<Rightarrow> u8 list) \<Rightarrow> bool" where
  "serves rd drv lim dk \<longleftrightarrow> (\<forall>l. unat l < lim \<longrightarrow> length (dk l) = 512 \<and>
     (\<forall>n. 0 < n \<longrightarrow> n \<le> 512 \<longrightarrow> rd drv l n = take n (dk l)))"

lemma servesD:
  assumes "serves rd drv lim dk" "unat l < lim"
  shows "length (dk l) = 512" "0 < n \<Longrightarrow> n \<le> 512 \<Longrightarrow> rd drv l n = take n (dk l)"
  using assms by (simp_all add: serves_def)

text \<open>
  The volume as the FAT32 specification places it: cluster 2 is the first, an entry of the table takes
  four bytes, of which 28 bits count.
\<close>

definition first_sector :: "FAT32_FileSystem \<Rightarrow> u32 \<Rightarrow> u32" where
  "first_sector fs n = FirstDataClus fs + (n - 2) * SecPerClus fs"

definition clus_bytes :: "(u32 \<Rightarrow> u8 list) \<Rightarrow> FAT32_FileSystem \<Rightarrow> u32 \<Rightarrow> u8 list" where
  "clus_bytes dk fs n = concat (map (\<lambda>i. dk (first_sector fs n + of_nat i)) [0..<unat (SecPerClus fs)])"

definition fat_entry :: "(u32 \<Rightarrow> u8 list) \<Rightarrow> FAT32_FileSystem \<Rightarrow> u32 \<Rightarrow> u32" where
  "fat_entry dk fs n =
     dword_of (dk (FATstartSct fs + of_nat (4 * unat n div 512))) (4 * unat n mod 512) AND 0x0FFFFFFF"

definition volume_ok :: "FAT32_FileSystem \<Rightarrow> bool" where
  "volume_ok fs \<longleftrightarrow> RootClus fs = 2 \<and> 0 < unat (SecPerClus fs) \<and> unat (SecPerClus fs) \<le> 255"

definition clus_on_disk :: "nat \<Rightarrow> FAT32_FileSystem \<Rightarrow> u32 \<Rightarrow> bool" where
  "clus_on_disk lim fs n \<longleftrightarrow> unat (FATstartSct fs + n div 128) < lim \<and>
     (\<forall>i < unat (SecPerClus fs). unat (first_sector fs n + of_nat i) < lim)"

fun linked :: "('a \<Rightarrow> 'a) \<Rightarrow> 'a list \<Rightarrow> bool" where
  "linked nx (a # b # r) \<longleftrightarrow> nx a = b \<and> linked nx (b # r)"
| "linked nx _ \<longleftrightarrow> True"

lemma linked_nth: "linked nx cs \<Longrightarrow> Suc i < length cs \<Longrightarrow> nx (cs ! i) = cs ! Suc i"
proof (induction nx cs arbitrary: i rule: linked.induct)
  case (1 nx a b r)
  then show ?case by (cases i) auto
qed auto

lemma linked_drop: "linked nx cs \<Longrightarrow> linked nx (drop i cs)"
proof (induction i arbitrary: cs)
  case (Suc i)
  then show ?case by (cases cs; cases "tl cs") auto
qed simp

lemma get_next_ok:
  assumes "serves rd (fs_drv fs) lim dk" "clus_on_disk lim fs n"
  shows "get_next_clus_in_FAT rd fs n = fat_entry dk fs n"
proof -
  have q: "unat (n div 128) = unat n div 128" by (simp add: unat_div)
  have "unat (n - 128 * (n div 128)) = unat n mod 128"
    by (simp add: minus_mult_div_eq_mod unat_mod)
  moreover have "n div 128 = of_nat (4 * unat n div 512)"
  proof (rule unsigned_word_eqI)
    have q: "4 * unat n div 512 = unat n div 128" by simp
    moreover have "unat n div 128 < 2 ^ 32" using unat_lt32 [of n] by simp
    ultimately have "unat (of_nat (4 * unat n div 512) :: u32) = unat n div 128" by (simp only: unat_of_nat32)
    then show "unat (n div 128) = unat (of_nat (4 * unat n div 512) :: u32)" by (simp add: unat_div)
  qed
  moreover have "4 * unat n mod 512 = 4 * (unat n mod 128)" using mult_mod_right [of 4 "unat n" 128] by simp
  moreover have "rd (fs_drv fs) (FATstartSct fs + n div 128) 512 = dk (FATstartSct fs + n div 128)"
    using servesD [OF assms(1), of "FATstartSct fs + n div 128"] assms(2) by (simp add: clus_on_disk_def)
  ultimately show ?thesis by (simp add: get_next_clus_in_FAT_def fat_entry_def Let_def)
qed

section \<open>Sectors of a file\<close>

lemma drop_concat_sectors:
  assumes "\<And>k. k < m \<Longrightarrow> length (f k) = 512" "i \<le> m"
  shows "drop (512 * i) (concat (map f [0..<m])) = concat (map f [i..<m])"
  using assms
proof (induction m)
  case (Suc m)
  have l: "length (concat (map f [0..<k])) = 512 * k" if "k \<le> m" for k
    using that Suc.prems(1) by (induction k) simp_all
  show ?case
  proof (cases "i = Suc m")
    case True
    then show ?thesis using l [of m] Suc.prems(1) [of m] by simp
  next
    case False
    then show ?thesis using Suc l [of m] by simp
  qed
qed simp

lemma spc:
  assumes "volume_ok fs"
  shows "0 < unat (SecPerClus fs)" "unat (SecPerClus fs) \<le> 255" "CLUS2SECTOR fs n = first_sector fs n"
  using assms by (simp_all add: volume_ok_def CLUS2SECTOR_def first_sector_def)

lemma sector_length: "serves rd drv lim dk \<Longrightarrow> clus_on_disk lim fs n \<Longrightarrow> i < unat (SecPerClus fs) \<Longrightarrow> length (dk (first_sector fs n + of_nat i)) = 512"
  using servesD(1) by (simp add: clus_on_disk_def)

lemma length_clus_bytes:
  assumes "serves rd drv lim dk" "clus_on_disk lim fs n"
  shows "length (clus_bytes dk fs n) = 512 * unat (SecPerClus fs)"
proof -
  have "length (concat (map (\<lambda>i. dk (first_sector fs n + of_nat i)) [0..<m])) = 512 * m" if "m \<le> unat (SecPerClus fs)" for m
    using that sector_length [OF assms] by (induction m) simp_all
  then show ?thesis by (simp add: clus_bytes_def)
qed

lemma drop_clus_bytes:
  assumes "serves rd drv lim dk" "clus_on_disk lim fs n" "i < unat (SecPerClus fs)"
  shows "drop (512 * i) (clus_bytes dk fs n) =
    dk (first_sector fs n + of_nat i) @ drop (512 * Suc i) (clus_bytes dk fs n)"
  using drop_concat_sectors [of "unat (SecPerClus fs)" "\<lambda>i. dk (first_sector fs n + of_nat i)" i]
    drop_concat_sectors [of "unat (SecPerClus fs)" "\<lambda>i. dk (first_sector fs n + of_nat i)" "Suc i"]
    sector_length [OF assms(1,2)] assms(3)
  by (simp only: clus_bytes_def upt_conv_Cons [OF assms(3)]) simp

lemma BytesPerClus_unat: "volume_ok fs \<Longrightarrow> unat (512 * SecPerClus fs) = 512 * unat (SecPerClus fs)"
  using spc(2) [of fs] by (subst unat_mult_lem [THEN iffD1]) simp_all

lemma read_on_ok:
  assumes sv: "serves rd (fs_drv fs) lim dk" and vol: "volume_ok fs"
  shows "\<lbrakk>linked (fat_entry dk fs) (n # r); \<forall>c \<in> set (n # r). clus_on_disk lim fs c; i < unat (SecPerClus fs);
    512 * i + unat sz \<le> length (concat (map (clus_bytes dk fs) (n # r)))\<rbrakk> \<Longrightarrow>
   read_on rd fs (512 * SecPerClus fs) n (of_nat (512 * i)) sz =
     take (unat sz) (drop (512 * i) (concat (map (clus_bytes dk fs) (n # r))))"
proof (induction "unat sz" arbitrary: n r i sz rule: less_induct)
  case less
  let ?cb = "clus_bytes dk fs"
  note spc = spc [OF vol] and BytesPerClus_unat = BytesPerClus_unat [OF vol]
    and drop_clus_bytes = drop_clus_bytes [OF sv] and [simp] = length_clus_bytes [OF sv]
  have on: "clus_on_disk lim fs n" using less.prems(2) by simp
  have pu: "unat (of_nat (512 * i) :: u32) = 512 * i" using less.prems(3) spc(2) by (intro unat_of_nat32) simp
  have p: "(of_nat (512 * i) :: u32) div 512 = of_nat i"
  proof -
    have "unat ((of_nat (512 * i) :: u32) div 512) = unat (of_nat i :: u32)"
      using less.prems(3) spc(2) unfolding unat_div pu by (subst unat_of_nat32) simp_all
    then show ?thesis by (rule unsigned_word_eqI)
  qed
  have sec: "unat (first_sector fs n + of_nat i) < lim" using on less.prems(3) by (simp add: clus_on_disk_def)
  have d: "drop (512 * i) (concat (map ?cb (n # r))) =
      dk (first_sector fs n + of_nat i) @ drop (512 * Suc i) (?cb n) @ concat (map ?cb r)"
    using drop_clus_bytes [OF on less.prems(3)] less.prems(3) on by simp
  have dl: "length (dk (first_sector fs n + of_nat i)) = 512" by (rule servesD(1) [OF sv sec])
  have rd: "rd (fs_drv fs) (CLUS2SECTOR fs n + (of_nat (512 * i) :: u32) div 512) k = take k (dk (first_sector fs n + of_nat i))"
    if "0 < k" "k \<le> 512" for k
    unfolding p spc(3) by (rule servesD(2) [OF sv sec that])
  show ?case
  proof (cases "512 < sz")
    case False
    then have k: "unat sz \<le> 512" by (simp add: word_less_nat_alt)
    show ?thesis
    proof (cases "sz = 0")
      case True
      then show ?thesis by (simp add: read_on.simps [of rd fs _ n _ 0])
    next
      case nz: False
      then have "0 < unat sz" by (simp add: unat_gt_0)
      then show ?thesis unfolding d using False nz k rd [of "unat sz"] dl
        by (simp add: read_on.simps [of rd fs _ n _ sz] del: of_nat_mult)
    qed
  next
    case True
    have big: "512 < unat sz" using True by (simp add: word_less_nat_alt)
    have szm: "unat (sz - 512) = unat sz - 512" using big by (simp add: unat_sub word_le_nat_alt)
    have nxt: "(of_nat (512 * i) :: u32) + 512 = of_nat (512 * Suc i)" by simp
    have nu: "unat (of_nat (512 * Suc i) :: u32) = 512 * Suc i" using less.prems(3) spc(2) by (intro unat_of_nat32) simp
    have cmp: "512 * SecPerClus fs \<le> of_nat (512 * Suc i) \<longleftrightarrow> unat (SecPerClus fs) \<le> Suc i"
      by (simp add: word_le_nat_alt nu BytesPerClus_unat del: of_nat_mult of_nat_Suc mult_Suc_right)
    have step: "read_on rd fs (512 * SecPerClus fs) n (of_nat (512 * i)) sz = dk (first_sector fs n + of_nat i) @
        (if unat (SecPerClus fs) \<le> Suc i then read_on rd fs (512 * SecPerClus fs) (get_next_clus_in_FAT rd fs n) 0 (sz - 512)
         else read_on rd fs (512 * SecPerClus fs) n (of_nat (512 * Suc i)) (sz - 512))"
      unfolding read_on.simps [of rd fs _ n _ sz] Let_def nxt cmp using True rd [of 512] dl
      by (simp del: of_nat_mult of_nat_Suc mult_Suc_right)
    show ?thesis
    proof (cases "unat (SecPerClus fs) \<le> Suc i")
      case True
      then have e: "unat (SecPerClus fs) = Suc i" using less.prems(3) by simp
      have "r \<noteq> []" using less.prems(4) big on e by auto
      then obtain n' r' where r: "r = n' # r'" by (cases r) auto
      have n': "get_next_clus_in_FAT rd fs n = n'" using get_next_ok [OF sv on] less.prems(1) r by simp
      have "read_on rd fs (512 * SecPerClus fs) n' (of_nat (512 * 0)) (sz - 512) =
          take (unat (sz - 512)) (drop (512 * 0) (concat (map ?cb (n' # r'))))"
        by (rule less.hyps) (use less.prems spc(1) r szm big on e in auto)
      then show ?thesis unfolding step d using True n' r szm big dl on e by simp
    next
      case False
      have "read_on rd fs (512 * SecPerClus fs) n (of_nat (512 * Suc i)) (sz - 512) =
          take (unat (sz - 512)) (drop (512 * Suc i) (concat (map ?cb (n # r))))"
        by (rule less.hyps) (use less.prems False szm big in auto)
      moreover have "drop (512 * Suc i) (concat (map ?cb (n # r))) = drop (512 * Suc i) (?cb n) @ concat (map ?cb r)"
        using False on by simp
      ultimately show ?thesis unfolding step d using False szm big dl by simp
    qed
  qed
qed

text \<open>The loop that walks to the cluster of an offset.\<close>

lemma seek_clus_ok:
  assumes sv: "serves rd (fs_drv fs) lim dk" and vol: "volume_ok fs"
    and cs: "linked (fat_entry dk fs) cs" "\<forall>c \<in> set cs. clus_on_disk lim fs c"
    and B: "B = 512 * unat (SecPerClus fs)" and k: "unat off div B < length cs" and lt: "unat off + B < 2 ^ 32"
  shows "j \<le> unat off div B \<Longrightarrow>
    seek_clus rd fs (512 * SecPerClus fs) off (of_nat (B * Suc j)) (cs ! j) = Some (cs ! (unat off div B))"
proof (induction "unat off div B - j" arbitrary: j)
  have B0: "0 < B" using spc(1) [OF vol] B by simp
  have le: "B * (unat off div B) \<le> unat off" by (rule times_div_less_eq_dividend)
  have pu: "unat (of_nat (B * Suc j) :: u32) = B * Suc j" if "j \<le> unat off div B" for j
  proof -
    have "B * j \<le> B * (unat off div B)" using that by simp
    moreover have "B * Suc j = B * j + B" by simp
    ultimately have "B * Suc j < 2 ^ 32" using le lt by linarith
    then show ?thesis by (rule unat_of_nat32)
  qed
  {
    case 0
    then have j: "j = unat off div B" by simp
    have "\<not> (of_nat (B * Suc j) :: u32) \<le> off"
      using dividend_less_times_div [OF B0, of "unat off"] 0(2) pu [of j] j
      by (simp add: word_le_nat_alt del: of_nat_mult of_nat_Suc)
    then show ?case by (subst seek_clus.simps) (simp add: j del: of_nat_mult of_nat_Suc mult_Suc_right)
  next
    case (Suc d)
    then have j: "j < unat off div B" by simp
    then have "B * Suc j \<le> B * (unat off div B)" by (intro mult_le_mono2) simp
    then have "B * Suc j \<le> unat off" using le by (rule order_trans)
    then have "(of_nat (B * Suc j) :: u32) \<le> off" unfolding word_le_nat_alt pu [OF Suc.prems] .
    moreover have "get_next_clus_in_FAT rd fs (cs ! j) = cs ! Suc j"
      using get_next_ok [OF sv] cs linked_nth [OF cs(1), of j] j k by simp
    moreover have "(of_nat (B * Suc j) :: u32) + 512 * SecPerClus fs = of_nat (B * Suc (Suc j))"
      by (simp add: B algebra_simps)
    moreover have "seek_clus rd fs (512 * SecPerClus fs) off (of_nat (B * Suc (Suc j))) (cs ! Suc j) = Some (cs ! (unat off div B))"
      using Suc.hyps(2) j by (intro Suc.hyps(1)) simp_all
    ultimately show ?case by (subst seek_clus.simps) (simp del: of_nat_mult of_nat_Suc mult_Suc_right)
  }
qed

definition file_bytes :: "(u32 \<Rightarrow> u8 list) \<Rightarrow> FAT32_FileSystem \<Rightarrow> u32 list \<Rightarrow> u8 list" where
  "file_bytes dk fs cs = concat (map (clus_bytes dk fs) cs)"

text \<open>A file whose bytes lie in the clusters \<open>cs\<close>, and an offset within it.\<close>

definition file_on :: "nat \<Rightarrow> (u32 \<Rightarrow> u8 list) \<Rightarrow> FAT32_FileSystem \<Rightarrow> fs_file_info \<Rightarrow> u32 list \<Rightarrow> bool" where
  "file_on lim dk fs fi cs \<longleftrightarrow> linked (fat_entry dk fs) cs \<and> (\<forall>c \<in> set cs. clus_on_disk lim fs c) \<and>
     cs \<noteq> [] \<and> clus fi = cs ! 0 \<and> unat (filesize fi) \<le> 512 * unat (SecPerClus fs) * length cs"

lemma length_file_bytes:
  assumes "serves rd drv lim dk" "\<forall>c \<in> set cs. clus_on_disk lim fs c"
  shows "length (file_bytes dk fs cs) = 512 * unat (SecPerClus fs) * length cs"
  using assms(2) by (induction cs) (simp_all add: file_bytes_def length_clus_bytes [OF assms(1)])

lemma drop_file_bytes:
  assumes "serves rd drv lim dk" "\<forall>c \<in> set cs. clus_on_disk lim fs c"
  shows "drop (512 * unat (SecPerClus fs) * k) (file_bytes dk fs cs) = file_bytes dk fs (drop k cs)"
  using assms(2)
proof (induction cs arbitrary: k)
  case (Cons c cs)
  then show ?case
    by (cases k) (simp_all add: file_bytes_def length_clus_bytes [OF assms(1)])
qed (simp add: file_bytes_def)

lemma unat_inverse32: "of_nat (unat w) = (w :: u32)"
  by simp

lemma unat_mod_eq: "unat (a mod b :: u32) = unat a mod unat b"
  by (simp add: unat_mod)

lemma unat_min: "unat (min a b :: u32) = min (unat a) (unat b)"
  by (simp add: min_def word_le_nat_alt)

text \<open>
  What a read stores, in general: the first bytes, up to the end of their sector, come from the first
  sector of the cluster of the offset.
\<close>

lemma read_file_bytes:
  assumes sv: "serves rd (fs_drv fs) lim dk" and vol: "volume_ok fs" and fo: "file_on lim dk fs fi cs"
    and off: "unat off < unat (filesize fi)"
    and B: "B = 512 * unat (SecPerClus fs)" and lt: "unat off + B < 2 ^ 32" "unat off + unat count < 2 ^ 32"
    and n: "n = min (unat count) (unat (filesize fi) - unat off)"
    and s: "s = (if unat off mod 512 \<noteq> 0 then min (512 - unat off mod 512) n else 0)"
  shows "read_file rd fs fi off count = Some (of_nat n,
    (if unat off mod 512 \<noteq> 0
     then take s (drop (unat off mod 512) (dk (first_sector fs (cs ! (unat off div B))))) else []) @
    take (n - s) (drop (unat off + s) (file_bytes dk fs cs)))"
proof -
  note spc = spc [OF vol] and Bu = BytesPerClus_unat [OF vol, folded B]
  have cs: "linked (fat_entry dk fs) cs" "\<forall>c \<in> set cs. clus_on_disk lim fs c" "cs \<noteq> []" "clus fi = cs ! 0"
    "unat (filesize fi) \<le> B * length cs"
    using fo by (simp_all add: file_on_def B)
  have B0: "0 < B" "512 dvd B" using spc(1) B by simp_all
  let ?k = "unat off div B" and ?m = "unat off mod B" and ?F = "file_bytes dk fs cs"
  have k: "?k < length cs" using off cs(5) B0(1) by (simp add: less_mult_imp_div_less mult.commute)
  have mm: "?m mod 512 = unat off mod 512" using B0(2) by (rule mod_mod_cancel)
  have "seek_clus rd fs (512 * SecPerClus fs) off (of_nat (B * Suc 0)) (cs ! 0) = Some (cs ! ?k)"
    by (rule seek_clus_ok [OF sv vol cs(1,2) B k lt(1)]) simp
  then have seek: "seek_clus rd fs (512 * SecPerClus fs) off (512 * SecPerClus fs) (clus fi) = Some (cs ! ?k)"
    unfolding cs(4) by (simp add: B)
  define sz where "sz = (if filesize fi < off + count then filesize fi - off else count)"
  have "unat (off + count) = unat off + unat count" using lt(2) by (simp add: unat_add_lem [THEN iffD1])
  then have szu: "unat sz = n" using off by (auto simp: sz_def n word_less_nat_alt unat_sub word_le_nat_alt)
  then have szn: "sz = of_nat n" by (metis unat_inverse32)
  let ?p = "off mod (512 * SecPerClus fs)"
  have pu: "unat ?p = ?m" by (simp only: unat_mod_eq Bu)
  have pm: "unat (?p mod 512) = unat off mod 512"
    using unat_mod_eq [of ?p 512] unfolding pu by (simp add: mm)
  then have pz: "?p mod 512 \<noteq> 0 \<longleftrightarrow> unat off mod 512 \<noteq> 0" by (metis unat_eq_zero)
  define s' where "s' = (if ?p mod 512 \<noteq> 0 then min (512 - ?p mod 512) sz else 0)"
  have "unat (512 - ?p mod 512) = 512 - unat off mod 512"
    by (subst unat_sub) (simp_all add: pm word_le_nat_alt less_imp_le)
  then have su: "unat s' = s" unfolding s'_def s by (simp only: pz if_distrib [of unat] unat_min szu) simp
  have sn: "s \<le> n" by (simp add: s)
  have ru: "unat (sz - s') = n - s" using sn by (subst unat_sub) (simp_all add: word_le_nat_alt su szu)
  have room: "?m + s \<le> B"
  proof (cases "unat off mod 512 = 0")
    case True
    then show ?thesis using B0(1) by (simp add: s less_imp_le)
  next
    case False
    have "?m < unat (SecPerClus fs) * 512" using B0(1) unfolding B by (simp add: mult.commute)
    then have "?m div 512 < unat (SecPerClus fs)" by (rule less_mult_imp_div_less)
    then have "512 * (?m div 512) + 512 \<le> B" unfolding B by simp
    moreover have "?m = 512 * (?m div 512) + unat off mod 512" using mm mult_div_mod_eq [of 512 ?m] by simp
    ultimately show ?thesis using False by (simp add: s)
  qed
  have ps: "unat (?p + s') = ?m + s"
  proof -
    have "unat ?p + unat s' < 2 ^ 32" using room lt(1) unfolding pu su by simp
    then show ?thesis using pu su by (simp add: unat_add_lem [THEN iffD1])
  qed
  have full: "?p + s' = 512 * SecPerClus fs \<longleftrightarrow> ?m + s = B"
    unfolding word_unat_eq_iff ps Bu ..
  have hd_read: "rd (fs_drv fs) (CLUS2SECTOR fs (cs ! ?k)) 512 = dk (first_sector fs (cs ! ?k))"
  proof -
    have "\<forall>i < unat (SecPerClus fs). unat (first_sector fs (cs ! ?k) + of_nat i) < lim"
      using cs(2) k by (simp add: clus_on_disk_def)
    from this [rule_format, OF spc(1)] have l: "unat (first_sector fs (cs ! ?k)) < lim" by simp
    show ?thesis using servesD [OF sv l] by (simp add: spc(3))
  qed
  define h where "h = (if unat off mod 512 \<noteq> 0
     then take s (drop (unat off mod 512) (dk (first_sector fs (cs ! ?k)))) else [])"
  have offs: "B * ?k + ?m = unat off" by simp
  have dF: "drop (unat off + s) ?F = drop (?m + s) (file_bytes dk fs (drop ?k cs))"
  proof -
    have "drop (unat off + s) ?F = drop (?m + s) (drop (B * ?k) ?F)" using offs by (simp add: add.commute add.left_commute)
    then show ?thesis unfolding B drop_file_bytes [OF sv cs(2)] .
  qed
  have dk: "drop ?k cs = cs ! ?k # drop (Suc ?k) cs" using k by (simp add: Cons_nth_drop_Suc)
  have lnk: "linked (fat_entry dk fs) (drop ?k cs)" "linked (fat_entry dk fs) (drop (Suc ?k) cs)"
    using cs(1) by (rule linked_drop)+
  have ons: "\<forall>c \<in> set (drop j cs). clus_on_disk lim fs c" for j
    using cs(2) by (auto dest: in_set_dropD)
  have lenk: "length (file_bytes dk fs (drop j cs)) = B * (length cs - j)" for j
    using length_file_bytes [OF sv ons [of j]] by (simp add: B)
  have nF: "unat off + n \<le> B * length cs" using off cs(5) by (simp add: n)
  have rest: "(if ?m + s = B
      then read_on rd fs (512 * SecPerClus fs) (get_next_clus_in_FAT rd fs (cs ! ?k)) 0 (sz - s')
      else read_on rd fs (512 * SecPerClus fs) (cs ! ?k) (?p + s') (sz - s')) =
      take (n - s) (drop (unat off + s) ?F)" if "n - s \<noteq> 0"
  proof (cases "?m + s = B")
    case True
    have "B * Suc ?k = B * ?k + ?m + s" using True unfolding mult_Suc_right by linarith
    then have "B * Suc ?k < B * length cs" using nF offs that by linarith
    then have j: "Suc ?k < length cs" by (simp only: nat_mult_less_cancel1 [OF B0(1)])
    have nx: "get_next_clus_in_FAT rd fs (cs ! ?k) = cs ! Suc ?k"
      using get_next_ok [OF sv] cs(2) linked_nth [OF cs(1) j] k by simp
    have d: "drop (Suc ?k) cs = cs ! Suc ?k # drop (Suc (Suc ?k)) cs" using j by (simp add: Cons_nth_drop_Suc)
    have "512 * 0 + unat (sz - s') \<le> length (file_bytes dk fs (drop (Suc ?k) cs))"
    proof -
      have "B * Suc ?k + (n - s) \<le> B * length cs" using \<open>B * Suc ?k = B * ?k + ?m + s\<close> nF offs sn by linarith
      then show ?thesis unfolding lenk ru diff_mult_distrib2 by linarith
    qed
    from read_on_ok [OF sv vol lnk(2) [unfolded d] ons [of "Suc ?k", unfolded d] spc(1) this [unfolded file_bytes_def d]]
    have "read_on rd fs (512 * SecPerClus fs) (cs ! Suc ?k) 0 (sz - s') = take (n - s) (file_bytes dk fs (drop (Suc ?k) cs))"
      by (simp add: ru file_bytes_def d)
    moreover have "drop (?m + s) (file_bytes dk fs (drop ?k cs)) = file_bytes dk fs (drop (Suc ?k) cs)"
      using drop_file_bytes [OF sv ons [of ?k], of 1] True B by (simp add: drop_Suc)
    ultimately show ?thesis using True dF nx by simp
  next
    case False
    have "512 dvd ?m + s"
    proof (cases "unat off mod 512 = 0")
      case True
      then show ?thesis using mm by (simp add: s dvd_eq_mod_eq_0)
    next
      case nz: False
      then have e: "s = 512 - ?m mod 512" using that unfolding s mm by auto
      have r: "x + (512 - x mod 512) = 512 * Suc (x div 512)" for x :: nat
      proof -
        have "x mod 512 < 512" "512 * (x div 512) + x mod 512 = x" by simp_all
        then show ?thesis unfolding mult_Suc_right by linarith
      qed
      have "?m + s = 512 * Suc (?m div 512)" unfolding e by (rule r)
      then show ?thesis by simp
    qed
    then obtain i where i: "?m + s = 512 * i" by (elim dvdE)
    then have ii: "i < unat (SecPerClus fs)" using room False B by simp
    have pi: "?p + s' = of_nat (512 * i)" using ps unfolding i by (metis unat_inverse32)
    have "512 * i + unat (sz - s') \<le> length (file_bytes dk fs (drop ?k cs))"
    proof -
      have "B * ?k + (512 * i + (n - s)) \<le> B * length cs" using nF offs sn i by linarith
      then show ?thesis unfolding lenk ru diff_mult_distrib2 by linarith
    qed
    from read_on_ok [OF sv vol lnk(1) [unfolded dk] ons [of ?k, unfolded dk] ii this [unfolded file_bytes_def dk]]
    show ?thesis using False dF i unfolding pi by (simp add: ru file_bytes_def dk del: of_nat_mult)
  qed
  have "read_file rd fs fi off count = Some (sz,
      h @ (if sz - s' = 0 then []
           else if ?m + s = B
           then read_on rd fs (512 * SecPerClus fs) (get_next_clus_in_FAT rd fs (cs ! ?k)) 0 (sz - s')
           else read_on rd fs (512 * SecPerClus fs) (cs ! ?k) (?p + s') (sz - s')))"
    unfolding read_file_def Let_def seek sz_def [symmetric] s'_def [symmetric] option.map full hd_read
    by (simp add: h_def pz pm su slice_def)
  moreover have "sz - s' = 0 \<longleftrightarrow> n - s = 0" by (metis ru unat_eq_zero)
  ultimately show ?thesis using rest szn unfolding h_def by simp
qed

text \<open>The bytes of a file within a sector are those of the sector of its offset.\<close>

lemma sector_of_offset:
  assumes sv: "serves rd drv lim dk" and vol: "volume_ok fs" and fo: "file_on lim dk fs fi cs"
    and off: "off < unat (filesize fi)" and B: "B = 512 * unat (SecPerClus fs)" and s: "s \<le> 512 - off mod 512"
  shows "take s (drop off (file_bytes dk fs cs)) =
    take s (drop (off mod 512) (dk (first_sector fs (cs ! (off div B)) + of_nat (off mod B div 512))))"
proof -
  have B0: "0 < B" "512 dvd B" using spc(1) [OF vol] B by simp_all
  have cs: "\<forall>c \<in> set cs. clus_on_disk lim fs c" "unat (filesize fi) \<le> B * length cs"
    using fo by (simp_all add: file_on_def B)
  let ?k = "off div B" and ?i = "off mod B div 512"
  have k: "?k < length cs" using off cs(2) B0(1) by (simp add: less_mult_imp_div_less mult.commute)
  then have on: "clus_on_disk lim fs (cs ! ?k)" using cs(1) by simp
  have "off mod B < unat (SecPerClus fs) * 512" using B0(1) unfolding B by (simp add: mult.commute)
  then have i: "?i < unat (SecPerClus fs)" by (rule less_mult_imp_div_less)
  have mm: "off mod B mod 512 = off mod 512" using B0(2) by (rule mod_mod_cancel)
  have "512 * ?i + off mod 512 = off mod B" unfolding mm [symmetric] by simp
  then have o: "off = off mod 512 + (512 * ?i + B * ?k)" using mod_mult_div_eq [of off B] by linarith
  have "drop off (file_bytes dk fs cs) = drop (off mod 512) (drop (512 * ?i) (drop (B * ?k) (file_bytes dk fs cs)))"
    by (simp only: drop_drop o [symmetric])
  also have "drop (B * ?k) (file_bytes dk fs cs) = clus_bytes dk fs (cs ! ?k) @ file_bytes dk fs (drop (Suc ?k) cs)"
    unfolding B drop_file_bytes [OF sv cs(1)] using k unfolding B
    by (simp add: file_bytes_def flip: Cons_nth_drop_Suc)
  also have "drop (512 * ?i) (clus_bytes dk fs (cs ! ?k) @ file_bytes dk fs (drop (Suc ?k) cs)) =
      dk (first_sector fs (cs ! ?k) + of_nat ?i) @ drop (512 * Suc ?i) (clus_bytes dk fs (cs ! ?k)) @
      file_bytes dk fs (drop (Suc ?k) cs)"
    using drop_clus_bytes [OF sv on i] i by (simp add: length_clus_bytes [OF sv on])
  finally show ?thesis using s sector_length [OF sv on i] by simp
qed

lemma head_of_cluster:
  assumes "serves rd drv lim dk" "volume_ok fs" "file_on lim dk fs fi cs" "unat off < unat (filesize fi)"
    "unat off mod (512 * unat (SecPerClus fs)) < 512" "s \<le> 512 - unat off mod (512 * unat (SecPerClus fs))"
  shows "take s (drop (unat off mod (512 * unat (SecPerClus fs)))
      (dk (first_sector fs (cs ! (unat off div (512 * unat (SecPerClus fs))))))) =
    take s (drop (unat off) (file_bytes dk fs cs))"
proof -
  let ?B = "512 * unat (SecPerClus fs)"
  have m: "unat off mod ?B = unat off mod 512"
    using mod_mod_cancel [of 512 ?B "unat off"] assms(5) by simp
  show ?thesis
    using sector_of_offset [OF assms(1-4) refl, of s] assms(6) unfolding m by simp
qed

end
