(* ===== verification/Fs_Lookup.thy ===== *)
theory Fs_Lookup
  imports Fs_Props
begin

text \<open>
  Looking files up: the entries of a directory over the clusters it is chained in, and paths.
\<close>

section \<open>Directories\<close>

definition sector_list :: "(u32 \<Rightarrow> u8 list) \<Rightarrow> FAT32_FileSystem \<Rightarrow> u32 list \<Rightarrow> u8 list list" where
  "sector_list dk fs cs =
     concat (map (\<lambda>c. map (\<lambda>i. dk (first_sector fs c + of_nat i)) [0..<unat (SecPerClus fs)]) cs)"

definition dir_list :: "(u32 \<Rightarrow> u8 list) \<Rightarrow> FAT32_FileSystem \<Rightarrow> u32 list \<Rightarrow> FAT32_DirEnt list" where
  "dir_list dk fs cs = concat (map sector_ents (sector_list dk fs cs))"

text \<open>The clusters of a directory from its first, up to the mark that ends the chain.\<close>

definition dir_chain :: "nat \<Rightarrow> (u32 \<Rightarrow> u8 list) \<Rightarrow> FAT32_FileSystem \<Rightarrow> u32 \<Rightarrow> u32 list \<Rightarrow> bool" where
  "dir_chain lim dk fs c cs \<longleftrightarrow> cs \<noteq> [] \<and> cs ! 0 = c \<and> linked (fat_entry dk fs) cs \<and>
     (\<forall>c \<in> set cs. clus_on_disk lim fs c) \<and> (\<forall>c \<in> set (tl cs). \<not> is_eoc c) \<and> is_eoc (fat_entry dk fs (last cs))"

lemma find_append: "find Q (xs @ ys) = (case find Q xs of Some x \<Rightarrow> Some x | None \<Rightarrow> find Q ys)"
  by (induction xs) simp_all

lemma find_in_clus_ok:
  assumes "serves rd (fs_drv fs) lim dk" "volume_ok fs" "clus_on_disk lim fs c"
  shows "find_in_clus rd fs c nm (sectors_of_clus fs) = find (ent_matches nm) (dir_list dk fs [c])"
proof -
  have "find_in_clus rd fs c nm (map of_nat is) =
      find (ent_matches nm) (concat (map sector_ents (map (\<lambda>i. dk (first_sector fs c + of_nat i)) is)))"
    if "\<forall>i \<in> set is. i < unat (SecPerClus fs)" for "is"
    using that
  proof (induction "is")
    case (Cons i "is")
    then have "unat (first_sector fs c + of_nat i) < lim" using assms(3) by (simp add: clus_on_disk_def)
    from servesD [OF assms(1) this]
    have "rd (fs_drv fs) (CLUS2SECTOR fs c + of_nat i) 512 = dk (first_sector fs c + of_nat i)"
      by (simp add: spc(3) [OF assms(2)])
    then show ?case using Cons by (simp add: find_append split: option.splits)
  qed simp
  then show ?thesis by (simp add: sectors_of_clus_def dir_list_def sector_list_def)
qed

definition name_of :: "u8 list \<Rightarrow> u8 list" where
  "name_of fn = take (fst (component_end fn 1) - 1) (drop 1 fn)"

text \<open>What the entry found decides.\<close>

definition outcome :: "reader \<Rightarrow> FAT32_FileSystem \<Rightarrow> u8 list \<Rightarrow> fs_file_info \<Rightarrow> FAT32_DirEnt \<Rightarrow>
    (u32 \<times> fs_file_info) res option" where
  "outcome rd fs fn fi e =
     (let (p, is_file) = component_end fn 1
      in if de_Attr e AND ATTR_DIR \<noteq> 0 \<and> \<not> is_file then get_file_info rd fs (first_clus e) (drop p fn) fi
         else if de_Attr e AND ATTR_DIR \<noteq> 0 \<or> \<not> is_file then Some (Inr (3, fi))
         else Some (Inr (0, fi\<lparr>filename := put_at 0 (name_of fn) (filename fi), filesize := de_FileSize e,
                               clus := first_clus e\<rparr>)))"

lemma get_file_info_step:
  assumes "fn \<noteq> []" "last fn \<noteq> 0x2F"
  shows "get_file_info rd fs c fn fi =
    (case find_in_clus rd fs c (write_8_3_filename (name_of fn)) (sectors_of_clus fs) of
       Some e \<Rightarrow> outcome rd fs fn fi e
     | None \<Rightarrow> if is_eoc (get_next_clus_in_FAT rd fs c) then Some (Inr (1, fi))
               else get_file_info rd fs (get_next_clus_in_FAT rd fs c) fn fi)"
  by (subst get_file_info.simps)
    (use assms in \<open>simp add: outcome_def name_of_def Let_def split: prod.splits option.splits\<close>)

lemma get_file_info_chain:
  assumes "serves rd (fs_drv fs) lim dk" "volume_ok fs" "fn \<noteq> []" "last fn \<noteq> 0x2F"
  shows "dir_chain lim dk fs c cs \<Longrightarrow> get_file_info rd fs c fn fi =
    (case find (ent_matches (write_8_3_filename (name_of fn))) (dir_list dk fs cs) of
       Some e \<Rightarrow> outcome rd fs fn fi e | None \<Rightarrow> Some (Inr (1, fi)))"
proof (induction cs arbitrary: c)
  case (Cons c' cs)
  then have c: "c' = c" "clus_on_disk lim fs c" by (auto simp: dir_chain_def)
  note nx = get_next_ok [OF assms(1) c(2)]
  have d: "dir_list dk fs (c # cs) = dir_list dk fs [c] @ dir_list dk fs cs"
    by (simp add: dir_list_def sector_list_def)
  show ?case
  proof (cases cs)
    case Nil
    then have "is_eoc (fat_entry dk fs c)" using Cons.prems c by (simp add: dir_chain_def)
    then show ?thesis using Nil c nx
      by (simp add: get_file_info_step [OF assms(3,4), of rd fs c] find_in_clus_ok [OF assms(1,2) c(2)])
  next
    case (Cons c2 r)
    then have l: "fat_entry dk fs c = c2" "\<not> is_eoc c2" "dir_chain lim dk fs c2 cs"
      using Cons.prems c unfolding dir_chain_def by auto
    show ?thesis using c nx l(1,2) Cons.IH [OF l(3)]
      by (simp add: get_file_info_step [OF assms(3,4), of rd fs c] find_in_clus_ok [OF assms(1,2) c(2)] d find_append
          split: option.splits)
  qed
qed (simp add: dir_chain_def)

section \<open>Paths\<close>

definition path_of :: "u8 list list \<Rightarrow> u8 list" where
  "path_of names = concat (map (\<lambda>n. 0x2F # n) names)"

definition good_name :: "u8 list \<Rightarrow> bool" where
  "good_name n \<longleftrightarrow> n \<noteq> [] \<and> length n \<le> 10 \<and> 0x2F \<notin> set n"

lemma component_end_scan:
  assumes "0x2F \<notin> set n" "length n \<le> 10" "r = [] \<or> (\<exists>r'. r = 0x2F # r')"
  shows "k \<le> length n \<Longrightarrow> component_end (x # n @ r) (1 + k) = (1 + length n, r = [])"
proof (induction "length n - k" arbitrary: k)
  case 0
  then have "k = length n" by simp
  then show ?case using assms(2,3) by (auto simp: component_end.simps [of _ "Suc (length n)"] nth_append)
next
  case (Suc m)
  then have k: "k < length n" by simp
  then have "n ! k \<noteq> 0x2F" using assms(1) nth_mem by metis
  then show ?case using Suc.hyps(1) [of "Suc k"] Suc.hyps(2) k assms(2)
    by (simp add: component_end.simps [of _ "Suc k"] nth_append)
qed

lemma component_end_name:
  assumes "good_name n" "r = [] \<or> (\<exists>r'. r = 0x2F # r')"
  shows "component_end (0x2F # n @ r) 1 = (1 + length n, r = [])" "name_of (0x2F # n @ r) = n"
  using component_end_scan [of n r 0] assms by (simp_all add: good_name_def name_of_def)

lemma path_of_last:
  assumes "names \<noteq> []" "\<forall>n \<in> set names. good_name n"
  shows "path_of names \<noteq> []" "last (path_of names) \<noteq> 0x2F" "\<exists>r. path_of names = 0x2F # r"
proof -
  from assms(1) obtain ns n where e: "names = ns @ [n]" using rev_exhaust by metis
  then have "good_name n" using assms(2) by simp
  then have n: "n \<noteq> []" "0x2F \<notin> set n" by (simp_all add: good_name_def)
  then have "last n \<noteq> 0x2F" using last_in_set by metis
  with n(1) show "last (path_of names) \<noteq> 0x2F" by (simp add: e path_of_def)
  show "path_of names \<noteq> []" by (simp add: e path_of_def)
  show "\<exists>r. path_of names = 0x2F # r" using assms(1) by (cases names) (simp_all add: path_of_def)
qed

end
