(* ===== verification/Fat_Volume.thy ===== *)
theory Fat_Volume
  imports Fs_Lookup
begin

text \<open>
  A FAT32 volume as the bytes of its sectors say it: where its clusters lie, how they are chained,
  what the entries of a directory mean and where a path leads. Nothing here is taken from what the server
  makes of the boot sector; that it agrees with this reading is what the lemmas of the second half show.
\<close>

section \<open>The layout\<close>

text \<open>Sectors are given by number; those of a cluster are counted from cluster 2.\<close>

definition clus_sectors :: "(u32 \<Rightarrow> u8 list) \<Rightarrow> nat" where
  "clus_sectors dk = unat (dk 0 ! 13)"

definition fat_start :: "(u32 \<Rightarrow> u8 list) \<Rightarrow> nat" where
  "fat_start dk = le16 (dk 0) 14"

definition data_start :: "(u32 \<Rightarrow> u8 list) \<Rightarrow> nat" where
  "data_start dk = fat_start dk + unat (dk 0 ! 16) * le32 (dk 0) 36"

definition clus_start :: "(u32 \<Rightarrow> u8 list) \<Rightarrow> nat \<Rightarrow> nat" where
  "clus_start dk c = data_start dk + (c - 2) * clus_sectors dk"

definition cluster :: "(u32 \<Rightarrow> u8 list) \<Rightarrow> nat \<Rightarrow> u8 list" where
  "cluster dk c = concat (map (\<lambda>i. dk (of_nat (clus_start dk c + i))) [0..<clus_sectors dk])"

text \<open>The entry of a cluster in the table: 28 bits of four bytes, of which a sector holds 128.\<close>

definition next_clus :: "(u32 \<Rightarrow> u8 list) \<Rightarrow> nat \<Rightarrow> nat" where
  "next_clus dk c = le32 (dk (of_nat (fat_start dk + c div 128))) (4 * (c mod 128)) mod 2 ^ 28"

definition clus_ok :: "nat \<Rightarrow> (u32 \<Rightarrow> u8 list) \<Rightarrow> nat \<Rightarrow> bool" where
  "clus_ok lim dk c \<longleftrightarrow> 2 \<le> c \<and> c < 0xFFFFFF8 \<and> fat_start dk + c div 128 < lim \<and>
     clus_start dk c + clus_sectors dk \<le> lim"

definition chained :: "nat \<Rightarrow> (u32 \<Rightarrow> u8 list) \<Rightarrow> nat \<Rightarrow> nat list \<Rightarrow> bool" where
  "chained lim dk c cs \<longleftrightarrow> cs \<noteq> [] \<and> cs ! 0 = c \<and> linked (next_clus dk) cs \<and> (\<forall>c \<in> set cs. clus_ok lim dk c)"

definition chain_bytes :: "(u32 \<Rightarrow> u8 list) \<Rightarrow> nat list \<Rightarrow> u8 list" where
  "chain_bytes dk cs = concat (map (cluster dk) cs)"

text \<open>A volume the server can read: its root directory begins in the first cluster.\<close>

definition fat_volume :: "nat \<Rightarrow> (u32 \<Rightarrow> u8 list) \<Rightarrow> bool" where
  "fat_volume lim dk \<longleftrightarrow> le32 (dk 0) 44 = 2 \<and> 0 < clus_sectors dk \<and> 0 < lim \<and> lim \<le> 2 ^ 32"

section \<open>Directories and names\<close>

definition raw_entries :: "u8 list \<Rightarrow> u8 list list" where
  "raw_entries bs = map (\<lambda>i. take 32 (drop (32 * i) bs)) [0..<length bs div 32]"

text \<open>The first entry that begins with 0 ends a directory, and so does each behind it.\<close>

definition ended :: "u8 list list \<Rightarrow> bool" where
  "ended es \<longleftrightarrow> (\<forall>i j. i < j \<and> j < length es \<and> es ! i ! 0 = 0 \<longrightarrow> es ! j ! 0 = 0)"

definition dir_entries :: "u8 list list \<Rightarrow> u8 list list" where
  "dir_entries es = takeWhile (\<lambda>e. e ! 0 \<noteq> 0) es"

definition directory :: "nat \<Rightarrow> (u32 \<Rightarrow> u8 list) \<Rightarrow> nat \<Rightarrow> nat list \<Rightarrow> bool" where
  "directory lim dk c cs \<longleftrightarrow> chained lim dk c cs \<and> 0xFFFFFF8 \<le> next_clus dk (last cs) \<and> ended (raw_entries (chain_bytes dk cs))"

definition base_part :: "u8 list \<Rightarrow> u8 list" where
  "base_part n = takeWhile (\<lambda>c. c \<noteq> 0x2E) n"

definition ext_part :: "u8 list \<Rightarrow> u8 list" where
  "ext_part n = drop 1 (dropWhile (\<lambda>c. c \<noteq> 0x2E) n)"

definition upper_case :: "u8 \<Rightarrow> u8" where
  "upper_case c = (if 0x61 \<le> c \<and> c \<le> 0x7A then c - 0x20 else c)"

definition padded :: "nat \<Rightarrow> u8 list \<Rightarrow> u8 list" where
  "padded k xs = xs @ replicate (k - length xs) 0x20"

text \<open>The 11 bytes of a name in a directory: eight and three, in upper case, filled up with spaces.\<close>

definition disk_name :: "u8 list \<Rightarrow> u8 list" where
  "disk_name n = padded 8 (map upper_case (base_part n)) @ padded 3 (map upper_case (ext_part n))"

text \<open>The names meant: eight and three characters around a dot at most, ten in all.\<close>

definition short_name :: "u8 list \<Rightarrow> bool" where
  "short_name n \<longleftrightarrow> n \<noteq> [] \<and> length n \<le> 10 \<and> 0 \<notin> set n \<and> 0x2F \<notin> set n \<and>
     length (base_part n) \<le> 8 \<and> length (ext_part n) \<le> 3 \<and> 0x2E \<notin> set (ext_part n)"

text \<open>
  An entry stands for the name unless it is deleted (0xE5, and 0x05, which stands for it), one of the
  two dot entries of a directory, or a piece of a long name.
\<close>

definition names_entry :: "u8 list \<Rightarrow> u8 list \<Rightarrow> bool" where
  "names_entry n e \<longleftrightarrow> e ! 0 \<notin> {0xE5, 0x05, 0x2E} \<and> e ! 11 \<noteq> 0x0F \<and> take 11 e = disk_name n"

definition is_dir :: "u8 list \<Rightarrow> bool" where
  "is_dir e \<longleftrightarrow> bit (e ! 11) 4"

definition entry_clus :: "u8 list \<Rightarrow> nat" where
  "entry_clus e = 65536 * le16 e 20 + le16 e 26"

definition entry_size :: "u8 list \<Rightarrow> nat" where
  "entry_size e = le32 e 28"

text \<open>Where a list of names leads from the directory that begins in cluster \<open>c\<close>.\<close>

datatype found = File_entry "u8 list" | Missing | Wrong_kind

inductive leads :: "nat \<Rightarrow> (u32 \<Rightarrow> u8 list) \<Rightarrow> nat \<Rightarrow> u8 list list \<Rightarrow> found \<Rightarrow> bool"
  for lim dk where
  leads_missing: "\<lbrakk>directory lim dk c cs; \<forall>e \<in> set (dir_entries (raw_entries (chain_bytes dk cs))). \<not> names_entry n e\<rbrakk> \<Longrightarrow>
    leads lim dk c (n # ns) Missing"
| leads_wrong: "\<lbrakk>directory lim dk c cs; find (names_entry n) (dir_entries (raw_entries (chain_bytes dk cs))) = Some e;
    is_dir e \<longleftrightarrow> ns = []\<rbrakk> \<Longrightarrow> leads lim dk c (n # ns) Wrong_kind"
| leads_file: "\<lbrakk>directory lim dk c cs; find (names_entry n) (dir_entries (raw_entries (chain_bytes dk cs))) = Some e;
    \<not> is_dir e\<rbrakk> \<Longrightarrow> leads lim dk c [n] (File_entry e)"
| leads_down: "\<lbrakk>directory lim dk c cs; find (names_entry n) (dir_entries (raw_entries (chain_bytes dk cs))) = Some e;
    is_dir e; ns \<noteq> []; leads lim dk (entry_clus e) ns r\<rbrakk> \<Longrightarrow> leads lim dk c (n # ns) r"

section \<open>The volume of the server\<close>

definition volume_of :: "(u32 \<Rightarrow> u8 list) \<Rightarrow> FAT32_FileSystem \<Rightarrow> bool" where
  "volume_of dk fs \<longleftrightarrow> SecPerClus fs = of_nat (clus_sectors dk) \<and> FATstartSct fs = of_nat (fat_start dk) \<and>
     FirstDataClus fs = of_nat (data_start dk) \<and> RootClus fs = 2"

lemma spc_volume: "volume_of dk fs \<Longrightarrow> unat (SecPerClus fs) = clus_sectors dk"
  using unat_byte [of "dk 0 ! 13"] unat_of_nat32 [of "clus_sectors dk"] by (simp add: volume_of_def clus_sectors_def)

lemma started:
  assumes "serves rd 1 lim dk" "fat_volume lim dk" "fs_start dev_open info rd = Some fs"
  shows "fs_drv fs = 1" "volume_of dk fs" "volume_ok fs"
proof -
  have r: "rd 1 0 512 = dk 0" using servesD [OF assms(1), of 0] assms(2) by (simp add: fat_volume_def)
  have u: "(ucast w :: u32) = of_nat (unat w)" for w :: "'a::len word" by simp
  obtain p where fs: "fs = ReadFSInfo rd (the (ReadBootSector (\<lambda>_. Some p) rd 1))"
    using assms(3) by (auto simp: fs_start_def ReadBootSector_def MAKE_DRV_def bind_eq_Some_conv)
  show "fs_drv fs = 1" by (simp add: fs ReadFSInfo_def ReadBootSector_def Let_def)
  show v: "volume_of dk fs"
    using assms(2) unfolding volume_of_def fs ReadFSInfo_def ReadBootSector_def Let_def
    by (simp add: r boot_sector_def clus_sectors_def fat_start_def data_start_def fat_volume_def
        dword_of_le32 flip: unat_word_of)
  show "volume_ok fs" using v spc_volume [OF v] assms(2) unat_byte [of "dk 0 ! 13"]
    by (simp add: volume_ok_def volume_of_def fat_volume_def clus_sectors_def)
qed

lemma mod_28: "(of_nat n :: u32) AND 0x0FFFFFFF = of_nat (n mod 2 ^ 28)"
proof -
  have "(0x0FFFFFFF :: u32) = mask 28" by (simp add: mask_eq_exp_minus_1)
  then have "(of_nat n :: u32) AND 0x0FFFFFFF = take_bit 28 (of_nat n)" by (simp add: take_bit_eq_mask)
  also have "\<dots> = of_nat (take_bit 28 n)" by (simp add: take_bit_of_nat)
  finally show ?thesis by (simp add: take_bit_eq_mod)
qed

lemma clus_volume:
  assumes "volume_of dk fs" "lim \<le> 2 ^ 32" "clus_ok lim dk c"
  shows "first_sector fs (of_nat c) + of_nat i = of_nat (clus_start dk c + i)" "clus_on_disk lim fs (of_nat c)"
    "clus_bytes dk fs (of_nat c) = cluster dk c" "fat_entry dk fs (of_nat c) = of_nat (next_clus dk c)"
    "unat (of_nat c :: u32) = c"
proof -
  have c: "2 \<le> c" "c < 2 ^ 28" using assms(3) by (simp_all add: clus_ok_def)
  then show u: "unat (of_nat c :: u32) = c" by (intro unat_of_nat32) simp
  have f: "first_sector fs (of_nat c) + of_nat i = of_nat (clus_start dk c + i)" for i
    using assms(1) c(1) by (simp add: first_sector_def volume_of_def clus_start_def of_nat_diff)
  then show "first_sector fs (of_nat c) + of_nat i = of_nat (clus_start dk c + i)" .
  show "clus_bytes dk fs (of_nat c) = cluster dk c"
    unfolding clus_bytes_def cluster_def f spc_volume [OF assms(1)] ..
  have "(of_nat c :: u32) div 128 = of_nat (c div 128)"
    using unat_of_nat32 [of "c div 128"] c(2) by (simp add: word_unat_eq_iff unat_div u)
  then have fat: "FATstartSct fs + of_nat c div 128 = of_nat (fat_start dk + c div 128)"
    using assms(1) by (simp add: volume_of_def)
  have n: "unat (of_nat x :: u32) < lim" if "x < lim" for x using that assms(2) unat_of_nat32 [of x] by simp
  show "clus_on_disk lim fs (of_nat c)"
    unfolding clus_on_disk_def fat f spc_volume [OF assms(1)]
    using assms(2,3) by (auto simp: clus_ok_def simp del: of_nat_add intro!: n)
  show "fat_entry dk fs (of_nat c) = of_nat (next_clus dk c)"
  proof -
    have "4 * c div 512 = c div 128" "4 * c mod 512 = 4 * (c mod 128)"
      using mult_mod_right [of 4 c 128] by simp_all
    then show ?thesis using assms(1)
      by (simp add: fat_entry_def u next_clus_def volume_of_def dword_of_le32 mod_28)
  qed
qed

section \<open>Chains\<close>

lemma linked_map:
  "linked nx cs \<Longrightarrow> \<forall>c \<in> set cs. f (nx c) = nx' (f c) \<Longrightarrow> linked nx' (map f cs)"
  by (induction nx cs rule: linked.induct) simp_all

lemma chained_volume:
  assumes "volume_of dk fs" "lim \<le> 2 ^ 32" "chained lim dk c cs"
  shows "linked (fat_entry dk fs) (map of_nat cs)" "\<forall>c \<in> set (map of_nat cs). clus_on_disk lim fs c"
    "concat (map (clus_bytes dk fs) (map of_nat cs)) = chain_bytes dk cs"
proof -
  have ok: "clus_ok lim dk c" if "c \<in> set cs" for c using assms(3) that by (simp add: chained_def)
  note v = clus_volume [OF assms(1,2) ok]
  show "linked (fat_entry dk fs) (map of_nat cs)"
    by (rule linked_map [of "next_clus dk"]) (use assms(3) v(4) in \<open>simp_all add: chained_def\<close>)
  show "\<forall>c \<in> set (map of_nat cs). clus_on_disk lim fs c" using v(2) by auto
  show "concat (map (clus_bytes dk fs) (map of_nat cs)) = chain_bytes dk cs"
    unfolding chain_bytes_def using v(3) by (auto intro: arg_cong [of _ _ concat])
qed

lemma eoc_nat: "n < 2 ^ 28 \<Longrightarrow> is_eoc (of_nat n) \<longleftrightarrow> 0xFFFFFF8 \<le> n"
  using unat_of_nat32 [of n] by (auto simp: is_eoc_def word_le_nat_alt)

lemma dir_chain_volume:
  assumes "volume_of dk fs" "lim \<le> 2 ^ 32" "directory lim dk c cs"
  shows "dir_chain lim dk fs (of_nat c) (map of_nat cs)"
proof -
  have ch: "chained lim dk c cs" using assms(3) by (simp add: directory_def)
  then have ok: "clus_ok lim dk c" if "c \<in> set cs" for c using that by (simp add: chained_def)
  note cv = chained_volume [OF assms(1,2) ch]
  have ne: "cs \<noteq> []" "cs ! 0 = c" using ch by (simp_all add: chained_def)
  have "\<not> is_eoc (of_nat c)" if "c \<in> set cs" for c using ok [OF that] by (simp add: eoc_nat clus_ok_def)
  then have "\<forall>c \<in> set (tl (map of_nat cs)). \<not> is_eoc c"
    using ne(1) by (auto simp flip: map_tl dest: list.set_sel(2))
  moreover have "is_eoc (fat_entry dk fs (last (map of_nat cs)))"
    using assms(3) ne(1) clus_volume(4) [OF assms(1,2) ok, of "last cs"]
    by (simp add: last_map directory_def next_clus_def eoc_nat)
  ultimately show ?thesis using cv(1,2) ne by (simp add: dir_chain_def)
qed

section \<open>Entries\<close>

lemma length_entries: "e \<in> set (raw_entries bs) \<Longrightarrow> length e = 32"
  by (auto simp: raw_entries_def)

lemma raw_entries_append:
  assumes "length b = 512"
  shows "raw_entries (b @ bs) = raw_entries b @ raw_entries bs"
proof -
  have "[0..<16 + n] = [0..<16] @ map (\<lambda>i. 16 + i) [0..<n]" for n
    by (rule nth_equalityI) (auto simp: nth_append simp del: upt_rec_numeral)
  moreover have "length (b @ bs) div 32 = 16 + length bs div 32" using assms by simp
  ultimately show ?thesis using assms
    by (simp add: raw_entries_def comp_def del: upt_rec_numeral)
qed

lemma takeWhile_ended:
  "ended (xs @ ys) \<Longrightarrow> dir_entries (xs @ ys) = dir_entries xs @ dir_entries ys"
proof (cases "\<exists>x \<in> set xs. x ! 0 = 0")
  case True
  assume e: "ended (xs @ ys)"
  from True obtain i where i: "i < length xs" "xs ! i ! 0 = 0" by (auto simp: in_set_conv_nth)
  have "ys = [] \<or> ys ! 0 ! 0 = 0"
    using e [unfolded ended_def, rule_format, of i "length xs"] i by (cases ys) (simp_all add: nth_append)
  then have "dir_entries ys = []" by (cases ys) (simp_all add: dir_entries_def)
  moreover have "dir_entries (xs @ ys) = dir_entries xs"
    using True unfolding dir_entries_def by (auto intro: takeWhile_append1)
  ultimately show ?thesis by simp
next
  case False
  then have e: "takeWhile (\<lambda>e. e ! 0 \<noteq> 0) xs = xs" unfolding takeWhile_eq_all_conv by blast
  have "takeWhile (\<lambda>e. e ! 0 \<noteq> 0) (xs @ ys) = xs @ takeWhile (\<lambda>e. e ! 0 \<noteq> 0) ys"
    using False by (intro takeWhile_append2) blast
  then show ?thesis unfolding dir_entries_def e .
qed

lemma ended_append: "ended (xs @ ys) \<Longrightarrow> ended ys"
proof -
  assume e: "ended (xs @ ys)"
  show ?thesis unfolding ended_def
  proof (intro allI impI)
    fix i j assume "i < j \<and> j < length ys \<and> ys ! i ! 0 = 0"
    then show "ys ! j ! 0 = 0"
      using e [unfolded ended_def, rule_format, of "length xs + i" "length xs + j"] by (simp add: nth_append)
  qed
qed

lemma sector_ents_raw:
  assumes "length b = 512"
  shows "sector_ents b = map (\<lambda>e. dir_ent e 0) (dir_entries (raw_entries b))"
proof -
  have n: "take 32 (drop (32 * k) b) ! i = b ! (32 * k + i)" if "i < 32" "k < 16" for i k
    using that assms by simp
  have d: "dir_ent b (32 * k) = dir_ent (take 32 (drop (32 * k) b)) 0" if "k < 16" for k
    using that n by (simp add: dir_ent_def slice_def word_of_def dword_of_def take_drop min_def add.commute)
  have m: "map (\<lambda>k. dir_ent b (32 * k)) [0..<16] = map (\<lambda>e. dir_ent e 0) (raw_entries b)"
    using d assms by (simp add: raw_entries_def del: upt_rec_numeral)
  have h: "List.hd (de_Name (dir_ent e 0)) = e ! 0" if "e \<in> set (raw_entries b)" for e
    using length_entries [OF that] by (cases e) (simp_all add: dir_ent_def slice_def)
  have tw: "takeWhile P (map f xs) = map f (takeWhile Q xs)" if "\<forall>x \<in> set xs. P (f x) = Q x"
    for P Q and f :: "u8 list \<Rightarrow> FAT32_DirEnt" and xs
    using that by (induction xs) simp_all
  show ?thesis unfolding sector_ents_def m dir_entries_def by (rule tw) (simp add: h)
qed

lemma entries_of_sectors:
  "\<forall>b \<in> set bs. length b = 512 \<Longrightarrow> ended (raw_entries (concat bs)) \<Longrightarrow>
   concat (map sector_ents bs) = map (\<lambda>e. dir_ent e 0) (dir_entries (raw_entries (concat bs)))"
proof (induction bs)
  case Nil
  then show ?case by (simp add: raw_entries_def dir_entries_def)
next
  case (Cons b bs)
  have r: "raw_entries (concat (b # bs)) = raw_entries b @ raw_entries (concat bs)"
    using Cons.prems(1) by (simp add: raw_entries_append)
  show ?case
    using Cons.prems(2) ended_append Cons.IH Cons.prems(1) unfolding r
    by (simp add: takeWhile_ended sector_ents_raw)
qed

lemma dir_list_volume:
  assumes "volume_of dk fs" "lim \<le> 2 ^ 32" "serves rd drv lim dk" "directory lim dk c cs"
  shows "dir_list dk fs (map of_nat cs) = map (\<lambda>e. dir_ent e 0) (dir_entries (raw_entries (chain_bytes dk cs)))"
proof -
  have ch: "chained lim dk c cs" "ended (raw_entries (chain_bytes dk cs))" using assms(4) by (simp_all add: directory_def)
  note cv = chained_volume [OF assms(1,2) ch(1)]
  let ?S = "sector_list dk fs (map of_nat cs)"
  have "concat ?S = concat (map (clus_bytes dk fs) (map of_nat cs))"
    by (induction cs) (simp_all add: sector_list_def clus_bytes_def)
  then have c: "concat ?S = chain_bytes dk cs" using cv(3) by simp
  have "\<forall>b \<in> set ?S. length b = 512"
    using cv(2) sector_length [OF assms(3)] by (auto simp: sector_list_def)
  from entries_of_sectors [OF this] show ?thesis using ch(2) unfolding c dir_list_def by simp
qed

section \<open>The name of an entry\<close>

lemma last_dot_none: "0x2E \<notin> set n \<Longrightarrow> k \<le> length n \<Longrightarrow> last_dot n k = None"
proof (induction k)
  case (Suc k)
  then have "n ! k \<noteq> 0x2E" using nth_mem [of k n] by fastforce
  then show ?case using Suc by simp
qed simp

lemma last_dot_at: "0x2E \<notin> set ext \<Longrightarrow> k \<le> length ext \<Longrightarrow>
    last_dot (base @ 0x2E # ext) (length base + Suc k) = Some (length base)"
proof (induction k)
  case (Suc k)
  then have "ext ! k \<noteq> 0x2E" using nth_mem [of k ext] by fastforce
  then show ?case using Suc by (simp add: nth_append)
qed simp

lemma write_8_3_dotted:
  assumes "length base \<le> 8" "length ext \<le> 3" "0x2E \<notin> set ext"
  shows "write_8_3_filename (base @ 0x2E # ext) =
    map char_upper base @ replicate (8 - length base) 0x20 @ map char_upper ext @ replicate (3 - length ext) 0x20"
proof -
  let ?f = "base @ 0x2E # ext"
  have dot: "last_dot ?f (length ?f) = Some (length base)" using last_dot_at [OF assms(3), of "length ext"] by simp
  have "map (\<lambda>i. if length ?f \<le> length base + 1 + i then 0x20 else char_upper (?f ! (length base + 1 + i))) [0..<3] =
      map char_upper ext @ replicate (3 - length ext) 0x20"
    by (rule nth_equalityI) (use assms(2) in \<open>auto simp: nth_append\<close>)
  moreover have "map (\<lambda>i. char_upper (?f ! i)) [0..<length base] = map char_upper base"
    by (rule nth_equalityI) (simp_all add: nth_append)
  ultimately show ?thesis using assms(1,2)
    unfolding write_8_3_filename_def Let_def dot option.case put_at_def
    by (simp del: upt_rec_numeral flip: replicate_add)
qed

lemma write_8_3_undotted:
  assumes "length n \<le> 8" "0x2E \<notin> set n"
  shows "write_8_3_filename n = map char_upper n @ replicate (8 - length n) 0x20 @ replicate 3 0x20"
proof -
  have dot: "last_dot n (length n) = None" by (rule last_dot_none [OF assms(2)]) simp
  have "map (\<lambda>i. char_upper (n ! i)) [0..<length n] = map char_upper n"
    by (rule nth_equalityI) simp_all
  then show ?thesis using assms(1)
    unfolding write_8_3_filename_def Let_def dot option.case put_at_def
    by (simp del: upt_rec_numeral flip: replicate_add)
qed

lemma write_8_3_disk_name:
  assumes "short_name n"
  shows "write_8_3_filename n = disk_name n"
proof -
  have up: "char_upper = upper_case" by (simp add: fun_eq_iff char_upper_def upper_case_def)
  note s = assms [unfolded short_name_def]
  have n: "n = base_part n @ dropWhile (\<lambda>c. c \<noteq> 0x2E) n" by (simp add: base_part_def)
  show ?thesis
  proof (cases "0x2E \<in> set n")
    case True
    then have "dropWhile (\<lambda>c. c \<noteq> 0x2E) n \<noteq> []" by (auto simp: dropWhile_eq_Nil_conv)
    moreover from this have "List.hd (dropWhile (\<lambda>c. c \<noteq> 0x2E) n) = 0x2E" using hd_dropWhile by blast
    ultimately have "dropWhile (\<lambda>c. c \<noteq> 0x2E) n = 0x2E # ext_part n"
      unfolding ext_part_def by (cases "dropWhile (\<lambda>c. c \<noteq> 0x2E) n") simp_all
    then have "n = base_part n @ 0x2E # ext_part n" using n by simp
    then show ?thesis using write_8_3_dotted [of "base_part n" "ext_part n"] s by (simp add: disk_name_def padded_def up)
  next
    case False
    then have d: "dropWhile (\<lambda>c. c \<noteq> 0x2E) n = []" by (auto simp: dropWhile_eq_Nil_conv)
    have "base_part n = n" using n unfolding d append_Nil2 by (rule sym)
    moreover have "ext_part n = []" unfolding ext_part_def d by simp
    ultimately have "base_part n = n" "ext_part n = []" .
    then show ?thesis using write_8_3_undotted [OF _ False] s by (simp add: disk_name_def padded_def up)
  qed
qed

lemma disk_name_bytes: "short_name n \<Longrightarrow> length (disk_name n) = 11 \<and> 0 \<notin> set (disk_name n)"
proof -
  assume s: "short_name n"
  have "upper_case c = 0 \<longleftrightarrow> c = 0" for c
    by (auto simp: upper_case_def split: if_splits)
  then have up: "0 \<notin> set (map upper_case xs)" if "0 \<notin> set xs" for xs
    using that by auto
  have "set (base_part n) \<subseteq> set n" by (auto simp: base_part_def dest: set_takeWhileD)
  moreover have "set (ext_part n) \<subseteq> set n"
  proof
    fix x assume "x \<in> set (ext_part n)"
    then have "x \<in> set (dropWhile (\<lambda>c. c \<noteq> 0x2E) n)" unfolding ext_part_def by (rule in_set_dropD)
    then show "x \<in> set n" by (rule set_dropWhileD)
  qed
  ultimately have "0 \<notin> set (base_part n)" "0 \<notin> set (ext_part n)" using s by (auto simp: short_name_def)
  then show ?thesis using s up [of "base_part n"] up [of "ext_part n"] by (simp add: short_name_def disk_name_def padded_def)
qed

lemma ent_matches_raw:
  assumes "short_name n" "length e = 32"
  shows "ent_matches (write_8_3_filename n) (dir_ent e 0) \<longleftrightarrow> names_entry n e"
proof -
  note d = disk_name_bytes [OF assms(1)]
  have "cstr (disk_name n) = disk_name n" using d by (auto simp: cstr_def takeWhile_eq_all_conv)
  moreover have "cstr b = b" if "disk_name n = cstr b" "length b = 11" for b
  proof -
    have "length (cstr b) = length b" using that d by simp
    then show ?thesis unfolding cstr_def by (metis takeWhile_eq_take take_all order_refl)
  qed
  moreover have "length (take 11 e) = 11" using assms(2) by simp
  ultimately have "cstr (disk_name n) = cstr (take 11 e) \<longleftrightarrow> take 11 e = disk_name n" by metis
  moreover have "List.hd (take 11 e) = e ! 0" using assms(2) by (cases e) simp_all
  ultimately show ?thesis
    by (simp add: ent_matches_def names_entry_def write_8_3_disk_name [OF assms(1)] dir_ent_def slice_def)
qed

lemma find_raw:
  assumes "short_name n" "\<forall>e \<in> set es. length e = 32"
  shows "find (ent_matches (write_8_3_filename n)) (map (\<lambda>e. dir_ent e 0) es) =
    map_option (\<lambda>e. dir_ent e 0) (find (names_entry n) es)"
  using assms(2) by (induction es) (simp_all add: ent_matches_raw [OF assms(1)])

lemma raw_fields:
  "de_Attr (dir_ent e 0) AND ATTR_DIR \<noteq> 0 \<longleftrightarrow> is_dir e" "first_clus (dir_ent e 0) = of_nat (entry_clus e)"
  "de_FileSize (dir_ent e 0) = of_nat (entry_size e)"
proof -
  have "(w AND 0x10 \<noteq> 0) = bit w 4" for w :: u8
  proof -
    have "(0x10 :: u8) = push_bit 4 1" by simp
    then show ?thesis by (simp add: bit_iff_and_push_bit_not_eq_0)
  qed
  then show "de_Attr (dir_ent e 0) AND ATTR_DIR \<noteq> 0 \<longleftrightarrow> is_dir e" by (simp add: dir_ent_def is_dir_def)
  have "first_clus (dir_ent e 0) = dword_of [e ! 26, e ! 27, e ! 20, e ! 21] 0"
    by (simp add: first_clus_def dir_ent_def dword_of_def word_of_def or.commute)
  then show "first_clus (dir_ent e 0) = of_nat (entry_clus e)"
    by (simp add: dword_of_le32 le32_def le16_def entry_clus_def)
  show "de_FileSize (dir_ent e 0) = of_nat (entry_size e)" by (simp add: dir_ent_def entry_size_def dword_of_le32)
qed

section \<open>Looking a path up\<close>

text \<open>What the server answers, and what it writes to the caller's structure.\<close>

definition answer :: "u8 list list \<Rightarrow> fs_file_info \<Rightarrow> found \<Rightarrow> u32 \<times> fs_file_info" where
  "answer names fi r = (case r of
       File_entry e \<Rightarrow> (0, fi\<lparr>filename := last names @ drop (length (last names)) (filename fi),
                             filesize := of_nat (entry_size e), clus := of_nat (entry_clus e)\<rparr>)
     | Missing \<Rightarrow> (1, fi)
     | Wrong_kind \<Rightarrow> (3, fi))"

lemma get_file_info_volume:
  assumes "serves rd (fs_drv fs) lim dk" "volume_ok fs" "volume_of dk fs" "lim \<le> 2 ^ 32"
    "directory lim dk c cs" "\<forall>m \<in> set (n # ns). short_name m"
  shows "get_file_info rd fs (of_nat c) (path_of (n # ns)) fi =
    (case find (names_entry n) (dir_entries (raw_entries (chain_bytes dk cs))) of
       None \<Rightarrow> Some (Inr (answer (n # ns) fi Missing))
     | Some e \<Rightarrow>
         if is_dir e \<and> ns \<noteq> [] then get_file_info rd fs (of_nat (entry_clus e)) (path_of ns) fi
         else if is_dir e \<or> ns \<noteq> [] then Some (Inr (answer (n # ns) fi Wrong_kind))
         else Some (Inr (answer (n # ns) fi (File_entry e))))"
proof -
  let ?E = "dir_entries (raw_entries (chain_bytes dk cs))"
  have good: "\<forall>m \<in> set (n # ns). good_name m" using assms(6) by (simp add: short_name_def good_name_def)
  note l = path_of_last [OF list.distinct(2) good]
  have p: "path_of (n # ns) = 0x2F # n @ path_of ns" by (simp add: path_of_def)
  have r: "path_of ns = [] \<longleftrightarrow> ns = []" "path_of ns = [] \<or> (\<exists>r. path_of ns = 0x2F # r)"
    by (cases ns; simp add: path_of_def)+
  have "good_name n" using good by simp
  note ce = component_end_name [OF this r(2)]
  have "\<forall>e \<in> set ?E. length e = 32"
    unfolding dir_entries_def using length_entries by (auto dest: set_takeWhileD)
  then have f: "find (ent_matches (write_8_3_filename (name_of (path_of (n # ns))))) (dir_list dk fs (map of_nat cs)) =
      map_option (\<lambda>e. dir_ent e 0) (find (names_entry n) ?E)"
    unfolding dir_list_volume [OF assms(3,4,1,5)] p ce(2) using assms(6) by (intro find_raw) simp_all
  have "drop (1 + length n) (0x2F # n @ path_of ns) = path_of ns" by simp
  then show ?thesis
    unfolding get_file_info_chain [OF assms(1,2) l(1,2) dir_chain_volume [OF assms(3,4,5)]] f
    unfolding p outcome_def ce
    by (simp add: raw_fields r(1) answer_def put_at_def split: option.split del: One_nat_def)
qed

lemma get_file_info_leads:
  assumes "serves rd (fs_drv fs) lim dk" "volume_ok fs" "volume_of dk fs" "lim \<le> 2 ^ 32"
  shows "leads lim dk c names r \<Longrightarrow> \<forall>n \<in> set names. short_name n \<Longrightarrow>
    get_file_info rd fs (of_nat c) (path_of names) fi = Some (Inr (answer names fi r))"
proof (induction rule: leads.induct)
  case (leads_missing c cs n ns)
  then have "find (names_entry n) (dir_entries (raw_entries (chain_bytes dk cs))) = None" by (simp add: find_None_iff)
  then show ?case using get_file_info_volume [OF assms leads_missing(1,3)] by simp
next
  case (leads_wrong c cs n e ns)
  then show ?case using get_file_info_volume [OF assms leads_wrong(1,4)] by simp
next
  case (leads_file c cs n e)
  then show ?case using get_file_info_volume [OF assms leads_file(1,4)] by simp
next
  case (leads_down c cs n e ns r)
  then show ?case using get_file_info_volume [OF assms leads_down(1) leads_down.prems]
    by (cases r) (simp_all add: answer_def)
qed

end
