(* ===== verification/Fs_Correct.thy ===== *)
theory Fs_Correct
  imports Fat_Volume
begin

text \<open>
  What the file system server delivers: the bytes of the files of a FAT32 volume, by name, once the
  driver of the disk has answered its first requests.
\<close>

section \<open>A volume\<close>

text \<open>
  Two sectors to a cluster, a reserved region of 6 sectors and two copies of a table of one sector;
  the root directory, in cluster 2, holds a deleted entry, a piece of a long name that begins with the
  bytes of the file's name, and the entry of one file, whose bytes lie in cluster 3.
\<close>

definition demo_ent :: "u8 list" where
  "demo_ent = [0x46] @ replicate 10 0x20 @ [0x20] @ replicate 8 0 @ [0, 0] @ replicate 4 0 @ [3, 0] @ [0x50, 3, 0, 0]"

definition demo_deleted :: "u8 list" where
  "demo_deleted = [0xE5] @ replicate 10 0x20 @ [0x20] @ replicate 20 7"

definition demo_long :: "u8 list" where
  "demo_long = [0x46] @ replicate 10 0x20 @ [0x0F] @ replicate 20 9"

definition demo_disk :: "u32 \<Rightarrow> u8 list" where
  "demo_disk l =
     (if l = 0 then replicate 13 0 @ [2] @ [6, 0] @ [2] @ replicate 19 0 @ [1, 0, 0, 0] @ replicate 4 0 @ [2, 0, 0, 0] @ replicate 464 0
      else if l = 6 then replicate 8 0xFF @ [0xFF, 0xFF, 0xFF, 0x0F] @ [0xFF, 0xFF, 0xFF, 0x0F] @ replicate 496 0
      else if l = 8 then demo_deleted @ demo_long @ demo_ent @ replicate 416 0
      else if l = 10 then replicate 512 0x41
      else if l = 11 then replicate 512 0x42
      else replicate 512 0)"

definition demo_reader :: reader where
  "demo_reader drv l n = take n (demo_disk l)"

text \<open>A driver that answers.\<close>

abbreviation (input) demo_start :: "FAT32_FileSystem option" where
  "demo_start \<equiv> fs_start (\<lambda>_. Some 0) (\<lambda>_. Some no_part) demo_reader"

definition demo_fs :: FAT32_FileSystem where
  "demo_fs = the demo_start"

lemma demo_serves: "serves demo_reader drv (2 ^ 32) demo_disk"
  by (simp add: serves_def demo_reader_def demo_disk_def demo_ent_def demo_deleted_def demo_long_def)

lemma demo_started: "demo_start = Some demo_fs"
  by (simp add: demo_fs_def fs_start_def ReadBootSector_def)

lemma demo_fs_simps:
  "FATstartSct demo_fs = 6" "SecPerClus demo_fs = 2" "RootClus demo_fs = 2" "FirstDataClus demo_fs = 8" "fs_drv demo_fs = 1"
  by (simp_all add: demo_fs_def fs_start_def ReadFSInfo_def ReadBootSector_def MAKE_DRV_def demo_reader_def demo_disk_def
      boot_sector_def word_of_def dword_of_def nth_append Let_def)

definition demo_info :: fs_file_info where
  "demo_info = \<lparr>filename = replicate 12 0, filesize = 848, clus = 3\<rparr>"

lemma demo_volume: "volume_ok demo_fs"
  by (simp add: volume_ok_def demo_fs_simps)

lemma demo_first_sector: "first_sector demo_fs n = 8 + (n - 2) * 2"
  by (simp add: first_sector_def demo_fs_simps)

lemma demo_on_disk: "clus_on_disk (2 ^ 32) demo_fs c"
  unfolding clus_on_disk_def using unat_lt32 by blast

lemma demo_file: "file_on (2 ^ 32) demo_disk demo_fs demo_info [3]"
  using demo_on_disk by (simp add: file_on_def demo_info_def demo_fs_simps)

lemma demo_file_bytes: "file_bytes demo_disk demo_fs [3] = replicate 512 0x41 @ replicate 512 0x42"
  by (simp add: file_bytes_def clus_bytes_def demo_fs_simps demo_first_sector demo_disk_def upt_rec)

section \<open>Properties\<close>

text \<open>
  C13. A read at an offset that is a multiple of 512, or that lies in the first sector of its cluster,
  stores exactly the bytes of the file from there on, to the end of the file at most, and returns
  their number, whatever number of sectors and clusters they spread over.
\<close>

theorem read_file_correct:
  assumes "serves rd (fs_drv fs) lim dk" "volume_ok fs" "file_on lim dk fs fi cs"
    "unat off < unat (filesize fi)" "unat off + 512 * unat (SecPerClus fs) < 2 ^ 32" "unat off + unat count < 2 ^ 32"
    "unat off mod 512 = 0 \<or> unat off mod (512 * unat (SecPerClus fs)) < 512"
  shows "read_file rd fs fi off count =
    (let n = min (unat count) (unat (filesize fi) - unat off)
     in Some (of_nat n, take n (drop (unat off) (file_bytes dk fs cs))))"
proof -
  let ?n = "min (unat count) (unat (filesize fi) - unat off)"
  let ?B = "512 * unat (SecPerClus fs)" and ?s = "if unat off mod 512 \<noteq> 0 then min (512 - unat off mod 512) ?n else 0"
  note r = read_file_bytes [OF assms(1-4) refl assms(5,6) refl refl]
  show ?thesis
  proof (cases "unat off mod 512 = 0")
    case True
    then show ?thesis unfolding r by (simp add: Let_def)
  next
    case False
    then have "unat off mod ?B < 512" using assms(7) by simp
    moreover have "unat off mod ?B mod 512 = unat off mod 512" by (rule mod_mod_cancel) simp
    ultimately have m: "unat off mod ?B = unat off mod 512" by simp
    have "take ?s (drop (unat off mod 512) (dk (first_sector fs (cs ! (unat off div ?B))))) =
        take ?s (drop (unat off) (file_bytes dk fs cs))"
      unfolding m [symmetric] by (rule head_of_cluster [OF assms(1-4)]) (simp_all add: m)
    moreover have "take ?n xs = take ?s xs @ take (?n - ?s) (drop ?s xs)" for xs :: "u8 list"
    proof -
      have "?s \<le> ?n" by (simp only: min.cobounded2 split: if_split) simp
      then have "?s + (?n - ?s) = ?n" by (rule le_add_diff_inverse)
      then show ?thesis by (metis take_add)
    qed
    ultimately show ?thesis unfolding r using False by (simp add: Let_def add.commute)
  qed
qed

theorem read_file_correct_witness:
  "read_file demo_reader demo_fs demo_info 512 400 = Some (336, replicate 336 0x42)"
proof -
  have "read_file demo_reader demo_fs demo_info 512 400 =
    (let n = min (unat (400 :: u32)) (unat (filesize demo_info) - unat (512 :: u32))
     in Some (of_nat n, take n (drop (unat (512 :: u32)) (file_bytes demo_disk demo_fs [3]))))"
    by (rule read_file_correct [OF demo_serves demo_volume demo_file]) (simp_all add: demo_info_def demo_fs_simps)
  then show ?thesis by (simp add: demo_info_def demo_file_bytes Let_def)
qed

text \<open>
  A read at any other offset stores, up to the end of the sector of the offset, bytes of the first
  sector of the cluster instead of those of the sector the offset lies in; the bytes after them are
  the file's.
\<close>

theorem read_file_wrong_sector:
  assumes "serves rd (fs_drv fs) lim dk" "volume_ok fs" "file_on lim dk fs fi cs"
    "unat off < unat (filesize fi)" "unat off + 512 * unat (SecPerClus fs) < 2 ^ 32" "unat off + unat count < 2 ^ 32"
    "unat off mod 512 \<noteq> 0" "512 \<le> unat off mod (512 * unat (SecPerClus fs))"
  shows "let n = min (unat count) (unat (filesize fi) - unat off); s = min (512 - unat off mod 512) n;
      c = first_sector fs (cs ! (unat off div (512 * unat (SecPerClus fs))));
      wrong = take s (drop (unat off mod 512) (dk c));
      right = take s (drop (unat off mod 512) (dk (c + of_nat (unat off mod (512 * unat (SecPerClus fs)) div 512))));
      rest = take (n - s) (drop (unat off + s) (file_bytes dk fs cs))
    in read_file rd fs fi off count = Some (of_nat n, wrong @ rest) \<and> take n (drop (unat off) (file_bytes dk fs cs)) = right @ rest"
proof -
  let ?n = "min (unat count) (unat (filesize fi) - unat off)"
  let ?s = "min (512 - unat off mod 512) ?n"
  note r = read_file_bytes [OF assms(1-4) refl assms(5,6) refl refl]
  have "?s + (?n - ?s) = ?n" by (rule le_add_diff_inverse [OF min.cobounded2])
  then have "take ?n xs = take ?s xs @ take (?n - ?s) (drop ?s xs)" for xs :: "u8 list" by (metis take_add)
  moreover note sector_of_offset [OF assms(1-4) refl, of ?s]
  ultimately show ?thesis unfolding r Let_def using assms(7) by (simp add: add.commute)
qed

theorem read_file_wrong_sector_witness:
  "read_file demo_reader demo_fs demo_info 600 20 = Some (20, replicate 20 0x41) \<and>
   take 20 (drop 600 (file_bytes demo_disk demo_fs [3])) = replicate 20 0x42"
proof -
  have m: "unat (600 :: u32) mod (512 * unat (SecPerClus demo_fs)) = 600" "unat (600 :: u32) mod 512 = 88"
    "unat (600 :: u32) div (512 * unat (SecPerClus demo_fs)) = 0"
    by (simp_all add: demo_fs_simps)
  have n: "min (unat (20 :: u32)) (unat (filesize demo_info) - unat (600 :: u32)) = 20" by (simp add: demo_info_def)
  have "read_file demo_reader demo_fs demo_info 600 20 =
    Some (of_nat 20, take 20 (drop 88 (demo_disk (first_sector demo_fs ([3] ! 0)))) @
      take 0 (drop (600 + 20) (file_bytes demo_disk demo_fs [3])))"
    using read_file_wrong_sector [OF demo_serves demo_volume demo_file, of 600 20, unfolded m n Let_def]
    by (simp add: demo_info_def demo_fs_simps)
  then show ?thesis by (simp add: demo_first_sector demo_disk_def demo_file_bytes)
qed


lemma raw_entries_Cons: "length e = 32 \<Longrightarrow> raw_entries (e @ bs) = e # raw_entries bs"
proof -
  assume e: "length e = 32"
  have "[0..<Suc n] = 0 # map Suc [0..<n]" for n by (simp add: map_Suc_upt upt_conv_Cons)
  moreover have "length (e @ bs) div 32 = Suc (length bs div 32)" using e by simp
  ultimately show ?thesis using e by (simp add: raw_entries_def comp_def del: upt_Suc)
qed

lemma raw_entries_replicate: "raw_entries (replicate (32 * k) 0) = replicate k (replicate 32 0)"
proof (induction k)
  case (Suc k)
  have "replicate (32 * Suc k) 0 = replicate 32 0 @ replicate (32 * k) (0 :: u8)"
    by (simp flip: replicate_add)
  then show ?case using Suc by (simp only: raw_entries_Cons length_replicate replicate_Suc)
qed (simp add: raw_entries_def)

lemma ended_replicate:
  assumes "\<forall>e \<in> set es. e ! 0 \<noteq> 0" "z ! 0 = 0"
  shows "ended (es @ replicate k z)" "dir_entries (es @ replicate k z) = es"
proof -
  show "ended (es @ replicate k z)"
    unfolding ended_def using assms by (auto simp: nth_append)
  show "dir_entries (es @ replicate k z) = es"
    unfolding dir_entries_def using assms by (simp add: takeWhile_append takeWhile_replicate)
qed

lemma demo_entries: "raw_entries (chain_bytes demo_disk [2]) = [demo_deleted, demo_long, demo_ent] @ replicate 29 (replicate 32 0)"
proof -
  have "clus_sectors demo_disk = 2" "clus_start demo_disk 2 = 8"
    by (simp_all add: clus_sectors_def clus_start_def data_start_def fat_start_def le16_def le32_def demo_disk_def nth_append)
  then have "chain_bytes demo_disk [2] = demo_deleted @ demo_long @ demo_ent @ replicate (32 * 29) 0"
    by (simp add: chain_bytes_def cluster_def demo_disk_def upt_rec flip: replicate_add)
  moreover have "length demo_deleted = 32" "length demo_long = 32" "length demo_ent = 32"
    by (simp_all add: demo_deleted_def demo_long_def demo_ent_def)
  ultimately show ?thesis by (simp only: raw_entries_replicate raw_entries_Cons append.simps)
qed

lemma demo_entry:
  "demo_ent ! 0 = 0x46" "demo_ent ! 11 = 0x20" "take 11 demo_ent = 0x46 # replicate 10 0x20" "entry_size demo_ent = 848"
  "entry_clus demo_ent = 3" "demo_deleted ! 0 = 0xE5" "demo_deleted ! 11 = 0x20" "demo_long ! 0 = 0x46" "demo_long ! 11 = 0x0F"
  "le16 demo_ent 20 = 0" "le16 demo_ent 26 = 3" "le32 demo_ent 28 = 848"
  by (simp_all add: demo_ent_def demo_deleted_def demo_long_def entry_size_def entry_clus_def le32_def le16_def nth_append)

lemma demo_directory:
  "directory (2 ^ 32) demo_disk 2 [2]" "dir_entries (raw_entries (chain_bytes demo_disk [2])) = [demo_deleted, demo_long, demo_ent]"
proof -
  note e = ended_replicate [of "[demo_deleted, demo_long, demo_ent]" "replicate 32 0" 29]
  show "dir_entries (raw_entries (chain_bytes demo_disk [2])) = [demo_deleted, demo_long, demo_ent]"
    unfolding demo_entries by (rule e(2)) (simp_all add: demo_entry)
  have "ended (raw_entries (chain_bytes demo_disk [2]))"
    unfolding demo_entries by (rule e(1)) (simp_all add: demo_entry)
  then show "directory (2 ^ 32) demo_disk 2 [2]"
    by (simp add: directory_def chained_def clus_ok_def next_clus_def clus_start_def data_start_def clus_sectors_def
        fat_start_def le16_def le32_def demo_disk_def nth_append)
qed

lemma demo_is_volume: "fat_volume (2 ^ 32) demo_disk"
  by (simp add: fat_volume_def clus_sectors_def le32_def le16_def demo_disk_def nth_append)

lemma demo_names: "disk_name [c] = padded 8 [upper_case c] @ replicate 3 0x20" if "c \<noteq> 0x2E"
  using that by (simp add: disk_name_def base_part_def ext_part_def padded_def)

lemma demo_leads: "leads (2 ^ 32) demo_disk 2 [[0x66]] (File_entry demo_ent)" "leads (2 ^ 32) demo_disk 2 [[0x67]] Missing"
proof -
  have n: "names_entry [0x66] demo_ent" "\<not> names_entry n demo_deleted" "\<not> names_entry n demo_long" "\<not> names_entry [0x67] demo_ent"
    for n by (simp_all add: names_entry_def demo_entry demo_names upper_case_def padded_def flip: replicate_add)
  show "leads (2 ^ 32) demo_disk 2 [[0x66]] (File_entry demo_ent)"
    by (rule leads_file [OF demo_directory(1)])
      (simp_all add: demo_directory(2) n is_dir_def demo_entry bit_iff_odd)
  show "leads (2 ^ 32) demo_disk 2 [[0x67]] Missing"
    by (rule leads_missing [OF demo_directory(1)]) (simp add: demo_directory(2) n)
qed

lemma demo_short: "c \<notin> {0, 0x2F, 0x2E} \<Longrightarrow> short_name [c]"
  by (simp add: short_name_def base_part_def ext_part_def)


lemma demo_chain: "dir_chain (2 ^ 32) demo_disk demo_fs 2 [2]"
  using dir_chain_volume [OF started(2) [OF demo_serves demo_is_volume demo_started] _ demo_directory(1)] by simp

lemma demo_dir: "dir_list demo_disk demo_fs [2] = map (\<lambda>e. dir_ent e 0) [demo_deleted, demo_long, demo_ent]"
  using dir_list_volume [OF started(2) [OF demo_serves demo_is_volume demo_started] _ demo_serves demo_directory(1)]
  by (simp add: demo_directory(2))

text \<open>
  A last component of eleven characters or more is never found, whether the directory has such a
  file or not: the end of the string lies beyond where the code looks for it. A full 8.3 name of
  twelve characters cannot be opened.
\<close>

theorem long_name_not_found:
  assumes "serves rd (fs_drv fs) lim dk" "volume_ok fs" "dir_chain lim dk fs c cs"
    "11 \<le> length name" "0x2F \<notin> set name"
    "\<forall>e \<in> set (dir_list dk fs cs). ent_matches (write_8_3_filename (take 11 name)) e \<longrightarrow> de_Attr e AND ATTR_DIR = 0"
  shows "\<exists>r \<in> {1, 3}. get_file_info rd fs c (0x2F # name) fi = Some (Inr (r, fi))"
proof -
  have scan: "component_end (0x2F # name) (12 - k) = (12, False)" if "k \<le> 11" for k
    using that
  proof (induction k)
    case (Suc k)
    have "name ! (10 - k) \<in> set name" using assms(4) by (intro nth_mem) simp
    then have "name ! (10 - k) \<noteq> 0x2F" using assms(5) by metis
    moreover have "(0x2F # name) ! (11 - k) = name ! (10 - k)" "Suc (11 - k) = 12 - k" "12 - Suc k = 11 - k"
      using Suc.prems by (simp_all add: nth_Cons')
    ultimately show ?case using Suc assms(4) by (simp add: component_end.simps [of _ "11 - k"])
  qed (simp add: component_end.simps)
  have ce: "component_end (0x2F # name) 1 = (12, False)" using scan [of 11] by simp
  have "last name \<in> set name" using assms(4) by (intro last_in_set) auto
  then have "last (0x2F # name) \<noteq> 0x2F" using assms(4,5) by auto
  note step = get_file_info_chain [OF assms(1,2) _ this assms(3), of fi]
  have nm: "name_of (0x2F # name) = take 11 name" unfolding name_of_def ce by simp
  show ?thesis
  proof (cases "find (ent_matches (write_8_3_filename (take 11 name))) (dir_list dk fs cs)")
    case None
    then show ?thesis using step by (simp add: nm)
  next
    case (Some e)
    then have "de_Attr e AND ATTR_DIR = 0" using assms(6) by (auto simp: find_Some_iff)
    then have "outcome rd fs (0x2F # name) fi e = Some (Inr (3, fi))" unfolding outcome_def ce by simp
    then show ?thesis using step Some by (simp add: nm)
  qed
qed

theorem long_name_not_found_witness:
  "\<exists>r \<in> {1, 3}. get_file_info demo_reader demo_fs 2 (0x2F # replicate 8 0x46 @ [0x2E, 0x54, 0x58, 0x54]) demo_info =
     Some (Inr (r, demo_info))"
  by (rule long_name_not_found [OF demo_serves demo_volume demo_chain]) (simp_all add: demo_dir dir_ent_def demo_entry)

text \<open>A name of up to 8 characters with an extension of up to 3 is padded and put in upper case as the directory holds it.\<close>

theorem write_8_3_filename_correct:
  assumes "length base \<le> 8" "length ext \<le> 3" "0x2E \<notin> set ext"
  shows "write_8_3_filename (base @ 0x2E # ext) =
    map char_upper base @ replicate (8 - length base) 0x20 @ map char_upper ext @ replicate (3 - length ext) 0x20"
  by (rule write_8_3_dotted [OF assms])

theorem write_8_3_filename_correct_witness:
  "write_8_3_filename ([0x61, 0x62] @ 0x2E # [0x63]) = [0x41, 0x42] @ replicate 6 0x20 @ [0x43] @ replicate 2 0x20"
  using write_8_3_filename_correct [of "[0x61, 0x62]" "[0x63]"] by (simp add: char_upper_def)

text \<open>The other direction has no use: it takes the length of eight bytes that hold no terminator.\<close>

lemma read_8_3_filename_faults:
  assumes "8 \<le> length fname" "0 \<notin> set (take 8 fname)"
  shows "read_8_3_filename fname buf = Inl OutOfBounds"
proof -
  let ?s = "dropWhile (\<lambda>c. c = 0x20) (take 8 fname)"
  have "0 \<notin> set ?s" using assms(2) set_dropWhileD by fastforce
  moreover from this have "?s \<noteq> [] \<Longrightarrow> List.hd ?s \<noteq> 0" by (metis list.set_sel(1))
  ultimately have "TrimWhiteSpace (take 8 fname) = Inl OutOfBounds" by (simp add: TrimWhiteSpace_def Let_def)
  then show ?thesis by (simp add: read_8_3_filename_def Let_def)
qed

section \<open>The server\<close>

text \<open>
  C12. The server, started on a FAT32 volume whose root directory begins in cluster 2, answers the request
  for a file by its path with what a following request for its bytes needs, and that one, from an offset
  that is a multiple of 512, with the bytes of the file, in the chain of clusters that the allocation table
  gives it. The volume, its directories, names and files are those that the bytes of its sectors describe.
  That the driver answers the requests of the start is required, and so is that the chain holds the size
  in the entry and that the offset and count, and the offset and one cluster, add up to less than 4 GB.
\<close>

theorem fs_serves_file:
  assumes "serves rd 1 lim dk" "fat_volume lim dk" "fs_start dev_open info rd = Some fs"
    "leads lim dk 2 names (File_entry e)" "\<forall>n \<in> set names. short_name n"
    "chained lim dk (entry_clus e) cs" "entry_size e \<le> 512 * clus_sectors dk * length cs"
    "unat off mod 512 = 0" "unat off < entry_size e" "unat off + 512 * clus_sectors dk < 2 ^ 32"
    "unat off + unat count < 2 ^ 32"
  shows "\<exists>fi'. fs_turn rd fs (FS_GET_FILE_INFO (path_of names) fi) = Some (Inr (File_info 0 fi')) \<and>
    fs_turn rd fs (FS_READ_FILE fi' off count) =
      (let n = min (unat count) (entry_size e - unat off)
       in Some (Inr (Read_bytes (of_nat n) (take n (drop (unat off) (chain_bytes dk cs))))))"
proof -
  let ?fi = "fi\<lparr>filename := last names @ drop (length (last names)) (filename fi),
    filesize := of_nat (entry_size e), clus := of_nat (entry_clus e)\<rparr>"
  note st = started [OF assms(1-3)]
  have sv: "serves rd (fs_drv fs) lim dk" and lim: "lim \<le> 2 ^ 32" using assms(1,2) st(1) by (simp_all add: fat_volume_def)
  note cv = chained_volume [OF st(2) lim assms(6)] and spc = spc_volume [OF st(2)]
  have sz: "unat (of_nat (entry_size e) :: u32) = entry_size e"
    by (simp add: entry_size_def unat_dword_of flip: dword_of_le32)
  have "cs \<noteq> []" "cs ! 0 = entry_clus e" using assms(6) by (simp_all add: chained_def)
  then have fo: "file_on lim dk fs ?fi (map of_nat cs)"
    using cv(1,2) assms(7) by (simp add: file_on_def sz spc)
  have "read_file rd fs ?fi off count =
      (let n = min (unat count) (entry_size e - unat off) in Some (of_nat n, take n (drop (unat off) (chain_bytes dk cs))))"
    using read_file_bytes [OF sv st(3) fo, of off _ count, OF _ refl _ _ refl refl] assms(8-11) cv(3)
    by (simp add: Let_def sz spc file_bytes_def)
  moreover have "get_file_info rd fs (RootClus fs) (path_of names) fi = Some (Inr (0, ?fi))"
    using get_file_info_leads [OF sv st(3,2) lim assms(4,5), of fi] st(2) by (simp add: answer_def volume_of_def)
  ultimately show ?thesis by (intro exI [of _ ?fi]) (simp add: fs_turn_def Let_def)
qed

theorem fs_serves_file_witness:
  "\<exists>fi'. fs_turn demo_reader demo_fs (FS_GET_FILE_INFO [0x2F, 0x66] demo_info) = Some (Inr (File_info 0 fi')) \<and>
     fs_turn demo_reader demo_fs (FS_READ_FILE fi' 512 400) = Some (Inr (Read_bytes 336 (replicate 336 0x42)))"
proof -
  have g: "clus_sectors demo_disk = 2" "clus_start demo_disk 3 = 10" "fat_start demo_disk = 6"
    by (simp_all add: clus_sectors_def clus_start_def data_start_def fat_start_def le16_def le32_def demo_disk_def nth_append)
  then have "chained (2 ^ 32) demo_disk (entry_clus demo_ent) [3]"
    by (simp add: chained_def clus_ok_def demo_entry)
  moreover have "chain_bytes demo_disk [3] = replicate 512 0x41 @ replicate 512 0x42"
    by (simp add: chain_bytes_def cluster_def g demo_disk_def upt_rec)
  ultimately show ?thesis
    using fs_serves_file [OF demo_serves demo_is_volume demo_started demo_leads(1), of "[3]" 512 400 demo_info]
    by (simp add: demo_short path_of_def demo_entry g Let_def)
qed

end
