(* ===== verification/Machine.thy ===== *)
theory Machine
  imports Port_Io
begin

text \<open>
  The processor as the board drivers use it: the port instructions with the accesses to registers in
  memory and to model-specific registers, and the drivers that need little more: the interrupt
  controller (\<^verbatim>\<open>driver/8259A.c\<close>), the timer (\<^verbatim>\<open>driver/8253.c\<close>), the serial port (\<^verbatim>\<open>driver/port.c\<close>) and
  the configuration space of the PCI bus (\<^verbatim>\<open>driver/pci.c\<close>). \<open>rdmsr\<close> and \<open>wrmsr\<close> take and give the low
  and the high half; \<open>cpuid\<close> takes what the register eax holds.
\<close>

record 'd machine = "'d ports" +
  rd16 :: "u32 \<Rightarrow> 'd \<Rightarrow> u16 \<times> 'd"
  wr16 :: "u32 \<Rightarrow> u16 \<Rightarrow> 'd \<Rightarrow> 'd"
  rd32 :: "u32 \<Rightarrow> 'd \<Rightarrow> u32 \<times> 'd"
  wr32 :: "u32 \<Rightarrow> u32 \<Rightarrow> 'd \<Rightarrow> 'd"
  wr8 :: "u32 \<Rightarrow> u8 \<Rightarrow> 'd \<Rightarrow> 'd"
  rdmsr :: "u32 \<Rightarrow> 'd \<Rightarrow> (u32 \<times> u32) \<times> 'd"
  wrmsr :: "u32 \<Rightarrow> u32 \<Rightarrow> u32 \<Rightarrow> 'd \<Rightarrow> 'd"
  cpuid :: "u32 \<Rightarrow> u32 \<times> u32 \<times> u32 \<times> u32"

section \<open>The interrupt controllers\<close>

abbreviation (input) IO_PIC_M :: u16 where "IO_PIC_M \<equiv> 0x20"
abbreviation (input) IO_PIC_S :: u16 where "IO_PIC_S \<equiv> 0xA0"

text \<open>\<open>io_wait\<close> writes to a port of no meaning.\<close>

definition io_wait :: "('d, 'z) ports_scheme \<Rightarrow> 'd \<Rightarrow> 'd" where
  "io_wait P d = outb P 0x80 0 d"

definition out_wait :: "('d, 'z) ports_scheme \<Rightarrow> u16 \<Rightarrow> u8 \<Rightarrow> 'd \<Rightarrow> 'd" where
  "out_wait P port v d = io_wait P (outb P port v d)"

definition pic_enable_interrupt :: "('d, 'z) ports_scheme \<Rightarrow> u32 \<Rightarrow> 'd \<Rightarrow> 'd" where
  "pic_enable_interrupt P irq d =
     (let port = (if irq < 8 then IO_PIC_M else IO_PIC_S);
          (v, d) = inb P port d
      in outb P (port + 1) (ucast (ucast v AND NOT (push_bit (unat irq) 1 :: u32))) d)"

definition pic_disable_interrupt :: "('d, 'z) ports_scheme \<Rightarrow> u32 \<Rightarrow> 'd \<Rightarrow> 'd" where
  "pic_disable_interrupt P irq d =
     (let port = (if irq < 8 then IO_PIC_M else IO_PIC_S);
          (v, d) = inb P port d
      in outb P (port + 1) (ucast (ucast v OR (push_bit (unat irq) 1 :: u32))) d)"

definition pic_end_interrupt :: "('d, 'z) ports_scheme \<Rightarrow> u32 \<Rightarrow> 'd \<Rightarrow> 'd" where
  "pic_end_interrupt P i d =
     (let d = outb P IO_PIC_M 0x20 d in if i < 8 then d else outb P IO_PIC_S 0x20 d)"

text \<open>The initialisation words, which the driver of the APIC sends as well.\<close>

definition remap_pic :: "('d, 'z) ports_scheme \<Rightarrow> 'd \<Rightarrow> 'd" where
  "remap_pic P d = fold (\<lambda>(port, v). out_wait P port v)
     [(IO_PIC_M, 0x11), (IO_PIC_S, 0x11), (IO_PIC_M + 1, 0x20), (IO_PIC_S + 1, 0x28),
      (IO_PIC_M + 1, 0x4), (IO_PIC_S + 1, 0x2), (IO_PIC_M + 1, 0x1), (IO_PIC_S + 1, 0x1)] d"

definition init_8259A :: "('d, 'z) ports_scheme \<Rightarrow> 'd \<Rightarrow> 'd" where
  "init_8259A P d = out_seq P [(IO_PIC_M + 1, 0x00), (IO_PIC_S + 1, 0x00)] (remap_pic P d)"

section \<open>The timer\<close>

abbreviation (input) FREQ_8253 :: u32 where "FREQ_8253 \<equiv> 1193180"
abbreviation (input) BEATS_RATE :: u32 where "BEATS_RATE \<equiv> 100"
abbreviation (input) BEATS_MS :: u32 where "BEATS_MS \<equiv> 10"

definition I8253_CNL0_DATA :: u32 where
  "I8253_CNL0_DATA = FREQ_8253 div BEATS_RATE"

definition init_8253 :: "('d, 'z) ports_scheme \<Rightarrow> 'd \<Rightarrow> 'd" where
  "init_8253 P d = out_seq P
     [(0x43, 0x34), (0x40, ucast (I8253_CNL0_DATA AND 0xFF)), (0x40, ucast (drop_bit 8 I8253_CNL0_DATA AND 0xFF))] d"

definition disable_8253 :: "('d, 'z) ports_scheme \<Rightarrow> 'd \<Rightarrow> 'd" where
  "disable_8253 P d = out_seq P [(0x43, 0x32), (0x40, 0), (0x40, 0)] d"

section \<open>The serial port\<close>

abbreviation (input) PORT :: u16 where "PORT \<equiv> 0x3F8"

definition init_port :: "('d, 'z) ports_scheme \<Rightarrow> 'd \<Rightarrow> 'd" where
  "init_port P d = out_seq P
     [(PORT + 1, 0x00), (PORT + 3, 0x80), (PORT + 0, 0x03), (PORT + 1, 0x00), (PORT + 3, 0x03),
      (PORT + 2, 0xC7), (PORT + 4, 0x0B)] d"

definition serial_received :: "('d, 'z) ports_scheme \<Rightarrow> 'd \<Rightarrow> u8 \<times> 'd" where
  "serial_received P d = (let (v, d) = inb P (PORT + 5) d in (v AND 1, d))"

partial_function (option) read_serial :: "('d, 'z) ports_scheme \<Rightarrow> 'd \<Rightarrow> (u8 \<times> 'd) option" where
  "read_serial P d =
     (let (v, d) = serial_received P d in if v = 0 then read_serial P d else Some (inb P PORT d))"

definition is_transmit_empty :: "('d, 'z) ports_scheme \<Rightarrow> 'd \<Rightarrow> u8 \<times> 'd" where
  "is_transmit_empty P d = (let (v, d) = inb P (PORT + 5) d in (v AND 0x20, d))"

partial_function (option) write_serial :: "('d, 'z) ports_scheme \<Rightarrow> u8 \<Rightarrow> 'd \<Rightarrow> 'd option" where
  "write_serial P a d =
     (let (v, d) = is_transmit_empty P d in if v = 0 then write_serial P a d else Some (outb P PORT a d))"

fun write_serials :: "('d, 'z) ports_scheme \<Rightarrow> u8 list \<Rightarrow> 'd \<Rightarrow> 'd option" where
  "write_serials P [] d = Some d"
| "write_serials P (c # cs) d = Option.bind (write_serial P c d) (write_serials P cs)"

section \<open>The configuration space of the bus\<close>

abbreviation (input) PCI_CONF_ADDR :: u16 where "PCI_CONF_ADDR \<equiv> 0xCF8"
abbreviation (input) PCI_CONF_DATA :: u16 where "PCI_CONF_DATA \<equiv> 0xCFC"

definition pci_address :: "u8 \<Rightarrow> u8 \<Rightarrow> u8 \<Rightarrow> u8 \<Rightarrow> u32" where
  "pci_address bus_no slot func offset =
     push_bit 16 (ucast bus_no) OR push_bit 11 (ucast slot) OR push_bit 8 (ucast func) OR
     (ucast offset AND 0xFC) OR 0x80000000"

definition pci_config_read32 :: "('d, 'z) ports_scheme \<Rightarrow> u8 \<Rightarrow> u8 \<Rightarrow> u8 \<Rightarrow> u8 \<Rightarrow> 'd \<Rightarrow> u32 \<times> 'd" where
  "pci_config_read32 P bus_no slot func offset d =
     inl P PCI_CONF_DATA (io_wait P (outl P PCI_CONF_ADDR (pci_address bus_no slot func offset) d))"

definition pci_config_read16 :: "('d, 'z) ports_scheme \<Rightarrow> u8 \<Rightarrow> u8 \<Rightarrow> u8 \<Rightarrow> u8 \<Rightarrow> 'd \<Rightarrow> u16 \<times> 'd" where
  "pci_config_read16 P bus_no slot func offset d =
     (let (v, d) = inl P PCI_CONF_DATA (io_wait P (outl P PCI_CONF_ADDR (pci_address bus_no slot func offset) d))
      in (ucast (drop_bit (unat (offset AND 2) * 8) v AND 0xFFFF), d))"

section \<open>The mask of the second interrupt controller\<close>

text \<open>
  A line of the second controller is neither enabled nor disabled: the mask is written back as it
  was read (from the port of commands, besides), since the bit lies outside the byte that is written.
\<close>

lemma pic_slave_mask_lost:
  assumes "8 \<le> unat irq" "unat irq < 32" "inb P IO_PIC_S d = (v, d')"
  shows "pic_enable_interrupt P irq d = outb P (IO_PIC_S + 1) v d'"
    "pic_disable_interrupt P irq d = outb P (IO_PIC_S + 1) v d'"
proof -
  have "\<not> irq < 8" using assms(1) by (simp add: word_less_nat_alt)
  moreover have "(ucast (ucast v AND NOT (push_bit (unat irq) 1 :: u32)) :: u8) = v"
    using assms(1) by (intro bit_word_eqI) (auto simp: bit_simps)
  moreover have "(ucast (ucast v OR (push_bit (unat irq) 1 :: u32)) :: u8) = v"
    using assms(1) by (intro bit_word_eqI) (auto simp: bit_simps)
  ultimately show "pic_enable_interrupt P irq d = outb P (IO_PIC_S + 1) v d'"
    "pic_disable_interrupt P irq d = outb P (IO_PIC_S + 1) v d'"
    using assms(3) by (simp_all add: pic_enable_interrupt_def pic_disable_interrupt_def Let_def)
qed

end
