(* ===== verification/Acpi.thy ===== *)
theory Acpi
  imports Machine
begin

text \<open>
  The tables of the firmware, \<^verbatim>\<open>driver/acpi.c\<close>: the search for the root pointer and for a table by
  its signature. The firmware's memory, which nothing writes, is a function from addresses to bytes.
\<close>

type_synonym ram = "u32 \<Rightarrow> u8"

definition ram16 :: "ram \<Rightarrow> u32 \<Rightarrow> u16" where
  "ram16 m a = ucast (m a) OR push_bit 8 (ucast (m (a + 1)))"

definition ram32 :: "ram \<Rightarrow> u32 \<Rightarrow> u32" where
  "ram32 m a = ucast (ram16 m a) OR push_bit 16 (ucast (ram16 m (a + 2)))"

definition ram_bytes :: "ram \<Rightarrow> u32 \<Rightarrow> nat \<Rightarrow> u8 list" where
  "ram_bytes m a n = map (\<lambda>i. m (a + of_nat i)) [0..<n]"

section \<open>Structures\<close>

text \<open>The packed structures at their offsets.\<close>

record RSDPDescriptor =
  Signature :: "u8 list"
  Revision :: u8
  RsdtAddress :: u32

definition rsdp_at :: "ram \<Rightarrow> u32 \<Rightarrow> RSDPDescriptor" where
  "rsdp_at m a = \<lparr>Signature = ram_bytes m a 8, Revision = m (a + 15), RsdtAddress = ram32 m (a + 16)\<rparr>"

abbreviation (input) sizeof_RSDP :: nat where "sizeof_RSDP \<equiv> 20"
abbreviation (input) sizeof_SDTHeader :: u32 where "sizeof_SDTHeader \<equiv> 36"

definition sdt_Signature :: "ram \<Rightarrow> u32 \<Rightarrow> u8 list" where
  "sdt_Signature m p = ram_bytes m p 4"

definition sdt_Length :: "ram \<Rightarrow> u32 \<Rightarrow> u32" where
  "sdt_Length m p = ram32 m (p + 4)"

definition rsdt_table :: "ram \<Rightarrow> u32 \<Rightarrow> u32 \<Rightarrow> u32" where
  "rsdt_table m rsdt i = ram32 m (rsdt + sizeof_SDTHeader + 4 * i)"

definition RSDT_TABLECOUNT :: "ram \<Rightarrow> u32 \<Rightarrow> u32" where
  "RSDT_TABLECOUNT m p = (sdt_Length m p - sizeof_SDTHeader) div 4"

section \<open>Checksums and searches\<close>

fun sum_bytes :: "ram \<Rightarrow> u32 \<Rightarrow> nat \<Rightarrow> u8 \<Rightarrow> u8" where
  "sum_bytes m p 0 s = s"
| "sum_bytes m p (Suc n) s = sum_bytes m (p + 1) n (s + m p)"

definition rsdp_checksum :: "ram \<Rightarrow> u32 \<Rightarrow> u8" where
  "rsdp_checksum m p = sum_bytes m p sizeof_RSDP 0"

definition sdt_checksum :: "ram \<Rightarrow> u32 \<Rightarrow> u8" where
  "sdt_checksum m p = sum_bytes m p (unat (sdt_Length m p)) 0"

definition rsdp_sig :: "u8 list" where
  "rsdp_sig = [0x52, 0x53, 0x44, 0x20, 0x50, 0x54, 0x52, 0x20]"

text \<open>The loop does not end where its pointer wraps around before the bound.\<close>

partial_function (option) rsdp_loop :: "ram \<Rightarrow> u32 \<Rightarrow> u32 \<Rightarrow> u32 option option" where
  "rsdp_loop m p bound =
     (if p < bound
      then if ram_bytes m p 8 = rsdp_sig \<and> rsdp_checksum m p = 0 then Some (Some p)
           else rsdp_loop m (p + 16) bound
      else Some None)"

definition search_rsdp :: "ram \<Rightarrow> u32 \<Rightarrow> u32 \<Rightarrow> u32 option option" where
  "search_rsdp m start max_offset = rsdp_loop m start (start + max_offset)"

fun sdt_loop :: "ram \<Rightarrow> u32 \<Rightarrow> u8 list \<Rightarrow> nat \<Rightarrow> u32 \<Rightarrow> u32 option" where
  "sdt_loop m rsdt sig 0 i = None"
| "sdt_loop m rsdt sig (Suc n) i =
     (let ph = rsdt_table m rsdt i
      in if sdt_checksum m ph = 0 \<and> sdt_Signature m ph = sig then Some ph
         else sdt_loop m rsdt sig n (i + 1))"

text \<open>A root table that is not valid only panics.\<close>

definition search_sdt :: "ram \<Rightarrow> u32 \<Rightarrow> u8 list \<Rightarrow> u32 option" where
  "search_sdt m rsdt sig =
     (if rsdt = 0 then None else sdt_loop m rsdt sig (unat (RSDT_TABLECOUNT m rsdt)) 0)"

section \<open>Initialisation\<close>

record acpi_env =
  env_rsdt :: u32
  env_ACPI_version :: u8
  env_rcba :: u32

text \<open>When no pointer is found the code goes on with a null pointer.\<close>

definition find_rsdp :: "ram \<Rightarrow> u32 option" where
  "find_rsdp m =
     Option.bind (search_rsdp m 0xE0000 (0xFFFFF - 0xE0000)) (\<lambda>r. case r of
       Some p \<Rightarrow> Some p
     | None \<Rightarrow> map_option (case_option 0 id) (search_rsdp m 0x40E 0x1000))"

definition find_rcba :: "('d, 'z) ports_scheme \<Rightarrow> 'd \<Rightarrow> u32 \<times> 'd" where
  "find_rcba P d =
     (let (vid, d) = pci_config_read16 P 0 31 0 0 d
      in if vid = 0x8086
         then let (rcba, d) = pci_config_read32 P 0 31 0 0xF0 d in (rcba AND 0xFFFFC000, d)
         else (0, d))"

definition init_acpi :: "('d, 'z) ports_scheme \<Rightarrow> ram \<Rightarrow> 'd \<Rightarrow> (acpi_env \<times> 'd) option" where
  "init_acpi P m d =
     map_option (\<lambda>rsdp.
       let r = rsdp_at m rsdp; (rcba, d) = find_rcba P d
       in (\<lparr>env_rsdt = RsdtAddress r, env_ACPI_version = Revision r, env_rcba = rcba\<rparr>, d))
     (find_rsdp m)"

section \<open>What the searches find\<close>

lemma sum_bytes_sum: "sum_bytes m p n s = s + sum_list (ram_bytes m p n)"
proof (induction n arbitrary: p s)
  case (Suc n)
  have "[0..<Suc n] = 0 # map Suc [0..<n]" by (simp add: upt_conv_Cons map_Suc_upt del: upt_Suc)
  then have "ram_bytes m p (Suc n) = m p # ram_bytes m (p + 1) n"
    by (simp only: ram_bytes_def list.map map_map) (simp add: comp_def add.assoc)
  then show ?case using Suc by (simp add: add.assoc)
qed (simp add: ram_bytes_def)

definition rsdp_ok :: "ram \<Rightarrow> u32 \<Rightarrow> bool" where
  "rsdp_ok m p \<longleftrightarrow> ram_bytes m p 8 = rsdp_sig \<and> sum_list (ram_bytes m p 20) = 0"

definition sdt_ok :: "ram \<Rightarrow> u8 list \<Rightarrow> u32 \<Rightarrow> bool" where
  "sdt_ok m sig p \<longleftrightarrow> sdt_Signature m p = sig \<and> sum_list (ram_bytes m p (unat (sdt_Length m p))) = 0"

lemma rsdp_loop_find:
  assumes "unat a + 16 * n < 2 ^ 32" "16 * n < unat len + 16" "unat len \<le> 16 * n" "unat a + unat len < 2 ^ 32"
  shows "k \<le> n \<Longrightarrow> rsdp_loop m (a + of_nat (16 * k)) (a + len) =
    Some (find (rsdp_ok m) (map (\<lambda>i. a + of_nat (16 * i)) [k..<n]))"
proof (induction "n - k" arbitrary: k)
  have b: "unat (a + len) = unat a + unat len" using assms(4) by (simp add: unat_add_lem [THEN iffD1])
  have p: "unat (a + of_nat (16 * k)) = unat a + 16 * k" if "k \<le> n" for k
    using assms(1) that by (intro unat_le_iff_add) simp
  {
    case 0
    then have "\<not> a + of_nat (16 * k) < a + len"
      using assms(3) p [of k] b by (simp add: word_less_nat_alt del: of_nat_mult)
    then show ?case using 0 by (subst rsdp_loop.simps) simp
  next
    case (Suc d)
    then have k: "k < n" by simp
    then have lt: "a + of_nat (16 * k) < a + len"
      using assms(2) p [of k] b by (simp add: word_less_nat_alt del: of_nat_mult)
    have nx: "a + of_nat (16 * k) + 16 = a + of_nat (16 * Suc k)" by (simp add: algebra_simps)
    have "rsdp_loop m (a + of_nat (16 * Suc k)) (a + len) = Some (find (rsdp_ok m) (map (\<lambda>i. a + of_nat (16 * i)) [Suc k..<n]))"
      using Suc.hyps(2) k by (intro Suc.hyps(1)) simp_all
    then show ?case using lt k unfolding upt_conv_Cons [OF k]
      by (subst rsdp_loop.simps)
        (simp add: nx rsdp_ok_def rsdp_checksum_def sum_bytes_sum del: of_nat_mult of_nat_Suc mult_Suc_right)
  }
qed

lemma sdt_loop_find:
  "sdt_loop m rsdt sig n (of_nat k) = find (sdt_ok m sig) (map (\<lambda>i. rsdt_table m rsdt (of_nat i)) [k..<k + n])"
proof (induction n arbitrary: k)
  case (Suc n)
  have "[k..<k + Suc n] = k # [Suc k..<Suc k + n]" by (simp add: upt_conv_Cons del: upt_Suc)
  then show ?case using Suc [of "Suc k"]
    by (auto simp: Let_def sdt_ok_def sdt_checksum_def sum_bytes_sum add.commute simp del: upt_Suc)
qed simp

text \<open>
  C40. The search for the root pointer ends, with the first candidate of the firmware's area that has
  the signature and a sum of bytes of 0, else with the first such one of 256 candidates from 0x40E on,
  none of which lies at a multiple of 16, where the pointer would be.
\<close>

theorem find_rsdp_correct:
  "find_rsdp m =
     Some (case find (rsdp_ok m) (map (\<lambda>i. 0xE0000 + of_nat (16 * i)) [0..<8192]) of
       Some p \<Rightarrow> p
     | None \<Rightarrow> (case find (rsdp_ok m) (map (\<lambda>i. 0x40E + of_nat (16 * i)) [0..<256]) of Some p \<Rightarrow> p | None \<Rightarrow> 0))"
proof -
  have "search_rsdp m 0xE0000 (0xFFFFF - 0xE0000) = Some (find (rsdp_ok m) (map (\<lambda>i. 0xE0000 + of_nat (16 * i)) [0..<8192]))"
    using rsdp_loop_find [of "0xE0000" 8192 "0x1FFFF" 0 m] by (simp add: search_rsdp_def)
  moreover have "search_rsdp m 0x40E 0x1000 = Some (find (rsdp_ok m) (map (\<lambda>i. 0x40E + of_nat (16 * i)) [0..<256]))"
    using rsdp_loop_find [of "0x40E" 256 "0x1000" 0 m] by (simp add: search_rsdp_def)
  ultimately show ?thesis by (simp add: find_rsdp_def id_def split: option.split)
qed

text \<open>A table is looked up as the first of the root table's entries with its signature and a sum of 0.\<close>

lemma search_sdt_first:
  "rsdt \<noteq> 0 \<Longrightarrow> search_sdt m rsdt sig =
     find (sdt_ok m sig) (map (\<lambda>i. rsdt_table m rsdt (of_nat i)) [0..<unat (RSDT_TABLECOUNT m rsdt)])"
  using sdt_loop_find [of m rsdt sig "unat (RSDT_TABLECOUNT m rsdt)" 0] by (simp add: search_sdt_def)

end
