(* ===== verification/Hpet.thy ===== *)
theory Hpet
  imports Acpi
begin

text \<open>
  The event timer, \<^verbatim>\<open>driver/hpet.c\<close>: its registers, and the division of a 64-bit number that gives
  the comparator its value.
\<close>

type_synonym u64 = "64 word"

section \<open>Division\<close>

text \<open>The first loop doubles the divisor; it ends as the divisor reaches the sign bit.\<close>

lemma sint_pos: "0 < sint (b :: u64) \<longleftrightarrow> 0 < unat b \<and> unat b < 2 ^ 63"
proof -
  have lt: "unat b < 2 ^ 64" using unsigned_less [of b] by simp
  have "bit (uint b) 63 \<longleftrightarrow> bit b 63" "bit (unat b) 63 \<longleftrightarrow> bit b 63"
    unfolding bit_unsigned_iff by simp_all
  moreover have "bit (unat b) 63 \<longleftrightarrow> odd (unat b div 2 ^ 63)" by (rule bit_iff_odd)
  moreover have "unat b div 2 ^ 63 = (if unat b < 2 ^ 63 then 0 else 1)"
  proof (cases "unat b < 2 ^ 63")
    case False
    then show ?thesis using lt by (intro div_nat_eqI) simp_all
  qed simp
  ultimately have bt: "bit (uint b) 63 \<longleftrightarrow> \<not> unat b < 2 ^ 63" by (auto split: if_splits)
  have "sint b = signed_take_bit 63 (uint b)" by (simp add: sint_uint)
  also have "\<dots> = take_bit (Suc 63) (uint b) - 2 ^ Suc 63 * of_bool (bit (uint b) 63)"
    by (rule signed_take_bit_eq_take_bit_minus)
  also have "take_bit (Suc 63) (uint b) = int (unat b)"
  proof -
    have "uint b < 2 ^ Suc 63" using lt by (simp add: uint_nat del: of_nat_unat)
    then have "take_bit (Suc 63) (uint b) = uint b" by (intro take_bit_int_eq_self) simp_all
    then show ?thesis by simp
  qed
  finally have e: "sint b = int (unat b) - 2 ^ Suc 63 * of_bool (bit (uint b) 63)" .
  obtain x where x: "unat b = x" by simp
  show ?thesis using lt unfolding e bt x by (cases "x < 2 ^ 63") auto
qed

lemma unat_double:
  assumes "unat (b :: u64) < 2 ^ 63"
  shows "unat (b + b) = 2 * unat b"
proof -
  have "unat b + unat b < 2 ^ LENGTH(64)" using assms by simp
  then have "unat (b + b) = unat b + unat b" by (rule unat_add_lem [THEN iffD1])
  then show ?thesis by simp
qed

function scale :: "u64 \<Rightarrow> u64 \<Rightarrow> u64 \<Rightarrow> u64 \<times> u64" where
  "scale rem b d = (if 0 < sint b \<and> b < rem then scale rem (b + b) (d + d) else (b, d))"
  by auto
termination
proof (relation "measure (\<lambda>(_, b, _). 2 ^ 64 - unat b)")
  fix rem b d :: u64
  assume "0 < sint b \<and> b < rem"
  then have b: "0 < unat b" "unat b < 2 ^ 63" by (simp_all add: sint_pos)
  then have "unat (b + b) = 2 * unat b" by (intro unat_double)
  then show "((rem, b + b, d + d), (rem, b, d)) \<in> measure (\<lambda>(_, b, _). 2 ^ 64 - unat b)" using b by simp
qed simp

declare scale.simps [simp del]

text \<open>The second loop, whose body runs once before its condition is tested.\<close>

function reduce :: "u64 \<Rightarrow> u64 \<Rightarrow> u64 \<Rightarrow> u64 \<Rightarrow> u64 \<times> u64" where
  "reduce rem b d res =
     (let (rem, res) = (if b \<le> rem then (rem - b, res + d) else (rem, res));
          b = drop_bit 1 b;
          d = drop_bit 1 d
      in if d \<noteq> 0 then reduce rem b d res else (rem, res))"
  by auto
termination
proof (relation "measure (\<lambda>(_, _, d, _). unat d)")
  fix d x :: u64 assume x: "x = drop_bit 1 d" "x \<noteq> 0"
  have "unat x = unat d div 2" unfolding x(1) by (simp add: drop_bit_eq_div unat_div)
  moreover have "unat x \<noteq> 0" using x(2) by (simp add: unat_eq_zero)
  ultimately have "unat x < unat d" by simp
  then show "((a, b, x, c), (a', b', d, c')) \<in> measure (\<lambda>(_, _, d, _). unat d)" for a b c a' b' c' :: u64 by simp
qed simp

declare reduce.simps [simp del]

text \<open>The number that \<open>n\<close> points to afterwards, and the remainder returned.\<close>

definition divide_64_by_32 :: "u64 \<Rightarrow> u32 \<Rightarrow> (u64 \<times> u32) res" where
  "divide_64_by_32 n base =
     (let rem = n;
          b = ucast base;
          high = (ucast (drop_bit 32 rem) :: u32)
      in if base = 0 then Inl DivideFault
         else
           let (rem, res) = (if base \<le> high
                 then let high = high div base
                      in (rem - push_bit 32 (ucast (high * base)), push_bit 32 (ucast high))
                 else (rem, 0));
               (b, d) = scale rem b 1;
               (rem, res) = reduce rem b d res
           in Inr (res, ucast rem))"

section \<open>The division is one\<close>

lemma scale_ok:
  "\<lbrakk>unat b = B * 2 ^ k; unat d = 2 ^ k; 0 < B\<rbrakk> \<Longrightarrow>
   \<exists>j. case scale rem b d of (b', d') \<Rightarrow> unat b' = B * 2 ^ j \<and> unat d' = 2 ^ j \<and> unat rem < 2 * unat b'"
proof (induction rem b d arbitrary: k rule: scale.induct)
  case (1 rem b d)
  show ?case
  proof (cases "0 < sint b \<and> b < rem")
    case True
    then have b: "unat b < 2 ^ 63" by (simp add: sint_pos)
    then have bb: "unat (b + b) = B * 2 ^ Suc k" using 1(2) by (simp only: unat_double) simp
    have "2 ^ k \<le> unat b" using 1(2,4) by simp
    then have "unat (d + d) = 2 ^ Suc k" using b 1(3) by (subst unat_double) simp_all
    with "1.IH" [OF True bb _ 1(4)] True show ?thesis by (simp add: scale.simps [of rem b d])
  next
    case False
    have "unat rem < 2 * unat b"
    proof (cases "unat b < 2 ^ 63")
      case True
      then have "unat rem \<le> unat b" "0 < unat b" using False 1(2,4) by (simp_all add: sint_pos word_less_nat_alt)
      then show ?thesis by simp
    next
      case False
      then show ?thesis
      proof -
        have "unat rem < 2 ^ 64" using unsigned_less [of rem] by simp
        then show ?thesis using False by simp
      qed
    qed
    moreover have "scale rem b d = (b, d)" unfolding scale.simps [of rem b d] if_not_P [OF False] ..
    ultimately show ?thesis using 1(2,3) by (intro exI [of _ k]) simp
  qed
qed

text \<open>What remains and what has been counted make up the number at each turn.\<close>

lemma reduce_turn:
  assumes "unat b = B * unat d" "0 < B" "unat rem < 2 * unat b" "unat res * B + unat rem = n" "n < 2 ^ 64"
    "(rem', res') = (if b \<le> rem then (rem - b, res + d) else (rem, res :: u64))"
  shows "unat rem' < unat b" "unat res' * B + unat rem' = n"
proof -
  have "unat rem' < unat b \<and> unat res' * B + unat rem' = n"
  proof (cases "b \<le> rem")
    case False
    then show ?thesis using assms by (simp add: word_le_nat_alt)
  next
    case True
    then have "unat b \<le> unat rem" by (simp add: word_le_nat_alt)
    then have r: "unat (rem - b) = unat rem - unat b" by (simp add: unat_sub True)
    have "(unat res + unat d) * B \<le> n" using \<open>unat b \<le> unat rem\<close> assms(1,4) by (simp add: algebra_simps)
    moreover have "(unat res + unat d) * 1 \<le> (unat res + unat d) * B"
      using assms(2) by (intro mult_le_mono2) simp
    ultimately have "unat res + unat d \<le> n" by (simp only: mult_1_right)
    then have "unat res + unat d < 2 ^ LENGTH(64)" using assms(5) by simp
    then have "unat (res + d) = unat res + unat d" by (rule unat_add_lem [THEN iffD1])
    moreover have "(unat res + unat d) * B = unat res * B + unat b" using assms(1) by (simp add: algebra_simps)
    moreover have "rem' = rem - b" "res' = res + d" using True assms(6) by simp_all
    ultimately show ?thesis using r assms(3,4) \<open>unat b \<le> unat rem\<close> by simp
  qed
  then show "unat rem' < unat b" "unat res' * B + unat rem' = n" by simp_all
qed

lemma unat_half: "unat (drop_bit 1 d :: u64) = unat d div 2"
  by (simp add: drop_bit_eq_div unat_div)

lemma reduce_ok:
  "\<lbrakk>unat b = B * 2 ^ k; unat d = 2 ^ k; 0 < B; unat rem < 2 * unat b; unat res * B + unat rem = n; n < 2 ^ 64\<rbrakk> \<Longrightarrow>
   case reduce rem b d res of (rem', res') \<Rightarrow> unat res' = n div B \<and> unat rem' = n mod B"
proof (induction k arbitrary: rem b d res)
  case (0 rem b d res)
  obtain r' q' where e: "(r', q') = (if b \<le> rem then (rem - b, res + d) else (rem, res))"
    by (cases "b \<le> rem") simp_all
  have "unat r' < unat b" "unat q' * B + unat r' = n"
    by (rule reduce_turn [OF _ 0(3-6) e]; use 0(1,2) in simp)+
  moreover have "drop_bit 1 d = 0" using 0(2) unat_half [of d] by (simp add: unat_eq_zero)
  ultimately have "reduce rem b d res = (r', q')" "unat q' = n div B" "unat r' = n mod B"
    using 0(1,3) by (auto simp: reduce.simps [of rem b d res] Let_def simp flip: e)
  then show ?case by simp
next
  case (Suc k rem b d res)
  obtain r' q' where e: "(r', q') = (if b \<le> rem then (rem - b, res + d) else (rem, res))"
    by (cases "b \<le> rem") simp_all
  have t: "unat r' < unat b" "unat q' * B + unat r' = n"
    by (rule reduce_turn [OF _ Suc.prems(3-6) e]; use Suc.prems(1,2) in simp)+
  have h: "unat (drop_bit 1 b) = B * 2 ^ k" "unat (drop_bit 1 d) = 2 ^ k"
    using Suc.prems(1,2) by (simp_all only: unat_half) simp_all
  then have "drop_bit 1 d \<noteq> 0" by (metis power_not_zero unat_0 zero_neq_numeral)
  moreover have "unat r' < 2 * unat (drop_bit 1 b)" using t(1) Suc.prems(1) h(1) by simp
  note Suc.IH [OF h Suc.prems(3) this t(2) Suc.prems(6)]
  ultimately show ?case by (simp add: reduce.simps [of rem b d res] Let_def flip: e)
qed

lemma unat_widen: "unat (ucast (w :: u32) :: u64) = unat w"
proof -
  have "unat w < 2 ^ 64" using unat_lt32 [of w] by simp
  then show ?thesis by (simp add: unsigned_ucast_eq take_bit_nat_eq_self)
qed

lemma unat_push_32: "unat (push_bit 32 (ucast w) :: u64) = 2 ^ 32 * unat (w :: u32)"
proof -
  have "unat w < 2 ^ 32" by (rule unat_lt32)
  then have "2 ^ 32 * unat w < 2 ^ 64" by simp
  then have "take_bit 64 (2 ^ 32 * unat w) = 2 ^ 32 * unat w" by (intro take_bit_nat_eq_self)
  then show ?thesis
    by (simp only: unsigned_push_bit_eq push_bit_eq_mult [where 'a = nat] unat_widen mult.commute [of _ "2 ^ 32"]) simp
qed

lemma div_ok:
  assumes "base \<noteq> 0"
  shows "divide_64_by_32 n base = Inr (of_nat (unat n div unat base), of_nat (unat n mod unat base))"
proof -
  let ?B = "unat base"
  have B: "0 < ?B" using assms by (simp add: unat_gt_0)
  have lt: "unat n < 2 ^ 64" using unsigned_less [of n] by simp
  define high where "high = (ucast (drop_bit 32 n) :: u32)"
  have hu: "unat high = unat n div 2 ^ 32"
  proof -
    have "unat (drop_bit 32 n) = unat n div 2 ^ 32" by (simp add: drop_bit_eq_div unat_div)
    moreover have "unat n div 2 ^ 32 < 2 ^ 32" using lt by (simp add: less_mult_imp_div_less)
    ultimately show ?thesis by (simp add: high_def unsigned_ucast_eq take_bit_nat_eq_self)
  qed
  define rr where "rr = (if base \<le> high then (n - push_bit 32 (ucast (high div base * base)), push_bit 32 (ucast (high div base)))
      else (n, 0 :: u64))"
  have start: "unat (snd rr) * ?B + unat (fst rr) = unat n"
  proof (cases "base \<le> high")
    case True
    have q: "unat (high div base) = unat high div ?B" by (rule unat_div)
    have m: "unat (high div base * base) = unat high div ?B * ?B"
    proof -
      have "unat high div ?B * ?B \<le> unat high" by (rule div_times_less_eq_dividend)
      also have "unat high < 2 ^ 32" by (rule unat_lt32)
      finally have "unat (high div base) * ?B < 2 ^ LENGTH(32)" unfolding q by simp
      then have "unat (high div base * base) = unat (high div base) * ?B" by (rule unat_mult_lem [THEN iffD1])
      then show ?thesis unfolding q .
    qed
    have "2 ^ 32 * (unat high div ?B * ?B) \<le> 2 ^ 32 * unat high" by (intro mult_le_mono2) (rule div_times_less_eq_dividend)
    also have "\<dots> \<le> unat n" unfolding hu by (rule times_div_less_eq_dividend)
    finally have le: "2 ^ 32 * (unat high div ?B * ?B) \<le> unat n" .
    have "unat (n - push_bit 32 (ucast (high div base * base))) = unat n - 2 ^ 32 * (unat high div ?B * ?B)"
    proof -
      have "push_bit 32 (ucast (high div base * base)) \<le> n"
        unfolding word_le_nat_alt unat_push_32 m by (rule le)
      from unat_sub [OF this] show ?thesis unfolding unat_push_32 m .
    qed
    then show ?thesis using le True by (simp add: rr_def unat_push_32 q mult.assoc)
  qed (simp add: rr_def)
  have B0: "unat (ucast base :: u64) = ?B * 2 ^ 0" by (simp add: unat_widen)
  obtain b d where sc: "scale (fst rr) (ucast base) 1 = (b, d)" by fastforce
  have "unat (1 :: u64) = 2 ^ 0" by simp
  from scale_ok [OF B0 this B, of "fst rr"] obtain j where
    j: "unat b = ?B * 2 ^ j" "unat d = 2 ^ j" "unat (fst rr) < 2 * unat b" unfolding sc by auto
  obtain r q where rq: "reduce (fst rr) b d (snd rr) = (r, q)" by fastforce
  from reduce_ok [OF j(1,2) B j(3) start lt] have e: "unat q = unat n div ?B" "unat r = unat n mod ?B" unfolding rq by auto
  have "divide_64_by_32 n base = Inr (q, ucast r)"
  proof -
    obtain r0 q0 where r0: "rr = (r0, q0)" by fastforce
    show ?thesis using assms sc rq unfolding divide_64_by_32_def Let_def high_def [symmetric] rr_def [symmetric] r0
      by simp
  qed
  moreover have "q = of_nat (unat n div ?B)" unfolding e(1) [symmetric] by simp
  moreover have "ucast r = (of_nat (unat n mod ?B) :: u32)" unfolding e(2) [symmetric] by simp
  ultimately show ?thesis by simp
qed

text \<open>C23. Whatever the number and the divisor, unless it is 0, the routine computes quotient and remainder.\<close>

theorem divide_64_by_32_divides:
  assumes "base \<noteq> 0"
  shows "divide_64_by_32 n base = Inr (of_nat (unat n div unat base), of_nat (unat n mod unat base))"
  by (rule div_ok [OF assms])

theorem divide_64_by_32_divides_witness: "divide_64_by_32 10000000000000 69841279 = Inr (143181, 55831501)"
  using divide_64_by_32_divides [of 69841279 10000000000000] by simp

section \<open>Initialisation\<close>

definition get_hpet_reg :: "('d, 'z) machine_scheme \<Rightarrow> u32 \<Rightarrow> u16 \<Rightarrow> 'd \<Rightarrow> (u32 \<times> u32) \<times> 'd" where
  "get_hpet_reg M base offset d =
     (let addr = base + ucast offset; (lo, d) = rd32 M addr d; (hi, d) = rd32 M (addr + 4) d
      in ((lo, hi), d))"

definition set_hpet_reg :: "('d, 'z) machine_scheme \<Rightarrow> u32 \<Rightarrow> u16 \<Rightarrow> u32 \<Rightarrow> u32 \<Rightarrow> 'd \<Rightarrow> 'd" where
  "set_hpet_reg M base offset lo hi d =
     (let addr = base + ucast offset in wr32 M (addr + 4) hi (wr32 M addr lo d))"

definition HPET_sig :: "u8 list" where
  "HPET_sig = [0x48, 0x50, 0x45, 0x54]"

text \<open>The address of the registers is the double word behind the first 44 bytes of the table.\<close>

definition hpet_address :: "ram \<Rightarrow> u32 \<Rightarrow> u32" where
  "hpet_address m p = ram32 m (p + 44)"

definition map_hpet :: "('d, 'z) machine_scheme \<Rightarrow> u32 \<Rightarrow> u32 \<Rightarrow> 'd \<Rightarrow> 'd" where
  "map_hpet M rcba base d =
     (if rcba = 0 then d
      else wr32 M (rcba + 0x3404) (0x80 OR drop_bit 12 (base AND 0xF000)) (snd (rd32 M (rcba + 0x3404) d)))"

definition hpet_conf :: "u32 \<Rightarrow> u32" where
  "hpet_conf caplo = push_bit 9 2 OR 0x004C OR caplo"

definition fsconst :: u64 where
  "fsconst = 1000000000000"

text \<open>The timer's counter is let run for a while to see whether it works; the delay has no effect here.\<close>

definition test_counter :: "('d, 'z) machine_scheme \<Rightarrow> u32 \<Rightarrow> 'd \<Rightarrow> bool \<times> 'd" where
  "test_counter M base d =
     (let d = set_hpet_reg M base 0x10 0 0 d;
          d = set_hpet_reg M base 0xF0 0 0 d;
          d = set_hpet_reg M base 0x10 1 0 d;
          d = set_hpet_reg M base 0x10 0 0 d;
          ((lo, hi), d) = get_hpet_reg M base 0xF0 d;
          d = set_hpet_reg M base 0xF0 0 0 d
      in (lo \<noteq> 0 \<or> hi \<noteq> 0, d))"

definition program_timer :: "('d, 'z) machine_scheme \<Rightarrow> u32 \<Rightarrow> u32 \<Rightarrow> 'd \<Rightarrow> (u32 \<times> 'd) res" where
  "program_timer M base period d =
     (let (_, d) = get_hpet_reg M base 0xF0 d;
          ((caplo, _), d) = get_hpet_reg M base 0x100 d
      in if caplo AND 0x10 = 0 then Inr (1, d)
         else
           let d = set_hpet_reg M base 0x100 (hpet_conf caplo) 0 d
           in and_then (divide_64_by_32 (fsconst * ucast BEATS_MS) period) (\<lambda>(v, _).
              let addr = base + 0x108;
                  d = wr32 M addr (ucast v) d;
                  d = set_hpet_reg M base 0x100 (hpet_conf caplo) 0 d;
                  d = wr32 M (addr + 4) (ucast (drop_bit 32 v)) d
              in Inr (0, set_hpet_reg M base 0x10 3 0 d)))"

definition init_hpet :: "('d, 'z) machine_scheme \<Rightarrow> ram \<Rightarrow> u32 \<Rightarrow> u32 \<Rightarrow> 'd \<Rightarrow> (u32 \<times> 'd) res" where
  "init_hpet M m rsdt rcba d =
     (case search_sdt m rsdt HPET_sig of
        None \<Rightarrow> Inr (1, d)
      | Some p \<Rightarrow>
          let base = hpet_address m p;
              d = map_hpet M rcba base d;
              ((_, period), d) = get_hpet_reg M base 0 d;
              d = disable_8253 M d;
              (works, d) = test_counter M base d
          in if works then program_timer M base period d else Inr (1, d))"

text \<open>What the comparator is set to: the ticks of the timer in the time between two beats.\<close>

lemma program_timer_comparator:
  assumes "period \<noteq> 0" "caplo AND 0x10 \<noteq> 0"
    "get_hpet_reg M base 0xF0 d = (x, d1)" "get_hpet_reg M base 0x100 d1 = ((caplo, caphi), d2)"
  defines "ticks \<equiv> 10000000000000 div unat period"
  shows "program_timer M base period d =
    Inr (0, set_hpet_reg M base 0x10 3 0 (wr32 M (base + 0x10C) (of_nat (ticks div 2 ^ 32))
      (set_hpet_reg M base 0x100 (hpet_conf caplo) 0 (wr32 M (base + 0x108) (of_nat ticks)
        (set_hpet_reg M base 0x100 (hpet_conf caplo) 0 d2)))))"
proof -
  have n: "unat (fsconst * ucast (BEATS_MS :: u32)) = 10000000000000" by (simp add: fsconst_def)
  have t: "ticks < 2 ^ 64" unfolding ticks_def by (rule le_less_trans [OF div_le_dividend]) simp
  have q: "unat (of_nat ticks :: u64) = ticks" using t by (simp add: unat_of_nat take_bit_nat_eq_self)
  have lo: "(ucast (of_nat ticks :: u64) :: u32) = of_nat ticks"
    by (rule unsigned_word_eqI) (simp add: unsigned_ucast_eq unsigned_of_nat min_def take_bit_take_bit)
  have hi: "(ucast (drop_bit 32 (of_nat ticks :: u64)) :: u32) = of_nat (ticks div 2 ^ 32)"
  proof -
    have "unat (drop_bit 32 (of_nat ticks :: u64)) = ticks div 2 ^ 32"
      by (simp add: drop_bit_eq_div unat_div q)
    then have "unat (ucast (drop_bit 32 (of_nat ticks :: u64)) :: u32) = unat (of_nat (ticks div 2 ^ 32) :: u32)"
      by (simp add: unsigned_ucast_eq unsigned_of_nat)
    then show ?thesis by (rule unsigned_word_eqI)
  qed
  have "divide_64_by_32 (fsconst * ucast (BEATS_MS :: u32)) period =
      Inr (of_nat ticks, of_nat (unat (fsconst * ucast (BEATS_MS :: u32)) mod unat period))"
    unfolding ticks_def n [symmetric] by (rule div_ok [OF assms(1)])
  then show ?thesis using assms(2-4) lo hi by (simp add: program_timer_def Let_def add.assoc)
qed

end
