(* ===== verification/Apic.thy ===== *)
theory Apic
  imports Acpi
begin

text \<open>
  The interrupt controllers of the processor and of the board, \<^verbatim>\<open>driver/apic.c\<close>: their registers, the
  table of the firmware that says where the second lies, initialisation, and the three operations the
  kernel calls. Messages on the screen are left out, as are the fences between accesses.
\<close>

section \<open>State and registers\<close>

text \<open>The variables of the file and the fields of the environment it sets.\<close>

record apic =
  lapic_base :: u32
  ioapic_base :: u32
  isx2apic :: bool
  base_ioapic :: u32
  base_lapic :: u32
  lapic_feature :: u32

abbreviation (input) IA32_APIC_BASE_MSR :: u32 where "IA32_APIC_BASE_MSR \<equiv> 0x1B"
abbreviation (input) LAPIC_FEAT_X2APIC :: u32 where "LAPIC_FEAT_X2APIC \<equiv> 1"
abbreviation (input) LAPIC_OFFSET_VER :: u16 where "LAPIC_OFFSET_VER \<equiv> 0x030"
abbreviation (input) LAPIC_OFFSET_EOI :: u16 where "LAPIC_OFFSET_EOI \<equiv> 0x0B0"
abbreviation (input) LAPIC_OFFSET_SVR :: u16 where "LAPIC_OFFSET_SVR \<equiv> 0x0F0"
abbreviation (input) IRQ0 :: u32 where "IRQ0 \<equiv> 0x20"

definition LAPIC_OFFSET_TO_MSR :: "u16 \<Rightarrow> u32" where
  "LAPIC_OFFSET_TO_MSR x = 0x800 + drop_bit 4 (ucast x AND 0xFF0)"

definition get_lapic_reg :: "('d, 'z) machine_scheme \<Rightarrow> u32 \<Rightarrow> u16 \<Rightarrow> 'd \<Rightarrow> u32 \<times> 'd" where
  "get_lapic_reg M base offset d = rd32 M (base + ucast offset) d"

definition set_lapic_reg :: "('d, 'z) machine_scheme \<Rightarrow> u32 \<Rightarrow> u16 \<Rightarrow> u32 \<Rightarrow> 'd \<Rightarrow> 'd" where
  "set_lapic_reg M base offset v d = wr32 M (base + ucast offset) v d"

text \<open>The reader adds to a pointer to words: its data register lies 64 bytes behind the base.\<close>

definition get_ioapic_ret :: "('d, 'z) machine_scheme \<Rightarrow> u32 \<Rightarrow> u8 \<Rightarrow> 'd \<Rightarrow> (u32 \<times> u32) \<times> 'd" where
  "get_ioapic_ret M base index d =
     (let (lo, d) = rd32 M (base + 0x40) (wr8 M base index d);
          (hi, d) = rd32 M (base + 0x40) (wr8 M base (index + 1) d)
      in ((lo, hi), d))"

definition set_ioapic_ret :: "('d, 'z) machine_scheme \<Rightarrow> u32 \<Rightarrow> u8 \<Rightarrow> u32 \<Rightarrow> u32 \<Rightarrow> 'd \<Rightarrow> 'd" where
  "set_ioapic_ret M base index lo hi d =
     (let d = wr8 M base index d;
          d = wr32 M (base + 0x10) lo d;
          d = wr8 M base (index + 1) d
      in wr32 M (base + 0x10) hi d)"

section \<open>The board's controller\<close>

abbreviation (input) APIC_sig :: "u8 list" where "APIC_sig \<equiv> [0x41, 0x50, 0x49, 0x43]"

text \<open>The entries of the table give their own length; one of length 0 keeps the loop where it is.\<close>

partial_function (option) madt_loop :: "ram \<Rightarrow> u32 \<Rightarrow> u32 \<Rightarrow> u32 \<Rightarrow> u32 option" where
  "madt_loop m ph bound base =
     (if ph < bound
      then madt_loop m (ph + ucast (m (ph + 1))) bound (if m ph = 1 then ram32 m (ph + 4) else base)
      else Some base)"

definition find_ioapic :: "ram \<Rightarrow> u32 \<Rightarrow> u32 option" where
  "find_ioapic m rsdt =
     (case search_sdt m rsdt APIC_sig of
        None \<Rightarrow> Some 0xFEC00000
      | Some madt \<Rightarrow>
          map_option (\<lambda>base. if base = 0 then 0xFEC00000 else base)
            (madt_loop m (madt + 44) (madt + sdt_Length m madt) 0))"

definition enable_oic :: "('d, 'z) machine_scheme \<Rightarrow> u32 \<Rightarrow> 'd \<Rightarrow> 'd" where
  "enable_oic M rcba d =
     (if rcba = 0 then d
      else let (v, d) = rd16 M (rcba + 0x31F) d in wr16 M (rcba + 0x31F) (v OR 0x100) d)"

definition program_rtes :: "('d, 'z) machine_scheme \<Rightarrow> u32 \<Rightarrow> 'd \<Rightarrow> 'd" where
  "program_rtes M base d =
     fold (\<lambda>k. set_ioapic_ret M base (of_nat (0x10 + 2 * k)) (of_nat (0x20 + k)) 0) [0..<24] d"

text \<open>The base the driver finds is kept in a variable of the function, and in the environment.\<close>

definition init_ioapic :: "('d, 'z) machine_scheme \<Rightarrow> ram \<Rightarrow> bool \<Rightarrow> u32 \<Rightarrow> u32 \<Rightarrow> apic \<Rightarrow> 'd \<Rightarrow> (apic \<times> 'd) option" where
  "init_ioapic M m acpi_driver rsdt rcba s d =
     (let d = (if acpi_driver then enable_oic M rcba d else d)
      in map_option (\<lambda>base.
           let s = s\<lparr>base_ioapic := base\<rparr>;
               d = wr32 M (base + 0x10) 0x0F000000 (wr8 M base 0 d);
               (ver, d) = rd32 M (base + 0x10) (wr8 M base 1 d);
               (ident, d) = rd32 M (base + 0x10) (wr8 M base 0 d)
           in (s, program_rtes M base d))
         (if acpi_driver then find_ioapic m rsdt else Some 0xFEC00000))"

section \<open>The processor's controller\<close>

definition lvt_offsets :: "u16 list" where
  "lvt_offsets = [0x2F0, 0x320, 0x330, 0x340, 0x350, 0x360, 0x370]"

definition svr_bits :: "u32 \<Rightarrow> u32" where
  "svr_bits verreg = (if verreg AND 0x1000000 \<noteq> 0 then 0x1100 else 0x100)"

definition init_lapic :: "('d, 'z) machine_scheme \<Rightarrow> apic \<Rightarrow> 'd \<Rightarrow> apic \<times> 'd" where
  "init_lapic M s d =
     (let ((loaddr, hiaddr), d) = rdmsr M IA32_APIC_BASE_MSR d;
          x2 = (lapic_feature s AND LAPIC_FEAT_X2APIC \<noteq> 0);
          d = wrmsr M IA32_APIC_BASE_MSR (loaddr OR (if x2 then 0xC00 else 0x800)) hiaddr d;
          base = loaddr AND 0xFFFFF000;
          s = s\<lparr>isx2apic := isx2apic s \<or> x2, base_lapic := base, lapic_base := base\<rparr>;
          d = (if \<not> isx2apic s
               then
                 let (verreg, d) = get_lapic_reg M base LAPIC_OFFSET_VER d;
                     (v, d) = get_lapic_reg M base LAPIC_OFFSET_SVR d;
                     d = set_lapic_reg M base LAPIC_OFFSET_SVR (v OR svr_bits verreg) d
                 in fold (\<lambda>offset. set_lapic_reg M base offset 0x10000) lvt_offsets d
               else
                 let ((verreg, _), d) = rdmsr M (LAPIC_OFFSET_TO_MSR LAPIC_OFFSET_VER) d;
                     ((lo, hi), d) = rdmsr M (LAPIC_OFFSET_TO_MSR LAPIC_OFFSET_SVR) d;
                     d = wrmsr M (LAPIC_OFFSET_TO_MSR LAPIC_OFFSET_SVR) (lo OR svr_bits verreg) hi d
                 in fold (\<lambda>offset. wrmsr M (LAPIC_OFFSET_TO_MSR offset) 0x10000 0) lvt_offsets d);
          (_, d) = get_lapic_reg M base 0x20 d
      in (s, d))"

section \<open>Operations\<close>

definition apic_end_interrupt :: "('d, 'z) machine_scheme \<Rightarrow> apic \<Rightarrow> u32 \<Rightarrow> 'd \<Rightarrow> 'd" where
  "apic_end_interrupt M s i d =
     (if \<not> isx2apic s then set_lapic_reg M (lapic_base s) LAPIC_OFFSET_EOI 0 d
      else wrmsr M (LAPIC_OFFSET_TO_MSR LAPIC_OFFSET_EOI) 0 0 d)"

definition apic_enable_interrupt :: "('d, 'z) machine_scheme \<Rightarrow> apic \<Rightarrow> u32 \<Rightarrow> 'd \<Rightarrow> 'd" where
  "apic_enable_interrupt M s i d = set_ioapic_ret M (ioapic_base s) (ucast (0x10 + i * 2)) (IRQ0 + i) 0 d"

definition apic_disable_interrupt :: "('d, 'z) machine_scheme \<Rightarrow> apic \<Rightarrow> u32 \<Rightarrow> 'd \<Rightarrow> 'd" where
  "apic_disable_interrupt M s i d = set_ioapic_ret M (ioapic_base s) (ucast (0x10 + i * 2)) (0x10000 OR (IRQ0 + i)) 0 d"

text \<open>A processor without the controller only panics.\<close>

definition init_apic :: "('d, 'z) machine_scheme \<Rightarrow> ram \<Rightarrow> bool \<Rightarrow> u32 \<Rightarrow> u32 \<Rightarrow> apic \<Rightarrow> 'd \<Rightarrow> (apic \<times> 'd) option" where
  "init_apic M m acpi_driver rsdt rcba s d =
     (let d = outb M (IO_PIC_S + 1) 0xFF (outb M (IO_PIC_M + 1) 0xFF (remap_pic M d));
          (_, _, ecx, _) = cpuid M 1;
          s = s\<lparr>lapic_feature := (if bit ecx 21 then LAPIC_FEAT_X2APIC else 0)\<rparr>;
          (s, d) = init_lapic M s d
      in init_ioapic M m acpi_driver rsdt rcba s d)"

section \<open>The variable the operations use\<close>

lemma init_apic_keeps_base: "init_apic M m a rsdt rcba s d = Some (s', d') \<Longrightarrow> ioapic_base s' = ioapic_base s"
  by (auto simp: init_apic_def init_ioapic_def init_lapic_def Let_def split: prod.splits if_splits)

text \<open>
  C25. After the initialisation, which leaves the variable for the controller's base at 0 because it
  works on a variable of its own of that name, enabling an interrupt writes to the addresses 0 and 16
  of memory instead of the controller's registers, and so does disabling one.
\<close>

theorem apic_enable_writes_low_memory:
  assumes "init_apic M m acpi_driver rsdt rcba s d = Some (s', d')" "ioapic_base s = 0"
  shows "apic_enable_interrupt M s' i e =
      wr32 M 0x10 0 (wr8 M 0 (ucast (0x10 + i * 2) + 1) (wr32 M 0x10 (0x20 + i) (wr8 M 0 (ucast (0x10 + i * 2)) e))) \<and>
    apic_disable_interrupt M s' i e =
      wr32 M 0x10 0 (wr8 M 0 (ucast (0x10 + i * 2) + 1) (wr32 M 0x10 (0x10000 OR (0x20 + i)) (wr8 M 0 (ucast (0x10 + i * 2)) e)))"
proof -
  have "ioapic_base s' = 0" using init_apic_keeps_base [OF assms(1)] assms(2) by simp
  then show ?thesis
    by (simp add: apic_enable_interrupt_def apic_disable_interrupt_def set_ioapic_ret_def Let_def)
qed

section \<open>The redirection table\<close>

text \<open>
  The documented behaviour of the controller: the byte written at its base selects a register, the
  word written 16 bytes behind goes to it. Some bits of an entry only the controller sets; a value
  that fits into the vector is kept as it is.
\<close>

record 'd ioapic =
  selected :: "'d \<Rightarrow> u8"
  register :: "'d \<Rightarrow> u8 \<Rightarrow> u32"

definition ioapic_at :: "('d, 'z) machine_scheme \<Rightarrow> 'd ioapic \<Rightarrow> u32 \<Rightarrow> bool" where
  "ioapic_at M V base \<longleftrightarrow> (\<forall>d.
     (\<forall>i. selected V (wr8 M base i d) = i \<and> register V (wr8 M base i d) = register V d) \<and>
     (\<forall>v r. 0x10 \<le> r \<longrightarrow> (r \<noteq> selected V d \<or> v < 0x100) \<longrightarrow>
        register V (wr32 M (base + 0x10) v d) r = (if r = selected V d then v else register V d r)))"

lemma set_ioapic_ret_ok:
  assumes "ioapic_at M V base" "0x10 \<le> i" "i < 0xFF" "lo < 0x100" "0x10 \<le> r"
  shows "register V (set_ioapic_ret M base i lo 0 d) r =
    (if r = i then lo else if r = i + 1 then 0 else register V d r)"
proof -
  have "i \<noteq> i + 1" by simp
  then show ?thesis using assms unfolding ioapic_at_def set_ioapic_ret_def Let_def by auto
qed

lemma unat_of_nat8: "n < 256 \<Longrightarrow> unat (of_nat n :: u8) = n"
  by (simp add: unat_of_nat take_bit_nat_eq_self)

lemma program_rtes_ok:
  assumes "ioapic_at M V base" "n \<le> 24" "k < n"
  shows "register V (fold (\<lambda>k. set_ioapic_ret M base (of_nat (0x10 + 2 * k)) (of_nat (0x20 + k)) 0) [0..<n] d) (of_nat (0x10 + 2 * k)) = of_nat (0x20 + k)"
  using assms(2,3)
proof (induction n)
  case (Suc n)
  have u: "unat (of_nat (0x10 + 2 * j) :: u8) = 0x10 + 2 * j" if "j < 24" for j
    using that by (intro unat_of_nat8) simp
  have n: "n < 24" using Suc.prems by simp
  have b: "0x10 \<le> (of_nat (0x10 + 2 * j) :: u8)" "(of_nat (0x10 + 2 * j) :: u8) < 0xFF" if "j < 24" for j
    using u [OF that] that by (simp_all add: word_le_nat_alt word_less_nat_alt del: of_nat_add of_nat_mult)
  have lo: "(of_nat (0x20 + n) :: u32) < 0x100"
  proof -
    have "unat (of_nat (0x20 + n) :: u32) = 0x20 + n" using n by (intro unat_of_nat32) simp
    then show ?thesis using n by (simp add: word_less_nat_alt del: of_nat_add)
  qed
  have "(of_nat (0x10 + 2 * k) :: u8) \<noteq> of_nat (0x10 + 2 * n) + 1"
  proof
    assume "(of_nat (0x10 + 2 * k) :: u8) = of_nat (0x10 + 2 * n) + 1"
    then have "(of_nat (0x10 + 2 * k) :: u8) = of_nat (0x11 + 2 * n)" by simp
    then have "unat (of_nat (0x10 + 2 * k) :: u8) = unat (of_nat (0x11 + 2 * n) :: u8)" by simp
    moreover have "unat (of_nat (0x11 + 2 * n) :: u8) = 0x11 + 2 * n"
      using n by (intro unat_of_nat8) simp
    ultimately have "0x10 + 2 * k = 0x11 + 2 * n" using u [of k] Suc.prems by simp
    then show False by presburger
  qed
  moreover have "(of_nat (0x10 + 2 * k) :: u8) = of_nat (0x10 + 2 * n) \<longleftrightarrow> k = n"
    using u [of k] u [OF n] Suc.prems by (metis add_left_cancel less_le_trans mult_left_cancel zero_neq_numeral)
  ultimately show ?case
    using Suc set_ioapic_ret_ok [OF assms(1) b [OF n] lo b(1) [of k]]
    by (auto simp del: of_nat_add of_nat_mult)
qed simp

text \<open>C35. After the initialisation the first 24 interrupt lines go, unmasked, to the vectors from 32 on.\<close>

theorem redirection_table_programmed:
  assumes "init_ioapic M m acpi_driver rsdt rcba s d = Some (s', d')" "ioapic_at M V (base_ioapic s')" "k < 24"
  shows "register V d' (of_nat (0x10 + 2 * k)) = of_nat (0x20 + k)"
proof -
  obtain base e where "d' = program_rtes M base e" "base_ioapic s' = base"
    using assms(1) by (auto simp: init_ioapic_def Let_def case_prod_beta)
  then show ?thesis using program_rtes_ok [of M V base 24 k e] assms(2,3) by (simp add: program_rtes_def)
qed

text \<open>A machine that has nothing but the controller, and no processor of the newer kind.\<close>

definition board :: "(u8 \<times> (u8 \<Rightarrow> u32)) machine" where
  "board = \<lparr>inb = \<lambda>_ d. (0, d), outb = \<lambda>_ _ d. d, inl = \<lambda>_ d. (0, d), outl = \<lambda>_ _ d. d, insl = \<lambda>_ _ d. ([], d),
     outsl = \<lambda>_ _ d. d, get_ticks_msg = \<lambda>d. (0, d), recv_interrupt = Some, rd16 = \<lambda>_ d. (0, d), wr16 = \<lambda>_ _ d. d,
     rd32 = \<lambda>_ d. (0, d),
     wr32 = \<lambda>a v (i, r). if a = 0xFEC00010 then (i, r(i := v)) else (i, r),
     wr8 = \<lambda>a v (i, r). if a = 0xFEC00000 then (v, r) else (i, r),
     rdmsr = \<lambda>_ d. ((0xFEE00900, 0), d), wrmsr = \<lambda>_ _ _ d. d, cpuid = \<lambda>_. (0, 0, 0, 0x220)\<rparr>"

definition boot_apic :: apic where
  "boot_apic = \<lparr>lapic_base = 0, ioapic_base = 0, isx2apic = False, base_ioapic = 0, base_lapic = 0, lapic_feature = 0\<rparr>"

lemma board_init:
  "\<exists>s' d'. init_ioapic board m False 0 0 boot_apic d = Some (s', d') \<and> base_ioapic s' = 0xFEC00000"
  by (simp add: init_ioapic_def Let_def case_prod_beta)

theorem apic_enable_writes_low_memory_witness:
  "\<exists>s' d'. init_apic board (\<lambda>_. 0) False 0 0 boot_apic (0, \<lambda>_. 0) = Some (s', d') \<and>
     apic_enable_interrupt board s' 1 (0, \<lambda>_. 0) = wr32 board 0x10 0 (wr8 board 0 0x13 (wr32 board 0x10 0x21 (wr8 board 0 0x12 (0, \<lambda>_. 0))))"
proof -
  obtain s' d' where i: "init_apic board (\<lambda>_. 0) False 0 0 boot_apic (0, \<lambda>_. 0) = Some (s', d')"
    by (auto simp: init_apic_def init_ioapic_def Let_def case_prod_beta)
  have "ioapic_base boot_apic = 0" by (simp add: boot_apic_def)
  from apic_enable_writes_low_memory [OF i this, of 1 "(0, \<lambda>_. 0)"] i show ?thesis by auto
qed

theorem redirection_table_programmed_witness:
  "\<exists>s' d'. init_ioapic board (\<lambda>_. 0) False 0 0 boot_apic (0, \<lambda>_. 0x10000) = Some (s', d') \<and> snd d' 0x12 = 0x21"
proof -
  obtain s' d' where i: "init_ioapic board (\<lambda>_. 0) False 0 0 boot_apic (0, \<lambda>_. 0x10000) = Some (s', d')"
    and b: "base_ioapic s' = 0xFEC00000"
    using board_init by blast
  have "ioapic_at board \<lparr>selected = fst, register = snd\<rparr> (base_ioapic s')"
    by (auto simp: ioapic_at_def board_def b)
  from redirection_table_programmed [OF i this, of 1] i show ?thesis by auto
qed

end
