(* ===== verification/Ahci.thy ===== *)
theory Ahci
  imports Machine
begin

text \<open>
  The driver of the SATA controller, \<^verbatim>\<open>driver/ahci/ahci.c\<close> with its header: the search on the bus, the
  command engine of a port and the read command. The registers of a port are words in memory; what the
  controller reads from memory besides, the headers and tables of commands, is kept as records by
  their addresses.
\<close>

section \<open>Structures\<close>

text \<open>The fields of a frame that the driver sets; the others it clears.\<close>

record FIS_REG_H2D =
  fis_type :: u8
  fis_c :: bool
  fis_command :: u8
  lba0 :: u8
  lba1 :: u8
  lba2 :: u8
  fis_device :: u8
  lba3 :: u8
  lba4 :: u8
  lba5 :: u8
  countl :: u8
  counth :: u8

record HBA_PRDT_ENTRY =
  dba :: u32
  dbc :: u32
  prdt_i :: bool

record HBA_CMD_TBL =
  cfis :: FIS_REG_H2D
  prdt_entry :: "HBA_PRDT_ENTRY list"

record HBA_CMD_HEADER =
  cfl :: u8
  hdr_w :: bool
  prdtl :: u16
  prdbc :: u32
  ctba :: u32
  ctbau :: u32

definition zero_fis :: FIS_REG_H2D where
  "zero_fis = \<lparr>fis_type = 0, fis_c = False, fis_command = 0, lba0 = 0, lba1 = 0, lba2 = 0, fis_device = 0,
     lba3 = 0, lba4 = 0, lba5 = 0, countl = 0, counth = 0\<rparr>"

definition zero_prdt :: HBA_PRDT_ENTRY where
  "zero_prdt = \<lparr>dba = 0, dbc = 0, prdt_i = False\<rparr>"

definition zero_header :: HBA_CMD_HEADER where
  "zero_header = \<lparr>cfl = 0, hdr_w = False, prdtl = 0, prdbc = 0, ctba = 0, ctbau = 0\<rparr>"

record 'd ahci =
  hba_bus :: 'd
  headers :: "u32 \<Rightarrow> HBA_CMD_HEADER"
  tables :: "u32 \<Rightarrow> HBA_CMD_TBL"
  fis_area :: "u32 \<Rightarrow> u8 list"
  cmdslots :: int
  hba :: u32

text \<open>The registers of a port, at their offsets.\<close>

abbreviation (input) PxCLB :: u32 where "PxCLB \<equiv> 0x00"
abbreviation (input) PxCLBU :: u32 where "PxCLBU \<equiv> 0x04"
abbreviation (input) PxFB :: u32 where "PxFB \<equiv> 0x08"
abbreviation (input) PxFBU :: u32 where "PxFBU \<equiv> 0x0C"
abbreviation (input) PxIS :: u32 where "PxIS \<equiv> 0x10"
abbreviation (input) PxCMD :: u32 where "PxCMD \<equiv> 0x18"
abbreviation (input) PxTFD :: u32 where "PxTFD \<equiv> 0x20"
abbreviation (input) PxSIG :: u32 where "PxSIG \<equiv> 0x24"
abbreviation (input) PxSSTS :: u32 where "PxSSTS \<equiv> 0x28"
abbreviation (input) PxSACT :: u32 where "PxSACT \<equiv> 0x34"
abbreviation (input) PxCI :: u32 where "PxCI \<equiv> 0x38"

definition port_get :: "('d, 'z) machine_scheme \<Rightarrow> u32 \<Rightarrow> 'd ahci \<Rightarrow> u32 \<times> 'd ahci" where
  "port_get M a s = (let (v, d) = rd32 M a (hba_bus s) in (v, s\<lparr>hba_bus := d\<rparr>))"

definition port_set :: "('d, 'z) machine_scheme \<Rightarrow> u32 \<Rightarrow> u32 \<Rightarrow> 'd ahci \<Rightarrow> 'd ahci" where
  "port_set M a v s = s\<lparr>hba_bus := wr32 M a v (hba_bus s)\<rparr>"

definition port_update :: "('d, 'z) machine_scheme \<Rightarrow> u32 \<Rightarrow> (u32 \<Rightarrow> u32) \<Rightarrow> 'd ahci \<Rightarrow> 'd ahci" where
  "port_update M a f s = (let (v, s) = port_get M a s in port_set M a (f v) s)"

section \<open>Finding the controller\<close>

definition known_vendors :: "(u16 \<times> u16 list) list" where
  "known_vendors = [(0x8086, [0x2922, 0x2923, 0x2924, 0x2925, 0x2927, 0x2829])]"

fun try_vendors :: "('d, 'z) ports_scheme \<Rightarrow> u8 \<Rightarrow> u8 \<Rightarrow> u16 \<Rightarrow> (u16 \<times> u16 list) list \<Rightarrow> 'd \<Rightarrow> bool \<times> 'd" where
  "try_vendors P b sl vendor [] d = (False, d)"
| "try_vendors P b sl vendor ((v, devices) # vs) d =
     (if v = vendor
      then
        let (device, d) = pci_config_read16 P b sl 0 2 d
        in if device \<in> set devices then (True, d) else try_vendors P b sl vendor vs d
      else try_vendors P b sl vendor vs d)"

fun try_slots :: "('d, 'z) ports_scheme \<Rightarrow> (u8 \<times> u8) list \<Rightarrow> 'd \<Rightarrow> (u8 \<times> u8) option \<times> 'd" where
  "try_slots P [] d = (None, d)"
| "try_slots P ((b, sl) # rest) d =
     (let (vendor, d) = pci_config_read16 P b sl 0 0 d;
          (found, d) = try_vendors P b sl vendor known_vendors d
      in if found then (Some (b, sl), d) else try_slots P rest d)"

definition all_slots :: "(u8 \<times> u8) list" where
  "all_slots = concat (map (\<lambda>b. map (\<lambda>sl. (of_nat b, of_nat sl)) [0..<32]) [0..<256])"

definition find_ahci_pci :: "('d, 'z) ports_scheme \<Rightarrow> 'd \<Rightarrow> (u8 \<times> u8) option \<times> 'd" where
  "find_ahci_pci P d = try_slots P all_slots d"

section \<open>Ports\<close>

datatype ahci_dev = AHCI_DEV_NULL | AHCI_DEV_SATA | AHCI_DEV_SEMB | AHCI_DEV_PM | AHCI_DEV_SATAPI

definition check_type :: "('d, 'z) machine_scheme \<Rightarrow> u32 \<Rightarrow> 'd ahci \<Rightarrow> ahci_dev \<times> 'd ahci" where
  "check_type M port s =
     (let (ssts, s) = port_get M (port + PxSSTS) s;
          ipm = drop_bit 8 ssts AND 0x0F;
          det = ssts AND 0x0F
      in if det \<noteq> 3 \<or> ipm \<noteq> 1 then (AHCI_DEV_NULL, s)
         else
           let (sig, s) = port_get M (port + PxSIG) s
           in (if sig = 0xEB140101 then AHCI_DEV_SATAPI
               else if sig = 0xC33C0101 then AHCI_DEV_SEMB
               else if sig = 0x96690101 then AHCI_DEV_PM
               else if sig = 0x00000101 then AHCI_DEV_SATA
               else AHCI_DEV_NULL, s))"

definition port_at :: "u32 \<Rightarrow> nat \<Rightarrow> u32" where
  "port_at abar i = abar + 0x100 + of_nat (0x80 * i)"

text \<open>What is printed for each port: its number and its type.\<close>

fun probe_loop :: "('d, 'z) machine_scheme \<Rightarrow> u32 \<Rightarrow> u32 \<Rightarrow> nat list \<Rightarrow> 'd ahci \<Rightarrow> (nat \<times> ahci_dev) list \<times> 'd ahci" where
  "probe_loop M abar pi [] s = ([], s)"
| "probe_loop M abar pi (i # is) s =
     (if pi AND 1 \<noteq> 0
      then
        let (dt, s) = check_type M (port_at abar i) s;
            (rest, s) = probe_loop M abar (drop_bit 1 pi) is s
        in ((i, dt) # rest, s)
      else probe_loop M abar (drop_bit 1 pi) is s)"

definition probe_port :: "('d, 'z) machine_scheme \<Rightarrow> u32 \<Rightarrow> 'd ahci \<Rightarrow> (nat \<times> ahci_dev) list \<times> 'd ahci" where
  "probe_port M abar s = (let (pi, s) = port_get M (abar + 0x0C) s in probe_loop M abar pi [0..<32] s)"

section \<open>The command engine\<close>

partial_function (option) wait_clear :: "('d, 'z) machine_scheme \<Rightarrow> u32 \<Rightarrow> u32 \<Rightarrow> 'd ahci \<Rightarrow> 'd ahci option" where
  "wait_clear M a bits s =
     (let (v, s) = port_get M a s in if v AND bits \<noteq> 0 then wait_clear M a bits s else Some s)"

definition start_cmd :: "('d, 'z) machine_scheme \<Rightarrow> u32 \<Rightarrow> 'd ahci \<Rightarrow> 'd ahci option" where
  "start_cmd M port s =
     map_option (\<lambda>s. port_update M (port + PxCMD) (\<lambda>v. v OR 0x0001) (port_update M (port + PxCMD) (\<lambda>v. v OR 0x0010) s))
       (wait_clear M (port + PxCMD) 0x8000 s)"

text \<open>The two flags are read one after the other, and both again unless both are clear.\<close>

partial_function (option) wait_stopped :: "('d, 'z) machine_scheme \<Rightarrow> u32 \<Rightarrow> 'd ahci \<Rightarrow> 'd ahci option" where
  "wait_stopped M a s =
     (let (v, s) = port_get M a s
      in if v AND 0x4000 \<noteq> 0 then wait_stopped M a s
         else
           let (v, s) = port_get M a s
           in if v AND 0x8000 \<noteq> 0 then wait_stopped M a s else Some s)"

definition stop_cmd :: "('d, 'z) machine_scheme \<Rightarrow> u32 \<Rightarrow> 'd ahci \<Rightarrow> 'd ahci option" where
  "stop_cmd M port s =
     wait_stopped M (port + PxCMD)
       (port_update M (port + PxCMD) (\<lambda>v. v AND NOT 0x0010) (port_update M (port + PxCMD) (\<lambda>v. v AND NOT 0x0001) s))"

abbreviation (input) AHCI_BASE :: u32 where "AHCI_BASE \<equiv> 0x800000"

definition table_at :: "nat \<Rightarrow> nat \<Rightarrow> u32" where
  "table_at portno i = AHCI_BASE + of_nat (40 * 1024 + 8192 * portno + 256 * i)"

definition header_at :: "u32 \<Rightarrow> nat \<Rightarrow> u32" where
  "header_at clb i = clb + of_nat (32 * i)"

definition setup_header :: "u32 \<Rightarrow> nat \<Rightarrow> nat \<Rightarrow> 'd ahci \<Rightarrow> 'd ahci" where
  "setup_header clb portno i s =
     (let a = table_at portno i
      in s\<lparr>headers := (headers s)(header_at clb i := (headers s (header_at clb i))\<lparr>prdtl := 8, ctba := a, ctbau := 0\<rparr>),
           tables := (tables s)(a := \<lparr>cfis = zero_fis, prdt_entry = replicate 8 zero_prdt\<rparr>)\<rparr>)"

definition port_rebase :: "('d, 'z) machine_scheme \<Rightarrow> u32 \<Rightarrow> nat \<Rightarrow> 'd ahci \<Rightarrow> 'd ahci option" where
  "port_rebase M port portno s =
     Option.bind (stop_cmd M port s) (\<lambda>s.
       let clb = AHCI_BASE + of_nat (1024 * portno);
           s = port_set M (port + PxCLBU) 0 (port_set M (port + PxCLB) clb s);
           s = s\<lparr>headers := fold (\<lambda>i h. h(header_at clb i := zero_header)) [0..<32] (headers s)\<rparr>;
           fb = AHCI_BASE + of_nat (32 * 1024 + 256 * portno);
           s = port_set M (port + PxFBU) 0 (port_set M (port + PxFB) fb s);
           s = s\<lparr>fis_area := (fis_area s)(fb := replicate 256 0)\<rparr>
       in start_cmd M port (fold (setup_header clb portno) [0..<32] s))"

section \<open>Reading\<close>

fun free_slot :: "u32 \<Rightarrow> nat \<Rightarrow> int \<Rightarrow> int option" where
  "free_slot slots 0 i = None"
| "free_slot slots (Suc n) i = (if slots AND 1 = 0 then Some i else free_slot (drop_bit 1 slots) n (i + 1))"

text \<open>\<open>None\<close> is the result -1.\<close>

definition find_cmdslot :: "('d, 'z) machine_scheme \<Rightarrow> u32 \<Rightarrow> 'd ahci \<Rightarrow> nat option \<times> 'd ahci" where
  "find_cmdslot M port s =
     (let (sact, s) = port_get M (port + PxSACT) s; (ci, s) = port_get M (port + PxCI) s
      in (map_option nat (free_slot (sact OR ci) (nat (cmdslots s)) 0), s))"

text \<open>All entries but the last take 16 sectors. What is left of the count comes out beside them.\<close>

fun full_entries :: "nat \<Rightarrow> u32 \<Rightarrow> u32 \<Rightarrow> HBA_PRDT_ENTRY list \<times> u32 \<times> u32" where
  "full_entries 0 buf count = ([], buf, count)"
| "full_entries (Suc n) buf count =
     (let (es, buf', count') = full_entries n (buf + 8192) (count - 16)
      in (\<lparr>dba = buf, dbc = 8 * 1024 - 1, prdt_i = True\<rparr> # es, buf', count'))"

definition prdt_count :: "u32 \<Rightarrow> u16" where
  "prdt_count count = ucast (drop_bit 4 (count - 1)) + 1"

definition read_command :: "u32 \<Rightarrow> u32 \<Rightarrow> u32 \<Rightarrow> u32 \<Rightarrow> HBA_CMD_TBL" where
  "read_command startl starth count buf =
     (let (es, buf, count) = full_entries (unat (prdt_count count) - 1) buf count
      in \<lparr>cfis = \<lparr>fis_type = 0x27, fis_c = True, fis_command = 0x25,
            lba0 = ucast startl, lba1 = ucast (drop_bit 8 startl), lba2 = ucast (drop_bit 16 startl),
            fis_device = 0x40, lba3 = ucast (drop_bit 24 startl), lba4 = ucast starth,
            lba5 = ucast (drop_bit 8 starth), countl = ucast (count AND 0xFF),
            counth = ucast (drop_bit 8 count AND 0xFF)\<rparr>,
          prdt_entry = es @ [\<lparr>dba = buf, dbc = take_bit 22 (push_bit 9 count - 1), prdt_i = True\<rparr>]\<rparr>)"

fun spin_ready :: "('d, 'z) machine_scheme \<Rightarrow> u32 \<Rightarrow> nat \<Rightarrow> 'd ahci \<Rightarrow> bool \<times> 'd ahci" where
  "spin_ready M a n s =
     (let (v, s) = port_get M a s
      in if v AND 0x88 = 0 then (n \<noteq> 0, s)
         else case n of 0 \<Rightarrow> (False, s) | Suc n \<Rightarrow> spin_ready M a n s)"

declare spin_ready.simps [simp del]

partial_function (option) wait_done :: "('d, 'z) machine_scheme \<Rightarrow> u32 \<Rightarrow> nat \<Rightarrow> 'd ahci \<Rightarrow> (bool \<times> 'd ahci) option" where
  "wait_done M port sl s =
     (let (ci, s) = port_get M (port + PxCI) s
      in if ci AND push_bit sl 1 = 0 then Some (True, s)
         else
           let (i, s) = port_get M (port + PxIS) s
           in if i AND 0x40000000 \<noteq> 0 then Some (False, s) else wait_done M port sl s)"

definition ahci_read :: "('d, 'z) machine_scheme \<Rightarrow> u32 \<Rightarrow> u32 \<Rightarrow> u32 \<Rightarrow> u32 \<Rightarrow> u32 \<Rightarrow> 'd ahci \<Rightarrow> (bool \<times> 'd ahci) option" where
  "ahci_read M port startl starth count buf s =
     (let s = port_set M (port + PxIS) (- 1) s;
          (slot, s) = find_cmdslot M port s
      in case slot of
           None \<Rightarrow> Some (False, s)
         | Some sl \<Rightarrow>
             let (clb, s) = port_get M (port + PxCLB) s;
                 a = header_at clb sl;
                 h = (headers s a)\<lparr>cfl := 5, hdr_w := False, prdtl := prdt_count count\<rparr>;
                 s = s\<lparr>headers := (headers s)(a := h),
                       tables := (tables s)(ctba h := read_command startl starth count buf)\<rparr>;
                 (ready, s) = spin_ready M (port + PxTFD) 1000000 s
             in if \<not> ready then Some (False, s)
                else
                  Option.bind (wait_done M port sl (port_set M (port + PxCI) (push_bit sl 1) s)) (\<lambda>(ok, s).
                    if \<not> ok then Some (False, s)
                    else
                      let (i, s) = port_get M (port + PxIS) s
                      in Some (i AND 0x40000000 = 0, s)))"

section \<open>Initialisation\<close>

text \<open>
  The result, and the entry of the page directory the registers are mapped by, at the index of their
  address. The flags are those of a present, writable, uncached page of 4 MB.
\<close>

definition ahci_init :: "('d, 'z) machine_scheme \<Rightarrow> 'd ahci \<Rightarrow> u32 \<times> (nat \<times> u32) option \<times> 'd ahci" where
  "ahci_init M s =
     (let (found, d) = find_ahci_pci M (hba_bus s); s = s\<lparr>hba_bus := d\<rparr>
      in case found of
           None \<Rightarrow> (1, None, s)
         | Some (b, sl) \<Rightarrow>
             let (class_code, d) = pci_config_read16 M b sl 0 0x0A (hba_bus s);
                 (abar, d) = pci_config_read32 M b sl 0 0x24 d;
                 s = s\<lparr>hba := abar, hba_bus := d\<rparr>;
                 (_, s) = port_get M abar s;
                 (_, s) = port_get M (abar + 0x10) s;
                 (_, s) = port_get M (abar + 0x0C) s;
                 (_, s) = probe_port M abar s;
                 (cap, s) = port_get M abar s
             in (0, Some (unat (drop_bit 22 abar), (abar AND 0xFFC00000) OR 0x93),
                 s\<lparr>cmdslots := uint (drop_bit 8 (cap AND 0x0F00))\<rparr>))"

section \<open>What a read asks for\<close>

lemma full_entries_eq:
  "full_entries n buf count =
    (map (\<lambda>i. \<lparr>dba = buf + of_nat (8192 * i), dbc = 8191, prdt_i = True\<rparr>) [0..<n], buf + of_nat (8192 * n), count - of_nat (16 * n))"
proof (induction n arbitrary: buf count)
  case (Suc n)
  have "[0..<Suc n] = 0 # map Suc [0..<n]" by (simp add: upt_conv_Cons map_Suc_upt del: upt_Suc)
  then show ?case using Suc by (simp add: comp_def algebra_simps del: upt_Suc)
qed simp

lemma prdt_count_unat:
  assumes "0 < unat count" "unat count \<le> 128"
  shows "unat (prdt_count count) = (unat count - 1) div 16 + 1"
    "unat (count - of_nat (16 * ((unat count - 1) div 16))) = (unat count - 1) mod 16 + 1"
proof -
  have "count \<noteq> 0" using assms(1) by auto
  then have m: "unat (count - 1) = unat count - 1" by (rule unat_minus_one)
  have "unat (drop_bit 4 (count - 1)) = (unat count - 1) div 16" by (simp add: drop_bit_eq_div unat_div m)
  then have "unat (ucast (drop_bit 4 (count - 1)) :: u16) = (unat count - 1) div 16"
    using assms(2) by (simp add: unsigned_ucast_eq take_bit_nat_eq_self)
  moreover have "(unat count - 1) div 16 + 1 < 2 ^ LENGTH(16)" using assms(2) by simp
  ultimately show "unat (prdt_count count) = (unat count - 1) div 16 + 1"
    unfolding prdt_count_def by (subst unat_add_lem [THEN iffD1]) simp_all
  have le: "16 * ((unat count - 1) div 16) \<le> unat count - 1" by (rule times_div_less_eq_dividend)
  then have u: "unat (of_nat (16 * ((unat count - 1) div 16)) :: u32) = 16 * ((unat count - 1) div 16)"
    using assms(2) by (intro unat_of_nat32 le_less_trans [OF le]) simp
  have "unat count = 16 * ((unat count - 1) div 16) + (unat count - 1) mod 16 + 1"
    using assms(1) mult_div_mod_eq [of 16 "unat count - 1"] by linarith
  then show "unat (count - of_nat (16 * ((unat count - 1) div 16))) = (unat count - 1) mod 16 + 1"
    using le by (subst unat_sub) (simp_all only: word_le_nat_alt u, linarith+)
qed

text \<open>
  C37. The command for a read of up to 128 sectors, as many as its table has room for, describes memory
  of exactly the size read, in pieces that follow each other from the buffer on; but the number of
  sectors it gives the drive is only that of the last piece, at most 16.
\<close>

theorem read_command_covers:
  assumes "0 < unat count" "unat count \<le> 128"
  shows "let t = read_command startl starth count buf; es = prdt_entry t
    in length es = (unat count - 1) div 16 + 1 \<and>
       (\<forall>i < length es. dba (es ! i) = buf + of_nat (8192 * i)) \<and>
       sum_list (map (\<lambda>e. unat (dbc e) + 1) es) = 512 * unat count \<and>
       unat (countl (cfis t)) + 256 * unat (counth (cfis t)) = (unat count - 1) mod 16 + 1"
proof -
  let ?q = "(unat count - 1) div 16" and ?r = "(unat count - 1) mod 16"
  let ?c = "count - of_nat (16 * ?q)"
  note pc = prdt_count_unat [OF assms]
  have rlt: "?r < 16" by simp
  have split: "unat count = 16 * ?q + ?r + 1" using assms(1) mult_div_mod_eq [of 16 "unat count - 1"] by linarith
  have "?c = of_nat (?r + 1)" unfolding pc(2) [symmetric] by simp
  moreover from this have "take_bit 22 (push_bit 9 ?c - 1) = of_nat (512 * ?r + 511)"
  proof -
    assume c: "?c = of_nat (?r + 1)"
    have "push_bit 9 ?c - 1 = of_nat (512 * ?r + 511)" unfolding c push_bit_eq_mult by simp
    moreover have "take_bit 22 (of_nat (512 * ?r + 511) :: u32) = of_nat (512 * ?r + 511)"
    proof -
      have "512 * ?r + 511 < 2 ^ 22" using rlt by simp
      then have "take_bit 22 (512 * ?r + 511) = 512 * ?r + 511" by (rule take_bit_nat_eq_self)
      then show ?thesis by (metis take_bit_of_nat)
    qed
    ultimately show ?thesis by (simp only:)
  qed
  moreover have "unat (of_nat (512 * ?r + 511) :: u32) = 512 * ?r + 511" using rlt by (intro unat_of_nat32) simp
  ultimately have last: "unat (take_bit 22 (push_bit 9 ?c - 1)) + 1 = 512 * (?r + 1)" by simp
  have cl: "unat (ucast (?c AND 0xFF) :: u8) = ?r + 1" "unat (ucast (drop_bit 8 ?c AND 0xFF) :: u8) = 0"
  proof -
    have m: "(0xFF :: u32) = mask 8" by (simp add: mask_eq_exp_minus_1)
    have l: "unat (ucast (w AND mask 8) :: u8) = unat w mod 256" for w :: u32
    proof -
      have "ucast (w AND mask 8) = (ucast w :: u8)" by (rule bit_word_eqI) (simp add: bit_simps)
      then show ?thesis by (simp add: unsigned_ucast_eq take_bit_eq_mod)
    qed
    show "unat (ucast (?c AND 0xFF) :: u8) = ?r + 1" unfolding m l pc(2) using rlt by simp
    have "unat (drop_bit 8 ?c) = 0" unfolding drop_bit_eq_div unat_div pc(2) using rlt by simp
    then show "unat (ucast (drop_bit 8 ?c AND 0xFF) :: u8) = 0" unfolding m l by simp
  qed
  have t: "prdt_entry (read_command startl starth count buf) =
      map (\<lambda>i. \<lparr>dba = buf + of_nat (8192 * i), dbc = 8191, prdt_i = True\<rparr>) [0..<?q] @
      [\<lparr>dba = buf + of_nat (8192 * ?q), dbc = take_bit 22 (push_bit 9 ?c - 1), prdt_i = True\<rparr>]"
    "countl (cfis (read_command startl starth count buf)) = ucast (?c AND 0xFF)"
    "counth (cfis (read_command startl starth count buf)) = ucast (drop_bit 8 ?c AND 0xFF)"
    by (simp_all add: read_command_def full_entries_eq pc(1) Let_def del: of_nat_mult)
  have "sum_list (map (\<lambda>e. unat (dbc e) + 1) (prdt_entry (read_command startl starth count buf))) = 8192 * ?q + 512 * (?r + 1)"
    unfolding t using last by (simp add: comp_def sum_list_triv)
  also have "\<dots> = 512 * unat count"
  proof -
    have "8192 * q + 512 * (r + 1) = 512 * u" if "u = 16 * q + r + 1" for u q r :: nat using that by simp
    from this [OF split] show ?thesis .
  qed
  finally show ?thesis using t cl by (simp add: Let_def nth_append less_Suc_eq del: of_nat_mult)
qed

theorem read_command_covers_witness:
  "let t = read_command 0 0 20 0x100000 in sum_list (map (\<lambda>e. unat (dbc e) + 1) (prdt_entry t)) = 10240 \<and>
     unat (countl (cfis t)) + 256 * unat (counth (cfis t)) = 4"
  using read_command_covers [where count = 20 and startl = 0 and starth = 0 and buf = "0x100000"] by (simp add: Let_def)

text \<open>Nothing of five bits and one more: a controller of 32 slots is taken to have 15.\<close>

lemma cmdslots_lost: "uint (drop_bit 8 ((0x1F00 :: u32) AND 0x0F00)) = 15"
  by simp

end
