(* ===== verification/Graphic.thy ===== *)
theory Graphic
  imports Machine Libc
begin

text \<open>
  The console on the frame buffer, \<^verbatim>\<open>driver/graphic.c\<close>. The glyphs (\<^verbatim>\<open>static/font_8x13.h\<close>) and the
  picture above the text (\<^verbatim>\<open>static/logo.h\<close>) are tables of data and are arguments here. The frame
  buffer is its pixels by their offset from \<open>fb_addr\<close>.
\<close>

section \<open>State\<close>

record 'd console =
  disp_offset :: u32
  char_width :: u32
  char_height :: u32
  char_x :: int
  char_y :: int
  char_y_start :: int
  disp_width :: u32
  disp_height :: u32
  disp_pitch :: u32
  fb :: "nat \<Rightarrow> u32"
  con_bus :: 'd

abbreviation (input) FONT_WIDTH :: nat where "FONT_WIDTH \<equiv> 8"
abbreviation (input) FONT_HEIGHT :: nat where "FONT_HEIGHT \<equiv> 13"
abbreviation (input) FONT_GAP_X :: nat where "FONT_GAP_X \<equiv> 1"
abbreviation (input) LOGO_X :: nat where "LOGO_X \<equiv> 256"
abbreviation (input) LOGO_Y :: nat where "LOGO_Y \<equiv> 102"

definition font_block :: "u8 list" where
  "font_block = [0x7E, 0x42, 0x42, 0x42, 0x42, 0x42, 0x42, 0x42, 0x42, 0x42, 0x42, 0x7E, 0x00]"

section \<open>Drawing\<close>

text \<open>One byte of a bitmap, its lowest bit to the left.\<close>

definition put_byte :: "nat \<Rightarrow> u8 \<Rightarrow> u32 \<Rightarrow> u32 \<Rightarrow> (nat \<Rightarrow> u32) \<Rightarrow> nat \<Rightarrow> u32" where
  "put_byte addr b fg bg f = fold (\<lambda>x f. f(addr + x := if bit b x then fg else bg)) [0..<8] f"

definition put_row :: "nat \<Rightarrow> u8 list \<Rightarrow> u32 \<Rightarrow> u32 \<Rightarrow> (nat \<Rightarrow> u32) \<Rightarrow> nat \<Rightarrow> u32" where
  "put_row addr bs fg bg f = fold (\<lambda>i. put_byte (addr + 8 * i) (bs ! i) fg bg) [0..<length bs] f"

fun put_bitmap :: "nat \<Rightarrow> nat \<Rightarrow> u8 list \<Rightarrow> nat \<Rightarrow> nat \<Rightarrow> u32 \<Rightarrow> u32 \<Rightarrow> (nat \<Rightarrow> u32) \<Rightarrow> nat \<Rightarrow> u32" where
  "put_bitmap addr width_pitch bitmap bitmap_X 0 fg bg f = f"
| "put_bitmap addr width_pitch bitmap bitmap_X (Suc n) fg bg f =
     put_bitmap (addr + width_pitch div 4) width_pitch (drop (bitmap_X div 8) bitmap) bitmap_X n fg bg
       (put_row addr (take (bitmap_X div 8) bitmap) fg bg f)"

text \<open>
  The glyph of a character. The comparison is one of unsigned numbers, so that the characters below
  the first glyph, and those that are negative, are drawn as a block; but it lets the number of the
  glyphs itself through.
\<close>

definition glyph :: "u8 list list \<Rightarrow> u8 \<Rightarrow> u8 list res" where
  "glyph font c =
     (let k = (scast c - 32 :: u32)
      in if 95 < k then Inr font_block
         else if unat k < length font then Inr (font ! unat k) else Inl OutOfBounds)"

definition cell :: "u32 \<Rightarrow> int \<Rightarrow> int \<Rightarrow> nat" where
  "cell width x y = unat (word_of_int (x * 9) + word_of_int (y * 13) * width)"

definition draw :: "u8 list \<Rightarrow> u32 \<Rightarrow> u32 \<Rightarrow> 'd console \<Rightarrow> 'd console" where
  "draw g fg bg s = s\<lparr>fb := put_bitmap (cell (disp_width s) (char_x s) (char_y s)) (unat (disp_pitch s)) g
     FONT_WIDTH FONT_HEIGHT fg bg (fb s)\<rparr>"

definition kputc_color_xy :: "u8 list list \<Rightarrow> int \<Rightarrow> int \<Rightarrow> u8 \<Rightarrow> u32 \<Rightarrow> u32 \<Rightarrow> 'd console \<Rightarrow> 'd console res" where
  "kputc_color_xy font x y c fg bg s =
     and_then (glyph font c) (\<lambda>g. Inr (s\<lparr>fb := put_bitmap (cell (disp_width s) x y) (unat (disp_pitch s)) g
       FONT_WIDTH FONT_HEIGHT fg bg (fb s)\<rparr>))"

text \<open>The column between two cells, when the background is not black.\<close>

definition draw_gap :: "u32 \<Rightarrow> 'd console \<Rightarrow> 'd console" where
  "draw_gap bg s =
     (if bg = 0 then s
      else s\<lparr>fb := fold (\<lambda>i f. f(cell (disp_width s) (char_x s) (char_y s) + unat (disp_width s) * i + FONT_WIDTH := bg))
        [0..<FONT_HEIGHT] (fb s)\<rparr>)"

section \<open>The cursor\<close>

definition new_line :: "'d console \<Rightarrow> 'd console" where
  "new_line s =
     (let s = s\<lparr>char_x := 0, char_y := char_y s + 1\<rparr>
      in if char_height s \<le> word_of_int (char_y s) then s\<lparr>char_y := char_y_start s\<rparr> else s)"

definition step_back :: "'d console \<Rightarrow> 'd console" where
  "step_back s =
     (if char_x s = 0
      then
        let s = s\<lparr>char_x := sint (char_width s - 1)\<rparr>
        in if char_y s \<noteq> 0 then s\<lparr>char_y := char_y s - 1\<rparr> else s
      else s\<lparr>char_x := char_x s - 1\<rparr>)"

definition advance_x :: "'d console \<Rightarrow> 'd console" where
  "advance_x s =
     (let s = s\<lparr>char_x := char_x s + 1\<rparr>
      in if char_width s \<le> word_of_int (char_x s) then new_line s else s)"

definition put_char :: "u8 list list \<Rightarrow> u8 \<Rightarrow> u32 \<Rightarrow> u32 \<Rightarrow> 'd console \<Rightarrow> 'd console res" where
  "put_char font c fg bg s =
     (if c = 0x0A then Inr (new_line s)
      else if c = 0x08 then Inr (draw (font ! 0) fg bg (step_back s))
      else and_then (glyph font c) (\<lambda>g. Inr (advance_x (draw_gap bg (draw g fg bg s)))))"

definition kputc_color :: "('d, 'z) ports_scheme \<Rightarrow> u8 list list \<Rightarrow> u8 \<Rightarrow> u32 \<Rightarrow> u32 \<Rightarrow> 'd console \<Rightarrow> 'd console res option" where
  "kputc_color P font c fg bg s =
     map_option (\<lambda>d. put_char font c fg bg (s\<lparr>con_bus := d\<rparr>)) (write_serial P c (con_bus s))"

fun kputs :: "('d, 'z) ports_scheme \<Rightarrow> u8 list list \<Rightarrow> u8 list \<Rightarrow> u32 \<Rightarrow> u32 \<Rightarrow> 'd console \<Rightarrow> 'd console res option" where
  "kputs P font [] fg bg s = Some (Inr s)"
| "kputs P font (c # cs) fg bg s =
     Option.bind (kputc_color P font c fg bg s) (\<lambda>r. case r of
       Inl e \<Rightarrow> Some (Inl e)
     | Inr s \<Rightarrow> kputs P font cs fg bg s)"

text \<open>The text, formatted into 256 bytes with its terminator, is printed to the first byte that is 0.\<close>

definition kprintfc :: "('d, 'z) ports_scheme \<Rightarrow> u8 list list \<Rightarrow> (u32 \<Rightarrow> u8 list) \<Rightarrow> u32 \<Rightarrow> u32 \<Rightarrow> u8 list \<Rightarrow> u32 list \<Rightarrow>
    'd console \<Rightarrow> 'd console res option" where
  "kprintfc P font strings fg bg fmt args s =
     (case vsprintf strings fmt args of
        Inl e \<Rightarrow> Some (Inl e)
      | Inr text_bytes \<Rightarrow>
          if 256 \<le> length text_bytes then Some (Inl OutOfBounds)
          else kputs P font (takeWhile (\<lambda>c. c \<noteq> 0) text_bytes) fg bg s)"

definition kprintf :: "('d, 'z) ports_scheme \<Rightarrow> u8 list list \<Rightarrow> (u32 \<Rightarrow> u8 list) \<Rightarrow> u8 list \<Rightarrow> u32 list \<Rightarrow>
    'd console \<Rightarrow> 'd console res option" where
  "kprintf P font strings fmt args s = kprintfc P font strings 0x00FFFFFF 0 fmt args s"

section \<open>Initialisation\<close>

definition put_logo :: "(nat \<Rightarrow> nat \<Rightarrow> u32) \<Rightarrow> nat \<Rightarrow> (nat \<Rightarrow> u32) \<Rightarrow> nat \<Rightarrow> u32" where
  "put_logo logo width f =
     fold (\<lambda>y f. fold (\<lambda>x f. f(y * width + x := logo y x)) [0..<LOGO_X] f) [0..<LOGO_Y] f"

definition GRAPHIC_init :: "(nat \<Rightarrow> nat \<Rightarrow> u32) \<Rightarrow> u32 \<Rightarrow> u32 \<Rightarrow> u32 \<Rightarrow> 'd console \<Rightarrow> 'd console" where
  "GRAPHIC_init logo width height pitch s =
     s\<lparr>disp_width := width, disp_height := height, disp_pitch := pitch,
       char_width := width div 9, char_height := height div 13, char_x := 0,
       fb := put_logo logo (unat width) (fb s),
       disp_offset := width * (of_nat LOGO_Y + 5),
       char_y := (int LOGO_Y + 2 + 13) div 13, char_y_start := (int LOGO_Y + 2 + 13) div 13\<rparr>"

end
