(* ===== verification/Graphic_Props.thy ===== *)
theory Graphic_Props
  imports Graphic
begin

text \<open>The console keeps its cursor on the screen, draws the glyphs, and writes to nothing but the screen.\<close>

section \<open>Bitmaps\<close>

lemma put_byte_apply:
  "put_byte a b fg bg f q = (if a \<le> q \<and> q < a + 8 then if bit b (q - a) then fg else bg else f q)"
proof -
  have "fold (\<lambda>x f. f(a + x := if bit b x then fg else bg)) [0..<n] f q =
      (if a \<le> q \<and> q < a + n then if bit b (q - a) then fg else bg else f q)" for n
    by (induction n) auto
  then show ?thesis by (simp add: put_byte_def)
qed

lemma put_row_one: "put_row a [b] fg bg f = put_byte a b fg bg f"
  by (simp add: put_row_def)

lemma put_bitmap_other:
  "(\<And>r x. r < n \<Longrightarrow> x < 8 \<Longrightarrow> q \<noteq> a + r * (p div 4) + x) \<Longrightarrow> n \<le> length bm \<Longrightarrow> put_bitmap a p bm 8 n fg bg f q = f q"
proof (induction n arbitrary: a bm f)
  case (Suc n)
  then obtain b bs where bm: "bm = b # bs" by (cases bm) auto
  have "q \<noteq> a + x" if "x < 8" for x using Suc.prems(1) [of 0 x] that by simp
  then have out: "\<not> (a \<le> q \<and> q < a + 8)" by (metis add_less_cancel_left le_add_diff_inverse)
  have "q \<noteq> (a + p div 4) + r * (p div 4) + x" if "r < n" "x < 8" for r x
    using Suc.prems(1) [of "Suc r" x] that by (simp add: add.assoc)
  then show ?case using Suc.IH [of "a + p div 4" bs] Suc.prems(2) by (simp add: bm put_row_one put_byte_apply if_not_P [OF out])
qed simp

lemma put_bitmap_pixel:
  "8 \<le> p div 4 \<Longrightarrow> n \<le> length bm \<Longrightarrow> r < n \<Longrightarrow> x < 8 \<Longrightarrow>
   put_bitmap a p bm 8 n fg bg f (a + r * (p div 4) + x) = (if bit (bm ! r) x then fg else bg)"
proof (induction n arbitrary: a bm f r)
  case (Suc n)
  then obtain b bs where bm: "bm = b # bs" by (cases bm) auto
  show ?case
  proof (cases r)
    case 0
    have "put_bitmap (a + p div 4) p bs 8 n fg bg g (a + x) = g (a + x)" for g
      using Suc.prems by (intro put_bitmap_other) (auto simp: bm)
    then show ?thesis using 0 Suc.prems(4) by (simp add: bm put_row_one put_byte_apply)
  next
    case (Suc r')
    then show ?thesis using Suc.IH [of bs r' "a + p div 4"] Suc.prems by (simp add: bm add.assoc)
  qed
qed simp

section \<open>The screen\<close>

definition on_screen :: "'d console \<Rightarrow> bool" where
  "on_screen s \<longleftrightarrow> 0 \<le> char_x s \<and> nat (char_x s) < unat (char_width s) \<and>
     0 \<le> char_y s \<and> nat (char_y s) < unat (char_height s) \<and>
     0 \<le> char_y_start s \<and> nat (char_y_start s) < unat (char_height s) \<and>
     unat (char_width s) < 2 ^ 31 \<and> unat (char_height s) < 2 ^ 31"

definition screen_geometry :: "'d console \<Rightarrow> bool" where
  "screen_geometry s \<longleftrightarrow> char_width s = disp_width s div 9 \<and> char_height s = disp_height s div 13 \<and>
     unat (disp_pitch s) = 4 * unat (disp_width s) \<and> unat (disp_width s) * unat (disp_height s) < 2 ^ 30"

lemma unat_of_int32:
  assumes "0 \<le> n" "n < 2 ^ 32"
  shows "unat (word_of_int n :: u32) = nat n"
  using assms by (simp add: unat_eq_nat_uint uint_word_of_int_eq take_bit_int_eq_self)

lemma at_least_width:
  assumes "0 \<le> n" "n < 2 ^ 32"
  shows "(w :: u32) \<le> word_of_int n \<longleftrightarrow> unat w \<le> nat n"
  unfolding word_le_nat_alt unat_of_int32 [OF assms] ..

lemma succ_small:
  assumes "0 \<le> n" "nat n < k" "k < 2 ^ 31"
  shows "0 \<le> n + 1" "n + 1 < 2 ^ 32"
proof -
  have "nat n < 2 ^ 31" using assms(2,3) by simp
  then have "n < 2 ^ 31" using assms(1) by (simp add: nat_less_iff)
  then show "0 \<le> n + 1" "n + 1 < 2 ^ 32" using assms(1) by simp_all
qed

lemma new_line_on_screen:
  assumes "0 \<le> char_y s" "nat (char_y s) < unat (char_height s)" "0 < unat (char_width s)"
    "0 \<le> char_y_start s" "nat (char_y_start s) < unat (char_height s)" "unat (char_width s) < 2 ^ 31" "unat (char_height s) < 2 ^ 31"
  shows "on_screen (new_line s)"
proof -
  have n: "nat (char_y s + 1) = Suc (nat (char_y s))" using assms(1) by simp
  have "char_height s \<le> word_of_int (char_y s + 1) \<longleftrightarrow> unat (char_height s) \<le> Suc (nat (char_y s))"
    unfolding n [symmetric] by (rule at_least_width [OF succ_small [OF assms(1,2,7)]])
  then show ?thesis using assms n by (auto simp: new_line_def on_screen_def Let_def)
qed

lemma step_back_on_screen:
  assumes "on_screen s"
  shows "on_screen (step_back s)"
proof -
  have w: "0 < unat (char_width s)" "unat (char_width s) < 2 ^ 31" using assms by (auto simp: on_screen_def)
  then have m: "unat (char_width s - 1) = unat (char_width s) - 1" by (metis less_irrefl unat_0 unat_minus_one)
  have s: "sint v = int (unat v)" if "unat v < 2 ^ 31" for v :: u32
  proof -
    have "uint v < 2 ^ 31" using that by (simp add: uint_nat del: of_nat_unat)
    then have "signed_take_bit 31 (uint v) = uint v" by (intro signed_take_bit_int_eq_self) (simp_all add: order_trans [OF _ uint_ge_0])
    then show ?thesis by (simp add: sint_uint)
  qed
  have "sint (char_width s - 1) = int (unat (char_width s - 1))" using m w by (intro s) simp
  then have "0 \<le> sint (char_width s - 1)" "nat (sint (char_width s - 1)) < unat (char_width s)"
    using m w by (simp_all only: nat_int)
  then show ?thesis using assms by (auto simp: step_back_def on_screen_def Let_def nat_diff_distrib)
qed

lemma advance_x_on_screen:
  assumes "on_screen s"
  shows "on_screen (advance_x s)"
proof -
  have x: "0 \<le> char_x s" "nat (char_x s) < unat (char_width s)" "unat (char_width s) < 2 ^ 31"
    using assms by (simp_all add: on_screen_def)
  have n: "nat (char_x s + 1) = Suc (nat (char_x s))" using x(1) by simp
  have "char_width s \<le> word_of_int (char_x s + 1) \<longleftrightarrow> unat (char_width s) \<le> Suc (nat (char_x s))"
    unfolding n [symmetric] by (rule at_least_width [OF succ_small [OF x]])
  moreover have "on_screen (new_line (s\<lparr>char_x := char_x s + 1\<rparr>))"
    using assms by (intro new_line_on_screen) (auto simp: on_screen_def)
  ultimately show ?thesis using assms n by (auto simp: advance_x_def on_screen_def Let_def)
qed

lemma on_screen_fb [simp]: "on_screen (s\<lparr>fb := f\<rparr>) = on_screen s" "on_screen (s\<lparr>con_bus := d\<rparr>) = on_screen s"
  by (simp_all add: on_screen_def)

lemma draw_on_screen [simp]: "on_screen (draw g fg bg s) = on_screen s" "on_screen (draw_gap bg s) = on_screen s"
  by (simp_all add: draw_def draw_gap_def)

lemma put_char_screen:
  assumes "on_screen s" "put_char font c fg bg s = Inr s'"
  shows "on_screen s'"
proof -
  have "on_screen (new_line s)" using assms(1) by (intro new_line_on_screen) (auto simp: on_screen_def)
  then show ?thesis
    using assms step_back_on_screen [OF assms(1)]
    by (auto simp: put_char_def and_then_eq_Inr advance_x_on_screen split: if_splits)
qed

section \<open>Cells\<close>

lemma cell_unat:
  assumes "on_screen s" "screen_geometry s"
  shows "cell (disp_width s) (char_x s) (char_y s) = nat (char_x s) * 9 + nat (char_y s) * 13 * unat (disp_width s)"
    "nat (char_x s) * 9 + 9 \<le> unat (disp_width s)" "nat (char_y s) * 13 + 13 \<le> unat (disp_height s)"
proof -
  have w: "unat (char_width s) = unat (disp_width s) div 9" "unat (char_height s) = unat (disp_height s) div 13"
    using assms(2) by (simp_all add: screen_geometry_def unat_div)
  have "nat (char_x s) < unat (disp_width s) div 9" "nat (char_y s) < unat (disp_height s) div 13"
    using assms(1) w by (simp_all add: on_screen_def)
  then show x: "nat (char_x s) * 9 + 9 \<le> unat (disp_width s)" and y: "nat (char_y s) * 13 + 13 \<le> unat (disp_height s)"
    by linarith+
  let ?W = "unat (disp_width s)" and ?H = "unat (disp_height s)"
  have area: "?W * ?H < 2 ^ 30" using assms(2) by (simp add: screen_geometry_def)
  have "nat (char_y s) * 13 * ?W \<le> (?H - 13) * ?W" using y by (intro mult_le_mono1) simp
  moreover have "(?H - 13) * ?W + ?W \<le> ?H * ?W"
  proof -
    have "(?H - 13) * ?W + ?W = (?H - 13 + 1) * ?W" by simp
    also have "\<dots> \<le> ?H * ?W" using y by (intro mult_le_mono1) simp
    finally show ?thesis .
  qed
  ultimately have less: "nat (char_x s) * 9 + nat (char_y s) * 13 * ?W < ?H * ?W" using x by linarith
  then have small: "nat (char_x s) * 9 + nat (char_y s) * 13 * ?W < 2 ^ 30" using area by (simp only: mult.commute [of ?H])
  have "(word_of_int (char_x s * 9) :: u32) = of_nat (nat (char_x s) * 9)"
    "(word_of_int (char_y s * 13) :: u32) = of_nat (nat (char_y s) * 13)"
    using assms(1) by (simp_all add: on_screen_def)
  then have "(word_of_int (char_x s * 9) + word_of_int (char_y s * 13) * disp_width s :: u32) =
      of_nat (nat (char_x s) * 9 + nat (char_y s) * 13 * ?W)" by simp
  moreover have "unat (of_nat (nat (char_x s) * 9 + nat (char_y s) * 13 * ?W) :: u32) = nat (char_x s) * 9 + nat (char_y s) * 13 * ?W"
    using small by (intro unat_of_nat32) simp
  ultimately show "cell (disp_width s) (char_x s) (char_y s) = nat (char_x s) * 9 + nat (char_y s) * 13 * ?W"
    unfolding cell_def by (simp only:)
qed

text \<open>A pixel of a cell lies in the frame buffer.\<close>

lemma cell_inside:
  assumes "on_screen s" "screen_geometry s" "r < 13" "x < 9"
  shows "cell (disp_width s) (char_x s) (char_y s) + r * unat (disp_width s) + x < unat (disp_width s) * unat (disp_height s)"
proof -
  let ?W = "unat (disp_width s)" and ?H = "unat (disp_height s)"
  note c = cell_unat [OF assms(1,2)]
  have "nat (char_x s) * 9 + x < ?W" using c(2) assms(4) by simp
  moreover have "(nat (char_y s) * 13 + r + 1) * ?W \<le> ?H * ?W" using c(3) assms(3) by (intro mult_le_mono1) simp
  ultimately show ?thesis unfolding c(1) by (simp add: algebra_simps)
qed

section \<open>Properties\<close>

definition glyphs_ok :: "u8 list list \<Rightarrow> bool" where
  "glyphs_ok font \<longleftrightarrow> length font = 95 \<and> (\<forall>g \<in> set font. length g = 13)"

lemma glyph_length: "glyphs_ok font \<Longrightarrow> glyph font c = Inr g \<Longrightarrow> length g = 13"
  by (auto simp: glyph_def glyphs_ok_def font_block_def Let_def split: if_splits)

lemma put_char_frame:
  assumes "put_char font c fg bg s = Inr s'"
  shows "disp_width s' = disp_width s \<and> disp_height s' = disp_height s \<and> disp_pitch s' = disp_pitch s \<and>
    char_width s' = char_width s \<and> char_height s' = char_height s"
  using assms
  by (auto simp: put_char_def and_then_eq_Inr new_line_def step_back_def advance_x_def draw_def draw_gap_def Let_def split: if_splits)

text \<open>
  Printing a character keeps the console well-formed: the cursor on the screen, and the size of
  the screen in characters that of the screen in pixels.
\<close>

theorem put_char_well_formed:
  assumes "on_screen s" "screen_geometry s" "put_char font c fg bg s = Inr s'"
  shows "on_screen s' \<and> screen_geometry s'"
  using put_char_screen [OF assms(1,3)] put_char_frame [OF assms(3)] assms(2) by (auto simp: screen_geometry_def)

lemma draw_outside:
  assumes "on_screen s" "screen_geometry s" "length g = 13" "unat (disp_width s) * unat (disp_height s) \<le> q"
  shows "fb (draw g fg bg s) q = fb s q" "fb (draw_gap bg s) q = fb s q"
proof -
  have p: "unat (disp_pitch s) div 4 = unat (disp_width s)" using assms(2) by (simp add: screen_geometry_def)
  have ne: "q \<noteq> cell (disp_width s) (char_x s) (char_y s) + r * unat (disp_width s) + x" if "r < 13" "x < 9" for r x
    using cell_inside [OF assms(1,2) that] assms(4) by simp
  show "fb (draw g fg bg s) q = fb s q"
    using ne assms(3) p unfolding draw_def by (simp add: put_bitmap_other)
  have "fold (\<lambda>i f. f(cell (disp_width s) (char_x s) (char_y s) + unat (disp_width s) * i + 8 := bg)) [0..<n] (fb s) q = fb s q"
    if "n \<le> 13" for n
    using that ne [of _ 8] by (induction n) (auto simp: mult.commute)
  then show "fb (draw_gap bg s) q = fb s q" by (simp add: draw_gap_def)
qed

text \<open>
  Printing writes to no memory behind the frame buffer, whatever the character, as long as a row of
  the screen takes no more bytes than its pixels.
\<close>

theorem put_char_within_screen:
  assumes "glyphs_ok font" "on_screen s" "screen_geometry s" "put_char font c fg bg s = Inr s'"
    "unat (disp_width s) * unat (disp_height s) \<le> q"
  shows "fb s' q = fb s q"
proof -
  have nl: "fb (new_line t) = fb t" "fb (advance_x t) = fb t" "fb (step_back t) = fb t" for t :: "'a console"
    by (simp_all add: new_line_def advance_x_def step_back_def Let_def)
  have sb: "screen_geometry (step_back s)" "disp_width (step_back s) = disp_width s" "disp_height (step_back s) = disp_height s"
    using assms(3) by (simp_all add: screen_geometry_def step_back_def Let_def)
  have dr: "screen_geometry (draw g fg bg s)" "disp_width (draw g fg bg s) = disp_width s" "disp_height (draw g fg bg s) = disp_height s" for g
    using assms(3) by (simp_all add: screen_geometry_def draw_def)
  have "length (font ! 0) = 13" using assms(1) by (simp add: glyphs_ok_def)
  then show ?thesis
    using assms(2-5) draw_outside(1) [OF step_back_on_screen [OF assms(2)] sb(1)] sb
      draw_outside(1) [OF assms(2,3) glyph_length [OF assms(1)]] draw_outside(2) [OF _ dr(1) glyph_length [OF assms(1)]] dr nl
    by (auto simp: put_char_def and_then_eq_Inr split: if_splits)
qed

text \<open>A printable character leaves its glyph, pixel by pixel, in the cell the cursor was at.\<close>

theorem put_char_draws:
  assumes "glyphs_ok font" "on_screen s" "screen_geometry s" "0x20 \<le> c" "c < 0x7F" "r < 13" "x < 8"
  shows "\<exists>s'. put_char font c fg bg s = Inr s' \<and>
    fb s' (nat (char_x s) * 9 + (nat (char_y s) * 13 + r) * unat (disp_width s) + x) =
      (if bit (font ! (unat c - 32) ! r) x then fg else bg)"
proof -
  let ?W = "unat (disp_width s)" and ?a = "cell (disp_width s) (char_x s) (char_y s)"
  have c: "0x20 \<le> unat c" "unat c < 0x7F" using assms(4,5) by (simp_all add: word_le_nat_alt word_less_nat_alt)
  have k: "unat (scast c - 32 :: u32) = unat c - 32"
  proof -
    have "uint c < 2 ^ 7" using c(2) by (simp add: uint_nat del: of_nat_unat)
    then have "signed_take_bit 7 (uint c) = uint c"
      by (intro signed_take_bit_int_eq_self) (simp_all add: order_trans [OF _ uint_ge_0])
    then have "sint c = uint c" by (simp add: sint_uint)
    then have "(scast c :: u32) = word_of_int (uint c)" by (simp only: scast_eq)
    then have e: "(scast c :: u32) = of_nat (unat c)" by simp
    have "unat (scast c :: u32) = unat c" unfolding e using c(2) by (intro unat_of_nat32) simp
    then show ?thesis using c(1) by (subst unat_sub) (simp_all add: word_le_nat_alt)
  qed
  then have "\<not> 95 < (scast c - 32 :: u32)" using c by (simp add: word_less_nat_alt)
  then have g: "glyph font c = Inr (font ! (unat c - 32))" using assms(1) c k by (simp add: glyph_def glyphs_ok_def Let_def)
  have len: "length (font ! (unat c - 32)) = 13" by (rule glyph_length [OF assms(1) g])
  have p: "unat (disp_pitch s) div 4 = ?W" using assms(3) by (simp add: screen_geometry_def)
  note cl = cell_unat [OF assms(2,3)]
  have at: "nat (char_x s) * 9 + (nat (char_y s) * 13 + r) * ?W + x = ?a + r * ?W + x"
    unfolding cl(1) by (simp add: algebra_simps)
  have px: "fb (draw (font ! (unat c - 32)) fg bg s) (?a + r * ?W + x) = (if bit (font ! (unat c - 32) ! r) x then fg else bg)"
    using put_bitmap_pixel [of "unat (disp_pitch s)" 13 "font ! (unat c - 32)" r x ?a] len assms(6,7) cl(2) p
    by (simp add: draw_def)
  have "?a + r * ?W + x \<noteq> ?a + ?W * i + 8" for i
  proof
    assume "?a + r * ?W + x = ?a + ?W * i + 8"
    then have e: "r * ?W + x = i * ?W + 8" by (simp add: mult.commute)
    have "(r * ?W + x) mod ?W = x" "(i * ?W + 8) mod ?W = 8" using assms(7) cl(2) by simp_all
    then show False using e assms(7) by simp
  qed
  then have "fold (\<lambda>i f. f(?a + ?W * i + 8 := bg)) [0..<n] f (?a + r * ?W + x) = f (?a + r * ?W + x)" for n f
    by (induction n) auto
  then have gap: "fb (draw_gap bg t) (?a + r * ?W + x) = fb t (?a + r * ?W + x)" if "t = draw g fg bg s" for g t
    unfolding that by (simp add: draw_gap_def draw_def)
  have "c \<noteq> 0x0A" "c \<noteq> 0x08" using c(1) by auto
  moreover have "fb (advance_x t) = fb t" for t :: "'a console" by (simp add: advance_x_def new_line_def Let_def)
  ultimately show ?thesis unfolding at using gap px by (simp add: put_char_def g)
qed

section \<open>The properties at a small screen\<close>

text \<open>Ten columns and ten rows, the text beginning below the picture, every glyph a bar of two pixels.\<close>

definition small_console :: "unit console" where
  "small_console = \<lparr>disp_offset = 9630, char_width = 10, char_height = 10, char_x = 3, char_y = 9, char_y_start = 9,
     disp_width = 90, disp_height = 130, disp_pitch = 360, fb = (\<lambda>_. 0), con_bus = ()\<rparr>"

definition bar_font :: "u8 list list" where
  "bar_font = replicate 95 (replicate 13 0x18)"

lemma small_console_ok: "on_screen small_console" "screen_geometry small_console" "glyphs_ok bar_font"
  by (simp_all add: on_screen_def screen_geometry_def small_console_def glyphs_ok_def bar_font_def)

lemma put_char_A:
  "put_char bar_font 0x41 7 0 small_console = Inr (advance_x (draw (replicate 13 0x18) 7 0 small_console))"
  by (simp add: put_char_def glyph_def bar_font_def draw_gap_def small_console_def Let_def)

theorem put_char_well_formed_witness:
  "on_screen (advance_x (draw (replicate 13 0x18) 7 0 small_console)) \<and> screen_geometry (advance_x (draw (replicate 13 0x18) 7 0 small_console))"
  by (rule put_char_well_formed [OF small_console_ok(1,2) put_char_A])

theorem put_char_within_screen_witness:
  "fb (advance_x (draw (replicate 13 0x18) 7 0 small_console)) 11700 = fb small_console 11700"
  by (rule put_char_within_screen [OF small_console_ok(3,1,2) put_char_A]) (simp add: small_console_def)

theorem put_char_draws_witness:
  "\<exists>s'. put_char bar_font 0x41 7 0 small_console = Inr s' \<and> fb s' 11010 = 7"
proof -
  have "bar_font ! 33 = replicate 13 0x18" by (simp add: bar_font_def)
  moreover have "bit (0x18 :: u8) 3" by simp
  ultimately show ?thesis
    using put_char_draws [OF small_console_ok(3,1,2), of "0x41" 5 3 7 0] by (simp add: small_console_def)
qed

section \<open>Initialisation\<close>

text \<open>
  A screen that the picture and a line of text fit on is set up with its cursor on it. A narrower or a
  lower one is not: the first line of the text is below the picture whether the screen is so high or not.
\<close>

lemma GRAPHIC_init_well_formed:
  assumes "9 \<le> unat width" "130 \<le> unat height" "unat width * unat height < 2 ^ 30" "unat pitch = 4 * unat width"
  shows "on_screen (GRAPHIC_init logo width height pitch s)" "screen_geometry (GRAPHIC_init logo width height pitch s)"
proof -
  have "unat (width div 9) = unat width div 9" "unat (height div 13) = unat height div 13" by (simp_all add: unat_div)
  moreover have "1 \<le> unat width div 9" "10 \<le> unat height div 13" using assms(1,2) by linarith+
  moreover have "unat width div 9 < 2 ^ 31" "unat height div 13 < 2 ^ 31"
    using unat_lt32 [of width] unat_lt32 [of height] by simp_all
  ultimately show "on_screen (GRAPHIC_init logo width height pitch s)" "screen_geometry (GRAPHIC_init logo width height pitch s)"
    using assms(3,4) by (simp_all add: on_screen_def screen_geometry_def GRAPHIC_init_def)
qed

lemma GRAPHIC_init_low_screen:
  assumes "unat height < 130"
  shows "\<not> on_screen (GRAPHIC_init logo width height pitch s)"
proof -
  have "unat height div 13 < 10" using assms by linarith
  then show ?thesis by (simp add: on_screen_def GRAPHIC_init_def unat_div)
qed

text \<open>A character with no glyph of its own, 127, reads the table of glyphs beyond its end.\<close>

lemma glyph_127: "glyphs_ok font \<Longrightarrow> glyph font 0x7F = Inl OutOfBounds"
  by (simp add: glyph_def glyphs_ok_def)

end
