(* ===== verification/Elf.thy ===== *)
theory Elf
  imports Memory_Server Libc_Props
begin

text \<open>
  Loading a program: the structures of \<^verbatim>\<open>header/lib/elf.h\<close>, the checks of a header in
  \<^verbatim>\<open>modules/memory/execve.c\<close>, and the loading of the first program in \<^verbatim>\<open>modules/memory/memory_init.c\<close>.

  The bytes of memory stand beside the words of the page tables: a loader works on both. The
  record that describes a program is a block of the pool allocator; its contents before they are
  set are an argument.
\<close>

section \<open>Structures\<close>

record Elf32_Ehdr =
  e_ident :: "u8 list"
  e_type :: u16
  e_machine :: u16
  e_version :: u32
  e_entry :: u32
  e_phoff :: u32
  e_shoff :: u32
  e_flags :: u32
  e_ehsize :: u16
  e_phentsize :: u16
  e_phnum :: u16
  e_shentsize :: u16
  e_shnum :: u16
  e_shstrndx :: u16

record Elf32_Phdr =
  p_type :: u32
  p_offset :: u32
  p_vaddr :: u32
  p_paddr :: u32
  p_filesz :: u32
  p_memsz :: u32
  p_flags :: u32
  p_align :: u32

definition half_at :: "bmem \<Rightarrow> u32 \<Rightarrow> u16" where
  "half_at m a = ucast (m a) OR push_bit 8 (ucast (m (a + 1)))"

definition long_at :: "bmem \<Rightarrow> u32 \<Rightarrow> u32" where
  "long_at m a = ucast (half_at m a) OR push_bit 16 (ucast (half_at m (a + 2)))"

definition ehdr_at :: "bmem \<Rightarrow> u32 \<Rightarrow> Elf32_Ehdr" where
  "ehdr_at m a = \<lparr>e_ident = map (\<lambda>i. m (a + of_nat i)) [0..<16], e_type = half_at m (a + 16),
     e_machine = half_at m (a + 18), e_version = long_at m (a + 20), e_entry = long_at m (a + 24),
     e_phoff = long_at m (a + 28), e_shoff = long_at m (a + 32), e_flags = long_at m (a + 36),
     e_ehsize = half_at m (a + 40), e_phentsize = half_at m (a + 42), e_phnum = half_at m (a + 44),
     e_shentsize = half_at m (a + 46), e_shnum = half_at m (a + 48), e_shstrndx = half_at m (a + 50)\<rparr>"

definition phdr_at :: "bmem \<Rightarrow> u32 \<Rightarrow> Elf32_Phdr" where
  "phdr_at m a = \<lparr>p_type = long_at m a, p_offset = long_at m (a + 4), p_vaddr = long_at m (a + 8),
     p_paddr = long_at m (a + 12), p_filesz = long_at m (a + 16), p_memsz = long_at m (a + 20),
     p_flags = long_at m (a + 24), p_align = long_at m (a + 28)\<rparr>"

abbreviation (input) PT_LOAD :: u32 where "PT_LOAD \<equiv> 1"
abbreviation (input) PF_W :: u32 where "PF_W \<equiv> 2"
abbreviation (input) ET_EXEC :: u16 where "ET_EXEC \<equiv> 2"
abbreviation (input) EM_386 :: u16 where "EM_386 \<equiv> 3"
abbreviation (input) EV_CURRENT :: u8 where "EV_CURRENT \<equiv> 1"
abbreviation (input) ELFCLASS32 :: u8 where "ELFCLASS32 \<equiv> 1"
abbreviation (input) ELFDATA2LSB :: u8 where "ELFDATA2LSB \<equiv> 1"

section \<open>Checks\<close>

definition elf_check_file :: "bmem \<Rightarrow> u32 \<Rightarrow> bool" where
  "elf_check_file m hdr =
     (let e = e_ident (ehdr_at m hdr)
      in hdr \<noteq> 0 \<and> e ! 0 = 0x7F \<and> e ! 1 = 0x45 \<and> e ! 2 = 0x4C \<and> e ! 3 = 0x46)"

definition elf_check_supported :: "bmem \<Rightarrow> u32 \<Rightarrow> bool" where
  "elf_check_supported m hdr =
     (let h = ehdr_at m hdr
      in elf_check_file m hdr \<and> e_ident h ! 4 = ELFCLASS32 \<and> e_ident h ! 5 = ELFDATA2LSB \<and>
         e_machine h = EM_386 \<and> e_ident h ! 6 = EV_CURRENT \<and> e_type h = ET_EXEC)"

section \<open>Segments\<close>

text \<open>The description of the program after a segment.\<close>

definition extend_prog :: "Elf32_Phdr \<Rightarrow> prog_info \<Rightarrow> prog_info" where
  "extend_prog ph g =
     (let g = (if p_vaddr ph < image_start g then g\<lparr>image_start := p_vaddr ph\<rparr> else g)
      in if program_break g < p_vaddr ph + p_memsz ph
         then g\<lparr>program_break := p_vaddr ph + p_memsz ph\<rparr> else g)"

text \<open>
  The block's bytes for a segment: the file's from the segment's place in its first page on, zeros
  before them, and zeros behind them to the end of the segment, a length that wraps around when the
  file holds more than the segment.
\<close>

definition fill_segment :: "u32 \<Rightarrow> u32 \<Rightarrow> Elf32_Phdr \<Rightarrow> bmem \<Rightarrow> bmem" where
  "fill_segment pa data ph m =
     (let va_offset = p_vaddr ph - PGROUNDDOWN (p_vaddr ph);
          m = fst (memcpy m (pa + va_offset) (data + p_offset ph) (unat (p_filesz ph)));
          m = (if va_offset \<noteq> 0 then fst (memset m pa 0 (unat va_offset)) else m)
      in if p_filesz ph \<noteq> p_memsz ph
         then fst (memset m (pa + va_offset + p_filesz ph) 0 (unat (p_memsz ph - p_filesz ph)))
         else m)"

definition segment_attr :: "Elf32_Phdr \<Rightarrow> u32" where
  "segment_attr ph = PG_Present OR PG_User OR (if p_flags ph AND PF_W \<noteq> 0 then PG_Writable else 0)"

definition load_segment :: "u32 \<Rightarrow> u32 \<Rightarrow> Elf32_Phdr \<Rightarrow> pgs \<times> bmem \<Rightarrow> (pgs \<times> bmem) res" where
  "load_segment pd data ph = (\<lambda>(s, m).
     let (mi, pa) = page_alloc (pinfo s) (PGROUNDUP (p_memsz ph) div PG_SIZE) (PAGE_TYPE_INUSE OR PAGE_TYPE_USER);
         m = fill_segment pa data ph m
     in and_then (map_pages (s\<lparr>pinfo := mi\<rparr>) pd (PGROUNDDOWN (p_vaddr ph)) pa (p_memsz ph) (segment_attr ph))
          (\<lambda>(s, _). Inr (s, m)))"

lemma less_half: "i < unat (h :: u16) \<Longrightarrow> i < 65536"
proof -
  have "unat h < 65536" using unsigned_less [of h] by simp
  then show "i < unat h \<Longrightarrow> i < 65536" by simp
qed

text \<open>The number of headers and each header are read from the image in every turn.\<close>

function load_segments :: "u32 \<Rightarrow> u32 \<Rightarrow> nat \<Rightarrow> prog_info \<Rightarrow> pgs \<times> bmem \<Rightarrow> (prog_info \<times> pgs \<times> bmem) res" where
  "load_segments pd data i g sm =
     (if i < unat (e_phnum (ehdr_at (snd sm) data))
      then
        let ph = phdr_at (snd sm) (data + e_phoff (ehdr_at (snd sm) data) + of_nat (32 * i))
        in if p_type ph = PT_LOAD
           then and_then (load_segment pd data ph sm) (load_segments pd data (Suc i) (extend_prog ph g))
           else load_segments pd data (Suc i) g sm
      else Inr (g, sm))"
  by auto
termination
  by (relation "measure (\<lambda>(pd, data, i, g, sm). 65536 - i)") (auto dest: less_half)

declare load_segments.simps [simp del]

text \<open>An image that is not valid is only reported, and then loaded all the same.\<close>

definition load_elf_to_proc :: "prog_info \<Rightarrow> u32 \<Rightarrow> process \<Rightarrow> pgs \<times> bmem \<Rightarrow> (process \<times> pgs \<times> bmem) res" where
  "load_elf_to_proc g0 data proc sm =
     and_then (load_segments (page_dir proc) data 0
        (g0\<lparr>image_start := 0xFFFFFFFF, program_break := 0, program_size := 0\<rparr>) sm) (\<lambda>(g, s, m).
     Inr (proc\<lparr>proc_prog := Some (g\<lparr>program_size := program_break g - image_start g\<rparr>),
               stack := (stack proc)\<lparr>sf_eip := e_entry (ehdr_at m data)\<rparr>\<rparr>, s, m))"

section \<open>The first program\<close>

abbreviation (input) SEL_CODE_DPL3 :: u16 where "SEL_CODE_DPL3 \<equiv> 0x33"
abbreviation (input) SEL_DATA_DPL3 :: u16 where "SEL_DATA_DPL3 \<equiv> 0x3B"
abbreviation (input) PROC_STACK_SIZE :: u32 where "PROC_STACK_SIZE \<equiv> 8192"

definition user_stack :: "stack_frame \<Rightarrow> stack_frame" where
  "user_stack st = st\<lparr>sf_cs := SEL_CODE_DPL3, sf_ds := SEL_DATA_DPL3, sf_es := SEL_DATA_DPL3, sf_fs := SEL_DATA_DPL3,
     sf_gs := SEL_DATA_DPL3, sf_ss := SEL_DATA_DPL3, sf_esp := KERN_BASE, sf_eflags := 0x1202\<rparr>"

definition init_name :: "u8 list" where
  "init_name = [0x69, 0x6E, 0x69, 0x74, 0]"

text \<open>The process of slot 1, before it is put on the list, and the memory it lives in.\<close>

definition make_init :: "prog_info \<Rightarrow> u32 \<Rightarrow> process \<Rightarrow> pgs \<times> bmem \<Rightarrow> (process \<times> pgs \<times> bmem) res" where
  "make_init g0 init_elf proc = (\<lambda>(s, m).
     let (mi, stk) = page_alloc (pinfo s) (PROC_STACK_SIZE div PG_SIZE) (PAGE_TYPE_INUSE OR PAGE_TYPE_USER)
     in and_then (create_page_dir (s\<lparr>pinfo := mi\<rparr>) PG_Writable) (\<lambda>(s, pd).
        let p = proc\<lparr>status := PROC_STATUS_STOP, stack := user_stack (stack proc),
                     pstack := KERN_BASE - PROC_STACK_SIZE, pstack_size := PROC_STACK_SIZE, page_dir := pd,
                     proc_name := init_name @ drop 5 (proc_name proc)\<rparr>
        in and_then (map_pages s pd (pstack p) stk (pstack_size p) (PG_Present OR PG_Writable OR PG_User)) (\<lambda>(s, _).
           and_then (load_elf_to_proc g0 init_elf p (s, m)) (\<lambda>(p, s, m).
           Inr (p\<lparr>pid := 1, parent_pid := 0\<rparr>, s, m)))))"

text \<open>
  The process goes to the end of the list. An empty list would be walked from a null pointer; a list
  that has a cycle is walked for ever.
\<close>

definition start_up_init :: "prog_info \<Rightarrow> u32 \<Rightarrow> mm \<times> bmem \<Rightarrow> (mm \<times> bmem) res" where
  "start_up_init g0 init_elf = (\<lambda>(s, m).
     if proc_max (kern s) \<le> 1 then Inl OutOfBounds
     else and_then (make_init g0 init_elf (proc_table (kern s) 1) (pgs_of s, m)) (\<lambda>(p, g, m).
       let s = upd_kern (upd_proc 1 (\<lambda>_. p)) (put_pgs g s)
       in case proc_list (kern s) of
            None \<Rightarrow> Inl NullDeref
          | Some p \<Rightarrow>
              (case last_proc (nexts (kern s)) p of
                 None \<Rightarrow> Inl Hang
               | Some f \<Rightarrow>
                   Inr (upd_kern (\<lambda>k. upd_status 1 (\<lambda>_. PROC_STATUS_RUNNING OR PROC_STATUS_NORMAL)
                     ((upd_proc f (\<lambda>q. q\<lparr>next_proc := Some 1\<rparr>) (upd_proc 1 (\<lambda>q. q\<lparr>next_proc := None\<rparr>) k))
                        \<lparr>proc_count := proc_count k + 1\<rparr>)) s, m))))"

end
