(* ===== verification/Elf_Props.thy ===== *)
theory Elf_Props
  imports Elf Address_Space_Props
begin

text \<open>A segment that fits into the pages it is given is loaded as the file describes it.\<close>

section \<open>The bytes of a segment\<close>

lemma fill_segment_apply:
  fixes ph m data
  defines "off \<equiv> p_vaddr ph - PGROUNDDOWN (p_vaddr ph)" and "src \<equiv> data + p_offset ph"
  assumes "unat pa + unat off + unat (p_memsz ph) < 2 ^ 32" "unat src + unat (p_filesz ph) < 2 ^ 32"
    "p_filesz ph \<le> p_memsz ph"
  shows "fill_segment pa data ph m a =
    (if in_area (pa + off + p_filesz ph) (unat (p_memsz ph - p_filesz ph)) a then 0
     else if in_area pa (unat off) a then 0
     else if in_area (pa + off) (unat (p_filesz ph)) a then m (src + (a - (pa + off))) else m a)"
proof -
  have le: "unat (p_filesz ph) \<le> unat (p_memsz ph)" using assms(5) by (simp add: word_le_nat_alt)
  have o1: "unat (pa + off) = unat pa + unat off" using assms(3) by (intro unat_add_lem [THEN iffD1]) simp
  have o2: "unat (pa + off + p_filesz ph) = unat pa + unat off + unat (p_filesz ph)"
    using assms(3) le o1 by (subst unat_add_lem [THEN iffD1]) simp_all
  have o3: "unat (p_memsz ph - p_filesz ph) = unat (p_memsz ph) - unat (p_filesz ph)"
    using assms(5) by (rule unat_sub)
  have c: "memcpy x (pa + off) src (unat (p_filesz ph)) =
      ((\<lambda>a. if in_area (pa + off) (unat (p_filesz ph)) a then x (src + (a - (pa + off))) else x a), pa + off)" for x
    using assms(3,4) le o1 by (intro memcpy_moves) simp_all
  have z1: "memset x pa 0 (unat off) = ((\<lambda>a. if in_area pa (unat off) a then 0 else x a), pa)" for x
    using assms(3) by (intro memset_zeros) simp
  have z2: "memset x (pa + off + p_filesz ph) 0 (unat (p_memsz ph - p_filesz ph)) =
      ((\<lambda>a. if in_area (pa + off + p_filesz ph) (unat (p_memsz ph - p_filesz ph)) a then 0 else x a), pa + off + p_filesz ph)" for x
    using assms(3) le o2 o3 by (intro memset_zeros) simp
  have e: "\<not> in_area b 0 a" for b by (simp add: in_area_def)
  show ?thesis unfolding fill_segment_def Let_def off_def [symmetric] src_def [symmetric] c z1 z2 by (simp add: e)
qed

lemma fill_segment_bytes:
  fixes ph m data
  defines "off \<equiv> p_vaddr ph - PGROUNDDOWN (p_vaddr ph)" and "src \<equiv> data + p_offset ph"
  assumes "unat pa + unat off + unat (p_memsz ph) < 2 ^ 32" "unat src + unat (p_filesz ph) < 2 ^ 32"
    "p_filesz ph \<le> p_memsz ph" "i < unat (p_memsz ph)"
  shows "fill_segment pa data ph m (pa + off + of_nat i) = (if i < unat (p_filesz ph) then m (src + of_nat i) else 0)"
proof -
  have le: "unat (p_filesz ph) \<le> unat (p_memsz ph)" using assms(5) by (simp add: word_le_nat_alt)
  have o1: "unat (pa + off) = unat pa + unat off" using assms(3) by (intro unat_add_lem [THEN iffD1]) simp
  have o2: "unat (pa + off + p_filesz ph) = unat pa + unat off + unat (p_filesz ph)"
    using assms(3) le o1 by (subst unat_add_lem [THEN iffD1]) simp_all
  have o3: "unat (p_memsz ph - p_filesz ph) = unat (p_memsz ph) - unat (p_filesz ph)"
    using assms(5) by (rule unat_sub)
  have a: "unat (pa + off + of_nat i) = unat pa + unat off + i"
    using assms(3,6) o1 by (subst unat_le_iff_add) simp_all
  have d: "pa + off + of_nat i - (pa + off) = of_nat i" by simp
  note f = fill_segment_apply [of pa ph data m "pa + off + of_nat i", folded off_def src_def, OF assms(3-5)]
  show ?thesis unfolding f d using assms(6) by (auto simp: in_area_def a o1 o2 o3)
qed

lemma fill_segment_outside:
  fixes ph m data
  defines "off \<equiv> p_vaddr ph - PGROUNDDOWN (p_vaddr ph)" and "src \<equiv> data + p_offset ph"
  assumes "unat pa + unat off + unat (p_memsz ph) < 2 ^ 32" "unat src + unat (p_filesz ph) < 2 ^ 32"
    "p_filesz ph \<le> p_memsz ph" "\<not> in_area pa (unat off + unat (p_memsz ph)) a"
  shows "fill_segment pa data ph m a = m a"
proof -
  have le: "unat (p_filesz ph) \<le> unat (p_memsz ph)" using assms(5) by (simp add: word_le_nat_alt)
  have o1: "unat (pa + off) = unat pa + unat off" using assms(3) by (intro unat_add_lem [THEN iffD1]) simp
  have o2: "unat (pa + off + p_filesz ph) = unat pa + unat off + unat (p_filesz ph)"
    using assms(3) le o1 by (subst unat_add_lem [THEN iffD1]) simp_all
  have o3: "unat (p_memsz ph - p_filesz ph) = unat (p_memsz ph) - unat (p_filesz ph)"
    using assms(5) by (rule unat_sub)
  note f = fill_segment_apply [of pa ph data m a, folded off_def src_def, OF assms(3-5)]
  show ?thesis unfolding f using assms(6) le by (auto simp: in_area_def o1 o2 o3)
qed

section \<open>The pages of a segment\<close>

lemma pages_of_size:
  assumes "unat sz + 4095 < 2 ^ 32"
  shows "unat (PGROUNDUP sz div PG_SIZE) = (unat sz + 4095) div 4096"
proof -
  have "sz + PG_SIZE - 1 = sz + of_nat 4095" by simp
  then have "unat (sz + PG_SIZE - 1) = unat sz + 4095" using unat_le_iff_add [OF assms] by (simp only:)
  then have "unat (PGROUNDUP sz) = 4096 * ((unat sz + 4095) div 4096)"
    unfolding PGROUNDUP_def pg_def [symmetric] unat_pg by (simp add: minus_mod_eq_mult_div)
  then show ?thesis by (simp add: unat_div)
qed

lemma map_pages_round:
  assumes "pg va = va" "0 < unat sz" "unat va + 4096 * ((unat sz + 4095) div 4096) < 2 ^ 32"
  shows "map_pages s pd va pa sz attr = map_pages s pd va pa (of_nat (4096 * ((unat sz + 4095) div 4096))) attr"
proof -
  obtain k where k: "unat va = 4096 * k" using assms(1) by (auto simp: pg_iff)
  obtain c where c: "(unat sz + 4095) div 4096 = Suc c" using assms(2) by (cases "(unat sz + 4095) div 4096") auto
  have c': "unat sz - 1 = 4096 * c + (unat sz - 1) mod 4096"
  proof -
    have "(unat sz - 1) div 4096 = c" using c assms(2) by (simp add: div_add_self2 [of 4096 "unat sz - 1", symmetric])
    then show ?thesis using mult_div_mod_eq [of 4096 "unat sz - 1"] by simp
  qed
  have low: "unat (PGROUNDDOWN (va + w - 1)) = 4096 * (k + c)"
    if w: "unat w = Suc (4096 * c + r)" "r < 4096" for w :: u32 and r
  proof -
    have "unat (va + w) = 4096 * k + Suc (4096 * c + r)"
      using assms(3) k c w by (subst unat_add_lem [THEN iffD1]) simp_all
    then have "unat (va + w - 1) = 4096 * (k + c) + r" by (subst unat_sub) (simp_all add: word_le_nat_alt)
    moreover have "(4096 * (k + c) + r) div 4096 = k + c" using w(2) by simp
    ultimately show ?thesis unfolding pg_def [symmetric] unat_pg by (simp only: minus_mod_eq_mult_div)
  qed
  have "unat (of_nat (4096 * Suc c) :: u32) = Suc (4096 * c + 4095)"
    using assms(3) c by (subst unat_of_nat32) simp_all
  then have "unat (PGROUNDDOWN (va + of_nat (4096 * Suc c) - 1)) = 4096 * (k + c)" by (rule low) simp
  moreover have "unat (PGROUNDDOWN (va + sz - 1)) = 4096 * (k + c)"
    using c' assms(2) by (intro low [of sz "(unat sz - 1) mod 4096"]) simp_all
  ultimately have e: "PGROUNDDOWN (va + sz - 1) = PGROUNDDOWN (va + of_nat (4096 * Suc c) - 1)"
    by (simp only: word_unat_eq_iff)
  have va: "PGROUNDDOWN va = va" using assms(1) by (simp only: pg_def)
  show ?thesis unfolding map_pages_def c Let_def va e ..
qed

text \<open>What taking a block of pages from the allocator does.\<close>

lemma alloc_block:
  assumes "ready n s" "has_run (pinfo s) (order_of_pages k)"
  obtains mi pa where "page_alloc (pinfo s) k attr = (mi, pa)" "ready n (s\<lparr>pinfo := mi\<rparr>)"
    "avail_pages (s\<lparr>pinfo := mi\<rparr>) \<subseteq> avail_pages s" "pg pa = pa"
    "unat pa + 4096 * 2 ^ order_of_pages k < 2 ^ 32"
    "\<And>j. j < 2 ^ order_of_pages k \<Longrightarrow> pa + of_nat j * PG_SIZE \<in> avail_pages s"
proof -
  let ?o = "order_of_pages k" and ?m = "pinfo s"
  have inv: "buddy_inv n ?m" using assms(1) by (simp add: ready_def)
  obtain i mi where al: "page_alloc ?m k attr = (mi, addr ?m i)" and t: "takes n ?m ?o attr i mi"
    using page_alloc_cases [OF inv, of k attr] assms(2) by auto
  have t: "i + 2 ^ ?o \<le> n" "blk ?o i \<subseteq> free_pages ?m" "buddy_inv n mi" "free_pages mi = free_pages ?m - blk ?o i"
    "same_frame ?m mi" using t by (simp_all add: takes_def well_placed_def)
  have e: "addr mi = addr ?m" by (rule same_frame_addr [OF t(5)])
  have "ready n (s\<lparr>pinfo := mi\<rparr>)" using assms(1) t(3,5) by (simp add: ready_def same_frame_def)
  moreover have "avail_pages (s\<lparr>pinfo := mi\<rparr>) \<subseteq> avail_pages s"
    using t(4) by (auto simp: avail_pages_def free_page_addrs_def e)
  moreover have "pg (addr ?m i) = addr ?m i" using t(1) by (intro pg_addr [OF assms(1)]) simp
  moreover have "unat (addr ?m i) + 4096 * 2 ^ ?o < 2 ^ 32"
    using unat_addr [OF inv_geometry [OF inv], of i] unat_addr [OF inv_geometry [OF inv] t(1)] t(1)
      unat_lt32 [of "addr ?m (i + 2 ^ ?o)"] by simp
  moreover have "addr ?m i + of_nat j * PG_SIZE \<in> avail_pages s" if "j < 2 ^ ?o" for j
  proof -
    have "i + j \<in> free_pages ?m" using t(2) that by (auto simp: blk_def)
    moreover have "addr ?m i + of_nat j * PG_SIZE = addr ?m (i + j)" by (simp add: addr_def algebra_simps)
    ultimately show ?thesis by (simp add: avail_pages_def free_page_addrs_def)
  qed
  ultimately show thesis using that al by blast
qed

section \<open>Loading a segment\<close>

text \<open>
  What an address of the segment has to lead to: the byte of the file, or zero behind the file's
  part, in a page with the attributes of the segment.
\<close>

definition loaded_at :: "ptmem \<Rightarrow> u32 \<Rightarrow> u32 \<Rightarrow> Elf32_Phdr \<Rightarrow> bmem \<Rightarrow> bmem \<Rightarrow> nat \<Rightarrow> bool" where
  "loaded_at w pd data ph m m' i \<longleftrightarrow>
     (\<exists>pa. translate w pd (p_vaddr ph + of_nat i) = Some (pa, segment_attr ph) \<and>
        m' pa = (if i < unat (p_filesz ph) then m (data + p_offset ph + of_nat i) else 0))"

text \<open>The pages the size of the segment takes when it begins at a page, and where it begins in its first page.\<close>

definition seg_pages :: "Elf32_Phdr \<Rightarrow> nat" where
  "seg_pages ph = (unat (p_memsz ph) + 4095) div 4096"

definition seg_offset :: "Elf32_Phdr \<Rightarrow> nat" where
  "seg_offset ph = unat (p_vaddr ph) mod 4096"

text \<open>The range of the segment's pages is free to be mapped, and memory is left for it.\<close>

definition room_for :: "pgs \<Rightarrow> u32 \<Rightarrow> Elf32_Phdr \<Rightarrow> bool" where
  "room_for s pd ph \<longleftrightarrow> 0 < unat (p_memsz ph) \<and> unat (pg (p_vaddr ph)) + 4096 * seg_pages ph < 2 ^ 32 \<and>
     has_run (pinfo s) (order_of_pages (PGROUNDUP (p_memsz ph) div PG_SIZE)) \<and>
     (\<forall>x. in_range (pg (p_vaddr ph)) (seg_pages ph) x \<longrightarrow> \<not> large (pmem s) pd x \<and> translate (pmem s) pd x = None)"

lemma segment_attr_low: "pg (segment_attr ph) = 0" "(PG_Present OR segment_attr ph) AND 0xFFF = segment_attr ph"
  by (simp_all add: segment_attr_def pg_def)

lemma seg_pages_bounds:
  assumes "room_for s pd ph"
  shows "0 < seg_pages ph" "unat (p_memsz ph) \<le> 4096 * seg_pages ph"
    "unat (PGROUNDUP (p_memsz ph) div PG_SIZE) = seg_pages ph" "seg_pages ph < 2 ^ 20"
proof -
  have u: "0 < unat (p_memsz ph)" "4096 * seg_pages ph < 2 ^ 32" using assms by (simp_all add: room_for_def)
  show "seg_pages ph < 2 ^ 20" using u(2) by simp
  show "0 < seg_pages ph" using u(1) unfolding seg_pages_def by linarith
  show le: "unat (p_memsz ph) \<le> 4096 * seg_pages ph" unfolding seg_pages_def by linarith
  have "unat (p_memsz ph) + 4095 < 4096 * (seg_pages ph + 1)" 
    using dividend_less_div_times [of 4096 "unat (p_memsz ph) + 4095"] by (simp add: seg_pages_def mult.commute)
  moreover have "seg_pages ph + 1 \<le> 1048576" using u(2) by simp
  ultimately have "unat (p_memsz ph) + 4095 < 2 ^ 32" by simp
  then show "unat (PGROUNDUP (p_memsz ph) div PG_SIZE) = seg_pages ph" unfolding seg_pages_def by (rule pages_of_size)
qed

text \<open>The mapping a segment gets: of its pages as if it began at one.\<close>

lemma load_segment_maps:
  assumes "ready n s" "aspace s pd" "room_for s pd ph"
  obtains s' pa and r :: int where "load_segment pd data ph (s, m) = Inr (s', fill_segment pa data ph m)"
    "ready n s'" "aspace s' pd" "pg pa = pa" "unat pa + 4096 * seg_pages ph < 2 ^ 32"
    "\<forall>j < seg_pages ph. pa + of_nat j * PG_SIZE \<in> avail_pages s" "r = 0 \<or> r = -1 \<and> avail_pages s' = {}"
    "\<forall>x. \<not> in_range (pg (p_vaddr ph)) (seg_pages ph) x \<longrightarrow> translate (pmem s') pd x = translate (pmem s) pd x"
    "r = 0 \<longrightarrow> (\<forall>x. in_range (pg (p_vaddr ph)) (seg_pages ph) x \<longrightarrow>
       translate (pmem s') pd x = Some (pa + (x - pg (p_vaddr ph)), segment_attr ph))"
proof -
  let ?k = "PGROUNDUP (p_memsz ph) div PG_SIZE" and ?va = "pg (p_vaddr ph)" and ?c = "seg_pages ph"
  note b = seg_pages_bounds [OF assms(3)]
  have room: "0 < unat (p_memsz ph)" "unat ?va + 4096 * ?c < 2 ^ 32" "has_run (pinfo s) (order_of_pages ?k)"
    "\<And>x. in_range ?va ?c x \<Longrightarrow> \<not> large (pmem s) pd x \<and> translate (pmem s) pd x = None"
    using assms(3) by (auto simp: room_for_def)
  obtain mi pa where al: "page_alloc (pinfo s) ?k (PAGE_TYPE_INUSE OR PAGE_TYPE_USER) = (mi, pa)"
    "ready n (s\<lparr>pinfo := mi\<rparr>)" "avail_pages (s\<lparr>pinfo := mi\<rparr>) \<subseteq> avail_pages s" "pg pa = pa"
    "unat pa + 4096 * 2 ^ order_of_pages ?k < 2 ^ 32"
    "\<And>j. j < 2 ^ order_of_pages ?k \<Longrightarrow> pa + of_nat j * PG_SIZE \<in> avail_pages s"
    using alloc_block [OF assms(1) room(3)] by metis
  let ?s = "s\<lparr>pinfo := mi\<rparr>"
  have up: "?c \<le> 2 ^ order_of_pages ?k" using order_of_pages_least(1) [of ?k] b by simp
  have as: "aspace ?s pd" by (rule aspace_less [OF assms(2) _ al(3)]) simp
  have sz: "unat (of_nat (4096 * ?c) :: u32) = 4096 * ?c" using room(2) by (intro unat_of_nat32) simp
  have nl: "\<forall>x. in_range ?va ?c x \<longrightarrow> \<not> large (pmem ?s) pd x" using room(4) by simp
  obtain s' r where mp: "map_pages ?s pd ?va pa (of_nat (4096 * ?c)) (segment_attr ph) = Inr (s', r)" "ready n s'" "aspace s' pd"
    "r = 0 \<or> r = -1 \<and> avail_pages s' = {}"
    "\<forall>x. \<not> in_range ?va ?c x \<longrightarrow> translate (pmem s') pd x = translate (pmem ?s) pd x"
    "r = 0 \<longrightarrow> (\<forall>x. in_range ?va ?c x \<longrightarrow> translate (pmem s') pd x = (case translate (pmem ?s) pd x of
        None \<Rightarrow> Some (pa + (x - ?va), (PG_Present OR segment_attr ph) AND 0xFFF) | Some y \<Rightarrow> Some y))"
    using map_pages_correct [OF al(2) as pg_pg al(4) b(1) room(2) sz segment_attr_low(1) nl] by blast
  have "map_pages ?s pd ?va pa (p_memsz ph) (segment_attr ph) = Inr (s', r)"
    using map_pages_round [of ?va "p_memsz ph" ?s pd pa "segment_attr ph"] room(1,2) mp(1) by (simp add: seg_pages_def)
  then have ld: "load_segment pd data ph (s, m) = Inr (s', fill_segment pa data ph m)"
    unfolding load_segment_def Let_def split al(1) pg_def [symmetric] by simp
  have "unat pa + 4096 * ?c < 2 ^ 32" using al(5) up by simp
  moreover have "\<forall>j < ?c. pa + of_nat j * PG_SIZE \<in> avail_pages s" using al(6) up by simp
  moreover have "\<forall>x. \<not> in_range ?va ?c x \<longrightarrow> translate (pmem s') pd x = translate (pmem s) pd x" using mp(5) by simp
  moreover have "r = 0 \<longrightarrow> (\<forall>x. in_range ?va ?c x \<longrightarrow> translate (pmem s') pd x = Some (pa + (x - ?va), segment_attr ph))"
    using mp(6) room(4) by (simp add: segment_attr_low(2))
  ultimately show thesis using that [of s' pa r] ld mp(2-4) al(4) by blast
qed

lemma seg_offset_unat:
  "unat (p_vaddr ph - PGROUNDDOWN (p_vaddr ph)) = seg_offset ph" "unat (p_vaddr ph) = unat (pg (p_vaddr ph)) + seg_offset ph"
proof -
  have l: "unat (p_vaddr ph) mod 4096 \<le> unat (p_vaddr ph)" by (rule mod_less_eq_dividend)
  then show "unat (p_vaddr ph) = unat (pg (p_vaddr ph)) + seg_offset ph" by (simp add: unat_pg seg_offset_def)
  then have "pg (p_vaddr ph) \<le> p_vaddr ph" by (simp add: word_le_nat_alt)
  then show "unat (p_vaddr ph - PGROUNDDOWN (p_vaddr ph)) = seg_offset ph"
    unfolding pg_def [symmetric] using l by (simp add: unat_sub unat_pg seg_offset_def)
qed

lemma seg_address:
  assumes "unat (p_vaddr ph) + unat (p_memsz ph) < 2 ^ 32" "i < unat (p_memsz ph)"
  shows "unat (p_vaddr ph + of_nat i) = unat (pg (p_vaddr ph)) + seg_offset ph + i"
    "in_range (pg (p_vaddr ph)) c (p_vaddr ph + of_nat i) \<longleftrightarrow> seg_offset ph + i < 4096 * c"
proof -
  have "unat (p_vaddr ph + of_nat i) = unat (p_vaddr ph) + i" using assms by (intro unat_le_iff_add) simp
  then show u: "unat (p_vaddr ph + of_nat i) = unat (pg (p_vaddr ph)) + seg_offset ph + i" using seg_offset_unat(2) by simp
  show "in_range (pg (p_vaddr ph)) c (p_vaddr ph + of_nat i) \<longleftrightarrow> seg_offset ph + i < 4096 * c"
    by (simp add: in_range_def word_le_nat_alt u)
qed

text \<open>
  C10. A segment whose bytes fit into the pages of its size is loaded as its header says: every address
  of it leads to the byte of the file, or to zero behind the file's part, in a page with the
  segment's rights; other addresses are translated as before, and no byte outside of free pages is
  written. Only when the tables took the last free page is the mapping cut short, unnoticed.
\<close>

theorem load_segment_correct:
  assumes "ready n s" "aspace s pd" "room_for s pd ph" "p_filesz ph \<le> p_memsz ph"
    "unat (data + p_offset ph) + unat (p_filesz ph) < 2 ^ 32" "seg_offset ph + unat (p_memsz ph) \<le> 4096 * seg_pages ph"
  shows "\<exists>s' m'. load_segment pd data ph (s, m) = Inr (s', m') \<and> ready n s' \<and> aspace s' pd \<and>
    (\<forall>q. pg q \<notin> avail_pages s \<longrightarrow> m' q = m q) \<and>
    (\<forall>x. \<not> in_range (pg (p_vaddr ph)) (seg_pages ph) x \<longrightarrow> translate (pmem s') pd x = translate (pmem s) pd x) \<and>
    (avail_pages s' = {} \<or> (\<forall>i < unat (p_memsz ph). loaded_at (pmem s') pd data ph m m' i))"
proof -
  let ?va = "pg (p_vaddr ph)" and ?c = "seg_pages ph" and ?o = "p_vaddr ph - PGROUNDDOWN (p_vaddr ph)"
  obtain s' pa and r :: int where l: "load_segment pd data ph (s, m) = Inr (s', fill_segment pa data ph m)"
    "ready n s'" "aspace s' pd" "pg pa = pa" "unat pa + 4096 * ?c < 2 ^ 32"
    "\<forall>j < ?c. pa + of_nat j * PG_SIZE \<in> avail_pages s" "r = 0 \<or> r = -1 \<and> avail_pages s' = {}"
    "\<forall>x. \<not> in_range ?va ?c x \<longrightarrow> translate (pmem s') pd x = translate (pmem s) pd x"
    "r = 0 \<longrightarrow> (\<forall>x. in_range ?va ?c x \<longrightarrow> translate (pmem s') pd x = Some (pa + (x - ?va), segment_attr ph))"
    by (rule load_segment_maps [OF assms(1-3), of data m]) (rule that)
  have fit: "unat pa + unat ?o + unat (p_memsz ph) < 2 ^ 32" using l(5) assms(6) unfolding seg_offset_unat(1) by linarith
  have top: "unat (p_vaddr ph) + unat (p_memsz ph) < 2 ^ 32"
    using assms(3,6) unfolding room_for_def seg_offset_unat(2) by linarith
  have kept: "fill_segment pa data ph m q = m q" if "pg q \<notin> avail_pages s" for q
  proof (rule fill_segment_outside [OF fit assms(5,4)])
    show "\<not> in_area pa (unat ?o + unat (p_memsz ph)) q"
    proof
      assume "in_area pa (unat ?o + unat (p_memsz ph)) q"
      then have "in_range pa ?c q" using assms(6) unfolding seg_offset_unat(1) by (simp add: in_area_def in_range_def word_le_nat_alt)
      then show False using range_index(1) [OF l(4,5), of q] l(6) that by auto
    qed
  qed
  have "loaded_at (pmem s') pd data ph m (fill_segment pa data ph m) i" if r: "r = 0" and i: "i < unat (p_memsz ph)" for i
  proof -
    have "in_range ?va ?c (p_vaddr ph + of_nat i)" using seg_address(2) [OF top i] assms(6) i by simp
    then have "translate (pmem s') pd (p_vaddr ph + of_nat i) = Some (pa + (p_vaddr ph + of_nat i - ?va), segment_attr ph)"
      using l(9) r by blast
    moreover have "pa + (p_vaddr ph + of_nat i - ?va) = pa + ?o + of_nat i" by (simp add: pg_def algebra_simps)
    ultimately show ?thesis using fill_segment_bytes [OF fit assms(5,4) i] by (simp add: loaded_at_def)
  qed
  then have "avail_pages s' = {} \<or> (\<forall>i < unat (p_memsz ph). loaded_at (pmem s') pd data ph m (fill_segment pa data ph m) i)"
    using l(7) by blast
  then show ?thesis using l(1-3,8) kept by (intro exI [of _ s'] exI [of _ "fill_segment pa data ph m"]) simp
qed

text \<open>
  C39. A segment that begins inside a page and, with its size rounded up to pages, reaches beyond them
  loses its end: the pages are counted from the start of the page, and the bytes behind them are not
  mapped.
\<close>

theorem load_segment_loses_end:
  assumes "ready n s" "aspace s pd" "room_for s pd ph" "unat (p_vaddr ph) + unat (p_memsz ph) < 2 ^ 32"
    "i < unat (p_memsz ph)" "4096 * seg_pages ph \<le> seg_offset ph + i"
  shows "\<exists>s' m'. load_segment pd data ph (s, m) = Inr (s', m') \<and>
    translate (pmem s') pd (p_vaddr ph + of_nat i) = translate (pmem s) pd (p_vaddr ph + of_nat i)"
proof -
  have out: "\<not> in_range (pg (p_vaddr ph)) (seg_pages ph) (p_vaddr ph + of_nat i)"
    using seg_address(2) [OF assms(4,5)] assms(6) by simp
  show ?thesis
  proof (rule load_segment_maps [OF assms(1-3), of data m])
    fix s' pa assume "load_segment pd data ph (s, m) = Inr (s', fill_segment pa data ph m)"
      "\<forall>x. \<not> in_range (pg (p_vaddr ph)) (seg_pages ph) x \<longrightarrow> translate (pmem s') pd x = translate (pmem s) pd x"
    then show ?thesis using out by blast
  qed
qed

section \<open>The properties at a small segment\<close>

definition demo_segment :: "u32 \<Rightarrow> Elf32_Phdr" where
  "demo_segment memsz = \<lparr>p_type = 1, p_offset = 0x1000, p_vaddr = 0x400010, p_paddr = 0, p_filesz = 0x20,
     p_memsz = memsz, p_flags = 6, p_align = 0x1000\<rparr>"

lemma translate_None: "tab mem pd va = None \<Longrightarrow> \<not> large mem pd va \<Longrightarrow> translate mem pd va = None"
  by (auto simp: translate_def tab_def large_def Let_def split: if_splits)

lemma demo_unmapped: "dir_index x \<noteq> dir_index 0x1000 \<Longrightarrow> translate (pmem shared_page) demo_dir x = None"
  using demo_not_large by (intro translate_None) (simp_all add: shared_page_tab)

lemma demo_segment_room:
  assumes "0 < unat memsz" "(unat memsz + 4095) div 4096 = 1"
  shows "room_for shared_page demo_dir (demo_segment memsz)"
proof -
  have "unat memsz + 4095 < 2 ^ 32"
    using dividend_less_div_times [of 4096 "unat memsz + 4095"] assms(2) by simp
  then have "unat (PGROUNDUP memsz div PG_SIZE) = unat (1 :: u32)" using pages_of_size assms(2) by simp
  then have k: "PGROUNDUP memsz div PG_SIZE = 1" by (simp only: word_unat_eq_iff)
  have "has_run (pinfo shared_page) 0"
  proof -
    have "free_pages (pinfo shared_page) = free_pages boot_mem" by (simp add: shared_page_def pages_info_upd)
    then show ?thesis using boot_has_run by (simp add: has_run_def)
  qed
  moreover have "\<not> large (pmem shared_page) demo_dir x \<and> translate (pmem shared_page) demo_dir x = None"
    if "in_range 0x400000 1 x" for x
  proof -
    have "pg x = pg 0x400000" using that page_range [of "0x400000" x] by (simp add: pg_def)
    then have "dir_index x = dir_index 0x400000" by (simp add: pg_index)
    then show ?thesis using demo_not_large demo_unmapped [of x] by (simp add: dir_index_def)
  qed
  ultimately show ?thesis
    using assms by (simp add: room_for_def demo_segment_def seg_pages_def k order_of_pages_one pg_def)
qed

theorem load_segment_correct_witness:
  "\<exists>s' m'. load_segment demo_dir 0x100000 (demo_segment 0x40) (shared_page, \<lambda>a. ucast a) = Inr (s', m') \<and> aspace s' demo_dir \<and>
     (avail_pages s' = {} \<or> loaded_at (pmem s') demo_dir 0x100000 (demo_segment 0x40) (\<lambda>a. ucast a) m' 0x1F)"
proof -
  have "room_for shared_page demo_dir (demo_segment 0x40)" by (rule demo_segment_room) simp_all
  from load_segment_correct [OF shared_page_ready shared_page_aspace this, of "0x100000" "\<lambda>a. ucast a"]
  obtain s' m' where *: "load_segment demo_dir 0x100000 (demo_segment 0x40) (shared_page, \<lambda>a. ucast a) = Inr (s', m')" "aspace s' demo_dir"
    "avail_pages s' = {} \<or> (\<forall>i < unat (p_memsz (demo_segment 0x40)).
       loaded_at (pmem s') demo_dir 0x100000 (demo_segment 0x40) (\<lambda>a. ucast a) m' i)"
    by (auto simp: demo_segment_def seg_offset_def seg_pages_def)
  have "0x1F < unat (p_memsz (demo_segment 0x40))" by (simp add: demo_segment_def)
  then show ?thesis using * by blast
qed

theorem load_segment_loses_end_witness:
  "\<exists>s' m'. load_segment demo_dir 0x100000 (demo_segment 0xFF8) (shared_page, \<lambda>a. ucast a) = Inr (s', m') \<and>
     translate (pmem s') demo_dir 0x401000 = None"
proof -
  have "room_for shared_page demo_dir (demo_segment 0xFF8)" by (rule demo_segment_room) simp_all
  moreover have "translate (pmem shared_page) demo_dir 0x401000 = None"
    by (rule demo_unmapped) (simp add: dir_index_def)
  ultimately show ?thesis
    using load_segment_loses_end [OF shared_page_ready shared_page_aspace, of "demo_segment 0xFF8" "0xFF0" "0x100000" "\<lambda>a. ucast a"]
    by (simp add: demo_segment_def seg_offset_def seg_pages_def)
qed

end
