(* ===== verification/Exec_Stack.thy ===== *)
theory Exec_Stack
  imports Elf
begin

text \<open>
  The stack that \<open>mem_execve\<close> of \<^verbatim>\<open>modules/memory/execve.c\<close> builds for the new program, and that it
  is the one a program expects.

  The strings and the vectors of pointers to them are read from the memory of the caller, whose
  addresses \<open>tr\<close> translates. Counts are less than \<open>2 ^ 31\<close>.
\<close>

section \<open>The new stack\<close>

text \<open>The number of pointers before the null pointer.\<close>

partial_function (option) count_from :: "bmem \<Rightarrow> u32 \<Rightarrow> nat \<Rightarrow> nat option" where
  "count_from m strs r = (if long_at m (strs + of_nat (4 * r)) = 0 then Some r else count_from m strs (Suc r))"

definition count_strs :: "bmem \<Rightarrow> u32 \<Rightarrow> nat option" where
  "count_strs m strs = count_from m strs 0"

text \<open>The strings with the indices below \<open>n\<close> are put below \<open>sp\<close>, the last one first.\<close>

fun push_strings :: "(u32 \<Rightarrow> u32) \<Rightarrow> u32 \<Rightarrow> nat \<Rightarrow> u32 \<times> bmem \<Rightarrow> (u32 \<times> bmem) option" where
  "push_strings tr strs 0 (sp, m) = Some (sp, m)"
| "push_strings tr strs (Suc i) (sp, m) =
     (let e = tr (long_at m (strs + of_nat (4 * i)))
      in case strlen m e of
           None \<Rightarrow> None
         | Some len \<Rightarrow>
             (let sp = sp - of_nat (len + 1)
              in push_strings tr strs i (sp, fst (memcpy m sp e (len + 1)))))"

definition put_long :: "u32 \<Rightarrow> u32 \<Rightarrow> bmem \<Rightarrow> bmem" where
  "put_long a w m = m(a := ucast w, a + 1 := ucast (drop_bit 8 w),
                      a + 2 := ucast (drop_bit 16 w), a + 3 := ucast (drop_bit 24 w))"

text \<open>
  The vector \<open>vec\<close> of \<open>n\<close> pointers from index \<open>i\<close> on: each pointer is the one before it plus the
  length of that one's string.
\<close>

function put_pointers :: "(u32 \<Rightarrow> u32) \<Rightarrow> u32 \<Rightarrow> u32 \<Rightarrow> nat \<Rightarrow> nat \<Rightarrow> bmem \<Rightarrow> bmem option" where
  "put_pointers tr strs vec n i m =
     (if n < i then Some m
      else if i = n then put_pointers tr strs vec n (Suc i) (put_long (vec + of_nat (4 * i)) 0 m)
      else (case strlen m (tr (long_at m (strs + of_nat (4 * (i - 1))))) of
              None \<Rightarrow> None
            | Some len \<Rightarrow>
                put_pointers tr strs vec n (Suc i)
                  (put_long (vec + of_nat (4 * i)) (long_at m (vec + of_nat (4 * (i - 1))) + of_nat len + 1) m)))"
  by auto
termination by (relation "measure (\<lambda>(tr, strs, vec, n, i, m). Suc n - i)") auto

declare put_pointers.simps [simp del]

text \<open>
  The stack of the new program in the block at \<open>stk\<close>, which will be at \<open>base\<close> in its address space:
  from the top the strings of the environment, those of the arguments, the two vectors. The first
  pointer of a vector is set in any case, also when it should be the null pointer at the end.
\<close>

definition get_offsetd_addr :: "u32 \<Rightarrow> u32 \<Rightarrow> u32 \<Rightarrow> u32" where
  "get_offsetd_addr buf a vbase = vbase + (a - buf)"

definition put_vector :: "(u32 \<Rightarrow> u32) \<Rightarrow> u32 \<Rightarrow> nat \<Rightarrow> u32 \<Rightarrow> u32 \<times> bmem \<Rightarrow> (u32 \<times> bmem) option" where
  "put_vector tr strs n head = (\<lambda>(sp, m).
     let sp = sp - of_nat (4 * (n + 1))
     in map_option (Pair sp) (put_pointers tr strs sp n 1 (put_long sp head m)))"

definition exec_stack :: "(u32 \<Rightarrow> u32) \<Rightarrow> u32 \<Rightarrow> u32 \<Rightarrow> u32 \<Rightarrow> u32 \<Rightarrow> bmem \<Rightarrow> (nat \<times> u32 \<times> bmem) option" where
  "exec_stack tr stk base argv env m =
     Option.bind (count_strs m argv) (\<lambda>argc.
     Option.bind (count_strs m env) (\<lambda>envc.
     Option.bind (push_strings tr env envc (stk + PROC_STACK_SIZE, m)) (\<lambda>(head_of_envp, m).
     Option.bind (push_strings tr argv argc (head_of_envp, m)) (\<lambda>(head_of_argv, m).
     Option.bind (put_vector tr env envc (get_offsetd_addr stk head_of_envp base) (head_of_argv AND NOT 3, m)) (\<lambda>sm.
     map_option (Pair argc) (put_vector tr argv argc (get_offsetd_addr stk head_of_argv base) sm))))))"

section \<open>Bytes put into memory\<close>

fun put_bytes :: "u32 \<Rightarrow> u8 list \<Rightarrow> bmem \<Rightarrow> bmem" where
  "put_bytes a [] m = m"
| "put_bytes a (b # bs) m = put_bytes (a + 1) bs (m(a := b))"

lemma put_bytes_apply:
  assumes "unat a + length bs < 2 ^ 32"
  shows "put_bytes a bs m x = (if in_area a (length bs) x then bs ! (unat x - unat a) else m x)"
  using assms
proof (induction bs arbitrary: a m)
  case (Cons b bs)
  have u: "unat (a + 1) = unat a + 1" using Cons.prems by (intro unat_plus1) simp
  have ih: "put_bytes (a + 1) bs (m(a := b)) x =
      (if in_area (a + 1) (length bs) x then bs ! (unat x - unat (a + 1)) else (m(a := b)) x)"
    using Cons.prems u by (intro Cons.IH) simp
  consider "x = a" | "in_area (a + 1) (length bs) x" | "x \<noteq> a" "\<not> in_area (a + 1) (length bs) x" by blast
  then show ?case
  proof cases
    case 2
    then have "unat x - unat a = Suc (unat x - unat (a + 1))" by (simp add: in_area_def u Suc_diff_Suc)
    then show ?thesis unfolding put_bytes.simps ih using 2 by (simp add: in_area_def u)
  next
    case 3
    then have "unat x \<noteq> unat a" by (simp add: word_unat_eq_iff)
    with 3 show ?thesis unfolding put_bytes.simps ih by (auto simp: in_area_def u)
  next
    case 1
    then show ?thesis unfolding put_bytes.simps ih by (simp add: in_area_def u)
  qed
qed (auto simp: in_area_def)

lemma put_bytes_join:
  assumes "unat a + length us + length vs < 2 ^ 32"
  shows "put_bytes a us (put_bytes (a + of_nat (length us)) vs m) = put_bytes a (us @ vs) m"
proof
  fix x
  have u: "unat (a + of_nat (length us)) = unat a + length us" using assms by (intro unat_le_iff_add) simp
  show "put_bytes a us (put_bytes (a + of_nat (length us)) vs m) x = put_bytes a (us @ vs) m x"
    using assms by (auto simp: put_bytes_apply u in_area_def nth_append)
qed

lemma put_bytes_append:
  "put_bytes a (us @ vs) m = put_bytes (a + of_nat (length us)) vs (put_bytes a us m)"
  by (induction us arbitrary: a m) (simp_all add: add.assoc)

lemma memcpy_put:
  assumes "unat d + n < 2 ^ 32" "unat s + n < 2 ^ 32"
  shows "fst (memcpy m d s n) = put_bytes d (map (\<lambda>j. m (s + of_nat j)) [0..<n]) m"
proof
  fix x
  show "fst (memcpy m d s n) x = put_bytes d (map (\<lambda>j. m (s + of_nat j)) [0..<n]) m x"
  proof (cases "in_area d n x")
    case True
    then have "of_nat (unat x - unat d) = x - d"
      by (simp add: in_area_def word_unat_eq_iff unat_sub word_le_nat_alt del: of_nat_diff)
         (metis unat_of_nat32 unat_lt32 diff_le_self le_less_trans)
    then show ?thesis using True assms by (auto simp: memcpy_moves put_bytes_apply in_area_def)
  qed (use assms in \<open>simp add: memcpy_moves put_bytes_apply\<close>)
qed

lemma put_long_bytes: "put_long a w m = put_bytes a (word_bytes w) m"
  by (simp add: put_long_def word_bytes_def add.assoc)

section \<open>Where the strings are\<close>

text \<open>
  A vector at \<open>strs\<close> of pointers to the strings \<open>xs\<close>, with its null pointer at the end, that lies
  outside the block at \<open>stk\<close> as the strings do.
\<close>

definition outside :: "u32 \<Rightarrow> u32 \<Rightarrow> bool" where
  "outside stk a \<longleftrightarrow> \<not> in_area stk 8192 a"

definition string_at :: "u32 \<Rightarrow> bmem \<Rightarrow> u32 \<Rightarrow> u8 list \<Rightarrow> bool" where
  "string_at stk m e x \<longleftrightarrow> 0 \<notin> set x \<and> unat e + length x + 1 < 2 ^ 32 \<and>
     (\<forall>j \<le> length x. outside stk (e + of_nat j) \<and> m (e + of_nat j) = (x @ [0]) ! j)"

definition vector_at :: "u32 \<Rightarrow> (u32 \<Rightarrow> u32) \<Rightarrow> bmem \<Rightarrow> u32 \<Rightarrow> u8 list list \<Rightarrow> bool" where
  "vector_at stk tr m strs xs \<longleftrightarrow>
     (\<forall>i \<le> length xs. \<forall>j < 4. outside stk (strs + of_nat (4 * i) + j)) \<and>
     long_at m (strs + of_nat (4 * length xs)) = 0 \<and>
     (\<forall>i < length xs. long_at m (strs + of_nat (4 * i)) \<noteq> 0 \<and>
        string_at stk m (tr (long_at m (strs + of_nat (4 * i)))) (xs ! i))"

lemma string_at_cong:
  assumes "\<And>a. outside stk a \<Longrightarrow> m' a = m a" "string_at stk m e x"
  shows "string_at stk m' e x"
  using assms by (simp add: string_at_def)

lemma string_at_map: "string_at stk m e x \<Longrightarrow> map (\<lambda>j. m (e + of_nat j)) [0..<length x + 1] = x @ [0]"
  by (intro nth_equalityI) (auto simp: string_at_def simp del: upt_Suc)

lemma long_at_cong:
  assumes "\<And>a. outside stk a \<Longrightarrow> m' a = m a" "\<And>j. j < 4 \<Longrightarrow> outside stk (a + j)"
  shows "long_at m' a = long_at m a"
  using assms(1)[OF assms(2)[of 0]] assms(1)[OF assms(2)[of 1]] assms(1)[OF assms(2)[of 2]] assms(1)[OF assms(2)[of 3]]
  by (simp add: long_at_def half_at_def add.assoc)

lemma vector_at_cong:
  assumes "\<And>a. outside stk a \<Longrightarrow> m' a = m a" "vector_at stk tr m strs xs"
  shows "vector_at stk tr m' strs xs"
proof -
  have "long_at m' (strs + of_nat (4 * i)) = long_at m (strs + of_nat (4 * i))" if "i \<le> length xs" for i
    using assms that by (intro long_at_cong [of stk]) (auto simp: vector_at_def)
  then show ?thesis using assms(2) string_at_cong [OF assms(1)] by (auto simp: vector_at_def)
qed

lemma strlen_string_at:
  assumes "string_at stk m e x"
  shows "strlen m e = Some (length x)"
proof -
  have "strlen_from m (e + of_nat (length x - n)) (length x - n) = Some (length x)" if "n \<le> length x" for n
    using that
  proof (induction n)
    case 0
    then show ?case using assms by (subst strlen_from.simps) (simp add: string_at_def nth_append)
  next
    case (Suc n)
    then have e: "length x - n = Suc (length x - Suc n)" by simp
    have "m (e + of_nat (length x - Suc n)) \<in> set x"
      using assms Suc.prems by (simp add: string_at_def nth_append del: of_nat_diff)
    then have "m (e + of_nat (length x - Suc n)) \<noteq> 0" using assms by (auto simp: string_at_def)
    moreover have "e + of_nat (length x - Suc n) + 1 = e + of_nat (length x - n)"
      unfolding e by (simp add: add.assoc add.commute del: of_nat_diff)
    ultimately show ?case using Suc e by (subst strlen_from.simps) (simp add: ac_simps del: of_nat_diff)
  qed
  from this [of "length x"] show ?thesis by (simp add: strlen_def)
qed

lemma count_strs_vector_at:
  assumes "vector_at stk tr m strs xs"
  shows "count_strs m strs = Some (length xs)"
proof -
  have "count_from m strs (length xs - n) = Some (length xs)" if "n \<le> length xs" for n
    using that
  proof (induction n)
    case 0
    then show ?case using assms by (subst count_from.simps) (simp add: vector_at_def)
  next
    case (Suc n)
    then have "Suc (length xs - Suc n) = length xs - n" by simp
    moreover have "long_at m (strs + of_nat (4 * (length xs - Suc n))) \<noteq> 0"
      using assms Suc.prems by (simp add: vector_at_def del: of_nat_mult of_nat_diff)
    ultimately show ?case using Suc by (subst count_from.simps) (simp del: of_nat_mult of_nat_diff)
  qed
  from this [of "length xs"] show ?thesis by (simp add: count_strs_def)
qed

section \<open>The stack is the one a program expects\<close>

text \<open>Strings with their terminators, and the vector of pointers to strings that lie from \<open>head\<close> on.\<close>

definition terminated :: "u8 list list \<Rightarrow> u8 list" where
  "terminated xs = concat (map (\<lambda>x. x @ [0]) xs)"

definition string_vector :: "u32 \<Rightarrow> u8 list list \<Rightarrow> u32 list" where
  "string_vector head xs =
     (if xs = [] then [head]
      else map (\<lambda>i. head + of_nat (length (terminated (take i xs)))) [0..<length xs] @ [0])"

lemma length_string_vector [simp]: "length (string_vector head xs) = length xs + 1"
  by (simp add: string_vector_def)

definition words_bytes :: "u32 list \<Rightarrow> u8 list" where
  "words_bytes ws = concat (map word_bytes ws)"

lemma put_bytes_outside:
  assumes "unat stk \<le> unat a" "unat a + length bs \<le> unat stk + 8192" "unat stk + 8192 < 2 ^ 32" "outside stk x"
  shows "put_bytes a bs m x = m x"
  using assms by (auto simp: put_bytes_apply in_area_def outside_def)

lemma unat_minus_of_nat: "n \<le> unat (a :: u32) \<Longrightarrow> unat (a - of_nat n) = unat a - n"
proof -
  assume n: "n \<le> unat a"
  then have "unat (of_nat n :: u32) = n" using unat_lt32 [of a] by (intro unat_of_nat32) simp
  with n show ?thesis by (subst unat_sub) (simp_all add: word_le_nat_alt)
qed

lemma push_strings_ok:
  assumes "vector_at stk tr m strs xs" "n \<le> length xs" "unat stk + 8192 < 2 ^ 32"
    and "unat stk + length (terminated (take n xs)) \<le> unat sp" "unat sp \<le> unat stk + 8192"
  shows "push_strings tr strs n (sp, m) =
    (let b = sp - of_nat (length (terminated (take n xs))) in Some (b, put_bytes b (terminated (take n xs)) m))"
  using assms
proof (induction n arbitrary: sp m)
  case 0
  then show ?case by (simp add: terminated_def)
next
  case (Suc n)
  let ?e = "tr (long_at m (strs + of_nat (4 * n)))" and ?x = "xs ! n" and ?t = "terminated (take n xs)"
  have t: "terminated (take (Suc n) xs) = ?t @ ?x @ [0]"
    using Suc.prems(2) by (simp add: terminated_def take_Suc_conv_app_nth)
  have s: "string_at stk m ?e ?x" using Suc.prems(1,2) by (simp add: vector_at_def del: of_nat_mult)
  have room: "unat stk + length ?t + length ?x + 1 \<le> unat sp" using Suc.prems(4) by (simp add: t)
  define d where "d = sp - of_nat (length ?x + 1)"
  have d: "unat d = unat sp - (length ?x + 1)"
    unfolding d_def by (rule unat_minus_of_nat) (use room in simp)
  have ds: "sp - of_nat (Suc (length ?x)) = d" by (simp add: d_def)
  have c: "fst (memcpy m d ?e (length ?x + 1)) = put_bytes d (?x @ [0]) m"
    unfolding string_at_map [OF s, symmetric]
  proof (rule memcpy_put)
    show "unat d + (length ?x + 1) < 2 ^ 32" unfolding d using room Suc.prems(3,5) by simp
  qed (use s in \<open>simp add: string_at_def\<close>)
  have v: "vector_at stk tr (put_bytes d (?x @ [0]) m) strs xs"
    using Suc.prems room by (intro vector_at_cong [OF put_bytes_outside]) (simp_all add: d)
  let ?b = "d - of_nat (length ?t)"
  have b: "unat ?b = unat sp - (length ?x + 1) - length ?t"
    using room unfolding d [symmetric] by (intro unat_minus_of_nat) (simp add: d)
  have e: "sp - of_nat (length (?t @ ?x @ [0])) = ?b" by (simp add: d_def)
  have "push_strings tr strs (Suc n) (sp, m) = push_strings tr strs n (d, put_bytes d (?x @ [0]) m)"
    using c ds by (simp add: strlen_string_at [OF s] Let_def del: of_nat_mult of_nat_add of_nat_Suc)
  also have "\<dots> = Some (?b, put_bytes ?b ?t (put_bytes d (?x @ [0]) m))"
    using Suc.IH [OF v] Suc.prems room by (simp add: d Let_def)
  also have "put_bytes ?b ?t (put_bytes d (?x @ [0]) m) = put_bytes ?b (?t @ ?x @ [0]) m"
    using put_bytes_join [of ?b ?t "?x @ [0]" m] Suc.prems room b by simp
  finally show ?case unfolding t Let_def e .
qed

text \<open>The vector: each pointer is computed from the one before it.\<close>

lemma long_of_bytes:
  "ucast (ucast (ucast w :: u8) OR push_bit 8 (ucast (ucast (drop_bit 8 w) :: u8)) :: u16) OR
   push_bit 16 (ucast (ucast (ucast (drop_bit 16 w) :: u8) OR push_bit 8 (ucast (ucast (drop_bit 24 w) :: u8)) :: u16)) = (w :: u32)"
  (is "?l = w")
proof (rule bit_word_eqI)
  fix n
  assume n: "n < LENGTH(32)"
  consider "n < 8" | "8 \<le> n" "n < 16" | "16 \<le> n" "n < 24" | "24 \<le> n" by linarith
  then show "bit ?l n \<longleftrightarrow> bit w n"
  proof cases
    case 4
    then have "n - 16 - 8 < 8" "24 + (n - 16 - 8) = n" "n - 16 < 16" using n by simp_all
    then show ?thesis using 4 n by (auto simp: bit_simps)
  qed (use n in \<open>auto simp: bit_simps\<close>)
qed

lemma long_at_put_bytes [simp]: "long_at (put_bytes a (word_bytes w) m) a = w"
proof -
  let ?m = "put_bytes a (word_bytes w) m"
  have "?m a = ucast w" "?m (a + 1) = ucast (drop_bit 8 w)" "?m (a + 2) = ucast (drop_bit 16 w)"
    "?m (a + 2 + 1) = ucast (drop_bit 24 w)"
    by (simp_all add: word_bytes_def add.assoc)
  then show ?thesis unfolding long_at_def half_at_def by (simp only: long_of_bytes)
qed

lemma length_word_bytes [simp]: "length (word_bytes w) = 4"
  by (simp add: word_bytes_def)

lemma length_words_bytes [simp]: "length (words_bytes ws) = 4 * length ws"
  by (induction ws) (simp_all add: words_bytes_def)

lemma words_bytes_simps [simp]:
  "words_bytes [] = []" "words_bytes (w # ws) = word_bytes w @ words_bytes ws"
  "words_bytes (vs @ ws) = words_bytes vs @ words_bytes ws"
  by (simp_all add: words_bytes_def)

definition string_pointer :: "u32 \<Rightarrow> u8 list list \<Rightarrow> nat \<Rightarrow> u32" where
  "string_pointer head xs i = head + of_nat (length (terminated (take i xs)))"

lemma string_pointer_Suc:
  "i < length xs \<Longrightarrow> string_pointer head xs (Suc i) = string_pointer head xs i + of_nat (length (xs ! i)) + 1"
  by (simp add: string_pointer_def terminated_def take_Suc_conv_app_nth algebra_simps)

lemma put_pointers_ok:
  assumes "vector_at stk tr m strs xs" "1 \<le> i" "i \<le> length xs"
    and "long_at m (vec + of_nat (4 * (i - 1))) = string_pointer head xs (i - 1)"
    and "unat stk \<le> unat vec" "unat vec + 4 * (length xs + 1) \<le> unat stk + 8192" "unat stk + 8192 < 2 ^ 32"
  shows "put_pointers tr strs vec (length xs) i m =
    Some (put_bytes (vec + of_nat (4 * i)) (words_bytes (map (string_pointer head xs) [i..<length xs] @ [0])) m)"
  using assms
proof (induction "length xs - i" arbitrary: i m)
  case 0
  then have "i = length xs" by simp
  then show ?case by (simp add: put_pointers.simps put_long_bytes)
next
  case (Suc d)
  then have i: "i < length xs" "1 \<le> i" by simp_all
  let ?x = "xs ! (i - 1)" and ?a = "vec + of_nat (4 * i)" and ?p = "string_pointer head xs"
  define m' where "m' = put_bytes ?a (word_bytes (?p i)) m"
  have a: "unat ?a = unat vec + 4 * i" using Suc.prems i by (intro unat_le_iff_add) simp
  have s: "string_at stk m (tr (long_at m (strs + of_nat (4 * (i - 1))))) ?x"
    using Suc.prems(1) i by (simp add: vector_at_def del: of_nat_mult)
  have v: "vector_at stk tr m' strs xs" unfolding m'_def
    using Suc.prems i a by (intro vector_at_cong [OF put_bytes_outside]) simp_all
  have p: "?p i = ?p (i - 1) + of_nat (length ?x) + 1" using string_pointer_Suc [of "i - 1" xs head] i by simp
  have "put_pointers tr strs vec (length xs) i m = put_pointers tr strs vec (length xs) (Suc i) m'"
    using i Suc.prems(4) unfolding m'_def p put_long_bytes [symmetric]
    by (subst put_pointers.simps) (simp add: strlen_string_at [OF s] del: of_nat_mult One_nat_def)
  also have "\<dots> = Some (put_bytes (vec + of_nat (4 * Suc i)) (words_bytes (map ?p [Suc i..<length xs] @ [0])) m')"
    using Suc.hyps(2) Suc.prems i v by (intro Suc.hyps(1)) (simp_all add: m'_def del: of_nat_mult)
  also have "vec + of_nat (4 * Suc i) = ?a + of_nat (length (word_bytes (?p i)))" by simp
  also have "put_bytes (?a + of_nat (length (word_bytes (?p i)))) (words_bytes (map ?p [Suc i..<length xs] @ [0])) m' =
      put_bytes ?a (words_bytes (map ?p [i..<length xs] @ [0])) m"
    unfolding m'_def put_bytes_append [symmetric] using i by (simp add: upt_conv_Cons del: upt_Suc)
  finally show ?case .
qed

lemma put_vector_ok:
  assumes "vector_at stk tr m strs xs" "unat stk + 4 * (length xs + 1) \<le> unat sp" "unat sp \<le> unat stk + 8192"
    and "unat stk + 8192 < 2 ^ 32"
  shows "put_vector tr strs (length xs) head (sp, m) =
    (let b = sp - of_nat (4 * (length xs + 1)) in Some (b, put_bytes b (words_bytes (string_vector head xs)) m))"
proof -
  let ?b = "sp - of_nat (4 * (length xs + 1))"
  have b: "unat ?b = unat sp - 4 * (length xs + 1)" using assms by (intro unat_minus_of_nat) simp
  define m' where "m' = put_bytes ?b (word_bytes head) m"
  show ?thesis
  proof (cases "xs = []")
    case True
    then show ?thesis by (simp add: put_vector_def Let_def put_pointers.simps put_long_bytes string_vector_def)
  next
    case False
    have v: "vector_at stk tr m' strs xs" unfolding m'_def
      using assms b by (intro vector_at_cong [OF put_bytes_outside]) simp_all
    have "put_pointers tr strs ?b (length xs) 1 m' =
        Some (put_bytes (?b + of_nat (4 * 1)) (words_bytes (map (string_pointer head xs) [1..<length xs] @ [0])) m')"
      using False b assms
      by (intro put_pointers_ok [OF v]) (simp_all add: m'_def string_pointer_def terminated_def Suc_le_eq del: of_nat_mult)
    moreover have "string_vector head xs = head # map (string_pointer head xs) [1..<length xs] @ [0]"
      using False by (simp add: string_vector_def upt_conv_Cons string_pointer_def terminated_def del: upt_Suc)
    ultimately show ?thesis
      by (simp add: put_vector_def Let_def put_long_bytes m'_def [symmetric] put_bytes_append del: of_nat_mult)
         (simp add: m'_def)
  qed
qed

lemma unat_rounddown4: "unat (a AND NOT 3 :: u32) = unat a - unat a mod 4"
proof -
  have m: "(3 :: u32) = mask 2" by (simp add: mask_eq_exp_minus_1)
  have "unat (a AND 3) = unat a mod 4"
    unfolding m take_bit_eq_mask [symmetric] by (simp add: take_bit_eq_mod unat_mod)
  moreover have "a AND NOT 3 = a - (a AND 3)"
  proof -
    have "a AND NOT (mask k) = push_bit k (drop_bit k a)" for k by (rule bit_word_eqI) (auto simp: bit_simps)
    then have "a AND NOT 3 = push_bit 2 (drop_bit 2 a)" unfolding m .
    then show ?thesis using bits_ident [of 2 a] unfolding m take_bit_eq_mask [symmetric]
      by (metis add_diff_cancel_right')
  qed
  moreover have "a AND 3 \<le> a" by (simp add: word_le_nat_alt calculation(1))
  ultimately show ?thesis by (simp add: unat_sub)
qed

text \<open>
  C19. The stack of the new program: when the strings of the arguments \<open>ys\<close> and of the environment \<open>xs\<close>,
  their terminators and the two vectors fit into the stack, \<open>exec_stack\<close> changes only the block. It
  puts the strings at its top, those of the arguments first, and below them, at an address that
  is a multiple of 4, the vector of the arguments and that of the environment. Each vector has a
  pointer to each string as the new program sees it and the null pointer, but a vector of no strings has
  a pointer where it should have the null pointer.
\<close>

theorem exec_stack_layout:
  assumes "vector_at stk tr m argv ys" "vector_at stk tr m env xs"
    and "length (terminated (ys @ xs)) + 4 * (length ys + length xs + 2) + 3 \<le> 8192"
    and "unat stk + 8192 < 2 ^ 32"
  shows "exec_stack tr stk base argv env m =
    (let head = stk + 8192 - of_nat (length (terminated (ys @ xs)));
         sp = (head AND NOT 3) - of_nat (4 * (length ys + length xs + 2));
         at = (\<lambda>a. base + (a - stk))
     in Some (length ys, sp,
          put_bytes sp (words_bytes (string_vector (at head) ys @
                                     string_vector (at (head + of_nat (length (terminated ys)))) xs))
            (put_bytes head (terminated (ys @ xs)) m)))"
proof -
  let ?top = "stk + 8192" and ?tx = "terminated xs" and ?ty = "terminated ys"
  have t: "terminated (ys @ xs) = ?ty @ ?tx" by (simp add: terminated_def)
  have top: "unat ?top = unat stk + 8192" using unat_le_iff_add [of stk 8192] assms(4) by simp
  let ?he = "?top - of_nat (length ?tx)"
  have he: "unat ?he = unat stk + 8192 - length ?tx"
    unfolding top [symmetric] using assms(3) by (intro unat_minus_of_nat) (simp add: t top)
  let ?ha = "?he - of_nat (length ?ty)"
  have ha: "unat ?ha = unat stk + 8192 - length ?tx - length ?ty"
    unfolding he [symmetric] using assms(3) by (intro unat_minus_of_nat) (simp add: t he)
  define m1 where "m1 = put_bytes ?he ?tx m"
  define m2 where "m2 = put_bytes ?ha ?ty m1"
  have m2: "m2 = put_bytes ?ha (?ty @ ?tx) m"
    unfolding m2_def m1_def using put_bytes_join [of ?ha ?ty ?tx m] assms(3,4) ha by (simp add: t)
  have out: "m2 a = m a" if "outside stk a" for a
    unfolding m2 using assms(3,4) ha that by (intro put_bytes_outside) (simp_all add: t)
  have out1: "m1 a = m a" if "outside stk a" for a
    unfolding m1_def using assms(3,4) he that by (intro put_bytes_outside) (simp_all add: t)
  have v1: "vector_at stk tr m1 argv ys" using assms(1) by (rule vector_at_cong [rotated]) (rule out1)
  have v2: "vector_at stk tr m2 argv ys" using assms(1) by (rule vector_at_cong [rotated]) (rule out)
  have v3: "vector_at stk tr m2 env xs" using assms(2) by (rule vector_at_cong [rotated]) (rule out)
  have p1: "push_strings tr env (length xs) (?top, m) = Some (?he, m1)"
    using push_strings_ok [OF assms(2) _ assms(4), of "length xs" ?top] assms(3)
    by (simp add: top t Let_def m1_def)
  have p2: "push_strings tr argv (length ys) (?he, m1) = Some (?ha, m2)"
    using push_strings_ok [OF v1 _ assms(4), of "length ys" ?he] assms(3)
    by (simp add: he t Let_def m2_def)
  let ?r = "?ha AND NOT 3"
  have r: "unat ?r = unat ?ha - unat ?ha mod 4"
    by (rule unat_rounddown4)
  have rs: "unat ?r \<le> unat stk + 8192" "unat stk + 4 * (length xs + 1) \<le> unat ?r"
    using r ha assms(3) by (simp_all add: t)
  have rr: "unat ?ha \<le> unat ?r + 3" "unat ?r \<le> unat ?ha"
    unfolding r using pos_mod_bound [of 4 "int (unat ?ha)"] mod_less_divisor [of 4 "unat ?ha"] by linarith+
  let ?at = "\<lambda>a. base + (a - stk)" and ?r1 = "?r - of_nat (4 * (length xs + 1))"
  define ws where "ws = words_bytes (string_vector (?at ?he) xs)"
  define m3 where "m3 = put_bytes ?r1 ws m2"
  have p3: "put_vector tr env (length xs) (get_offsetd_addr stk ?he base) (?r, m2) = Some (?r1, m3)"
    using put_vector_ok [OF v3 rs(2,1) assms(4), of "?at ?he"]
    by (simp add: get_offsetd_addr_def Let_def m3_def ws_def del: of_nat_mult)
  have r1: "unat ?r1 = unat ?r - 4 * (length xs + 1)" using rs(2) by (intro unat_minus_of_nat) simp
  have out3: "m3 a = m2 a" if "outside stk a" for a
    unfolding m3_def ws_def using assms(3,4) r1 rs that
    by (intro put_bytes_outside) simp_all
  have v4: "vector_at stk tr m3 argv ys" using v2 by (rule vector_at_cong [rotated]) (rule out3)
  let ?sp = "?r1 - of_nat (4 * (length ys + 1))"
  define vs where "vs = words_bytes (string_vector (?at ?ha) ys)"
  have fits: "length ?ty + length ?tx + 4 * (length ys + length xs + 2) + 3 \<le> 8192"
    using assms(3) by (simp only: t length_append)
  have arith: "s + 4 * (a + 1) \<le> c \<and> c \<le> s + 8192"
    if "h \<le> r + 3" "r \<le> h" "c = r - 4 * (b + 1)" "h = s + 8192 - x - y" "y + x + 4 * (a + b + 2) + 3 \<le> 8192"
    for s a b c h r x y :: nat
  proof -
    have "h + x + y = s + 8192" using that(4,5) by simp
    moreover from this have "4 * (b + 1) \<le> r" using that(1,5) by simp
    then have "c + 4 * (b + 1) = r" using that(3) by (simp only: le_add_diff_inverse2)
    ultimately show ?thesis using that(1,2,5) by simp
  qed
  note r2 = arith [OF rr r1 ha fits, THEN conjunct1] and r3 = arith [OF rr r1 ha fits, THEN conjunct2]
  have p4: "put_vector tr argv (length ys) (get_offsetd_addr stk ?ha base) (?r1, m3) = Some (?sp, put_bytes ?sp vs m3)"
    using put_vector_ok [OF v4 r2 r3 assms(4), of "?at ?ha"]
    by (simp add: get_offsetd_addr_def Let_def vs_def del: of_nat_mult)
  have sp: "?sp = ?r - of_nat (4 * (length ys + length xs + 2))" by simp
  have l: "length vs = 4 * (length ys + 1)" "length ws = 4 * (length xs + 1)"
    by (simp_all add: vs_def ws_def)
  have usp: "unat ?sp = unat ?r1 - 4 * (length ys + 1)" using r2 by (intro unat_minus_of_nat) simp
  have a: "?sp + of_nat (length vs) = ?r1" unfolding l by simp
  have "unat ?sp + length vs + length ws = unat ?r"
    unfolding usp r1 l using rs(2) r2 unfolding r1 by simp
  then have j: "put_bytes ?sp vs m3 = put_bytes ?sp (vs @ ws) m2"
    using put_bytes_join [of ?sp vs ws m2, unfolded a] rs(1) assms(4) unfolding m3_def by linarith
  have head: "?top - of_nat (length ?ty + length ?tx) = ?ha" "?ha + of_nat (length ?ty) = ?he" by simp_all
  have "exec_stack tr stk base argv env m = Some (length ys, ?sp, put_bytes ?sp (vs @ ws) m2)"
    unfolding exec_stack_def count_strs_vector_at [OF assms(1)] count_strs_vector_at [OF assms(2)]
    by (simp only: p1 p2 p3 p4 j bind.bind_lunit prod.case option.map)
  then show ?thesis
    unfolding t length_append Let_def head sp m2 vs_def ws_def words_bytes_simps(3) .
qed

text \<open>The arguments \<^verbatim>\<open>ls\<close> and the environment \<^verbatim>\<open>A\<close>, with their vectors.\<close>

definition demo_args :: bmem where
  "demo_args = (\<lambda>_. 0)(0x1001 := 0x20, 0x1101 := 0x21, 0x2000 := 0x6C, 0x2001 := 0x73, 0x2100 := 0x41)"

lemma outside_below: "a < stk \<Longrightarrow> outside stk a"
  by (simp add: outside_def in_area_def word_less_nat_alt)

lemma demo_vector:
  assumes "strs = 0x1000 \<and> x = [0x6C, 0x73] \<or> strs = 0x1100 \<and> x = [0x41]"
  shows "vector_at 0x10000 id demo_args strs [x]"
proof -
  have l: "long_at demo_args 0x1000 = 0x2000" "long_at demo_args 0x1004 = 0"
    "long_at demo_args 0x1100 = 0x2100" "long_at demo_args 0x1104 = 0"
    by (simp_all add: long_at_def half_at_def demo_args_def)
  have o: "outside 0x10000 (strs + of_nat (4 * i) + j)" if "i \<le> 1" "j < 4" for i j
  proof (rule outside_below)
    have "unat j < 4" using that(2) by (simp add: word_less_nat_alt)
    then have "unat (0x1004 + j) = 0x1004 + unat j" "unat (0x1000 + j) = 0x1000 + unat j"
      "unat (0x1104 + j) = 0x1104 + unat j" "unat (0x1100 + j) = 0x1100 + unat j"
      by (simp_all add: unat_word_ariths)
    then show "strs + of_nat (4 * i) + j < 0x10000"
      using assms that(1) \<open>unat j < 4\<close> by (auto simp: word_less_nat_alt le_Suc_eq)
  qed
  have "string_at 0x10000 demo_args 0x2000 [0x6C, 0x73]" "string_at 0x10000 demo_args 0x2100 [0x41]"
    by (auto simp: string_at_def demo_args_def le_Suc_eq intro!: outside_below)
  then show ?thesis using assms o unfolding vector_at_def by (auto simp: l simp del: of_nat_mult)
qed

theorem exec_stack_layout_witness:
  "exec_stack id 0x10000 0x7FFFE000 0x1000 0x1100 demo_args =
    Some (1, 0x11FE8, put_bytes 0x11FE8
      (words_bytes (string_vector 0x7FFFFFFB [[0x6C, 0x73]] @ string_vector 0x7FFFFFFE [[0x41]]))
      (put_bytes 0x11FFB [0x6C, 0x73, 0, 0x41, 0] demo_args))"
  using exec_stack_layout [OF demo_vector [of "0x1000" "[0x6C, 0x73]"] demo_vector [of "0x1100" "[0x41]"], where base = "0x7FFFE000"]
  by (simp add: terminated_def)

end
