(* ===== verification/Exec.thy ===== *)
theory Exec
  imports Exec_Stack Elf_Props Pool_Requests Fs
begin

text \<open>
  \<open>mem_execve\<close> of \<^verbatim>\<open>modules/memory/execve.c\<close>: a process is turned into one that runs a file. The
  request that would call it is commented out in the source.

  The file server, which is another process, is an argument: what it says of a name, and the bytes
  it reads. So are the answers of the system task to the queries for the new name, and the address
  of the buffer for the header, which is on the server's stack.
\<close>

record file_server =
  file_named :: "u8 list \<Rightarrow> fs_file_info option"
  file_bytes :: "fs_file_info \<Rightarrow> u32 \<Rightarrow> nat \<Rightarrow> u8 list"

section \<open>The new address space\<close>

text \<open>What the process had is freed; it gets a directory of its own and the stack that was built.\<close>

definition exec_space :: "u32 \<Rightarrow> u32 \<Rightarrow> nat \<Rightarrow> pgs \<Rightarrow> process \<Rightarrow> (pgs \<times> process) res" where
  "exec_space stk sp argc s p =
     (let pstack_bottom = KERN_BASE - PROC_STACK_SIZE; offset_sp = stk - sp
      in and_then (free_proc s (p\<lparr>status := PROC_STATUS_STOP\<rparr>)) (\<lambda>(s, p).
         and_then (create_page_dir s 0) (\<lambda>(s, pd).
         let p = p\<lparr>page_dir := pd, pstack := pstack_bottom, pstack_size := PROC_STACK_SIZE\<rparr>
         in and_then (map_pages s pd (pstack p) stk (pstack_size p) (PG_Present OR PG_Writable OR PG_User)) (\<lambda>(s, _).
            Inr (s, p\<lparr>stack := (stack p)\<lparr>sf_esp := (pstack_bottom - offset_sp) AND NOT 3,
                                          sf_ecx := of_nat argc, sf_ebx := pstack_bottom - offset_sp\<rparr>\<rparr>)))))"

section \<open>The new name\<close>

text \<open>
  The loop asks for a name that it never puts into the message, until it is not found: \<open>answers n\<close>
  is the answer to query \<open>n\<close>. The result is the number of queries.
\<close>

partial_function (option) name_tries :: "(nat \<Rightarrow> u32) \<Rightarrow> nat \<Rightarrow> nat option" where
  "name_tries answers no = (if answers no = 0 then Some (Suc no) else name_tries answers (Suc no))"

text \<open>
  The name of the process, or \<open>None\<close> when the process is to be killed. The table of the powers of 10
  has ten entries, so a short name is looked up beyond its end.
\<close>

definition exec_name :: "u8 list \<Rightarrow> nat \<Rightarrow> u8 list option res" where
  "exec_name fname no =
     (let name = Fs.cstr fname; exe_len = length name
      in if 0 \<notin> set fname then Inl OutOfBounds
         else if no \<noteq> 1
         then (if 1000000000 < no then Inr None
               else if exe_len < 6 \<or> 15 < exe_len then Inl OutOfBounds
               else if 10 ^ (15 - exe_len) < no then Inr None
               else and_then (sprintf (\<lambda>_. name) (bytes ''%s%d'') [0, of_nat no]) (\<lambda>out.
                      if 16 \<le> length out then Inl OutOfBounds
                      else Inr (Some (out @ replicate (16 - length out) 0))))
         else if 16 \<le> exe_len then Inl OutOfBounds
         else Inr (Some (name @ replicate (16 - exe_len) 0)))"

section \<open>The segments\<close>

text \<open>As for the first program, but the bytes come from the file server.\<close>

definition exec_fill :: "file_server \<Rightarrow> fs_file_info \<Rightarrow> u32 \<Rightarrow> Elf32_Phdr \<Rightarrow> bmem \<Rightarrow> bmem" where
  "exec_fill fs fi pa ph m =
     (let va_offset = p_vaddr ph - PGROUNDDOWN (p_vaddr ph);
          m = put_bytes (pa + va_offset) (file_bytes fs fi (p_offset ph) (unat (p_filesz ph))) m;
          m = (if va_offset \<noteq> 0 then fst (memset m pa 0 (unat va_offset)) else m)
      in if p_filesz ph \<noteq> p_memsz ph
         then fst (memset m (pa + va_offset + p_filesz ph) 0 (unat (p_memsz ph - p_filesz ph)))
         else m)"

definition exec_segment :: "file_server \<Rightarrow> fs_file_info \<Rightarrow> u32 \<Rightarrow> Elf32_Phdr \<Rightarrow> pgs \<times> bmem \<Rightarrow> (pgs \<times> bmem) res" where
  "exec_segment fs fi pd ph = (\<lambda>(s, m).
     let (mi, pa) = page_alloc (pinfo s) (PGROUNDUP (p_memsz ph) div PG_SIZE) (PAGE_TYPE_INUSE OR PAGE_TYPE_USER);
         m = exec_fill fs fi pa ph m
     in and_then (map_pages (s\<lparr>pinfo := mi\<rparr>) pd (PGROUNDDOWN (p_vaddr ph)) pa (p_memsz ph) (segment_attr ph))
          (\<lambda>(s, _). Inr (s, m)))"

fun exec_segments :: "file_server \<Rightarrow> fs_file_info \<Rightarrow> u32 \<Rightarrow> u32 \<Rightarrow> nat list \<Rightarrow> prog_info \<Rightarrow> pgs \<times> bmem \<Rightarrow>
    (prog_info \<times> pgs \<times> bmem) res" where
  "exec_segments fs fi pd hdrs [] g sm = Inr (g, sm)"
| "exec_segments fs fi pd hdrs (i # is) g sm =
     (let ph = phdr_at (snd sm) (hdrs + of_nat (32 * i))
      in if p_type ph = PT_LOAD
         then and_then (exec_segment fs fi pd ph sm) (exec_segments fs fi pd hdrs is (extend_prog ph g))
         else exec_segments fs fi pd hdrs is g sm)"

section \<open>The whole operation\<close>

definition upd_caller :: "nat \<Rightarrow> (process \<Rightarrow> process) \<Rightarrow> mm_pool \<Rightarrow> mm_pool" where
  "upd_caller i f s = s\<lparr>ms := upd_kern (upd_proc i f) (ms s)\<rparr>"

definition kill_caller :: "u32 \<Rightarrow> nat \<Rightarrow> mm_pool \<Rightarrow> (mm_pool \<times> message list) res option" where
  "kill_caller vend i s =
     (let s = upd_caller i (\<lambda>p. p\<lparr>exit_status := 255,
                status := status p OR (PROC_STATUS_HANGING OR PROC_STATUS_ERROR)\<rparr>) s
      in on_return (mem_exit_proc vend (mm_sys (ms s)) i) (\<lambda>(sy, out).
           Some (Inr (s\<lparr>ms := (ms s)\<lparr>mm_sys := sy\<rparr>\<rparr>, out))))"

text \<open>
  Loading the segments and starting the program. The descriptions of the segments are read into a block of
  the pool, and the record of the program is another; without a block it is written through the null
  pointer.
\<close>

definition exec_load :: "file_server \<Rightarrow> fs_file_info \<Rightarrow> Elf32_Ehdr \<Rightarrow> prog_info \<Rightarrow> nat \<Rightarrow> mm_pool \<times> bmem \<Rightarrow>
    (mm_pool \<times> bmem) res option" where
  "exec_load fs fi eh g0 i = (\<lambda>(s, m).
     on_return (mem_kmalloc (memory_pool s) 16 (cells s)) (\<lambda>(pgi, h).
     if pgi = 0 then Some (Inl NullDeref)
     else on_return (mem_kmalloc (memory_pool s) (of_nat (32 * unat (e_phnum eh))) h) (\<lambda>(hdrs, h).
     let m = put_bytes hdrs (file_bytes fs fi (e_phoff eh) (32 * unat (e_phnum eh))) m;
         g = g0\<lparr>image_start := 0xFFFFFFFF, program_break := 0, program_size := 0\<rparr>
     in on_return (Some (exec_segments fs fi (page_dir (proc_table (kern (ms s)) i)) hdrs [0..<unat (e_phnum eh)] g
                          (pgs_of (ms s), m))) (\<lambda>(g, t, m).
        on_return (mem_kfree hdrs h) (\<lambda>h.
          Some (Inr (upd_caller i (\<lambda>p. p\<lparr>proc_prog := Some (g\<lparr>program_size := program_break g - image_start g\<rparr>),
                        stack := (stack p)\<lparr>sf_eip := e_entry eh\<rparr>, p_msg := 0, status := PROC_STATUS_RUNNING\<rparr>)
                       (s\<lparr>ms := put_pgs t (ms s), cells := h\<rparr>), m)))))))"

text \<open>The part behind the new address space: name, checks, segments.\<close>

definition exec_image :: "u32 \<Rightarrow> file_server \<Rightarrow> (nat \<Rightarrow> u32) \<Rightarrow> u32 \<Rightarrow> prog_info \<Rightarrow> nat \<Rightarrow> u8 list \<Rightarrow> mm_pool \<times> bmem \<Rightarrow>
    (mm_pool \<times> bmem \<times> message list) res option" where
  "exec_image vend fs answers hdr g0 i fn = (\<lambda>(s, m).
     let kill = (\<lambda>s m. on_return (kill_caller vend i s) (\<lambda>(s, out). Some (Inr (s, m, out))));
         fi = (case file_named fs fn of
                 Some fi \<Rightarrow> fi
               | None \<Rightarrow> \<lparr>filename = replicate 12 0, filesize = 0, clus = 0\<rparr>)
     in Option.bind (name_tries answers 0) (\<lambda>no.
        case exec_name (filename fi) no of
          Inl e \<Rightarrow> Some (Inl e)
        | Inr None \<Rightarrow> kill s m
        | Inr (Some name) \<Rightarrow>
            (let s = upd_caller i (\<lambda>p. p\<lparr>proc_name := name\<rparr>) s;
                 m = put_bytes hdr (file_bytes fs fi 0 52) m
             in if \<not> elf_check_supported m hdr then kill s m
                else on_return (exec_load fs fi (ehdr_at m hdr) g0 i (s, m)) (\<lambda>(s, m). Some (Inr (s, m, []))))))"

text \<open>The copy of the file's name has one byte too many, and its block is not given back.\<close>

definition mem_execve :: "u32 \<Rightarrow> file_server \<Rightarrow> (nat \<Rightarrow> u32) \<Rightarrow> u32 \<Rightarrow> prog_info \<Rightarrow> nat \<Rightarrow> u32 \<Rightarrow> u32 \<Rightarrow> u32 \<Rightarrow>
    mm_pool \<times> bmem \<Rightarrow> (mm_pool \<times> bmem \<times> message list) res option" where
  "mem_execve vend fs answers hdr g0 i exec_fn argv env = (\<lambda>(s, m).
     if proc_max (kern (ms s)) \<le> i then Some (Inl OutOfBounds)
     else
       let tr = seen_by (ms s) i; exec_fn = tr exec_fn
       in Option.bind (strlen m exec_fn) (\<lambda>len.
          on_return (mem_kmalloc (memory_pool s) (of_nat (len + 2)) (cells s)) (\<lambda>(fn, h).
          let m = fst (memcpy m fn exec_fn (len + 2));
              (mi, stk) = page_alloc (mm_info (ms s)) (PROC_STACK_SIZE div PG_SIZE) (PAGE_TYPE_INUSE OR PAGE_TYPE_USER);
              s = s\<lparr>ms := (ms s)\<lparr>mm_info := mi\<rparr>, cells := h\<rparr>
          in Option.bind (exec_stack tr stk (KERN_BASE - PROC_STACK_SIZE) (tr argv) (tr env) m) (\<lambda>(argc, sp, m).
             on_return (Some (on_slot (exec_space stk sp argc) i (ms s))) (\<lambda>t.
               exec_image vend fs answers hdr g0 i (map (\<lambda>j. m (fn + of_nat j)) [0..<len]) (s\<lparr>ms := t\<rparr>, m))))))"

section \<open>Properties\<close>

text \<open>The loader of files agrees with that of the first program, whose image is in memory.\<close>

lemma exec_segment_load_segment:
  assumes "file_bytes fs fi (p_offset ph) (unat (p_filesz ph)) =
      map (\<lambda>j. m (data + p_offset ph + of_nat j)) [0..<unat (p_filesz ph)]"
    and "unat (snd (page_alloc (pinfo s) (PGROUNDUP (p_memsz ph) div PG_SIZE) (PAGE_TYPE_INUSE OR PAGE_TYPE_USER)) +
      (p_vaddr ph - PGROUNDDOWN (p_vaddr ph))) + unat (p_filesz ph) < 2 ^ 32"
    and "unat (data + p_offset ph) + unat (p_filesz ph) < 2 ^ 32"
  shows "exec_segment fs fi pd ph (s, m) = load_segment pd data ph (s, m)"
proof -
  obtain mi pa where al: "page_alloc (pinfo s) (PGROUNDUP (p_memsz ph) div PG_SIZE) (PAGE_TYPE_INUSE OR PAGE_TYPE_USER) = (mi, pa)"
    by fastforce
  have "fst (memcpy m (pa + (p_vaddr ph - PGROUNDDOWN (p_vaddr ph))) (data + p_offset ph) (unat (p_filesz ph))) =
      put_bytes (pa + (p_vaddr ph - PGROUNDDOWN (p_vaddr ph))) (file_bytes fs fi (p_offset ph) (unat (p_filesz ph))) m"
    unfolding assms(1) by (rule memcpy_put) (use assms(2,3) al in simp_all)
  then have "exec_fill fs fi pa ph m = fill_segment pa data ph m"
    unfolding exec_fill_def fill_segment_def Let_def by (simp only:)
  then show ?thesis unfolding exec_segment_def load_segment_def prod.case al Let_def by (simp only:)
qed

text \<open>A file whose name is not found, or that is no image, ends the process whose image is already gone.\<close>

lemma exec_no_image:
  assumes "answers 0 = 0" "file_named fs fn = None"
    and "\<not> elf_check_supported (put_bytes hdr (file_bytes fs \<lparr>filename = replicate 12 0, filesize = 0, clus = 0\<rparr> 0 52) m) hdr"
  shows "exec_image vend fs answers hdr g0 i fn (s, m) =
    on_return (kill_caller vend i (upd_caller i (\<lambda>p. p\<lparr>proc_name := replicate 16 0\<rparr>) s)) (\<lambda>(s, out).
      Some (Inr (s, put_bytes hdr (file_bytes fs \<lparr>filename = replicate 12 0, filesize = 0, clus = 0\<rparr> 0 52) m, out)))"
proof -
  have "name_tries answers 0 = Some 1" using assms(1) by (subst name_tries.simps) simp
  moreover have "exec_name (replicate 12 0) 1 = Inr (Some (replicate 16 0))" by (simp add: exec_name_def Fs.cstr_def)
  ultimately show ?thesis using assms(2,3) by (simp add: exec_image_def Let_def)
qed

text \<open>While the system task knows the name that the message happens to hold, the loop goes on.\<close>

lemma name_tries_endless:
  assumes "\<And>n. answers n \<noteq> 0"
  shows "name_tries answers no = None"
proof (rule ccontr)
  assume "name_tries answers no \<noteq> None"
  then obtain r where "name_tries answers no = Some r" by auto
  then have "\<exists>k. answers k = 0"
    by (rule name_tries.raw_induct [where P = "\<lambda>answers no r. \<exists>k. answers k = 0", rotated]) (auto split: if_splits)
  with assms show False by simp
qed

text \<open>A second process of a file with a short name reads beyond the table.\<close>

lemma exec_name_short:
  assumes "0 \<in> set fname" "length (Fs.cstr fname) < 6" "no \<noteq> 1" "no \<le> 1000000000"
  shows "exec_name fname no = Inl OutOfBounds"
  using assms by (simp add: exec_name_def)

end
