(* ===== verification/Libos.thy ===== *)
theory Libos
  imports Memory_Server Libc
begin

text \<open>
  The library of the programs, \<^verbatim>\<open>lib/libos.c\<close>, with the waiting of \<^verbatim>\<open>lib/stdlib.c\<close>: each function
  exchanges messages with a server. The system is seen as a program sees it, through its two calls:
  \<open>call\<close> sends a message and receives the answer of its receiver; \<open>None\<close> is an answer that never
  comes. Message buffers on the stack have what was there before, so they are arguments.
\<close>

record 'w services =
  call :: "message \<Rightarrow> 'w \<Rightarrow> (message \<times> 'w) option"

abbreviation (input) SYSTASK_PID :: u32 where "SYSTASK_PID \<equiv> 2"
abbreviation (input) GET_TICKS_NO :: u32 where "GET_TICKS_NO \<equiv> 1"
abbreviation (input) QUERY_PROC_NO :: u32 where "QUERY_PROC_NO \<equiv> 4"
abbreviation (input) QUERY_PROC_TIMEOUT :: u32 where "QUERY_PROC_TIMEOUT \<equiv> 5000"
abbreviation (input) TTY_WRITE_NO :: u32 where "TTY_WRITE_NO \<equiv> 3"

section \<open>Waiting\<close>

definition get_ticks :: "'w services \<Rightarrow> message \<Rightarrow> 'w \<Rightarrow> (u32 \<times> 'w) option" where
  "get_ticks S m w =
     map_option (\<lambda>(r, w). (m_major r, w)) (call S (m\<lparr>m_type := GET_TICKS_NO, m_receiver := SYSTASK_PID\<rparr>) w)"

text \<open>Milliseconds in beats, at 100 beats a second: the product wraps around.\<close>

definition elapsed_ms :: "u32 \<Rightarrow> u32 \<Rightarrow> u32" where
  "elapsed_ms tk tk_begin = (tk - tk_begin) * 1000 div 100"

partial_function (option) delay_loop :: "'w services \<Rightarrow> message \<Rightarrow> u32 \<Rightarrow> u32 \<Rightarrow> 'w \<Rightarrow> 'w option" where
  "delay_loop S m tk_begin ms w =
     Option.bind (get_ticks S m w) (\<lambda>(tk, w).
       if elapsed_ms tk tk_begin < ms then delay_loop S m tk_begin ms w else Some w)"

definition delay_ms :: "'w services \<Rightarrow> message \<Rightarrow> u32 \<Rightarrow> 'w \<Rightarrow> 'w option" where
  "delay_ms S m ms w = Option.bind (get_ticks S m w) (\<lambda>(tk_begin, w). delay_loop S m tk_begin ms w)"

section \<open>Finding a server\<close>

text \<open>The message of a try is the answer to the one before it.\<close>

partial_function (option) query_loop :: "'w services \<Rightarrow> message \<Rightarrow> u32 \<Rightarrow> message \<Rightarrow> 'w \<Rightarrow> (u32 \<times> 'w) option" where
  "query_loop S tm tk_begin m w =
     Option.bind (get_ticks S tm w) (\<lambda>(tk, w).
       if elapsed_ms tk tk_begin < QUERY_PROC_TIMEOUT
       then
         Option.bind (call S (m\<lparr>m_type := QUERY_PROC_NO, m_receiver := SYSTASK_PID\<rparr>) w) (\<lambda>(m, w).
           if m_major m \<noteq> 0 then Some (m_major m, w)
           else Option.bind (delay_ms S tm (QUERY_PROC_TIMEOUT div 10) w) (query_loop S tm tk_begin m))
       else Some (0, w))"

text \<open>The length check lets a name of 16 bytes through, whose terminator does not fit.\<close>

definition query_proc :: "'w services \<Rightarrow> message \<Rightarrow> message \<Rightarrow> u8 list \<Rightarrow> 'w \<Rightarrow> (u32 \<times> 'w) res option" where
  "query_proc S tm m name w =
     (if 16 < length name then Some (Inr (0, w))
      else if length name = 16 then Some (Inl OutOfBounds)
      else map_option Inr (Option.bind (get_ticks S tm w) (\<lambda>(tk_begin, w).
        query_loop S tm tk_begin (set_b16 m (name @ 0 # drop (Suc (length name)) (b16 m))) w)))"

definition TaskMM :: "u8 list" where
  "TaskMM = [0x54, 0x61, 0x73, 0x6B, 0x4D, 0x4D]"

definition TaskTTY :: "u8 list" where
  "TaskTTY = [0x54, 0x61, 0x73, 0x6B, 0x54, 0x54, 0x59]"

section \<open>Calls\<close>

text \<open>The server is looked up in every call; one that is not found is sent to as process 0.\<close>

definition mem_service :: "'w services \<Rightarrow> message \<Rightarrow> message \<Rightarrow> message \<Rightarrow> 'w \<Rightarrow> (message \<times> 'w) res option" where
  "mem_service S tm qm m w =
     Option.bind (query_proc S tm qm TaskMM w) (\<lambda>r. case r of
       Inl e \<Rightarrow> Some (Inl e)
     | Inr (task_mem, w) \<Rightarrow> map_option Inr (call S (m\<lparr>m_receiver := task_mem\<rparr>) w))"

definition fork :: "'w services \<Rightarrow> message \<Rightarrow> message \<Rightarrow> message \<Rightarrow> 'w \<Rightarrow> (u32 \<times> 'w) res option" where
  "fork S tm qm m w =
     map_option (\<lambda>r. and_then r (\<lambda>(m, w). Inr (m_major m, w))) (mem_service S tm qm (m\<lparr>m_type := MEM_FORK_PROC\<rparr>) w)"

definition exit :: "'w services \<Rightarrow> message \<Rightarrow> message \<Rightarrow> message \<Rightarrow> u32 \<Rightarrow> 'w \<Rightarrow> 'w res option" where
  "exit S tm qm m st w =
     map_option (\<lambda>r. and_then r (\<lambda>(m, w). Inr w)) (mem_service S tm qm (m\<lparr>m_type := MEM_EXIT_PROC, m_major := st\<rparr>) w)"

text \<open>The child that exited, or -1, and its status.\<close>

definition wait :: "'w services \<Rightarrow> message \<Rightarrow> message \<Rightarrow> message \<Rightarrow> 'w \<Rightarrow> (u32 \<times> u32 \<times> 'w) res option" where
  "wait S tm qm m w =
     map_option (\<lambda>r. and_then r (\<lambda>(m, w). Inr (if m_type m = 0x12344321 then m_d1 m else -1, m_major m, w)))
       (mem_service S tm qm (m\<lparr>m_type := MEM_WAIT_PROC\<rparr>) w)"

text \<open>The text is formatted into a buffer of 256 bytes, whose address the terminal gets.\<close>

definition printf :: "'w services \<Rightarrow> (u32 \<Rightarrow> u8 list) \<Rightarrow> message \<Rightarrow> message \<Rightarrow> message \<Rightarrow> u32 \<Rightarrow> u8 list \<Rightarrow> u32 list \<Rightarrow> 'w \<Rightarrow>
    (nat \<times> 'w) res option" where
  "printf S strings tm qm m buf fmt args w =
     (case vsprintf strings fmt args of
        Inl e \<Rightarrow> Some (Inl e)
      | Inr text_bytes \<Rightarrow>
          if 256 \<le> length text_bytes then Some (Inl OutOfBounds)
          else
            Option.bind (query_proc S tm qm TaskTTY w) (\<lambda>r. case r of
              Inl e \<Rightarrow> Some (Inl e)
            | Inr (task_tty, w) \<Rightarrow>
                if task_tty = 0 then Some (Inr (0, w))
                else map_option (\<lambda>(m, w). Inr (length (takeWhile (\<lambda>c. c \<noteq> 0) text_bytes), w))
                       (call S (m\<lparr>m_major := buf, m_type := TTY_WRITE_NO, m_receiver := task_tty\<rparr>) w)))"

section \<open>How long a program can wait\<close>

lemma elapsed_bound: "unat (elapsed_ms a b) \<le> 42949672"
proof -
  have "unat ((a - b) * 1000) < 2 ^ 32" by (rule unat_lt32)
  then show ?thesis unfolding elapsed_ms_def unat_div by simp
qed

text \<open>
  The longest time that can be seen to have passed is less than 12 hours: a longer delay never ends,
  whatever the system answers.
\<close>

lemma delay_loop_bound:
  assumes "delay_loop S m tk_begin ms w = Some w'"
  shows "unat ms \<le> 42949672"
proof (rule delay_loop.raw_induct [where P = "\<lambda>S m tk_begin ms w w'. unat ms \<le> 42949672", OF _ assms])
  fix loop :: "'a services \<Rightarrow> message \<Rightarrow> u32 \<Rightarrow> u32 \<Rightarrow> 'a \<Rightarrow> 'a option" and S m tk_begin ms w w'
  assume ih: "\<And>S m tk_begin ms w w'. loop S m tk_begin ms w = Some w' \<Longrightarrow> unat ms \<le> 42949672"
    and "Option.bind (get_ticks S m w) (\<lambda>(tk, w). if elapsed_ms tk tk_begin < ms then loop S m tk_begin ms w else Some w) = Some w'"
  then obtain tk v where "(if elapsed_ms tk tk_begin < ms then loop S m tk_begin ms v else Some v) = Some w'"
    by (auto simp: bind_eq_Some_conv)
  then show "unat ms \<le> 42949672"
    using ih elapsed_bound [of tk tk_begin] by (auto simp: word_less_nat_alt split: if_splits)
qed

lemma long_delay_never_ends: "42949672 < ms \<Longrightarrow> delay_ms S m ms w = None"
proof (rule ccontr)
  assume a: "42949672 < ms" and "delay_ms S m ms w \<noteq> None"
  then obtain b v w' where "delay_loop S m b ms v = Some w'" by (auto simp: delay_ms_def bind_eq_Some_conv)
  then have "unat ms \<le> 42949672" by (rule delay_loop_bound)
  with a show False by (simp add: word_less_nat_alt)
qed

end
