(* ===== verification/Memory_Start.thy ===== *)
theory Memory_Start
  imports Pool_Requests Elf Memory_Init Libos
begin

text \<open>
  The start of the memory server in \<^verbatim>\<open>modules/memory/memory.c\<close>: it registers its name and its interest in
  page faults with the system task, learns where memory begins and ends, sets up the allocator and the
  pool, and starts the first program. Its loop is \<open>mem_server_step\<close>.

  \<open>msg\<close> is what the message buffer held, \<open>self\<close> the server's pid, \<open>zones\<close> and \<open>usage\<close> the addresses
  of the tables on its stack, \<open>init_elf\<close> the image of the first program.
\<close>

abbreviation (input) EXCEPTION_PF :: u32 where "EXCEPTION_PF \<equiv> 14"

text \<open>The requests to the system task; the answer to the first is only reported.\<close>

definition announce :: "u32 \<Rightarrow> u32 \<Rightarrow> message \<Rightarrow> u32 \<Rightarrow> u32 \<Rightarrow> sys \<Rightarrow> sys res" where
  "announce vend self msg zones usage s =
     and_then (reg_proc_call vend s self msg TaskMM) (\<lambda>(s, _).
     and_then (reg_exc_msg_call vend s self msg EXCEPTION_PF) (\<lambda>(s, _).
     and_then (query_env_call vend s self msg 4 zones (12 * 10)) (\<lambda>(s, _).
     and_then (query_env_call vend s self msg 5 usage 20) (\<lambda>(s, _). Inr s))))"

definition set_up_memory :: "memory_info \<Rightarrow> sys \<Rightarrow> prog_info \<Rightarrow> u32 \<Rightarrow> mm_pool \<times> bmem \<Rightarrow> (mm_pool \<times> bmem) res option" where
  "set_up_memory mi sy g0 init_elf sm =
     Option.bind (init_memory mi) (\<lambda>mi.
     on_return (init_memory_pool mi (PG_SIZE * 1024) (cells (fst sm))) (\<lambda>(mi, pool, h).
     on_return (Some (start_up_init g0 init_elf (\<lparr>mm_info = mi, mm_sys = sy\<rparr>, snd sm))) (\<lambda>(t, m).
       Some (Inr ((fst sm)\<lparr>ms := t, cells := h, memory_pool := pool\<rparr>, m)))))"

definition start_server :: "u32 \<Rightarrow> u32 \<Rightarrow> message \<Rightarrow> u32 \<Rightarrow> u32 \<Rightarrow> prog_info \<Rightarrow> u32 \<Rightarrow> mm_pool \<times> bmem \<Rightarrow>
    (mm_pool \<times> bmem) res option" where
  "start_server vend self msg zones usage g0 init_elf sm =
     on_return (Some (announce vend self msg zones usage (mm_sys (ms (fst sm))))) (\<lambda>sy.
     let core_usage = usage_words (senv sy)
     in set_up_memory ((mm_info (ms (fst sm)))\<lparr>memory_start := KV2P (core_usage ! 3), memory_info.memory_end := core_usage ! 4\<rparr>)
          sy g0 init_elf sm)"

section \<open>What the start establishes\<close>

text \<open>Page faults are reported to the server from then on, and it is known by its name.\<close>

lemma exceptions_kept:
  "kern (upd_kern f t) = f (kern t)" "exception_suscribed (kern (put_pgs g t)) = exception_suscribed (kern t)"
  "exception_suscribed (upd_proc i h k) = exception_suscribed k"
  "exception_suscribed (upd_status i h' k) = exception_suscribed k"
  by (simp_all add: upd_kern_def put_pgs_def kern_def upd_proc_def upd_status_def)

lemma start_up_init_keeps:
  assumes "start_up_init g0 elf (s, m) = Inr (s', m')"
  shows "exception_suscribed (kern s') = exception_suscribed (kern s)"
proof -
  obtain p g m'' where i: "make_init g0 elf (proc_table (kern s) 1) (pgs_of s, m) = Inr (p, g, m'')"
    using assms by (fastforce simp: start_up_init_def and_then_eq_Inr split: if_splits)
  show ?thesis
    using assms unfolding start_up_init_def prod.case i and_then_simps Let_def
    by (auto simp: exceptions_kept split: if_splits option.splits)
qed

lemma announce_subscribes:
  assumes "announce vend self msg zones usage s = Inr s'" "unat self < proc_max (sk s)"
  shows "exception_suscribed (sk s') 14 = self"
proof -
  obtain s1 r1 s2 r2 s3 r3 r4 where s1: "reg_proc_call vend s self msg TaskMM = Inr (s1, r1)"
    and s2: "reg_exc_msg_call vend s1 self msg EXCEPTION_PF = Inr (s2, r2)"
    and s3: "query_env_call vend s2 self msg 4 zones (12 * 10) = Inr (s3, r3)"
    and s4: "query_env_call vend s3 self msg 5 usage 20 = Inr (s', r4)"
    using assms(1) by (auto simp: announce_def and_then_eq_Inr)
  have call: "\<exists>rs. systask vend t m = Inr (t', rs)" if "sys_call vend t p m' = Inr (t', r)" "m = m'\<lparr>m_sender := p\<rparr>" for t t' p m m' r
    using that by (auto simp: sys_call_def and_then_eq_Inr)
  have q: "sk t' = sk t" if "query_env_call vend t self msg k b n = Inr (t', r)" for t t' k b n r
  proof -
    have "do_request vend QUERY_ENV t m = Inr (t', rs) \<Longrightarrow> sk t' = sk t" for m rs
      by (auto simp: query_env_def copy_out_def Let_def split: if_splits prod.splits option.splits)
    moreover have "request_of (request_no QUERY_ENV AND 0x7FFFFFFF) = Some QUERY_ENV" by (rule request_of_no)
    ultimately show ?thesis
      using that by (auto simp: query_env_call_def sys_call_def systask_def sys_msg_def and_then_eq_Inr split: if_splits)
  qed
  have "exception_suscribed (sk s2) 14 = self"
  proof -
    have "request_of (request_no REG_EXC_MSG AND 0x7FFFFFFF) = Some REG_EXC_MSG" by (rule request_of_no)
    then show ?thesis
      using s2 by (auto simp: reg_exc_msg_call_def sys_call_def systask_def sys_msg_def and_then_eq_Inr reply_def suscribe_exc_def
        split: if_splits)
  qed
  then show ?thesis using q [OF s3] q [OF s4] by simp
qed

text \<open>
  A server whose start comes to its end is told of page faults: the start of the first program leaves the
  subscription as it is.
\<close>

lemma on_return_Inr: "on_return r f = Some (Inr y) \<longleftrightarrow> (\<exists>x. r = Some (Inr x) \<and> f x = Some (Inr y))"
  by (cases r) (auto split: sum.split)

lemma set_up_memory_keeps:
  assumes "set_up_memory mi sy g0 elf sm = Some (Inr (s', m'))"
  shows "exception_suscribed (kern (ms s')) = exception_suscribed (sk sy)"
proof -
  obtain mj where mj: "init_memory mi = Some mj" using assms by (cases "init_memory mi") (auto simp: set_up_memory_def)
  obtain mk pool h where "on_return (Some (start_up_init g0 elf (\<lparr>mm_info = mk, mm_sys = sy\<rparr>, snd sm))) (\<lambda>(t, m).
        Some (Inr ((fst sm)\<lparr>ms := t, cells := h, memory_pool := pool\<rparr>, m))) = Some (Inr (s', m'))"
    using assms unfolding set_up_memory_def mj bind.bind_lunit on_return_Inr by fastforce
  then obtain t where t: "start_up_init g0 elf (\<lparr>mm_info = mk, mm_sys = sy\<rparr>, snd sm) = Inr (t, m')" "ms s' = t"
    unfolding on_return_Inr by fastforce
  then show ?thesis using start_up_init_keeps [OF t(1)] by (simp add: kern_def)
qed

lemma start_server_gets_faults:
  assumes "start_server vend self msg zones usage g0 elf sm = Some (Inr (s', m'))"
    and "unat self < proc_max (kern (ms (fst sm)))"
  shows "exception_suscribed (kern (ms s')) 14 = self"
proof -
  obtain sy mi where sy: "announce vend self msg zones usage (mm_sys (ms (fst sm))) = Inr sy"
    and r: "set_up_memory mi sy g0 elf sm = Some (Inr (s', m'))"
    using assms(1) unfolding start_server_def on_return_Inr by (auto simp: Let_def)
  show ?thesis
    using set_up_memory_keeps [OF r] announce_subscribes [OF sy] assms(2) by (simp add: kern_def)
qed

end
