(* ===== verification/Boot.thy ===== *)
theory Boot
  imports Process_Props Systask Port_Io
begin

text \<open>
  The end of \<open>core_main\<close> in \<^verbatim>\<open>core/core.c\<close>: the idle process and the processes of the modules, whose
  list is in \<^verbatim>\<open>header/modules/modules.h\<close>; the idle process itself, and the reset by the keyboard
  controller.
\<close>

section \<open>Definitions\<close>

text \<open>The controller is ready when the second bit of its status is clear; then the reset is pulsed.\<close>

partial_function (option) restart :: "('d, 'z) ports_scheme \<Rightarrow> 'd \<Rightarrow> 'd option" where
  "restart P d =
     (let (good, d) = inb P 0x64 d
      in if good AND 0x02 \<noteq> 0 then restart P d else Some (outb P 0x64 0xFE d))"

text \<open>A turn of the idle process: a message goes back to its sender.\<close>

definition SysIdle_turn :: "message \<Rightarrow> message" where
  "SysIdle_turn msg = send_back msg"

text \<open>The modules' processes: the system task asks for its pid, the others take what is free.\<close>

definition modules_preferred_pid :: "u32 list" where
  "modules_preferred_pid = [2, 0xFFFFFFFE, 0xFFFFFFFE, 0xFFFFFFFE, 0xFFFFFFFE, 0xFFFFFFFE, 0xFFFFFFFE]"

fun init_procs :: "u32 \<Rightarrow> (u32 \<times> u32) list \<Rightarrow> kernel \<times> core_mem \<Rightarrow> (kernel \<times> core_mem) res" where
  "init_procs pd [] s = Inr s"
| "init_procs pd ((p, entry) # ms) s =
     and_then (init_proc (fst s) (snd s) p entry pd) (\<lambda>(k, cm, _). init_procs pd ms (k, cm))"

text \<open>Two passes over the modules, those that ask for a pid first. Pid 1 is left to the first program.\<close>

definition start_processes :: "u32 \<Rightarrow> u32 \<Rightarrow> u32 list \<Rightarrow> kernel \<times> core_mem \<Rightarrow> (kernel \<times> core_mem) res" where
  "start_processes pd idle modules s =
     and_then (init_proc (fst s) (snd s) 0 idle pd) (\<lambda>(k, cm, _).
       let k = k\<lparr>proc_bitmap := set_bit (proc_bitmap k) 1\<rparr>;
           ms = zip modules_preferred_pid modules
       in and_then (init_procs pd (filter (\<lambda>(p, _). p < 0xFFFF) ms) (k, cm))
            (init_procs pd (filter (\<lambda>(p, _). 0xFFFF \<le> p) ms)))"

section \<open>Filling the table\<close>

text \<open>The bits of the pids below \<open>n\<close> are set, and no others.\<close>

definition pids_below :: "kernel \<Rightarrow> nat \<Rightarrow> bool" where
  "pids_below k n \<longleftrightarrow> (\<forall>j. bit_at (proc_bitmap k) j \<longleftrightarrow> j < n)"

text \<open>A process as it is left to the scheduler.\<close>

definition started :: "kernel \<Rightarrow> nat \<Rightarrow> u32 \<Rightarrow> u32 \<Rightarrow> bool" where
  "started k i page entry \<longleftrightarrow> pid (proc_table k i) = of_nat i \<and> runnable k i \<and> pstack (proc_table k i) = page \<and>
     sf_esp (stack (proc_table k i)) = page + PG_SIZE \<and> sf_eip (stack (proc_table k i)) = entry"

lemma started_next: "proc_table k' i = (proc_table k i)\<lparr>next_proc := q\<rparr> \<Longrightarrow> started k' i page entry = started k i page entry"
  by (simp add: started_def runnable_def)

lemma append_proc_frame:
  "append_proc k i = Some k' \<Longrightarrow> proc_max k' = proc_max k \<and> proc_bitmap_size k' = proc_bitmap_size k"
  by (auto simp: append_proc_def upd_proc_def split: option.splits)

lemma init_proc_frame:
  "init_proc k cm p entry pd = Inr (k', cm', i) \<Longrightarrow> proc_max k' = proc_max k \<and> proc_bitmap_size k' = proc_bitmap_size k"
  by (auto simp: init_proc_def upd_proc_def Let_def split: if_splits prod.splits option.splits dest!: append_proc_frame)

text \<open>What one more process changes.\<close>

lemma init_proc_started:
  assumes "procs k ps" "fresh_slot k p i" "unat i < proc_max k" "unat i \<notin> set ps" "kalloc_pages cm 0 = (cm', page)"
  shows "\<exists>k'. init_proc k cm p entry pd = Inr (k', cm', i) \<and> procs k' (ps @ [unat i]) \<and> started k' (unat i) page entry \<and>
    proc_max k' = proc_max k \<and> proc_bitmap_size k' = proc_bitmap_size k \<and>
    (\<forall>j. bit_at (proc_bitmap k') j \<longleftrightarrow> j = unat i \<or> bit_at (proc_bitmap k) j) \<and>
    (\<forall>j g e. j \<noteq> unat i \<longrightarrow> started k' j g e = started k j g e)"
proof -
  obtain k' where k': "init_proc k cm p entry pd = Inr (k', cm', i)" "procs k' (ps @ [unat i])" "created k i page entry pd k'"
    using init_proc_ok [OF assms] by blast
  have c: "started k' (unat i) page entry" "\<forall>j. bit_at (proc_bitmap k') j \<longleftrightarrow> j = unat i \<or> bit_at (proc_bitmap k) j"
    "\<forall>j. j \<noteq> unat i \<longrightarrow> proc_table k' j = (proc_table k j)\<lparr>next_proc := nexts k' j\<rparr>"
    using k'(3) by (simp_all add: created_def started_def Let_def)
  have "\<forall>j g e. j \<noteq> unat i \<longrightarrow> started k' j g e = started k j g e" using c(3) started_next by metis
  then show ?thesis using k' c init_proc_frame [OF k'(1)] by blast
qed

lemma fresh_wild: "pids_below k n \<Longrightarrow> n < 32 \<Longrightarrow> 0 < proc_bitmap_size k \<Longrightarrow> fresh_slot k PROC_ANY (of_nat n)"
  by (simp add: fresh_slot_def pids_below_def unat_of_nat32)

text \<open>When no page is left, the processes that take any pid get stacks at address 0.\<close>

lemma init_procs_wild:
  assumes "freemem cm = 0"
  shows "procs k ps \<Longrightarrow> pids_below k n \<Longrightarrow> set ps \<subseteq> {..<n} \<Longrightarrow> n + length es \<le> 32 \<Longrightarrow> n + length es \<le> proc_max k \<Longrightarrow>
    0 < proc_bitmap_size k \<Longrightarrow>
    \<exists>k'. init_procs pd (map (\<lambda>e. (PROC_ANY, e)) es) (k, cm) = Inr (k', cm) \<and> procs k' (ps @ [n..<n + length es]) \<and>
      (\<forall>i < length es. started k' (n + i) 0 (es ! i)) \<and> (\<forall>j < n. \<forall>g e. started k' j g e = started k j g e)"
proof (induction es arbitrary: k ps n)
  case (Cons e es)
  have n: "unat (of_nat n :: u32) = n" using Cons.prems(4) by (intro unat_of_nat32) simp
  have fresh: "fresh_slot k PROC_ANY (of_nat n)" using Cons.prems(2,4,6) by (intro fresh_wild) simp_all
  have ka: "kalloc_pages cm 0 = (cm, 0)" using assms by (simp add: kalloc_pages_def)
  have room: "unat (of_nat n :: u32) < proc_max k" "unat (of_nat n :: u32) \<notin> set ps"
    using Cons.prems(3,5) unfolding n by auto
  obtain k1 where k1: "init_proc k cm PROC_ANY e pd = Inr (k1, cm, of_nat n)" "procs k1 (ps @ [n])" "started k1 n 0 e"
    "proc_max k1 = proc_max k" "proc_bitmap_size k1 = proc_bitmap_size k"
    "\<forall>j. bit_at (proc_bitmap k1) j \<longleftrightarrow> j = n \<or> bit_at (proc_bitmap k) j"
    "\<forall>j g e. j \<noteq> n \<longrightarrow> started k1 j g e = started k j g e"
    using init_proc_started [OF Cons.prems(1) fresh room ka, of e pd] unfolding n by blast
  have b: "pids_below k1 (Suc n)" using Cons.prems(2) k1(6) by (auto simp: pids_below_def)
  have "set (ps @ [n]) \<subseteq> {..<Suc n}" using Cons.prems(3) by auto
  from Cons.IH [OF k1(2) b this] obtain k' where
    k': "init_procs pd (map (\<lambda>e. (PROC_ANY, e)) es) (k1, cm) = Inr (k', cm)" "procs k' ((ps @ [n]) @ [Suc n..<Suc n + length es])"
    "\<forall>i < length es. started k' (Suc n + i) 0 (es ! i)" "\<forall>j < Suc n. \<forall>g e. started k' j g e = started k1 j g e"
    using Cons.prems(4-6) k1(4,5) by auto
  have "started k' n 0 e" using k'(4) k1(3) by simp
  then have "started k' (n + i) 0 ((e # es) ! i)" if "i < Suc (length es)" for i
    using k'(3) that by (cases i) auto
  moreover have "[n..<n + length (e # es)] = n # [Suc n..<Suc n + length es]" by (simp add: upt_conv_Cons del: upt_Suc)
  moreover have "started k' j g e' = started k j g e'" if "j < n" for j g e' using k'(4) k1(7) that by simp
  ultimately show ?case using k1(1) k'(1,2) by (intro exI [of _ k']) simp
qed simp

text \<open>
  C15. After the boot the processes are the idle process, the system task with pid 2 and the other
  modules with the pids from 3 on, in their order and all runnable. But the list of free pages was
  cleared before: only the idle process has a stack of its own, and all others have the same one, the
  page at address 0.
\<close>

theorem boot_shares_stacks:
  assumes "boot_ok vend env m es" "proc_list k = None" "\<forall>j. \<not> bit_at (proc_bitmap k) j" "0 < proc_bitmap_size k"
    "9 \<le> proc_max k" "length modules = 7"
  shows "\<exists>env' m' k' m1. core_main_memory vend env m = Some (Inr (env', m')) \<and>
    start_processes pd idle modules (k, m') = Inr (k', m1) \<and> procs k' [0, 2, 3, 4, 5, 6, 7, 8] \<and>
    started k' 0 (core_space_start env' + 0xFF000) idle \<and> (\<forall>i < 7. started k' (i + 2) 0 (modules ! i))"
proof -
  obtain env' m' m1 where cm: "core_main_memory vend env m = Some (Inr (env', m'))"
    "kalloc_pages m' 0 = (m1, core_space_start env' + 0xFF000)" "kalloc_pages m1 0 = (m1, 0)"
    using core_main_one_page [OF assms(1), of 0 0] by blast
  have free: "freemem m1 = 0" using cm(3) by (simp add: kalloc_pages_def Let_def split: if_splits)
  obtain x y e1 where ms: "modules = x # e1" "length e1 = 6" using assms(6) by (cases modules) auto
  have "procs k []" using assms(2) by (simp add: procs_def)
  moreover have "fresh_slot k 0 0" using assms(3) by (simp add: fresh_slot_def)
  ultimately obtain k1 where k1: "init_proc k m' 0 idle pd = Inr (k1, m1, 0)" "procs k1 [0]"
    "started k1 0 (core_space_start env' + 0xFF000) idle" "proc_max k1 = proc_max k" "proc_bitmap_size k1 = proc_bitmap_size k"
    "\<forall>j. bit_at (proc_bitmap k1) j \<longleftrightarrow> j = 0"
    using init_proc_started [of k "[]" 0 0 m' m1 "core_space_start env' + 0xFF000" idle pd] assms(3,5) cm(2) by auto
  define k2 where "k2 = k1\<lparr>proc_bitmap := set_bit (proc_bitmap k1) 1\<rparr>"
  have k2: "procs k2 [0]" "started k2 0 (core_space_start env' + 0xFF000) idle" "proc_max k2 = proc_max k"
    "proc_bitmap_size k2 = proc_bitmap_size k" "\<forall>j. bit_at (proc_bitmap k2) j \<longleftrightarrow> j < 2"
    using k1 by (auto simp: k2_def procs_def nexts_def started_def runnable_def bit_at_set_bit less_Suc_eq numeral_2_eq_2)
  have "fresh_slot k2 2 2" using k2(5) by (simp add: fresh_slot_def)
  moreover have "unat (2 :: u32) < proc_max k2" "unat (2 :: u32) \<notin> set [0]" using assms(5) k2(3) by simp_all
  ultimately obtain k3 where k3: "init_proc k2 m1 2 x pd = Inr (k3, m1, 2)" "procs k3 ([0] @ [unat (2 :: u32)])"
    "started k3 (unat (2 :: u32)) 0 x" "proc_max k3 = proc_max k2" "proc_bitmap_size k3 = proc_bitmap_size k2"
    "\<forall>j. bit_at (proc_bitmap k3) j \<longleftrightarrow> j = unat (2 :: u32) \<or> bit_at (proc_bitmap k2) j"
    "\<forall>j g e. j \<noteq> unat (2 :: u32) \<longrightarrow> started k3 j g e = started k2 j g e"
    using init_proc_started [OF k2(1) _ _ _ cm(3)] by blast
  have "pids_below k3 3" using k3(6) k2(5) by (auto simp: pids_below_def)
  then obtain k4 where k4: "init_procs pd (map (\<lambda>e. (PROC_ANY, e)) e1) (k3, m1) = Inr (k4, m1)" "procs k4 ([0, 2] @ [3..<9])"
    "\<forall>i < 6. started k4 (3 + i) 0 (e1 ! i)" "\<forall>j < 3. \<forall>g e. started k4 j g e = started k3 j g e"
    using init_procs_wild [OF free k3(2), of 3 e1 pd] ms(2) assms(4,5) k3(4,5) k2(3,4) by auto
  have ini: "start_processes pd idle modules (k, m') = Inr (k4, m1)"
  proof -
    obtain a b c d e f where e1: "e1 = [a, b, c, d, e, f]" using ms(2) by (auto simp: eval_nat_numeral length_Suc_conv)
    have f: "filter (\<lambda>(p, _). p < 0xFFFF) (zip modules_preferred_pid modules) = [(2, x)]"
      "filter (\<lambda>(p, _). 0xFFFF \<le> p) (zip modules_preferred_pid modules) = map (\<lambda>e. (PROC_ANY, e)) e1"
      by (simp_all add: modules_preferred_pid_def ms(1) e1)
    have "init_procs pd [(2, x)] (k2, m1) = Inr (k3, m1)" using k3(1) by simp
    then show ?thesis
      unfolding start_processes_def fst_conv snd_conv k1(1) f Let_def
      using k4(1) by (simp add: k2_def [symmetric] del: init_procs.simps One_nat_def)
  qed
  have "started k4 (i + 2) 0 (modules ! i)" if "i < 7" for i
  proof (cases i)
    case 0
    have two: "unat (2 :: u32) = 2" "(2 :: nat) < 3" by simp_all
    have "started k4 2 0 x" using k3(3) k4(4) two(2) unfolding two(1) by blast
    then show ?thesis unfolding 0 ms(1) nth_Cons_0 add_0 .
  next
    case (Suc r)
    then have "started k4 (3 + r) 0 (e1 ! r)" using that k4(3) by simp
    moreover have "3 + r = i + 2" using Suc by simp
    ultimately show ?thesis using Suc ms(1) by simp
  qed
  moreover have "[3..<9] = [3, 4, 5, 6, 7, 8 :: nat]" by (simp add: upt_conv_Cons)
  moreover have "started k4 0 (core_space_start env' + 0xFF000) idle" using k4(4) k3(7) k2(2) by simp
  ultimately show ?thesis using cm(1) ini k4(2) by (intro exI [of _ env'] exI [of _ m'] exI [of _ k4] exI [of _ m1]) simp
qed

text \<open>The environment after \<open>memset\<close>, with room for nine processes.\<close>

definition empty_table :: kernel where
  "empty_table = demo_ring\<lparr>proc_list := None, proc_bitmap := (\<lambda>_. 0), proc_max := 9, proc_bitmap_size := 1\<rparr>"

theorem boot_shares_stacks_witness:
  "\<exists>env' m' k' m1. core_main_memory 0x80150000 demo_env demo_core = Some (Inr (env', m')) \<and>
    start_processes 0x80100000 0x80100100 [1, 2, 3, 4, 5, 6, 7] (empty_table, m') = Inr (k', m1) \<and>
    started k' 2 0 1 \<and> started k' 3 0 2"
proof -
  have e: "proc_list empty_table = None" "\<forall>j. \<not> bit_at (proc_bitmap empty_table) j" "0 < proc_bitmap_size empty_table"
    "9 \<le> proc_max empty_table" "length [1, 2, 3, 4, 5, 6, 7 :: u32] = 7"
    by (simp_all add: empty_table_def bit_at_def)
  obtain env' m' k' m1 where *: "core_main_memory 0x80150000 demo_env demo_core = Some (Inr (env', m'))"
    "start_processes 0x80100000 0x80100100 [1, 2, 3, 4, 5, 6, 7] (empty_table, m') = Inr (k', m1)"
    "\<forall>i < 7. started k' (i + 2) 0 ([1, 2, 3, 4, 5, 6, 7] ! i)"
    using boot_shares_stacks [OF demo_boot_ok e, of "0x80100000" "0x80100100"] by blast
  have "started k' (0 + 2) 0 ([1, 2, 3, 4, 5, 6, 7] ! 0)" "started k' (1 + 2) 0 ([1, 2, 3, 4, 5, 6, 7] ! 1)"
    by (rule * (3) [rule_format], simp)+
  then show ?thesis using *(1,2) by (auto simp: numeral_2_eq_2 numeral_3_eq_3)
qed

end
