(* ===== verification/Init_Program.thy ===== *)
theory Init_Program
  imports Libos
begin

text \<open>
  The first program, \<^verbatim>\<open>init/init.c\<close>: it forks, the child exits with status 10, and the parent
  collects its children for ever. The texts are read from the program's image, which \<open>strings\<close>
  stands for; what the buffers on the stack hold is in \<open>tm\<close>, \<open>qm\<close>, \<open>m\<close> and \<open>buf\<close>.
\<close>

definition say :: "'w services \<Rightarrow> message \<Rightarrow> message \<Rightarrow> message \<Rightarrow> u32 \<Rightarrow> string \<Rightarrow> u32 list \<Rightarrow> 'w \<Rightarrow> 'w res option" where
  "say S tm qm m buf fmt args w =
     map_option (\<lambda>r. and_then r (\<lambda>(_, w). Inr w)) (printf S (\<lambda>_. []) tm qm m buf (bytes fmt) args w)"

text \<open>One turn of the loop of the parent.\<close>

definition init_turn :: "'w services \<Rightarrow> message \<Rightarrow> message \<Rightarrow> message \<Rightarrow> u32 \<Rightarrow> 'w \<Rightarrow> 'w res option" where
  "init_turn S tm qm m buf w =
     Option.bind (wait S tm qm m w) (\<lambda>r. case r of
       Inl e \<Rightarrow> Some (Inl e)
     | Inr (cp, st, w) \<Rightarrow> say S tm qm m buf (''[INIT] Child %d exited with status %d.'' @ [CHR 0x0A]) [cp, st] w)"

text \<open>
  What comes before the loop. The child goes on behind the call of \<open>exit\<close> when that returns, and then waits
  for children as its parent does. A fork that failed is taken for the parent's side.
\<close>

definition init_start :: "'w services \<Rightarrow> message \<Rightarrow> message \<Rightarrow> message \<Rightarrow> u32 \<Rightarrow> 'w \<Rightarrow> 'w res option" where
  "init_start S tm qm m buf w =
     Option.bind (say S tm qm m buf (''[INIT] Init Process Start.'' @ [CHR 0x0A]) [] w) (\<lambda>r. case r of
       Inl e \<Rightarrow> Some (Inl e)
     | Inr w \<Rightarrow>
         Option.bind (fork S tm qm m w) (\<lambda>r. case r of
           Inl e \<Rightarrow> Some (Inl e)
         | Inr (ret, w) \<Rightarrow>
             if ret \<noteq> 0 then say S tm qm m buf (''I am parent, child pid is %d'' @ [CHR 0x0A]) [ret] w
             else Option.bind (say S tm qm m buf (''I am child, going to exec test.out'' @ [CHR 0x0A]) [] w) (\<lambda>r. case r of
                    Inl e \<Rightarrow> Some (Inl e)
                  | Inr w \<Rightarrow> exit S tm qm m 10 w)))"

text \<open>When \<open>TaskTTY\<close> does not answer, the first text is never written and nothing else is done.\<close>

lemma init_needs_terminal:
  assumes "query_proc S tm qm TaskTTY w = None"
  shows "init_start S tm qm m buf w = None"
proof -
  have "vsprintf (\<lambda>_. []) (bytes (''[INIT] Init Process Start.'' @ [CHR 0x0A])) [] =
      Inr (bytes (''[INIT] Init Process Start.'' @ [CHR 0x0A]))"
    by (simp add: bytes_def vsprintf.simps)
  then show ?thesis using assms by (simp add: init_start_def say_def printf_def bytes_def)
qed

end
