(* ===== verification/Libos_Props.thy ===== *)
theory Libos_Props
  imports Libos
begin

text \<open>
  The library of the programs on top of the system task: the calls to process 2 are turns of its
  loop, so the two ends of a request are composed, and a name that one process registers is found
  by another.
\<close>

section \<open>The system task as the other end\<close>

text \<open>
  The calls of process \<open>p\<close>. Those to other servers are \<open>elsewhere\<close>; without an answer the process stays
  blocked.
\<close>

definition systask_services :: "u32 \<Rightarrow> u32 \<Rightarrow> (message \<Rightarrow> sys \<Rightarrow> (message \<times> sys) option) \<Rightarrow> sys services" where
  "systask_services vend p elsewhere =
     \<lparr>call = (\<lambda>m s.
        if m_receiver m = SYSTASK_PID
        then (case systask vend s (m\<lparr>m_sender := p\<rparr>) of
                Inr (s, r # _) \<Rightarrow> Some (r, s)
              | _ \<Rightarrow> None)
        else elsewhere m s)\<rparr>"

text \<open>The program's side of a request and the server's agree on its number.\<close>

lemma systask_services_call:
  assumes "unat p < proc_max (sk s)" "m_receiver m = SYSTASK_PID" "m_type m = request_no r AND 0x7FFFFFFF"
  shows "call (systask_services vend p elsewhere) m s =
    (case do_request vend r s (m\<lparr>m_sender := p\<rparr>) of Inr (s, a # _) \<Rightarrow> Some (a, s) | _ \<Rightarrow> None)"
  using assms request_of_no [of r] by (simp add: systask_services_def systask_def)

lemma get_ticks_systask:
  assumes "unat p < proc_max (sk s)"
  shows "get_ticks (systask_services vend p elsewhere) m s = Some (beats (sk s), s)"
  using assms by (simp add: get_ticks_def systask_services_call [where r = GET_TICKS] reply_def send_back_def)

section \<open>Names in messages\<close>

lemma word_bytes_bytes_word:
  "word_bytes (bytes_word bs i) = [bs ! i, bs ! (i + 1), bs ! (i + 2), bs ! (i + 3)]"
  unfolding word_bytes_def bytes_word_def by (auto intro!: bit_word_eqI simp: bit_simps u8_bit_bound)

lemma b16_set_b16:
  assumes "length bs = 16"
  shows "b16 (set_b16 m bs) = bs"
proof -
  have "bs = map ((!) bs) [0..<16]" using map_nth [of bs] assms by simp
  also have "\<dots> = b16 (set_b16 m bs)" by (simp add: b16_def set_b16_def word_bytes_bytes_word upt_conv_Cons eval_nat_numeral)
  finally show ?thesis by simp
qed

lemma length_b16 [simp]: "length (b16 m) = 16"
  by (simp add: b16_def word_bytes_def)

lemma cstr_prefix: "0 \<notin> set name \<Longrightarrow> cstr (name @ 0 # rest) = name"
  by (induction name) (auto simp: cstr_def)

lemma b16_of_name:
  assumes "length name < 16" "0 \<notin> set name"
  shows "cstr (b16 (set_b16 m (name @ 0 # drop (Suc (length name)) (b16 m')))) = name"
    and "0 \<in> set (b16 (set_b16 m (name @ 0 # drop (Suc (length name)) (b16 m'))))"
  using assms by (simp_all add: b16_set_b16 cstr_prefix)

section \<open>The lookup\<close>

lemma query_from_chain:
  assumes "chain (nexts k) h ps" "i \<in> set ps" "cstr (proc_name (proc_table k i)) = name"
    and "\<And>j. j \<in> set ps \<Longrightarrow> cstr (proc_name (proc_table k j)) = name \<Longrightarrow> j = i"
  shows "query_from k name h = Some (pid (proc_table k i))"
  using assms
proof (induction ps arbitrary: h)
  case (Cons p ps)
  have h: "h = Some p" "chain (nexts k) (nexts k p) ps" using Cons.prems(1) by auto
  show ?case
  proof (cases "p = i")
    case True
    have "name = cstr (proc_name (proc_table k p))" using True Cons.prems(3) by simp
    then show ?thesis unfolding h(1) True [symmetric] by (subst query_from.simps) simp
  next
    case False
    then have "name \<noteq> cstr (proc_name (proc_table k p))" using Cons.prems(4) [of p] by auto
    then have "query_from k name h = query_from k name (nexts k p)"
      unfolding h(1) by (subst query_from.simps) simp
    also have "\<dots> = Some (pid (proc_table k i))"
      by (rule Cons.IH [OF h(2) _ Cons.prems(3)]) (use Cons.prems(2,4) False in auto)
    finally show ?thesis .
  qed
qed simp

lemma query_proc_finds:
  assumes "unat p < proc_max (sk s)" "length name < 16" "0 \<notin> set name"
    and "query_from (sk s) name (proc_list (sk s)) = Some q" "q \<noteq> 0"
  shows "query_proc (systask_services vend p elsewhere) tm m name s = Some (Inr (q, s))"
proof -
  let ?m = "set_b16 m (name @ 0 # drop (Suc (length name)) (b16 m))"
  have b: "b16 (?m\<lparr>m_type := a, m_receiver := b, m_sender := c\<rparr>) = b16 ?m" for a b c
    by (simp add: b16_def)
  have "call (systask_services vend p elsewhere) (?m\<lparr>m_type := 4, m_receiver := 2\<rparr>) s =
      Some (send_back (?m\<lparr>m_type := 4, m_receiver := 2, m_sender := p, m_major := q\<rparr>), s)"
    using assms
    by (simp add: systask_services_call [where r = QUERY_PROC] reply_def do_query_proc_def b b16_of_name(1))
  then have "query_loop (systask_services vend p elsewhere) tm (beats (sk s)) ?m s = Some (q, s)"
    using assms
    by (subst query_loop.simps) (simp add: get_ticks_systask elapsed_ms_def send_back_def)
  then show ?thesis using assms by (simp add: query_proc_def get_ticks_systask)
qed

section \<open>The name service, as its clients see it\<close>

text \<open>
  What the functions of the library rely on: the number a server is known under is what \<open>query_proc\<close>
  returns, at once and without any other effect.
\<close>

locale name_service =
  fixes S :: "'w services"
    and known :: "'w \<Rightarrow> u8 list \<Rightarrow> u32 \<Rightarrow> bool"
  assumes lookup: "known w name q \<Longrightarrow> length name < 16 \<Longrightarrow> 0 \<notin> set name \<Longrightarrow> q \<noteq> 0 \<Longrightarrow>
    query_proc S tm m name w = Some (Inr (q, w))"
begin

lemma mem_service_asks:
  assumes "known w TaskMM q" "q \<noteq> 0"
  shows "mem_service S tm qm m w = map_option Inr (call S (m\<lparr>m_receiver := q\<rparr>) w)"
  using assms lookup [of w TaskMM q tm qm] by (simp add: mem_service_def TaskMM_def)

lemma fork_asks:
  assumes "known w TaskMM q" "q \<noteq> 0"
  shows "fork S tm qm m w =
    map_option (\<lambda>(r, w). Inr (m_major r, w)) (call S (m\<lparr>m_type := MEM_FORK_PROC, m_receiver := q\<rparr>) w)"
  unfolding fork_def mem_service_asks [OF assms]
  by (simp add: option.map_comp comp_def case_prod_beta split_def)

lemma wait_asks:
  assumes "known w TaskMM q" "q \<noteq> 0"
  shows "wait S tm qm m w =
    map_option (\<lambda>(r, w). Inr (if m_type r = 0x12344321 then m_d1 r else -1, m_major r, w))
      (call S (m\<lparr>m_type := MEM_WAIT_PROC, m_receiver := q\<rparr>) w)"
  unfolding wait_def mem_service_asks [OF assms]
  by (simp add: option.map_comp comp_def case_prod_beta split_def)

lemma printf_asks:
  assumes "known w TaskTTY q" "q \<noteq> 0" "vsprintf strings fmt args = Inr out" "length out < 256" "0 \<notin> set out"
  shows "printf S strings tm qm m buf fmt args w =
    map_option (\<lambda>(r, w). Inr (length out, w))
      (call S (m\<lparr>m_major := buf, m_type := TTY_WRITE_NO, m_receiver := q\<rparr>) w)"
proof -
  have all: "takeWhile (\<lambda>c. c \<noteq> 0) out = out" using assms(5) by (induction out) auto
  show ?thesis using assms(1-4) lookup [of w TaskTTY q tm qm] by (simp add: printf_def all TaskTTY_def)
qed

end

text \<open>The system task provides it: a process is known under its name when the walk over the list finds it.\<close>

definition known_process :: "u32 \<Rightarrow> sys \<Rightarrow> u8 list \<Rightarrow> u32 \<Rightarrow> bool" where
  "known_process p s name q \<longleftrightarrow>
     unat p < proc_max (sk s) \<and> query_from (sk s) name (proc_list (sk s)) = Some q"

interpretation names: name_service "systask_services vend p elsewhere" "known_process p" for vend p elsewhere
  by unfold_locales (auto simp: known_process_def intro: query_proc_finds)

section \<open>Registration\<close>

text \<open>What a successful registration does: no process of the first slots had the name.\<close>

lemma reg_proc_call_eq:
  fixes s :: sys
  defines "dup q name \<equiv> \<exists>i < unat (proc_count (sk s)). cstr (proc_name (proc_table (sk s) i)) = name \<and> i \<noteq> unat q"
  assumes "length name < 16" "0 \<notin> set name" "unat q < proc_max (sk s)"
  shows "reg_proc_call vend s q m name =
    (if dup q name then Inr (s, Some 0xFFFFFFFF)
     else Inr (s\<lparr>sk := upd_proc (unat q) (\<lambda>x. x\<lparr>proc_name := name @ 0 # drop (Suc (length name)) (proc_name x)\<rparr>) (sk s)\<rparr>,
               Some 0))"
proof -
  let ?m = "set_b16 (sys_msg m REG_PROC) (name @ 0 # drop (Suc (length name)) (b16 m))"
  have b: "b16 (?m\<lparr>m_sender := c\<rparr>) = b16 ?m" for c by (simp add: b16_def)
  have t: "m_type ?m = request_no REG_PROC AND 0x7FFFFFFF" by (simp add: set_b16_def sys_msg_def)
  have eq: "reg_proc_call vend s q m name = sys_call vend s q ?m"
    using assms by (simp add: reg_proc_call_def b16_def sys_msg_def)
  have slot: "reg_proc_slot (sk s) (unat q) (b16 (?m\<lparr>m_sender := q\<rparr>)) =
      (if dup q name then Inr (sk s, 0xFFFFFFFF)
       else Inr (upd_proc (unat q) (\<lambda>x. x\<lparr>proc_name := name @ 0 # drop (Suc (length name)) (proc_name x)\<rparr>) (sk s), 0))"
    unfolding b reg_proc_slot_def b16_of_name(1) [OF assms(2,3)] dup_def
    using b16_of_name(2) [OF assms(2,3)] by (auto simp: atLeastLessThan_iff)
  show ?thesis
    unfolding eq sys_call_request [OF assms(4) t] by (simp add: slot reply_def send_back_def)
qed

lemma reg_proc_call_ok:
  assumes "reg_proc_call vend s q m name = Inr (s', Some 0)" "length name < 16" "0 \<notin> set name"
    and "unat q < proc_max (sk s)"
  shows "\<forall>i < unat (proc_count (sk s)). cstr (proc_name (proc_table (sk s) i)) = name \<longrightarrow> i = unat q"
    and "\<exists>nm. sk s' = upd_proc (unat q) (\<lambda>x. x\<lparr>proc_name := nm\<rparr>) (sk s) \<and> cstr nm = name"
proof -
  note eq = assms(1) [unfolded reg_proc_call_eq [OF assms(2-4)]]
  show "\<forall>i < unat (proc_count (sk s)). cstr (proc_name (proc_table (sk s) i)) = name \<longrightarrow> i = unat q"
    using eq by (auto split: if_splits)
  have "sk s' = upd_proc (unat q) (\<lambda>x. x\<lparr>proc_name := name @ 0 # drop (Suc (length name)) (proc_name x)\<rparr>) (sk s)"
    using eq by (auto split: if_splits)
  then show "\<exists>nm. sk s' = upd_proc (unat q) (\<lambda>x. x\<lparr>proc_name := nm\<rparr>) (sk s) \<and> cstr nm = name"
    using assms(3)
    by (intro exI [of _ "name @ 0 # drop (Suc (length name)) (proc_name (proc_table (sk s) (unat q)))"])
       (simp add: cstr_prefix upd_proc_def)
qed

text \<open>A process that has registered its name is known by it, when it is in the list of the processes.\<close>

lemma registered_known:
  assumes "procs (sk s) ps" "\<forall>i \<in> set ps. i < unat (proc_count (sk s))"
    and "unat q \<in> set ps" "pid (proc_table (sk s) (unat q)) = q"
    and "length name < 16" "0 \<notin> set name"
    and "reg_proc_call vend s q m name = Inr (s', Some 0)" "unat p < proc_max (sk s)"
  shows "known_process p s' name q"
proof -
  have q: "unat q < proc_max (sk s)" using assms(1,3) by (simp add: procs_def)
  note ok = reg_proc_call_ok [OF assms(7,5,6) q]
  obtain nm where k: "sk s' = upd_proc (unat q) (\<lambda>x. x\<lparr>proc_name := nm\<rparr>) (sk s)" and nm: "cstr nm = name"
    using ok(2) by auto
  have "nexts (sk s') = nexts (sk s)" "proc_list (sk s') = proc_list (sk s)" "proc_max (sk s') = proc_max (sk s)"
    unfolding k by (auto simp: nexts_def upd_proc_def fun_eq_iff)
  moreover have "query_from (sk s') name (proc_list (sk s)) = Some (pid (proc_table (sk s') (unat q)))"
  proof (rule query_from_chain)
    show "chain (nexts (sk s')) (proc_list (sk s)) ps" using assms(1) calculation by (simp add: procs_def)
    show "unat q \<in> set ps" by (rule assms(3))
    show "cstr (proc_name (proc_table (sk s') (unat q))) = name" using nm by (simp add: k upd_proc_def)
    show "j = unat q" if "j \<in> set ps" "cstr (proc_name (proc_table (sk s') j)) = name" for j
      using that ok(1) assms(2) by (auto simp: k upd_proc_def split: if_splits)
  qed
  moreover have "pid (proc_table (sk s') (unat q)) = q" using assms(4) by (simp add: k upd_proc_def)
  ultimately show ?thesis using assms(8) by (simp add: known_process_def)
qed

text \<open>
  C17. A server that has registered its name is found by every other process: \<open>query_proc\<close> returns its
  pid at the first try and changes nothing, whatever the buffers held before. The list must lie in
  the first slots of the table, which are the ones \<open>__reg_proc\<close> compares.
\<close>

theorem registered_is_found:
  assumes "procs (sk s) ps" "\<forall>i \<in> set ps. i < unat (proc_count (sk s))"
    and "unat q \<in> set ps" "pid (proc_table (sk s) (unat q)) = q" "q \<noteq> 0"
    and "length name < 16" "0 \<notin> set name"
    and "reg_proc_call vend s q m name = Inr (s', Some 0)" "unat p < proc_max (sk s)"
  shows "query_proc (systask_services vend p elsewhere) tm m' name s' = Some (Inr (q, s'))"
  using registered_known [OF assms(1-4,6-9)] assms(5-7) by (intro names.lookup)

text \<open>
  The request of a fork reaches the memory server that has registered, and the answer is its own: the parts of
  the system task and of the library fit together.
\<close>

lemma fork_reaches_server:
  assumes "procs (sk s) ps" "\<forall>i \<in> set ps. i < unat (proc_count (sk s))"
    and "unat q \<in> set ps" "pid (proc_table (sk s) (unat q)) = q" "q \<noteq> 0" "q \<noteq> SYSTASK_PID"
    and "reg_proc_call vend s q m TaskMM = Inr (s', Some 0)" "unat p < proc_max (sk s)"
  shows "fork (systask_services vend p elsewhere) tm qm m' s' =
    map_option (\<lambda>(r, t). Inr (m_major r, t)) (elsewhere (m'\<lparr>m_type := MEM_FORK_PROC, m_receiver := q\<rparr>) s')"
proof -
  have "known_process p s' TaskMM q"
    using assms by (intro registered_known [of s ps q TaskMM vend m s' p]) (simp_all add: TaskMM_def)
  from names.fork_asks [OF this assms(5)] show ?thesis using assms(6) by (simp add: systask_services_def)
qed

text \<open>Process 1 of the example registers as the memory server, and process 2 looks for it.\<close>

theorem registered_is_found_witness:
  "\<exists>s'. reg_proc_call 0 demo_sys 1 (demo_msg 0) TaskMM = Inr (s', Some 0) \<and>
     query_proc (systask_services 0 2 (\<lambda>_ _. None)) (demo_msg 0) (demo_msg 0) TaskMM s' = Some (Inr (1, s'))"
proof -
  have name: "length TaskMM < 16" "0 \<notin> set TaskMM" by (simp_all add: TaskMM_def)
  have count: "proc_count (sk demo_sys) = 3" and slots: "proc_name (proc_table (sk demo_sys) i) = []"
    "pid (proc_table (sk demo_sys) i) = of_nat i" for i
    by (simp_all add: demo_sys_def demo_ring_def demo_def demo_proc_def)
  have "\<exists>s'. reg_proc_call 0 demo_sys 1 (demo_msg 0) TaskMM = Inr (s', Some 0)"
    using name by (subst reg_proc_call_eq) (auto simp: demo_sys_simps count slots cstr_def TaskMM_def)
  then obtain s' where "reg_proc_call 0 demo_sys 1 (demo_msg 0) TaskMM = Inr (s', Some 0)" ..
  with registered_is_found [OF demo_sys_simps(1) _ _ _ _ name this, of 2] show ?thesis
    by (auto simp: demo_sys_simps count slots)
qed

end
