(* ===== verification/Spec2Isabelle.thy ===== *)
theory Spec2Isabelle
  imports Page_Allocator Ipc_Props Core_Props Process_Props Kbd_Props Systask_Props Protect Interrupt_Props Dev_Props Address_Space_Props Pool_Requests Libc_Props Driver Fs_Correct Hpet Apic Ahci Font Elf_Props Exec Memory_Start Boot Init_Program Libos_Props
begin

text \<open>
  A verification development for OmochaOS, a small 32-bit kernel in C whose core passes messages between
  processes and whose services are processes of their own. The sources are under
  \<^verbatim>\<open>src/kernel\<close>; file names below are relative to it.

  \<^bold>\<open>The system and how its parts interact.\<close> The core (\<^verbatim>\<open>core/\<close>) sets up memory, drivers, descriptor tables and
  the process table, and starts one process for each module. From then on it runs only in interrupts:
  it delivers hardware interrupts and exceptions to the processes that subscribed to them,
  schedules, and implements two system calls, sending and receiving a message. The modules
  (\<^verbatim>\<open>modules/\<close>) are servers: a loop that receives a request, acts, and sends an answer. The system task owns
  the process table and the registry of names; the memory server owns the pages, the address spaces and the
  pool; the terminal, device, disk and file system servers build on these. Programs reach a server by
  the functions of \<^verbatim>\<open>lib/libos.c\<close>, which look up the server's number by its name and exchange messages with it.

  \<^bold>\<open>How the code is modelled.\<close> A structure is a record with the source's fields, a word of the machine a word of
  its width, so that wrap-around is in the models. A function is a definition of the same name that takes and
  returns the state it touches. Where C leaves its defined part or the machine faults, the result is a \<open>fault\<close>
  (null pointer, index out of bounds, division, uninitialised value, a loop that cannot end); sequencing is
  \<open>and_then\<close>. The build does not define \<^verbatim>\<open>__DEBUG__\<close>, so \<^verbatim>\<open>panic\<close> and \<^verbatim>\<open>assert\<close> are empty, and the
  models go on behind a failed check as the code does. A structure in an array is known by its index, a
  structure in memory by its address. A server's loop is one definition for one turn of it.

  \<^bold>\<open>The theories.\<close>

  \<^item> Foundations: \<open>Omocha_Prelude\<close> (types, faults, theorem collections, lemmas on words), \<open>Res_Monad\<close>,
    \<open>Dlist_Heap\<close> (linked lists), \<open>Bitset\<close> (\<^verbatim>\<open>header/lib/bitset.h\<close>, bit tricks of \<^verbatim>\<open>modules/memory/buddy.h\<close>),
    \<open>Kernel_State\<close> (\<^verbatim>\<open>header/generic/typedefs.h\<close>, \<^verbatim>\<open>header/core/process.h\<close>), \<open>Port_Io\<close> and \<open>Machine\<close> (port and
    register accesses as events, with the device's answers as an argument).
  \<^item> Page allocator, \<^verbatim>\<open>modules/memory/buddy.c\<close> and \<^verbatim>\<open>memory_init.c\<close>: \<open>Buddy_Spec\<close> is the contract (the free blocks of
    each order as lists, aligned, disjoint, coalesced), \<open>Buddy\<close> the code, \<open>Buddy_Refine\<close> the refinement,
    \<open>Memory_Init\<close> the initialisation, \<open>Page_Allocator\<close> the results for clients: allocations succeed exactly when a
    block is free, do not overlap, and freeing restores what was there.
  \<^item> Messages, \<^verbatim>\<open>core/syscall_impl.c\<close>: \<open>Ipc\<close>, its contract \<open>Ipc_Spec\<close> with the sender queues as lists,
    \<open>Ipc_Refine\<close>, and \<open>Ipc_Props\<close>: what send and receive do on every branch, the invariant over all runs of
    \<open>ipc_step\<close> (sends, receives, interrupts, exceptions), and what the deadlock check decides.
  \<^item> Core: \<open>Core_Memory\<close>, \<open>Core_Props\<close> (\<^verbatim>\<open>core/memory.c\<close>, \<^verbatim>\<open>core/core.c\<close>), \<open>Process_Table\<close>, \<open>Process_Props\<close>
    (\<^verbatim>\<open>core/process.c\<close>: creation, round robin, no starvation), \<open>Interrupt\<close>, \<open>Interrupt_Props\<close> (\<^verbatim>\<open>core/interrupt.c\<close>),
    \<open>Protect\<close> (descriptors), \<open>Driver\<close> (\<^verbatim>\<open>core/driver.c\<close>), \<open>Boot\<close> (the processes started at the end of \<open>core_main\<close>).
  \<^item> System task, \<^verbatim>\<open>modules/systask/systask.c\<close> with its clients in \<^verbatim>\<open>header/modules/systask.h\<close>: \<open>Systask\<close>,
    \<open>Systask_Props\<close> (creation and exit of processes).
  \<^item> Memory server, \<^verbatim>\<open>modules/memory/\<close>: \<open>Paging\<close> (\<^verbatim>\<open>paging.c\<close>, \<^verbatim>\<open>sbrk.c\<close>, \<^verbatim>\<open>pagefault.c\<close>), \<open>Paging_Spec\<close> (the
    processor's view of an address space), \<open>Paging_Props\<close>, \<open>Page_Fault\<close> (copy on write), \<open>Address_Space_Props\<close>
    (mapping); \<open>Process_Memory\<close> (\<^verbatim>\<open>fork.c\<close>, \<^verbatim>\<open>exit.c\<close>), \<open>Exit_Props\<close>; \<open>Kmem\<close>, \<open>Kmem_Props\<close> (\<^verbatim>\<open>kmem.c\<close>);
    \<open>Memory_Server\<close> and \<open>Pool_Requests\<close> (the requests of \<^verbatim>\<open>memory.c\<close>), \<open>Memory_Start\<close> (what comes before its loop).
  \<^item> Programs: \<open>Elf\<close>, \<open>Elf_Props\<close> (\<^verbatim>\<open>header/lib/elf.h\<close>, loading segments), \<open>Exec_Stack\<close> (the stack of a new
    program equals a reference layout), \<open>Exec\<close> (\<^verbatim>\<open>execve.c\<close>), \<open>Libos\<close>, \<open>Libos_Props\<close> (\<^verbatim>\<open>lib/libos.c\<close> over
    the system task: a registered server is found, a fork's request reaches it), \<open>Init_Program\<close> (\<^verbatim>\<open>init/init.c\<close>).
  \<^item> Libraries: \<open>Libc\<close>, \<open>Libc_Props\<close> (\<^verbatim>\<open>lib/string.c\<close>, \<^verbatim>\<open>lib/stdlib.c\<close>), and \<^verbatim>\<open>lib/rbtree.c\<close> in \<open>Rbtree\<close>, with the trees
    as values in \<open>Rbtree_Spec\<close> and the operations in \<open>Rbtree_Props\<close>, \<open>Rbtree_Ops\<close>, \<open>Rbtree_Index\<close>.
  \<^item> Input and output: \<open>Keymap\<close>, \<open>Kbd\<close>, \<open>Kbd_Props\<close> (\<^verbatim>\<open>modules/tty/\<close>: keyboard, terminal, monitor), \<open>Dev\<close>,
    \<open>Dev_Props\<close> (\<^verbatim>\<open>modules/device/dev.c\<close>), \<open>Hd\<close>, \<open>Hd_Props\<close> (\<^verbatim>\<open>modules/hd/hd.c\<close>), \<open>Fs\<close>, \<open>Fs_Props\<close>, \<open>Fs_Lookup\<close>,
    \<open>Fat_Volume\<close> (what the bytes of a FAT32 volume say, apart from the server's reading of them) and
    \<open>Fs_Correct\<close> (\<^verbatim>\<open>modules/fs/fs.c\<close>: from the boot sector to the bytes of a named file).
  \<^item> Board, \<^verbatim>\<open>driver/\<close>: \<open>Machine\<close> (\<^verbatim>\<open>8259A.c\<close>, \<^verbatim>\<open>8253.c\<close>, \<^verbatim>\<open>port.c\<close>, \<^verbatim>\<open>pci.c\<close>), \<open>Acpi\<close>, \<open>Hpet\<close>, \<open>Apic\<close>,
    \<open>Ahci\<close>, \<open>Graphic\<close>, \<open>Graphic_Props\<close>, \<open>Font\<close>.

  \<^bold>\<open>Interfaces.\<close> Where one part relies on another, a locale states the operations and their laws and is
  interpreted on the model of the code: \<open>bitmap\<close> (as \<open>bs\<close>, by the bit sets), \<open>page_source\<close> (as \<open>buddy\<close>, by the page
  allocator), \<open>bounded_fifo\<close> (as \<open>kbq\<close>, by the keyboard's ring buffer), \<open>key_index\<close> (as \<open>rbx\<close>, by the red-black tree),
  \<open>name_service\<close> (as \<open>names\<close>, by the system task). Relations describe runs and structures: \<open>ipc_step\<close>
  (a system call or an event), \<open>client\<close> (a history of allocations), \<open>leads\<close> (a path in a directory tree),
  \<open>types\<close> (keys and the codes they send).

  \<^bold>\<open>Loops and bounds.\<close> A loop with a measure is a terminating function; its bound is a word (the bytes of a
  range, the number of pages) or the length of a list. A loop that may run for ever, such as a walk along
  links or a wait for a device, is a partial function: \<open>None\<close> means that it does not return, and that it
  does return is part of the results about it. Fuel is used once, in \<open>init_blocks\<close>: 1024
  is the number of blocks of 4 MB in 4 GB, and the allocator's initialisation is proved to end within it.
  Results that need room state it, e.g. ranges that do not run over the end of the address space.

  \<^bold>\<open>What the code relies on.\<close> The file system server reads the disk by messages to the disk driver; the driver's
  answers are arguments, because the loop that would give them is in a comment in \<^verbatim>\<open>modules/hd/hd.c\<close>: in this build
  the server waits for its first answer for ever. Hardware appears as an argument with its documented behaviour as a named hypothesis:
  an ATA drive in its 28-bit programmed mode (\<open>Hd_Props\<close>), the tables of the firmware in memory. Each such
  hypothesis is shown to hold for an instance.

  \<^bold>\<open>Not modelled.\<close> Assembly (\<^verbatim>\<open>core/entry.asm\<close>, \<^verbatim>\<open>core/int.asm\<close>, \<^verbatim>\<open>init/package.S\<close>): what it passes on is an argument.
  The constants of the processor and the boot loader (\<^verbatim>\<open>header/core/cpuid.h\<close>, \<^verbatim>\<open>msr.h\<close>, \<^verbatim>\<open>multiboot.h\<close>, \<^verbatim>\<open>config.h\<close>)
  other than as numerals where they are used, the boot logo, the virtual file system, which so far is
  declarations and a process that does nothing, the generator of the module list, the sample
  application in \<^verbatim>\<open>src/modules\<close>, code in comments, and output for debugging (the text printed about a
  disk's identity and partitions, the panic screen, the read of the first sectors at the end of \<open>core_main\<close>). The
  cache and fence instructions have no effect in the models, which are sequential: interleaving is modelled
  where the kernel has it, as the order of messages and interrupts.
\<close>

end
